(* ===== verification/Prelude.thy ===== *)
theory Prelude
  imports Main "HOL-Library.Word" "HOL-Library.Monad_Syntax"
begin

text \<open>
  Shared vocabulary of the development: the C integer types as words of their width,
  the error numbers of \<^verbatim>\<open>include/kernel/errno.h\<close> and
  \<^verbatim>\<open>usr/liblinux/include/errno.h\<close>, checked access to a C object (an array of a known
  length), and the generic facts on words, lists and options that the component
  theories use.

  A C function that can go wrong (an access outside an object, a failed assertion, a
  dereference of a null pointer) returns an \<open>option\<close>: \<open>None\<close> is "the C program
  has no defined behaviour or has aborted", and an error code that the code itself
  returns is an ordinary value.
\<close>

unbundle bit_operations_syntax

type_synonym u8 = "8 word"
type_synonym u16 = "16 word"
type_synonym u32 = "32 word"
type_synonym u64 = "64 word"

named_theorems obj_simps \<open>unfolding of the checked accesses to a C object\<close>
named_theorems word_nat \<open>reading word arithmetic as arithmetic on nat\<close>

subsection \<open>Error numbers\<close>

definition EBADF :: int where "EBADF = 9"
definition ENOMEM :: int where "ENOMEM = 12"
definition EFAULT :: int where "EFAULT = 14"
definition EINVAL :: int where "EINVAL = 22"
definition EMFILE :: int where "EMFILE = 24"
definition ENOSYS :: int where "ENOSYS = 38"
definition ENOPROTOOPT :: int where "ENOPROTOOPT = 92"
definition EOPNOTSUPP :: int where "EOPNOTSUPP = 95"

lemmas errno_defs = EBADF_def ENOMEM_def EFAULT_def EINVAL_def EMFILE_def ENOSYS_def
  ENOPROTOOPT_def EOPNOTSUPP_def

subsection \<open>Checked access to a C object\<close>

definition rd :: "'a list \<Rightarrow> nat \<Rightarrow> 'a option" where
  "rd xs i = (if i < length xs then Some (xs ! i) else None)"

definition wr :: "'a list \<Rightarrow> nat \<Rightarrow> 'a \<Rightarrow> 'a list option" where
  "wr xs i v = (if i < length xs then Some (xs[i := v]) else None)"

lemma rd_Some_iff [obj_simps]: "rd xs i = Some v \<longleftrightarrow> i < length xs \<and> xs ! i = v"
  by (auto simp: rd_def)

lemma rd_None_iff [obj_simps]: "rd xs i = None \<longleftrightarrow> length xs \<le> i"
  by (auto simp: rd_def)

lemma wr_Some_iff [obj_simps]: "wr xs i v = Some ys \<longleftrightarrow> i < length xs \<and> ys = xs[i := v]"
  by (auto simp: wr_def)

lemma wr_None_iff [obj_simps]: "wr xs i v = None \<longleftrightarrow> length xs \<le> i"
  by (auto simp: wr_def)

lemma rd_ok [simp]: "i < length xs \<Longrightarrow> rd xs i = Some (xs ! i)"
  by (simp add: rd_def)

lemma wr_ok [simp]: "i < length xs \<Longrightarrow> wr xs i v = Some (xs[i := v])"
  by (simp add: wr_def)

lemma rd_wr_same: "wr xs i v = Some ys \<Longrightarrow> rd ys i = Some v"
  by (auto simp: obj_simps)

lemma rd_wr_other: "wr xs i v = Some ys \<Longrightarrow> i \<noteq> j \<Longrightarrow> rd ys j = rd xs j"
  by (auto simp: obj_simps rd_def)

subsection \<open>Generic facts on lists\<close>

lemma take_list_update_same: "i < length xs \<Longrightarrow> take (Suc i) (xs[i := v]) = take i xs @ [v]"
  by (simp add: take_Suc_conv_app_nth)

lemma takeWhile_append_stop: "\<forall>x\<in>set xs. P x \<Longrightarrow> \<not> P y \<Longrightarrow> takeWhile P (xs @ y # ys) = xs"
  by (induction xs) auto

lemma drop_eq_nth_Cons: "i < length xs \<Longrightarrow> drop i xs = xs ! i # drop (Suc i) xs"
  by (rule Cons_nth_drop_Suc [symmetric])

lemma take_drop_before:
  "k + n \<le> p \<Longrightarrow> p \<le> length d \<Longrightarrow> take n (drop k (take p d @ r)) = take n (drop k d)"
  by (simp add: take_drop min_def)

lemma drop_after:
  "p + length e \<le> k \<Longrightarrow> p + length e \<le> length d \<Longrightarrow>
   drop k (take p d @ e @ drop (p + length e) d) = drop k d"
  by simp

lemma take_drop_update_outside:
  "p < k \<or> k + n \<le> p \<Longrightarrow> take n (drop k (xs[p := v])) = take n (drop k xs)"
  by (elim disjE) (simp add: drop_update_cancel, simp add: take_drop take_update_cancel)

subsection \<open>Rounding to a multiple\<close>

lemma nat_round_up:
  fixes x m :: nat
  assumes "0 < m"
  shows "x \<le> (x + m - 1) div m * m" and "(x + m - 1) div m * m < x + m"
proof -
  define y where "y = x + m - 1"
  have d: "y = y div m * m + y mod m" by (rule div_mult_mod_eq [symmetric])
  have m: "y mod m < m" using assms by simp
  have y: "y + 1 = x + m" using assms by (simp add: y_def)
  show "x \<le> (x + m - 1) div m * m"
    unfolding y_def [symmetric] using d m y by linarith
  show "(x + m - 1) div m * m < x + m"
    unfolding y_def [symmetric] using d y by linarith
qed

lemma nat_round_up_multiple:
  fixes k m :: nat
  assumes "0 < m"
  shows "(m * k + m - 1) div m = k"
proof -
  have "m * k + m - 1 = (m - 1) + m * k" using assms by simp
  then show ?thesis using assms by (simp only: div_mult_self2) simp
qed

subsection \<open>Generic facts on words\<close>

lemma unat_add_no_wrap [word_nat]:
  fixes a b :: "'a::len word"
  assumes "unat a + unat b < 2 ^ LENGTH('a)"
  shows "unat (a + b) = unat a + unat b"
  using assms by (simp add: unat_word_ariths)

lemma unat_sub_no_wrap [word_nat]:
  fixes a b :: "'a::len word"
  assumes "b \<le> a"
  shows "unat (a - b) = unat a - unat b"
  using assms by (rule unat_sub)

lemma unat_less_iff [word_nat]: "a < b \<longleftrightarrow> unat a < unat (b :: 'a::len word)"
  by (rule word_less_nat_alt)

lemma unat_le_iff [word_nat]: "a \<le> b \<longleftrightarrow> unat a \<le> unat (b :: 'a::len word)"
  by (rule word_le_nat_alt)

lemma unat_eq_iff: "a = b \<longleftrightarrow> unat a = unat (b :: 'a::len word)"
  by (simp add: word_unat_eq_iff)

lemma unat_lt: "unat (x :: 'a::len word) < 2 ^ LENGTH('a)"
  by (rule unsigned_less)

lemma unat_lt64: "unat (x :: u64) < 2 ^ 64"
  using unat_lt [of x] by simp

lemma unat_of_nat64: "n < 2 ^ 64 \<Longrightarrow> unat (of_nat n :: u64) = n"
  by (simp add: unat_of_nat)

lemma sint_small:
  fixes w :: u64
  assumes "unat w < 2 ^ 63"
  shows "sint w = int (unat w)"
proof -
  have "int (unat w) < int (2 ^ 63)" using assms by (simp only: of_nat_less_iff)
  then have lt: "uint w < 2 ^ 63" by simp
  have "- (2 ^ 63) \<le> uint w" by (rule order_trans [of _ 0]) simp_all
  then have "signed_take_bit 63 (uint w) = uint w" using lt by (rule signed_take_bit_int_eq_self)
  then show ?thesis by (simp add: sint_uint)
qed

lemma unat_pow2:
  assumes "n < LENGTH('a::len)"
  shows "unat (2 ^ n :: 'a word) = 2 ^ n"
  using assms by transfer simp

lemma unat_take_bit: "unat (take_bit n (x :: 'a::len word)) = unat x mod 2 ^ n"
  by (metis unsigned_take_bit_eq take_bit_eq_mod)

lemma unat_mask_and: "unat (x AND mask n) = unat (x :: 'a::len word) mod 2 ^ n"
  by (simp add: unat_take_bit flip: take_bit_eq_mask)

lemma and_not_mask_eq: "(x :: 'a::len word) AND NOT (mask n) = x - take_bit n x"
proof -
  have "x - take_bit n x = x AND NOT (take_bit n x)"
    by (rule disjunctive_diff) (simp add: bit_simps)
  also have "\<dots> = x AND NOT (mask n)"
    by (auto intro: bit_eqI simp: bit_simps)
  finally show ?thesis by simp
qed

lemma unat_and_not_mask: "unat ((x :: 'a::len word) AND NOT (mask n)) = unat x div 2 ^ n * 2 ^ n"
proof -
  have "take_bit n x \<le> x"
    by (simp add: word_le_nat_alt unat_take_bit)
  then have "unat (x - take_bit n x) = unat x - unat x mod 2 ^ n"
    by (simp add: unat_sub unat_take_bit)
  then show ?thesis
    by (simp add: and_not_mask_eq minus_mod_eq_div_mult)
qed

end
