(* ===== verification/Align.thy ===== *)
theory Align
  imports Prelude
begin

text \<open>
  Alignment arithmetic of \<^verbatim>\<open>include/kernel/align.h\<close>, on 64-bit words as in the source,
  and the page sizes of \<^verbatim>\<open>include/kernel/page-alloc.h\<close>. The lemmas read
  \<open>align_down\<close> and \<open>align_up\<close> as rounding of natural numbers, with the condition under which
  rounding up does not wrap around.
\<close>

definition is_aligned :: "u64 \<Rightarrow> u64 \<Rightarrow> bool" where
  "is_aligned sz align \<longleftrightarrow> sz mod align = 0"

definition align_down :: "u64 \<Rightarrow> u64 \<Rightarrow> u64" where
  "align_down sz align = sz AND NOT (align - 1)"

definition align_up :: "u64 \<Rightarrow> u64 \<Rightarrow> u64" where
  "align_up sz align = align_down (sz + align - 1) align"

definition PAGE_SIZE_SMALL :: u64 where
  "PAGE_SIZE_SMALL = push_bit 12 1"

definition PAGE_SIZE_LARGE :: u64 where
  "PAGE_SIZE_LARGE = push_bit 21 1"

lemma PAGE_SIZE_SMALL_eq: "PAGE_SIZE_SMALL = 2 ^ 12"
  by (simp add: PAGE_SIZE_SMALL_def)

lemma PAGE_SIZE_LARGE_eq: "PAGE_SIZE_LARGE = 2 ^ 21"
  by (simp add: PAGE_SIZE_LARGE_def)

lemma unat_PAGE_SIZE_SMALL [simp]: "unat PAGE_SIZE_SMALL = 4096"
  by (simp add: PAGE_SIZE_SMALL_def)

lemma unat_PAGE_SIZE_LARGE [simp]: "unat PAGE_SIZE_LARGE = 2097152"
  by (simp add: PAGE_SIZE_LARGE_def)

lemma align_down_mask: "align_down x (2 ^ n) = x AND NOT (mask n)"
  by (simp add: align_down_def mask_eq_decr_exp)

lemma unat_align_down [word_nat]: "unat (align_down x (2 ^ n)) = unat x div 2 ^ n * 2 ^ n"
  by (simp add: align_down_mask unat_and_not_mask)

lemma is_aligned_iff_dvd:
  assumes "n < 64"
  shows "is_aligned x (2 ^ n) \<longleftrightarrow> 2 ^ n dvd unat x"
proof -
  have "unat (x mod 2 ^ n) = unat x mod 2 ^ n"
    using assms by (simp add: unat_mod_distrib unat_pow2)
  then show ?thesis
    by (metis dvd_eq_mod_eq_0 is_aligned_def unat_eq_zero unsigned_0)
qed

lemma align_up_no_wrap:
  assumes "n < 64" and "unat x + 2 ^ n - 1 < 2 ^ 64"
  shows "unat (align_up x (2 ^ n)) = (unat x + 2 ^ n - 1) div 2 ^ n * 2 ^ n"
proof -
  have one: "(1 :: u64) \<le> 2 ^ n"
    using assms(1) by (simp add: word_le_nat_alt unat_pow2)
  have "unat (2 ^ n - 1 :: u64) = 2 ^ n - 1"
    using assms(1) one by (simp add: unat_sub unat_pow2)
  moreover have "(1::nat) \<le> 2 ^ n"
    by simp
  ultimately have "unat (x + (2 ^ n - 1)) = unat x + 2 ^ n - 1"
    using assms(2) by (subst unat_add_no_wrap) simp_all
  then have "unat (x + 2 ^ n - 1) = unat x + 2 ^ n - 1"
    by (simp add: add_diff_eq)
  then show ?thesis
    by (simp add: align_up_def unat_align_down)
qed

lemma align_up_ge:
  assumes "n < 64" and "unat x + 2 ^ n - 1 < 2 ^ 64"
  shows "x \<le> align_up x (2 ^ n)" and "unat (align_up x (2 ^ n)) < unat x + 2 ^ n"
  using nat_round_up [of "2 ^ n" "unat x"]
  by (simp_all add: word_le_nat_alt align_up_no_wrap [OF assms])

lemma align_up_dvd: "2 ^ n dvd unat (align_up x (2 ^ n))"
  by (simp add: align_up_def unat_align_down)

lemma align_down_le: "align_down x (2 ^ n) \<le> x"
  by (simp add: word_le_nat_alt unat_align_down)

lemma align_down_dvd: "2 ^ n dvd unat (align_down x (2 ^ n))"
  by (simp add: unat_align_down)

lemma align_up_aligned:
  assumes "n < 64" and "2 ^ n dvd unat x"
  shows "align_up x (2 ^ n) = x"
proof -
  obtain k where k: "unat x = 2 ^ n * k"
    using assms(2) by (auto elim: dvdE)
  have lt: "2 ^ n * k < 2 ^ 64"
    using k unat_lt64 [of x] by simp
  have "2 ^ n * k + 2 ^ n \<le> (2::nat) ^ 64"
  proof -
    have e: "(2::nat) ^ 64 = 2 ^ n * 2 ^ (64 - n)"
      using assms(1) by (simp flip: power_add)
    with lt have "2 ^ n * k < 2 ^ n * (2::nat) ^ (64 - n)" by (simp only:)
    then have "k < 2 ^ (64 - n)" by simp
    then have "2 ^ n * Suc k \<le> 2 ^ n * (2::nat) ^ (64 - n)"
      by (intro mult_le_mono2) simp
    with e show ?thesis by (simp only: mult_Suc_right add.commute)
  qed
  moreover have "(0::nat) < 2 ^ n" by simp
  ultimately have nw: "unat x + 2 ^ n - 1 < 2 ^ 64"
    using k by linarith
  have "(2 ^ n * k + 2 ^ n - 1) div 2 ^ n = (k::nat)"
    by (rule nat_round_up_multiple) simp
  then show ?thesis
    by (simp add: unat_eq_iff align_up_no_wrap [OF assms(1) nw] k)
qed

end
