(* ===== verification/Libc.thy ===== *)
theory Libc
  imports Prelude
begin

text \<open>
  The string routines of \<^verbatim>\<open>lib/libc\<close> (kernel) and \<^verbatim>\<open>usr/liblinux/src/string\<close>
  (user space). A C object is the list of its bytes and a pointer into it is an offset; an
  access past the end of the object is \<open>None\<close>. A null pointer result is the inner
  \<open>None\<close>. Objects of one call are distinct, as \<open>memcpy\<close> requires.
\<close>

subsection \<open>Operations\<close>

function strlen_from :: "u8 list \<Rightarrow> nat \<Rightarrow> nat option" where
  "strlen_from s p = (if p < length s then (if s ! p = 0 then Some p else strlen_from s (Suc p)) else None)"
  by pat_completeness auto
termination
  by (relation "measure (\<lambda>(s, p). length s - p)") auto

definition strlen :: "u8 list \<Rightarrow> nat option" where
  "strlen s = strlen_from s 0"

text \<open>\<^verbatim>\<open>while (n--)\<close> with \<^verbatim>\<open>*p == c\<close>: the byte is a signed \<open>char\<close> on x86-64 and is
  compared, after promotion, with the \<open>int\<close> argument.\<close>

fun memchr_from :: "u8 list \<Rightarrow> nat \<Rightarrow> int \<Rightarrow> nat \<Rightarrow> nat option option" where
  "memchr_from s p c 0 = Some None"
| "memchr_from s p c (Suc n) =
     (case rd s p of None \<Rightarrow> None
      | Some b \<Rightarrow> if sint b = c then Some (Some p) else memchr_from s (Suc p) c n)"

definition memchr :: "u8 list \<Rightarrow> int \<Rightarrow> nat \<Rightarrow> nat option option" where
  "memchr s c n = memchr_from s 0 c n"

definition strnlen :: "u8 list \<Rightarrow> nat \<Rightarrow> nat option" where
  "strnlen s maxlen =
     (case memchr s 0 maxlen of None \<Rightarrow> None
      | Some None \<Rightarrow> Some maxlen
      | Some (Some p) \<Rightarrow> Some p)"

text \<open>\<open>memcpy d di s si n\<close> copies \<open>n\<close> bytes from offset \<open>si\<close> of \<open>s\<close> to offset \<open>di\<close>
  of \<open>d\<close>, byte by byte in increasing order.\<close>

fun memcpy :: "u8 list \<Rightarrow> nat \<Rightarrow> u8 list \<Rightarrow> nat \<Rightarrow> nat \<Rightarrow> u8 list option" where
  "memcpy d di s si 0 = Some d"
| "memcpy d di s si (Suc n) =
     (case rd s si of None \<Rightarrow> None
      | Some b \<Rightarrow> (case wr d di b of None \<Rightarrow> None
                 | Some d' \<Rightarrow> memcpy d' (Suc di) s (Suc si) n))"

definition strlcpy :: "u8 list \<Rightarrow> u8 list \<Rightarrow> nat \<Rightarrow> (nat \<times> u8 list) option" where
  "strlcpy dest src n =
     (case strlen src of None \<Rightarrow> None
      | Some ret \<Rightarrow>
          if 0 < n then
            (let len = (if n \<le> ret then n - 1 else ret)
             in case memcpy dest 0 src 0 len of None \<Rightarrow> None
                | Some d \<Rightarrow> map_option (\<lambda>d'. (ret, d')) (wr d len 0))
          else Some (ret, dest))"

definition strerror :: "int \<Rightarrow> string" where
  "strerror errnum =
     (if errnum = EBADF then ''Bad file descriptor''
      else if errnum = EINVAL then ''Invalid argument''
      else if errnum = EMFILE then ''Too many open files''
      else if errnum = ENOSYS then ''Invalid system call number''
      else ''Unknown error'')"

declare strlen_from.simps [simp del]

subsection \<open>C strings\<close>

definition c_string :: "u8 list \<Rightarrow> u8 list \<Rightarrow> bool" where
  "c_string obj s \<longleftrightarrow> 0 \<notin> set s \<and> length s < length obj \<and> take (length s) obj = s \<and> obj ! length s = 0"

lemma c_string_append [simp]: "0 \<notin> set s \<Longrightarrow> c_string (s @ 0 # rest) s"
  by (simp add: c_string_def)

lemma c_stringD:
  assumes "c_string obj s"
  shows "length s < length obj" and "\<And>i. i < length s \<Longrightarrow> obj ! i = s ! i" and "obj ! length s = 0"
    and "\<And>i. i < length s \<Longrightarrow> s ! i \<noteq> 0"
proof -
  show "length s < length obj" and "obj ! length s = 0"
    using assms by (auto simp: c_string_def)
  show "obj ! i = s ! i" if "i < length s" for i
    using assms that by (metis c_string_def nth_take)
  show "s ! i \<noteq> 0" if "i < length s" for i
    using assms that by (metis c_string_def nth_mem)
qed

lemma strlen_from_c_string:
  assumes "c_string obj s" and "p \<le> length s"
  shows "strlen_from obj p = Some (length s)"
  using assms(2)
proof (induction "length s - p" arbitrary: p)
  case 0
  then have "p = length s" by simp
  then show ?case
    using c_stringD [OF assms(1)] by (subst strlen_from.simps) simp
next
  case (Suc k)
  then have "p < length s" by simp
  then show ?case
    using c_stringD [OF assms(1)] Suc by (subst strlen_from.simps) simp
qed

lemma strlen_c_string: "c_string obj s \<Longrightarrow> strlen obj = Some (length s)"
  by (simp add: strlen_def strlen_from_c_string)

lemma strlen_from_SomeD:
  "strlen_from obj p = Some n \<Longrightarrow> p \<le> n \<and> n < length obj \<and> obj ! n = 0 \<and> (\<forall>i. p \<le> i \<and> i < n \<longrightarrow> obj ! i \<noteq> 0)"
proof (induction obj p rule: strlen_from.induct)
  case (1 s p)
  note u = strlen_from.simps [of s p]
  show ?case
  proof (cases "p < length s \<and> s ! p \<noteq> 0")
    case True
    with 1 u have "Suc p \<le> n \<and> n < length s \<and> s ! n = 0 \<and> (\<forall>i. Suc p \<le> i \<and> i < n \<longrightarrow> s ! i \<noteq> 0)"
      by simp
    with True show ?thesis
      by (metis Suc_leD Suc_leI le_eq_less_or_eq)
  next
    case False
    with 1 u show ?thesis by (auto split: if_splits)
  qed
qed

lemma strlen_SomeE:
  assumes "strlen obj = Some n"
  shows "c_string obj (take n obj)" and "length (take n obj) = n"
proof -
  have d: "n < length obj" "obj ! n = 0" "\<And>i. i < n \<Longrightarrow> obj ! i \<noteq> 0"
    using strlen_from_SomeD [of obj 0 n] assms by (auto simp: strlen_def)
  then show "length (take n obj) = n" by simp
  with d show "c_string obj (take n obj)"
    by (auto simp: c_string_def in_set_conv_nth)
qed

subsection \<open>Copying\<close>

lemma length_memcpy: "memcpy d di s si n = Some d' \<Longrightarrow> length d' = length d"
  by (induction d di s si n rule: memcpy.induct) (auto simp: obj_simps split: option.splits)

lemma memcpy_eq:
  "memcpy d di s si n =
     (if n = 0 \<or> si + n \<le> length s \<and> di + n \<le> length d
      then Some (take di d @ take n (drop si s) @ drop (di + n) d) else None)"
proof (induction d di s si n rule: memcpy.induct)
  case (1 d di s si)
  then show ?case by simp
next
  case (2 d di s si n)
  show ?case
  proof (cases "si < length s \<and> di < length d")
    case True
    then have e: "memcpy d di s si (Suc n) = memcpy (d[di := s ! si]) (Suc di) s (Suc si) n"
      by simp
    show ?thesis
    proof (cases "si + Suc n \<le> length s \<and> di + Suc n \<le> length d")
      case fits: True
      have "take (Suc di) (d[di := s ! si]) = take di d @ [s ! si]"
        using True by (simp add: take_list_update_same)
      moreover have "take (Suc n) (drop si s) = s ! si # take n (drop (Suc si) s)"
        using True by (simp add: drop_eq_nth_Cons)
      ultimately show ?thesis
        using fits True 2 [of "s ! si" "d[di := s ! si]"] e by (simp add: drop_update_cancel)
    next
      case False
      then have "n \<noteq> 0" using True by auto
      with False show ?thesis
        using True 2 [of "s ! si" "d[di := s ! si]"] e by auto
    qed
  next
    case False
    then show ?thesis by (auto simp: rd_def wr_def)
  qed
qed

lemma memcpy_Some_iff:
  "0 < n \<Longrightarrow> memcpy d di s si n = Some d' \<longleftrightarrow>
     si + n \<le> length s \<and> di + n \<le> length d \<and> d' = take di d @ take n (drop si s) @ drop (di + n) d"
  by (auto simp: memcpy_eq)

subsection \<open>Searching\<close>

lemma memchr_from_found:
  "k < n \<Longrightarrow> p + k < length s \<Longrightarrow> sint (s ! (p + k)) = c \<Longrightarrow> \<forall>i<k. sint (s ! (p + i)) \<noteq> c \<Longrightarrow>
   memchr_from s p c n = Some (Some (p + k))"
proof (induction n arbitrary: p k)
  case 0
  then show ?case by simp
next
  case (Suc n)
  show ?case
  proof (cases k)
    case 0
    with Suc show ?thesis by simp
  next
    case (Suc j)
    have "\<forall>i<j. sint (s ! (Suc p + i)) \<noteq> c"
      using Suc.prems(4) Suc by auto
    moreover have "sint (s ! p) \<noteq> c"
      using Suc.prems(4) Suc by force
    ultimately show ?thesis
      using Suc.IH [of j "Suc p"] Suc.prems Suc by simp
  qed
qed

lemma memchr_from_absent:
  "p + n \<le> length s \<Longrightarrow> \<forall>i<n. sint (s ! (p + i)) \<noteq> c \<Longrightarrow> memchr_from s p c n = Some None"
proof (induction n arbitrary: p)
  case 0
  then show ?case by simp
next
  case (Suc n)
  have "\<forall>i<n. sint (s ! (Suc p + i)) \<noteq> c"
    using Suc.prems(2) by auto
  moreover have "sint (s ! p) \<noteq> c"
    using Suc.prems(2) by force
  ultimately show ?case
    using Suc.IH [of "Suc p"] Suc.prems by simp
qed

lemma sint8_eq_0_iff: "sint (b :: u8) = 0 \<longleftrightarrow> b = 0"
  by (metis sint_0 signed_eq_0_iff)

lemma strnlen_c_string:
  assumes "c_string obj s"
  shows "strnlen obj maxlen = Some (min (length s) maxlen)"
proof (cases "length s < maxlen")
  case True
  then have "memchr obj 0 maxlen = Some (Some (length s))"
    using memchr_from_found [of "length s" maxlen 0 obj 0] c_stringD [OF assms]
    by (simp add: memchr_def sint8_eq_0_iff)
  with True show ?thesis by (simp add: strnlen_def)
next
  case False
  then have "memchr obj 0 maxlen = Some None"
    using memchr_from_absent [of 0 maxlen obj 0] c_stringD [OF assms]
    by (simp add: memchr_def sint8_eq_0_iff)
  with False show ?thesis by (simp add: strnlen_def)
qed

lemma strlcpy_zero: "c_string src s \<Longrightarrow> strlcpy dest src 0 = Some (length s, dest)"
  by (simp add: strlcpy_def strlen_c_string)

lemma strlcpy_result:
  assumes "c_string src s" and "0 < n" and "min (n - 1) (length s) < length dest"
  shows "strlcpy dest src n =
    Some (length s, take (n - 1) s @ 0 # drop (Suc (min (n - 1) (length s))) dest)"
proof -
  define len where "len = min (n - 1) (length s)"
  note cs = c_stringD [OF assms(1)]
  have len: "(if n \<le> length s then n - 1 else length s) = len"
    using assms(2) by (auto simp: len_def)
  have src: "take len src = take (n - 1) s"
    using assms(1) by (metis c_string_def len_def min.commute take_take)
  have "len \<le> length src" "len < length dest"
    using cs(1) assms(3) by (auto simp: len_def)
  then have "memcpy dest 0 src 0 len = Some (take len src @ drop len dest)"
    by (simp add: memcpy_eq)
  moreover have "length (take len src) = len"
    using \<open>len \<le> length src\<close> by simp
  then have "(take len src @ drop len dest)[len := 0] = take len src @ 0 # drop (Suc len) dest"
    using \<open>len < length dest\<close> by (simp add: list_update_append drop_eq_nth_Cons)
  moreover have "wr (take len src @ drop len dest) len 0 = Some ((take len src @ drop len dest)[len := 0])"
    using \<open>len < length dest\<close> \<open>len \<le> length src\<close> by (intro wr_ok) simp
  ultimately have "strlcpy dest src n = Some (length s, take len src @ 0 # drop (Suc len) dest)"
    using assms(2) by (simp add: strlcpy_def strlen_c_string [OF assms(1)] len Let_def)
  then show ?thesis unfolding src unfolding len_def .
qed

end
