(* ===== verification/Bytes.thy ===== *)
theory Bytes
  imports Libc
begin

text \<open>
  Integers in memory: a C object of an integer type is its little-endian bytes on both
  targets (x86-64 and AArch64). Encoding and decoding of 16, 32 and 64-bit words, with
  their round trips, and typed loads from and stores to an object.
\<close>

fun le_enc :: "nat \<Rightarrow> nat \<Rightarrow> u8 list" where
  "le_enc 0 v = []"
| "le_enc (Suc n) v = of_nat (v mod 256) # le_enc n (v div 256)"

fun le_dec :: "u8 list \<Rightarrow> nat" where
  "le_dec [] = 0"
| "le_dec (b # bs) = unat b + 256 * le_dec bs"

definition enc16 :: "u16 \<Rightarrow> u8 list" where "enc16 w = le_enc 2 (unat w)"
definition enc32 :: "u32 \<Rightarrow> u8 list" where "enc32 w = le_enc 4 (unat w)"
definition enc64 :: "u64 \<Rightarrow> u8 list" where "enc64 w = le_enc 8 (unat w)"
definition dec16 :: "u8 list \<Rightarrow> u16" where "dec16 bs = of_nat (le_dec bs)"
definition dec32 :: "u8 list \<Rightarrow> u32" where "dec32 bs = of_nat (le_dec bs)"
definition dec64 :: "u8 list \<Rightarrow> u64" where "dec64 bs = of_nat (le_dec bs)"

definition ld_bytes :: "u8 list \<Rightarrow> nat \<Rightarrow> nat \<Rightarrow> u8 list option" where
  "ld_bytes m p n = (if p + n \<le> length m then Some (take n (drop p m)) else None)"

definition st_bytes :: "u8 list \<Rightarrow> nat \<Rightarrow> u8 list \<Rightarrow> u8 list option" where
  "st_bytes m p bs = (if p + length bs \<le> length m then Some (take p m @ bs @ drop (p + length bs) m) else None)"

lemma length_le_enc [simp]: "length (le_enc n v) = n"
  by (induction n v rule: le_enc.induct) auto

lemma le_dec_enc: "le_dec (le_enc n v) = v mod 256 ^ n"
proof (induction n v rule: le_enc.induct)
  case (1 v)
  then show ?case by simp
next
  case (2 n v)
  have "unat (of_nat (v mod 256) :: u8) = v mod 256"
    by (simp add: unat_of_nat)
  with 2 have "le_dec (le_enc (Suc n) v) = v mod 256 + 256 * (v div 256 mod 256 ^ n)"
    by simp
  also have "\<dots> = v mod (256 * 256 ^ n)"
    by (simp add: mod_mult2_eq)
  finally show ?case by simp
qed

lemma le_dec_less: "le_dec bs < 256 ^ length bs"
proof (induction bs)
  case Nil
  then show ?case by simp
next
  case (Cons b bs)
  have "unat b < 256" using unat_lt [of b] by simp
  with Cons show ?case by simp
qed

lemma le_enc_dec: "le_enc (length bs) (le_dec bs) = bs"
proof (induction bs)
  case Nil
  then show ?case by simp
next
  case (Cons b bs)
  have "unat b < 256" using unat_lt [of b] by simp
  with Cons show ?case by simp
qed

lemma dec_enc [simp]:
  "dec16 (enc16 x) = x" "dec32 (enc32 y) = y" "dec64 (enc64 z) = z"
  using unat_lt [of x] unat_lt [of y] unat_lt [of z]
  by (simp_all add: enc16_def dec16_def enc32_def dec32_def enc64_def dec64_def le_dec_enc)

lemma enc_dec:
  "length bs = 2 \<Longrightarrow> enc16 (dec16 bs) = bs"
  "length bs = 4 \<Longrightarrow> enc32 (dec32 bs) = bs"
  "length bs = 8 \<Longrightarrow> enc64 (dec64 bs) = bs"
  using le_dec_less [of bs] le_enc_dec [of bs]
  by (simp_all add: enc16_def dec16_def enc32_def dec32_def enc64_def dec64_def unat_of_nat)

lemma unat_dec:
  "length bs = 2 \<Longrightarrow> unat (dec16 bs) = le_dec bs"
  "length bs = 4 \<Longrightarrow> unat (dec32 bs) = le_dec bs"
  "length bs = 8 \<Longrightarrow> unat (dec64 bs) = le_dec bs"
  using le_dec_less [of bs] by (simp_all add: dec16_def dec32_def dec64_def unat_of_nat)

lemma length_enc [simp]: "length (enc16 x) = 2" "length (enc32 y) = 4" "length (enc64 z) = 8"
  by (simp_all add: enc16_def enc32_def enc64_def)

lemma ld_st_same: "st_bytes m p bs = Some m' \<Longrightarrow> ld_bytes m' p (length bs) = Some bs"
  by (auto simp: st_bytes_def ld_bytes_def split: if_splits)

lemma length_st_bytes: "st_bytes m p bs = Some m' \<Longrightarrow> length m' = length m"
  by (auto simp: st_bytes_def split: if_splits)

lemma ld_st_before:
  "st_bytes m p bs = Some m' \<Longrightarrow> q + n \<le> p \<Longrightarrow> ld_bytes m' q n = ld_bytes m q n"
  by (auto simp: st_bytes_def ld_bytes_def drop_take min_def split: if_splits)

lemma ld_st_after:
  assumes "st_bytes m p bs = Some m'" and "p + length bs \<le> q"
  shows "ld_bytes m' q n = ld_bytes m q n"
proof -
  have "p + length bs \<le> length m" and m': "m' = take p m @ bs @ drop (p + length bs) m"
    using assms(1) by (auto simp: st_bytes_def split: if_splits)
  then have "drop q m' = drop q m"
    using assms(2) by simp
  then show ?thesis
    using length_st_bytes [OF assms(1)] by (simp add: ld_bytes_def)
qed

end
