(* ===== verification/RingBuffer.thy ===== *)
theory RingBuffer
  imports Bytes
begin

text \<open>
  The atomic ring buffer that the kernel and a process share
  (\<^verbatim>\<open>kernel/atomic-ring-buffer.c\<close>, \<^verbatim>\<open>usr/libmanticore/src/atomic-ring-buffer.c\<close>,
  \<^verbatim>\<open>include/uapi/manticore/atomic_ring_buffer_abi.h\<close>): its operations, the refinement of
  a bounded first-in first-out queue, and the interleaving of one producer with one
  consumer at the granularity of the atomic accesses and of the single byte stores of
  \<open>memcpy\<close>. Head and tail are byte offsets into the data area.
\<close>

subsection \<open>State and operations\<close>

record atomic_ring_buffer =
  q_element_size :: u64
  q_capacity :: u64
  q_tail :: u64
  q_head :: u64
  q_data :: "u8 list"

text \<open>\<^verbatim>\<open>sizeof(struct atomic_ring_buffer)\<close>: header, tail and head, each padded to
  \<^verbatim>\<open>ATOMIC_RING_BUFFER_ALIGN\<close> bytes.\<close>

definition sizeof_atomic_ring_buffer :: nat where
  "sizeof_atomic_ring_buffer = 64 + 64 + 64"

definition atomic_ring_buffer_new :: "u8 list \<Rightarrow> u64 \<Rightarrow> u64 \<Rightarrow> atomic_ring_buffer option" where
  "atomic_ring_buffer_new buf buf_size element_size =
     (if length buf < sizeof_atomic_ring_buffer \<or> element_size = 0 then None
      else let capacity = buf_size - of_nat sizeof_atomic_ring_buffer
           in Some \<lparr> q_element_size = element_size,
                     q_capacity = capacity - capacity mod element_size,
                     q_tail = 0, q_head = 0,
                     q_data = drop sizeof_atomic_ring_buffer buf \<rparr>)"

definition atomic_ring_buffer_is_empty :: "atomic_ring_buffer \<Rightarrow> bool" where
  "atomic_ring_buffer_is_empty q \<longleftrightarrow> q_head q = q_tail q"

text \<open>The pointer \<^verbatim>\<open>queue->data + tail\<close> as its offset, \<open>None\<close> for \<^verbatim>\<open>NULL\<close>.\<close>

definition atomic_ring_buffer_front :: "atomic_ring_buffer \<Rightarrow> u64 option" where
  "atomic_ring_buffer_front q = (if q_head q = q_tail q then None else Some (q_tail q))"

text \<open>The offset after \<open>off\<close>, back to 0 at the capacity: lines 49 to 52 of
  \<open>atomic_ring_buffer_pop\<close> and 59 to 62 of \<open>atomic_ring_buffer_emplace\<close>.\<close>

definition ring_next :: "atomic_ring_buffer \<Rightarrow> u64 \<Rightarrow> u64" where
  "ring_next q off =
     (let next = off + q_element_size q in if next = q_capacity q then 0 else next)"

definition atomic_ring_buffer_pop :: "atomic_ring_buffer \<Rightarrow> atomic_ring_buffer" where
  "atomic_ring_buffer_pop q = q\<lparr>q_tail := ring_next q (q_tail q)\<rparr>"

definition atomic_ring_buffer_emplace ::
  "atomic_ring_buffer \<Rightarrow> u8 list \<Rightarrow> (bool \<times> atomic_ring_buffer) option" where
  "atomic_ring_buffer_emplace q element =
     (let next_head = ring_next q (q_head q)
      in if next_head = q_tail q then Some (False, q)
         else case memcpy (q_data q) (unat (q_head q)) element 0 (unat (q_element_size q)) of
                None \<Rightarrow> None
              | Some d \<Rightarrow> Some (True, q\<lparr>q_data := d, q_head := next_head\<rparr>))"

text \<open>The copy of the user library (\<^verbatim>\<open>usr/libmanticore/src/atomic-ring-buffer.c\<close>): the same
  operations with a \<open>memcpy_internal\<close> whose counter is a signed \<open>int\<close>, so that a copy of
  \<open>2\<^sup>3\<^sup>1\<close> bytes or more overflows it.\<close>

definition memcpy_internal :: "u8 list \<Rightarrow> nat \<Rightarrow> u8 list \<Rightarrow> nat \<Rightarrow> nat \<Rightarrow> u8 list option" where
  "memcpy_internal d di s si n = (if n < 2 ^ 31 then memcpy d di s si n else None)"

definition user_ring_buffer_emplace ::
  "atomic_ring_buffer \<Rightarrow> u8 list \<Rightarrow> (bool \<times> atomic_ring_buffer) option" where
  "user_ring_buffer_emplace q element =
     (let next_head = ring_next q (q_head q)
      in if next_head = q_tail q then Some (False, q)
         else case memcpy_internal (q_data q) (unat (q_head q)) element 0 (unat (q_element_size q)) of
                None \<Rightarrow> None
              | Some d \<Rightarrow> Some (True, q\<lparr>q_data := d, q_head := next_head\<rparr>))"

text \<open>The element that a pointer returned by \<open>front\<close> points to.\<close>

definition ring_elem :: "atomic_ring_buffer \<Rightarrow> u64 \<Rightarrow> u8 list" where
  "ring_elem q off = take (unat (q_element_size q)) (drop (unat off) (q_data q))"

subsection \<open>The queue it represents\<close>

definition ring_slots :: "atomic_ring_buffer \<Rightarrow> nat" where
  "ring_slots q = unat (q_capacity q) div unat (q_element_size q)"

definition ring_slot :: "atomic_ring_buffer \<Rightarrow> nat \<Rightarrow> u8 list" where
  "ring_slot q k = take (unat (q_element_size q)) (drop (k * unat (q_element_size q)) (q_data q))"

definition ring_off :: "atomic_ring_buffer \<Rightarrow> u64 \<Rightarrow> bool" where
  "ring_off q off \<longleftrightarrow> unat (q_element_size q) dvd unat off \<and> off < q_capacity q"

definition ring_wf :: "atomic_ring_buffer \<Rightarrow> bool" where
  "ring_wf q \<longleftrightarrow> q_element_size q \<noteq> 0 \<and> unat (q_element_size q) dvd unat (q_capacity q)
     \<and> unat (q_capacity q) \<le> length (q_data q)
     \<and> ring_off q (q_head q) \<and> ring_off q (q_tail q)"

definition ring_idx :: "atomic_ring_buffer \<Rightarrow> u64 \<Rightarrow> nat" where
  "ring_idx q off = unat off div unat (q_element_size q)"

text \<open>Steps from slot \<open>t\<close> forward to slot \<open>h\<close> on a ring of \<open>n\<close> slots.\<close>

definition ring_dist :: "nat \<Rightarrow> nat \<Rightarrow> nat \<Rightarrow> nat" where
  "ring_dist n t h = (if t \<le> h then h - t else h + n - t)"

definition ring_count :: "atomic_ring_buffer \<Rightarrow> nat" where
  "ring_count q = ring_dist (ring_slots q) (ring_idx q (q_tail q)) (ring_idx q (q_head q))"

definition ring_list :: "atomic_ring_buffer \<Rightarrow> u8 list list" where
  "ring_list q =
     map (\<lambda>i. ring_slot q ((ring_idx q (q_tail q) + i) mod ring_slots q)) [0..<ring_count q]"

subsection \<open>Index arithmetic\<close>

lemma mod_lt_double:
  fixes n :: nat
  assumes "t < n" and "i < n"
  shows "(t + i) mod n = (if t + i < n then t + i else t + i - n)"
  using assms by (simp add: le_mod_geq)

lemma Suc_mod_lt: "h < n \<Longrightarrow> Suc h mod n = (if Suc h = n then 0 else Suc h)"
  by simp

lemma ring_dist_bound: "t < n \<Longrightarrow> h < n \<Longrightarrow> ring_dist n t h < n"
  by (auto simp: ring_dist_def)

lemma ring_dist_target: "t < n \<Longrightarrow> h < n \<Longrightarrow> (t + ring_dist n t h) mod n = h"
  using ring_dist_bound [of t n h] by (subst mod_lt_double) (auto simp: ring_dist_def)

lemma ring_dist_unique:
  assumes "t < n" and "h < n" and "i < ring_dist n t h"
  shows "(t + i) mod n \<noteq> h"
proof -
  have "i < n" using assms ring_dist_bound by fastforce
  with assms show ?thesis
    by (auto simp: mod_lt_double ring_dist_def split: if_splits)
qed

lemma ring_dist_zero_iff: "t < n \<Longrightarrow> h < n \<Longrightarrow> ring_dist n t h = 0 \<longleftrightarrow> t = h"
  by (auto simp: ring_dist_def)

lemma ring_dist_full_iff: "t < n \<Longrightarrow> h < n \<Longrightarrow> Suc h mod n = t \<longleftrightarrow> Suc (ring_dist n t h) = n"
  by (auto simp: ring_dist_def Suc_mod_lt)

lemma ring_dist_enq:
  "t < n \<Longrightarrow> h < n \<Longrightarrow> Suc (ring_dist n t h) < n \<Longrightarrow> ring_dist n t (Suc h mod n) = Suc (ring_dist n t h)"
  by (auto simp: ring_dist_def Suc_mod_lt split: if_splits)

lemma ring_dist_deq:
  "t < n \<Longrightarrow> h < n \<Longrightarrow> t \<noteq> h \<Longrightarrow> ring_dist n (Suc t mod n) h = ring_dist n t h - 1"
  by (auto simp: ring_dist_def Suc_mod_lt split: if_splits)

lemma ring_wfD:
  assumes "ring_wf q"
  shows "0 < unat (q_element_size q)" and "unat (q_capacity q) = ring_slots q * unat (q_element_size q)"
    and "ring_slots q * unat (q_element_size q) \<le> length (q_data q)"
    and "ring_off q (q_head q)" and "ring_off q (q_tail q)"
  using assms by (auto simp: ring_wf_def ring_slots_def unat_gt_0)

lemma ring_off_idx:
  assumes "ring_wf q" and "ring_off q off"
  shows "ring_idx q off < ring_slots q" and "unat off = ring_idx q off * unat (q_element_size q)"
proof -
  note w = ring_wfD [OF assms(1)]
  show off: "unat off = ring_idx q off * unat (q_element_size q)"
    using assms(2) by (simp add: ring_off_def ring_idx_def)
  have "unat off < unat (q_capacity q)"
    using assms(2) by (simp add: ring_off_def word_less_nat_alt)
  with off w(1,2) show "ring_idx q off < ring_slots q"
    by simp
qed

lemma ring_idx_inj:
  assumes "ring_wf q" and "ring_off q a" and "ring_off q b"
  shows "ring_idx q a = ring_idx q b \<longleftrightarrow> a = b"
  using ring_off_idx(2) [OF assms(1,2)] ring_off_idx(2) [OF assms(1,3)] by (metis unsigned_word_eqI)

lemma ring_next_idx:
  assumes "ring_wf q" and "ring_off q off"
  shows "ring_off q (ring_next q off)" and "ring_idx q (ring_next q off) = Suc (ring_idx q off) mod ring_slots q"
proof -
  define E n k where "E = unat (q_element_size q)" and "n = ring_slots q" and "k = ring_idx q off"
  have E: "0 < E" and cap: "unat (q_capacity q) = n * E" and k: "k < n" and off: "unat off = k * E"
    using ring_wfD(1,2) [OF assms(1)] ring_off_idx [OF assms] by (simp_all add: E_def n_def k_def)
  have le: "Suc k * E \<le> n * E"
    using k by (intro mult_le_mono1) simp
  moreover have "n * E < 2 ^ 64"
    using cap unat_lt64 [of "q_capacity q"] by simp
  ultimately have sum: "unat (off + q_element_size q) = Suc k * E"
    using off by (subst unat_add_no_wrap) (simp_all add: E_def [symmetric])
  have eq: "off + q_element_size q = q_capacity q \<longleftrightarrow> Suc k = n"
    using sum cap E by (metis mult_cancel2 not_less0 word_unat_eq_iff)
  have nxt: "unat (ring_next q off) = (Suc k mod n) * E"
    using eq sum k by (auto simp: ring_next_def Let_def)
  have "Suc k mod n < n" using k by simp
  then have "(Suc k mod n) * E < n * E" using E by simp
  with nxt cap show "ring_off q (ring_next q off)"
    by (simp add: ring_off_def word_less_nat_alt E_def [symmetric])
  show "ring_idx q (ring_next q off) = Suc (ring_idx q off) mod ring_slots q"
    using nxt E by (simp add: ring_idx_def E_def [symmetric] n_def [symmetric] k_def)
qed


subsection \<open>Effect of the operations on the represented queue\<close>

lemma ring_elem_slot:
  "ring_wf q \<Longrightarrow> ring_off q off \<Longrightarrow> ring_elem q off = ring_slot q (ring_idx q off)"
  by (simp add: ring_elem_def ring_slot_def ring_off_idx(2))

lemma ring_head_tail_idx:
  assumes "ring_wf q"
  shows "ring_idx q (q_head q) < ring_slots q" and "ring_idx q (q_tail q) < ring_slots q"
  using ring_off_idx(1) [OF assms ring_wfD(4) [OF assms]] ring_off_idx(1) [OF assms ring_wfD(5) [OF assms]] .

lemma length_ring_list [simp]: "length (ring_list q) = ring_count q"
  by (simp add: ring_list_def)

lemma ring_count_bound: "ring_wf q \<Longrightarrow> ring_count q < ring_slots q"
  using ring_head_tail_idx by (simp add: ring_count_def ring_dist_bound)

lemma ring_empty_iff:
  assumes "ring_wf q"
  shows "ring_list q = [] \<longleftrightarrow> q_head q = q_tail q"
proof -
  have "ring_list q = [] \<longleftrightarrow> ring_count q = 0"
    by (simp add: ring_list_def)
  also have "\<dots> \<longleftrightarrow> ring_idx q (q_tail q) = ring_idx q (q_head q)"
    using ring_head_tail_idx [OF assms] by (simp add: ring_count_def ring_dist_zero_iff)
  also have "\<dots> \<longleftrightarrow> q_head q = q_tail q"
    using ring_idx_inj [OF assms] ring_wfD(4,5) [OF assms] by metis
  finally show ?thesis .
qed

lemma ring_full_iff:
  assumes "ring_wf q"
  shows "ring_next q (q_head q) = q_tail q \<longleftrightarrow> Suc (ring_count q) = ring_slots q"
proof -
  note w = ring_wfD(4,5) [OF assms]
  have "ring_next q (q_head q) = q_tail q \<longleftrightarrow> ring_idx q (ring_next q (q_head q)) = ring_idx q (q_tail q)"
    using ring_idx_inj [OF assms ring_next_idx(1) [OF assms w(1)] w(2)] by simp
  also have "\<dots> \<longleftrightarrow> Suc (ring_count q) = ring_slots q"
    using ring_next_idx(2) [OF assms w(1)] ring_head_tail_idx [OF assms]
    by (simp add: ring_count_def ring_dist_full_iff)
  finally show ?thesis .
qed

lemma ring_list_hd:
  assumes "ring_wf q" and "ring_list q \<noteq> []"
  shows "hd (ring_list q) = ring_elem q (q_tail q)"
proof -
  have "0 < ring_count q"
    using assms(2) by (metis length_greater_0_conv length_ring_list)
  then have "hd (ring_list q) = ring_slot q (ring_idx q (q_tail q) mod ring_slots q)"
    by (simp add: ring_list_def hd_map)
  then show ?thesis
    using assms(1) ring_head_tail_idx(2) [OF assms(1)] by (simp add: ring_elem_slot ring_wfD(5))
qed

lemma ring_pop_list:
  assumes "ring_wf q" and "ring_list q \<noteq> []"
  shows "ring_wf (atomic_ring_buffer_pop q)" and "ring_list (atomic_ring_buffer_pop q) = tl (ring_list q)"
proof -
  define q' where "q' = atomic_ring_buffer_pop q"
  define n t h where "n = ring_slots q" and "t = ring_idx q (q_tail q)" and "h = ring_idx q (q_head q)"
  have th: "t < n" "h < n" "t \<noteq> h"
    using ring_head_tail_idx [OF assms(1)] ring_empty_iff [OF assms(1)] assms(2)
      ring_idx_inj [OF assms(1)] ring_wfD(4,5) [OF assms(1)] by (auto simp: n_def t_def h_def)
  have sel: "q_element_size q' = q_element_size q" "q_capacity q' = q_capacity q" "q_head q' = q_head q"
      "q_data q' = q_data q" "q_tail q' = ring_next q (q_tail q)"
    by (simp_all add: q'_def atomic_ring_buffer_pop_def)
  have off: "ring_off q' off \<longleftrightarrow> ring_off q off" for off
    by (simp add: ring_off_def sel)
  show "ring_wf (atomic_ring_buffer_pop q)"
    using assms(1) ring_next_idx(1) [OF assms(1) ring_wfD(5) [OF assms(1)]]
    unfolding q'_def [symmetric] by (simp add: ring_wf_def sel off)
  have idx: "ring_idx q' (q_tail q') = Suc t mod n" "ring_idx q' (q_head q') = h" "ring_slots q' = n"
    using ring_next_idx(2) [OF assms(1) ring_wfD(5) [OF assms(1)]]
    by (simp_all add: ring_idx_def ring_slots_def sel n_def t_def h_def)
  have slot: "ring_slot q' k = ring_slot q k" for k
    by (simp add: ring_slot_def sel)
  have cnt: "ring_count q' = ring_count q - 1"
    using th by (simp add: ring_count_def idx ring_dist_deq n_def [symmetric] t_def [symmetric] h_def [symmetric])
  have pos: "ring_count q = Suc (ring_count q - 1)"
    using assms(2) by (metis Suc_pred' length_greater_0_conv length_ring_list)
  have tls: "tl (map f [0..<c]) = map (\<lambda>i. f (Suc i)) [0..<c - 1]" if "c = Suc (c - 1)" for f :: "nat \<Rightarrow> u8 list" and c
    using that by (intro nth_equalityI) (simp_all add: nth_tl)
  have "tl (ring_list q) = map (\<lambda>i. ring_slot q ((t + Suc i) mod n)) [0..<ring_count q - 1]"
    unfolding ring_list_def by (subst tls [OF pos]) (simp add: n_def t_def)
  moreover have "ring_list q' = map (\<lambda>i. ring_slot q ((t + Suc i) mod n)) [0..<ring_count q - 1]"
    unfolding ring_list_def cnt idx slot by (simp add: mod_add_left_eq [of "Suc t", simplified])
  ultimately show "ring_list (atomic_ring_buffer_pop q) = tl (ring_list q)"
    unfolding q'_def [symmetric] by simp
qed

text \<open>Storing an element in the slot at the head and moving the head past it appends the
  element to the queue.\<close>

lemma ring_store_list:
  assumes "ring_wf q" and "Suc (ring_count q) < ring_slots q" and "length d' = length (q_data q)"
    and "take (unat (q_element_size q)) (drop (unat (q_head q)) d') = e"
    and "\<And>k. k < ring_slots q \<Longrightarrow> k \<noteq> ring_idx q (q_head q) \<Longrightarrow> ring_slot (q\<lparr>q_data := d'\<rparr>) k = ring_slot q k"
  defines "q' \<equiv> q\<lparr>q_data := d', q_head := ring_next q (q_head q)\<rparr>"
  shows "ring_wf q'" and "ring_list q' = ring_list q @ [e]"
proof -
  define n t h where "n = ring_slots q" and "t = ring_idx q (q_tail q)" and "h = ring_idx q (q_head q)"
  have th: "t < n" "h < n"
    using ring_head_tail_idx [OF assms(1)] by (auto simp: n_def t_def h_def)
  have sel: "q_element_size q' = q_element_size q" "q_capacity q' = q_capacity q" "q_tail q' = q_tail q"
      "q_data q' = d'" "q_head q' = ring_next q (q_head q)"
    by (simp_all add: q'_def)
  have off: "ring_off q' off \<longleftrightarrow> ring_off q off" for off
    by (simp add: ring_off_def sel)
  show "ring_wf q'"
    using assms(1,3) ring_next_idx(1) [OF assms(1) ring_wfD(4) [OF assms(1)]]
    by (simp add: ring_wf_def sel off)
  have idx: "ring_idx q' (q_head q') = Suc h mod n" "ring_idx q' (q_tail q') = t" "ring_slots q' = n"
    using ring_next_idx(2) [OF assms(1) ring_wfD(4) [OF assms(1)]]
    by (simp_all add: ring_idx_def ring_slots_def sel n_def t_def h_def)
  have cq: "ring_count q = ring_dist n t h"
    by (simp add: ring_count_def n_def t_def h_def)
  have cnt: "ring_count q' = Suc (ring_count q)"
    unfolding ring_count_def idx using th assms(2) cq
    by (simp add: ring_dist_enq ring_count_def n_def t_def h_def)
  have slot: "ring_slot q' k = (if k = h then e else ring_slot q k)" if "k < n" for k
    using assms(4) assms(5) [of k] that ring_off_idx(2) [OF assms(1) ring_wfD(4) [OF assms(1)]]
    by (auto simp: ring_slot_def sel h_def n_def)
  have "ring_slot q' ((t + i) mod n) = ring_slot q ((t + i) mod n)" if "i < ring_count q" for i
    using slot [of "(t + i) mod n"] th ring_dist_unique [OF th] that cq by simp
  moreover have "ring_slot q' ((t + ring_count q) mod n) = e"
    using slot [of h] th by (simp add: cq ring_dist_target)
  ultimately show "ring_list q' = ring_list q @ [e]"
    unfolding ring_list_def cnt idx by (simp add: n_def [symmetric] t_def [symmetric])
qed

lemma ring_slot_disjoint:
  fixes E h k :: nat
  assumes "k \<noteq> h"
  shows "k * E + E \<le> h * E \<or> h * E + E \<le> k * E"
proof (cases "k < h")
  case True
  then have "Suc k * E \<le> h * E" by (intro mult_le_mono1) simp
  then show ?thesis by simp
next
  case False
  then have "Suc h * E \<le> k * E" using assms by (intro mult_le_mono1) simp
  then show ?thesis by simp
qed

lemma ring_emplace_full:
  assumes "ring_wf q" and "Suc (ring_count q) = ring_slots q"
  shows "atomic_ring_buffer_emplace q e = Some (False, q)"
  using assms ring_full_iff by (simp add: atomic_ring_buffer_emplace_def)

lemma ring_emplace_room:
  assumes "ring_wf q" and "Suc (ring_count q) < ring_slots q" and "length e = unat (q_element_size q)"
  shows "\<exists>q'. atomic_ring_buffer_emplace q e = Some (True, q') \<and> ring_wf q' \<and> ring_list q' = ring_list q @ [e]
    \<and> ring_slots q' = ring_slots q \<and> q_element_size q' = q_element_size q"
proof -
  define E h where "E = unat (q_element_size q)" and "h = ring_idx q (q_head q)"
  have hE: "unat (q_head q) = h * E" and hn: "h < ring_slots q"
    using ring_off_idx [OF assms(1) ring_wfD(4) [OF assms(1)]] by (simp_all add: h_def E_def)
  have "Suc h * E \<le> ring_slots q * E"
    using hn by (intro mult_le_mono1) simp
  then have fits: "h * E + E \<le> length (q_data q)"
    using ring_wfD(3) [OF assms(1)] by (simp add: E_def)
  define d' where "d' = take (h * E) (q_data q) @ e @ drop (h * E + E) (q_data q)"
  have cp: "memcpy (q_data q) (unat (q_head q)) e 0 E = Some d'"
    using fits assms(3) by (simp add: memcpy_eq hE d'_def E_def)
  have len: "length d' = length (q_data q)"
    using fits assms(3) by (simp add: d'_def E_def)
  have new: "take E (drop (unat (q_head q)) d') = e"
    using fits assms(3) by (simp add: d'_def hE E_def)
  have old: "ring_slot (q\<lparr>q_data := d'\<rparr>) k = ring_slot q k"
    if "k < ring_slots q" and k: "k \<noteq> ring_idx q (q_head q)" for k
  proof -
    consider "k * E + E \<le> h * E" | "h * E + E \<le> k * E"
      using ring_slot_disjoint [of k h E] k by (auto simp: h_def)
    then show ?thesis
    proof cases
      case 1
      then have "take E (drop (k * E) d') = take E (drop (k * E) (q_data q))"
        using fits unfolding d'_def by (intro take_drop_before) simp_all
      then show ?thesis by (simp add: ring_slot_def E_def)
    next
      case 2
      then have "drop (k * E) d' = drop (k * E) (q_data q)"
        using fits assms(3) drop_after [of "h * E" e "k * E" "q_data q"] unfolding d'_def E_def by simp
      then show ?thesis by (simp add: ring_slot_def E_def)
    qed
  qed
  have "atomic_ring_buffer_emplace q e = Some (True, q\<lparr>q_data := d', q_head := ring_next q (q_head q)\<rparr>)"
    using cp assms(1,2) ring_full_iff [OF assms(1)]
    by (simp add: atomic_ring_buffer_emplace_def E_def)
  then show ?thesis
    using ring_store_list [OF assms(1,2) len new [unfolded E_def] old]
    by (simp add: ring_slots_def)
qed

lemma user_ring_buffer_emplace_eq:
  "unat (q_element_size q) < 2 ^ 31 \<Longrightarrow> user_ring_buffer_emplace q e = atomic_ring_buffer_emplace q e"
  unfolding user_ring_buffer_emplace_def atomic_ring_buffer_emplace_def memcpy_internal_def by simp

lemma ring_new_wf:
  assumes "atomic_ring_buffer_new buf (of_nat (length buf)) es = Some q" and "length buf < 2 ^ 64"
    and "sizeof_atomic_ring_buffer + unat es \<le> length buf"
  shows "ring_wf q" and "ring_list q = []" and "q_element_size q = es"
    and "ring_slots q = (length buf - sizeof_atomic_ring_buffer) div unat es"
proof -
  define cap where "cap = (of_nat (length buf) - of_nat sizeof_atomic_ring_buffer :: u64)"
  have es: "es \<noteq> 0" and q: "q = \<lparr>q_element_size = es, q_capacity = cap - cap mod es, q_tail = 0, q_head = 0,
      q_data = drop sizeof_atomic_ring_buffer buf\<rparr>"
    using assms(1) by (auto simp: atomic_ring_buffer_new_def cap_def Let_def split: if_splits)
  have cap: "unat cap = length buf - sizeof_atomic_ring_buffer"
    unfolding cap_def using assms(2,3)
    by (subst unat_sub) (simp_all add: unat_of_nat sizeof_atomic_ring_buffer_def word_le_nat_alt)
  have "cap mod es \<le> cap"
    by (simp add: word_le_nat_alt unat_mod_distrib)
  then have rounded: "unat (cap - cap mod es) = unat cap div unat es * unat es"
    by (simp only: unat_sub unat_mod_distrib minus_mod_eq_div_mult [where 'a = nat])
  have pos: "0 < unat es" using es by (simp add: unat_gt_0)
  have "unat es \<le> unat cap" using cap assms(3) by simp
  then have "0 < unat cap div unat es" using pos by (simp add: div_greater_zero_iff)
  with pos have "0 < unat (cap - cap mod es)" unfolding rounded by simp
  then show wf: "ring_wf q"
    using es cap rounded div_times_less_eq_dividend [of "unat cap" "unat es"]
    by (simp add: ring_wf_def ring_off_def q word_less_nat_alt)
  then show "ring_list q = []"
    by (simp add: ring_empty_iff) (simp add: q)
  show "q_element_size q = es" by (simp add: q)
  show "ring_slots q = (length buf - sizeof_atomic_ring_buffer) div unat es"
    using rounded pos by (simp add: ring_slots_def q cap)
qed

subsection \<open>The contract of a bounded queue\<close>

text \<open>One use of the queue: a producer offers an element, or a consumer takes the element at
  the front, if there is one, and pops it. The outputs are what the callers see.\<close>

datatype 'e queue_op = Offer 'e | Take

datatype 'e queue_out = Offered bool | Taken "'e option"

fun queue_run ::
  "('q \<Rightarrow> 'e \<Rightarrow> (bool \<times> 'q) option) \<Rightarrow> ('q \<Rightarrow> 'e option) \<Rightarrow> ('q \<Rightarrow> 'q) \<Rightarrow> 'q \<Rightarrow> 'e queue_op list
     \<Rightarrow> ('e queue_out list \<times> 'q) option" where
  "queue_run emplace front pop q [] = Some ([], q)"
| "queue_run emplace front pop q (Offer e # ops) =
     do { (ok, q') \<leftarrow> emplace q e;
          (outs, q'') \<leftarrow> queue_run emplace front pop q' ops;
          Some (Offered ok # outs, q'') }"
| "queue_run emplace front pop q (Take # ops) =
     (case front q of
        None \<Rightarrow> do { (outs, q'') \<leftarrow> queue_run emplace front pop q ops; Some (Taken None # outs, q'') }
      | Some e \<Rightarrow> do { (outs, q'') \<leftarrow> queue_run emplace front pop (pop q) ops; Some (Taken (Some e) # outs, q'') })"

text \<open>The abstract queue of at most \<open>n\<close> elements.\<close>

fun fifo_run :: "nat \<Rightarrow> 'e list \<Rightarrow> 'e queue_op list \<Rightarrow> 'e queue_out list \<times> 'e list" where
  "fifo_run n xs [] = ([], xs)"
| "fifo_run n xs (Offer e # ops) =
     (if length xs < n
      then (let (outs, ys) = fifo_run n (xs @ [e]) ops in (Offered True # outs, ys))
      else (let (outs, ys) = fifo_run n xs ops in (Offered False # outs, ys)))"
| "fifo_run n xs (Take # ops) =
     (case xs of
        [] \<Rightarrow> (let (outs, ys) = fifo_run n [] ops in (Taken None # outs, ys))
      | x # xs' \<Rightarrow> (let (outs, ys) = fifo_run n xs' ops in (Taken (Some x) # outs, ys)))"

locale bounded_queue =
  fixes wf :: "'q \<Rightarrow> bool" and elems :: "'q \<Rightarrow> 'e list" and bound :: "'q \<Rightarrow> nat"
    and fits :: "'q \<Rightarrow> 'e \<Rightarrow> bool"
    and emplace :: "'q \<Rightarrow> 'e \<Rightarrow> (bool \<times> 'q) option" and front :: "'q \<Rightarrow> 'e option" and pop :: "'q \<Rightarrow> 'q"
  assumes emplace_full: "wf q \<Longrightarrow> fits q e \<Longrightarrow> \<not> length (elems q) < bound q \<Longrightarrow> emplace q e = Some (False, q)"
    and emplace_room: "wf q \<Longrightarrow> fits q e \<Longrightarrow> length (elems q) < bound q \<Longrightarrow>
      \<exists>q'. emplace q e = Some (True, q') \<and> wf q' \<and> elems q' = elems q @ [e] \<and> bound q' = bound q \<and> fits q' = fits q"
    and front_elems: "wf q \<Longrightarrow> front q = (case elems q of [] \<Rightarrow> None | x # _ \<Rightarrow> Some x)"
    and pop_elems: "wf q \<Longrightarrow> elems q = x # xs \<Longrightarrow>
      wf (pop q) \<and> elems (pop q) = xs \<and> bound (pop q) = bound q \<and> fits (pop q) = fits q"
begin

lemma run_refines_fifo:
  assumes "wf q" and "\<And>e. Offer e \<in> set ops \<Longrightarrow> fits q e"
  shows "\<exists>q'. queue_run emplace front pop q ops = Some (fst (fifo_run (bound q) (elems q) ops), q')
    \<and> wf q' \<and> elems q' = snd (fifo_run (bound q) (elems q) ops)"
  using assms
proof (induction ops arbitrary: q)
  case Nil
  then show ?case by simp
next
  case (Cons op ops)
  show ?case
  proof (cases op)
    case (Offer e)
    show ?thesis
    proof (cases "length (elems q) < bound q")
      case True
      with Cons.prems Offer obtain q' where q': "emplace q e = Some (True, q')" "wf q'" "elems q' = elems q @ [e]"
        "bound q' = bound q" "fits q' = fits q"
        using emplace_room [of q e] by auto
      with Cons.prems Cons.IH [of q'] True Offer show ?thesis
        by (auto simp: split_beta)
    next
      case False
      with Cons.prems Offer have "emplace q e = Some (False, q)"
        using emplace_full [of q e] by auto
      with Cons.prems Cons.IH [of q] False Offer show ?thesis
        by (auto simp: split_beta)
    qed
  next
    case Take
    show ?thesis
    proof (cases "elems q")
      case Nil
      with Cons.prems Cons.IH [of q] Take front_elems [of q] show ?thesis
        by (auto simp: split_beta)
    next
      case c: (Cons x xs)
      with pop_elems [of q x xs] Cons.prems Cons.IH [of "pop q"] Take front_elems [of q] show ?thesis
        by (auto simp: split_beta)
    qed
  qed
qed

end

definition ring_front_elem :: "atomic_ring_buffer \<Rightarrow> u8 list option" where
  "ring_front_elem q = map_option (ring_elem q) (atomic_ring_buffer_front q)"

definition ring_fits :: "atomic_ring_buffer \<Rightarrow> u8 list \<Rightarrow> bool" where
  "ring_fits q e \<longleftrightarrow> length e = unat (q_element_size q)"

lemma ring_front_elem_list:
  "ring_wf q \<Longrightarrow> ring_front_elem q = (case ring_list q of [] \<Rightarrow> None | x # _ \<Rightarrow> Some x)"
  using ring_empty_iff [of q] ring_list_hd [of q]
  by (auto simp: ring_front_elem_def atomic_ring_buffer_front_def split: list.splits)

lemma ring_pop_frame:
  "ring_slots (atomic_ring_buffer_pop q) = ring_slots q"
  "q_element_size (atomic_ring_buffer_pop q) = q_element_size q"
  by (simp_all add: atomic_ring_buffer_pop_def ring_slots_def)

interpretation kernel_ring: bounded_queue ring_wf ring_list "\<lambda>q. ring_slots q - 1" ring_fits
  atomic_ring_buffer_emplace ring_front_elem atomic_ring_buffer_pop
proof unfold_locales
  fix q e assume q: "ring_wf q" and e: "ring_fits q e"
  show "atomic_ring_buffer_emplace q e = Some (False, q)" if "\<not> length (ring_list q) < ring_slots q - 1"
    using q that ring_count_bound [OF q] by (intro ring_emplace_full) simp_all
  show "\<exists>q'. atomic_ring_buffer_emplace q e = Some (True, q') \<and> ring_wf q' \<and> ring_list q' = ring_list q @ [e]
      \<and> ring_slots q' - 1 = ring_slots q - 1 \<and> ring_fits q' = ring_fits q"
    if "length (ring_list q) < ring_slots q - 1"
    using q that e ring_emplace_room [OF q, of e] by (auto simp: ring_fits_def fun_eq_iff less_diff_conv)
next
  fix q x xs assume q: "ring_wf q" and x: "ring_list q = x # xs"
  show "ring_wf (atomic_ring_buffer_pop q) \<and> ring_list (atomic_ring_buffer_pop q) = xs
    \<and> ring_slots (atomic_ring_buffer_pop q) - 1 = ring_slots q - 1
    \<and> ring_fits (atomic_ring_buffer_pop q) = ring_fits q"
    using ring_pop_list [OF q] x by (simp add: ring_pop_frame ring_fits_def fun_eq_iff)
qed (rule ring_front_elem_list)

interpretation user_ring: bounded_queue "\<lambda>q. ring_wf q \<and> unat (q_element_size q) < 2 ^ 31" ring_list
  "\<lambda>q. ring_slots q - 1" ring_fits user_ring_buffer_emplace ring_front_elem atomic_ring_buffer_pop
proof unfold_locales
  fix q e assume q: "ring_wf q \<and> unat (q_element_size q) < 2 ^ 31" and e: "ring_fits q e"
  then have eq: "user_ring_buffer_emplace q e = atomic_ring_buffer_emplace q e"
    by (simp add: user_ring_buffer_emplace_eq)
  show "user_ring_buffer_emplace q e = Some (False, q)" if "\<not> length (ring_list q) < ring_slots q - 1"
    unfolding eq using q e that by (intro kernel_ring.emplace_full) simp_all
  show "\<exists>q'. user_ring_buffer_emplace q e = Some (True, q') \<and> (ring_wf q' \<and> unat (q_element_size q') < 2 ^ 31)
      \<and> ring_list q' = ring_list q @ [e] \<and> ring_slots q' - 1 = ring_slots q - 1 \<and> ring_fits q' = ring_fits q"
    if "length (ring_list q) < ring_slots q - 1"
    unfolding eq using q that e ring_emplace_room [of q e] by (auto simp: ring_fits_def fun_eq_iff less_diff_conv)
next
  fix q x xs assume q: "ring_wf q \<and> unat (q_element_size q) < 2 ^ 31" and x: "ring_list q = x # xs"
  show "(ring_wf (atomic_ring_buffer_pop q) \<and> unat (q_element_size (atomic_ring_buffer_pop q)) < 2 ^ 31)
    \<and> ring_list (atomic_ring_buffer_pop q) = xs \<and> ring_slots (atomic_ring_buffer_pop q) - 1 = ring_slots q - 1
    \<and> ring_fits (atomic_ring_buffer_pop q) = ring_fits q"
    using q kernel_ring.pop_elems [OF _ x] by (simp add: ring_pop_frame)
qed (simp add: ring_front_elem_list)

subsection \<open>Properties\<close>

text \<open>C6: on every sequence of \<open>emplace\<close> and \<open>front\<close>-then-\<open>pop\<close> calls, a new ring
  buffer, used through the kernel's operations or through the user library's, gives the
  results of a first-in first-out queue that holds one element less than it has slots: in
  particular no call has undefined behaviour, \<open>emplace\<close> fails exactly when that queue is
  full and \<open>front\<close> is null exactly when it is empty.\<close>

theorem ring_buffer_refines_fifo:
  assumes "atomic_ring_buffer_new buf (of_nat (length buf)) es = Some q" and "length buf < 2 ^ 64"
    and "sizeof_atomic_ring_buffer + unat es \<le> length buf"
    and "\<And>e. Offer e \<in> set ops \<Longrightarrow> length e = unat es" and "unat es < 2 ^ 31"
  defines "n \<equiv> (length buf - sizeof_atomic_ring_buffer) div unat es - 1"
  shows "map_option fst (queue_run atomic_ring_buffer_emplace ring_front_elem atomic_ring_buffer_pop q ops)
       = Some (fst (fifo_run n [] ops))
     \<and> map_option fst (queue_run user_ring_buffer_emplace ring_front_elem atomic_ring_buffer_pop q ops)
       = Some (fst (fifo_run n [] ops))"
proof -
  note new = ring_new_wf [OF assms(1-3)]
  have fits: "ring_fits q e" if "Offer e \<in> set ops" for e
    using assms(4) [OF that] by (simp add: ring_fits_def new(3))
  have "map_option fst (queue_run atomic_ring_buffer_emplace ring_front_elem atomic_ring_buffer_pop q ops)
       = Some (fst (fifo_run n [] ops))"
    using kernel_ring.run_refines_fifo [OF new(1) fits] new(2,4) by (auto simp: n_def)
  moreover have "map_option fst (queue_run user_ring_buffer_emplace ring_front_elem atomic_ring_buffer_pop q ops)
       = Some (fst (fifo_run n [] ops))"
    using user_ring.run_refines_fifo [OF _ fits] new assms(5) by (auto simp: n_def)
  ultimately show ?thesis by simp
qed

theorem ring_buffer_refines_fifo_witness:
  "\<exists>q. atomic_ring_buffer_new (replicate 200 0) (of_nat 200) 4 = Some q
     \<and> map_option fst (queue_run atomic_ring_buffer_emplace ring_front_elem atomic_ring_buffer_pop q
         [Offer [1, 2, 3, 4], Offer [5, 6, 7, 8], Take, Take])
       = Some [Offered True, Offered False, Taken (Some [1, 2, 3, 4]), Taken None]"
proof -
  obtain q where q: "atomic_ring_buffer_new (replicate 200 0) (of_nat (length (replicate 200 (0::u8)))) 4 = Some q"
    by (simp add: atomic_ring_buffer_new_def sizeof_atomic_ring_buffer_def Let_def)
  have "map_option fst (queue_run atomic_ring_buffer_emplace ring_front_elem atomic_ring_buffer_pop q
         [Offer [1, 2, 3, 4], Offer [5, 6, 7, 8], Take, Take])
       = Some (fst (fifo_run ((length (replicate 200 (0::u8)) - sizeof_atomic_ring_buffer) div unat (4::u64) - 1) []
           [Offer [1, 2, 3, 4], Offer [5, 6, 7, 8], Take, Take]))"
    by (rule conjunct1 [OF ring_buffer_refines_fifo [OF q]]) (auto simp: sizeof_atomic_ring_buffer_def)
  with q show ?thesis
    by (simp add: sizeof_atomic_ring_buffer_def)
qed

end
