(* ===== verification/RingConcurrent.thy ===== *)
theory RingConcurrent
  imports RingBuffer
begin

text \<open>
  One producer and one consumer on an atomic ring buffer, interleaved at every atomic load and
  store of \<open>head\<close> and \<open>tail\<close> and at every byte that \<open>memcpy\<close> stores
  (\<^verbatim>\<open>kernel/atomic-ring-buffer.c\<close>, lines 36 to 69). The program counters name the point
  between two shared accesses and hold the local variables that are live there. The
  release store that publishes an index and the acquire load that reads it are one
  totally ordered access each. Two histories record the elements that \<open>emplace\<close> has
  published and the elements that the consumer has read through \<open>front\<close>.
\<close>

subsection \<open>The step relation\<close>

datatype producer =
    P_Idle
  | P_Head "u8 list" u64 u64
  | P_Copy "u8 list" u64 u64 nat

datatype consumer =
    C_Idle
  | C_Head u64
  | C_Front u64
  | C_Read
  | C_Pop u64

record spsc =
  sp_ring :: atomic_ring_buffer
  sp_prod :: producer
  sp_cons :: consumer
  sp_sent :: "u8 list list"
  sp_received :: "u8 list list"

inductive spsc_step :: "spsc \<Rightarrow> spsc \<Rightarrow> bool" where
  emplace_load_head:
    "\<lbrakk>sp_prod s = P_Idle; length e = unat (q_element_size (sp_ring s)); h = q_head (sp_ring s)\<rbrakk> \<Longrightarrow>
     spsc_step s (s\<lparr>sp_prod := P_Head e h (ring_next (sp_ring s) h)\<rparr>)"
| emplace_full:
    "\<lbrakk>sp_prod s = P_Head e h nh; nh = q_tail (sp_ring s)\<rbrakk> \<Longrightarrow> spsc_step s (s\<lparr>sp_prod := P_Idle\<rparr>)"
| emplace_room:
    "\<lbrakk>sp_prod s = P_Head e h nh; nh \<noteq> q_tail (sp_ring s)\<rbrakk> \<Longrightarrow> spsc_step s (s\<lparr>sp_prod := P_Copy e h nh 0\<rparr>)"
| emplace_copy:
    "\<lbrakk>sp_prod s = P_Copy e h nh i; i < unat (q_element_size (sp_ring s));
      rd e i = Some b; wr (q_data (sp_ring s)) (unat h + i) b = Some d\<rbrakk> \<Longrightarrow>
     spsc_step s (s\<lparr>sp_prod := P_Copy e h nh (Suc i), sp_ring := (sp_ring s)\<lparr>q_data := d\<rparr>\<rparr>)"
| emplace_store_head:
    "\<lbrakk>sp_prod s = P_Copy e h nh i; i = unat (q_element_size (sp_ring s))\<rbrakk> \<Longrightarrow>
     spsc_step s (s\<lparr>sp_prod := P_Idle, sp_ring := (sp_ring s)\<lparr>q_head := nh\<rparr>, sp_sent := sp_sent s @ [e]\<rparr>)"
| front_load_head:
    "\<lbrakk>sp_cons s = C_Idle\<rbrakk> \<Longrightarrow> spsc_step s (s\<lparr>sp_cons := C_Head (q_head (sp_ring s))\<rparr>)"
| front_empty:
    "\<lbrakk>sp_cons s = C_Head h; h = q_tail (sp_ring s)\<rbrakk> \<Longrightarrow> spsc_step s (s\<lparr>sp_cons := C_Idle\<rparr>)"
| front_some:
    "\<lbrakk>sp_cons s = C_Head h; h \<noteq> q_tail (sp_ring s)\<rbrakk> \<Longrightarrow>
     spsc_step s (s\<lparr>sp_cons := C_Front (q_tail (sp_ring s))\<rparr>)"
| use_element:
    "\<lbrakk>sp_cons s = C_Front t\<rbrakk> \<Longrightarrow>
     spsc_step s (s\<lparr>sp_cons := C_Read, sp_received := sp_received s @ [ring_elem (sp_ring s) t]\<rparr>)"
| pop_load_tail:
    "\<lbrakk>sp_cons s = C_Read\<rbrakk> \<Longrightarrow>
     spsc_step s (s\<lparr>sp_cons := C_Pop (ring_next (sp_ring s) (q_tail (sp_ring s)))\<rparr>)"
| pop_store_tail:
    "\<lbrakk>sp_cons s = C_Pop nt\<rbrakk> \<Longrightarrow>
     spsc_step s (s\<lparr>sp_cons := C_Idle, sp_ring := (sp_ring s)\<lparr>q_tail := nt\<rparr>\<rparr>)"

definition spsc_init :: "atomic_ring_buffer \<Rightarrow> spsc" where
  "spsc_init q = \<lparr>sp_ring = q, sp_prod = P_Idle, sp_cons = C_Idle, sp_sent = [], sp_received = []\<rparr>"

subsection \<open>The invariant\<close>

text \<open>What the producer knows at each point: \<open>head\<close> does not move under it, and while it
  copies, the slot at the head is free.\<close>

definition prod_inv :: "atomic_ring_buffer \<Rightarrow> producer \<Rightarrow> bool" where
  "prod_inv q p = (case p of
       P_Idle \<Rightarrow> True
     | P_Head e h nh \<Rightarrow> length e = unat (q_element_size q) \<and> h = q_head q \<and> nh = ring_next q h
     | P_Copy e h nh i \<Rightarrow> length e = unat (q_element_size q) \<and> h = q_head q \<and> nh = ring_next q h
         \<and> i \<le> length e \<and> Suc (ring_count q) < ring_slots q
         \<and> take i (drop (unat h) (q_data q)) = take i e)"

text \<open>What the consumer knows: a head different from the tail, however old, means that there is
  an element, and the element it has read is still the first one.\<close>

definition cons_inv :: "atomic_ring_buffer \<Rightarrow> consumer \<Rightarrow> u8 list list \<Rightarrow> bool" where
  "cons_inv q c received = (case c of
       C_Idle \<Rightarrow> True
     | C_Head h \<Rightarrow> h \<noteq> q_tail q \<longrightarrow> ring_list q \<noteq> []
     | C_Front t \<Rightarrow> t = q_tail q \<and> ring_list q \<noteq> []
     | C_Read \<Rightarrow> ring_list q \<noteq> [] \<and> received \<noteq> [] \<and> last received = hd (ring_list q)
     | C_Pop nt \<Rightarrow> nt = ring_next q (q_tail q) \<and> ring_list q \<noteq> [] \<and> received \<noteq> []
         \<and> last received = hd (ring_list q))"

text \<open>The elements already popped: all that were received but the one being used.\<close>

definition popped :: "consumer \<Rightarrow> u8 list list \<Rightarrow> u8 list list" where
  "popped c received = (case c of C_Read \<Rightarrow> butlast received | C_Pop _ \<Rightarrow> butlast received | _ \<Rightarrow> received)"

definition spsc_inv :: "spsc \<Rightarrow> bool" where
  "spsc_inv s \<longleftrightarrow> ring_wf (sp_ring s) \<and> prod_inv (sp_ring s) (sp_prod s)
     \<and> cons_inv (sp_ring s) (sp_cons s) (sp_received s) \<and> sp_sent s = popped (sp_cons s) (sp_received s) @ ring_list (sp_ring s)"

lemma spsc_inv_init: "ring_wf q \<Longrightarrow> ring_list q = [] \<Longrightarrow> spsc_inv (spsc_init q)"
  by (simp add: spsc_inv_def spsc_init_def prod_inv_def cons_inv_def popped_def)

subsection \<open>A byte stored in the free slot\<close>

lemma ring_put_byte:
  assumes "ring_wf q" and "i < unat (q_element_size q)" and "d = (q_data q)[unat (q_head q) + i := b]"
  shows "ring_wf (q\<lparr>q_data := d\<rparr>)" and "ring_list (q\<lparr>q_data := d\<rparr>) = ring_list q"
proof -
  define E h t n where "E = unat (q_element_size q)" and "h = ring_idx q (q_head q)"
    and "t = ring_idx q (q_tail q)" and "n = ring_slots q"
  have hE: "unat (q_head q) = h * E" and hn: "h < n" and tn: "t < n"
    using ring_off_idx [OF assms(1) ring_wfD(4) [OF assms(1)]] ring_head_tail_idx [OF assms(1)]
    by (simp_all add: h_def E_def n_def t_def)
  show "ring_wf (q\<lparr>q_data := d\<rparr>)"
    using assms(1,3) by (simp add: ring_wf_def ring_off_def)
  have slot: "ring_slot (q\<lparr>q_data := d\<rparr>) k = ring_slot q k" if "k \<noteq> h" for k
  proof -
    have "h * E + i < k * E \<or> k * E + E \<le> h * E + i"
      using ring_slot_disjoint [OF that, of E] assms(2) by (auto simp: E_def)
    then show ?thesis
      by (simp add: ring_slot_def assms(3) hE take_drop_update_outside flip: E_def)
  qed
  have "ring_count (q\<lparr>q_data := d\<rparr>) = ring_count q" "ring_slots (q\<lparr>q_data := d\<rparr>) = n"
      "ring_idx (q\<lparr>q_data := d\<rparr>) (q_tail (q\<lparr>q_data := d\<rparr>)) = t"
    by (simp_all add: ring_count_def ring_slots_def ring_idx_def n_def t_def)
  moreover have "(t + j) mod n \<noteq> h" if "j < ring_count q" for j
    using ring_dist_unique [OF tn hn] that by (simp add: ring_count_def n_def t_def h_def)
  ultimately show "ring_list (q\<lparr>q_data := d\<rparr>) = ring_list q"
    unfolding ring_list_def by (simp add: slot n_def [symmetric] t_def [symmetric])
qed

subsection \<open>Every step preserves the invariant\<close>

text \<open>The consumer does not mind that the queue grows, nor the producer that it shrinks.\<close>

lemma cons_inv_grow:
  assumes "cons_inv q c r" and "ring_list q' = ring_list q @ zs" and "q_tail q' = q_tail q"
    and "q_element_size q' = q_element_size q" and "q_capacity q' = q_capacity q"
  shows "cons_inv q' c r"
  using assms by (auto simp: cons_inv_def ring_next_def split: consumer.splits)

lemma prod_inv_shrink:
  assumes "prod_inv q p" and "ring_count q' \<le> ring_count q" and "q_head q' = q_head q" and "q_data q' = q_data q"
    and "q_element_size q' = q_element_size q" and "q_capacity q' = q_capacity q"
  shows "prod_inv q' p"
  using assms by (auto simp: prod_inv_def ring_next_def ring_slots_def split: producer.splits)

lemma spsc_inv_copy:
  assumes inv: "spsc_inv s" and p: "sp_prod s = P_Copy e h nh i" "i < unat (q_element_size (sp_ring s))"
    and b: "rd e i = Some b" "wr (q_data (sp_ring s)) (unat h + i) b = Some d"
  shows "spsc_inv (s\<lparr>sp_prod := P_Copy e h nh (Suc i), sp_ring := (sp_ring s)\<lparr>q_data := d\<rparr>\<rparr>)"
proof -
  define q where "q = sp_ring s"
  have wf: "ring_wf q" and pi: "prod_inv q (sp_prod s)" and ci: "cons_inv q (sp_cons s) (sp_received s)"
      and sent: "sp_sent s = popped (sp_cons s) (sp_received s) @ ring_list q"
    using inv by (auto simp: spsc_inv_def q_def)
  have h: "h = q_head q" and d: "d = (q_data q)[unat (q_head q) + i := b]" and len: "unat h + i < length (q_data q)"
    using pi p b by (auto simp: prod_inv_def obj_simps q_def)
  note put = ring_put_byte [OF wf p(2) [folded q_def] d]
  have cnt: "ring_count (q\<lparr>q_data := d\<rparr>) = ring_count q"
    using put(2) by (metis length_ring_list)
  have "take (Suc i) (drop (unat h) d) = take i (drop (unat h) (q_data q)) @ [b]"
    using len unfolding d h by (simp add: drop_update_swap take_list_update_same)
  also have "\<dots> = take (Suc i) e"
    using pi p b by (auto simp: prod_inv_def obj_simps q_def take_Suc_conv_app_nth)
  finally have "prod_inv (q\<lparr>q_data := d\<rparr>) (P_Copy e h nh (Suc i))"
    using pi p(1) b cnt unfolding q_def [symmetric]
    by (auto simp: prod_inv_def obj_simps ring_next_def ring_slots_def)
  moreover have "cons_inv (q\<lparr>q_data := d\<rparr>) (sp_cons s) (sp_received s)"
    using ci by (rule cons_inv_grow [where zs = "[]"]) (simp_all add: put)
  ultimately show ?thesis
    using put sent unfolding spsc_inv_def by (simp add: q_def)
qed

lemma spsc_inv_store_head:
  assumes inv: "spsc_inv s" and p: "sp_prod s = P_Copy e h nh (unat (q_element_size (sp_ring s)))"
  shows "spsc_inv (s\<lparr>sp_prod := P_Idle, sp_ring := (sp_ring s)\<lparr>q_head := nh\<rparr>, sp_sent := sp_sent s @ [e]\<rparr>)"
proof -
  define q where "q = sp_ring s"
  have wf: "ring_wf q" and ci: "cons_inv q (sp_cons s) (sp_received s)" and sent: "sp_sent s = popped (sp_cons s) (sp_received s) @ ring_list q"
    using inv by (auto simp: spsc_inv_def q_def)
  have nh: "nh = ring_next q (q_head q)" and room: "Suc (ring_count q) < ring_slots q"
      and new: "take (unat (q_element_size q)) (drop (unat (q_head q)) (q_data q)) = e"
    using inv p by (auto simp: spsc_inv_def prod_inv_def q_def)
  have st: "ring_wf (q\<lparr>q_head := nh\<rparr>)" "ring_list (q\<lparr>q_head := nh\<rparr>) = ring_list q @ [e]"
    using ring_store_list [OF wf room refl new] by (simp_all add: nh)
  have "cons_inv (q\<lparr>q_head := nh\<rparr>) (sp_cons s) (sp_received s)"
    using ci by (rule cons_inv_grow) (simp_all add: st)
  then show ?thesis
    using st sent unfolding spsc_inv_def by (simp add: q_def prod_inv_def)
qed

lemma spsc_inv_store_tail:
  assumes inv: "spsc_inv s" and c: "sp_cons s = C_Pop nt"
  shows "spsc_inv (s\<lparr>sp_cons := C_Idle, sp_ring := (sp_ring s)\<lparr>q_tail := nt\<rparr>\<rparr>)"
proof -
  define q where "q = sp_ring s"
  have wf: "ring_wf q" and pi: "prod_inv q (sp_prod s)" and ne: "ring_list q \<noteq> []"
      and nt: "q\<lparr>q_tail := nt\<rparr> = atomic_ring_buffer_pop q"
      and r: "sp_received s \<noteq> []" "last (sp_received s) = hd (ring_list q)"
      and sent: "sp_sent s = butlast (sp_received s) @ ring_list q"
    using inv c by (auto simp: spsc_inv_def q_def cons_inv_def popped_def atomic_ring_buffer_pop_def)
  note pop = ring_pop_list [OF wf ne]
  have "ring_count (atomic_ring_buffer_pop q) \<le> ring_count q"
    using pop(2) by (metis diff_le_self length_ring_list length_tl)
  then have "prod_inv (atomic_ring_buffer_pop q) (sp_prod s)"
    using pi by (elim prod_inv_shrink) (simp_all add: atomic_ring_buffer_pop_def)
  moreover have "butlast (sp_received s) @ ring_list q = sp_received s @ tl (ring_list q)"
    using r ne by (metis append.assoc append_butlast_last_id append_Cons append_Nil list.collapse)
  ultimately show ?thesis
    using pop sent unfolding spsc_inv_def by (simp add: nt [unfolded q_def] q_def popped_def cons_inv_def)
qed

lemma spsc_inv_use:
  assumes inv: "spsc_inv s" and c: "sp_cons s = C_Front t"
  shows "spsc_inv (s\<lparr>sp_cons := C_Read, sp_received := sp_received s @ [ring_elem (sp_ring s) t]\<rparr>)"
  using assms ring_list_hd [of "sp_ring s"] by (auto simp: spsc_inv_def cons_inv_def popped_def)

lemma spsc_step_inv:
  assumes "spsc_step s s'" and "spsc_inv s"
  shows "spsc_inv s'"
  using assms
proof cases
  case (emplace_room e h nh)
  have wf: "ring_wf (sp_ring s)" using assms(2) by (simp add: spsc_inv_def)
  have "Suc (ring_count (sp_ring s)) < ring_slots (sp_ring s)"
    using emplace_room assms(2) ring_full_iff [OF wf] ring_count_bound [OF wf]
    by (auto simp: spsc_inv_def prod_inv_def)
  then show ?thesis
    using emplace_room assms(2) by (auto simp: spsc_inv_def prod_inv_def)
next
  case front_load_head
  then show ?thesis
    using assms(2) ring_empty_iff [of "sp_ring s"] by (auto simp: spsc_inv_def cons_inv_def popped_def)
next
  case emplace_copy
  then show ?thesis using assms(2) spsc_inv_copy by blast
next
  case emplace_store_head
  then show ?thesis using assms(2) spsc_inv_store_head by blast
next
  case use_element
  then show ?thesis using assms(2) spsc_inv_use by blast
next
  case pop_store_tail
  then show ?thesis using assms(2) spsc_inv_store_tail by blast
qed (use assms(2) in \<open>auto simp: spsc_inv_def prod_inv_def cons_inv_def popped_def\<close>)

lemma spsc_reachable_inv: "spsc_step\<^sup>*\<^sup>* s s' \<Longrightarrow> spsc_inv s \<Longrightarrow> spsc_inv s'"
  by (induction rule: rtranclp_induct) (auto intro: spsc_step_inv)

subsection \<open>The sequential operations are runs of the step relation\<close>

lemma copy_steps:
  assumes "memcpy (q_data (sp_ring s)) (unat h + i) e i n = Some d" and "sp_prod s = P_Copy e h nh i"
    and "i + n = unat (q_element_size (sp_ring s))"
  shows "spsc_step\<^sup>*\<^sup>* s (s\<lparr>sp_prod := P_Copy e h nh (i + n), sp_ring := (sp_ring s)\<lparr>q_data := d\<rparr>\<rparr>)"
  using assms
proof (induction n arbitrary: i s)
  case 0
  then have "s\<lparr>sp_prod := P_Copy e h nh (i + 0), sp_ring := (sp_ring s)\<lparr>q_data := d\<rparr>\<rparr> = s"
    by (cases s) auto
  then show ?case by simp
next
  case (Suc n)
  obtain b d0 where b: "rd e i = Some b" "wr (q_data (sp_ring s)) (unat h + i) b = Some d0"
      and rest: "memcpy d0 (Suc (unat h + i)) e (Suc i) n = Some d"
    using Suc.prems(1) by (auto split: option.splits)
  define s1 where "s1 = s\<lparr>sp_prod := P_Copy e h nh (Suc i), sp_ring := (sp_ring s)\<lparr>q_data := d0\<rparr>\<rparr>"
  have "spsc_step s s1"
    unfolding s1_def using Suc.prems(2,3) b by (intro spsc_step.emplace_copy) auto
  moreover have "spsc_step\<^sup>*\<^sup>* s1 (s1\<lparr>sp_prod := P_Copy e h nh (Suc i + n), sp_ring := (sp_ring s1)\<lparr>q_data := d\<rparr>\<rparr>)"
    using rest Suc.prems(3) by (intro Suc.IH) (simp_all add: s1_def)
  ultimately show ?case
    by (simp add: s1_def converse_rtranclp_into_rtranclp)
qed

lemma emplace_steps:
  assumes "atomic_ring_buffer_emplace (sp_ring s) e = Some (ok, q')" and "sp_prod s = P_Idle"
    and "length e = unat (q_element_size (sp_ring s))"
  shows "spsc_step\<^sup>*\<^sup>* s (s\<lparr>sp_ring := q', sp_sent := sp_sent s @ (if ok then [e] else [])\<rparr>)"
proof -
  define q h nh where "q = sp_ring s" and "h = q_head q" and "nh = ring_next q h"
  have s1: "spsc_step s (s\<lparr>sp_prod := P_Head e h nh\<rparr>)"
    unfolding nh_def q_def h_def using assms by (intro spsc_step.emplace_load_head) auto
  show ?thesis
  proof (cases "nh = q_tail q")
    case True
    have "spsc_step (s\<lparr>sp_prod := P_Head e h nh\<rparr>) (s\<lparr>sp_prod := P_Head e h nh, sp_prod := P_Idle\<rparr>)"
      using True by (intro spsc_step.emplace_full) (auto simp: q_def)
    moreover have "ok = False" "q' = q"
      using True assms(1) by (auto simp: atomic_ring_buffer_emplace_def q_def h_def nh_def)
    ultimately have "spsc_step\<^sup>*\<^sup>* s (s\<lparr>sp_prod := P_Idle\<rparr>)"
      using s1 by (simp add: converse_rtranclp_into_rtranclp)
    then show ?thesis
      using assms(2) \<open>ok = False\<close> \<open>q' = q\<close> by (simp add: q_def)
  next
    case False
    then obtain d where d: "memcpy (q_data q) (unat h) e 0 (unat (q_element_size q)) = Some d"
        and q': "ok" "q' = q\<lparr>q_data := d, q_head := nh\<rparr>"
      using assms(1) by (auto simp: atomic_ring_buffer_emplace_def q_def h_def nh_def split: option.splits)
    define s2 where "s2 = s\<lparr>sp_prod := P_Copy e h nh 0\<rparr>"
    define s3 where "s3 = s\<lparr>sp_prod := P_Copy e h nh (unat (q_element_size q)), sp_ring := q\<lparr>q_data := d\<rparr>\<rparr>"
    have "spsc_step (s\<lparr>sp_prod := P_Head e h nh\<rparr>) (s\<lparr>sp_prod := P_Head e h nh, sp_prod := P_Copy e h nh 0\<rparr>)"
      using False by (intro spsc_step.emplace_room) (auto simp: q_def)
    then have "spsc_step\<^sup>*\<^sup>* s s2"
      using s1 by (simp add: s2_def converse_rtranclp_into_rtranclp)
    moreover have "spsc_step\<^sup>*\<^sup>* s2 s3"
      using copy_steps [of s2 h 0 e "unat (q_element_size q)" d nh] d by (simp add: s2_def s3_def q_def)
    moreover have "spsc_step s3 (s3\<lparr>sp_prod := P_Idle, sp_ring := (sp_ring s3)\<lparr>q_head := nh\<rparr>, sp_sent := sp_sent s3 @ [e]\<rparr>)"
      by (intro spsc_step.emplace_store_head [where h = h and i = "unat (q_element_size q)"]) (simp_all add: s3_def)
    ultimately have "spsc_step\<^sup>*\<^sup>* s (s3\<lparr>sp_prod := P_Idle, sp_ring := (sp_ring s3)\<lparr>q_head := nh\<rparr>, sp_sent := sp_sent s3 @ [e]\<rparr>)"
      by (meson rtranclp.rtrancl_into_rtrancl rtranclp_trans)
    moreover have "s\<lparr>sp_prod := P_Idle, sp_ring := q', sp_sent := sp_sent s @ [e]\<rparr>
        = s\<lparr>sp_ring := q', sp_sent := sp_sent s @ [e]\<rparr>"
      using assms(2) by (cases s) auto
    ultimately show ?thesis
      using q' by (simp add: s3_def)
  qed
qed

subsection \<open>Progress\<close>

definition prod_work :: "nat \<Rightarrow> producer \<Rightarrow> nat" where
  "prod_work es p = (case p of P_Idle \<Rightarrow> 0 | P_Head _ _ _ \<Rightarrow> es + 2 | P_Copy _ _ _ i \<Rightarrow> Suc (es - i))"

inductive_cases spsc_stepE: "spsc_step s s'"

lemma prod_progress:
  assumes "spsc_inv s" and "sp_prod s \<noteq> P_Idle"
  shows "\<exists>s'. spsc_step s s' \<and> sp_cons s' = sp_cons s
     \<and> prod_work (unat (q_element_size (sp_ring s'))) (sp_prod s') < prod_work (unat (q_element_size (sp_ring s))) (sp_prod s)"
proof (cases "sp_prod s")
  case P_Idle
  with assms show ?thesis by simp
next
  case (P_Head e h nh)
  show ?thesis
  proof (cases "nh = q_tail (sp_ring s)")
    case True
    show ?thesis
      by (rule exI, rule conjI, rule spsc_step.emplace_full [OF P_Head True]) (simp add: P_Head prod_work_def)
  next
    case False
    show ?thesis
      by (rule exI, rule conjI, rule spsc_step.emplace_room [OF P_Head False]) (simp add: P_Head prod_work_def)
  qed
next
  case (P_Copy e h nh i)
  define E where "E = unat (q_element_size (sp_ring s))"
  have wf: "ring_wf (sp_ring s)" and h: "h = q_head (sp_ring s)" and len: "length e = E" and i: "i \<le> E"
    using assms(1) P_Copy by (auto simp: spsc_inv_def prod_inv_def E_def)
  show ?thesis
  proof (cases "i = E")
    case True
    show ?thesis
      by (rule exI, rule conjI, rule spsc_step.emplace_store_head [OF P_Copy True [unfolded E_def]])
        (simp add: P_Copy prod_work_def)
  next
    case False
    then have iE: "i < E" using i by simp
    have "unat h + E \<le> length (q_data (sp_ring s))"
      using wf ring_off_idx [OF wf ring_wfD(4) [OF wf]] ring_wfD(3) [OF wf]
        mult_le_mono1 [of "Suc (ring_idx (sp_ring s) h)" "ring_slots (sp_ring s)" E]
      by (simp add: h E_def)
    then have "wr (q_data (sp_ring s)) (unat h + i) (e ! i) = Some ((q_data (sp_ring s))[unat h + i := e ! i])"
      using iE by (intro wr_ok) simp
    moreover have "rd e i = Some (e ! i)" using iE len by simp
    ultimately have step: "spsc_step s (s\<lparr>sp_prod := P_Copy e h nh (Suc i),
        sp_ring := (sp_ring s)\<lparr>q_data := (q_data (sp_ring s))[unat h + i := e ! i]\<rparr>\<rparr>)"
      using spsc_step.emplace_copy [OF P_Copy iE [unfolded E_def]] by simp
    show ?thesis
      by (rule exI, rule conjI, rule step) (use iE in \<open>simp add: P_Copy prod_work_def E_def\<close>)
  qed
qed

lemma consumer_step_keeps_producer:
  "spsc_step s s' \<Longrightarrow> sp_cons s' \<noteq> sp_cons s \<Longrightarrow> sp_prod s' = sp_prod s"
  by (auto elim: spsc_stepE)

subsection \<open>Properties\<close>

text \<open>C1: however the producer and the consumer of a new ring buffer interleave, down to the
  single byte stores of the copy, the consumer reads exactly the elements that were
  emplaced, in order, none lost, duplicated or torn: what it has received is an initial
  part of what was sent, and the two differ by less than the number of slots.\<close>

theorem spsc_fifo:
  assumes "atomic_ring_buffer_new buf (of_nat (length buf)) es = Some q" and "length buf < 2 ^ 64"
    and "sizeof_atomic_ring_buffer + unat es \<le> length buf" and "spsc_step\<^sup>*\<^sup>* (spsc_init q) s"
  shows "sp_received s = take (length (sp_received s)) (sp_sent s)
     \<and> length (sp_sent s) < length (sp_received s) + (length buf - sizeof_atomic_ring_buffer) div unat es"
proof -
  note new = ring_new_wf [OF assms(1-3)]
  have inv: "spsc_inv s"
    using spsc_reachable_inv [OF assms(4)] spsc_inv_init new(1,2) by blast
  then have wf: "ring_wf (sp_ring s)" by (simp add: spsc_inv_def)
  have frame: "ring_slots (sp_ring s) = ring_slots q"
    using assms(4) by (induction rule: rtranclp_induct) (auto elim!: spsc_stepE simp: ring_slots_def spsc_init_def)
  have sent: "sp_sent s = popped (sp_cons s) (sp_received s) @ ring_list (sp_ring s)"
    using inv by (simp add: spsc_inv_def)
  have "length (popped (sp_cons s) (sp_received s)) \<le> length (sp_received s)"
    by (simp add: popped_def split: consumer.splits)
  then have "length (sp_sent s) < length (sp_received s) + ring_slots q"
    using ring_count_bound [OF wf] by (simp add: sent frame)
  moreover have "sp_received s = take (length (sp_received s)) (sp_sent s)"
  proof (cases "popped (sp_cons s) (sp_received s) = sp_received s")
    case True
    then show ?thesis using sent by simp
  next
    case False
    then have "popped (sp_cons s) (sp_received s) = butlast (sp_received s)" "sp_received s \<noteq> []"
        "ring_list (sp_ring s) = last (sp_received s) # tl (ring_list (sp_ring s))"
      using inv by (auto simp: spsc_inv_def cons_inv_def popped_def split: consumer.splits)
    then have "sp_sent s = sp_received s @ tl (ring_list (sp_ring s))"
      by (metis sent append.assoc append_butlast_last_id append_Cons append_Nil)
    then show ?thesis by simp
  qed
  ultimately show ?thesis by (simp add: new(4))
qed

definition spsc_example :: atomic_ring_buffer where
  "spsc_example = \<lparr>q_element_size = 4, q_capacity = 12, q_tail = 0, q_head = 0, q_data = replicate 12 0\<rparr>"

lemma spsc_example_new:
  "atomic_ring_buffer_new (replicate 204 0) (of_nat (length (replicate 204 (0::u8)))) 4 = Some spsc_example"
  by (simp add: atomic_ring_buffer_new_def spsc_example_def sizeof_atomic_ring_buffer_def Let_def)

lemma spsc_example_emplace:
  "spsc_step\<^sup>*\<^sup>* (spsc_init spsc_example)
     ((spsc_init spsc_example)\<lparr>sp_ring := spsc_example\<lparr>q_data := [1, 2, 3, 4] @ replicate 8 0, q_head := 4\<rparr>,
        sp_sent := [[1, 2, 3, 4]]\<rparr>)"
  using emplace_steps [of "spsc_init spsc_example" "[1, 2, 3, 4]" True
      "spsc_example\<lparr>q_data := [1, 2, 3, 4] @ replicate 8 0, q_head := 4\<rparr>"]
  by (simp add: spsc_init_def spsc_example_def atomic_ring_buffer_emplace_def ring_next_def memcpy_eq)

theorem spsc_fifo_witness:
  "\<exists>s. spsc_step\<^sup>*\<^sup>* (spsc_init spsc_example) s \<and> sp_sent s = [[1, 2, 3, 4]]
     \<and> sp_received s = take (length (sp_received s)) (sp_sent s)
     \<and> length (sp_sent s) < length (sp_received s) + 3"
  using spsc_fifo [OF spsc_example_new _ _ spsc_example_emplace] spsc_example_emplace
  by (intro exI conjI) (assumption | simp add: sizeof_atomic_ring_buffer_def spsc_init_def)+

text \<open>C28: \<open>emplace\<close> is wait-free. In every reachable state a producer that is inside the
  call has a step of its own that brings it closer to its return, whatever the consumer is
  doing, and no step of the consumer changes how far the producer has come.\<close>

theorem emplace_wait_free:
  assumes "ring_wf q" and "ring_list q = []" and "spsc_step\<^sup>*\<^sup>* (spsc_init q) s" and "sp_prod s \<noteq> P_Idle"
  shows "(\<exists>s'. spsc_step s s' \<and> sp_cons s' = sp_cons s
       \<and> prod_work (unat (q_element_size (sp_ring s'))) (sp_prod s')
           < prod_work (unat (q_element_size (sp_ring s))) (sp_prod s))
     \<and> (\<forall>s'. spsc_step s s' \<longrightarrow> sp_cons s' \<noteq> sp_cons s \<longrightarrow> sp_prod s' = sp_prod s)"
  using prod_progress [of s] spsc_reachable_inv [OF assms(3)] spsc_inv_init [OF assms(1,2)] assms(4)
    consumer_step_keeps_producer by blast

lemma spsc_example_wf: "ring_wf spsc_example" "ring_list spsc_example = []"
  by (simp_all add: spsc_example_def ring_wf_def ring_off_def ring_list_def ring_count_def ring_dist_def ring_idx_def)

theorem emplace_wait_free_witness:
  "\<exists>s s'. spsc_step\<^sup>*\<^sup>* (spsc_init spsc_example) s \<and> sp_prod s = P_Head [1, 2, 3, 4] 0 4
     \<and> spsc_step s s' \<and> prod_work 4 (sp_prod s') < prod_work 4 (sp_prod s)"
proof -
  define s where "s = (spsc_init spsc_example)\<lparr>sp_prod := P_Head [1, 2, 3, 4] 0 4\<rparr>"
  have "spsc_step (spsc_init spsc_example) s"
    using spsc_step.emplace_load_head [of "spsc_init spsc_example" "[1, 2, 3, 4]" 0]
    by (simp add: s_def spsc_init_def spsc_example_def ring_next_def)
  then have r: "spsc_step\<^sup>*\<^sup>* (spsc_init spsc_example) s" by simp
  have p: "sp_prod s = P_Head [1, 2, 3, 4] 0 4" by (simp add: s_def)
  obtain s' where s': "spsc_step s s'"
      "prod_work (unat (q_element_size (sp_ring s'))) (sp_prod s') < prod_work (unat (q_element_size (sp_ring s))) (sp_prod s)"
    using emplace_wait_free [OF spsc_example_wf r] p by auto
  have "unat (q_element_size (sp_ring s)) = 4"
    by (simp add: s_def spsc_init_def spsc_example_def)
  moreover from s'(1) this have "unat (q_element_size (sp_ring s')) = 4"
    by (auto elim!: spsc_stepE)
  ultimately show ?thesis using r p s' by (intro exI [of _ s] exI [of _ s'] conjI) simp_all
qed

end
