(* ===== verification/IoQueue.thy ===== *)
theory IoQueue
  imports RingBuffer
begin

text \<open>
  The I/O queue: user space appends commands with \<^verbatim>\<open>usr/libmanticore/src/io_queue.c\<close> and
  the kernel removes them with \<^verbatim>\<open>kernel/ioqueue.rs\<close>. A command crosses the boundary as the
  24 bytes of \<^verbatim>\<open>struct io_cmd\<close> (\<^verbatim>\<open>include/uapi/manticore/io_queue_abi.h\<close>); the four
  padding bytes after \<open>opcode\<close> have no specified value and are an argument.
\<close>

subsection \<open>Commands and operations\<close>

datatype Opcode = Submit | Complete

record IOCmd =
  cmd_opcode :: Opcode
  cmd_addr :: u64
  cmd_len :: u64

abbreviation IO_OPCODE_SUBMIT :: u32 where "IO_OPCODE_SUBMIT \<equiv> 1"
abbreviation IO_OPCODE_COMPLETE :: u32 where "IO_OPCODE_COMPLETE \<equiv> 2"

definition sizeof_io_cmd :: nat where "sizeof_io_cmd = 24"

definition io_cmd_bytes :: "u8 list \<Rightarrow> u32 \<Rightarrow> u64 \<Rightarrow> u64 \<Rightarrow> u8 list" where
  "io_cmd_bytes pad opcode addr len = enc32 opcode @ pad @ enc64 addr @ enc64 len"

definition io_queue_append ::
  "u8 list \<Rightarrow> atomic_ring_buffer \<Rightarrow> u32 \<Rightarrow> u64 \<Rightarrow> u64 \<Rightarrow> (int \<times> atomic_ring_buffer) option" where
  "io_queue_append pad q opcode addr len =
     (case user_ring_buffer_emplace q (io_cmd_bytes pad opcode addr len) of
        None \<Rightarrow> None
      | Some (_, q') \<Rightarrow> Some (0, q'))"

definition io_submit :: "u8 list \<Rightarrow> atomic_ring_buffer \<Rightarrow> u64 \<Rightarrow> u64 \<Rightarrow> (int \<times> atomic_ring_buffer) option" where
  "io_submit pad q addr len = io_queue_append pad q IO_OPCODE_SUBMIT addr len"

definition io_complete :: "u8 list \<Rightarrow> atomic_ring_buffer \<Rightarrow> u64 \<Rightarrow> u64 \<Rightarrow> (int \<times> atomic_ring_buffer) option" where
  "io_complete pad q addr len = io_queue_append pad q IO_OPCODE_COMPLETE addr len"

text \<open>\<open>IOQueue::new\<close>: a ring buffer of \<open>RawIOCmd\<close> elements.\<close>

definition IOQueue_new :: "u8 list \<Rightarrow> u64 \<Rightarrow> atomic_ring_buffer option" where
  "IOQueue_new buf sz = atomic_ring_buffer_new buf sz (of_nat sizeof_io_cmd)"

text \<open>The loads of \<open>(*raw_io_cmd)\<close> and the match on the opcode.\<close>

definition raw_io_cmd_decode :: "u8 list \<Rightarrow> IOCmd option" where
  "raw_io_cmd_decode raw =
     (let opcode = dec32 (take 4 raw);
          addr = dec64 (take 8 (drop 8 raw));
          len = dec64 (take 8 (drop 16 raw))
      in map_option (\<lambda>opc. \<lparr>cmd_opcode = opc, cmd_addr = addr, cmd_len = len\<rparr>)
           (if opcode = IO_OPCODE_SUBMIT then Some Submit
            else if opcode = IO_OPCODE_COMPLETE then Some Complete else None))"

definition IOQueue_pop :: "atomic_ring_buffer \<Rightarrow> IOCmd option \<times> atomic_ring_buffer" where
  "IOQueue_pop q =
     (case atomic_ring_buffer_front q of
        None \<Rightarrow> (None, q)
      | Some p \<Rightarrow> (raw_io_cmd_decode (ring_elem q p), atomic_ring_buffer_pop q))"

subsection \<open>Sequences of calls\<close>

definition io_append_cmd :: "u8 list \<Rightarrow> atomic_ring_buffer \<Rightarrow> IOCmd \<Rightarrow> (int \<times> atomic_ring_buffer) option" where
  "io_append_cmd pad q c =
     (case cmd_opcode c of
        Submit \<Rightarrow> io_submit pad q (cmd_addr c) (cmd_len c)
      | Complete \<Rightarrow> io_complete pad q (cmd_addr c) (cmd_len c))"

fun io_append_all :: "u8 list \<Rightarrow> atomic_ring_buffer \<Rightarrow> IOCmd list \<Rightarrow> atomic_ring_buffer option" where
  "io_append_all pad q [] = Some q"
| "io_append_all pad q (c # cs) =
     (case io_append_cmd pad q c of None \<Rightarrow> None | Some (_, q') \<Rightarrow> io_append_all pad q' cs)"

fun io_pop_all :: "nat \<Rightarrow> atomic_ring_buffer \<Rightarrow> IOCmd option list \<times> atomic_ring_buffer" where
  "io_pop_all 0 q = ([], q)"
| "io_pop_all (Suc n) q =
     (let (c, q') = IOQueue_pop q; (cs, q'') = io_pop_all n q' in (c # cs, q''))"

subsection \<open>What the kernel reads is what the user wrote\<close>

definition opcode_of :: "Opcode \<Rightarrow> u32" where
  "opcode_of c = (case c of Submit \<Rightarrow> IO_OPCODE_SUBMIT | Complete \<Rightarrow> IO_OPCODE_COMPLETE)"

definition cmd_bytes :: "u8 list \<Rightarrow> IOCmd \<Rightarrow> u8 list" where
  "cmd_bytes pad c = io_cmd_bytes pad (opcode_of (cmd_opcode c)) (cmd_addr c) (cmd_len c)"

lemma length_cmd_bytes: "length pad = 4 \<Longrightarrow> length (cmd_bytes pad c) = sizeof_io_cmd"
  by (simp add: cmd_bytes_def io_cmd_bytes_def sizeof_io_cmd_def)

lemma raw_io_cmd_decode_bytes:
  assumes "length pad = 4"
  shows "raw_io_cmd_decode (cmd_bytes pad c) = Some c"
proof -
  have "take 4 (cmd_bytes pad c) = enc32 (opcode_of (cmd_opcode c))"
    and "take 8 (drop 8 (cmd_bytes pad c)) = enc64 (cmd_addr c)"
    and "take 8 (drop 16 (cmd_bytes pad c)) = enc64 (cmd_len c)"
    using assms by (simp_all add: cmd_bytes_def io_cmd_bytes_def)
  then show ?thesis
    by (cases "cmd_opcode c")
      (simp_all add: raw_io_cmd_decode_def opcode_of_def Let_def)
qed

lemma io_append_cmd_eq:
  "io_append_cmd pad q c = (case user_ring_buffer_emplace q (cmd_bytes pad c) of
      None \<Rightarrow> None | Some (_, q') \<Rightarrow> Some (0, q'))"
  by (simp add: io_append_cmd_def io_submit_def io_complete_def io_queue_append_def cmd_bytes_def opcode_of_def
      split: Opcode.splits)

definition io_queue_wf :: "atomic_ring_buffer \<Rightarrow> bool" where
  "io_queue_wf q \<longleftrightarrow> ring_wf q \<and> unat (q_element_size q) = sizeof_io_cmd"

text \<open>A command offered to a full queue is dropped and the caller is not told: both
  calls return 0 and leave the queue as it was.\<close>

lemma io_submit_full_is_silent:
  assumes "io_queue_wf q" and "Suc (length (ring_list q)) = ring_slots q"
  shows "io_submit pad q addr len = Some (0, q) \<and> io_complete pad q addr len = Some (0, q)"
proof -
  have "user_ring_buffer_emplace q e = Some (False, q)" for e
    using assms ring_full_iff [of q] by (simp add: io_queue_wf_def user_ring_buffer_emplace_def)
  then show ?thesis
    by (simp_all add: io_submit_def io_complete_def io_queue_append_def)
qed

text \<open>Of a sequence of commands those are appended for which there is room, one slot always staying free;
  the rest is dropped.\<close>

lemma io_append_all_list:
  assumes "io_queue_wf q" and "length pad = 4"
  shows "\<exists>q'. io_append_all pad q cs = Some q' \<and> io_queue_wf q' \<and> ring_slots q' = ring_slots q
    \<and> ring_list q' = take (ring_slots q - 1) (ring_list q @ map (cmd_bytes pad) cs)"
  using assms
proof (induction cs arbitrary: q)
  case Nil
  then show ?case using ring_count_bound [of q] by (simp add: io_queue_wf_def)
next
  case (Cons c cs)
  show ?case
  proof (cases "Suc (ring_count q) < ring_slots q")
    case True
    then obtain q1 where q1: "atomic_ring_buffer_emplace q (cmd_bytes pad c) = Some (True, q1)" "ring_wf q1"
        "ring_list q1 = ring_list q @ [cmd_bytes pad c]" "ring_slots q1 = ring_slots q" "q_element_size q1 = q_element_size q"
      using Cons.prems ring_emplace_room [of q "cmd_bytes pad c"] by (auto simp: io_queue_wf_def length_cmd_bytes)
    have "user_ring_buffer_emplace q (cmd_bytes pad c) = Some (True, q1)"
      using q1(1) Cons.prems(1) by (simp add: user_ring_buffer_emplace_eq io_queue_wf_def sizeof_io_cmd_def)
    then show ?thesis using Cons.IH [of q1] Cons.prems q1 by (simp add: io_append_cmd_eq io_queue_wf_def)
  next
    case False
    then have full: "Suc (length (ring_list q)) = ring_slots q" using Cons.prems(1) ring_count_bound [of q] by (simp add: io_queue_wf_def)
    have "io_append_cmd pad q c = Some (0, q)"
      using io_submit_full_is_silent [OF Cons.prems(1) full] by (simp add: io_append_cmd_def split: Opcode.split)
    moreover have "take (ring_slots q - 1) (ring_list q @ xs) = ring_list q" for xs using full by (simp flip: full)
    ultimately show ?thesis using Cons.IH [of q] Cons.prems by simp
  qed
qed

lemma io_submit_list:
  assumes "io_queue_wf q" and "length pad = 4"
  shows "\<exists>q'. io_submit pad q addr len = Some (0, q') \<and> io_queue_wf q' \<and> ring_slots q' = ring_slots q
    \<and> ring_list q' = take (ring_slots q - 1) (ring_list q @ [cmd_bytes pad \<lparr>cmd_opcode = Submit, cmd_addr = addr, cmd_len = len\<rparr>])"
  using io_append_all_list [OF assms, of "[\<lparr>cmd_opcode = Submit, cmd_addr = addr, cmd_len = len\<rparr>]"]
  by (auto simp: io_append_cmd_def io_submit_def io_queue_append_def split: option.splits)

lemma IOQueue_pop_list:
  assumes "ring_wf q"
  shows "IOQueue_pop q = (case ring_list q of [] \<Rightarrow> (None, q)
     | x # _ \<Rightarrow> (raw_io_cmd_decode x, atomic_ring_buffer_pop q))"
  using ring_empty_iff [OF assms] ring_list_hd [OF assms]
  by (auto simp: IOQueue_pop_def atomic_ring_buffer_front_def split: list.splits)

lemma io_pop_all_list:
  assumes "ring_wf q" and "length pad = 4" and "ring_list q = map (cmd_bytes pad) cs @ rest" and "n = length cs"
  shows "fst (io_pop_all n q) = map Some cs \<and> ring_wf (snd (io_pop_all n q)) \<and> ring_list (snd (io_pop_all n q)) = rest"
  using assms
proof (induction n arbitrary: q cs)
  case 0
  then show ?case by simp
next
  case (Suc n)
  then obtain c cs' where cs: "cs = c # cs'" by (cases cs) auto
  have pop: "IOQueue_pop q = (Some c, atomic_ring_buffer_pop q)"
    using Suc.prems cs by (simp add: IOQueue_pop_list raw_io_cmd_decode_bytes)
  have "ring_wf (atomic_ring_buffer_pop q)" "ring_list (atomic_ring_buffer_pop q) = map (cmd_bytes pad) cs' @ rest"
    using ring_pop_list [of q] Suc.prems cs by auto
  with Suc.IH [of "atomic_ring_buffer_pop q" cs'] Suc.prems cs pop show ?case
    by (simp add: split_beta)
qed

lemma IOQueue_new_wf:
  assumes "IOQueue_new buf (of_nat (length buf)) = Some q" and "length buf < 2 ^ 64"
    and "sizeof_atomic_ring_buffer + sizeof_io_cmd \<le> length buf"
  shows "io_queue_wf q" and "ring_list q = []"
    and "ring_slots q = (length buf - sizeof_atomic_ring_buffer) div sizeof_io_cmd"
proof -
  have es: "unat (of_nat sizeof_io_cmd :: u64) = sizeof_io_cmd"
    by (simp add: sizeof_io_cmd_def)
  then have "sizeof_atomic_ring_buffer + unat (of_nat sizeof_io_cmd :: u64) \<le> length buf"
    using assms(3) by simp
  note new = ring_new_wf [OF assms(1) [unfolded IOQueue_new_def] assms(2) this]
  show "io_queue_wf q" and "ring_list q = []"
    and "ring_slots q = (length buf - sizeof_atomic_ring_buffer) div sizeof_io_cmd"
    using new es by (simp_all add: io_queue_wf_def)
qed

subsection \<open>Properties\<close>

text \<open>C29: the commands that a process appends to a new I/O queue with \<open>io_submit\<close> and
  \<open>io_complete\<close> are what the kernel's \<open>IOQueue::pop\<close> returns, in order, with their opcode, address and
  length, as far as there is room: a queue of \<open>n\<close> slots keeps the first \<open>n - 1\<close> commands, and the others
  are dropped. The next \<open>pop\<close> finds the queue empty. The padding bytes do not matter.\<close>

theorem io_queue_round_trip:
  fixes buf :: "u8 list" and cs :: "IOCmd list"
  defines "n \<equiv> (length buf - sizeof_atomic_ring_buffer) div sizeof_io_cmd"
  assumes "IOQueue_new buf (of_nat (length buf)) = Some q" and "length buf < 2 ^ 64" and "length pad = 4" and "0 < n"
  shows "\<exists>q'. io_append_all pad q cs = Some q'
     \<and> fst (io_pop_all (Suc (min (length cs) (n - 1))) q') = map Some (take (n - 1) cs) @ [None]"
proof -
  have big: "sizeof_atomic_ring_buffer + sizeof_io_cmd \<le> length buf"
    using assms(5) by (simp add: n_def sizeof_atomic_ring_buffer_def sizeof_io_cmd_def div_greater_zero_iff)
  note new = IOQueue_new_wf [OF assms(2,3) big]
  define ds where "ds = take (n - 1) cs"
  obtain q' where q': "io_append_all pad q cs = Some q'" "io_queue_wf q'" "ring_list q' = map (cmd_bytes pad) ds"
    using io_append_all_list [OF new(1) assms(4), of cs] new(2,3) by (auto simp: ds_def n_def take_map)
  have pops: "fst (io_pop_all (k + 1) q) = fst (io_pop_all k q) @ [fst (IOQueue_pop (snd (io_pop_all k q)))]" for k q
    by (induction k arbitrary: q) (auto simp: split_beta)
  have "fst (io_pop_all (length ds) q') = map Some ds" and "ring_wf (snd (io_pop_all (length ds) q'))"
    and "ring_list (snd (io_pop_all (length ds) q')) = []"
    using io_pop_all_list [of q' pad ds "[]"] q' assms(4) by (simp_all add: io_queue_wf_def)
  then have "fst (io_pop_all (length ds + 1) q') = map Some ds @ [None]"
    unfolding pops by (simp add: IOQueue_pop_list)
  with q'(1) show ?thesis by (simp add: ds_def)
qed

definition io_example :: "IOCmd list" where
  "io_example = [\<lparr>cmd_opcode = Submit, cmd_addr = 0x7000, cmd_len = 512\<rparr>,
                 \<lparr>cmd_opcode = Complete, cmd_addr = 0x8000, cmd_len = 64\<rparr>]"

theorem io_queue_round_trip_witness:
  "\<exists>q q'. IOQueue_new (replicate 270 0) 270 = Some q
     \<and> io_append_all [1, 2, 3, 4] q io_example = Some q'
     \<and> fst (io_pop_all 3 q') = map Some io_example @ [None]"
proof -
  obtain q where q: "IOQueue_new (replicate 270 0) (of_nat (length (replicate 270 (0::u8)))) = Some q"
    by (simp add: IOQueue_new_def atomic_ring_buffer_new_def sizeof_atomic_ring_buffer_def sizeof_io_cmd_def Let_def)
  have n: "(length (replicate 270 (0::u8)) - sizeof_atomic_ring_buffer) div sizeof_io_cmd = 3" and len: "length io_example = 2"
    by (simp_all add: sizeof_atomic_ring_buffer_def sizeof_io_cmd_def io_example_def)
  have "\<exists>q'. io_append_all [1, 2, 3, 4] q io_example = Some q'
     \<and> fst (io_pop_all (Suc (min (length io_example) (3 - 1))) q') = map Some (take (3 - 1) io_example) @ [None]"
    using io_queue_round_trip [OF q, of "[1, 2, 3, 4]" io_example] unfolding n by simp
  with q len show ?thesis
    by (auto simp: eval_nat_numeral)
qed

definition io_full_example :: atomic_ring_buffer where
  "io_full_example = \<lparr>q_element_size = 24, q_capacity = 48, q_tail = 0, q_head = 24, q_data = replicate 48 7\<rparr>"

lemma io_submit_full_is_silent_example:
  "io_submit [0, 0, 0, 0] io_full_example 0x7000 512 = Some (0, io_full_example)"
  by (rule conjunct1 [OF io_submit_full_is_silent])
    (simp_all add: io_full_example_def io_queue_wf_def ring_wf_def ring_off_def sizeof_io_cmd_def
      ring_count_def ring_dist_def ring_idx_def ring_slots_def)

end
