(* ===== verification/Printf.thy ===== *)
theory Printf
  imports Libc
begin

text \<open>
  The formatted output of the kernel (\<^verbatim>\<open>kernel/printf.c\<close>). A format string is a C string
  object read through an offset. The argument list is a list of slots: an integer or
  pointer value, or a pointer to a string object; taking an argument that is not there or
  not of the kind the directive wants is undefined behaviour (\<open>None\<close>). A slot is
  consumed in the caller's list too, as on x86-64, where \<^verbatim>\<open>va_list\<close> is an array type.
  \<open>putchar\<close> callbacks are functions on the state behind \<^verbatim>\<open>priv\<close>.
\<close>

subsection \<open>Characters, flags and arguments\<close>

definition ch :: "char \<Rightarrow> u8" where
  "ch c = of_char c"

definition bytes_of :: "string \<Rightarrow> u8 list" where
  "bytes_of s = map ch s"

abbreviation FMT_LONG :: u32 where "FMT_LONG \<equiv> 0x1"
abbreviation FMT_LONG_LONG :: u32 where "FMT_LONG_LONG \<equiv> 0x2"
abbreviation FMT_ZERO_PAD :: u32 where "FMT_ZERO_PAD \<equiv> 0x4"
abbreviation FMT_LEFT :: u32 where "FMT_LEFT \<equiv> 0x8"
abbreviation FMT_UNSIGNED :: u32 where "FMT_UNSIGNED \<equiv> 0x10"
abbreviation FMT_PRECISION :: u32 where "FMT_PRECISION \<equiv> 0x20"
abbreviation FMT_WIDTH :: u32 where "FMT_WIDTH \<equiv> 0x40"

record format_state =
  fmt_flags :: u32
  fmt_width :: u64

definition fmt_has :: "format_state \<Rightarrow> u32 \<Rightarrow> bool" where
  "fmt_has fs f \<longleftrightarrow> fmt_flags fs AND f \<noteq> 0"

definition fmt_set :: "u32 \<Rightarrow> format_state \<Rightarrow> format_state" where
  "fmt_set f fs = fs\<lparr>fmt_flags := fmt_flags fs OR f\<rparr>"

definition number_chars_upcase :: "u8 list" where
  "number_chars_upcase = bytes_of ''0123456789ABCDEF''"

definition number_chars :: "u8 list" where
  "number_chars = bytes_of ''0123456789abcdef''"

datatype va_slot = VaWord u64 | VaStr u64 "u8 list"

subsection \<open>Numbers\<close>

text \<open>The digit loop of \<open>format_number\<close>; \<open>pos\<close> is the index after the next byte to
  write, and decrementing it at 0 leaves the buffer.\<close>

fun format_digits :: "u8 list \<Rightarrow> u64 \<Rightarrow> nat \<Rightarrow> u8 list \<Rightarrow> u64 \<Rightarrow> (u8 list \<times> u64 \<times> nat) option" where
  "format_digits buf n 0 chars base = (if base \<le> n then None else Some (buf, n, 0))"
| "format_digits buf n (Suc pos) chars base =
     (if base \<le> n then
        (if base = 0 then None
         else do { c \<leftarrow> rd chars (unat (n mod base));
                   buf' \<leftarrow> wr buf pos c;
                   format_digits buf' (n div base) pos chars base })
      else Some (buf, n, Suc pos))"

text \<open>\<open>buf[--pos] = c\<close>\<close>

definition put_before :: "u8 list \<Rightarrow> nat \<Rightarrow> u8 \<Rightarrow> (u8 list \<times> nat) option" where
  "put_before buf pos c =
     (case pos of 0 \<Rightarrow> None | Suc p \<Rightarrow> map_option (\<lambda>b. (b, p)) (wr buf p c))"

definition format_number :: "u8 list \<Rightarrow> u64 \<Rightarrow> nat \<Rightarrow> u8 list \<Rightarrow> u64 \<Rightarrow> bool \<Rightarrow> (u8 list \<times> nat) option" where
  "format_number buf n len chars base sign =
     (let negative = (sint n < 0);
          n = (if sign \<and> negative then - n else n)
      in do { (buf, pos) \<leftarrow> put_before buf len 0;
              (buf, n, pos) \<leftarrow> format_digits buf n pos chars base;
              c \<leftarrow> rd chars (unat n);
              (buf, pos) \<leftarrow> put_before buf pos c;
              if sign \<and> negative then put_before buf pos (ch CHR ''-'') else Some (buf, pos) })"

subsection \<open>Strings and padding\<close>

type_synonym 's putchar_t = "u8 \<Rightarrow> 's \<Rightarrow> 's option"

fun put_padding :: "u8 \<Rightarrow> nat \<Rightarrow> 's putchar_t \<Rightarrow> 's \<Rightarrow> 's option" where
  "put_padding c 0 putchar s = Some s"
| "put_padding c (Suc n) putchar s = do { s' \<leftarrow> putchar c s; put_padding c n putchar s' }"

fun put_text :: "u8 list \<Rightarrow> nat \<Rightarrow> nat \<Rightarrow> 's putchar_t \<Rightarrow> 's \<Rightarrow> 's option" where
  "put_text buf p 0 putchar s = Some s"
| "put_text buf p (Suc n) putchar s =
     do { c \<leftarrow> rd buf p;
          if c = 0 then Some s
          else do { s' \<leftarrow> putchar c s; put_text buf (Suc p) n putchar s' } }"

definition format_str ::
  "u8 list \<Rightarrow> nat \<Rightarrow> u64 \<Rightarrow> format_state \<Rightarrow> 's putchar_t \<Rightarrow> 's \<Rightarrow> 's option" where
  "format_str buf p len fs putchar s =
     (let (length, padding) =
            (if fmt_has fs FMT_WIDTH
             then (let l = (if fmt_width fs < len then fmt_width fs else len) in (l, fmt_width fs - l))
             else (len, 0))
      in if fmt_has fs FMT_LEFT
         then do { s \<leftarrow> put_text buf p (unat length) putchar s;
                   put_padding (ch CHR '' '') (unat padding) putchar s }
         else do { s \<leftarrow> put_padding (if fmt_has fs FMT_ZERO_PAD then ch CHR ''0'' else ch CHR '' '')
                          (unat padding) putchar s;
                   put_text buf p (unat length) putchar s })"

subsection \<open>Directives\<close>

definition pop_word :: "va_slot list \<Rightarrow> (u64 \<times> va_slot list) option" where
  "pop_word ap = (case ap of VaWord w # ap' \<Rightarrow> Some (w, ap') | _ \<Rightarrow> None)"

text \<open>An \<open>int\<close> argument is the low half of its slot, extended by its sign or by zeros.\<close>

definition pop_int :: "va_slot list \<Rightarrow> format_state \<Rightarrow> (u64 \<times> va_slot list) option" where
  "pop_int ap fs =
     (if fmt_has fs FMT_UNSIGNED then
        (if fmt_has fs FMT_LONG_LONG then pop_word ap
         else if fmt_has fs FMT_LONG then pop_word ap
         else map_option (\<lambda>(w, ap'). (ucast (ucast w :: u32), ap')) (pop_word ap))
      else
        (if fmt_has fs FMT_LONG_LONG then pop_word ap
         else if fmt_has fs FMT_LONG then pop_word ap
         else map_option (\<lambda>(w, ap'). (scast (ucast w :: u32), ap')) (pop_word ap)))"

text \<open>A numeric conversion: the local 32-byte buffer (its initial content is not specified
  and not used), \<open>format_number\<close>, \<open>strlen\<close> of the result and \<open>format_str\<close>.\<close>

definition format_word ::
  "u8 list \<Rightarrow> u64 \<Rightarrow> bool \<Rightarrow> format_state \<Rightarrow> u64 \<Rightarrow> 's putchar_t \<Rightarrow> 's \<Rightarrow> 's option" where
  "format_word chars base sign fs d putchar s =
     do { (buf, p) \<leftarrow> format_number (replicate 32 0xCC) d 32 chars base sign;
          n \<leftarrow> strlen_from buf p;
          format_str buf p (of_nat (n - p)) fs putchar s }"

definition format_int ::
  "u8 list \<Rightarrow> u64 \<Rightarrow> bool \<Rightarrow> format_state \<Rightarrow> va_slot list \<Rightarrow> 's putchar_t \<Rightarrow> 's \<Rightarrow> (va_slot list \<times> 's) option" where
  "format_int chars base sign fs ap putchar s =
     do { (d, ap') \<leftarrow> pop_int ap fs;
          s' \<leftarrow> format_word chars base sign fs d putchar s;
          Some (ap', s') }"

text \<open>The digits and flags before a conversion specifier, one character at a time.\<close>

definition format_width_digit :: "u8 \<Rightarrow> format_state \<Rightarrow> format_state" where
  "format_width_digit c fs =
     (if fmt_has fs FMT_PRECISION then fs
      else let fs = fmt_set FMT_WIDTH fs;
               fs = (if fmt_width fs = 0 \<and> c = ch CHR ''0'' then fmt_set FMT_ZERO_PAD fs else fs)
           in fs\<lparr>fmt_width := fmt_width fs * 10 + (ucast c - ucast (ch CHR ''0''))\<rparr>)"

definition format_flag_long :: "format_state \<Rightarrow> format_state" where
  "format_flag_long fs =
     fmt_set FMT_LONG (if fmt_has fs FMT_LONG then fmt_set FMT_LONG_LONG fs else fs)"

text \<open>The conversion specifiers, the cases of the switch that leave the loop.\<close>

definition format_conv ::
  "u8 \<Rightarrow> format_state \<Rightarrow> va_slot list \<Rightarrow> 's putchar_t \<Rightarrow> 's \<Rightarrow> (va_slot list \<times> 's) option" where
  "format_conv c fs ap putchar s =
     (if c = ch CHR ''d'' then format_int number_chars 10 True fs ap putchar s
      else if c = ch CHR ''u'' then format_int number_chars 10 False (fmt_set FMT_UNSIGNED fs) ap putchar s
      else if c = ch CHR ''x'' then format_int number_chars 16 False (fmt_set FMT_UNSIGNED fs) ap putchar s
      else if c = ch CHR ''X'' then format_int number_chars_upcase 16 False (fmt_set FMT_UNSIGNED fs) ap putchar s
      else if c = ch CHR ''c'' then
        do { (w, ap') \<leftarrow> pop_word ap; s' \<leftarrow> putchar (ucast w) s; Some (ap', s') }
      else if c = ch CHR ''s'' then
        (case ap of
           VaStr _ obj # ap' \<Rightarrow>
             do { n \<leftarrow> strlen obj; s' \<leftarrow> format_str obj 0 (of_nat n) fs putchar s; Some (ap', s') }
         | VaWord w # ap' \<Rightarrow>
             if w = 0 then
               do { s' \<leftarrow> format_str (bytes_of ''<null>'' @ [0]) 0 6 fs putchar s; Some (ap', s') }
             else None
         | [] \<Rightarrow> None)
      else if c = ch CHR ''p'' then
        do { s \<leftarrow> putchar (ch CHR ''0'') s;
             s \<leftarrow> putchar (ch CHR ''x'') s;
             (w, ap') \<leftarrow> (case ap of VaStr w _ # ap' \<Rightarrow> Some (w, ap') | VaWord w # ap' \<Rightarrow> Some (w, ap') | [] \<Rightarrow> None);
             s' \<leftarrow> format_word number_chars 16 False (fmt_set FMT_UNSIGNED fs) w putchar s;
             Some (ap', s') }
      else if c = ch CHR ''%'' then
        do { s' \<leftarrow> putchar (ch CHR ''%'') s; Some (ap, s') }
      else
        do { s \<leftarrow> putchar (ch CHR ''%'') s; s' \<leftarrow> putchar c s; Some (ap, s') })"

text \<open>The cases of the switch that stay in the loop, with the directive's new state.\<close>

definition format_flag :: "u8 \<Rightarrow> format_state \<Rightarrow> format_state option" where
  "format_flag c fs =
     (if ch CHR ''0'' \<le> c \<and> c \<le> ch CHR ''9'' then Some (format_width_digit c fs)
      else if c = ch CHR ''.'' then Some (fmt_set FMT_ZERO_PAD (fmt_set FMT_PRECISION fs))
      else if c = ch CHR ''-'' then Some (fmt_set FMT_LEFT fs)
      else if c = ch CHR ''l'' then Some (format_flag_long fs)
      else None)"

text \<open>The loop of \<open>format\<close>: returns the offset after the directive. It ends because every
  iteration reads the next character of the format string.\<close>

function format_loop ::
  "u8 list \<Rightarrow> nat \<Rightarrow> format_state \<Rightarrow> va_slot list \<Rightarrow> 's putchar_t \<Rightarrow> 's \<Rightarrow> (nat \<times> va_slot list \<times> 's) option" where
  "format_loop fmt p fs ap putchar s =
     (if p < length fmt then
        (case format_flag (fmt ! p) fs of
           Some fs' \<Rightarrow> format_loop fmt (Suc p) fs' ap putchar s
         | None \<Rightarrow> map_option (\<lambda>(ap', s'). (Suc p, ap', s')) (format_conv (fmt ! p) fs ap putchar s))
      else None)"
  by pat_completeness auto
termination
  by (relation "measure (\<lambda>(fmt, p, _). length fmt - p)") auto

definition format ::
  "u8 list \<Rightarrow> nat \<Rightarrow> va_slot list \<Rightarrow> 's putchar_t \<Rightarrow> 's \<Rightarrow> (nat \<times> va_slot list \<times> 's) option" where
  "format fmt p ap putchar s = format_loop fmt p \<lparr>fmt_flags = 0, fmt_width = 0\<rparr> ap putchar s"

declare format_loop.simps [simp del]

lemma format_loop_advances: "format_loop fmt p fs ap putchar s = Some (p', ap', s') \<Longrightarrow> p < p' \<and> p' \<le> length fmt"
proof (induction fmt p fs ap putchar s rule: format_loop.induct)
  case (1 fmt p fs ap putchar s)
  from 1(2) show ?case
    by (subst (asm) format_loop.simps) (auto split: if_splits option.splits dest: 1(1))
qed

lemma format_advances: "format fmt p ap putchar s = Some (p', ap', s') \<Longrightarrow> p < p' \<and> p' \<le> length fmt"
  unfolding format_def by (rule format_loop_advances)

subsection \<open>The callers\<close>

text \<open>\<open>vprintf\<close>. The console's \<open>console_write_char\<close> is the UART driver of the platform
  and an argument here. The result is \<open>pos\<close> converted to \<open>int\<close>.\<close>

definition c_int_of_size :: "u64 \<Rightarrow> int" where
  "c_int_of_size w = sint (ucast w :: u32)"

definition vprintf_output :: "'c putchar_t \<Rightarrow> ('c \<times> u64) putchar_t" where
  "vprintf_output console_write_char c s =
     (case s of (con, pos) \<Rightarrow> map_option (\<lambda>con'. (con', pos + 1)) (console_write_char c con))"

function vprintf_loop ::
  "'c putchar_t \<Rightarrow> u8 list \<Rightarrow> nat \<Rightarrow> va_slot list \<Rightarrow> 'c \<times> u64 \<Rightarrow> ('c \<times> u64) option" where
  "vprintf_loop console_write_char fmt p ap s =
     (if p < length fmt then
        (let c = fmt ! p in
         if c = 0 then Some s
         else if c \<noteq> ch CHR ''%'' then
           (case console_write_char c (fst s) of None \<Rightarrow> None
            | Some con \<Rightarrow> vprintf_loop console_write_char fmt (Suc p) ap (con, snd s))
         else
           (case format fmt (Suc p) ap (vprintf_output console_write_char) s of None \<Rightarrow> None
            | Some (p', ap', s') \<Rightarrow> vprintf_loop console_write_char fmt p' ap' s'))
      else None)"
  by pat_completeness auto
termination
  by (relation "measure (\<lambda>(_, fmt, p, _). length fmt - p)") (auto dest!: format_advances)

declare vprintf_loop.simps [simp del]

definition vprintf :: "'c putchar_t \<Rightarrow> u8 list \<Rightarrow> va_slot list \<Rightarrow> 'c \<Rightarrow> (int \<times> 'c) option" where
  "vprintf console_write_char fmt ap con =
     map_option (\<lambda>(con', pos). (c_int_of_size pos, con')) (vprintf_loop console_write_char fmt 0 ap (con, 0))"

definition printf :: "'c putchar_t \<Rightarrow> u8 list \<Rightarrow> va_slot list \<Rightarrow> 'c \<Rightarrow> (int \<times> 'c) option" where
  "printf console_write_char fmt args con = vprintf console_write_char fmt args con"

definition putchar :: "'c putchar_t \<Rightarrow> u8 \<Rightarrow> 'c \<Rightarrow> (u8 \<times> 'c) option" where
  "putchar console_write_char c con = map_option (\<lambda>con'. (c, con')) (console_write_char c con)"

text \<open>\<open>puts\<close> returns 1 whatever it writes.\<close>

definition puts :: "(u8 list \<Rightarrow> 'c \<Rightarrow> 'c option) \<Rightarrow> u8 list \<Rightarrow> 'c \<Rightarrow> (int \<times> 'c) option" where
  "puts console_write_str s con = map_option (\<lambda>con'. (1, con')) (console_write_str s con)"

record vsprintf_state =
  vs_str :: "u8 list"
  vs_pos :: u64
  vs_size :: u64

definition vsprintf_output :: "vsprintf_state putchar_t" where
  "vsprintf_output c st =
     (if vs_pos st < vs_size st
      then do { str' \<leftarrow> wr (vs_str st) (unat (vs_pos st)) c;
                Some (st\<lparr>vs_str := str', vs_pos := vs_pos st + 1\<rparr>) }
      else Some (st\<lparr>vs_pos := vs_pos st + 1\<rparr>))"

function vsnprintf_loop :: "u8 list \<Rightarrow> nat \<Rightarrow> va_slot list \<Rightarrow> vsprintf_state \<Rightarrow> vsprintf_state option" where
  "vsnprintf_loop fmt p ap st =
     (if p < length fmt then
        (let c = fmt ! p in
         if c = 0 then Some st
         else if c \<noteq> ch CHR ''%'' then
           (case vsprintf_output c st of None \<Rightarrow> None | Some st' \<Rightarrow> vsnprintf_loop fmt (Suc p) ap st')
         else
           (case format fmt (Suc p) ap vsprintf_output st of None \<Rightarrow> None
            | Some (p', ap', st') \<Rightarrow> vsnprintf_loop fmt p' ap' st'))
      else None)"
  by pat_completeness auto
termination
  by (relation "measure (\<lambda>(fmt, p, _). length fmt - p)") (auto dest!: format_advances)

declare vsnprintf_loop.simps [simp del]

definition vsnprintf :: "u8 list \<Rightarrow> u64 \<Rightarrow> u8 list \<Rightarrow> va_slot list \<Rightarrow> (int \<times> u8 list) option" where
  "vsnprintf str sz fmt ap =
     do { st \<leftarrow> vsnprintf_loop fmt 0 ap \<lparr>vs_str = str, vs_pos = 0, vs_size = sz\<rparr>;
          str' \<leftarrow> wr (vs_str st) (unat (if vs_size st < vs_pos st then vs_size st - 1 else vs_pos st)) 0;
          Some (c_int_of_size (vs_pos st), str') }"

definition vsprintf :: "u8 list \<Rightarrow> u8 list \<Rightarrow> va_slot list \<Rightarrow> (int \<times> u8 list) option" where
  "vsprintf str fmt ap = vsnprintf str (- 1) fmt ap"

definition sprintf :: "u8 list \<Rightarrow> u8 list \<Rightarrow> va_slot list \<Rightarrow> (int \<times> u8 list) option" where
  "sprintf str fmt args = vsprintf str fmt args"

definition snprintf :: "u8 list \<Rightarrow> u64 \<Rightarrow> u8 list \<Rightarrow> va_slot list \<Rightarrow> (int \<times> u8 list) option" where
  "snprintf str sz fmt args = vsnprintf str sz fmt args"

end
