(* ===== verification/PrintfText.thy ===== *)
theory PrintfText
  imports Printf
begin

text \<open>
  What a format string and its arguments say, as text, independent of buffers and callbacks,
  and the proof that \<^verbatim>\<open>kernel/printf.c\<close> prints that text: the digit buffer always
  suffices, every callback receives the bytes of the text one by one, \<open>vsnprintf\<close> stores
  them, and the console gets them.
\<close>

subsection \<open>Digits\<close>

function digits :: "nat \<Rightarrow> nat \<Rightarrow> nat list" where
  "digits b n = (if b < 2 \<or> n < b then [n] else digits b (n div b) @ [n mod b])"
  by pat_completeness auto
termination
  by (relation "measure snd") auto

declare digits.simps [simp del]

definition digits_val :: "nat \<Rightarrow> nat list \<Rightarrow> nat" where
  "digits_val b ds = foldl (\<lambda>v d. v * b + d) 0 ds"

lemma digits_val_snoc: "digits_val b (ds @ [d]) = digits_val b ds * b + d"
  by (simp add: digits_val_def)

lemma digits_val_digits: "digits_val b (digits b n) = n"
proof (induction b n rule: digits.induct)
  case (1 b n)
  then show ?case
    by (subst digits.simps) (auto simp: digits_val_snoc, simp_all add: digits_val_def)
qed

lemma digits_ne [simp]: "digits b n \<noteq> []"
  by (subst digits.simps) simp

lemma digits_bound: "2 \<le> b \<Longrightarrow> d \<in> set (digits b n) \<Longrightarrow> d < b"
proof (induction b n rule: digits.induct)
  case (1 b n)
  from 1(3) show ?case
    by (subst (asm) digits.simps) (use 1 in \<open>auto split: if_splits\<close>)
qed

lemma length_digits: "2 \<le> b \<Longrightarrow> n < b ^ Suc k \<Longrightarrow> length (digits b n) \<le> Suc k"
proof (induction k arbitrary: n)
  case 0
  then show ?case by (subst digits.simps) simp
next
  case (Suc k)
  have "n div b < b ^ Suc k"
    using Suc.prems by (simp add: less_mult_imp_div_less mult.commute)
  then have "length (digits b (n div b)) \<le> Suc k"
    using Suc by blast
  then show ?case by (subst digits.simps) simp
qed

subsection \<open>The text of a number\<close>

definition number_text :: "u8 list \<Rightarrow> nat \<Rightarrow> bool \<Rightarrow> u64 \<Rightarrow> u8 list" where
  "number_text chars base sign n =
     (if sign \<and> sint n < 0 then ch CHR ''-'' # map ((!) chars) (digits base (nat (- sint n)))
      else map ((!) chars) (digits base (unat n)))"

lemma drop_list_update_before: "i < length xs \<Longrightarrow> drop i (xs[i := v]) = v # drop (Suc i) xs"
  by (metis drop_eq_nth_Cons drop_update_cancel length_list_update lessI nth_list_update_eq)

lemma format_digits_eq:
  assumes "2 \<le> unat base" and "unat base \<le> length chars"
  shows "length (digits (unat base) (unat n)) \<le> pos \<Longrightarrow> pos \<le> length buf \<Longrightarrow>
    \<exists>buf'. format_digits buf n pos chars base =
        Some (buf', of_nat (hd (digits (unat base) (unat n))), Suc pos - length (digits (unat base) (unat n)))
      \<and> length buf' = length buf
      \<and> drop (Suc pos - length (digits (unat base) (unat n))) buf'
          = map ((!) chars) (tl (digits (unat base) (unat n))) @ drop pos buf"
proof (induction pos arbitrary: n buf)
  case 0
  then show ?case by simp
next
  case (Suc pos)
  define b where "b = unat base"
  have b: "2 \<le> b" "b \<le> length chars" using assms by (simp_all add: b_def)
  show ?case
  proof (cases "base \<le> n")
    case False
    then have "digits b (unat n) = [unat n]"
      by (subst digits.simps) (simp add: b_def word_le_nat_alt)
    with False show ?thesis by (simp add: b_def)
  next
    case True
    then have dg: "digits b (unat n) = digits b (unat n div b) @ [unat n mod b]"
      using b by (subst digits.simps) (simp add: b_def word_le_nat_alt)
    define ds where "ds = digits b (unat n div b)"
    define buf1 where "buf1 = buf[pos := chars ! (unat n mod b)]"
    have ne: "ds \<noteq> []" by (simp add: ds_def)
    have nd: "unat (n div base) = unat n div b" by (simp add: b_def unat_div_distrib)
    have len: "length ds \<le> pos" "pos < length buf"
      using Suc.prems dg by (simp_all add: ds_def b_def)
    have "base \<noteq> 0" using b by (auto simp: b_def)
    have idx: "unat n mod b < length chars"
      using b mod_less_divisor [of b "unat n"] by linarith
    have step: "format_digits buf n (Suc pos) chars base = format_digits buf1 (n div base) pos chars base"
      using True \<open>base \<noteq> 0\<close> idx len by (simp add: buf1_def b_def unat_mod_distrib)
    obtain buf' where buf': "format_digits buf1 (n div base) pos chars base = Some (buf', of_nat (hd ds), Suc pos - length ds)"
        "length buf' = length buf1" "drop (Suc pos - length ds) buf' = map ((!) chars) (tl ds) @ drop pos buf1"
      using Suc.IH [of "n div base" buf1] len
      by (auto simp: nd b_def [symmetric] ds_def [symmetric] buf1_def)
    moreover have "drop pos buf1 = chars ! (unat n mod b) # drop (Suc pos) buf"
      using len by (simp add: buf1_def drop_list_update_before)
    ultimately show ?thesis
      unfolding step b_def [symmetric] dg using ne by (simp add: ds_def [symmetric] buf1_def)
  qed
qed

lemma hd_digits_less:
  assumes "2 \<le> b"
  shows "hd (digits b n) < b"
  using digits_bound [OF assms, of "hd (digits b n)" n] by simp

lemma put_before_Suc: "p < length buf \<Longrightarrow> put_before buf (Suc p) c = Some (buf[p := c], p)"
  by (simp add: put_before_def)

lemma unat_negate:
  fixes n :: u64
  assumes "sint n < 0"
  shows "unat (- n) = nat (- sint n)"
proof -
  have e: "- n = word_of_int (- sint n)" by simp
  have "- sint n < 2 ^ 64" using sint_greater_eq [of n] by simp
  then have "uint (- n) = - sint n"
    unfolding e using assms by (simp only: uint_word_of_int) simp
  then show ?thesis by (simp only: unat_eq_nat_uint)
qed

lemma format_number_eq:
  assumes "2 \<le> unat base" and "unat base \<le> length chars" and "len = length buf"
    and "length (number_text chars (unat base) sign n) < len"
  shows "\<exists>buf'. format_number buf n len chars base sign =
        Some (buf', len - Suc (length (number_text chars (unat base) sign n)))
     \<and> length buf' = length buf
     \<and> drop (len - Suc (length (number_text chars (unat base) sign n))) buf'
         = number_text chars (unat base) sign n @ [0]"
proof -
  define b neg m where "b = unat base" and "neg = (sign \<and> sint n < 0)" and "m = (if neg then - n else n)"
  define ds where "ds = digits b (unat m)"
  have tx: "number_text chars b sign n = (if neg then ch CHR ''-'' # map ((!) chars) ds else map ((!) chars) ds)"
    by (auto simp: number_text_def ds_def m_def neg_def unat_negate)
  have len: "length ds + (if neg then 1 else 0) < len"
    using assms(4) by (simp add: tx flip: b_def split: if_splits)
  then obtain l where l: "len = Suc l" "length ds + (if neg then 1 else 0) \<le> l"
    by (cases len) (auto split: if_splits)
  obtain ds1 dsr where ds: "ds = ds1 # dsr" by (cases ds) (auto simp: ds_def)
  define buf0 where "buf0 = buf[l := 0]"
  have b0: "length buf0 = Suc l" "drop l buf0 = [0]"
    using assms(3) l by (simp_all add: buf0_def drop_list_update_before)
  obtain buf1 where f1: "format_digits buf0 m l chars base = Some (buf1, of_nat ds1, Suc l - length ds)"
    and b1: "length buf1 = Suc l" "drop (Suc l - length ds) buf1 = map ((!) chars) dsr @ [0]"
    using format_digits_eq [OF assms(1,2), of m l buf0] l b0
    by (auto simp: b_def [symmetric] ds_def [symmetric] ds split: if_splits)
  have d1: "ds1 < b"
    using hd_digits_less [of b "unat m"] assms(1) by (metis b_def ds ds_def list.sel(1))
  then have "unat (of_nat ds1 :: u64) = ds1"
    using unat_lt64 [of base] by (intro unat_of_nat64) (simp add: b_def)
  then have c1: "rd chars (unat (of_nat ds1 :: u64)) = Some (chars ! ds1)"
    using d1 assms(2) by (simp add: b_def)
  define p where "p = l - length ds"
  have pl: "Suc l - length ds = Suc p" "p < length buf1"
    using l b1 ds by (auto simp: p_def split: if_splits)
  define buf2 where "buf2 = buf1[p := chars ! ds1]"
  have p2: "put_before buf1 (Suc p) (chars ! ds1) = Some (buf2, p)"
    using pl by (simp add: put_before_Suc buf2_def)
  have b2: "length buf2 = Suc l" "drop p buf2 = map ((!) chars) ds @ [0]"
    using pl b1 by (simp_all add: buf2_def drop_list_update_before ds)
  have start: "put_before buf (Suc l) 0 = Some (buf0, l)"
    using assms(3) l(1) by (subst put_before_Suc) (simp_all add: buf0_def)
  have run: "format_number buf n len chars base sign =
      (if neg then put_before buf2 p (ch CHR ''-'') else Some (buf2, p))"
    unfolding format_number_def l(1) Let_def neg_def [symmetric] m_def [symmetric]
    using f1 [unfolded pl(1)] c1 p2 start by simp
  have lb: "length buf = Suc l" using assms(3) l(1) by simp
  show ?thesis
  proof (cases neg)
    case False
    then show ?thesis
      unfolding run b_def [symmetric] tx using b2 by (simp add: lb) (simp add: l(1) p_def)
  next
    case True
    then have "p = Suc (p - 1)" "p - 1 < length buf2"
      using l b2 by (auto simp: p_def)
    then have "put_before buf2 p (ch CHR ''-'') = Some (buf2[p - 1 := ch CHR ''-''], p - 1)"
      by (metis put_before_Suc)
    moreover have "drop (p - 1) (buf2[p - 1 := ch CHR ''-'']) = ch CHR ''-'' # drop p buf2"
      using \<open>p = Suc (p - 1)\<close> \<open>p - 1 < length buf2\<close> by (metis drop_list_update_before)
    ultimately show ?thesis
      unfolding run b_def [symmetric] tx using True b2 by (simp add: lb) (simp add: l(1) p_def)
  qed
qed

lemma number_chars_props:
  "length number_chars = 16" "length number_chars_upcase = 16"
  "0 \<notin> set number_chars" "0 \<notin> set number_chars_upcase"
  by (simp_all add: number_chars_def number_chars_upcase_def bytes_of_def ch_def)

lemma number_text_length:
  assumes "base = 10 \<or> base = 16 \<and> \<not> sign"
  shows "length (number_text chars base sign n) \<le> 21"
proof -
  have "nat (- sint n) < 10 ^ Suc 19" "unat n < 10 ^ Suc 19" "unat n < 16 ^ Suc 15"
    using sint_greater_eq [of n] unat_lt64 [of n] by simp_all
  then have "length (digits 10 (nat (- sint n))) \<le> 20" "length (digits 10 (unat n)) \<le> 20"
      "length (digits 16 (unat n)) \<le> 16"
    using length_digits [of 10 _ 19] length_digits [of 16 _ 15] by fastforce+
  then show ?thesis
    using assms by (auto simp: number_text_def)
qed

lemma number_text_no_nul:
  assumes "2 \<le> base" and "base \<le> length chars" and "0 \<notin> set chars"
  shows "0 \<notin> set (number_text chars base sign n)"
proof -
  have "chars ! d \<noteq> 0" if "d \<in> set (digits base m)" for d m
    using digits_bound [OF assms(1) that] assms(2,3) by (metis nth_mem order_less_le_trans)
  then show ?thesis by (auto simp: number_text_def ch_def)
qed

subsection \<open>The text of a directive and of a format string\<close>

definition pad_text :: "format_state \<Rightarrow> u8 list \<Rightarrow> u8 list" where
  "pad_text fs t =
     (if fmt_has fs FMT_WIDTH
      then (let w = unat (fmt_width fs); cut = take w t; n = w - length cut
            in if fmt_has fs FMT_LEFT then cut @ replicate n (ch CHR '' '')
               else replicate n (if fmt_has fs FMT_ZERO_PAD then ch CHR ''0'' else ch CHR '' '') @ cut)
      else t)"

definition int_text :: "u8 list \<Rightarrow> nat \<Rightarrow> bool \<Rightarrow> format_state \<Rightarrow> va_slot list \<Rightarrow> (va_slot list \<times> u8 list) option" where
  "int_text chars base sign fs ap =
     map_option (\<lambda>(d, ap'). (ap', pad_text fs (number_text chars base sign d))) (pop_int ap fs)"

text \<open>The string a C string object holds.\<close>

definition c_text :: "u8 list \<Rightarrow> u8 list option" where
  "c_text obj = map_option (\<lambda>n. take n obj) (strlen obj)"

definition conv_text :: "u8 \<Rightarrow> format_state \<Rightarrow> va_slot list \<Rightarrow> (va_slot list \<times> u8 list) option" where
  "conv_text c fs ap =
     (if c = ch CHR ''d'' then int_text number_chars 10 True fs ap
      else if c = ch CHR ''u'' then int_text number_chars 10 False (fmt_set FMT_UNSIGNED fs) ap
      else if c = ch CHR ''x'' then int_text number_chars 16 False (fmt_set FMT_UNSIGNED fs) ap
      else if c = ch CHR ''X'' then int_text number_chars_upcase 16 False (fmt_set FMT_UNSIGNED fs) ap
      else if c = ch CHR ''c'' then map_option (\<lambda>(w, ap'). (ap', [ucast w])) (pop_word ap)
      else if c = ch CHR ''s'' then
        (case ap of VaStr _ obj # ap' \<Rightarrow> map_option (\<lambda>t. (ap', pad_text fs t)) (c_text obj)
         | VaWord w # ap' \<Rightarrow> if w = 0 then Some (ap', pad_text fs (bytes_of ''<null>'')) else None
         | [] \<Rightarrow> None)
      else if c = ch CHR ''p'' then
        map_option (\<lambda>(w, ap'). (ap', bytes_of ''0x'' @ pad_text (fmt_set FMT_UNSIGNED fs) (number_text number_chars 16 False w)))
          (case ap of VaStr w _ # ap' \<Rightarrow> Some (w, ap') | VaWord w # ap' \<Rightarrow> Some (w, ap') | [] \<Rightarrow> None)
      else if c = ch CHR ''%'' then Some (ap, bytes_of ''%'')
      else Some (ap, [ch CHR ''%'', c]))"

function dir_text :: "u8 list \<Rightarrow> nat \<Rightarrow> format_state \<Rightarrow> va_slot list \<Rightarrow> (nat \<times> va_slot list \<times> u8 list) option" where
  "dir_text fmt p fs ap =
     (if p < length fmt then
        (case format_flag (fmt ! p) fs of
           Some fs' \<Rightarrow> dir_text fmt (Suc p) fs' ap
         | None \<Rightarrow> map_option (\<lambda>(ap', t). (Suc p, ap', t)) (conv_text (fmt ! p) fs ap))
      else None)"
  by pat_completeness auto
termination
  by (relation "measure (\<lambda>(fmt, p, _). length fmt - p)") auto

declare dir_text.simps [simp del]

lemma dir_text_advances: "dir_text fmt p fs ap = Some (p', ap', t) \<Longrightarrow> p < p' \<and> p' \<le> length fmt"
proof (induction fmt p fs ap rule: dir_text.induct)
  case (1 fmt p fs ap)
  from 1(2) show ?case
    by (subst (asm) dir_text.simps) (auto split: if_splits option.splits dest: 1(1))
qed

function fmt_text :: "u8 list \<Rightarrow> nat \<Rightarrow> va_slot list \<Rightarrow> u8 list option" where
  "fmt_text fmt p ap =
     (if p < length fmt then
        (if fmt ! p = 0 then Some []
         else if fmt ! p \<noteq> ch CHR ''%'' then map_option (Cons (fmt ! p)) (fmt_text fmt (Suc p) ap)
         else (case dir_text fmt (Suc p) \<lparr>fmt_flags = 0, fmt_width = 0\<rparr> ap of
                 None \<Rightarrow> None
               | Some (p', ap', t) \<Rightarrow> map_option ((@) t) (fmt_text fmt p' ap')))
      else None)"
  by pat_completeness auto
termination
  by (relation "measure (\<lambda>(fmt, p, _). length fmt - p)") (auto dest!: dir_text_advances)

declare fmt_text.simps [simp del]

subsection \<open>Every callback receives the text\<close>

fun put_all :: "u8 list \<Rightarrow> 's putchar_t \<Rightarrow> 's \<Rightarrow> 's option" where
  "put_all [] out s = Some s"
| "put_all (c # cs) out s = do { s' \<leftarrow> out c s; put_all cs out s' }"

lemma put_all_append: "put_all (a @ b) out s = do { s' \<leftarrow> put_all a out s; put_all b out s' }"
  by (induction a arbitrary: s) (auto split: bind_splits)

lemma put_all_Nil: "put_all [] out = Some"
  by (rule ext) simp

lemma put_padding_all: "put_padding c n out = put_all (replicate n c) out"
proof (rule ext)
  show "put_padding c n out s = put_all (replicate n c) out s" for s
    by (induction n arbitrary: s) (auto split: bind_splits)
qed

lemma put_text_all:
  "take k (drop p buf) = t \<Longrightarrow> length t = k \<Longrightarrow> 0 \<notin> set t \<Longrightarrow> put_text buf p k out s = put_all t out s"
proof (induction k arbitrary: p t s)
  case 0
  then show ?case by simp
next
  case (Suc k)
  then have p: "p < length buf" by (cases "p < length buf") auto
  then have t: "t = buf ! p # take k (drop (Suc p) buf)"
    using Suc.prems(1) by (simp add: drop_eq_nth_Cons)
  then have "length (take k (drop (Suc p) buf)) = k" "0 \<notin> set (take k (drop (Suc p) buf))" "buf ! p \<noteq> 0"
    using Suc.prems(2,3) by auto
  then show ?case
    using p by (auto simp: t Suc.IH split: bind_splits)
qed

lemma strlen_from_text:
  "drop p buf = t @ 0 # r \<Longrightarrow> 0 \<notin> set t \<Longrightarrow> strlen_from buf p = Some (p + length t)"
proof (induction t arbitrary: p)
  case Nil
  then have p: "p < length buf" by (cases "p < length buf") auto
  with Nil have "buf ! p = 0" by (simp add: drop_eq_nth_Cons)
  with p show ?case by (subst strlen_from.simps) simp
next
  case (Cons c t)
  then have p: "p < length buf" by (cases "p < length buf") auto
  with Cons.prems have "buf ! p = c" "drop (Suc p) buf = t @ 0 # r"
    by (simp_all add: drop_eq_nth_Cons)
  with p Cons show ?case by (subst strlen_from.simps) simp
qed

lemma format_str_all:
  assumes "take (length t) (drop p buf) = t" and "p + length t \<le> length buf" and "0 \<notin> set t" and "length t < 2 ^ 64"
  shows "format_str buf p (of_nat (length t)) fs out s = put_all (pad_text fs t) out s"
proof -
  have len: "unat (of_nat (length t) :: u64) = length t"
    using assms(4) by (rule unat_of_nat64)
  have cut: "put_text buf p k out = put_all (take k t) out" if "k \<le> length t" for k
  proof (rule ext, rule put_text_all)
    show "take k (drop p buf) = take k t"
      using assms(1) that by (metis min.absorb1 take_take)
    show "0 \<notin> set (take k t)" using assms(3) by (meson in_set_takeD)
  qed (use that in simp)
  define w where "w = unat (fmt_width fs)"
  define l where "l = (if fmt_width fs < of_nat (length t) then fmt_width fs else of_nat (length t))"
  have l: "unat l = min w (length t)" and lw: "fmt_has fs FMT_WIDTH \<Longrightarrow> unat (fmt_width fs - l) = w - min w (length t)"
    by (auto simp: l_def w_def len word_less_nat_alt unat_sub word_le_nat_alt)
  have tk: "take (min w (length t)) t = take w t" "length (take w t) = min w (length t)"
    by (simp_all add: min_def)
  show ?thesis
    unfolding format_str_def pad_text_def l_def [symmetric] w_def [symmetric] Let_def
    using l lw tk by (simp add: cut len put_padding_all put_all_append [abs_def] put_all_Nil min.commute bind_assoc)
qed

lemma format_word_all:
  assumes "chars = number_chars \<or> chars = number_chars_upcase" and "base = 10 \<or> base = 16 \<and> \<not> sign"
  shows "format_word chars base sign fs d out s = put_all (pad_text fs (number_text chars (unat base) sign d)) out s"
proof -
  define t where "t = number_text chars (unat base) sign d"
  have b: "2 \<le> unat base" "unat base \<le> length chars" "unat base = 10 \<or> unat base = 16 \<and> \<not> sign" "0 \<notin> set chars"
    using assms number_chars_props by auto
  have len: "length t \<le> 21" using b(3) by (simp add: t_def number_text_length)
  have nn: "0 \<notin> set t" using b by (simp add: t_def number_text_no_nul)
  define p where "p = 32 - Suc (length t)"
  obtain buf where f: "format_number (replicate 32 0xCC) d 32 chars base sign = Some (buf, p)"
      "length buf = 32" "drop p buf = t @ [0]"
    using format_number_eq [OF b(1,2), of 32 "replicate 32 0xCC" sign d] len by (auto simp: t_def p_def)
  have "strlen_from buf p = Some (p + length t)"
    using strlen_from_text [of p buf t "[]"] f nn by simp
  moreover have "format_str buf p (of_nat (length t)) fs out s = put_all (pad_text fs t) out s"
    using f nn len by (intro format_str_all) (auto simp: p_def)
  ultimately show ?thesis
    using f by (simp add: format_word_def t_def)
qed

text \<open>String objects of the arguments are no larger than the address space.\<close>

definition va_ok :: "va_slot list \<Rightarrow> bool" where
  "va_ok ap \<longleftrightarrow> (\<forall>a obj. VaStr a obj \<in> set ap \<longrightarrow> length obj < 2 ^ 64)"

lemma va_ok_Cons [simp]: "va_ok (x # ap) \<longleftrightarrow> va_ok ap \<and> (case x of VaStr _ obj \<Rightarrow> length obj < 2 ^ 64 | _ \<Rightarrow> True)"
  by (auto simp: va_ok_def split: va_slot.splits)

lemma pop_word_ok: "pop_word ap = Some (w, ap') \<Longrightarrow> va_ok ap \<Longrightarrow> va_ok ap'"
  by (auto simp: pop_word_def split: list.splits va_slot.splits)

lemma pop_int_ok: "pop_int ap fs = Some (w, ap') \<Longrightarrow> va_ok ap \<Longrightarrow> va_ok ap'"
  by (auto simp: pop_int_def dest: pop_word_ok split: if_splits)

lemma conv_text_ok: "conv_text c fs ap = Some (ap', t) \<Longrightarrow> va_ok ap \<Longrightarrow> va_ok ap'"
  by (auto simp: conv_text_def int_text_def dest: pop_int_ok pop_word_ok
      split: if_splits list.splits va_slot.splits option.splits)

lemma dir_text_ok: "dir_text fmt p fs ap = Some (p', ap', t) \<Longrightarrow> va_ok ap \<Longrightarrow> va_ok ap'"
proof (induction fmt p fs ap rule: dir_text.induct)
  case (1 fmt p fs ap)
  from 1(2,3) show ?case
    by (subst (asm) dir_text.simps) (auto split: if_splits option.splits dest: 1(1) conv_text_ok)
qed

lemma format_int_all:
  assumes "chars = number_chars \<or> chars = number_chars_upcase" and "base = 10 \<or> base = 16 \<and> \<not> sign"
  shows "format_int chars base sign fs ap out s =
     do { (ap', t) \<leftarrow> int_text chars (unat base) sign fs ap; s' \<leftarrow> put_all t out s; Some (ap', s') }"
  by (cases "pop_int ap fs") (auto simp: format_int_def int_text_def format_word_all [OF assms])

lemma format_c_text:
  assumes "length obj < 2 ^ 64"
  shows "do { n \<leftarrow> strlen obj; s' \<leftarrow> format_str obj 0 (of_nat n) fs out s; Some (ap', s') }
    = do { t \<leftarrow> c_text obj; s' \<leftarrow> put_all (pad_text fs t) out s; Some (ap', s') }"
proof (cases "strlen obj")
  case None
  then show ?thesis by (simp add: c_text_def)
next
  case (Some n)
  note t = strlen_SomeE [OF Some]
  have "format_str obj 0 (of_nat (length (take n obj))) fs out s = put_all (pad_text fs (take n obj)) out s"
    using t assms by (intro format_str_all) (auto simp: c_string_def)
  with Some t(2) show ?thesis by (simp add: c_text_def)
qed

lemma format_null_text: "format_str (bytes_of ''<null>'' @ [0]) 0 6 fs out s = put_all (pad_text fs (bytes_of ''<null>'')) out s"
proof -
  have "length (bytes_of ''<null>'') = 6" by (simp add: bytes_of_def)
  then show ?thesis
    using format_str_all [of "bytes_of ''<null>''" 0 "bytes_of ''<null>'' @ [0]" fs out s]
    by (simp add: bytes_of_def ch_def)
qed

lemma format_conv_all:
  assumes "va_ok ap"
  shows "format_conv c fs ap out s =
     do { (ap', t) \<leftarrow> conv_text c fs ap; s' \<leftarrow> put_all t out s; Some (ap', s') }"
proof -
  consider "c = ch CHR ''s''" | "c = ch CHR ''p''" | "c = ch CHR ''c''"
    | "c \<noteq> ch CHR ''s''" "c \<noteq> ch CHR ''p''" "c \<noteq> ch CHR ''c''" by blast
  then show ?thesis
  proof cases
    case 1
    show ?thesis
    proof (cases ap)
      case (Cons x ap')
      then show ?thesis
        using assms 1 format_c_text [of _ fs out s ap']
        by (cases x) (auto simp: format_conv_def conv_text_def ch_def format_null_text map_option_case split: option.splits)
    qed (simp add: 1 format_conv_def conv_text_def ch_def)
  next
    case 2
    have w: "format_word number_chars 16 False fs' d out s' = put_all (pad_text fs' (number_text number_chars 16 False d)) out s'" for fs' d s'
      using format_word_all [of number_chars 16 False fs' d out s'] by simp
    show ?thesis
      by (cases ap; cases "hd ap")
        (auto simp: 2 format_conv_def conv_text_def ch_def bytes_of_def w split: bind_splits)
  next
    case 3
    then show ?thesis
      by (cases "pop_word ap") (auto simp: format_conv_def conv_text_def ch_def split: bind_splits)
  next
    case 4
    then show ?thesis
      by (auto simp: format_conv_def conv_text_def format_int_all bytes_of_def split: bind_splits)
  qed
qed

lemma format_loop_all:
  assumes "va_ok ap"
  shows "format_loop fmt p fs ap out s =
     do { (p', ap', t) \<leftarrow> dir_text fmt p fs ap; s' \<leftarrow> put_all t out s; Some (p', ap', s') }"
  using assms
proof (induction fmt p fs ap out s rule: format_loop.induct)
  case (1 fmt p fs ap out s)
  show ?case
    using 1 by (subst format_loop.simps, subst dir_text.simps)
      (auto simp: format_conv_all split: option.splits bind_splits)
qed

subsection \<open>The callers\<close>

lemma vsnprintf_loop_all:
  "va_ok ap \<Longrightarrow> vsnprintf_loop fmt p ap st = do { t \<leftarrow> fmt_text fmt p ap; put_all t vsprintf_output st }"
proof (induction fmt p ap st rule: vsnprintf_loop.induct)
  case (1 fmt p ap st)
  show ?case
  proof (cases "p < length fmt \<and> fmt ! p \<noteq> 0")
    case False
    then show ?thesis by (subst vsnprintf_loop.simps, subst fmt_text.simps) auto
  next
    case True
    show ?thesis
    proof (cases "fmt ! p = ch CHR ''%''")
      case False
      with True show ?thesis
        by (subst vsnprintf_loop.simps, subst fmt_text.simps)
          (use 1 in \<open>auto simp: Let_def split: option.splits bind_splits\<close>)
    next
      case pc: True
      have "format fmt (Suc p) ap vsprintf_output st =
          do { (p', ap', t) \<leftarrow> dir_text fmt (Suc p) \<lparr>fmt_flags = 0, fmt_width = 0\<rparr> ap;
               s' \<leftarrow> put_all t vsprintf_output st; Some (p', ap', s') }"
        by (simp add: format_def format_loop_all [OF 1(3)])
      with True pc 1(2) 1(3) show ?thesis
        by (subst vsnprintf_loop.simps, subst fmt_text.simps)
          (auto simp: Let_def put_all_append dir_text_ok split: option.splits bind_splits)
    qed
  qed
qed

lemma put_all_vprintf_output:
  "put_all t (vprintf_output cw) (con, pos) = map_option (\<lambda>con'. (con', pos + of_nat (length t))) (put_all t cw con)"
proof (induction t arbitrary: con pos)
  case Nil
  then show ?case by simp
next
  case (Cons c t)
  then show ?case by (cases "cw c con") (simp_all add: vprintf_output_def algebra_simps)
qed

lemma vprintf_loop_all:
  "va_ok ap \<Longrightarrow> map_option fst (vprintf_loop cw fmt p ap s) = do { t \<leftarrow> fmt_text fmt p ap; put_all t cw (fst s) }"
proof (induction cw fmt p ap s rule: vprintf_loop.induct)
  case (1 cw fmt p ap s)
  show ?case
  proof (cases "p < length fmt \<and> fmt ! p \<noteq> 0")
    case False
    then show ?thesis by (subst vprintf_loop.simps, subst fmt_text.simps) auto
  next
    case True
    show ?thesis
    proof (cases "fmt ! p = ch CHR ''%''")
      case False
      with True show ?thesis
        by (subst vprintf_loop.simps, subst fmt_text.simps)
          (use 1 in \<open>auto simp: Let_def split: option.splits bind_splits\<close>)
    next
      case pc: True
      have "format fmt (Suc p) ap (vprintf_output cw) s =
          do { (p', ap', t) \<leftarrow> dir_text fmt (Suc p) \<lparr>fmt_flags = 0, fmt_width = 0\<rparr> ap;
               s' \<leftarrow> put_all t (vprintf_output cw) s; Some (p', ap', s') }"
        by (simp add: format_def format_loop_all [OF 1(3)])
      with True pc 1(2) 1(3) show ?thesis
        by (subst vprintf_loop.simps, subst fmt_text.simps, cases s)
          (auto simp: Let_def put_all_append put_all_vprintf_output dir_text_ok split: option.splits bind_splits)
    qed
  qed
qed

text \<open>\<open>vsprintf_output\<close> stores what fits and counts the rest.\<close>

lemma put_all_vsprintf_output:
  assumes "unat sz \<le> length str"
  shows "length t < 2 ^ 64 \<Longrightarrow> put_all t vsprintf_output \<lparr>vs_str = str, vs_pos = 0, vs_size = sz\<rparr> =
     Some \<lparr>vs_str = take (unat sz) t @ drop (min (length t) (unat sz)) str, vs_pos = of_nat (length t), vs_size = sz\<rparr>"
proof (induction t rule: rev_induct)
  case Nil
  then show ?case by simp
next
  case (snoc c t)
  define n where "n = unat sz"
  have pos: "unat (of_nat (length t) :: u64) = length t"
    using snoc.prems by (intro unat_of_nat64) simp
  show ?case
  proof (cases "length t < n")
    case True
    then have "(t @ drop (length t) str)[length t := c] = t @ c # drop (Suc (length t)) str"
      using assms by (simp add: list_update_append drop_eq_nth_Cons n_def)
    with True snoc assms pos show ?thesis
      by (simp add: put_all_append vsprintf_output_def word_less_nat_alt min_def flip: n_def)
  next
    case False
    with snoc pos show ?thesis
      by (simp add: put_all_append vsprintf_output_def word_less_nat_alt min_def flip: n_def)
  qed
qed

lemma c_int_of_size_small: "n < 2 ^ 31 \<Longrightarrow> c_int_of_size (of_nat n) = int n"
  by (simp add: c_int_of_size_def ucast_eq sint_uint unsigned_of_nat signed_take_bit_int_eq_self take_bit_nat_eq_self)

subsection \<open>Reading a decimal number back\<close>

definition digit_val :: "u8 \<Rightarrow> nat" where
  "digit_val c = unat c - 48"

definition parse_dec :: "u8 list \<Rightarrow> int" where
  "parse_dec t =
     (case t of [] \<Rightarrow> 0
      | c # ds \<Rightarrow> if c = ch CHR ''-'' then - int (digits_val 10 (map digit_val ds))
                 else int (digits_val 10 (map digit_val t)))"

lemma number_chars_digit: "d < 10 \<Longrightarrow> digit_val (number_chars ! d) = d \<and> number_chars ! d \<noteq> ch CHR ''-''"
proof -
  assume "d < 10"
  then have "d \<in> {0, 1, 2, 3, 4, 5, 6, 7, 8, 9}" by auto
  then show ?thesis
    by (elim insertE) (simp_all add: number_chars_def bytes_of_def ch_def digit_val_def)
qed

lemma digits_read_back: "map (\<lambda>d. digit_val (number_chars ! d)) (digits 10 n) = digits 10 n"
  by (rule map_idI) (use digits_bound [of 10] number_chars_digit in auto)

lemma uint_nonneg:
  fixes n :: u64
  assumes "0 \<le> sint n"
  shows "uint n = sint n"
proof -
  have "sint n < 2 ^ 64" using sint_less [of n] by simp
  then have "uint (word_of_int (sint n) :: u64) = sint n"
    using assms by (simp only: uint_word_of_int) simp
  then show ?thesis by simp
qed

lemma parse_dec_number: "parse_dec (number_text number_chars 10 True n) = sint n"
proof (cases "sint n < 0")
  case True
  then show ?thesis
    by (simp add: parse_dec_def number_text_def digits_read_back digits_val_digits comp_def)
next
  case False
  obtain d ds where ds: "digits 10 (unat n) = d # ds"
    by (cases "digits 10 (unat n)") auto
  have "d < 10" using digits_bound [of 10 d "unat n"] ds by simp
  then have "number_chars ! d \<noteq> ch CHR ''-''" by (simp add: number_chars_digit)
  then have "parse_dec (number_text number_chars 10 True n) = int (digits_val 10 (map (\<lambda>d. digit_val (number_chars ! d)) (digits 10 (unat n))))"
    using False by (simp add: parse_dec_def number_text_def ds comp_def)
  with False show ?thesis by (simp add: digits_read_back digits_val_digits uint_nonneg)
qed

subsection \<open>Properties\<close>

lemma vsnprintf_eq:
  assumes "va_ok ap" and "fmt_text fmt 0 ap = Some t" and "length t < 2 ^ 31" and "unat sz \<le> length str"
  shows "vsnprintf str sz fmt ap =
     map_option (\<lambda>str'. (int (length t), str'))
       (wr (take (unat sz) t @ drop (min (length t) (unat sz)) str)
          (if unat sz < length t then unat (sz - 1) else length t) 0)"
proof -
  have "unat (of_nat (length t) :: u64) = length t"
    using assms(3) by (intro unat_of_nat64) simp
  moreover have "length t < 2 ^ 64" using assms(3) by simp
  note out = put_all_vsprintf_output [OF assms(4) this]
  ultimately show ?thesis
    using assms by (simp add: vsnprintf_def vsnprintf_loop_all out word_less_nat_alt c_int_of_size_small map_option_case split: option.splits)
qed

text \<open>C10: whatever the format string and its arguments say, \<open>vsnprintf\<close> with a buffer of the
  given size leaves in it the text as a C string if it is shorter than the size, or the
  part of it that leaves room for the terminator if it is longer, does not touch the bytes
  after the terminator or after the size, and returns the length of the whole text. The two other cases go wrong:
  a text of exactly the given size is stored without room for the terminator, which then goes to the byte
  after the size (undefined if the object ends there), and a non-empty text with the size 0 has its terminator
  stored in front of the buffer, which is undefined.\<close>

theorem vsnprintf_stores_text:
  assumes "va_ok ap" and "fmt_text fmt 0 ap = Some t" and "length t < 2 ^ 31" and "unat sz \<le> length str" and "length str < 2 ^ 63"
  shows "vsnprintf str sz fmt ap =
     (if length t < unat sz then Some (int (length t), t @ 0 # drop (Suc (length t)) str)
      else if length t = unat sz then
        (if length str = unat sz then None else Some (int (length t), t @ 0 # drop (Suc (length t)) str))
      else if sz = 0 then None
      else Some (int (length t), take (unat sz - 1) t @ 0 # drop (unat sz) str))"
proof -
  define n where "n = unat sz"
  consider "length t < n \<or> length t = n \<and> length str \<noteq> n" | "length t = n" "length str = n" | "sz = 0" "n < length t" | "sz \<noteq> 0" "n < length t"
    by linarith
  then show ?thesis
  proof cases
    case 1
    then have "(t @ drop (length t) str)[length t := 0] = t @ 0 # drop (Suc (length t)) str" "length t < length str"
      using assms(4) by (auto simp: list_update_append drop_eq_nth_Cons n_def)
    then show ?thesis
      using 1 assms(4) unfolding vsnprintf_eq [OF assms(1-4)] by (auto simp: wr_def simp flip: n_def)
  next
    case 2
    then show ?thesis unfolding vsnprintf_eq [OF assms(1-4)] by (simp add: wr_def flip: n_def)
  next
    case 3
    have "unat (- 1 :: u64) = 2 ^ 64 - 1" by (simp add: unsigned_minus_1_eq_mask mask_eq_exp_minus_1)
    then have "\<not> unat (- 1 :: u64) < length str" using assms(5) by simp
    then show ?thesis using 3 unfolding vsnprintf_eq [OF assms(1-4)] by (simp add: wr_def n_def)
  next
    case 4
    then have "unat (sz - 1) = n - 1" "0 < n" by (simp_all add: n_def unat_gt_0 word_less_nat_alt unat_sub word_le_nat_alt Suc_leI)
    then obtain k where k: "n = Suc k" "unat (sz - 1) = k" by (cases n) auto
    have "(take n t @ drop n str)[k := 0] = take k t @ 0 # drop n str"
      using 4(2) k by (simp add: list_update_append take_Suc_conv_app_nth)
    then show ?thesis
      using 4 k assms(4) unfolding vsnprintf_eq [OF assms(1-4)] by (simp add: min_def flip: n_def)
  qed
qed

theorem vsnprintf_stores_text_witness:
  "vsnprintf (replicate 8 0xff) 8 (bytes_of ''pid=%d!'' @ [0]) [VaWord 7]
     = Some (6, bytes_of ''pid=7!'' @ [0, 0xff])"
proof -
  have t: "fmt_text (bytes_of ''pid=%d!'' @ [0]) 0 [VaWord 7] = Some (bytes_of ''pid=7!'')"
    by code_simp
  show ?thesis
    using vsnprintf_stores_text [OF _ t, of 8 "replicate 8 0xff"] by (simp add: bytes_of_def va_ok_def)
qed

text \<open>When the text is exactly as long as the size that \<open>vsnprintf\<close> is given, the
  terminator is written one byte past the buffer.\<close>

lemma vsnprintf_off_by_one:
  assumes "va_ok ap" and "fmt_text fmt 0 ap = Some t" and "length t < 2 ^ 31" and "length str = length t"
  shows "vsnprintf str (of_nat (length str)) fmt ap = None"
proof -
  have "unat (of_nat (length str) :: u64) = length str"
    using assms(3,4) by (intro unat_of_nat64) simp
  then show ?thesis
    using vsnprintf_eq [OF assms(1,2,3), of "of_nat (length str)" str] assms(4) by (simp add: wr_def)
qed

lemma vsnprintf_off_by_one_example:
  "vsnprintf (replicate 3 0) 3 (bytes_of ''%d'' @ [0]) [VaWord 123] = None"
proof -
  have t: "fmt_text (bytes_of ''%d'' @ [0]) 0 [VaWord 123] = Some (bytes_of ''123'')"
    by code_simp
  show ?thesis
    using vsnprintf_off_by_one [OF _ t, of "replicate 3 0"] by (simp add: bytes_of_def va_ok_def)
qed

text \<open>\<open>format_number\<close> on the 32-byte buffer of \<open>format\<close> never leaves the buffer, and the
  decimal text it leaves there, read as a number, is the signed argument, for all
  \<open>2\<^sup>6\<^sup>4\<close> arguments.\<close>

lemma format_number_decimal:
  "\<exists>buf p t. format_number (replicate 32 x) n 32 number_chars 10 True = Some (buf, p)
     \<and> drop p buf = t @ [0] \<and> parse_dec t = sint n"
proof -
  have "\<exists>buf'. format_number (replicate 32 x) n 32 number_chars 10 True =
        Some (buf', 32 - Suc (length (number_text number_chars (unat (10 :: u64)) True n)))
     \<and> length buf' = length (replicate 32 x)
     \<and> drop (32 - Suc (length (number_text number_chars (unat (10 :: u64)) True n))) buf'
         = number_text number_chars (unat (10 :: u64)) True n @ [0]"
    using number_text_length [of 10 True number_chars n]
    by (intro format_number_eq) (simp_all add: number_chars_props)
  then show ?thesis
    using parse_dec_number [of n] by auto
qed

text \<open>\<open>printf\<close> sends to the console, through any \<open>console_write_char\<close>, exactly the
  bytes of the text of its format string, in order, and nothing else.\<close>

lemma printf_prints_text:
  assumes "va_ok ap"
  shows "map_option snd (printf console_write_char fmt ap con) =
     (case fmt_text fmt 0 ap of None \<Rightarrow> None | Some t \<Rightarrow> put_all t console_write_char con)"
proof -
  have "map_option snd (printf console_write_char fmt ap con) = map_option fst (vprintf_loop console_write_char fmt 0 ap (con, 0))"
    by (simp add: printf_def vprintf_def option.map_comp comp_def split_beta)
  then show ?thesis
    by (simp add: vprintf_loop_all [OF assms] split: option.splits)
qed

lemma printf_prints_text_example:
  "map_option snd (printf (\<lambda>c con. Some (con @ [c])) (bytes_of ''%s:%x'' @ [0]) [VaStr 0x1000 (bytes_of ''ax'' @ [0]), VaWord 255] [])
     = Some (bytes_of ''ax:ff'')"
proof -
  have t: "fmt_text (bytes_of ''%s:%x'' @ [0]) 0 [VaStr 0x1000 (bytes_of ''ax'' @ [0]), VaWord 255] = Some (bytes_of ''ax:ff'')"
    by code_simp
  have ok: "va_ok [VaStr 0x1000 (bytes_of ''ax'' @ [0]), VaWord 255]"
    by (simp add: va_ok_def bytes_of_def)
  show ?thesis
    using printf_prints_text [OF ok, of "\<lambda>c con. Some (con @ [c])" "bytes_of ''%s:%x'' @ [0]" "[]"]
    unfolding t by (simp add: bytes_of_def)
qed

end
