(* ===== verification/Stdio.thy ===== *)
theory Stdio
  imports PrintfText
begin

text \<open>
  The formatted output of the user library (\<^verbatim>\<open>usr/liblinux/src/stdio.c\<close>). Its
  conversions are those of \<^verbatim>\<open>kernel/printf.c\<close> but for \<^verbatim>\<open>%c\<close>; its \<open>printf\<close>
  family prints into a local array of 1024 bytes and hands that to the \<open>console_print\<close>
  system call. The types of the states and the argument slots, with what \<^verbatim>\<open>va_arg\<close> takes from them, are
  those of \<open>Printf\<close>; the code, its tables and loops included, is translated anew.
\<close>

subsection \<open>Conversions\<close>

definition lin_fmt_has :: "format_state \<Rightarrow> u32 \<Rightarrow> bool" where
  "lin_fmt_has fs f \<longleftrightarrow> fmt_flags fs AND f \<noteq> 0"

definition lin_fmt_set :: "u32 \<Rightarrow> format_state \<Rightarrow> format_state" where
  "lin_fmt_set f fs = fs\<lparr>fmt_flags := fmt_flags fs OR f\<rparr>"

definition lin_number_chars_upcase :: "u8 list" where
  "lin_number_chars_upcase = map (\<lambda>i. if i < 10 then 0x30 + of_nat i else 0x41 + of_nat (i - 10)) [0..<16]"

definition lin_number_chars :: "u8 list" where
  "lin_number_chars = map (\<lambda>i. if i < 10 then 0x30 + of_nat i else 0x61 + of_nat (i - 10)) [0..<16]"

text \<open>The loop of \<open>format_number\<close>; \<open>fuel\<close> is the number of bytes left in front of \<open>pos\<close>, which bounds the
  rounds: the next one would leave the buffer.\<close>

fun lin_format_digits :: "nat \<Rightarrow> u8 list \<Rightarrow> u64 \<Rightarrow> nat \<Rightarrow> u8 list \<Rightarrow> u64 \<Rightarrow> (u8 list \<times> u64 \<times> nat) option" where
  "lin_format_digits fuel buf n pos chars base =
     (if n < base then Some (buf, n, pos)
      else case fuel of
             0 \<Rightarrow> None
           | Suc fuel \<Rightarrow>
               (if base = 0 then None
                else do { let digit = n mod base;
                          let n = n div base;
                          let pos = pos - 1;
                          c \<leftarrow> rd chars (unat digit);
                          buf \<leftarrow> wr buf pos c;
                          lin_format_digits fuel buf n pos chars base }))"

definition lin_format_number :: "u8 list \<Rightarrow> u64 \<Rightarrow> nat \<Rightarrow> u8 list \<Rightarrow> u64 \<Rightarrow> bool \<Rightarrow> (u8 list \<times> nat) option" where
  "lin_format_number buf n len chars base sign =
     (let negative = (sint n < 0);
          n = (if sign \<and> negative then - n else n);
          store = (\<lambda>buf pos c. if pos = 0 then None else map_option (\<lambda>b. (b, pos - 1)) (wr buf (pos - 1) c))
      in do { (buf, pos) \<leftarrow> store buf len 0;
              (buf, n, pos) \<leftarrow> lin_format_digits pos buf n pos chars base;
              c \<leftarrow> rd chars (unat n);
              (buf, pos) \<leftarrow> store buf pos c;
              if sign \<and> negative then store buf pos (ch CHR ''-'') else Some (buf, pos) })"

text \<open>The four loops of \<open>format_str\<close> are two, each in two places.\<close>

fun lin_put_chars :: "u8 list \<Rightarrow> nat \<Rightarrow> nat \<Rightarrow> 's putchar_t \<Rightarrow> 's \<Rightarrow> 's option" where
  "lin_put_chars buf p count out s =
     (case count of
        0 \<Rightarrow> Some s
      | Suc count \<Rightarrow>
          (case rd buf p of
             None \<Rightarrow> None
           | Some c \<Rightarrow> if c = 0 then Some s
                        else case out c s of None \<Rightarrow> None | Some s \<Rightarrow> lin_put_chars buf (p + 1) count out s))"

declare lin_put_chars.simps [simp del]

fun lin_put_pad :: "u8 \<Rightarrow> nat \<Rightarrow> 's putchar_t \<Rightarrow> 's \<Rightarrow> 's option" where
  "lin_put_pad pad 0 out s = Some s"
| "lin_put_pad pad (Suc padding) out s = (case out pad s of None \<Rightarrow> None | Some s \<Rightarrow> lin_put_pad pad padding out s)"

definition lin_format_str ::
  "u8 list \<Rightarrow> nat \<Rightarrow> u64 \<Rightarrow> format_state \<Rightarrow> 's putchar_t \<Rightarrow> 's \<Rightarrow> 's option" where
  "lin_format_str buf p len fs out s =
     (let length = len;
          padding = 0;
          (length, padding) =
            (if lin_fmt_has fs FMT_WIDTH
             then (let length = (if length > fmt_width fs then fmt_width fs else length) in (length, fmt_width fs - length))
             else (length, padding))
      in if lin_fmt_has fs FMT_LEFT
         then do { s \<leftarrow> lin_put_chars buf p (unat length) out s;
                   lin_put_pad (ch CHR '' '') (unat padding) out s }
         else do { let pad = (if lin_fmt_has fs FMT_ZERO_PAD then ch CHR ''0'' else ch CHR '' '');
                   s \<leftarrow> lin_put_pad pad (unat padding) out s;
                   lin_put_chars buf p (unat length) out s })"

definition lin_pop_int :: "va_slot list \<Rightarrow> format_state \<Rightarrow> (u64 \<times> va_slot list) option" where
  "lin_pop_int ap fs =
     (if lin_fmt_has fs FMT_UNSIGNED then
        (if lin_fmt_has fs FMT_LONG_LONG then pop_word ap
         else if lin_fmt_has fs FMT_LONG then pop_word ap
         else map_option (\<lambda>(w, ap'). (ucast (ucast w :: u32), ap')) (pop_word ap))
      else
        (if lin_fmt_has fs FMT_LONG_LONG then pop_word ap
         else if lin_fmt_has fs FMT_LONG then pop_word ap
         else map_option (\<lambda>(w, ap'). (scast (ucast w :: u32), ap')) (pop_word ap)))"

definition lin_format_word ::
  "u8 list \<Rightarrow> u64 \<Rightarrow> bool \<Rightarrow> format_state \<Rightarrow> u64 \<Rightarrow> 's putchar_t \<Rightarrow> 's \<Rightarrow> 's option" where
  "lin_format_word chars base sign fs d out s =
     do { (buf, p) \<leftarrow> lin_format_number (replicate 32 0xCC) d 32 chars base sign;
          n \<leftarrow> strlen_from buf p;
          lin_format_str buf p (of_nat (n - p)) fs out s }"

definition lin_format_int ::
  "u8 list \<Rightarrow> u64 \<Rightarrow> bool \<Rightarrow> format_state \<Rightarrow> va_slot list \<Rightarrow> 's putchar_t \<Rightarrow> 's \<Rightarrow> (va_slot list \<times> 's) option" where
  "lin_format_int chars base sign fs ap out s =
     do { (d, ap') \<leftarrow> lin_pop_int ap fs;
          s' \<leftarrow> lin_format_word chars base sign fs d out s;
          Some (ap', s') }"

text \<open>The switch of the user library has no case for \<^verbatim>\<open>%c\<close>.\<close>

definition lin_format_conv ::
  "u8 \<Rightarrow> format_state \<Rightarrow> va_slot list \<Rightarrow> 's putchar_t \<Rightarrow> 's \<Rightarrow> (va_slot list \<times> 's) option" where
  "lin_format_conv c fs ap out s =
     (if c = ch CHR ''d'' then lin_format_int lin_number_chars 10 True fs ap out s
      else if c = ch CHR ''u'' then lin_format_int lin_number_chars 10 False (lin_fmt_set FMT_UNSIGNED fs) ap out s
      else if c = ch CHR ''x'' then lin_format_int lin_number_chars 16 False (lin_fmt_set FMT_UNSIGNED fs) ap out s
      else if c = ch CHR ''X'' then lin_format_int lin_number_chars_upcase 16 False (lin_fmt_set FMT_UNSIGNED fs) ap out s
      else if c = ch CHR ''s'' then
        (case ap of
           VaStr _ obj # ap' \<Rightarrow>
             do { n \<leftarrow> strlen obj; s' \<leftarrow> lin_format_str obj 0 (of_nat n) fs out s; Some (ap', s') }
         | VaWord w # ap' \<Rightarrow>
             if w = 0 then
               do { s' \<leftarrow> lin_format_str (bytes_of ''<null>'' @ [0]) 0 6 fs out s; Some (ap', s') }
             else None
         | [] \<Rightarrow> None)
      else if c = ch CHR ''p'' then
        do { s \<leftarrow> out (ch CHR ''0'') s;
             s \<leftarrow> out (ch CHR ''x'') s;
             (w, ap') \<leftarrow> (case ap of VaStr w _ # ap' \<Rightarrow> Some (w, ap') | VaWord w # ap' \<Rightarrow> Some (w, ap') | [] \<Rightarrow> None);
             s' \<leftarrow> lin_format_word lin_number_chars 16 False (lin_fmt_set FMT_UNSIGNED fs) w out s;
             Some (ap', s') }
      else if c = ch CHR ''%'' then
        do { s' \<leftarrow> out (ch CHR ''%'') s; Some (ap, s') }
      else
        do { s \<leftarrow> out (ch CHR ''%'') s; s' \<leftarrow> out c s; Some (ap, s') })"

text \<open>The cases of the switch that stay in the loop: digits, the point, and the flags.\<close>

definition lin_format_flag :: "u8 \<Rightarrow> format_state \<Rightarrow> format_state option" where
  "lin_format_flag c fs =
     (if ch CHR ''0'' \<le> c \<and> c \<le> ch CHR ''9'' then
        Some (if \<not> lin_fmt_has fs FMT_PRECISION
              then let fs = lin_fmt_set FMT_WIDTH fs;
                       fs = (if fmt_width fs = 0 \<and> c = ch CHR ''0'' then lin_fmt_set FMT_ZERO_PAD fs else fs);
                       fs = fs\<lparr>fmt_width := fmt_width fs * 10\<rparr>
                   in fs\<lparr>fmt_width := fmt_width fs + (ucast c - ucast (ch CHR ''0''))\<rparr>
              else fs)
      else if c = ch CHR ''.'' then
        (let fs = lin_fmt_set FMT_PRECISION fs in Some (lin_fmt_set FMT_ZERO_PAD fs))
      else if c = ch CHR ''-'' then Some (lin_fmt_set FMT_LEFT fs)
      else if c = ch CHR ''l'' then
        (let fs = (if lin_fmt_has fs FMT_LONG then lin_fmt_set FMT_LONG_LONG fs else fs) in Some (lin_fmt_set FMT_LONG fs))
      else None)"

function lin_format_loop ::
  "u8 list \<Rightarrow> nat \<Rightarrow> format_state \<Rightarrow> va_slot list \<Rightarrow> 's putchar_t \<Rightarrow> 's \<Rightarrow> (nat \<times> va_slot list \<times> 's) option" where
  "lin_format_loop fmt p fs ap out s =
     (if p < length fmt then
        (case lin_format_flag (fmt ! p) fs of
           Some fs' \<Rightarrow> lin_format_loop fmt (Suc p) fs' ap out s
         | None \<Rightarrow> map_option (\<lambda>(ap', s'). (Suc p, ap', s')) (lin_format_conv (fmt ! p) fs ap out s))
      else None)"
  by pat_completeness auto
termination
  by (relation "measure (\<lambda>(fmt, p, _). length fmt - p)") auto

declare lin_format_loop.simps [simp del]

definition lin_format ::
  "u8 list \<Rightarrow> nat \<Rightarrow> va_slot list \<Rightarrow> 's putchar_t \<Rightarrow> 's \<Rightarrow> (nat \<times> va_slot list \<times> 's) option" where
  "lin_format fmt p ap out s = lin_format_loop fmt p \<lparr>fmt_flags = 0, fmt_width = 0\<rparr> ap out s"

lemma lin_format_loop_advances: "lin_format_loop fmt p fs ap out s = Some (p', ap', s') \<Longrightarrow> p < p' \<and> p' \<le> length fmt"
proof (induction fmt p fs ap out s rule: lin_format_loop.induct)
  case (1 fmt p fs ap out s)
  from 1(2) show ?case
    by (subst (asm) lin_format_loop.simps) (auto split: if_splits option.splits dest: 1(1))
qed

lemma lin_format_advances: "lin_format fmt p ap out s = Some (p', ap', s') \<Longrightarrow> p < p' \<and> p' \<le> length fmt"
  unfolding lin_format_def by (rule lin_format_loop_advances)

definition lin_vsprintf_output :: "vsprintf_state putchar_t" where
  "lin_vsprintf_output c st =
     (if vs_pos st < vs_size st
      then do { str' \<leftarrow> wr (vs_str st) (unat (vs_pos st)) c;
                Some (st\<lparr>vs_str := str', vs_pos := vs_pos st + 1\<rparr>) }
      else Some (st\<lparr>vs_pos := vs_pos st + 1\<rparr>))"

function lin_vsnprintf_loop :: "u8 list \<Rightarrow> nat \<Rightarrow> va_slot list \<Rightarrow> vsprintf_state \<Rightarrow> vsprintf_state option" where
  "lin_vsnprintf_loop fmt p ap st =
     (if p < length fmt then
        (let c = fmt ! p in
         if c = 0 then Some st
         else if c \<noteq> ch CHR ''%'' then
           (case lin_vsprintf_output c st of None \<Rightarrow> None | Some st' \<Rightarrow> lin_vsnprintf_loop fmt (Suc p) ap st')
         else
           (case lin_format fmt (Suc p) ap lin_vsprintf_output st of None \<Rightarrow> None
            | Some (p', ap', st') \<Rightarrow> lin_vsnprintf_loop fmt p' ap' st'))
      else None)"
  by pat_completeness auto
termination
  by (relation "measure (\<lambda>(fmt, p, _). length fmt - p)") (auto dest!: lin_format_advances)

declare lin_vsnprintf_loop.simps [simp del]

definition lin_vsnprintf :: "u8 list \<Rightarrow> u64 \<Rightarrow> u8 list \<Rightarrow> va_slot list \<Rightarrow> (int \<times> u8 list) option" where
  "lin_vsnprintf str sz fmt ap =
     do { st \<leftarrow> lin_vsnprintf_loop fmt 0 ap \<lparr>vs_str = str, vs_pos = 0, vs_size = sz\<rparr>;
          str' \<leftarrow> wr (vs_str st) (unat (if vs_size st < vs_pos st then vs_size st - 1 else vs_pos st)) 0;
          Some (c_int_of_size (vs_pos st), str') }"

definition lin_vsprintf :: "u8 list \<Rightarrow> u8 list \<Rightarrow> va_slot list \<Rightarrow> (int \<times> u8 list) option" where
  "lin_vsprintf str fmt ap = lin_vsnprintf str (- 1) fmt ap"

definition lin_sprintf :: "u8 list \<Rightarrow> u8 list \<Rightarrow> va_slot list \<Rightarrow> (int \<times> u8 list) option" where
  "lin_sprintf str fmt args = lin_vsprintf str fmt args"

definition lin_snprintf :: "u8 list \<Rightarrow> u64 \<Rightarrow> u8 list \<Rightarrow> va_slot list \<Rightarrow> (int \<times> u8 list) option" where
  "lin_snprintf str sz fmt args = lin_vsnprintf str sz fmt args"

subsection \<open>Streams\<close>

text \<open>\<open>console_print\<close> receives the bytes of the array and a count. The content of
  \<^verbatim>\<open>text\<close> before the call is not specified and an argument. \<open>ret\<close> is an \<open>int\<close>
  that becomes a \<open>size_t\<close>.\<close>

definition vfprintf ::
  "(u8 list \<Rightarrow> nat \<Rightarrow> 'k \<Rightarrow> 'k option) \<Rightarrow> u8 list \<Rightarrow> u8 list \<Rightarrow> va_slot list \<Rightarrow> 'k \<Rightarrow> (int \<times> 'k) option" where
  "vfprintf console_print text0 fmt ap k =
     do { (ret, text') \<leftarrow> lin_vsprintf text0 fmt ap;
          k' \<leftarrow> console_print text' (unat (word_of_int ret :: u64)) k;
          Some (0, k') }"

definition lin_vprintf ::
  "(u8 list \<Rightarrow> nat \<Rightarrow> 'k \<Rightarrow> 'k option) \<Rightarrow> u8 list \<Rightarrow> u8 list \<Rightarrow> va_slot list \<Rightarrow> 'k \<Rightarrow> (int \<times> 'k) option" where
  "lin_vprintf console_print text0 fmt ap k = vfprintf console_print text0 fmt ap k"

definition lin_printf ::
  "(u8 list \<Rightarrow> nat \<Rightarrow> 'k \<Rightarrow> 'k option) \<Rightarrow> u8 list \<Rightarrow> u8 list \<Rightarrow> va_slot list \<Rightarrow> 'k \<Rightarrow> (int \<times> 'k) option" where
  "lin_printf console_print text0 fmt args k = lin_vprintf console_print text0 fmt args k"

text \<open>\<open>fprintf\<close> has no \<open>return\<close>: its caller may not use the value, so only the effect is
  modelled.\<close>

definition fprintf ::
  "(u8 list \<Rightarrow> nat \<Rightarrow> 'k \<Rightarrow> 'k option) \<Rightarrow> u8 list \<Rightarrow> u8 list \<Rightarrow> va_slot list \<Rightarrow> 'k \<Rightarrow> 'k option" where
  "fprintf console_print text0 fmt args k = map_option snd (vfprintf console_print text0 fmt args k)"

definition fwrite :: "(u8 list \<Rightarrow> nat \<Rightarrow> 'k \<Rightarrow> 'k option) \<Rightarrow> u8 list \<Rightarrow> u64 \<Rightarrow> u64 \<Rightarrow> 'k \<Rightarrow> (u64 \<times> 'k) option" where
  "fwrite console_print ptr sz nmemb k = map_option (\<lambda>k'. (0, k')) (console_print ptr (unat (sz * nmemb)) k)"

definition lin_putchar :: "(u8 list \<Rightarrow> nat \<Rightarrow> 'k \<Rightarrow> 'k option) \<Rightarrow> int \<Rightarrow> 'k \<Rightarrow> (int \<times> 'k) option" where
  "lin_putchar console_print c k = map_option (\<lambda>k'. (c, k')) (console_print [word_of_int c] 1 k)"

subsection \<open>Agreement with the kernel\<close>

lemma lin_fmt_eqs: "lin_fmt_has = fmt_has" "lin_fmt_set = fmt_set"
  by (simp_all add: fun_eq_iff lin_fmt_has_def fmt_has_def lin_fmt_set_def fmt_set_def)

lemma lin_number_chars_eq: "lin_number_chars = number_chars" "lin_number_chars_upcase = number_chars_upcase"
  by code_simp+

lemma lin_format_digits_eq: "lin_format_digits pos buf n pos chars base = format_digits buf n pos chars base"
proof (induction pos arbitrary: buf n)
  case 0
  then show ?case by (subst lin_format_digits.simps) (simp add: linorder_not_less [symmetric])
next
  case (Suc pos)
  then show ?case by (subst lin_format_digits.simps) (simp add: linorder_not_less [symmetric] Let_def del: lin_format_digits.simps)
qed

lemma lin_format_number_eq: "lin_format_number = format_number"
proof -
  have p: "(if pos = 0 then None else map_option (\<lambda>b. (b, pos - 1)) (wr buf (pos - 1) c)) = put_before buf pos c" for buf pos c
    by (cases pos) (simp_all add: put_before_def)
  show ?thesis
    by (intro ext) (simp only: lin_format_number_def format_number_def Let_def p lin_format_digits_eq)
qed

lemma lin_put_chars_eq: "lin_put_chars buf p n out s = put_text buf p n out s"
proof (induction n arbitrary: p s)
  case 0
  then show ?case by (subst lin_put_chars.simps) simp
next
  case (Suc n)
  then show ?case by (subst lin_put_chars.simps) (simp split: option.split bind_split)
qed

lemma lin_put_pad_eq: "lin_put_pad c n out s = put_padding c n out s"
  by (induction n arbitrary: s) (simp_all split: option.split bind_split)

lemma lin_put_eqs: "lin_put_chars buf p n out = put_text buf p n out" "lin_put_pad c n out = put_padding c n out"
  by (simp_all add: fun_eq_iff lin_put_chars_eq lin_put_pad_eq)

lemma lin_format_str_eq: "lin_format_str = format_str"
  by (intro ext) (simp add: lin_format_str_def format_str_def Let_def lin_fmt_eqs lin_put_eqs)

lemma lin_pop_int_eq: "lin_pop_int = pop_int"
  by (intro ext) (simp add: lin_pop_int_def pop_int_def lin_fmt_eqs)

lemma lin_format_word_eq: "lin_format_word = format_word"
  by (intro ext) (simp add: lin_format_word_def format_word_def lin_format_number_eq lin_format_str_eq)

lemma lin_format_int_eq: "lin_format_int = format_int"
  by (intro ext) (simp add: lin_format_int_def format_int_def lin_pop_int_eq lin_format_word_eq)

lemmas lin_eqs = lin_format_number_eq lin_format_str_eq lin_pop_int_eq lin_format_word_eq lin_format_int_eq lin_fmt_eqs lin_number_chars_eq

lemma lin_format_conv_eq: "c \<noteq> ch CHR ''c'' \<Longrightarrow> lin_format_conv c fs ap out s = format_conv c fs ap out s"
  unfolding lin_format_conv_def format_conv_def lin_eqs by simp

lemma lin_format_flag_eq: "lin_format_flag = format_flag"
  unfolding fun_eq_iff lin_format_flag_def format_flag_def format_width_digit_def format_flag_long_def lin_fmt_eqs Let_def
  by (intro allI if_cong refl) simp_all

text \<open>Whether a directive of the format string converts a character (\<^verbatim>\<open>%c\<close>): \<open>spec_at\<close> is the offset of the conversion
  specifier behind the flags and digits at \<open>p\<close>.\<close>

function spec_at :: "u8 list \<Rightarrow> nat \<Rightarrow> nat option" where
  "spec_at fmt p =
     (if p < length fmt then (if fmt ! p \<in> set (bytes_of ''0123456789.-l'') then spec_at fmt (Suc p) else Some p) else None)"
  by pat_completeness auto
termination
  by (relation "measure (\<lambda>(fmt, p). length fmt - p)") auto

declare spec_at.simps [simp del]

lemma spec_at_less: "spec_at fmt p = Some q \<Longrightarrow> p \<le> q \<and> q < length fmt"
proof (induction fmt p rule: spec_at.induct)
  case (1 fmt p)
  from 1(2) show ?case by (subst (asm) spec_at.simps) (auto split: if_splits dest: 1(1))
qed

function converts_char :: "u8 list \<Rightarrow> nat \<Rightarrow> bool" where
  "converts_char fmt p =
     (if p < length fmt then
        (if fmt ! p = 0 then False
         else if fmt ! p \<noteq> ch CHR ''%'' then converts_char fmt (Suc p)
         else case spec_at fmt (Suc p) of
                None \<Rightarrow> False
              | Some q \<Rightarrow> fmt ! q = ch CHR ''c'' \<or> converts_char fmt (Suc q))
      else False)"
  by pat_completeness auto
termination
  by (relation "measure (\<lambda>(fmt, p). length fmt - p)") (auto dest: spec_at_less)

declare converts_char.simps [simp del]

lemma format_flag_None: "format_flag c fs = None \<longleftrightarrow> c \<notin> set (bytes_of ''0123456789.-l'')"
proof -
  have "ch CHR ''0'' \<le> c \<and> c \<le> ch CHR ''9'' \<longleftrightarrow> c \<in> {0x30, 0x31, 0x32, 0x33, 0x34, 0x35, 0x36, 0x37, 0x38, 0x39}"
  proof -
    have "unat c \<in> {48..57} \<longleftrightarrow> unat c \<in> {48, 49, 50, 51, 52, 53, 54, 55, 56, 57}" by (simp, presburger)
    then show ?thesis by (simp add: ch_def word_le_nat_alt word_unat_eq_iff)
  qed
  then show ?thesis by (auto simp: format_flag_def bytes_of_def ch_def)
qed

lemma format_loop_spec:
  "format_loop fmt p fs ap out s = Some (p', ap', s') \<Longrightarrow> \<exists>q. spec_at fmt p = Some q \<and> p' = Suc q"
proof (induction fmt p fs ap out s rule: format_loop.induct)
  case (1 fmt p fs ap out s)
  show ?case
  proof (cases "format_flag (fmt ! p) fs")
    case None
    then show ?thesis using 1(2) format_flag_None [of "fmt ! p" fs]
      by (subst (asm) format_loop.simps) (auto simp: spec_at.simps [of fmt p] split: if_splits)
  next
    case (Some fs')
    then have "p < length fmt" "format_loop fmt (Suc p) fs' ap out s = Some (p', ap', s')"
      using 1(2) by (subst (asm) format_loop.simps, simp split: if_splits)+
    then show ?thesis using 1(1) [OF _ Some] format_flag_None [of "fmt ! p" fs] Some by (simp add: spec_at.simps [of fmt p])
  qed
qed

lemma lin_format_loop_eq:
  "\<forall>q. spec_at fmt p = Some q \<longrightarrow> fmt ! q \<noteq> ch CHR ''c'' \<Longrightarrow> lin_format_loop fmt p fs ap out s = format_loop fmt p fs ap out s"
proof (induction fmt p fs ap out s rule: format_loop.induct)
  case (1 fmt p fs ap out s)
  show ?case
  proof (cases "p < length fmt")
    case False
    then show ?thesis by (simp add: lin_format_loop.simps [of fmt p] format_loop.simps [of fmt p])
  next
    case True
    show ?thesis
    proof (cases "format_flag (fmt ! p) fs")
      case None
      then have "fmt ! p \<noteq> ch CHR ''c''" using 1(2) True format_flag_None [of "fmt ! p" fs] by (simp add: spec_at.simps [of fmt p])
      then show ?thesis
        using True None by (simp add: lin_format_loop.simps [of fmt p] format_loop.simps [of fmt p] lin_format_flag_eq lin_format_conv_eq)
    next
      case (Some fs')
      have "spec_at fmt p = spec_at fmt (Suc p)" using Some True format_flag_None [of "fmt ! p" fs] by (simp add: spec_at.simps [of fmt p])
      then have "lin_format_loop fmt (Suc p) fs' ap out s = format_loop fmt (Suc p) fs' ap out s" using 1(1) [OF True Some] 1(2) by simp
      then show ?thesis using True Some by (simp add: lin_format_loop.simps [of fmt p] format_loop.simps [of fmt p] lin_format_flag_eq)
    qed
  qed
qed

lemma lin_vsprintf_output_eq: "lin_vsprintf_output = vsprintf_output"
  by (intro ext) (simp add: lin_vsprintf_output_def vsprintf_output_def)

lemma lin_vsnprintf_loop_eq:
  "\<not> converts_char fmt p \<Longrightarrow> lin_vsnprintf_loop fmt p ap st = vsnprintf_loop fmt p ap st"
proof (induction fmt p ap st rule: vsnprintf_loop.induct)
  case (1 fmt p ap st)
  consider "\<not> p < length fmt \<or> fmt ! p = 0" | "p < length fmt" "fmt ! p \<noteq> 0" "fmt ! p \<noteq> ch CHR ''%''" | "p < length fmt" "fmt ! p = ch CHR ''%''" by blast
  then show ?case
  proof cases
    case 1
    then show ?thesis by (auto simp: lin_vsnprintf_loop.simps [of fmt p] vsnprintf_loop.simps [of fmt p])
  next
    case 2
    then have "\<not> converts_char fmt (Suc p)" using 1(3) by (simp add: converts_char.simps [of fmt p])
    then show ?thesis
      using 2 1(1) by (simp add: lin_vsnprintf_loop.simps [of fmt p] vsnprintf_loop.simps [of fmt p] lin_vsprintf_output_eq Let_def split: option.split)
  next
    case 3
    then have "ch CHR ''%'' \<noteq> 0" by (simp add: ch_def)
    then have no: "\<forall>q. spec_at fmt (Suc p) = Some q \<longrightarrow> fmt ! q \<noteq> ch CHR ''c'' \<and> \<not> converts_char fmt (Suc q)"
      using 1(3) 3 by (auto simp: converts_char.simps [of fmt p])
    then have f: "lin_format fmt (Suc p) ap vsprintf_output st = format fmt (Suc p) ap vsprintf_output st"
      by (simp add: lin_format_def format_def lin_format_loop_eq)
    have "lin_vsnprintf_loop fmt p' ap' st' = vsnprintf_loop fmt p' ap' st'"
      if f': "format fmt (Suc p) ap vsprintf_output st = Some (p', ap', st')" for p' ap' st'
    proof -
      obtain q where "spec_at fmt (Suc p) = Some q" "p' = Suc q" using f' [unfolded format_def, THEN format_loop_spec] by blast
      then show ?thesis using 1(2) 3 f' no \<open>ch CHR ''%'' \<noteq> 0\<close> by simp
    qed
    then show ?thesis
      using 3 f \<open>ch CHR ''%'' \<noteq> 0\<close>
      by (auto simp: lin_vsnprintf_loop.simps [of fmt p] vsnprintf_loop.simps [of fmt p] lin_vsprintf_output_eq Let_def split: option.split)
  qed
qed

lemma lin_vsnprintf_agrees: "\<not> converts_char fmt 0 \<Longrightarrow> lin_vsnprintf str sz fmt ap = vsnprintf str sz fmt ap"
  by (simp add: lin_vsnprintf_def vsnprintf_def lin_vsnprintf_loop_eq)

subsection \<open>Properties\<close>

text \<open>C30: on a format string none of whose directives is \<^verbatim>\<open>%c\<close>, flags and digits included, \<open>snprintf\<close> of the user
  library computes exactly what the kernel's does: result, buffer and undefined behaviour.\<close>

theorem stdio_agrees_with_kernel:
  assumes "\<not> converts_char fmt 0"
  shows "lin_snprintf str sz fmt args = snprintf str sz fmt args"
  using lin_vsnprintf_agrees [OF assms] by (simp add: lin_snprintf_def snprintf_def)

theorem stdio_agrees_with_kernel_witness:
  "lin_snprintf (replicate 8 0) 8 (bytes_of ''c=%3u'' @ [0]) [VaWord 42]
     = snprintf (replicate 8 0) 8 (bytes_of ''c=%3u'' @ [0]) [VaWord 42]
   \<and> snprintf (replicate 8 0) 8 (bytes_of ''c=%3u'' @ [0]) [VaWord 42] = Some (5, bytes_of ''c= 42'' @ [0, 0, 0])"
proof
  have "\<not> converts_char (bytes_of ''c=%3u'' @ [0]) 0" by code_simp
  then show "lin_snprintf (replicate 8 0) 8 (bytes_of ''c=%3u'' @ [0]) [VaWord 42]
     = snprintf (replicate 8 0) 8 (bytes_of ''c=%3u'' @ [0]) [VaWord 42]"
    by (rule stdio_agrees_with_kernel)
  show "snprintf (replicate 8 0) 8 (bytes_of ''c=%3u'' @ [0]) [VaWord 42] = Some (5, bytes_of ''c= 42'' @ [0, 0, 0])"
    by code_simp
qed

lemma put_all_unbounded:
  "length t < 2 ^ 64 \<Longrightarrow> put_all t vsprintf_output \<lparr>vs_str = str, vs_pos = 0, vs_size = - 1\<rparr> =
     (if length t \<le> length str
      then Some \<lparr>vs_str = t @ drop (length t) str, vs_pos = of_nat (length t), vs_size = - 1\<rparr> else None)"
proof (induction t rule: rev_induct)
  case Nil
  then show ?case by simp
next
  case (snoc c t)
  have pos: "unat (of_nat (length t) :: u64) = length t"
    using snoc.prems by (intro unat_of_nat64) simp
  have lt: "(of_nat (length t) :: u64) < - 1"
    using snoc.prems by (simp add: word_less_nat_alt pos unsigned_minus_1_eq_mask mask_eq_exp_minus_1)
  have "(t @ drop (length t) str)[length t := c] = t @ c # drop (Suc (length t)) str" if "length t < length str"
    using that by (simp add: list_update_append drop_eq_nth_Cons)
  with snoc lt pos show ?case
    by (auto simp: put_all_append vsprintf_output_def wr_def Suc_le_eq)
qed

lemma vsprintf_eq:
  assumes "va_ok ap" and "fmt_text fmt 0 ap = Some t" and "length t < 2 ^ 31"
  shows "vsprintf str fmt ap =
     (if length t < length str then Some (int (length t), t @ 0 # drop (Suc (length t)) str) else None)"
proof -
  have pos: "unat (of_nat (length t) :: u64) = length t" and "length t < 2 ^ 64"
    using assms(3) by (auto intro: unat_of_nat64)
  note out = put_all_unbounded [OF \<open>length t < 2 ^ 64\<close>]
  have "\<not> (- 1 :: u64) < of_nat (length t)" by (simp add: not_less)
  moreover have "(t @ drop (length t) str)[length t := 0] = t @ 0 # drop (Suc (length t)) str" if "length t < length str"
    using that by (simp add: list_update_append drop_eq_nth_Cons)
  ultimately show ?thesis
    using assms pos by (auto simp: vsprintf_def vsnprintf_def vsnprintf_loop_all out c_int_of_size_small wr_def)
qed

text \<open>\<open>printf\<close> of the user library hands \<open>console_print\<close> the text of the format
  string, with its length, if the text with its terminator fits the 1024 bytes of the array on its
  stack; a longer text overflows the array. It returns 0 in every case.\<close>

lemma stdio_printf_stack_buffer:
  assumes "\<not> converts_char fmt 0" and "va_ok args" and "fmt_text fmt 0 args = Some t" and "length t < 2 ^ 31"
    and "length text0 = 1024"
  shows "lin_printf console_print text0 fmt args k =
     (if length t < 1024
      then map_option (\<lambda>k'. (0, k')) (console_print (t @ 0 # drop (Suc (length t)) text0) (length t) k)
      else None)"
proof -
  have "lin_vsprintf text0 fmt args = vsprintf text0 fmt args"
    using lin_vsnprintf_agrees [OF assms(1)] by (simp add: lin_vsprintf_def vsprintf_def)
  moreover have "unat (word_of_int (int (length t)) :: u64) = length t"
    using assms(4) by (simp add: unat_of_nat64)
  ultimately show ?thesis
    using vsprintf_eq [OF assms(2,3,4), of text0] assms(5)
    by (simp add: lin_printf_def lin_vprintf_def vfprintf_def map_option_case split: option.splits bind_splits)
qed

lemma stdio_printf_stack_buffer_example:
  "lin_printf (\<lambda>bs n k. Some (k @ take n bs)) (replicate 1024 0xff) (bytes_of ''port %u'' @ [0]) [VaWord 7] []
     = Some (0, bytes_of ''port 7'')"
proof -
  have t: "fmt_text (bytes_of ''port %u'' @ [0]) 0 [VaWord 7] = Some (bytes_of ''port 7'')"
    by code_simp
  have c: "\<not> converts_char (bytes_of ''port %u'' @ [0]) 0" by code_simp
  have len: "length (bytes_of ''port 7'') = 6" by (simp add: bytes_of_def)
  show ?thesis
    using stdio_printf_stack_buffer [OF c _ t, of "replicate 1024 0xff" "\<lambda>bs n k. Some (k @ take n bs)" "[]"] len
    by (simp add: va_ok_def)
qed

end
