(* ===== verification/ArpCache.thy ===== *)
theory ArpCache
  imports Libc
begin

text \<open>
  The ARP cache of the user-level network stack (\<^verbatim>\<open>usr/liblinux/src/internal/arp_cache.c\<close>):
  a table of 128 entries with multiplicative hashing and linear probing, where address 0
  marks a free entry. The contract is that of a finite map from addresses to hardware
  addresses with room for 128 of them.
\<close>

subsection \<open>State and operations\<close>

record arp_cache_entry =
  ae_ip_addr :: u32
  ae_mac_addr :: "u8 list"

definition ETH_ALEN :: nat where "ETH_ALEN = 6"
abbreviation ARP_CACHE_SHIFT :: nat where "ARP_CACHE_SHIFT \<equiv> 7"
definition ARP_CACHE_SIZE :: nat where "ARP_CACHE_SIZE = 2 ^ ARP_CACHE_SHIFT"

type_synonym arp_cache = "arp_cache_entry list"

definition arp_cache_init :: "arp_cache \<Rightarrow> arp_cache" where
  "arp_cache_init cache = replicate (length cache) \<lparr>ae_ip_addr = 0, ae_mac_addr = replicate ETH_ALEN 0\<rparr>"

definition arp_hash :: "u32 \<Rightarrow> u32" where
  "arp_hash ip_addr = drop_bit (32 - ARP_CACHE_SHIFT) (ip_addr * 2654435761)"

text \<open>The loop of \<open>find_entry\<close> with \<open>n\<close> iterations left: the index of the entry, the inner
  \<open>None\<close> for \<^verbatim>\<open>NULL\<close>.\<close>

fun find_entry_from :: "arp_cache \<Rightarrow> u32 \<Rightarrow> u32 \<Rightarrow> u32 \<Rightarrow> nat \<Rightarrow> nat option option" where
  "find_entry_from cache ip_addr hash count 0 = Some None"
| "find_entry_from cache ip_addr hash count (Suc n) =
     (let idx = unat ((hash + count) AND (of_nat ARP_CACHE_SIZE - 1))
      in case rd cache idx of None \<Rightarrow> None
         | Some e \<Rightarrow> if ae_ip_addr e = ip_addr then Some (Some idx)
                    else find_entry_from cache ip_addr hash (count + 1) n)"

definition find_entry :: "arp_cache \<Rightarrow> u32 \<Rightarrow> u32 \<Rightarrow> nat option option" where
  "find_entry cache ip_addr hash = find_entry_from cache ip_addr hash 0 ARP_CACHE_SIZE"

definition find_occupied_entry :: "arp_cache \<Rightarrow> u32 \<Rightarrow> nat option option" where
  "find_occupied_entry cache ip_addr = find_entry cache ip_addr (arp_hash ip_addr)"

definition find_empty_entry :: "arp_cache \<Rightarrow> u32 \<Rightarrow> nat option option" where
  "find_empty_entry cache ip_addr = find_entry cache 0 (arp_hash ip_addr)"

text \<open>A null \<open>entry\<close> is written through, which is undefined.\<close>

definition arp_cache_insert :: "arp_cache \<Rightarrow> u32 \<Rightarrow> u8 list \<Rightarrow> arp_cache option" where
  "arp_cache_insert cache ip_addr mac_addr =
     do { occupied \<leftarrow> find_occupied_entry cache ip_addr;
          entry \<leftarrow> (case occupied of Some i \<Rightarrow> Some (Some i) | None \<Rightarrow> find_empty_entry cache ip_addr);
          i \<leftarrow> entry;
          e \<leftarrow> rd cache i;
          mac \<leftarrow> memcpy (ae_mac_addr e) 0 mac_addr 0 ETH_ALEN;
          wr cache i (e\<lparr>ae_ip_addr := ip_addr, ae_mac_addr := mac\<rparr>) }"

definition arp_cache_lookup :: "arp_cache \<Rightarrow> u32 \<Rightarrow> u8 list option option" where
  "arp_cache_lookup cache ip_addr =
     do { occupied \<leftarrow> find_occupied_entry cache ip_addr;
          case occupied of None \<Rightarrow> Some None
          | Some i \<Rightarrow> do { e \<leftarrow> rd cache i;
                          Some (if ae_ip_addr e = ip_addr then Some (ae_mac_addr e) else None) } }"

subsection \<open>Probing visits every entry\<close>

definition arp_wf :: "arp_cache \<Rightarrow> bool" where
  "arp_wf cache \<longleftrightarrow> length cache = ARP_CACHE_SIZE \<and> (\<forall>e\<in>set cache. length (ae_mac_addr e) = ETH_ALEN)
     \<and> (\<forall>i<length cache. \<forall>j<length cache. ae_ip_addr (cache ! i) \<noteq> 0 \<longrightarrow>
           ae_ip_addr (cache ! i) = ae_ip_addr (cache ! j) \<longrightarrow> i = j)"

lemma ARP_CACHE_SIZE_eq: "ARP_CACHE_SIZE = 128"
  by (simp add: ARP_CACHE_SIZE_def)

lemma probe_index: "unat ((hash + count) AND (of_nat ARP_CACHE_SIZE - 1)) = (unat hash + unat count) mod 128"
  for hash count :: u32
proof -
  have m: "(of_nat ARP_CACHE_SIZE - 1 :: u32) = mask 7"
    by (simp add: ARP_CACHE_SIZE_eq mask_eq_exp_minus_1)
  have "unat ((hash + count) AND mask 7) = unat (hash + count) mod 128"
    by (simp add: unat_mask_and)
  also have "\<dots> = (unat hash + unat count) mod 128"
    by (simp add: unat_word_ariths mod_mod_cancel)
  finally show ?thesis unfolding m .
qed

lemma find_entry_from_spec:
  assumes "length cache = 128" and "c + n = 128"
  shows "\<exists>r. find_entry_from cache ip hash (of_nat c) n = Some r
    \<and> (case r of Some i \<Rightarrow> i < 128 \<and> ae_ip_addr (cache ! i) = ip
       | None \<Rightarrow> \<forall>k. c \<le> k \<and> k < 128 \<longrightarrow> ae_ip_addr (cache ! ((unat hash + k) mod 128)) \<noteq> ip)"
  using assms(2)
proof (induction n arbitrary: c)
  case 0
  then show ?case by auto
next
  case (Suc n)
  define i where "i = (unat hash + c) mod 128"
  have c: "unat (of_nat c :: u32) = c" using Suc.prems by (simp add: unat_of_nat)
  have i: "i < 128" by (simp add: i_def)
  have step: "find_entry_from cache ip hash (of_nat c) (Suc n) =
     (if ae_ip_addr (cache ! i) = ip then Some (Some i) else find_entry_from cache ip hash (of_nat (Suc c)) n)"
    using i assms(1) by (simp add: probe_index c i_def add.commute)
  obtain r where r: "find_entry_from cache ip hash (of_nat (Suc c)) n = Some r"
      "case r of Some i \<Rightarrow> i < 128 \<and> ae_ip_addr (cache ! i) = ip
       | None \<Rightarrow> \<forall>k. Suc c \<le> k \<and> k < 128 \<longrightarrow> ae_ip_addr (cache ! ((unat hash + k) mod 128)) \<noteq> ip"
    using Suc.IH [of "Suc c"] Suc.prems by auto
  show ?case
  proof (cases "ae_ip_addr (cache ! i) = ip")
    case True
    with i show ?thesis unfolding step by auto
  next
    case False
    have "ae_ip_addr (cache ! ((unat hash + k) mod 128)) \<noteq> ip" if "r = None" "c \<le> k" "k < 128" for k
      using False r(2) that by (cases "k = c") (auto simp: i_def)
    with False r show ?thesis
      unfolding step by (auto split: option.splits)
  qed
qed

lemma probe_covers:
  fixes h i :: nat
  assumes "i < 128"
  shows "\<exists>k<128. (h + k) mod 128 = i"
proof (intro exI conjI)
  show "(i + (128 - h mod 128)) mod 128 < 128" by simp
  have "(h + (i + (128 - h mod 128)) mod 128) mod 128 = (h mod 128 + (i + (128 - h mod 128))) mod 128"
    by (metis mod_add_left_eq mod_add_right_eq)
  also have "h mod 128 + (i + (128 - h mod 128)) = i + 128" by simp
  finally show "(h + (i + (128 - h mod 128)) mod 128) mod 128 = i" using assms by simp
qed

lemma find_entry_spec:
  assumes "length cache = ARP_CACHE_SIZE"
  shows "\<exists>r. find_entry cache ip hash = Some r
    \<and> (case r of Some i \<Rightarrow> i < length cache \<and> ae_ip_addr (cache ! i) = ip
       | None \<Rightarrow> ip \<notin> ae_ip_addr ` set cache)"
proof -
  have len: "length cache = 128" using assms by (simp add: ARP_CACHE_SIZE_eq)
  obtain r where r: "find_entry cache ip hash = Some r"
      "case r of Some i \<Rightarrow> i < 128 \<and> ae_ip_addr (cache ! i) = ip
       | None \<Rightarrow> \<forall>k. 0 \<le> k \<and> k < 128 \<longrightarrow> ae_ip_addr (cache ! ((unat hash + k) mod 128)) \<noteq> ip"
    using find_entry_from_spec [OF len, of 0 128 ip hash] by (auto simp: find_entry_def ARP_CACHE_SIZE_eq)
  have "ip \<notin> ae_ip_addr ` set cache"
    if "\<forall>k<128. ae_ip_addr (cache ! ((unat hash + k) mod 128)) \<noteq> ip"
    using that probe_covers [of _ "unat hash"] len by (force simp: in_set_conv_nth)
  with r len show ?thesis by (auto split: option.splits)
qed

subsection \<open>The finite map it represents\<close>

definition arp_used :: "arp_cache \<Rightarrow> nat" where
  "arp_used cache = length (filter (\<lambda>e. ae_ip_addr e \<noteq> 0) cache)"

lemma arp_lookup_entry:
  assumes "arp_wf cache" and "ip \<noteq> 0" and "i < length cache" and "ae_ip_addr (cache ! i) = ip"
  shows "arp_cache_lookup cache ip = Some (Some (ae_mac_addr (cache ! i)))"
proof -
  have len: "length cache = ARP_CACHE_SIZE" using assms(1) by (simp add: arp_wf_def)
  have mem: "ip \<in> ae_ip_addr ` set cache" using assms(3,4) by (metis imageI nth_mem)
  obtain r where r: "find_entry cache ip (arp_hash ip) = Some r"
      "case r of Some i \<Rightarrow> i < length cache \<and> ae_ip_addr (cache ! i) = ip | None \<Rightarrow> ip \<notin> ae_ip_addr ` set cache"
    using find_entry_spec [OF len] by blast
  then obtain j where j: "r = Some j" "j < length cache" "ae_ip_addr (cache ! j) = ip"
    using mem by (cases r) auto
  moreover have "j = i" using assms j unfolding arp_wf_def by metis
  ultimately show ?thesis
    using r(1) by (simp add: arp_cache_lookup_def find_occupied_entry_def)
qed

lemma arp_lookup_absent:
  assumes "arp_wf cache" and "ip \<notin> ae_ip_addr ` set cache"
  shows "arp_cache_lookup cache ip = Some None"
proof -
  have len: "length cache = ARP_CACHE_SIZE" using assms(1) by (simp add: arp_wf_def)
  obtain r where r: "find_entry cache ip (arp_hash ip) = Some r"
      "case r of Some i \<Rightarrow> i < length cache \<and> ae_ip_addr (cache ! i) = ip | None \<Rightarrow> ip \<notin> ae_ip_addr ` set cache"
    using find_entry_spec [OF len] by blast
  then have "r = None"
    using assms(2) by (cases r) (auto dest: nth_mem)
  with r(1) show ?thesis by (simp add: arp_cache_lookup_def find_occupied_entry_def)
qed

lemma arp_entry_update:
  "e\<lparr>ae_ip_addr := ip, ae_mac_addr := mac\<rparr> = \<lparr>ae_ip_addr = ip, ae_mac_addr = mac\<rparr>"
  by (cases e) simp

lemma arp_insert_entry:
  assumes "arp_wf cache" and "length mac = ETH_ALEN" and "ip \<in> ae_ip_addr ` set cache \<or> 0 \<in> ae_ip_addr ` set cache"
  shows "\<exists>i. arp_cache_insert cache ip mac = Some (cache[i := \<lparr>ae_ip_addr = ip, ae_mac_addr = mac\<rparr>])
     \<and> i < length cache
     \<and> (ae_ip_addr (cache ! i) = ip \<or> ae_ip_addr (cache ! i) = 0 \<and> ip \<notin> ae_ip_addr ` set cache)"
proof -
  have len: "length cache = ARP_CACHE_SIZE" using assms(1) by (simp add: arp_wf_def)
  obtain r where r: "find_entry cache ip (arp_hash ip) = Some r"
      "case r of Some i \<Rightarrow> i < length cache \<and> ae_ip_addr (cache ! i) = ip | None \<Rightarrow> ip \<notin> ae_ip_addr ` set cache"
    using find_entry_spec [OF len] by blast
  obtain z where z: "find_entry cache 0 (arp_hash ip) = Some z"
      "case z of Some i \<Rightarrow> i < length cache \<and> ae_ip_addr (cache ! i) = 0 | None \<Rightarrow> 0 \<notin> ae_ip_addr ` set cache"
    using find_entry_spec [OF len] by blast
  have store: "arp_cache_insert cache ip mac = Some (cache[i := \<lparr>ae_ip_addr = ip, ae_mac_addr = mac\<rparr>])"
    if i: "(case r of Some i \<Rightarrow> Some (Some i) | None \<Rightarrow> Some z) = Some (Some i)" and "i < length cache" for i
  proof -
    have "length (ae_mac_addr (cache ! i)) = ETH_ALEN"
      using assms(1) that(2) by (simp add: arp_wf_def)
    then have "memcpy (ae_mac_addr (cache ! i)) 0 mac 0 ETH_ALEN = Some mac"
      using assms(2) by (simp add: memcpy_eq)
    then show ?thesis
      using i that(2) r(1) z(1)
      by (auto simp: arp_cache_insert_def find_occupied_entry_def find_empty_entry_def arp_entry_update split: option.splits)
  qed
  show ?thesis
  proof (cases r)
    case (Some i)
    then show ?thesis using store [of i] r(2) by auto
  next
    case None
    then obtain i where "z = Some i" "i < length cache" "ae_ip_addr (cache ! i) = 0"
      using assms(3) r(2) z(2) by (cases z) auto
    then show ?thesis using store [of i] None r(2) by auto
  qed
qed

lemma arp_update_wf:
  assumes "arp_wf cache" and "ip \<noteq> 0" and "length mac = ETH_ALEN" and "i < length cache"
    and "ae_ip_addr (cache ! i) = ip \<or> ip \<notin> ae_ip_addr ` set cache"
  shows "arp_wf (cache[i := \<lparr>ae_ip_addr = ip, ae_mac_addr = mac\<rparr>])"
proof -
  have uniq: "j = i" if "j < length cache" "ae_ip_addr (cache ! j) = ip" for j
    using assms that unfolding arp_wf_def by (metis imageI nth_mem)
  define c' where "c' = cache[i := \<lparr>ae_ip_addr = ip, ae_mac_addr = mac\<rparr>]"
  have ips: "ae_ip_addr (c' ! a) = (if a = i then ip else ae_ip_addr (cache ! a))" if "a < length cache" for a
    using that by (simp add: c'_def nth_list_update)
  have U: "a = b" if "a < length cache" "b < length cache" "ae_ip_addr (cache ! a) \<noteq> 0"
      "ae_ip_addr (cache ! a) = ae_ip_addr (cache ! b)" for a b
    using assms(1) that unfolding arp_wf_def by blast
  have len: "length c' = length cache" by (simp add: c'_def)
  have "a = b" if "a < length c'" "b < length c'" "ae_ip_addr (c' ! a) \<noteq> 0" "ae_ip_addr (c' ! a) = ae_ip_addr (c' ! b)" for a b
    using that unfolding len by (cases "a = i"; cases "b = i") (auto simp: ips dest: uniq U)
  moreover have "set c' \<subseteq> insert \<lparr>ae_ip_addr = ip, ae_mac_addr = mac\<rparr> (set cache)"
    unfolding c'_def by (rule set_update_subset_insert)
  then have "\<forall>e\<in>set c'. length (ae_mac_addr e) = ETH_ALEN"
    using assms(1,3) unfolding arp_wf_def by auto
  moreover have "length c' = ARP_CACHE_SIZE"
    using assms(1) by (simp add: arp_wf_def len)
  ultimately show ?thesis
    unfolding arp_wf_def c'_def [symmetric] by blast
qed

lemma arp_used_update:
  assumes "i < length cache" and "ae_ip_addr (cache ! i) = ip \<or> ae_ip_addr (cache ! i) = 0" and "ip \<noteq> 0"
  shows "arp_used (cache[i := \<lparr>ae_ip_addr = ip, ae_mac_addr = mac\<rparr>]) = arp_used cache + (if ae_ip_addr (cache ! i) = ip then 0 else 1)"
proof -
  have split: "arp_used (take i cache @ e # drop (Suc i) cache) =
      arp_used (take i cache) + (if ae_ip_addr e = 0 then 0 else 1) + arp_used (drop (Suc i) cache)" for e
    by (simp add: arp_used_def)
  have "arp_used cache = arp_used (take i cache @ cache ! i # drop (Suc i) cache)"
    using id_take_nth_drop [OF assms(1)] by (rule arg_cong)
  then show ?thesis
    using assms unfolding upd_conv_take_nth_drop [OF assms(1)] split by auto
qed

lemma arp_has_free:
  assumes "arp_wf cache" and "arp_used cache < ARP_CACHE_SIZE"
  shows "0 \<in> ae_ip_addr ` set cache"
proof (rule ccontr)
  assume "0 \<notin> ae_ip_addr ` set cache"
  then have "filter (\<lambda>e. ae_ip_addr e \<noteq> 0) cache = cache"
    by (intro filter_True) force
  with assms show False by (simp add: arp_used_def arp_wf_def)
qed

subsection \<open>The contract of a bounded map\<close>

fun insert_all :: "('m \<Rightarrow> 'k \<Rightarrow> 'v \<Rightarrow> 'm option) \<Rightarrow> 'm \<Rightarrow> ('k \<times> 'v) list \<Rightarrow> 'm option" where
  "insert_all ins m [] = Some m"
| "insert_all ins m ((k, v) # kvs) = do { m' \<leftarrow> ins m k v; insert_all ins m' kvs }"

definition keys_of :: "('k \<times> 'v) list \<Rightarrow> 'k set" where
  "keys_of kvs = fst ` set kvs"

locale bounded_map =
  fixes wf :: "'m \<Rightarrow> bool" and used :: "'m \<Rightarrow> nat" and cap :: nat
    and key :: "'k \<Rightarrow> bool" and val :: "'v \<Rightarrow> bool"
    and look :: "'m \<Rightarrow> 'k \<Rightarrow> 'v option option" and ins :: "'m \<Rightarrow> 'k \<Rightarrow> 'v \<Rightarrow> 'm option"
  assumes look_total: "wf m \<Longrightarrow> key k \<Longrightarrow> look m k \<noteq> None"
    and used_cap: "wf m \<Longrightarrow> used m \<le> cap"
    and ins_room: "wf m \<Longrightarrow> key k \<Longrightarrow> val v \<Longrightarrow> used m < cap \<or> look m k \<noteq> Some None \<Longrightarrow>
      \<exists>m'. ins m k v = Some m' \<and> wf m' \<and> used m' = used m + (if look m k = Some None then 1 else 0)
        \<and> look m' k = Some (Some v) \<and> (\<forall>j. key j \<longrightarrow> j \<noteq> k \<longrightarrow> look m' j = look m j)"
    and ins_full: "wf m \<Longrightarrow> key k \<Longrightarrow> used m = cap \<Longrightarrow> look m k = Some None \<Longrightarrow> ins m k v = None"
begin

text \<open>What an insertion adds to the entries in use, it takes from the keys that are still to come.\<close>

lemma ins_budget:
  assumes "wf m" and "\<forall>(k, v)\<in>set ((k, v) # kvs). key k \<and> val v" and "used m < cap \<or> look m k \<noteq> Some None"
  shows "\<exists>m'. ins m k v = Some m' \<and> wf m' \<and> look m' k = Some (Some v) \<and> (\<forall>j. key j \<longrightarrow> j \<noteq> k \<longrightarrow> look m' j = look m j)
    \<and> used m' + card {j \<in> keys_of kvs. look m' j = Some None} = used m + card {j \<in> keys_of ((k, v) # kvs). look m j = Some None}"
proof -
  obtain m' where m': "ins m k v = Some m'" "wf m'" "used m' = used m + (if look m k = Some None then 1 else 0)"
      "look m' k = Some (Some v)" "\<forall>j. key j \<longrightarrow> j \<noteq> k \<longrightarrow> look m' j = look m j"
    using ins_room [of m k v] assms by auto
  let ?A = "{j \<in> keys_of ((k, v) # kvs). look m j = Some None}"
  have "{j \<in> keys_of kvs. look m' j = Some None} = ?A - {k}"
    using m'(4,5) assms(2) by (auto simp: keys_of_def)
  moreover have "finite ?A" by (simp add: keys_of_def)
  moreover have "k \<in> ?A \<longleftrightarrow> look m k = Some None" by (simp add: keys_of_def)
  ultimately have "used m' + card {j \<in> keys_of kvs. look m' j = Some None} = used m + card ?A"
    using m'(3) card_Suc_Diff1 [of ?A k] by (cases "look m k = Some None") auto
  with m' show ?thesis by blast
qed

lemma insert_all_lookup:
  assumes "wf m" and "\<forall>(k, v)\<in>set kvs. key k \<and> val v" and "used m + card {j \<in> keys_of kvs. look m j = Some None} \<le> cap"
  shows "\<exists>m'. insert_all ins m kvs = Some m' \<and> wf m' \<and>
    (\<forall>j. key j \<longrightarrow> look m' j = (case map_of (rev kvs) j of Some v \<Rightarrow> Some (Some v) | None \<Rightarrow> look m j))"
  using assms
proof (induction kvs arbitrary: m)
  case Nil
  then show ?case by simp
next
  case (Cons kv kvs)
  obtain k v where kv: "kv = (k, v)" by (cases kv)
  have "used m < cap" if "look m k = Some None"
  proof -
    have "k \<in> {j \<in> keys_of (kv # kvs). look m j = Some None}" using that by (simp add: kv keys_of_def)
    moreover have "finite {j \<in> keys_of (kv # kvs). look m j = Some None}" by (simp add: keys_of_def)
    ultimately have "0 < card {j \<in> keys_of (kv # kvs). look m j = Some None}" unfolding card_gt_0_iff by blast
    then show ?thesis using Cons.prems(3) by simp
  qed
  then obtain m1 where m1: "ins m k v = Some m1" "wf m1" "look m1 k = Some (Some v)"
      "\<forall>j. key j \<longrightarrow> j \<noteq> k \<longrightarrow> look m1 j = look m j"
      "used m1 + card {j \<in> keys_of kvs. look m1 j = Some None} = used m + card {j \<in> keys_of (kv # kvs). look m j = Some None}"
    using ins_budget [of m k v kvs] Cons.prems(1,2) unfolding kv by blast
  obtain m' where "insert_all ins m1 kvs = Some m'" "wf m'"
      "\<forall>j. key j \<longrightarrow> look m' j = (case map_of (rev kvs) j of Some v \<Rightarrow> Some (Some v) | None \<Rightarrow> look m1 j)"
    using Cons.IH [of m1] m1 Cons.prems by auto
  with m1 show ?case
    by (auto simp: kv map_add_def split: option.splits)
qed

lemma insert_all_full:
  assumes "wf m" and "\<forall>(k, v)\<in>set kvs. key k \<and> val v" and "cap < used m + card {j \<in> keys_of kvs. look m j = Some None}"
  shows "insert_all ins m kvs = None"
  using assms
proof (induction kvs arbitrary: m)
  case Nil
  then show ?case using used_cap [of m] by (simp add: keys_of_def)
next
  case (Cons kv kvs)
  obtain k v where kv: "kv = (k, v)" by (cases kv)
  show ?case
  proof (cases "used m < cap \<or> look m k \<noteq> Some None")
    case True
    then obtain m1 where "ins m k v = Some m1" "wf m1"
        "used m1 + card {j \<in> keys_of kvs. look m1 j = Some None} = used m + card {j \<in> keys_of (kv # kvs). look m j = Some None}"
      using ins_budget [of m k v kvs] Cons.prems(1,2) unfolding kv by blast
    then show ?thesis using Cons.IH [of m1] Cons.prems by (simp add: kv)
  next
    case False
    then show ?thesis using ins_full [of m k v] used_cap [of m] Cons.prems by (simp add: kv)
  qed
qed

end

text \<open>Inserting a new address into a full cache writes through a null pointer.\<close>

lemma arp_cache_full_insert:
  assumes "arp_wf cache" and "arp_used cache = ARP_CACHE_SIZE" and "ip \<notin> ae_ip_addr ` set cache"
  shows "arp_cache_insert cache ip mac = None"
proof -
  have len: "length cache = ARP_CACHE_SIZE" using assms(1) by (simp add: arp_wf_def)
  then have "filter (\<lambda>e. ae_ip_addr e \<noteq> 0) cache = cache"
    using assms(2) by (simp add: arp_used_def) (metis length_filter_less less_irrefl filter_id_conv)
  then have zero: "0 \<notin> ae_ip_addr ` set cache" by (auto simp: filter_id_conv)
  have "find_entry cache a h = Some None" if "a \<notin> ae_ip_addr ` set cache" for a h
  proof -
    obtain r where r: "find_entry cache a h = Some r"
        "case r of Some i \<Rightarrow> i < length cache \<and> ae_ip_addr (cache ! i) = a | None \<Rightarrow> a \<notin> ae_ip_addr ` set cache"
      using find_entry_spec [OF len] by blast
    with that show ?thesis by (cases r) (auto dest: nth_mem)
  qed
  then show ?thesis
    using zero assms(3) by (simp add: arp_cache_insert_def find_occupied_entry_def find_empty_entry_def)
qed

interpretation arp: bounded_map arp_wf arp_used ARP_CACHE_SIZE "\<lambda>ip. ip \<noteq> 0" "\<lambda>mac. length mac = ETH_ALEN"
  arp_cache_lookup arp_cache_insert
proof unfold_locales
  show "arp_cache_lookup m k \<noteq> None" if "arp_wf m" "k \<noteq> 0" for m k
    using arp_lookup_entry [OF that] arp_lookup_absent [OF that(1), of k]
    by (cases "k \<in> ae_ip_addr ` set m") (auto simp: in_set_conv_nth)
next
  show "arp_used m \<le> ARP_CACHE_SIZE" if "arp_wf m" for m
    using that length_filter_le [of "\<lambda>e. ae_ip_addr e \<noteq> 0" m] by (simp add: arp_used_def arp_wf_def)
next
  fix m :: arp_cache and k :: u32 and v :: "u8 list"
  assume m: "arp_wf m" "k \<noteq> 0" "arp_used m = ARP_CACHE_SIZE" "arp_cache_lookup m k = Some None"
  have "k \<notin> ae_ip_addr ` set m"
  proof
    assume "k \<in> ae_ip_addr ` set m"
    then obtain i where "i < length m" "ae_ip_addr (m ! i) = k" by (auto simp: in_set_conv_nth)
    then show False using arp_lookup_entry [OF m(1,2)] m(4) by fastforce
  qed
  then show "arp_cache_insert m k v = None" by (rule arp_cache_full_insert [OF m(1,3)])
next
  fix m :: arp_cache and k :: u32 and v :: "u8 list"
  assume m: "arp_wf m" "k \<noteq> 0" "length v = ETH_ALEN" "arp_used m < ARP_CACHE_SIZE \<or> arp_cache_lookup m k \<noteq> Some None"
  then have "k \<in> ae_ip_addr ` set m \<or> 0 \<in> ae_ip_addr ` set m"
    using arp_has_free arp_lookup_absent by blast
  then obtain i where ins: "arp_cache_insert m k v = Some (m[i := \<lparr>ae_ip_addr = k, ae_mac_addr = v\<rparr>])"
      and i: "i < length m" "ae_ip_addr (m ! i) = k \<or> ae_ip_addr (m ! i) = 0 \<and> k \<notin> ae_ip_addr ` set m"
    using arp_insert_entry [OF m(1,3)] by blast
  define m' where "m' = m[i := \<lparr>ae_ip_addr = k, ae_mac_addr = v\<rparr>]"
  have wf: "arp_wf m'" unfolding m'_def using i by (intro arp_update_wf [OF m(1-3)]) auto
  have look: "arp_cache_lookup m' k = Some (Some v)"
    using arp_lookup_entry [OF wf m(2), of i] i by (simp add: m'_def)
  have other: "arp_cache_lookup m' j = arp_cache_lookup m j" if j: "j \<noteq> 0" "j \<noteq> k" for j
  proof (cases "\<exists>n<length m. ae_ip_addr (m ! n) = j")
    case True
    then obtain n where n: "n < length m" "ae_ip_addr (m ! n) = j" by auto
    then have "n \<noteq> i" using i j by auto
    then show ?thesis
      using arp_lookup_entry [OF wf j(1), of n] arp_lookup_entry [OF m(1) j(1), of n] n by (simp add: m'_def)
  next
    case False
    then have "j \<notin> ae_ip_addr ` set m" by (auto simp: in_set_conv_nth)
    moreover have "ae_ip_addr ` set m' \<subseteq> insert k (ae_ip_addr ` set m)"
      unfolding m'_def using set_update_subset_insert [of m i "\<lparr>ae_ip_addr = k, ae_mac_addr = v\<rparr>"] by fastforce
    then have "j \<notin> ae_ip_addr ` set m'"
      using \<open>j \<notin> ae_ip_addr ` set m\<close> j by blast
    ultimately show ?thesis using arp_lookup_absent wf m(1) by metis
  qed
  have "ae_ip_addr (m ! i) = k \<longleftrightarrow> arp_cache_lookup m k \<noteq> Some None"
    using i arp_lookup_entry [OF m(1,2), of i] arp_lookup_absent [OF m(1), of k] m(2) by auto
  then have "arp_used m' = arp_used m + (if arp_cache_lookup m k = Some None then 1 else 0)"
    using arp_used_update [of i m k v] i m(2) unfolding m'_def by auto
  then show "\<exists>m'. arp_cache_insert m k v = Some m' \<and> arp_wf m'
      \<and> arp_used m' = arp_used m + (if arp_cache_lookup m k = Some None then 1 else 0)
      \<and> arp_cache_lookup m' k = Some (Some v) \<and> (\<forall>j. j \<noteq> 0 \<longrightarrow> j \<noteq> k \<longrightarrow> arp_cache_lookup m' j = arp_cache_lookup m j)"
    using ins wf look other by (auto simp: m'_def)
qed

subsection \<open>Properties\<close>

lemma arp_init_wf:
  assumes "length cache = ARP_CACHE_SIZE"
  shows "arp_wf (arp_cache_init cache)" and "arp_used (arp_cache_init cache) = 0"
    and "ip \<noteq> 0 \<Longrightarrow> arp_cache_lookup (arp_cache_init cache) ip = Some None"
proof -
  show wf: "arp_wf (arp_cache_init cache)"
    using assms by (simp add: arp_wf_def arp_cache_init_def)
  show "arp_used (arp_cache_init cache) = 0"
    by (simp add: arp_used_def arp_cache_init_def filter_empty_conv)
  show "arp_cache_lookup (arp_cache_init cache) ip = Some None" if "ip \<noteq> 0"
    using that by (intro arp_lookup_absent [OF wf]) (auto simp: arp_cache_init_def)
qed

text \<open>C31: insert any sequence of non-zero addresses, repetitions included, into an initialised cache. When at most
  128 different addresses occur, every insertion succeeds, and a lookup of any non-zero address gives the hardware address
  inserted last for it, or null when there was none, wherever the hash function puts the entries. When more occur, one of
  the insertions writes through a null pointer. Address 0 marks a free entry and is outside the contract.\<close>

theorem arp_cache_is_map:
  assumes "length cache = ARP_CACHE_SIZE" and "\<forall>(ip, mac)\<in>set kvs. ip \<noteq> 0 \<and> length mac = ETH_ALEN"
  shows "if card (keys_of kvs) \<le> 128
     then \<exists>c. insert_all arp_cache_insert (arp_cache_init cache) kvs = Some c
       \<and> (\<forall>ip. ip \<noteq> 0 \<longrightarrow> arp_cache_lookup c ip = Some (map_of (rev kvs) ip))
     else insert_all arp_cache_insert (arp_cache_init cache) kvs = None"
proof -
  note init = arp_init_wf [OF assms(1)]
  have "{j \<in> keys_of kvs. arp_cache_lookup (arp_cache_init cache) j = Some None} = keys_of kvs"
    using assms(2) init(3) by (auto simp: keys_of_def)
  then have c: "arp_used (arp_cache_init cache) + card {j \<in> keys_of kvs. arp_cache_lookup (arp_cache_init cache) j = Some None}
      = card (keys_of kvs)"
    using init(2) by simp
  show ?thesis
  proof (cases "card (keys_of kvs) \<le> 128")
    case True
    then obtain c where "insert_all arp_cache_insert (arp_cache_init cache) kvs = Some c"
        "\<forall>ip. ip \<noteq> 0 \<longrightarrow> arp_cache_lookup c ip
          = (case map_of (rev kvs) ip of Some v \<Rightarrow> Some (Some v) | None \<Rightarrow> arp_cache_lookup (arp_cache_init cache) ip)"
      using arp.insert_all_lookup [OF init(1) assms(2), unfolded c] by (auto simp: ARP_CACHE_SIZE_eq)
    then show ?thesis using True init(3) by (simp split: option.split)
  next
    case False
    then show ?thesis using arp.insert_all_full [OF init(1) assms(2), unfolded c] by (simp add: ARP_CACHE_SIZE_eq)
  qed
qed

definition arp_example :: "(u32 \<times> u8 list) list" where
  "arp_example = [(0x0100000A, [1, 2, 3, 4, 5, 6]), (0x0200000A, [7, 7, 7, 7, 7, 7]), (0x0100000A, [9, 8, 7, 6, 5, 4])]"

theorem arp_cache_is_map_witness:
  "\<exists>c. insert_all arp_cache_insert (arp_cache_init (replicate 128 \<lparr>ae_ip_addr = 7, ae_mac_addr = []\<rparr>)) arp_example = Some c
     \<and> arp_cache_lookup c 0x0100000A = Some (Some [9, 8, 7, 6, 5, 4])
     \<and> arp_cache_lookup c 0x0300000A = Some None"
proof -
  have "card (keys_of arp_example) \<le> 128"
    using card_length [of "map fst arp_example"] by (simp add: keys_of_def arp_example_def)
  then obtain c where "insert_all arp_cache_insert (arp_cache_init (replicate 128 \<lparr>ae_ip_addr = 7, ae_mac_addr = []\<rparr>)) arp_example = Some c"
      "\<forall>ip. ip \<noteq> 0 \<longrightarrow> arp_cache_lookup c ip = Some (map_of (rev arp_example) ip)"
    using arp_cache_is_map [of "replicate 128 \<lparr>ae_ip_addr = 7, ae_mac_addr = []\<rparr>" arp_example]
    by (auto simp: ARP_CACHE_SIZE_eq arp_example_def ETH_ALEN_def)
  then show ?thesis
    by (auto simp: arp_example_def)
qed

definition arp_full_example :: arp_cache where
  "arp_full_example = map (\<lambda>i. \<lparr>ae_ip_addr = of_nat (Suc i), ae_mac_addr = replicate 6 0\<rparr>) [0..<128]"

lemma arp_full_example_props:
  "arp_wf arp_full_example" "arp_used arp_full_example = ARP_CACHE_SIZE" "500 \<notin> ae_ip_addr ` set arp_full_example"
proof -
  have ip: "unat (of_nat (Suc i) :: u32) = Suc i" if "i < 128" for i
    using that by (simp add: unat_of_nat del: of_nat_Suc)
  have ne: "of_nat (Suc i) \<noteq> (0 :: u32)" and big: "(500 :: u32) \<noteq> of_nat (Suc i)" if "i < 128" for i
    using ip [OF that] that by (auto simp del: of_nat_Suc)
  have inj: "i = j" if "of_nat (Suc i) = (of_nat (Suc j) :: u32)" "i < 128" "j < 128" for i j
    using ip [of i] ip [of j] that by (metis Suc_inject)
  show "arp_wf arp_full_example"
    using inj by (auto simp: arp_wf_def arp_full_example_def ARP_CACHE_SIZE_eq ETH_ALEN_def simp del: of_nat_Suc)
  have "filter (\<lambda>e. ae_ip_addr e \<noteq> 0) arp_full_example = arp_full_example"
    using ne by (intro filter_True) (auto simp: arp_full_example_def simp del: of_nat_Suc)
  then show "arp_used arp_full_example = ARP_CACHE_SIZE"
    by (simp add: arp_used_def ARP_CACHE_SIZE_eq) (simp add: arp_full_example_def)
  show "500 \<notin> ae_ip_addr ` set arp_full_example"
    using big by (auto simp: arp_full_example_def simp del: of_nat_Suc)
qed

lemma arp_cache_full_insert_example:
  "arp_cache_insert arp_full_example 500 [1, 2, 3, 4, 5, 6] = None"
  by (rule arp_cache_full_insert [OF arp_full_example_props])

end
