(* ===== verification/Inet.thy ===== *)
theory Inet
  imports Bytes PrintfText
begin

text \<open>
  Byte order and address notation (\<^verbatim>\<open>usr/liblinux/include/arpa/inet.h\<close>,
  \<^verbatim>\<open>usr/liblinux/src/arpa/inet.c\<close>) on a little-endian machine.
\<close>

definition bswap16 :: "u16 \<Rightarrow> u16" where
  "bswap16 w = dec16 (rev (enc16 w))"

definition bswap32 :: "u32 \<Rightarrow> u32" where
  "bswap32 w = dec32 (rev (enc32 w))"

definition htonl :: "u32 \<Rightarrow> u32" where "htonl hostlong = bswap32 hostlong"

definition htons :: "u16 \<Rightarrow> u16" where "htons hostshort = bswap16 hostshort"

text \<open>The argument is converted to the 16-bit parameter of the built-in and the result back.\<close>

definition ntohl :: "u32 \<Rightarrow> u32" where "ntohl netlong = ucast (bswap16 (ucast netlong))"

definition ntohs :: "u16 \<Rightarrow> u16" where "ntohs netshort = bswap16 netshort"

abbreviation INADDR_NONE :: u32 where "INADDR_NONE \<equiv> - 1"

text \<open>The loop of \<open>inet_addr\<close> on the bytes from \<^verbatim>\<open>cp\<close> to the end of the object.\<close>

fun inet_addr_loop :: "u8 list \<Rightarrow> u32 \<Rightarrow> u32 \<Rightarrow> u32 option" where
  "inet_addr_loop [] ret acc = None"
| "inet_addr_loop (c # cp) ret acc =
     (if ch CHR ''0'' \<le> c \<and> c \<le> ch CHR ''9'' then
        (let acc = acc * 10 + (ucast c - ucast (ch CHR ''0''))
         in if 255 < acc then Some INADDR_NONE else inet_addr_loop cp ret acc)
      else if c = ch CHR ''.'' then inet_addr_loop cp (push_bit 8 ret OR acc) 0
      else if c = 0 then Some (htonl (push_bit 8 ret OR acc))
      else Some INADDR_NONE)"

definition inet_addr :: "u8 list \<Rightarrow> u32 option" where
  "inet_addr cp = inet_addr_loop cp 0 0"

lemma bswap16_involutive [simp]: "bswap16 (bswap16 w) = w"
  by (simp add: bswap16_def enc_dec)

lemma bswap32_involutive [simp]: "bswap32 (bswap32 w) = w"
  by (simp add: bswap32_def enc_dec)

lemma enc_bswap: "enc16 (bswap16 w) = rev (enc16 w)" "enc32 (bswap32 v) = rev (enc32 v)"
  by (simp_all add: bswap16_def bswap32_def enc_dec)

lemma bswap16_num: "bswap16 w = of_nat (unat w div 256 + 256 * (unat w mod 256))"
proof -
  define u where "u = unat w"
  have u: "u < 65536" using unat_lt [of w] by (simp add: u_def)
  have "enc16 w = [of_nat (u mod 256), of_nat (u div 256 mod 256)]"
    by (simp add: enc16_def u_def numeral_2_eq_2)
  moreover have "unat (of_nat (u mod 256) :: u8) = u mod 256" "unat (of_nat (u div 256 mod 256) :: u8) = u div 256"
    using u by (simp_all add: unat_of_nat)
  ultimately show ?thesis
    by (simp add: bswap16_def dec16_def u_def del: of_nat_add of_nat_mult)
qed

subsection \<open>Dotted notation\<close>

definition dec_text :: "nat \<Rightarrow> u8 list" where
  "dec_text n = map ((!) number_chars) (digits 10 n)"

definition dotted :: "u8 \<Rightarrow> u8 \<Rightarrow> u8 \<Rightarrow> u8 \<Rightarrow> u8 list" where
  "dotted a b c d = dec_text (unat a) @ ch CHR ''.'' # dec_text (unat b) @ ch CHR ''.'' # dec_text (unat c)
     @ ch CHR ''.'' # dec_text (unat d)"

lemma number_char_digit:
  assumes "d < 10"
  shows "ch CHR ''0'' \<le> number_chars ! d" and "number_chars ! d \<le> ch CHR ''9''"
    and "(ucast (number_chars ! d) :: u32) - ucast (ch CHR ''0'') = of_nat d"
proof -
  have d: "d \<in> {0, 1, 2, 3, 4, 5, 6, 7, 8, 9}" using assms by auto
  show "ch CHR ''0'' \<le> number_chars ! d"
    using d by (elim insertE) (simp_all add: number_chars_def bytes_of_def ch_def)
  show "number_chars ! d \<le> ch CHR ''9''"
    using d by (elim insertE) (simp_all add: number_chars_def bytes_of_def ch_def)
  show "(ucast (number_chars ! d) :: u32) - ucast (ch CHR ''0'') = of_nat d"
    using d by (elim insertE) (simp_all add: number_chars_def bytes_of_def ch_def)
qed

lemma inet_addr_digit:
  assumes "d < 10" and "a * 10 + d \<le> 255"
  shows "inet_addr_loop (number_chars ! d # rest) ret (of_nat a) = inet_addr_loop rest ret (of_nat (a * 10 + d))"
proof -
  have acc: "(of_nat a * 10 + of_nat d :: u32) = of_nat (a * 10 + d)" by simp
  have "\<not> 255 < (of_nat (a * 10 + d) :: u32)"
    using assms(2) by (simp add: word_less_nat_alt unat_of_nat del: of_nat_add of_nat_mult)
  then show ?thesis
    using number_char_digit [OF assms(1)] by (simp add: acc del: of_nat_add of_nat_mult)
qed

lemma inet_addr_dec_text:
  "n \<le> 255 \<Longrightarrow> inet_addr_loop (dec_text n @ rest) ret 0 = inet_addr_loop rest ret (of_nat n)"
proof (induction "10 :: nat" n arbitrary: rest rule: digits.induct)
  case (1 n)
  show ?case
  proof (cases "n < 10")
    case True
    then have "dec_text n = [number_chars ! n]"
      unfolding dec_text_def by (subst digits.simps) simp
    then show ?thesis
      using inet_addr_digit [of n 0 rest ret] True by simp
  next
    case False
    then have "dec_text n @ rest = dec_text (n div 10) @ number_chars ! (n mod 10) # rest"
      unfolding dec_text_def by (subst digits.simps) simp
    then show ?thesis
      using 1 False inet_addr_digit [of "n mod 10" "n div 10" rest ret] by simp
  qed
qed

lemma unat_shift_or:
  fixes x :: u32
  assumes "unat x < 2 ^ 24" and "n \<le> 255"
  shows "unat (push_bit 8 x OR of_nat n) = unat x * 256 + n"
proof -
  have n: "(of_nat n :: u32) = take_bit 8 (of_nat n)"
    using assms(2) by (simp add: take_bit_of_nat take_bit_nat_eq_self)
  have "\<not> bit (push_bit 8 x) k \<or> \<not> bit (of_nat n :: u32) k" for k
    by (subst n) (simp add: bit_simps)
  then have sum: "push_bit 8 x OR of_nat n = push_bit 8 x + of_nat n"
    by (intro disjunctive_add [symmetric])
  have hi: "unat (push_bit 8 x) = unat x * 256"
    using assms(1) by (simp add: push_bit_eq_mult unat_word_ariths)
  have lo: "unat (of_nat n :: u32) = n"
    using assms(2) by (simp add: unat_of_nat)
  have "unat (push_bit 8 x + of_nat n) = unat (push_bit 8 x) + unat (of_nat n :: u32)"
    unfolding hi lo using assms by (intro unat_add_no_wrap [of "push_bit 8 x" "of_nat n", unfolded hi lo]) simp
  then show ?thesis by (simp only: sum hi lo)
qed

lemma inet_addr_dotted:
  "inet_addr (dotted a b c d @ 0 # rest) = Some (htonl (dec32 [d, c, b, a]))"
proof -
  define r1 :: u32 where "r1 = push_bit 8 0 OR of_nat (unat a)"
  define r2 where "r2 = push_bit 8 r1 OR of_nat (unat b)"
  define r3 where "r3 = push_bit 8 r2 OR of_nat (unat c)"
  define r4 where "r4 = push_bit 8 r3 OR of_nat (unat d)"
  have le: "unat x \<le> 255" for x :: u8
    using unat_lt [of x] by simp
  have not_digit: "\<not> ch CHR ''0'' \<le> ch CHR ''.''" "\<not> ch CHR ''0'' \<le> 0" "(0::u8) \<noteq> ch CHR ''.''"
    by (simp_all add: ch_def)
  have run: "inet_addr (dotted a b c d @ 0 # rest) = Some (htonl r4)"
    unfolding inet_addr_def dotted_def r4_def r3_def r2_def r1_def
    by (simp only: append_assoc append_Cons inet_addr_dec_text [OF le] inet_addr_loop.simps not_digit simp_thms if_False if_True)
  have "unat r1 = unat a"
    using unat_shift_or [of 0 "unat a"] le [of a] by (simp only: r1_def unat_0) simp
  then have "unat r2 = unat a * 256 + unat b"
    unfolding r2_def using le [of a] by (subst unat_shift_or [OF _ le]) simp_all
  then have "unat r3 = (unat a * 256 + unat b) * 256 + unat c"
    unfolding r3_def using le [of a] le [of b] by (subst unat_shift_or [OF _ le]) simp_all
  then have "unat r4 = ((unat a * 256 + unat b) * 256 + unat c) * 256 + unat d"
    unfolding r4_def using le [of a] le [of b] le [of c] by (subst unat_shift_or [OF _ le]) simp_all
  moreover have "unat (dec32 [d, c, b, a]) = ((unat a * 256 + unat b) * 256 + unat c) * 256 + unat d"
    by (simp add: unat_dec)
  ultimately have "r4 = dec32 [d, c, b, a]"
    by (simp only: word_unat_eq_iff)
  with run show ?thesis by simp
qed

lemma low_half:
  fixes p q r s :: nat
  assumes "s < 256" and "r < 256"
  shows "(s + (256 * r + (65536 * q + 16777216 * p))) mod 65536 = s + 256 * r"
proof -
  have "s + (256 * r + (65536 * q + 16777216 * p)) = (s + 256 * r) + 65536 * (q + 256 * p)" by simp
  then show ?thesis using assms by (simp only: mod_mult_self2) simp
qed

lemma high_half:
  fixes p q r s :: nat
  assumes "p < 256" and "q < 256"
  shows "(p + (256 * q + (65536 * r + 16777216 * s))) div 65536 = r + 256 * s"
proof -
  have "p + (256 * q + (65536 * r + 16777216 * s)) = (p + 256 * q) + 65536 * (r + 256 * s)" by simp
  then show ?thesis using assms by (simp only: div_mult_self2)
qed

lemma list4: "length xs = 4 \<Longrightarrow> \<exists>p q r s. xs = [p, q, r, s]"
  by (auto simp: eval_nat_numeral length_Suc_conv)

subsection \<open>Properties\<close>

text \<open>C32: \<open>inet_addr\<close> reads every dotted quad, printed in decimal, as the address whose four
  bytes in memory are the four numbers in the order written, that is, in network byte
  order.\<close>

theorem inet_addr_round_trip:
  "\<exists>addr. inet_addr (dotted a b c d @ 0 # rest) = Some addr \<and> enc32 addr = [a, b, c, d]"
  unfolding inet_addr_dotted by (simp add: htonl_def bswap32_def enc_dec)

text \<open>\<open>ntohl\<close> swaps only the low half of its argument: applied to what \<open>htonl\<close> makes of a
  number it gives the high half of the number, not the number.\<close>

lemma ntohl_htonl_loses_half: "ntohl (htonl x) = drop_bit 16 x"
proof -
  obtain p q r s where e: "enc32 x = [p, q, r, s]"
    using list4 [of "enc32 x"] by auto
  then have x: "x = dec32 [p, q, r, s]"
    using dec_enc(2) [of x] by simp
  have le: "unat x < 256" for x :: u8
    using unat_lt [of x] by simp
  have "unat (ucast (dec32 [s, r, q, p]) :: u16) = unat (dec16 [s, r])"
    using le [of s] le [of r] by (simp add: unsigned_ucast_eq take_bit_eq_mod unat_dec low_half)
  then have half: "(ucast (dec32 [s, r, q, p]) :: u16) = dec16 [s, r]"
    by (simp only: word_unat_eq_iff)
  have "unat (ucast (dec16 [r, s]) :: u32) = unat r + 256 * unat s"
    using le [of r] le [of s] by (simp add: unsigned_ucast_eq unat_dec take_bit_nat_eq_self)
  moreover have "unat (drop_bit 16 x) = le_dec [p, q, r, s] div 65536"
    by (simp only: unat_drop_bit_eq x unat_dec length_Cons list.size) (simp add: unat_dec drop_bit_eq_div)
  then have "unat (drop_bit 16 x) = unat r + 256 * unat s"
    using high_half [OF le [of p] le [of q], of "unat r" "unat s"] by simp
  ultimately have "unat (ucast (dec16 [r, s]) :: u32) = unat (drop_bit 16 x)"
    by simp
  then have "(ucast (dec16 [r, s]) :: u32) = drop_bit 16 x"
    by (simp only: word_unat_eq_iff)
  with half show ?thesis
    by (simp add: ntohl_def htonl_def bswap32_def e bswap16_def enc_dec)
qed

end
