(* ===== verification/Checksum.thy ===== *)
theory Checksum
  imports Inet
begin

text \<open>
  The Internet checksum of \<^verbatim>\<open>usr/liblinux/src/internal/ip.c\<close> (lines 61 to 111): the sum of
  32-bit words in a 64-bit accumulator, folded to 16 bits at the end, against the sum of
  16-bit words of RFC 1071.
\<close>

subsection \<open>Operations\<close>

text \<open>The bytes of the object from the read pointer on.\<close>

function checksum_add :: "u64 \<Rightarrow> u8 list \<Rightarrow> nat \<Rightarrow> nat \<Rightarrow> u64 option" where
  "checksum_add acc data p count =
     (if 4 \<le> count then
        do { w \<leftarrow> ld_bytes data p 4; checksum_add (acc + ucast (dec32 w)) data (p + 4) (count - 4) }
      else
        do { (acc, p, count) \<leftarrow>
               (if 2 \<le> count then do { w \<leftarrow> ld_bytes data p 2; Some (acc + ucast (dec16 w), p + 2, count - 2) }
                else Some (acc, p, count));
             if count \<noteq> 0 then do { b \<leftarrow> rd data p; Some (acc + ucast b) } else Some acc })"
  by pat_completeness auto
termination
  by (relation "measure (\<lambda>(_, _, _, count). count)") auto

declare checksum_add.simps [simp del]

lemma unat_high: "unat (drop_bit 16 s) = unat s div 65536" for s :: u64
  by (simp only: unat_drop_bit_eq) (simp add: drop_bit_eq_div)

lemma fold_decreases:
  fixes s :: u64
  assumes "drop_bit 16 s \<noteq> 0"
  shows "unat ((s AND 0xffff) + drop_bit 16 s) = unat s mod 65536 + unat s div 65536"
    and "unat ((s AND 0xffff) + drop_bit 16 s) < unat s"
proof -
  have lo: "unat (s AND 0xffff) = unat s mod 65536"
  proof -
    have "(0xffff :: u64) = mask 16" by (simp add: mask_eq_exp_minus_1)
    then show ?thesis by (simp only: unat_mask_and) simp
  qed
  note hi = unat_high [of s]
  have nz: "unat s div 65536 \<noteq> 0"
    using assms hi by (metis unat_0 word_unat_eq_iff)
  have split: "unat s = unat s div 65536 * 65536 + unat s mod 65536" by simp
  have small: "unat s mod 65536 + unat s div 65536 < unat s"
    using split nz by (cases "unat s div 65536") auto
  then have "unat (s AND 0xffff) + unat (drop_bit 16 s) < 2 ^ LENGTH(64)"
    using unat_lt64 [of s] unfolding lo hi by simp
  then show "unat ((s AND 0xffff) + drop_bit 16 s) = unat s mod 65536 + unat s div 65536"
    by (subst unat_add_no_wrap) (simp_all add: lo hi)
  with small show "unat ((s AND 0xffff) + drop_bit 16 s) < unat s" by simp
qed

function checksum_fold :: "u64 \<Rightarrow> u64" where
  "checksum_fold acc = (if drop_bit 16 acc \<noteq> 0 then checksum_fold ((acc AND 0xffff) + drop_bit 16 acc) else acc)"
  by pat_completeness auto
termination
  by (relation "measure unat") (use fold_decreases(2) in auto)

declare checksum_fold.simps [simp del]

definition checksum_finalize :: "u64 \<Rightarrow> u16" where
  "checksum_finalize acc = ucast (NOT (checksum_fold acc))"

definition ipv4_checksum :: "u8 list \<Rightarrow> nat \<Rightarrow> nat \<Rightarrow> u16 option" where
  "ipv4_checksum buf p len = map_option checksum_finalize (checksum_add 0 buf p len)"

definition IPPROTO_UDP :: u8 where "IPPROTO_UDP = 17"

definition udp_checksum :: "u8 list \<Rightarrow> nat \<Rightarrow> nat \<Rightarrow> u32 \<Rightarrow> u32 \<Rightarrow> u16 option" where
  "udp_checksum buf p len dest_ip src_ip =
     do { acc \<leftarrow> checksum_add 0 buf p len;
          Some (checksum_finalize
            (acc + ucast (src_ip AND 0xffff) + ucast (drop_bit 16 src_ip)
                 + ucast (dest_ip AND 0xffff) + ucast (drop_bit 16 dest_ip)
                 + ucast (htons (ucast IPPROTO_UDP)) + ucast (htons (of_nat len)))) }"

subsection \<open>The sum of RFC 1071\<close>

fun word_sum :: "u8 list \<Rightarrow> nat" where
  "word_sum [] = 0"
| "word_sum [a] = unat a"
| "word_sum (a # b # r) = unat a + 256 * unat b + word_sum r"

fun dword_sum :: "u8 list \<Rightarrow> nat" where
  "dword_sum (a # b # c # d # r) = le_dec [a, b, c, d] + dword_sum r"
| "dword_sum [] = 0"
| "dword_sum [a] = word_sum [a]"
| "dword_sum [a, b] = word_sum [a, b]"
| "dword_sum [a, b, c] = word_sum [a, b, c]"

lemma dword_sum_mod: "dword_sum bs mod 65535 = word_sum bs mod 65535"
proof (induction bs rule: dword_sum.induct)
  case (1 a b c d r)
  have "le_dec [a, b, c, d] mod 65535 = (unat a + 256 * unat b + (unat c + 256 * unat d)) mod 65535"
  proof -
    have "le_dec [a, b, c, d] = unat a + 256 * unat b + (unat c + 256 * unat d) + (unat c + 256 * unat d) * 65535"
      by simp
    then show ?thesis by (simp only: mod_mult_self1)
  qed
  then have "(le_dec [a, b, c, d] + dword_sum r) mod 65535 =
      (unat a + 256 * unat b + (unat c + 256 * unat d) + word_sum r) mod 65535"
    using 1 by (rule mod_add_cong)
  moreover have "unat a + 256 * unat b + (unat c + 256 * unat d) + word_sum r = word_sum (a # b # c # d # r)"
    by simp
  ultimately show ?case
    by (simp only: dword_sum.simps)
qed simp_all

lemma dword_sum_zero: "dword_sum bs = 0 \<longleftrightarrow> (\<forall>b\<in>set bs. b = 0)"
  by (induction bs rule: dword_sum.induct) (auto simp: unat_eq_0)

lemma word_sum_append: "even (length xs) \<Longrightarrow> word_sum (xs @ ys) = word_sum xs + word_sum ys"
  by (induction xs rule: word_sum.induct) auto

lemma dword_sum_bound: "dword_sum bs < 2 ^ 32 * Suc (length bs div 4)"
proof (induction bs rule: dword_sum.induct)
  case (1 a b c d r)
  have "length (a # b # c # d # r) div 4 = Suc (length r div 4)" by simp
  with 1 show ?case using le_dec_less [of "[a, b, c, d]"] by (simp only: dword_sum.simps) simp
next
  case (5 a b c)
  then show ?case using unat_lt [of a] unat_lt [of b] unat_lt [of c] by simp
next
  case (4 a b)
  then show ?case using unat_lt [of a] unat_lt [of b] by simp
next
  case (3 a)
  then show ?case using unat_lt [of a] by simp
qed simp

lemma unat_ucast64:
  fixes w :: "'a::len word"
  assumes "LENGTH('a) \<le> 64"
  shows "unat (ucast w :: u64) = unat w"
proof -
  have "unat w < 2 ^ 64"
    using unat_lt [of w] power_increasing [OF assms, of "2::nat"] by linarith
  then show ?thesis by (simp add: unsigned_ucast_eq take_bit_nat_eq_self)
qed

lemma ucast_dec32: "length w = 4 \<Longrightarrow> (ucast (dec32 w) :: u64) = of_nat (le_dec w)"
  unfolding word_unat_eq_iff using le_dec_less [of w] by (simp add: unat_ucast64 unat_dec unat_of_nat)

lemma ucast_dec16: "length w = 2 \<Longrightarrow> (ucast (dec16 w) :: u64) = of_nat (le_dec w)"
  unfolding word_unat_eq_iff using le_dec_less [of w] by (simp add: unat_ucast64 unat_dec unat_of_nat)

lemma ucast_byte: "(ucast (b :: u8) :: u64) = of_nat (unat b)"
  by simp

lemma dword_sum_append4: "length w = 4 \<Longrightarrow> dword_sum (w @ r) = le_dec w + dword_sum r"
  using list4 [of w] by auto

lemma checksum_add_tail:
  assumes "p + count \<le> length data" and "count < 4"
  shows "checksum_add acc data p count = Some (acc + of_nat (word_sum (take count (drop p data))))"
proof -
  have two: "take 2 (drop p data) = [data ! p, data ! Suc p]" if "2 \<le> count"
    using that assms(1) by (simp add: numeral_2_eq_2 drop_eq_nth_Cons)
  have three: "take 3 (drop p data) = [data ! p, data ! Suc p, data ! (p + 2)]" if "3 \<le> count"
    using that assms(1) by (simp add: numeral_3_eq_3 drop_eq_nth_Cons)
  have ld: "ld_bytes data p 2 = Some [data ! p, data ! Suc p]" if "2 \<le> count"
    using two [OF that] that assms(1) by (simp add: ld_bytes_def)
  have dec: "(ucast (dec16 [data ! p, data ! Suc p]) :: u64) = of_nat (unat (data ! p) + 256 * unat (data ! Suc p))"
    by (simp add: ucast_dec16 del: of_nat_add of_nat_mult)
  consider "count = 0" | "count = 1" | "count = 2" | "count = 3" using assms(2) by linarith
  then show ?thesis
  proof cases
    case 1
    then show ?thesis by (subst checksum_add.simps) simp
  next
    case 2
    then show ?thesis
      using assms(1) by (subst checksum_add.simps) (simp add: drop_eq_nth_Cons)
  next
    case 3
    then show ?thesis
      using ld two by (subst checksum_add.simps) (simp add: dec)
  next
    case 4
    then show ?thesis
      using ld three assms(1) by (subst checksum_add.simps) (simp add: dec)
  qed
qed

lemma dword_sum_short: "length r < 4 \<Longrightarrow> dword_sum r = word_sum r"
  by (cases r rule: dword_sum.cases) auto

lemma checksum_add_eq:
  "p + count \<le> length data \<Longrightarrow>
   checksum_add acc data p count = Some (acc + of_nat (dword_sum (take count (drop p data))))"
proof (induction acc data p count rule: checksum_add.induct)
  case (1 acc data p count)
  show ?case
  proof (cases "4 \<le> count")
    case True
    define w where "w = take 4 (drop p data)"
    have w: "length w = 4" "ld_bytes data p 4 = Some w"
      using 1(2) True by (auto simp: w_def ld_bytes_def)
    have "take (4 + (count - 4)) (drop p data) = w @ take (count - 4) (drop 4 (drop p data))"
      unfolding w_def by (rule take_add)
    then have split: "take count (drop p data) = w @ take (count - 4) (drop (p + 4) data)"
      using True by (simp add: add.commute)
    have "checksum_add acc data p count = checksum_add (acc + ucast (dec32 w)) data (p + 4) (count - 4)"
      using True w by (subst checksum_add.simps) simp
    also have "\<dots> = Some (acc + ucast (dec32 w) + of_nat (dword_sum (take (count - 4) (drop (p + 4) data))))"
      using 1 True w by simp
    finally show ?thesis
      by (simp add: split dword_sum_append4 [OF w(1)] ucast_dec32 [OF w(1)])
  next
    case False
    then show ?thesis
      using 1(2) by (simp add: checksum_add_tail dword_sum_short)
  qed
qed

lemma checksum_fold_spec:
  "unat (checksum_fold s) mod 65535 = unat s mod 65535 \<and> unat (checksum_fold s) < 65536
   \<and> (checksum_fold s = 0 \<longleftrightarrow> s = 0)"
proof (induction s rule: checksum_fold.induct)
  case (1 s)
  show ?case
  proof (cases "drop_bit 16 s = 0")
    case True
    then have "unat s div 65536 = 0"
      using unat_high [of s] by simp
    moreover have "checksum_fold s = s"
      using True by (subst checksum_fold.simps) simp
    ultimately show ?thesis by (simp add: div_eq_0_iff)
  next
    case False
    define s' where "s' = (s AND 0xffff) + drop_bit 16 s"
    note f = fold_decreases [OF False, folded s'_def]
    have "unat s = unat s' + unat s div 65536 * 65535"
      unfolding f(1) using div_mult_mod_eq [of "unat s" 65536] by linarith
    then have "unat s mod 65535 = unat s' mod 65535"
      by (metis mod_mult_self1)
    moreover have "s \<noteq> 0" using False by auto
    moreover have "unat s div 65536 \<noteq> 0"
      using False unat_high [of s] by (metis unat_0 word_unat_eq_iff)
    then have "s' \<noteq> 0" using f(1) by auto
    moreover have "checksum_fold s = checksum_fold s'"
      using False by (subst checksum_fold.simps) (simp add: s'_def)
    ultimately show ?thesis
      using 1 [OF False, folded s'_def] by simp
  qed
qed

lemma unat_finalize: "unat (checksum_finalize s) = 65535 - unat (checksum_fold s)"
proof -
  define f where "f = checksum_fold s"
  have lt: "unat f < 65536" using checksum_fold_spec [of s] by (simp add: f_def)
  have "(ucast (NOT f) :: u16) = NOT (ucast f)"
    by (rule bit_eqI) (auto simp: bit_simps)
  moreover have "unat (ucast f :: u16) = unat f"
    using lt by (simp add: unsigned_ucast_eq take_bit_nat_eq_self)
  moreover have "NOT (ucast f :: u16) = - 1 - ucast f"
    by (simp add: not_eq_complement)
  moreover have "unat (- 1 - ucast f :: u16) = unat (- 1 :: u16) - unat (ucast f :: u16)"
    by (rule unat_sub) (rule word_order.extremum)
  ultimately show ?thesis
    unfolding checksum_finalize_def f_def [symmetric] by (simp add: unsigned_minus_1_eq_mask mask_eq_exp_minus_1)
qed

text \<open>A sum to which its own checksum is added has checksum 0.\<close>

lemma finalize_verifies:
  assumes "unat y mod 65535 = (unat x + unat (checksum_finalize x)) mod 65535" and "y \<noteq> 0"
  shows "checksum_finalize y = 0"
proof -
  define f g where "f = unat (checksum_fold x)" and "g = unat (checksum_fold y)"
  have f: "f mod 65535 = unat x mod 65535" "f < 65536"
    using checksum_fold_spec [of x] by (simp_all add: f_def)
  have "(unat x + (65535 - f)) mod 65535 = (f + (65535 - f)) mod 65535"
    using f(1) by (metis mod_add_left_eq)
  also have "\<dots> = 0" using f(2) by simp
  finally have "unat y mod 65535 = 0"
    using assms(1) by (simp add: unat_finalize f_def)
  then have g: "g mod 65535 = 0" "g < 65536"
    using checksum_fold_spec [of y] by (auto simp: g_def)
  have "g \<noteq> 0"
    using checksum_fold_spec [of y] assms(2) unfolding g_def by (metis unat_0 word_unat_eq_iff)
  moreover obtain k where k: "g = 65535 * k"
    using g(1) by (auto elim: dvdE)
  ultimately have "k = 1" using g(2) by (cases k) auto
  then have "g = 65535" using k by simp
  then show ?thesis
    by (simp add: word_unat_eq_iff unat_finalize g_def)
qed

lemma word_sum_zero: "\<forall>b\<in>set bs. b = 0 \<Longrightarrow> word_sum bs = 0"
  by (induction bs rule: word_sum.induct) auto

lemma word_sum_enc16: "word_sum (enc16 c) = unat c"
proof -
  obtain l h where e: "enc16 c = [l, h]"
    using length_enc(1) [of c] by (cases "enc16 c"; cases "tl (enc16 c)") auto
  have "le_dec (enc16 c) = unat c"
    using unat_dec(1) [of "enc16 c"] by simp
  then show ?thesis by (simp add: e)
qed

lemma dword_sum_unat: "length xs < 2 ^ 32 \<Longrightarrow> unat (of_nat (dword_sum xs) :: u64) = dword_sum xs"
proof (rule unat_of_nat64)
  assume "length xs < 2 ^ 32"
  then have "Suc (length xs div 4) \<le> 2 ^ 31" by simp
  then have "2 ^ 32 * Suc (length xs div 4) \<le> 2 ^ 32 * 2 ^ 31" by (rule mult_le_mono2)
  also have "\<dots> < (2 :: nat) ^ 64" by simp
  finally show "dword_sum xs < 2 ^ 64" using dword_sum_bound [of xs] by linarith
qed

text \<open>Sums with a checksum stored over a zero field, with an extra constant (the pseudo header).\<close>

lemma checksum_field_verifies:
  assumes "length xs < 2 ^ 32" and "even k" and "k + 2 \<le> length xs" and "xs ! k = 0" and "xs ! Suc k = 0"
    and "extra < 2 ^ 20" and "c = checksum_finalize (of_nat (dword_sum xs) + of_nat extra)"
  shows "checksum_finalize (of_nat (dword_sum (take k xs @ enc16 c @ drop (k + 2) xs)) + of_nat extra) = 0"
proof -
  define ys where "ys = take k xs @ enc16 c @ drop (k + 2) xs"
  define x y :: u64 where "x = of_nat (dword_sum xs) + of_nat extra" and "y = of_nat (dword_sum ys) + of_nat extra"
  have ex: "unat (of_nat extra :: u64) = extra" using assms(6) by (simp add: unat_of_nat)
  have len: "length ys = length xs" using assms(3) by (simp add: ys_def)
  have bound: "dword_sum zs < 2 ^ 63" if "length zs = length xs" for zs
  proof -
    have "Suc (length zs div 4) \<le> 2 ^ 31" using that assms(1) by simp
    then have "2 ^ 32 * Suc (length zs div 4) \<le> 2 ^ 32 * 2 ^ 31" by (rule mult_le_mono2)
    then show ?thesis using dword_sum_bound [of zs] by simp
  qed
  have ux: "unat x = dword_sum xs + extra" and uy: "unat y = dword_sum ys + extra"
    using bound [of xs] bound [of ys] len assms(1,6) dword_sum_unat [of xs] dword_sum_unat [of ys]
    by (simp_all add: x_def y_def unat_add_no_wrap ex)
  have "drop k xs = xs ! k # xs ! Suc k # drop (Suc (Suc k)) xs"
    using assms(3) drop_eq_nth_Cons [of k xs] drop_eq_nth_Cons [of "Suc k" xs] by simp
  then have xs: "xs = take k xs @ [0, 0] @ drop (k + 2) xs"
    using append_take_drop_id [of k xs] by (simp add: assms(4,5))
  have "word_sum ys = word_sum (take k xs) + unat c + word_sum (drop (k + 2) xs)"
    using assms(2,3) unfolding ys_def by (simp add: word_sum_append word_sum_enc16)
  moreover have "word_sum xs = word_sum (take k xs) + word_sum (drop (k + 2) xs)"
    using assms(2,3) by (subst xs) (simp add: word_sum_append)
  ultimately have "word_sum ys = word_sum xs + unat c" by simp
  then have "dword_sum ys mod 65535 = (dword_sum xs + unat c) mod 65535"
    using dword_sum_mod [of ys] mod_add_cong [OF dword_sum_mod [of xs] refl, of "unat c"] by simp
  then have "(dword_sum ys + extra) mod 65535 = (dword_sum xs + unat c + extra) mod 65535"
    by (rule mod_add_cong) (rule refl)
  then have "unat y mod 65535 = (unat x + unat c) mod 65535"
    unfolding ux uy by (simp add: ac_simps)
  moreover have "y \<noteq> 0"
  proof
    assume "y = 0"
    then have z: "dword_sum ys = 0" "extra = 0" using uy by simp_all
    then have all: "\<forall>b\<in>set ys. b = 0" by (simp add: dword_sum_zero)
    then have "dword_sum xs = 0"
      unfolding dword_sum_zero by (subst xs) (auto simp: ys_def)
    with z have "x = 0" by (simp add: x_def)
    then have "unat c = 65535" using assms(7) checksum_fold_spec [of x] by (simp add: x_def [symmetric] unat_finalize)
    moreover have "word_sum (enc16 c) = 0"
      using all by (intro word_sum_zero) (auto simp: ys_def)
    ultimately show False by (simp add: word_sum_enc16)
  qed
  ultimately show ?thesis
    using finalize_verifies [of y x] assms(7) by (simp add: x_def y_def ys_def)
qed

subsection \<open>Properties\<close>

lemma splice_take:
  assumes "len \<le> length xs" and "k + length f \<le> len"
  shows "take len (take k xs @ f @ drop (k + length f) xs) = take k (take len xs) @ f @ drop (k + length f) (take len xs)"
proof -
  have "min len k = k" and "min k len = k" and "length (take k xs) = k" using assms by auto
  then show ?thesis using assms by (simp add: drop_take)
qed

lemma field_slice:
  assumes "p + len \<le> length buf" and "k + length f \<le> len" and "st_bytes buf (p + k) f = Some buf'"
  shows "take len (drop p buf') = take k (take len (drop p buf)) @ f @ drop (k + length f) (take len (drop p buf))"
    and "length buf' = length buf"
proof -
  have b: "buf' = take (p + k) buf @ f @ drop (p + k + length f) buf"
    using assms(3) by (simp add: st_bytes_def split: if_splits)
  have "drop p (take (p + k) buf) = take k (drop p buf)"
    by (simp add: drop_take)
  then have dp: "drop p buf' = take k (drop p buf) @ f @ drop (k + length f) (drop p buf)"
    using assms(1,2) unfolding b by (simp add: add.commute add.left_commute)
  have "len \<le> length (drop p buf)" using assms(1) by simp
  then show "take len (drop p buf') = take k (take len (drop p buf)) @ f @ drop (k + length f) (take len (drop p buf))"
    unfolding dp using assms(2) by (rule splice_take)
  show "length buf' = length buf" using length_st_bytes [OF assms(3)] .
qed

text \<open>An IPv4 header, or any block of an even layout, whose checksum field is zero and then
  receives the result of \<open>ipv4_checksum\<close> has checksum 0, which is how a receiver verifies it
  (RFC 1071), although the sum is taken over 32-bit words.\<close>

lemma ipv4_checksum_verifies:
  assumes "p + len \<le> length buf" and "len < 2 ^ 32" and "even k" and "k + 2 \<le> len"
    and "buf ! (p + k) = 0" and "buf ! (p + Suc k) = 0"
    and "ipv4_checksum buf p len = Some c" and "st_bytes buf (p + k) (enc16 c) = Some buf'"
  shows "ipv4_checksum buf' p len = Some 0"
proof -
  define xs where "xs = take len (drop p buf)"
  have xs: "length xs = len" "xs ! k = 0" "xs ! Suc k = 0"
    using assms(1,4-6) by (simp_all add: xs_def)
  have c: "c = checksum_finalize (of_nat (dword_sum xs) + of_nat 0)"
    using assms(7) by (simp add: ipv4_checksum_def checksum_add_eq [OF assms(1)] xs_def)
  note slice = field_slice [OF assms(1) _ assms(8), folded xs_def]
  have ys: "take len (drop p buf') = take k xs @ enc16 c @ drop (k + 2) xs" and len: "length buf' = length buf"
    using slice assms(4) by simp_all
  have "checksum_finalize (of_nat (dword_sum (take k xs @ enc16 c @ drop (k + 2) xs)) + of_nat 0) = 0"
    using xs assms(2,3,4) c by (intro checksum_field_verifies) simp_all
  then show ?thesis
    using checksum_add_eq [of p len buf' 0] assms(1) len ys by (simp add: ipv4_checksum_def)
qed

definition ip_header_example :: "u8 list" where
  "ip_header_example = [0x45, 0, 0, 0x54, 0, 0, 0x40, 0, 64, 17, 0, 0, 10, 0, 2, 15, 10, 0, 2, 2]"

lemma ipv4_checksum_verifies_example:
  "\<exists>c buf'. ipv4_checksum ip_header_example 0 20 = Some c
     \<and> st_bytes ip_header_example 10 (enc16 c) = Some buf' \<and> ipv4_checksum buf' 0 20 = Some 0"
proof -
  have len: "length ip_header_example = 20" by (simp add: ip_header_example_def)
  obtain c where c: "ipv4_checksum ip_header_example 0 20 = Some c"
    using checksum_add_eq [of 0 20 ip_header_example 0] len by (simp add: ipv4_checksum_def)
  obtain buf' where b: "st_bytes ip_header_example 10 (enc16 c) = Some buf'"
    using len by (simp add: st_bytes_def)
  have "ipv4_checksum buf' 0 20 = Some 0"
    by (rule ipv4_checksum_verifies [where k = 10 and buf = ip_header_example and c = c])
      (simp_all add: len c b, simp_all add: ip_header_example_def)
  with c b show ?thesis by blast
qed

text \<open>The same for the UDP checksum over the datagram and the pseudo header.\<close>

definition pseudo_sum :: "u32 \<Rightarrow> u32 \<Rightarrow> nat \<Rightarrow> nat" where
  "pseudo_sum src_ip dest_ip len = unat (src_ip AND 0xffff) + unat (drop_bit 16 src_ip) + unat (dest_ip AND 0xffff)
      + unat (drop_bit 16 dest_ip) + unat (htons (ucast IPPROTO_UDP)) + unat (htons (of_nat len))"

lemma word32_halves: "unat (w AND 0xffff) = unat w mod 65536" "unat (drop_bit 16 w) = unat w div 65536" for w :: u32
proof -
  have "(0xffff :: u32) = mask 16" by (simp add: mask_eq_exp_minus_1)
  then show "unat (w AND 0xffff) = unat w mod 65536" by (simp only: unat_mask_and) simp
  show "unat (drop_bit 16 w) = unat w div 65536"
    by (simp only: unat_drop_bit_eq) (simp add: drop_bit_eq_div)
qed

lemma pseudo_sum_small: "pseudo_sum src_ip dest_ip len < 2 ^ 20"
proof -
  have "unat (w AND 0xffff) < 65536" "unat (drop_bit 16 w) < 65536" for w :: u32
    using unat_lt [of w] by (simp_all add: word32_halves)
  moreover have "unat w < 65536" for w :: u16 using unat_lt [of w] by simp
  ultimately have "unat (src_ip AND 0xffff) < 65536" "unat (drop_bit 16 src_ip) < 65536" "unat (dest_ip AND 0xffff) < 65536"
      "unat (drop_bit 16 dest_ip) < 65536" "unat (htons (ucast IPPROTO_UDP)) < 65536" "unat (htons (of_nat len)) < 65536"
    by blast+
  then have "pseudo_sum src_ip dest_ip len < 1048576" unfolding pseudo_sum_def by linarith
  then show ?thesis by simp
qed

lemma udp_checksum_eq:
  "p + len \<le> length b \<Longrightarrow> udp_checksum b p len dest_ip src_ip =
      Some (checksum_finalize (of_nat (dword_sum (take len (drop p b))) + of_nat (pseudo_sum src_ip dest_ip len)))"
  using checksum_add_eq [of p len b 0] by (simp add: udp_checksum_def pseudo_sum_def ac_simps)

text \<open>The same for the UDP checksum over the datagram and the pseudo header.\<close>

lemma udp_checksum_zero:
  assumes "p + len \<le> length buf" and "len < 2 ^ 16" and "even k" and "k + 2 \<le> len"
    and "buf ! (p + k) = 0" and "buf ! (p + Suc k) = 0"
    and "udp_checksum buf p len dest_ip src_ip = Some c" and "st_bytes buf (p + k) (enc16 c) = Some buf'"
  shows "udp_checksum buf' p len dest_ip src_ip = Some 0" and "length buf' = length buf"
proof -
  define xs where "xs = take len (drop p buf)"
  define extra where "extra = pseudo_sum src_ip dest_ip len"
  have xs: "length xs = len" "xs ! k = 0" "xs ! Suc k = 0"
    using assms(1,4-6) by (simp_all add: xs_def)
  have c: "c = checksum_finalize (of_nat (dword_sum xs) + of_nat extra)"
    using assms(7) udp_checksum_eq [OF assms(1)] by (simp add: xs_def extra_def)
  note slice = field_slice [OF assms(1) _ assms(8), folded xs_def]
  have ys: "take len (drop p buf') = take k xs @ enc16 c @ drop (k + 2) xs" and len: "length buf' = length buf"
    using slice assms(4) by simp_all
  have "checksum_finalize (of_nat (dword_sum (take k xs @ enc16 c @ drop (k + 2) xs)) + of_nat extra) = 0"
    using xs assms(2,3,4) c pseudo_sum_small by (intro checksum_field_verifies) (simp_all add: extra_def)
  then show "udp_checksum buf' p len dest_ip src_ip = Some 0"
    using udp_checksum_eq [of p len buf'] assms(1) len ys by (simp add: extra_def)
  show "length buf' = length buf" by (rule len)
qed

subsection \<open>The checksum of RFC 768\<close>

text \<open>The specification, in the terms of the RFCs: the one's complement sum (with end-around carry) of the 16-bit words, in
  network byte order, of the pseudo header and the datagram, an odd byte at the end padded with zero.\<close>

definition oc_add :: "nat \<Rightarrow> nat \<Rightarrow> nat" where
  "oc_add a b = (if a + b < 65536 then a + b else a + b - 65535)"

fun be_word :: "u8 list \<Rightarrow> nat" where
  "be_word [a, b] = 256 * unat a + unat b"
| "be_word _ = 0"

fun oc_sum :: "u8 list \<Rightarrow> nat" where
  "oc_sum [] = 0"
| "oc_sum [a] = be_word [a, 0]"
| "oc_sum (a # b # r) = oc_add (be_word [a, b]) (oc_sum r)"

definition pseudo_header :: "u32 \<Rightarrow> u32 \<Rightarrow> nat \<Rightarrow> u8 list" where
  "pseudo_header src_ip dest_ip len = enc32 src_ip @ enc32 dest_ip @ [0, 17] @ [of_nat (len div 256), of_nat (len mod 256)]"

lemma be_word_less: "be_word [a, b] < 65536"
  using unat_lt [of a] unat_lt [of b] by simp

lemma oc_add_spec:
  assumes "a < 65536" and "b < 65536"
  shows "oc_add a b < 65536" and "oc_add a b mod 65535 = (a + b) mod 65535" and "oc_add a b = 0 \<longleftrightarrow> a = 0 \<and> b = 0"
  using assms by (auto simp: oc_add_def le_mod_geq)

lemma oc_sum_less: "oc_sum bs < 65536"
  by (induction bs rule: oc_sum.induct) (use be_word_less oc_add_spec(1) in \<open>simp_all del: be_word.simps\<close>)

lemma oc_sum_zero: "oc_sum bs = 0 \<longleftrightarrow> (\<forall>b\<in>set bs. b = 0)"
proof (induction bs rule: oc_sum.induct)
  case (3 a b r)
  then show ?case using oc_add_spec(3) [OF be_word_less oc_sum_less, of a b r] by (auto simp: unat_eq_0)
qed (simp_all add: unat_eq_0)

text \<open>Swapping the bytes of every word multiplies the sum by 256.\<close>

lemma oc_sum_mod: "oc_sum bs mod 65535 = (256 * word_sum bs) mod 65535"
proof (induction bs rule: oc_sum.induct)
  case (3 a b r)
  have "oc_sum (a # b # r) mod 65535 = (be_word [a, b] + oc_sum r) mod 65535"
    using oc_add_spec(2) [OF be_word_less oc_sum_less] by simp
  also have "\<dots> = (be_word [a, b] + unat b * 65535 + 256 * word_sum r) mod 65535"
    using 3 by (intro mod_add_cong) (simp_all only: mod_mult_self1)
  also have "be_word [a, b] + unat b * 65535 + 256 * word_sum r = 256 * word_sum (a # b # r)" by simp
  finally show ?case .
qed simp_all

lemma enc16_bytes: "\<exists>l h. enc16 c = [l, h] \<and> unat c = unat l + 256 * unat h"
proof -
  obtain l h where e: "enc16 c = [l, h]"
    using length_enc(1) [of c] by (cases "enc16 c"; cases "tl (enc16 c)") auto
  then show ?thesis using word_sum_enc16 [of c] by auto
qed

lemma residue_unique:
  fixes a b :: nat
  assumes "a < 65536" and "b < 65536" and "0 < a" and "0 < b" and "a mod 65535 = b mod 65535"
  shows "a = b"
proof -
  have m: "n mod 65535 = (if n = 65535 then 0 else n)" if "n < 65536" for n :: nat using that by auto
  show ?thesis using assms m [OF assms(1)] m [OF assms(2)] by (simp split: if_splits)
qed

lemma finalize_network_order:
  assumes "0 < unat x" and "s < 65536" and "0 < s" and "s mod 65535 = (256 * unat x) mod 65535"
  shows "be_word (enc16 (checksum_finalize x)) = 65535 - s"
proof -
  define f where "f = unat (checksum_fold x)"
  have f: "f mod 65535 = unat x mod 65535" "f < 65536" "f \<noteq> 0"
    using checksum_fold_spec [of x] assms(1) by (auto simp: f_def unat_eq_0)
  obtain l h where c: "enc16 (checksum_finalize x) = [l, h]" "65535 - f = unat l + 256 * unat h"
    using enc16_bytes [of "checksum_finalize x"] unfolding unat_finalize f_def by auto
  define g where "g = 65535 - be_word [l, h]"
  have lh: "unat l < 256" "unat h < 256" using unat_lt [of l] unat_lt [of h] by simp_all
  define k where "k = 255 - unat h"
  have "f + unat l + 256 * unat h = 65535" "g + 256 * unat l + unat h = 65535" "k + unat h = 255"
    using c(2) f(2) lh by (simp_all add: g_def k_def)
  then have "256 * f = g + k * 65535" "0 < g" using f(3) lh by linarith+
  then have "g mod 65535 = (256 * f) mod 65535" by (simp only: mod_mult_self1)
  also have "\<dots> = (256 * unat x) mod 65535" by (rule mod_mult_cong [OF refl f(1)])
  also have "\<dots> = s mod 65535" by (rule assms(4) [symmetric])
  finally have m: "g mod 65535 = s mod 65535" .
  have "g < 65536" by (simp add: g_def)
  then have "g = s" by (rule residue_unique [OF _ assms(2) \<open>0 < g\<close> assms(3) m])
  moreover have "be_word [l, h] < 65536" by (rule be_word_less)
  ultimately show ?thesis using c(1) by (simp add: g_def)
qed

lemma word_sum_enc32: "word_sum (enc32 w) = unat w mod 65536 + unat w div 65536"
proof -
  obtain a b c d where e: "enc32 w = [a, b, c, d]" using list4 [of "enc32 w"] by auto
  have "unat w = le_dec (enc32 w)" using unat_dec(2) [of "enc32 w"] by simp
  then have "unat w = (unat a + 256 * unat b) + 65536 * (unat c + 256 * unat d)" by (simp add: e)
  moreover have "unat a + 256 * unat b < 65536" using be_word_less [of b a] by simp
  ultimately have "unat w mod 65536 = unat a + 256 * unat b" "unat w div 65536 = unat c + 256 * unat d"
    by (simp_all only: mod_mult_self2 mod_less div_mult_self2 div_less)
  then show ?thesis by (simp add: e)
qed

lemma pseudo_header_sum: "len < 65536 \<Longrightarrow> word_sum (pseudo_header src_ip dest_ip len) = pseudo_sum src_ip dest_ip len"
proof -
  assume len: "len < 65536"
  have h: "unat (htons (ucast IPPROTO_UDP)) = 4352"
    by (simp add: htons_def bswap16_num IPPROTO_UDP_def)
  have l: "unat (htons (of_nat len)) = len div 256 + 256 * (len mod 256)"
    using len by (simp add: htons_def bswap16_num unat_of_nat del: of_nat_add of_nat_mult)
  show ?thesis
    using len by (simp add: pseudo_header_def pseudo_sum_def word_sum_append word_sum_enc32 word32_halves h l unat_of_nat)
qed

lemma even_pseudo_header: "even (length (pseudo_header src_ip dest_ip len))"
  by (simp add: pseudo_header_def)

lemma udp_checksum_rfc768:
  assumes "p + len \<le> length b" and "len < 2 ^ 16" and "udp_checksum b p len dest_ip src_ip = Some c"
  shows "be_word (enc16 c) = 65535 - oc_sum (pseudo_header src_ip dest_ip len @ take len (drop p b))"
proof -
  define xs where "xs = take len (drop p b)"
  define all where "all = pseudo_header src_ip dest_ip len @ xs"
  define x :: u64 where "x = of_nat (dword_sum xs) + of_nat (pseudo_sum src_ip dest_ip len)"
  have len: "length xs < 2 ^ 16" using assms(1,2) by (simp add: xs_def)
  then have "Suc (length xs div 4) \<le> 2 ^ 16" by simp
  then have "dword_sum xs < 2 ^ 32 * 2 ^ 16" using dword_sum_bound [of xs] by (meson less_le_trans mult_le_mono2)
  then have ux: "unat x = dword_sum xs + pseudo_sum src_ip dest_ip len"
    using pseudo_sum_small [of src_ip dest_ip len] dword_sum_unat [of xs] len
    by (simp add: x_def unat_add_no_wrap unat_of_nat)
  have c: "c = checksum_finalize x"
    using assms(3) udp_checksum_eq [OF assms(1)] by (simp add: x_def xs_def)
  have ws: "word_sum all = pseudo_sum src_ip dest_ip len + word_sum xs"
    using assms(2) by (simp add: all_def word_sum_append even_pseudo_header pseudo_header_sum)
  have "oc_sum all mod 65535 = (256 * (pseudo_sum src_ip dest_ip len + word_sum xs)) mod 65535" by (simp add: oc_sum_mod ws)
  also have "\<dots> = (256 * unat x) mod 65535"
  proof (rule mod_mult_cong [OF refl])
    show "(pseudo_sum src_ip dest_ip len + word_sum xs) mod 65535 = unat x mod 65535"
      unfolding ux add.commute [of "dword_sum xs"] by (rule mod_add_cong [OF refl dword_sum_mod [symmetric]])
  qed
  finally have "oc_sum all mod 65535 = (256 * unat x) mod 65535" .
  moreover have "17 \<in> set all" by (simp add: all_def pseudo_header_def)
  then have "oc_sum all \<noteq> 0" unfolding oc_sum_zero by fastforce
  moreover have "0 < unat x"
  proof -
    have "0 < pseudo_sum src_ip dest_ip len" by (simp add: pseudo_sum_def htons_def bswap16_num IPPROTO_UDP_def)
    then show ?thesis by (simp add: ux)
  qed
  ultimately have "be_word (enc16 (checksum_finalize x)) = 65535 - oc_sum all"
    by (intro finalize_network_order) (simp_all add: oc_sum_less)
  then show ?thesis by (simp add: c all_def xs_def)
qed

text \<open>A checksum stored in its field makes the sum 0xffff.\<close>

lemma udp_field_sum:
  assumes "p + len \<le> length buf" and "len < 2 ^ 16" and "even k" and "k + 2 \<le> len"
    and "buf ! (p + k) = 0" and "buf ! (p + Suc k) = 0"
    and "udp_checksum buf p len dest_ip src_ip = Some c" and "st_bytes buf (p + k) (enc16 c) = Some buf'"
  shows "oc_sum (pseudo_header src_ip dest_ip len @ take len (drop p buf')) = 65535"
proof -
  have "be_word (enc16 0) = 65535 - oc_sum (pseudo_header src_ip dest_ip len @ take len (drop p buf'))"
    using assms(1,2) udp_checksum_zero [OF assms] by (intro udp_checksum_rfc768) simp_all
  moreover have "be_word (enc16 0) = 0" by code_simp
  ultimately show ?thesis
    using oc_sum_less [of "pseudo_header src_ip dest_ip len @ take len (drop p buf')"] by simp
qed

lemma ipv4_zero_sum:
  assumes "p + len \<le> length b" and "len < 2 ^ 32" and "ipv4_checksum b p len = Some 0"
  shows "oc_sum (take len (drop p b)) = 65535"
proof -
  define xs where "xs = take len (drop p b)"
  define f where "f = checksum_fold (of_nat (dword_sum xs))"
  have d: "unat (of_nat (dword_sum xs) :: u64) = dword_sum xs" using assms(1,2) by (intro dword_sum_unat) (simp add: xs_def)
  have "checksum_finalize (of_nat (dword_sum xs)) = 0"
    using assms(3) checksum_add_eq [OF assms(1), of 0] by (simp add: ipv4_checksum_def xs_def)
  then have "65535 - unat f = 0" by (metis f_def unat_finalize unat_0)
  then have f: "unat f = 65535" using checksum_fold_spec [of "of_nat (dword_sum xs)"] by (simp add: f_def)
  then have z: "dword_sum xs mod 65535 = 0" "dword_sum xs \<noteq> 0"
    using checksum_fold_spec [of "of_nat (dword_sum xs)"] d unfolding f_def [symmetric] by (auto intro: Nat.gr0I)
  have "oc_sum xs mod 65535 = (256 * dword_sum xs) mod 65535"
    unfolding oc_sum_mod by (rule mod_mult_cong [OF refl dword_sum_mod [symmetric]])
  also have "\<dots> = 0" using z(1) by (metis mod_mult_right_eq mult_0_right mod_0)
  finally have "oc_sum xs mod 65535 = 0" .
  moreover have "oc_sum xs \<noteq> 0" using z(2) by (simp add: oc_sum_zero dword_sum_zero)
  ultimately show ?thesis
    using residue_unique [of "oc_sum xs" 65535] oc_sum_less [of xs] by (simp add: xs_def)
qed

text \<open>C33: \<open>udp_checksum\<close> is the checksum of RFC 768. For a datagram of \<open>len\<close> bytes at \<open>p\<close> and the two addresses as they
  stand in memory, the returned value, in the bytes it is stored as, is the complement of the one's complement sum over the
  pseudo header (source, destination, zero, protocol 17, length) and the datagram. Stored over a zero field at an even offset
  of the datagram, it makes that sum 0xffff, which is what a receiver checks. The code sums 32-bit little-endian words; the
  specification sums 16-bit words in network order. (RFC 768 also has a result of zero sent as all ones, which the code does
  not do.)\<close>

theorem udp_checksum_verifies:
  assumes "p + len \<le> length buf" and "len < 2 ^ 16" and "even k" and "k + 2 \<le> len"
    and "buf ! (p + k) = 0" and "buf ! (p + Suc k) = 0"
  shows "\<exists>c buf'. udp_checksum buf p len dest_ip src_ip = Some c
     \<and> be_word (enc16 c) = 65535 - oc_sum (pseudo_header src_ip dest_ip len @ take len (drop p buf))
     \<and> st_bytes buf (p + k) (enc16 c) = Some buf'
     \<and> oc_sum (pseudo_header src_ip dest_ip len @ take len (drop p buf')) = 65535
     \<and> udp_checksum buf' p len dest_ip src_ip = Some 0"
proof -
  obtain c where c: "udp_checksum buf p len dest_ip src_ip = Some c" using udp_checksum_eq [OF assms(1)] by blast
  obtain buf' where b: "st_bytes buf (p + k) (enc16 c) = Some buf'" using assms(1,4) by (simp add: st_bytes_def)
  note z = udp_checksum_zero [OF assms c b]
  show ?thesis using c b z(1) udp_checksum_rfc768 [OF assms(1,2) c] udp_field_sum [OF assms c b] by blast
qed

definition udp_datagram_example :: "u8 list" where
  "udp_datagram_example = [0x04, 0xd2, 0, 7, 0, 11, 0, 0, 0x68, 0x69, 0x21]"

theorem udp_checksum_verifies_witness:
  "\<exists>c buf'. udp_checksum udp_datagram_example 0 11 0x0100000a 0x0200000a = Some c
     \<and> be_word (enc16 c) = 65535 - oc_sum (pseudo_header 0x0200000a 0x0100000a 11 @ udp_datagram_example)
     \<and> st_bytes udp_datagram_example 6 (enc16 c) = Some buf'
     \<and> oc_sum (pseudo_header 0x0200000a 0x0100000a 11 @ take 11 buf') = 65535"
proof -
  have d: "length udp_datagram_example = 11" "udp_datagram_example ! 6 = 0" "udp_datagram_example ! 7 = 0"
    by (simp_all add: udp_datagram_example_def)
  show ?thesis
    using udp_checksum_verifies [of 0 11 udp_datagram_example 6 "0x0100000a" "0x0200000a"] d by (auto simp: d)
qed

end
