(* ===== verification/Net.thy ===== *)
theory Net
  imports ArpCache Checksum IoQueue
begin

text \<open>
  The user-level network stack of \<^verbatim>\<open>usr/liblinux\<close>: packet buffers and headers, UDP and IP
  input and output (\<^verbatim>\<open>src/internal/ip.c\<close>), ARP (\<^verbatim>\<open>src/internal/arp.c\<close>), the Ethernet
  demultiplexer (\<^verbatim>\<open>src/internal/net.c\<close>) and the socket table
  (\<^verbatim>\<open>src/internal/socket.c\<close>, \<^verbatim>\<open>src/socket.c\<close>). All static variables are fields of one
  state. A received packet is a byte list with a view of two offsets. The layouts of
  \<^verbatim>\<open>struct udphdr\<close> and \<^verbatim>\<open>struct arphdr\<close> come from system headers that are not part of
  the repository; they are arguments, with the layouts of RFC 768 and RFC 826 as hypotheses.
  A failed \<open>assert\<close> ends the process and is \<open>None\<close>, like undefined behaviour.
\<close>

subsection \<open>Layouts and constants\<close>

record udp_layout =
  uh_source :: nat
  uh_dest :: nat
  uh_len :: nat
  uh_check :: nat
  sizeof_udphdr :: nat

definition rfc768 :: "udp_layout \<Rightarrow> bool" where
  "rfc768 L \<longleftrightarrow> L = \<lparr>uh_source = 0, uh_dest = 2, uh_len = 4, uh_check = 6, sizeof_udphdr = 8\<rparr>"

record arp_layout =
  ah_hrd :: nat
  ah_pro :: nat
  ah_hln :: nat
  ah_pln :: nat
  ah_op :: nat
  sizeof_arphdr :: nat
  ARPHRD_ETHER :: u16
  ARPOP_REQUEST :: u16
  ARPOP_REPLY :: u16

definition rfc826 :: "arp_layout \<Rightarrow> bool" where
  "rfc826 L \<longleftrightarrow> L = \<lparr>ah_hrd = 0, ah_pro = 2, ah_hln = 4, ah_pln = 5, ah_op = 6, sizeof_arphdr = 8,
     ARPHRD_ETHER = 1, ARPOP_REQUEST = 1, ARPOP_REPLY = 2\<rparr>"

definition ETH_P_IP :: u16 where "ETH_P_IP = 0x0800"
abbreviation ETH_P_ARP :: u16 where "ETH_P_ARP \<equiv> 0x0806"
definition IP_DF :: u16 where "IP_DF = 0x4000"
definition IP_MF :: u16 where "IP_MF = 0x2000"
definition IP_OFFMASK :: u16 where "IP_OFFMASK = 0x1fff"
definition AF_INET :: int where "AF_INET = 2"
definition SOCK_DGRAM :: int where "SOCK_DGRAM = 2"
definition MAX_SOCKETS :: nat where "MAX_SOCKETS = 8"
definition SOCKET_FD_OFFSET :: int where "SOCKET_FD_OFFSET = 100"

text \<open>Sizes of \<^verbatim>\<open>struct ethhdr\<close>, \<^verbatim>\<open>struct iphdr\<close>, \<^verbatim>\<open>struct arp_ip4\<close> and
  \<^verbatim>\<open>struct sockaddr_in\<close>, whose family is a 32-bit integer.\<close>

definition sizeof_ethhdr :: nat where "sizeof_ethhdr = 14"
definition sizeof_iphdr :: nat where "sizeof_iphdr = 20"
definition sizeof_arp_ip4 :: nat where "sizeof_arp_ip4 = 20"
definition sizeof_sockaddr_in :: u32 where "sizeof_sockaddr_in = 12"

lemmas net_sizes = sizeof_ethhdr_def sizeof_iphdr_def sizeof_arp_ip4_def

record sockaddr_in =
  sin_family :: u32
  sin_port :: u16
  s_addr :: u32

datatype socket_operations = udp_socket_ops

record sock =
  sk_ops :: "socket_operations option"
  sk_local_port :: u16
  sk_rx_buffer :: "u8 list"

record packet_view =
  pv_start :: nat
  pv_end :: nat

record packet_buf =
  pb_buf :: "u8 list"
  pb_len :: u64
  pb_capacity :: u64

record net_state =
  n_sockets :: "sock list"
  n_nr_sockets :: nat
  n_errno :: int
  n_arp_cache :: arp_cache
  n_eth_ioqueue :: atomic_ring_buffer
  n_host_ip :: u32
  n_mac_addr :: "u8 list"
  n_ip_datagrams_dropped :: u64
  n_packets_dropped :: u64
  n_tx_buf :: "u8 list"
  n_tx_buf_addr :: u64
  n_arp_tx_buf :: "u8 list"
  n_arp_tx_buf_addr :: u64

subsection \<open>Typed access\<close>

definition ld16 :: "u8 list \<Rightarrow> nat \<Rightarrow> u16 option" where "ld16 m p = map_option dec16 (ld_bytes m p 2)"
definition ld32 :: "u8 list \<Rightarrow> nat \<Rightarrow> u32 option" where "ld32 m p = map_option dec32 (ld_bytes m p 4)"

text \<open>Stores of several fields, in order.\<close>

fun st_fields :: "u8 list \<Rightarrow> (nat \<times> u8 list) list \<Rightarrow> u8 list option" where
  "st_fields m [] = Some m"
| "st_fields m ((p, bs) # fs) = do { m' \<leftarrow> st_bytes m p bs; st_fields m' fs }"

subsection \<open>Packet views and buffers\<close>

definition packet_view_len :: "packet_view \<Rightarrow> nat" where
  "packet_view_len pk = pv_end pk - pv_start pk"

definition packet_view_trim :: "packet_view \<Rightarrow> nat \<Rightarrow> packet_view option" where
  "packet_view_trim pk sz =
     (if sz \<le> packet_view_len pk then Some (pk\<lparr>pv_start := pv_start pk + sz\<rparr>) else None)"

definition packet_buf_init :: "u8 list \<Rightarrow> u64 \<Rightarrow> packet_buf" where
  "packet_buf_init buf capacity = \<lparr>pb_buf = buf, pb_len = 0, pb_capacity = capacity\<rparr>"

text \<open>\<open>packet_buf_reserve\<close> returns the offset of the reserved space.\<close>

definition packet_buf_reserve :: "packet_buf \<Rightarrow> u64 \<Rightarrow> (nat \<times> packet_buf) option" where
  "packet_buf_reserve pk sz =
     (if pb_len pk + sz < pb_capacity pk
      then Some (unat (pb_len pk), pk\<lparr>pb_len := pb_len pk + sz\<rparr>) else None)"

definition packet_buf_append :: "packet_buf \<Rightarrow> u8 list \<Rightarrow> u64 \<Rightarrow> packet_buf option" where
  "packet_buf_append pk buf len =
     do { (dst, pk) \<leftarrow> packet_buf_reserve pk len;
          b \<leftarrow> memcpy (pb_buf pk) dst buf 0 (unat len);
          Some (pk\<lparr>pb_buf := b\<rparr>) }"

subsection \<open>Headers\<close>

definition ethhdr_append :: "packet_buf \<Rightarrow> u8 list \<Rightarrow> u8 list \<Rightarrow> u16 \<Rightarrow> (nat \<times> packet_buf) option" where
  "ethhdr_append pk dest source proto =
     do { (ethh, pk) \<leftarrow> packet_buf_reserve pk (of_nat sizeof_ethhdr);
          b \<leftarrow> memcpy (pb_buf pk) ethh dest 0 ETH_ALEN;
          b \<leftarrow> memcpy b (ethh + 6) source 0 ETH_ALEN;
          b \<leftarrow> st_bytes b (ethh + 12) (enc16 (htons proto));
          Some (ethh, pk\<lparr>pb_buf := b\<rparr>) }"

text \<open>The two nibbles of the first byte are \<open>version\<close> and \<open>ihl\<close>.\<close>

definition iphdr_append :: "packet_buf \<Rightarrow> u16 \<Rightarrow> u8 \<Rightarrow> u32 \<Rightarrow> u32 \<Rightarrow> (nat \<times> packet_buf) option" where
  "iphdr_append pk tot_len proto dest_ip src_ip =
     do { (iph, pk) \<leftarrow> packet_buf_reserve pk (of_nat sizeof_iphdr);
          b \<leftarrow> st_fields (pb_buf pk)
                 [(iph, [push_bit 4 4 OR 5]), (iph + 1, [0]), (iph + 2, enc16 (htons tot_len)), (iph + 4, enc16 0),
                  (iph + 6, enc16 (htons IP_DF)), (iph + 8, [64]), (iph + 9, [proto]), (iph + 10, enc16 0),
                  (iph + 12, enc32 src_ip), (iph + 16, enc32 dest_ip)];
          Some (iph, pk\<lparr>pb_buf := b\<rparr>) }"

definition udphdr_append :: "udp_layout \<Rightarrow> packet_buf \<Rightarrow> u16 \<Rightarrow> u16 \<Rightarrow> u16 \<Rightarrow> (nat \<times> packet_buf) option" where
  "udphdr_append L pk len dest source =
     do { (udph, pk) \<leftarrow> packet_buf_reserve pk (of_nat (sizeof_udphdr L));
          b \<leftarrow> st_fields (pb_buf pk)
                 [(udph + uh_source L, enc16 source), (udph + uh_dest L, enc16 dest),
                  (udph + uh_len L, enc16 (htons len)), (udph + uh_check L, enc16 0)];
          Some (udph, pk\<lparr>pb_buf := b\<rparr>) }"

subsection \<open>UDP output and reception by the application\<close>

definition udp_sendto ::
  "udp_layout \<Rightarrow> u8 list \<Rightarrow> nat \<Rightarrow> u8 list \<Rightarrow> u64 \<Rightarrow> sockaddr_in option \<Rightarrow> u32 \<Rightarrow> net_state \<Rightarrow> (int \<times> net_state) option" where
  "udp_sendto L pad sk buf len dest_addr addrlen s =
     (if addrlen \<noteq> sizeof_sockaddr_in then Some (- 1, s\<lparr>n_errno := EINVAL\<rparr>)
      else do {
        saddr_in \<leftarrow> dest_addr;
        let src_ip = n_host_ip s;
        let dest_ip = s_addr saddr_in;
        arp \<leftarrow> arp_cache_lookup (n_arp_cache s) dest_ip;
        dest_arp \<leftarrow> arp;
        let src_arp = n_mac_addr s;
        let udp_len = (of_nat (sizeof_udphdr L) + ucast len :: u16);
        let ip_len = of_nat sizeof_iphdr + udp_len;
        let pk = packet_buf_init (n_tx_buf s) 4096;
        (_, pk) \<leftarrow> ethhdr_append pk dest_arp src_arp ETH_P_IP;
        (iph, pk) \<leftarrow> iphdr_append pk ip_len IPPROTO_UDP dest_ip src_ip;
        skt \<leftarrow> rd (n_sockets s) sk;
        (udph, pk) \<leftarrow> udphdr_append L pk udp_len (sin_port saddr_in) (sk_local_port skt);
        pk \<leftarrow> packet_buf_append pk buf len;
        check \<leftarrow> ipv4_checksum (pb_buf pk) iph sizeof_iphdr;
        b \<leftarrow> st_bytes (pb_buf pk) (iph + 10) (enc16 check);
        check \<leftarrow> udp_checksum b udph (unat udp_len) dest_ip src_ip;
        b \<leftarrow> st_bytes b (udph + uh_check L) (enc16 check);
        (_, q) \<leftarrow> io_submit pad (n_eth_ioqueue s) (n_tx_buf_addr s) (pb_len pk);
        Some (sint len, s\<lparr>n_tx_buf := b, n_eth_ioqueue := q\<rparr>) })"

text \<open>\<open>udp_recvfrom\<close>: the result, the caller's buffer, address and address length after the
  call, and the state. A null \<open>addrlen\<close> is read without a check.\<close>

definition udp_recvfrom ::
  "udp_layout \<Rightarrow> nat \<Rightarrow> u8 list \<Rightarrow> u64 \<Rightarrow> sockaddr_in option \<Rightarrow> u32 option \<Rightarrow> net_state
     \<Rightarrow> (int \<times> u8 list \<times> sockaddr_in option \<times> u32 option \<times> net_state) option" where
  "udp_recvfrom L sk buf len src_addr addrlen s =
     do { skt \<leftarrow> rd (n_sockets s) sk;
          let rx = sk_rx_buffer skt;
          let udph = sizeof_iphdr;
          nlen \<leftarrow> ld16 rx (udph + uh_len L);
          let udp_len = ntohs nlen;
          let data_off = sizeof_iphdr + sizeof_udphdr L;
          let data_len = (ucast udp_len - of_nat (sizeof_udphdr L) :: u64);
          alen \<leftarrow> addrlen;
          if alen < sizeof_sockaddr_in then Some (- 1, buf, src_addr, addrlen, s\<lparr>n_errno := EINVAL\<rparr>)
          else do {
            saddr_in \<leftarrow> src_addr;
            saddr \<leftarrow> ld32 rx 12;
            source \<leftarrow> ld16 rx (udph + uh_source L);
            let saddr_in' = saddr_in\<lparr>s_addr := saddr, sin_port := source\<rparr>;
            let nr = (if len < data_len then len else data_len);
            buf' \<leftarrow> memcpy buf 0 rx data_off (unat nr);
            Some (sint nr, buf', Some saddr_in', Some sizeof_sockaddr_in, s) } }"

subsection \<open>Input\<close>

fun lookup_by_flow_from :: "sock list \<Rightarrow> u16 \<Rightarrow> nat \<Rightarrow> nat \<Rightarrow> nat option option" where
  "lookup_by_flow_from sks local_port i 0 = Some None"
| "lookup_by_flow_from sks local_port i (Suc n) =
     (case rd sks i of None \<Rightarrow> None
      | Some sk \<Rightarrow> if sk_local_port sk = local_port then Some (Some i)
                  else lookup_by_flow_from sks local_port (Suc i) n)"

definition socket_lookup_by_flow :: "u16 \<Rightarrow> u16 \<Rightarrow> net_state \<Rightarrow> nat option option" where
  "socket_lookup_by_flow local_port foreign_port s = lookup_by_flow_from (n_sockets s) local_port 0 MAX_SOCKETS"

definition socket_input :: "nat \<Rightarrow> u8 list \<Rightarrow> packet_view \<Rightarrow> net_state \<Rightarrow> net_state option" where
  "socket_input sk pkt pk s =
     do { skt \<leftarrow> rd (n_sockets s) sk;
          rx \<leftarrow> memcpy (sk_rx_buffer skt) 0 pkt (pv_start pk) (packet_view_len pk);
          sks \<leftarrow> wr (n_sockets s) sk (skt\<lparr>sk_rx_buffer := rx\<rparr>);
          Some (s\<lparr>n_sockets := sks\<rparr>) }"

definition udp_input :: "udp_layout \<Rightarrow> u8 list \<Rightarrow> packet_view \<Rightarrow> net_state \<Rightarrow> (packet_view \<times> net_state) option" where
  "udp_input L pkt pk s =
     do { let udph = pv_start pk + sizeof_iphdr;
          nlen \<leftarrow> ld16 pkt (udph + uh_len L);
          let udp_len = ntohs nlen;
          dest \<leftarrow> ld16 pkt (udph + uh_dest L);
          source \<leftarrow> ld16 pkt (udph + uh_source L);
          found \<leftarrow> socket_lookup_by_flow dest source s;
          sk \<leftarrow> found;
          s \<leftarrow> socket_input sk pkt pk s;
          pk \<leftarrow> packet_view_trim pk (sizeof_iphdr + unat udp_len);
          Some (pk, s) }"

definition ip_is_fragment :: "u16 \<Rightarrow> bool" where
  "ip_is_fragment frag_off \<longleftrightarrow> frag_off AND IP_MF \<noteq> 0 \<or> frag_off AND IP_OFFMASK \<noteq> 0"

text \<open>\<open>ip_input\<close>; a dropped datagram leaves the view as it was.\<close>

definition ip_drop :: "packet_view \<Rightarrow> net_state \<Rightarrow> (bool \<times> packet_view \<times> net_state) option" where
  "ip_drop pk s = Some (False, pk, s\<lparr>n_ip_datagrams_dropped := n_ip_datagrams_dropped s + 1\<rparr>)"

definition ip_input ::
  "udp_layout \<Rightarrow> u8 list \<Rightarrow> packet_view \<Rightarrow> net_state \<Rightarrow> (bool \<times> packet_view \<times> net_state) option" where
  "ip_input L pkt pk s =
     (let iph = pv_start pk in
      if packet_view_len pk < sizeof_iphdr then ip_drop pk s
      else do {
        tot_len \<leftarrow> ld16 pkt (iph + 2);
        let ip_len = ntohs tot_len;
        if ip_len < of_nat sizeof_iphdr then ip_drop pk s
        else do {
          vihl \<leftarrow> rd pkt iph;
          if drop_bit 4 vihl \<noteq> 4 then ip_drop pk s
          else do {
            frag_off \<leftarrow> ld16 pkt (iph + 6);
            if ip_is_fragment (ntohs frag_off) then ip_drop pk s
            else do {
              protocol \<leftarrow> rd pkt (iph + 9);
              if protocol = IPPROTO_UDP
              then map_option (\<lambda>(pk, s). (True, pk, s)) (udp_input L pkt pk s)
              else ip_drop pk s } } } })"

definition arp_reply :: "arp_layout \<Rightarrow> u8 list \<Rightarrow> u8 list \<Rightarrow> nat \<Rightarrow> net_state \<Rightarrow> net_state option" where
  "arp_reply L pad pkt request_arph s =
     do { let request_arp = request_arph + sizeof_arphdr L;
          let arph = sizeof_ethhdr;
          let reply_arp = sizeof_ethhdr + sizeof_arphdr L;
          sip \<leftarrow> ld32 pkt (request_arp + 6);
          smac \<leftarrow> ld_bytes pkt request_arp ETH_ALEN;
          cache \<leftarrow> arp_cache_insert (n_arp_cache s) sip smac;
          tx \<leftarrow> memcpy (n_arp_tx_buf s) 0 pkt request_arp ETH_ALEN;
          tx \<leftarrow> memcpy tx 6 (n_mac_addr s) 0 ETH_ALEN;
          tx \<leftarrow> st_fields tx
            [(12, enc16 (htons ETH_P_ARP)), (arph + ah_hrd L, enc16 (htons (ARPHRD_ETHER L))),
             (arph + ah_pro L, enc16 (htons ETH_P_IP)), (arph + ah_hln L, [of_nat ETH_ALEN]),
             (arph + ah_pln L, [4]), (arph + ah_op L, enc16 (htons (ARPOP_REPLY L)))];
          tx \<leftarrow> memcpy tx reply_arp (n_mac_addr s) 0 ETH_ALEN;
          tx \<leftarrow> st_bytes tx (reply_arp + 6) (enc32 (n_host_ip s));
          tx \<leftarrow> memcpy tx (reply_arp + 10) pkt request_arp ETH_ALEN;
          tx \<leftarrow> st_bytes tx (reply_arp + 16) (enc32 sip);
          (_, q) \<leftarrow> io_submit pad (n_eth_ioqueue s) (n_arp_tx_buf_addr s)
                      (of_nat (sizeof_ethhdr + sizeof_arphdr L + sizeof_arp_ip4));
          Some (s\<lparr>n_arp_cache := cache, n_arp_tx_buf := tx, n_eth_ioqueue := q\<rparr>) }"

definition arp_input :: "arp_layout \<Rightarrow> u8 list \<Rightarrow> u8 list \<Rightarrow> packet_view \<Rightarrow> net_state \<Rightarrow> net_state option" where
  "arp_input L pad pkt pk s =
     do { op \<leftarrow> ld16 pkt (pv_start pk + ah_op L);
          if ntohs op = ARPOP_REQUEST L then arp_reply L pad pkt (pv_start pk) s else Some s }"

definition net_drop :: "packet_view \<Rightarrow> net_state \<Rightarrow> (bool \<times> packet_view \<times> net_state) option" where
  "net_drop pk s =
     do { pk' \<leftarrow> packet_view_trim pk (packet_view_len pk);
          Some (False, pk', s\<lparr>n_packets_dropped := n_packets_dropped s + 1\<rparr>) }"

definition net_input_one ::
  "udp_layout \<Rightarrow> arp_layout \<Rightarrow> u8 list \<Rightarrow> u8 list \<Rightarrow> packet_view \<Rightarrow> net_state \<Rightarrow> (bool \<times> packet_view \<times> net_state) option" where
  "net_input_one L A pad pkt pk s =
     (let ethh = pv_start pk in
      if packet_view_len pk < sizeof_ethhdr then net_drop pk s
      else do {
        pk \<leftarrow> packet_view_trim pk sizeof_ethhdr;
        h_proto \<leftarrow> ld16 pkt (ethh + 12);
        if h_proto = ntohs ETH_P_IP then ip_input L pkt pk s
        else if h_proto = ntohs ETH_P_ARP then
          do { s \<leftarrow> arp_input A pad pkt pk s; Some (False, pk, s) }
        else net_drop pk s })"

text \<open>Every round of the demultiplexer consumes at least one byte and never moves past the
  end, so the loop of \<open>net_input\<close> ends.\<close>

definition view_wf :: "packet_view \<Rightarrow> bool" where
  "view_wf pk \<longleftrightarrow> pv_start pk \<le> pv_end pk"

lemma packet_view_trim_Some:
  "packet_view_trim pk n = Some pk' \<longleftrightarrow> n \<le> packet_view_len pk \<and> pk' = pk\<lparr>pv_start := pv_start pk + n\<rparr>"
  by (auto simp: packet_view_trim_def)

lemma ip_input_view:
  assumes "ip_input L pkt pk s = Some (r, pk', s')"
  shows "pv_end pk' = pv_end pk \<and> pv_start pk \<le> pv_start pk' \<and> (view_wf pk \<longrightarrow> view_wf pk')"
  using assms
  by (auto simp: ip_input_def ip_drop_def udp_input_def packet_view_trim_Some packet_view_len_def view_wf_def Let_def
      split: if_splits bind_splits)

lemma net_input_one_view:
  assumes "net_input_one L A pad pkt pk s = Some (r, pk', s')" and "0 < packet_view_len pk"
  shows "pv_end pk' = pv_end pk \<and> pv_start pk < pv_start pk' \<and> view_wf pk'"
  using assms
  by (auto simp: net_input_one_def net_drop_def packet_view_trim_Some packet_view_len_def view_wf_def Let_def sizeof_ethhdr_def
      split: if_splits bind_splits dest!: ip_input_view)

function net_input_loop ::
  "udp_layout \<Rightarrow> arp_layout \<Rightarrow> u8 list \<Rightarrow> u8 list \<Rightarrow> bool \<Rightarrow> packet_view \<Rightarrow> net_state \<Rightarrow> (bool \<times> net_state) option" where
  "net_input_loop L A pad pkt ret pk s =
     (if 0 < packet_view_len pk then
        (case net_input_one L A pad pkt pk s of None \<Rightarrow> None
         | Some (r, pk', s') \<Rightarrow> net_input_loop L A pad pkt (ret \<or> r) pk' s')
      else Some (ret, s))"
  by pat_completeness auto
termination
  by (relation "measure (\<lambda>(_, _, _, _, _, pk, _). packet_view_len pk)")
    (auto simp: packet_view_len_def dest!: net_input_one_view)

declare net_input_loop.simps [simp del]

text \<open>\<open>net_input\<close> on a packet at address \<open>addr\<close>; the address and the length go back to the
  kernel in an \<open>io_complete\<close>.\<close>

definition net_input ::
  "udp_layout \<Rightarrow> arp_layout \<Rightarrow> u8 list \<Rightarrow> u8 list \<Rightarrow> u64 \<Rightarrow> packet_view \<Rightarrow> net_state \<Rightarrow> (bool \<times> net_state) option" where
  "net_input L A pad pkt addr pk s =
     do { (ret, s) \<leftarrow> net_input_loop L A pad pkt False pk s;
          (_, q) \<leftarrow> io_complete pad (n_eth_ioqueue s) addr (of_nat (packet_view_len pk));
          Some (ret, s\<lparr>n_eth_ioqueue := q\<rparr>) }"

end
