(* ===== verification/UdpPath.thy ===== *)
theory UdpPath
  imports Net
begin

text \<open>
  The path of a datagram: the frame that \<open>udp_sendto\<close> builds, byte by byte, and what
  \<open>net_input\<close> and \<open>udp_recvfrom\<close> of another host make of it; and what the demultiplexer
  does with the bytes behind a datagram.
\<close>

subsection \<open>Stores as a total function\<close>

definition splice :: "'a list \<Rightarrow> nat \<Rightarrow> 'a list \<Rightarrow> 'a list" where
  "splice m p bs = map (\<lambda>q. if p \<le> q \<and> q < p + length bs then bs ! (q - p) else m ! q) [0..<length m]"

lemma length_splice [simp]: "length (splice m p bs) = length m"
  by (simp add: splice_def)

lemma nth_splice [simp]:
  "q < length m \<Longrightarrow> splice m p bs ! q = (if p \<le> q \<and> q < p + length bs then bs ! (q - p) else m ! q)"
  by (simp add: splice_def)

lemma splice_conv: "p + length bs \<le> length m \<Longrightarrow> take p m @ bs @ drop (p + length bs) m = splice m p bs"
  by (rule nth_equalityI) (auto simp: nth_append)

lemma st_bytes_splice: "p + length bs \<le> length m \<Longrightarrow> st_bytes m p bs = Some (splice m p bs)"
  by (simp add: st_bytes_def splice_conv)

lemma memcpy_splice:
  "p + n \<le> length m \<Longrightarrow> n \<le> length src \<Longrightarrow> memcpy m p src 0 n = Some (splice m p (take n src))"
  using splice_conv [of p "take n src" m] by (simp add: memcpy_eq)

lemma take_drop_splice:
  assumes "p + length bs \<le> length m"
  shows "length bs = n \<Longrightarrow> take n (drop p (splice m p bs)) = bs"
    and "q + n \<le> p \<or> p + length bs \<le> q \<Longrightarrow> take n (drop q (splice m p bs)) = take n (drop q m)"
proof -
  show "take n (drop p (splice m p bs)) = bs" if "length bs = n"
    using assms that by (intro nth_equalityI) auto
  show "take n (drop q (splice m p bs)) = take n (drop q m)" if "q + n \<le> p \<or> p + length bs \<le> q"
    using assms that by (intro nth_equalityI) auto
qed

lemma ld16_nth: "Suc p < length m \<Longrightarrow> ld16 m p = Some (dec16 [m ! p, m ! Suc p])"
  by (simp add: ld16_def ld_bytes_def numeral_2_eq_2 drop_eq_nth_Cons)

lemma ld32_nth: "p + 3 < length m \<Longrightarrow> ld32 m p = Some (dec32 [m ! p, m ! Suc p, m ! (p + 2), m ! (p + 3)])"
  by (simp add: ld32_def ld_bytes_def eval_nat_numeral drop_eq_nth_Cons)

lemma enc16_nth: "dec16 [enc16 w ! 0, enc16 w ! Suc 0] = w"
proof -
  have "enc16 w = [enc16 w ! 0, enc16 w ! Suc 0]"
    by (rule nth_equalityI) (auto simp: numeral_2_eq_2 less_Suc_eq)
  then show ?thesis by (metis dec_enc(1))
qed

lemma enc32_nth: "dec32 [enc32 w ! 0, enc32 w ! Suc 0, enc32 w ! 2, enc32 w ! 3] = w"
proof -
  have "enc32 w = [enc32 w ! 0, enc32 w ! Suc 0, enc32 w ! 2, enc32 w ! 3]"
    by (rule nth_equalityI) (auto simp: numeral_2_eq_2 numeral_3_eq_3 eval_nat_numeral less_Suc_eq)
  then show ?thesis by (metis dec_enc(2))
qed

subsection \<open>The frame\<close>

definition udp_frame ::
  "u8 list \<Rightarrow> u8 list \<Rightarrow> u8 list \<Rightarrow> u32 \<Rightarrow> u32 \<Rightarrow> u16 \<Rightarrow> u16 \<Rightarrow> u8 list \<Rightarrow> u8 list" where
  "udp_frame tx dmac smac src_ip dest_ip sport dport data =
     (let b = splice (splice (splice tx 0 dmac) 6 smac) 12 (enc16 (htons ETH_P_IP));
          b = splice (splice (splice (splice (splice b 14 [push_bit 4 4 OR 5]) 15 [0])
                 16 (enc16 (htons (28 + of_nat (length data))))) 18 (enc16 0)) 20 (enc16 (htons IP_DF));
          b = splice (splice (splice (splice (splice b 22 [64]) 23 [IPPROTO_UDP]) 24 (enc16 0))
                 26 (enc32 src_ip)) 30 (enc32 dest_ip);
          b = splice (splice (splice (splice b 34 (enc16 sport)) 36 (enc16 dport))
                 38 (enc16 (htons (8 + of_nat (length data))))) 40 (enc16 0)
      in splice b 42 data)"

definition frame_ok :: "u8 list \<Rightarrow> u32 \<Rightarrow> u16 \<Rightarrow> u16 \<Rightarrow> u8 list \<Rightarrow> bool" where
  "frame_ok b src_ip sport dport data \<longleftrightarrow>
     length b = 4096 \<and> ld16 b 12 = Some (htons ETH_P_IP) \<and> b ! 14 = 0x45
     \<and> ld16 b 16 = Some (htons (28 + of_nat (length data))) \<and> ld16 b 20 = Some (htons IP_DF) \<and> b ! 23 = IPPROTO_UDP
     \<and> ld32 b 26 = Some src_ip \<and> ld16 b 34 = Some sport \<and> ld16 b 36 = Some dport
     \<and> ld16 b 38 = Some (htons (8 + of_nat (length data))) \<and> take (length data) (drop 42 b) = data"

text \<open>The rest of what the sender decides: the Ethernet and IP addresses, the other fields of the IP header, and the two
  checksums, by the one's complement sums that a receiver verifies.\<close>

definition wire_ok :: "u8 list \<Rightarrow> u8 list \<Rightarrow> u8 list \<Rightarrow> u32 \<Rightarrow> u32 \<Rightarrow> u16 \<Rightarrow> u16 \<Rightarrow> u8 list \<Rightarrow> bool" where
  "wire_ok b dmac smac src_ip dest_ip sport dport data \<longleftrightarrow>
     frame_ok b src_ip sport dport data \<and> take 6 b = dmac \<and> take 6 (drop 6 b) = smac
     \<and> b ! 15 = 0 \<and> ld16 b 18 = Some 0 \<and> b ! 22 = 64 \<and> ld32 b 30 = Some dest_ip
     \<and> oc_sum (take 20 (drop 14 b)) = 65535
     \<and> oc_sum (pseudo_header src_ip dest_ip (8 + length data) @ take (8 + length data) (drop 34 b)) = 65535"

text \<open>The two checksum fields are apart from all of these.\<close>

lemma frame_ok_checksums:
  assumes "frame_ok b src_ip sport dport data" and "length c = 2" and "length d = 2" and "42 + length data \<le> 4096"
  shows "frame_ok (splice (splice b 24 c) 40 d) src_ip sport dport data"
proof -
  have len: "length b = 4096" using assms(1) by (simp add: frame_ok_def)
  have "take (length data) (drop 42 (splice (splice b 24 c) 40 d)) = take (length data) (drop 42 b)"
    using assms(2-4) len by (intro nth_equalityI) auto
  then show ?thesis
    using assms len by (simp add: frame_ok_def ld16_nth ld32_nth)
qed

lemma frame_ok_udp_frame:
  assumes "length tx = 4096" and "length dmac = 6" and "length smac = 6" and "42 + length data \<le> 4096"
  shows "frame_ok (udp_frame tx dmac smac src_ip dest_ip sport dport data) src_ip sport dport data"
proof -
  define b where "b = udp_frame tx dmac smac src_ip dest_ip sport dport data"
  have len: "length b = 4096" using assms(1) by (simp add: b_def udp_frame_def Let_def)
  have "take (length data) (drop 42 b) = data"
    using assms by (intro nth_equalityI) (auto simp: b_def udp_frame_def Let_def)
  moreover have "b ! 14 = 0x45" "b ! 23 = IPPROTO_UDP"
    using assms by (simp_all add: b_def udp_frame_def Let_def)
  moreover have "ld16 b 12 = Some (htons ETH_P_IP)" "ld16 b 16 = Some (htons (28 + of_nat (length data)))"
      "ld16 b 20 = Some (htons IP_DF)" "ld16 b 34 = Some sport" "ld16 b 36 = Some dport"
      "ld16 b 38 = Some (htons (8 + of_nat (length data)))"
    using assms len by (simp_all add: ld16_nth b_def udp_frame_def Let_def enc16_nth)
  moreover have "ld32 b 26 = Some src_ip"
    using assms len by (simp add: ld32_nth b_def udp_frame_def Let_def enc32_nth)
  ultimately show ?thesis
    unfolding frame_ok_def b_def [symmetric] using len by simp
qed

lemma udp_frame_addresses:
  fixes src_ip dest_ip :: u32 and sport dport :: u16
  assumes "length tx = 4096" and "length dmac = 6" and "length smac = 6" and "42 + length data \<le> 4096"
    and "length c = 2" and "length d = 2"
  defines "f \<equiv> udp_frame tx dmac smac src_ip dest_ip sport dport data"
  shows "take 6 (splice (splice f 24 c) 40 d) = dmac" and "take 6 (drop 6 (splice (splice f 24 c) 40 d)) = smac"
    and "splice (splice f 24 c) 40 d ! 15 = 0" and "ld16 (splice (splice f 24 c) 40 d) 18 = Some 0"
    and "splice (splice f 24 c) 40 d ! 22 = 64" and "ld32 (splice (splice f 24 c) 40 d) 30 = Some dest_ip"
    and "f ! 24 = 0" and "f ! 25 = 0" and "f ! 40 = 0" and "f ! 41 = 0"
proof -
  have z: "enc16 0 = [0, 0]" by code_simp
  have len: "length f = 4096" using assms(1) by (simp add: f_def udp_frame_def Let_def)
  show "take 6 (splice (splice f 24 c) 40 d) = dmac" "take 6 (drop 6 (splice (splice f 24 c) 40 d)) = smac"
    using assms(1-6) by (auto intro!: nth_equalityI simp: f_def udp_frame_def Let_def)
  show "splice (splice f 24 c) 40 d ! 15 = 0" "splice (splice f 24 c) 40 d ! 22 = 64"
    using assms(1-6) by (simp_all add: f_def udp_frame_def Let_def)
  show "f ! 24 = 0" "f ! 25 = 0" "f ! 40 = 0" "f ! 41 = 0"
    using assms(1-6) by (simp_all add: f_def udp_frame_def Let_def z)
  show "ld16 (splice (splice f 24 c) 40 d) 18 = Some 0"
    using assms(1-6) len by (simp add: ld16_nth f_def udp_frame_def Let_def z dec16_def)
  show "ld32 (splice (splice f 24 c) 40 d) 30 = Some dest_ip"
    using assms(1-6) len by (simp add: ld32_nth f_def udp_frame_def Let_def enc32_nth)
qed

lemma ethhdr_append_frame:
  assumes "length tx = 4096" and "length dmac = 6" and "length smac = 6"
  shows "ethhdr_append (packet_buf_init tx 4096) dmac smac ETH_P_IP =
    Some (0, \<lparr>pb_buf = splice (splice (splice tx 0 dmac) 6 smac) 12 (enc16 (htons ETH_P_IP)), pb_len = 14, pb_capacity = 4096\<rparr>)"
  using assms
  by (simp add: ethhdr_append_def packet_buf_init_def packet_buf_reserve_def sizeof_ethhdr_def ETH_ALEN_def
      memcpy_splice st_bytes_splice)

lemma iphdr_append_frame:
  assumes "length b = 4096"
  shows "iphdr_append \<lparr>pb_buf = b, pb_len = 14, pb_capacity = 4096\<rparr> tot_len proto dest_ip src_ip =
    Some (14, \<lparr>pb_buf = splice (splice (splice (splice (splice (splice (splice (splice (splice (splice b
        14 [push_bit 4 4 OR 5]) 15 [0]) 16 (enc16 (htons tot_len))) 18 (enc16 0)) 20 (enc16 (htons IP_DF)))
        22 [64]) 23 [proto]) 24 (enc16 0)) 26 (enc32 src_ip)) 30 (enc32 dest_ip),
      pb_len = 34, pb_capacity = 4096\<rparr>)"
  using assms by (simp add: iphdr_append_def packet_buf_reserve_def sizeof_iphdr_def st_bytes_splice)

lemma udphdr_append_frame:
  assumes "rfc768 L" and "length b = 4096"
  shows "udphdr_append L \<lparr>pb_buf = b, pb_len = 34, pb_capacity = 4096\<rparr> len dest source =
    Some (34, \<lparr>pb_buf = splice (splice (splice (splice b 34 (enc16 source)) 36 (enc16 dest)) 38 (enc16 (htons len))) 40 (enc16 0),
      pb_len = 42, pb_capacity = 4096\<rparr>)"
  using assms by (simp add: rfc768_def udphdr_append_def packet_buf_reserve_def st_bytes_splice)

lemma packet_buf_append_frame:
  assumes "length b = 4096" and "42 + length data < 4096"
  shows "packet_buf_append \<lparr>pb_buf = b, pb_len = 42, pb_capacity = 4096\<rparr> data (of_nat (length data)) =
    Some \<lparr>pb_buf = splice b 42 data, pb_len = 42 + of_nat (length data), pb_capacity = 4096\<rparr>"
proof -
  have u: "unat (of_nat (length data) :: u64) = length data"
    using assms(2) by (intro unat_of_nat64) simp
  have "unat (42 + of_nat (length data) :: u64) = 42 + length data"
    using assms(2) by (subst unat_add_no_wrap) (simp_all add: u)
  then have "(42 + of_nat (length data) :: u64) < 4096"
    using assms(2) by (simp add: word_less_nat_alt)
  then show ?thesis
    using assms by (simp add: packet_buf_append_def packet_buf_reserve_def u memcpy_splice)
qed

text \<open>What \<open>udp_sendto\<close> leaves in the transmit buffer and in the I/O queue.\<close>

definition submitted :: "u8 list \<Rightarrow> net_state \<Rightarrow> u64 \<Rightarrow> nat \<Rightarrow> atomic_ring_buffer \<Rightarrow> bool" where
  "submitted pad s addr n q \<longleftrightarrow> io_queue_wf q \<and> ring_slots q = ring_slots (n_eth_ioqueue s)
     \<and> ring_list q = take (ring_slots (n_eth_ioqueue s) - 1)
         (ring_list (n_eth_ioqueue s) @ [cmd_bytes pad \<lparr>cmd_opcode = Submit, cmd_addr = addr, cmd_len = of_nat n\<rparr>])"

lemma io_submit_submitted:
  assumes "io_queue_wf (n_eth_ioqueue s)" and "length pad = 4"
  shows "\<exists>q. io_submit pad (n_eth_ioqueue s) addr (of_nat n) = Some (0, q) \<and> submitted pad s addr n q"
  using io_submit_list [OF assms, of addr "of_nat n"] by (auto simp: submitted_def)

lemma udp_sendto_frame:
  assumes L: "rfc768 L" and arp: "arp_cache_lookup (n_arp_cache s) (s_addr dst) = Some (Some dmac)" "length dmac = 6"
    and s: "length (n_tx_buf s) = 4096" "length (n_mac_addr s) = 6" "sk < length (n_sockets s)"
    and data: "42 + length data < 4096"
    and q: "io_queue_wf (n_eth_ioqueue s)" "length pad = 4"
  shows "\<exists>b q. udp_sendto L pad sk data (of_nat (length data)) (Some dst) sizeof_sockaddr_in s =
      Some (int (length data), s\<lparr>n_tx_buf := b, n_eth_ioqueue := q\<rparr>)
    \<and> wire_ok b dmac (n_mac_addr s) (n_host_ip s) (s_addr dst) (sk_local_port (n_sockets s ! sk)) (sin_port dst) data
    \<and> submitted pad s (n_tx_buf_addr s) (42 + length data) q"
proof -
  define f where "f = udp_frame (n_tx_buf s) dmac (n_mac_addr s) (n_host_ip s) (s_addr dst)
      (sk_local_port (n_sockets s ! sk)) (sin_port dst) data"
  have len: "length f = 4096" using s(1) by (simp add: f_def udp_frame_def Let_def)
  obtain q where q: "io_submit pad (n_eth_ioqueue s) (n_tx_buf_addr s) (42 + of_nat (length data)) = Some (0, q)"
      "submitted pad s (n_tx_buf_addr s) (42 + length data) q"
    using io_submit_submitted [OF q, of "n_tx_buf_addr s" "42 + length data"] by auto
  have cast: "(ucast (of_nat (length data) :: u64) :: u16) = of_nat (length data)"
    by (simp add: word_unat_eq_iff unsigned_ucast_eq unat_of_nat take_bit_eq_mod mod_mod_cancel)
  have ulen: "unat (8 + of_nat (length data) :: u16) = 8 + length data"
    using data by (subst unat_add_no_wrap) (simp_all add: unat_of_nat)
  have ret: "sint (of_nat (length data) :: u64) = int (length data)"
    using data by (simp add: sint_uint unsigned_of_nat signed_take_bit_int_eq_self take_bit_nat_eq_self)
  obtain c where c: "ipv4_checksum f 14 20 = Some c"
    using checksum_add_eq [of 14 20 f 0] len by (simp add: ipv4_checksum_def)
  define g where "g = splice f 24 (enc16 c)"
  obtain d where d: "udp_checksum g 34 (8 + length data) (s_addr dst) (n_host_ip s) = Some d"
    using checksum_add_eq [of 34 "8 + length data" g 0] len data by (simp add: udp_checksum_def g_def)
  define h where "h = splice g 40 (enc16 d)"
  have L': "sizeof_udphdr L = 8" "uh_check L = 6" using L by (simp_all add: rfc768_def)
  have snd: "udp_sendto L pad sk data (of_nat (length data)) (Some dst) sizeof_sockaddr_in s =
      Some (int (length data), s\<lparr>n_tx_buf := h, n_eth_ioqueue := q\<rparr>)"
    using c d q(1) len s arp ulen
    by (simp add: udp_sendto_def sizeof_sockaddr_in_def ethhdr_append_frame iphdr_append_frame udphdr_append_frame [OF L]
        packet_buf_append_frame data L' cast sizeof_iphdr_def st_bytes_splice ret f_def g_def h_def udp_frame_def Let_def add.assoc [symmetric])
  have fr: "frame_ok h (n_host_ip s) (sk_local_port (n_sockets s ! sk)) (sin_port dst) data"
    unfolding f_def g_def h_def using s arp(2) data by (intro frame_ok_checksums frame_ok_udp_frame) simp_all
  have d42: "42 + length data \<le> 4096" using data by simp
  note ad = udp_frame_addresses [OF s(1) arp(2) s(2) d42 length_enc(1) [of c] length_enc(1) [of d], of "n_host_ip s" "s_addr dst"
      "sk_local_port (n_sockets s ! sk)" "sin_port dst", folded f_def, folded g_def, folded h_def]
  have sg: "st_bytes f (14 + 10) (enc16 c) = Some g" and sh: "st_bytes g (34 + 6) (enc16 d) = Some h"
    using len by (simp_all add: st_bytes_splice g_def h_def)
  have "ipv4_checksum g 14 20 = Some 0"
    using ad(7,8) len c sg by (intro ipv4_checksum_verifies [where buf = f and k = 10 and c = c]) simp_all
  then have "oc_sum (take 20 (drop 14 g)) = 65535" using len by (intro ipv4_zero_sum) (simp_all add: g_def)
  moreover have "take 20 (drop 14 h) = take 20 (drop 14 g)" unfolding h_def using len by (intro take_drop_splice(2)) (simp_all add: g_def)
  moreover have "oc_sum (pseudo_header (n_host_ip s) (s_addr dst) (8 + length data) @ take (8 + length data) (drop 34 h)) = 65535"
    using data len d sh ad(9,10) by (intro udp_field_sum [where buf = g and k = 6 and c = d]) (simp_all add: g_def)
  ultimately have "wire_ok h dmac (n_mac_addr s) (n_host_ip s) (s_addr dst) (sk_local_port (n_sockets s ! sk)) (sin_port dst) data"
    using fr ad(1-6) by (simp add: wire_ok_def)
  then show ?thesis using snd q(2) by blast
qed

subsection \<open>The receiver\<close>

definition rx_state :: "nat \<Rightarrow> u8 list \<Rightarrow> net_state \<Rightarrow> net_state" where
  "rx_state k dgram t =
     t\<lparr>n_sockets := (n_sockets t)[k := (n_sockets t ! k)\<lparr>sk_rx_buffer :=
         dgram @ drop (length dgram) (sk_rx_buffer (n_sockets t ! k))\<rparr>]\<rparr>"

lemma ld16_take: "p + 2 \<le> n \<Longrightarrow> n \<le> length b \<Longrightarrow> ld16 (take n b) p = ld16 b p"
  by (simp add: ld16_def ld_bytes_def drop_take)

lemma ld32_take: "p + 4 \<le> n \<Longrightarrow> n \<le> length b \<Longrightarrow> ld32 (take n b) p = ld32 b p"
  by (simp add: ld32_def ld_bytes_def drop_take)

lemma ntohs_htons [simp]: "ntohs (htons w) = w"
  by (simp add: ntohs_def htons_def)

lemma net_input_one_frame:
  assumes L: "rfc768 L" and b: "frame_ok b src_ip sport dport data"
    and fits: "28 + length data \<le> 1500"
    and sock: "socket_lookup_by_flow dport sport t = Some (Some k)" "k < length (n_sockets t)"
      "length (sk_rx_buffer (n_sockets t ! k)) = 1500"
  defines "n \<equiv> 42 + length data"
  shows "net_input_one L A pad (take n b) \<lparr>pv_start = 0, pv_end = n\<rparr> t =
    Some (True, \<lparr>pv_start = n, pv_end = n\<rparr>, rx_state k (drop 14 (take n b)) t)"
proof -
  have len: "length b = 4096" using b by (simp add: frame_ok_def)
  have ip_len: "\<not> (28 + of_nat (length data) :: u16) < 20"
  proof -
    have "unat (28 + of_nat (length data) :: u16) = 28 + length data"
      using fits by (subst unat_add_no_wrap) (simp_all add: unat_of_nat)
    then show ?thesis by (simp add: word_less_nat_alt)
  qed
  have udp_len: "unat (8 + of_nat (length data) :: u16) = 8 + length data"
    using fits by (subst unat_add_no_wrap) (simp_all add: unat_of_nat)
  have cp: "memcpy (sk_rx_buffer (n_sockets t ! k)) 0 (take n b) 14 (28 + length data) =
      Some (drop 14 (take n b) @ drop (28 + length data) (sk_rx_buffer (n_sockets t ! k)))"
    using fits sock(3) len by (simp add: memcpy_eq n_def drop_take)
  have loads: "ld16 (take n b) 12 = Some (htons ETH_P_IP)" "ld16 (take n b) 16 = Some (htons (28 + of_nat (length data)))"
      "ld16 (take n b) 20 = Some (htons IP_DF)" "ld16 (take n b) 34 = Some sport" "ld16 (take n b) 36 = Some dport"
      "ld16 (take n b) 38 = Some (htons (8 + of_nat (length data)))"
      "rd (take n b) 14 = Some 0x45" "rd (take n b) 23 = Some IPPROTO_UDP"
    using b fits len by (simp_all add: frame_ok_def n_def ld16_take)
  have frag: "\<not> ip_is_fragment IP_DF"
    by (simp add: ip_is_fragment_def IP_DF_def IP_MF_def IP_OFFMASK_def)
  have ver: "drop_bit 4 (0x45 :: u8) = 4" by simp
  have L': "uh_source L = 0" "uh_dest L = 2" "uh_len L = 4" using L by (simp_all add: rfc768_def)
  have proto: "htons ETH_P_IP = ntohs ETH_P_IP" by (simp add: htons_def ntohs_def)
  show ?thesis
    using loads frag ip_len udp_len cp sock fits len ver
    by (simp add: net_input_one_def packet_view_len_def packet_view_trim_def net_sizes ip_input_def udp_input_def
        socket_input_def L' proto rx_state_def n_def Let_def)
qed

lemma udp_recvfrom_frame:
  assumes L: "rfc768 L" and b: "frame_ok b src_ip sport dport data" and fits: "28 + length data \<le> 1500"
    and sock: "k < length (n_sockets t)" "length (sk_rx_buffer (n_sockets t ! k)) = 1500"
    and buf: "length data \<le> length buf" "length data \<le> unat blen"
    and alen: "sizeof_sockaddr_in \<le> alen"
  shows "udp_recvfrom L k buf blen (Some a) (Some alen) (rx_state k (drop 14 (take (42 + length data) b)) t) =
    Some (int (length data), data @ drop (length data) buf, Some (a\<lparr>s_addr := src_ip, sin_port := sport\<rparr>),
      Some sizeof_sockaddr_in, rx_state k (drop 14 (take (42 + length data) b)) t)"
proof -
  have len: "length b = 4096" using b by (simp add: frame_ok_def)
  define rx where "rx = drop 14 (take (42 + length data) b) @ drop (28 + length data) (sk_rx_buffer (n_sockets t ! k))"
  have rlen: "length rx = 1500" using fits sock(2) len by (simp add: rx_def)
  have rxn: "rx ! q = b ! (14 + q)" if "q < 28 + length data" for q
    using that fits len by (simp add: rx_def nth_append)
  have f16: "ld16 rx p = ld16 b (14 + p)" if "p + 2 \<le> 28 + length data" for p
    using that fits len rlen by (simp add: ld16_nth rxn)
  have f32: "ld32 rx p = ld32 b (14 + p)" if "p + 4 \<le> 28 + length data" for p
    using that fits len rlen by (simp add: ld32_nth rxn)
  have loads: "ld16 rx 24 = Some (htons (8 + of_nat (length data)))" "ld16 rx 20 = Some sport" "ld32 rx 12 = Some src_ip"
    using b by (simp_all add: f16 f32 frame_ok_def)
  have "take (length data) (drop 28 rx) = take (length data) (drop 42 b)"
    using fits len rlen by (intro nth_equalityI) (auto simp: rxn)
  then have payload: "take (length data) (drop 28 rx) = data" using b by (simp add: frame_ok_def)
  have u16: "unat (8 + of_nat (length data) :: u16) = 8 + length data"
    using fits by (subst unat_add_no_wrap) (simp_all add: unat_of_nat)
  have dl: "(ucast (8 + of_nat (length data) :: u16) - 8 :: u64) = of_nat (length data)"
  proof -
    have "(ucast (8 + of_nat (length data) :: u16) :: u64) = of_nat (8 + length data)"
      unfolding word_unat_eq_iff using fits u16 by (simp add: unat_ucast64 unat_of_nat64 del: of_nat_add)
    then show ?thesis by simp
  qed
  have u64: "unat (of_nat (length data) :: u64) = length data"
    using fits by (intro unat_of_nat64) simp
  have nr: "\<not> blen < of_nat (length data)"
    using buf(2) u64 by (simp add: word_less_nat_alt)
  have ret: "sint (of_nat (length data) :: u64) = int (length data)"
    using fits by (simp add: sint_uint unsigned_of_nat signed_take_bit_int_eq_self take_bit_nat_eq_self)
  have cp: "memcpy buf 0 rx 28 (length data) = Some (data @ drop (length data) buf)"
    using fits rlen buf(1) payload by (simp add: memcpy_eq)
  have "sk_rx_buffer (n_sockets (rx_state k (drop 14 (take (42 + length data) b)) t) ! k) = rx"
    using sock len fits by (simp add: rx_state_def rx_def)
  moreover have "k < length (n_sockets (rx_state k (drop 14 (take (42 + length data) b)) t))"
    using sock by (simp add: rx_state_def)
  moreover have "\<not> alen < sizeof_sockaddr_in" using alen by simp
  ultimately show ?thesis
    using L loads cp nr u64
    by (simp add: udp_recvfrom_def rfc768_def sizeof_iphdr_def dl ret Let_def)
qed

subsection \<open>Properties\<close>

text \<open>C7: let a host whose ARP cache has an entry for the destination address send a payload of at most 1472 bytes (an
  Ethernet frame of 1514) with \<open>udp_sendto\<close>. The call returns the length; the transmit buffer holds a frame with correct
  addresses and checksums, and a command for it is appended to the I/O queue (when the queue is full it is dropped instead).
  On a host where a socket is bound to the destination port, with the library's receive buffer of 1500 bytes, the network
  input accepts that frame and consumes all of it, and \<open>udp_recvfrom\<close> with a buffer and an address structure that are large
  enough then returns the payload unchanged with the sender's address and port.\<close>

theorem udp_round_trip:
  assumes "rfc768 L" and "arp_cache_lookup (n_arp_cache s) (s_addr dst) = Some (Some dmac)" and "length dmac = 6"
    and "length (n_tx_buf s) = 4096" and "length (n_mac_addr s) = 6" and "sk < length (n_sockets s)"
    and "length data \<le> 1472" and "io_queue_wf (n_eth_ioqueue s)" and "length pad = 4"
    and "socket_lookup_by_flow (sin_port dst) (sk_local_port (n_sockets s ! sk)) t = Some (Some k)"
    and "k < length (n_sockets t)" and "length (sk_rx_buffer (n_sockets t ! k)) = 1500"
    and "length data \<le> length buf" and "length data \<le> unat blen" and "sizeof_sockaddr_in \<le> alen"
  defines "n \<equiv> 42 + length data"
  shows "\<exists>s' t'. udp_sendto L pad sk data (of_nat (length data)) (Some dst) sizeof_sockaddr_in s = Some (int (length data), s')
    \<and> wire_ok (n_tx_buf s') dmac (n_mac_addr s) (n_host_ip s) (s_addr dst) (sk_local_port (n_sockets s ! sk)) (sin_port dst) data
    \<and> submitted pad s (n_tx_buf_addr s) n (n_eth_ioqueue s')
    \<and> net_input_one L A pad (take n (n_tx_buf s')) \<lparr>pv_start = 0, pv_end = n\<rparr> t = Some (True, \<lparr>pv_start = n, pv_end = n\<rparr>, t')
    \<and> udp_recvfrom L k buf blen (Some a) (Some alen) t' =
        Some (int (length data), data @ drop (length data) buf,
          Some (a\<lparr>s_addr := n_host_ip s, sin_port := sk_local_port (n_sockets s ! sk)\<rparr>), Some sizeof_sockaddr_in, t')"
proof -
  have d: "28 + length data \<le> 1500" and d': "42 + length data < 4096" using assms(7) by simp_all
  obtain b q where b: "udp_sendto L pad sk data (of_nat (length data)) (Some dst) sizeof_sockaddr_in s =
      Some (int (length data), s\<lparr>n_tx_buf := b, n_eth_ioqueue := q\<rparr>)"
    "wire_ok b dmac (n_mac_addr s) (n_host_ip s) (s_addr dst) (sk_local_port (n_sockets s ! sk)) (sin_port dst) data"
    "submitted pad s (n_tx_buf_addr s) (42 + length data) q"
    using udp_sendto_frame [OF assms(1-6) d' assms(8,9)] by blast
  have f: "frame_ok b (n_host_ip s) (sk_local_port (n_sockets s ! sk)) (sin_port dst) data" using b(2) by (simp add: wire_ok_def)
  show ?thesis
    using b net_input_one_frame [OF assms(1) f d assms(10-12), of A pad]
      udp_recvfrom_frame [OF assms(1) f d assms(11-15), of a]
    by (intro exI conjI) (auto simp: n_def)
qed

definition udp_L :: udp_layout where
  "udp_L = \<lparr>uh_source = 0, uh_dest = 2, uh_len = 4, uh_check = 6, sizeof_udphdr = 8\<rparr>"

definition arp_L :: arp_layout where
  "arp_L = \<lparr>ah_hrd = 0, ah_pro = 2, ah_hln = 4, ah_pln = 5, ah_op = 6, sizeof_arphdr = 8,
     ARPHRD_ETHER = 1, ARPOP_REQUEST = 1, ARPOP_REPLY = 2\<rparr>"

definition udp_example_socket :: "u16 \<Rightarrow> sock" where
  "udp_example_socket port = \<lparr>sk_ops = Some udp_socket_ops, sk_local_port = port, sk_rx_buffer = replicate 1500 0\<rparr>"

definition udp_example_queue :: atomic_ring_buffer where
  "udp_example_queue = \<lparr>q_element_size = 24, q_capacity = 72, q_tail = 0, q_head = 0, q_data = replicate 72 0\<rparr>"

definition udp_example_state :: "u16 \<Rightarrow> net_state" where
  "udp_example_state port = \<lparr>n_sockets = udp_example_socket port # replicate 7 (udp_example_socket 0), n_nr_sockets = 1,
     n_errno = 0, n_arp_cache = \<lparr>ae_ip_addr = 0x0202000A, ae_mac_addr = [1, 2, 3, 4, 5, 6]\<rparr>
       # replicate 127 \<lparr>ae_ip_addr = 0, ae_mac_addr = replicate 6 0\<rparr>,
     n_eth_ioqueue = udp_example_queue, n_host_ip = 0x0F02000A, n_mac_addr = [9, 9, 9, 9, 9, 9],
     n_ip_datagrams_dropped = 0, n_packets_dropped = 0, n_tx_buf = replicate 4096 0, n_tx_buf_addr = 0x1000,
     n_arp_tx_buf = replicate 128 0, n_arp_tx_buf_addr = 0x3000\<rparr>"

definition udp_example_dst :: sockaddr_in where
  "udp_example_dst = \<lparr>sin_family = 2, sin_port = 0x611E, s_addr = 0x0202000A\<rparr>"

lemma udp_example_lookup:
  "arp_cache_lookup (n_arp_cache (udp_example_state port)) (s_addr udp_example_dst) = Some (Some [1, 2, 3, 4, 5, 6])"
proof -
  have "arp_wf (n_arp_cache (udp_example_state port))"
    by (auto simp: arp_wf_def udp_example_state_def ARP_CACHE_SIZE_eq ETH_ALEN_def nth_Cons split: nat.splits)
  then show ?thesis
    using arp_lookup_entry [of "n_arp_cache (udp_example_state port)" "s_addr udp_example_dst" 0]
    by (simp add: udp_example_state_def udp_example_dst_def)
qed

lemma udp_example_queue_wf: "io_queue_wf (n_eth_ioqueue (udp_example_state port))"
  by (simp add: io_queue_wf_def ring_wf_def ring_off_def udp_example_state_def udp_example_queue_def sizeof_io_cmd_def)

theorem udp_round_trip_witness:
  "\<exists>s' t'. udp_sendto udp_L [0, 0, 0, 0] 0 [104, 105] 2 (Some udp_example_dst) 12 (udp_example_state 0x0100) = Some (2, s')
    \<and> net_input_one udp_L arp_L [0, 0, 0, 0] (take 44 (n_tx_buf s')) \<lparr>pv_start = 0, pv_end = 44\<rparr> (udp_example_state 0x611E)
        = Some (True, \<lparr>pv_start = 44, pv_end = 44\<rparr>, t')
    \<and> udp_recvfrom udp_L 0 (replicate 8 0) 8 (Some udp_example_dst) (Some 16) t' =
        Some (2, [104, 105] @ replicate 6 0, Some (udp_example_dst\<lparr>s_addr := 0x0F02000A, sin_port := 0x0100\<rparr>), Some 12, t')"
proof -
  let ?s = "udp_example_state 0x0100" and ?t = "udp_example_state 0x611E"
  have flow: "socket_lookup_by_flow (sin_port udp_example_dst) (sk_local_port (n_sockets ?s ! 0)) ?t = Some (Some 0)"
    by (simp add: socket_lookup_by_flow_def MAX_SOCKETS_def eval_nat_numeral udp_example_state_def udp_example_socket_def udp_example_dst_def)
  have st: "length (n_tx_buf ?s) = 4096" "length (n_mac_addr ?s) = 6" "0 < length (n_sockets ?s)" "0 < length (n_sockets ?t)"
      "length (sk_rx_buffer (n_sockets ?t ! 0)) = 1500" "n_host_ip ?s = 0x0F02000A" "sk_local_port (n_sockets ?s ! 0) = 0x0100"
    by (simp_all add: udp_example_state_def udp_example_socket_def)
  have L: "rfc768 udp_L" by (simp add: rfc768_def udp_L_def)
  obtain s' t' where *: "udp_sendto udp_L [0, 0, 0, 0] 0 [104, 105] (of_nat (length [104 :: u8, 105])) (Some udp_example_dst)
        sizeof_sockaddr_in ?s = Some (int (length [104 :: u8, 105]), s')"
      "net_input_one udp_L arp_L [0, 0, 0, 0] (take (42 + length [104 :: u8, 105]) (n_tx_buf s'))
        \<lparr>pv_start = 0, pv_end = 42 + length [104 :: u8, 105]\<rparr> ?t
        = Some (True, \<lparr>pv_start = 42 + length [104 :: u8, 105], pv_end = 42 + length [104 :: u8, 105]\<rparr>, t')"
      "udp_recvfrom udp_L 0 (replicate 8 0) 8 (Some udp_example_dst) (Some 16) t' =
        Some (int (length [104 :: u8, 105]), [104, 105] @ drop (length [104 :: u8, 105]) (replicate 8 0),
          Some (udp_example_dst\<lparr>s_addr := n_host_ip ?s, sin_port := sk_local_port (n_sockets ?s ! 0)\<rparr>), Some sizeof_sockaddr_in, t')"
    using udp_round_trip [OF L udp_example_lookup _ st(1-3) _ udp_example_queue_wf _ flow st(4,5), of "[104, 105]" "[0, 0, 0, 0]"
        "replicate 8 0" 8 16 arp_L udp_example_dst]
    by (auto simp: sizeof_sockaddr_in_def)
  then show ?thesis
    by (simp add: sizeof_sockaddr_in_def st(6,7))
qed

text \<open>The reply to an ARP request, as the fields of the frame in the transmit buffer.\<close>

definition arp_reply_ok :: "u8 list \<Rightarrow> u8 list \<Rightarrow> u32 \<Rightarrow> u8 list \<Rightarrow> u32 \<Rightarrow> bool" where
  "arp_reply_ok tx smac sip my_mac my_ip \<longleftrightarrow>
     take 6 tx = smac \<and> take 6 (drop 6 tx) = my_mac \<and> ld16 tx 12 = Some (htons ETH_P_ARP)
     \<and> ld16 tx 14 = Some (htons 1) \<and> ld16 tx 16 = Some (htons 0x0800) \<and> tx ! 18 = 6 \<and> tx ! 19 = 4
     \<and> ld16 tx 20 = Some (htons 2) \<and> take 6 (drop 22 tx) = my_mac \<and> ld32 tx 28 = Some my_ip
     \<and> take 6 (drop 32 tx) = smac \<and> ld32 tx 38 = Some sip"

lemma memcpy_splice_from:
  "p + n \<le> length m \<Longrightarrow> si + n \<le> length src \<Longrightarrow> memcpy m p src si n = Some (splice m p (take n (drop si src)))"
  using splice_conv [of p "take n (drop si src)" m] by (simp add: memcpy_eq)

definition arp_reply_frame :: "u8 list \<Rightarrow> u8 list \<Rightarrow> u32 \<Rightarrow> u8 list \<Rightarrow> u32 \<Rightarrow> u8 list" where
  "arp_reply_frame tx smac sip my_mac my_ip =
     (let b = splice (splice tx 0 smac) 6 my_mac;
          b = splice (splice (splice (splice (splice (splice b 12 (enc16 (htons ETH_P_ARP))) 14 (enc16 (htons 1)))
                16 (enc16 (htons ETH_P_IP))) 18 [6]) 19 [4]) 20 (enc16 (htons 2))
      in splice (splice (splice (splice b 22 my_mac) 28 (enc32 my_ip)) 32 smac) 38 (enc32 sip))"

lemma arp_reply_frame_ok:
  assumes "length tx = 128" and "length smac = 6" and "length my_mac = 6"
  shows "arp_reply_ok (arp_reply_frame tx smac sip my_mac my_ip) smac sip my_mac my_ip"
proof -
  define f where "f = arp_reply_frame tx smac sip my_mac my_ip"
  have len: "length f = 128" using assms(1) by (simp add: f_def arp_reply_frame_def Let_def)
  have "take 6 f = smac" "take 6 (drop 6 f) = my_mac" "take 6 (drop 22 f) = my_mac" "take 6 (drop 32 f) = smac"
    using assms by (auto intro!: nth_equalityI simp: f_def arp_reply_frame_def Let_def)
  moreover have "ld16 f 12 = Some (htons ETH_P_ARP)" "ld16 f 14 = Some (htons 1)" "ld16 f 16 = Some (htons 0x0800)"
      "ld16 f 20 = Some (htons 2)"
    using assms len by (simp_all add: ld16_nth f_def arp_reply_frame_def Let_def enc16_nth ETH_P_IP_def)
  moreover have "f ! 18 = 6" "f ! 19 = 4" using assms by (simp_all add: f_def arp_reply_frame_def Let_def)
  moreover have "ld32 f 28 = Some my_ip" "ld32 f 38 = Some sip"
    using assms len by (simp_all add: ld32_nth f_def arp_reply_frame_def Let_def enc32_nth)
  ultimately show ?thesis by (simp add: arp_reply_ok_def f_def)
qed

text \<open>C34: let an ARP request arrive whose sender address is not 0, whichever address it asks about, while the cache knows
  the sender or has a free entry. The host then remembers the sender's addresses; what other addresses resolve to does not
  change; the transmit buffer holds a complete ARP reply (every field of the Ethernet and ARP headers) that is addressed to
  the sender and carries the host's own addresses; and a command for the 42 bytes is appended to the I/O queue, or dropped
  when the queue is full. When the sender is new and the cache is full, the call writes through a null pointer.\<close>

theorem arp_request_answered:
  assumes "rfc826 L" and "arp_wf (n_arp_cache s)"
    and "length (n_arp_tx_buf s) = 128" and "length (n_mac_addr s) = 6" and "p + 28 \<le> length pkt"
    and "ld16 pkt (p + 6) = Some (htons 1)" and "ld32 pkt (p + 14) = Some sip" and "sip \<noteq> 0"
    and "io_queue_wf (n_eth_ioqueue s)" and "length pad = 4"
  shows "if arp_used (n_arp_cache s) < ARP_CACHE_SIZE \<or> arp_cache_lookup (n_arp_cache s) sip \<noteq> Some None
     then \<exists>s'. arp_input L pad pkt \<lparr>pv_start = p, pv_end = e\<rparr> s = Some s'
       \<and> arp_cache_lookup (n_arp_cache s') sip = Some (Some (take 6 (drop (p + 8) pkt)))
       \<and> (\<forall>ip. ip \<noteq> 0 \<longrightarrow> ip \<noteq> sip \<longrightarrow> arp_cache_lookup (n_arp_cache s') ip = arp_cache_lookup (n_arp_cache s) ip)
       \<and> arp_reply_ok (n_arp_tx_buf s') (take 6 (drop (p + 8) pkt)) sip (n_mac_addr s) (n_host_ip s)
       \<and> submitted pad s (n_arp_tx_buf_addr s) 42 (n_eth_ioqueue s')
     else arp_input L pad pkt \<lparr>pv_start = p, pv_end = e\<rparr> s = None"
proof (cases "arp_used (n_arp_cache s) < ARP_CACHE_SIZE \<or> arp_cache_lookup (n_arp_cache s) sip \<noteq> Some None")
  case True
  define smac where "smac = take 6 (drop (p + 8) pkt)"
  have sm: "length smac = 6" using assms(5) by (simp add: smac_def)
  obtain q where q: "io_submit pad (n_eth_ioqueue s) (n_arp_tx_buf_addr s) 42 = Some (0, q)" "submitted pad s (n_arp_tx_buf_addr s) 42 q"
    using io_submit_submitted [OF assms(9,10), of "n_arp_tx_buf_addr s" 42] by auto
  obtain c where c: "arp_cache_insert (n_arp_cache s) sip smac = Some c"
      "arp_cache_lookup c sip = Some (Some smac)"
      "\<forall>ip. ip \<noteq> 0 \<longrightarrow> ip \<noteq> sip \<longrightarrow> arp_cache_lookup c ip = arp_cache_lookup (n_arp_cache s) ip"
    using arp.ins_room [OF assms(2,8), of smac] sm True by (auto simp: ETH_ALEN_def)
  have ld: "ld_bytes pkt (p + 8) 6 = Some smac"
    using assms(5) by (simp add: ld_bytes_def smac_def)
  have cp: "memcpy m i pkt (p + 8) 6 = Some (splice m i smac)" if "i + 6 \<le> length m" for m i
    using memcpy_splice_from [of i 6 m "p + 8" pkt] that assms(5) by (simp add: smac_def)
  have mac: "memcpy m i (n_mac_addr s) 0 6 = Some (splice m i (n_mac_addr s))" if "i + 6 \<le> length m" for m i
    using memcpy_splice [of i 6 m "n_mac_addr s"] that assms(4) by simp
  have off: "p + 8 + 6 = p + 14" by simp
  have "arp_reply L pad pkt p s =
      Some (s\<lparr>n_arp_cache := c, n_arp_tx_buf := arp_reply_frame (n_arp_tx_buf s) smac sip (n_mac_addr s) (n_host_ip s),
        n_eth_ioqueue := q\<rparr>)"
    using assms(1,3,7) q(1) c(1) ld sm
    by (simp add: arp_reply_def rfc826_def net_sizes ETH_ALEN_def off cp mac st_bytes_splice arp_reply_frame_def Let_def assms(4))
  then have "arp_input L pad pkt \<lparr>pv_start = p, pv_end = e\<rparr> s =
      Some (s\<lparr>n_arp_cache := c, n_arp_tx_buf := arp_reply_frame (n_arp_tx_buf s) smac sip (n_mac_addr s) (n_host_ip s),
        n_eth_ioqueue := q\<rparr>)"
    using assms(1,6) by (simp add: arp_input_def rfc826_def)
  then show ?thesis
    using True c q(2) arp_reply_frame_ok [OF assms(3) sm assms(4)] by (simp flip: smac_def)
next
  case False
  then have "arp_used (n_arp_cache s) = ARP_CACHE_SIZE" using arp.used_cap [OF assms(2)] by simp
  then have "arp_cache_insert (n_arp_cache s) sip m = None" for m using arp.ins_full [OF assms(2,8)] False by simp
  then have "arp_reply L pad pkt p s = None"
    using assms(1,7) by (simp add: arp_reply_def rfc826_def net_sizes Let_def add.commute [of 14 p] split: bind_split)
  then show ?thesis using False assms(1,6) by (simp add: arp_input_def rfc826_def)
qed

definition arp_example_packet :: "u8 list" where
  "arp_example_packet = [0, 1, 8, 0, 6, 4, 0, 1, 21, 22, 23, 24, 25, 26, 10, 0, 2, 9, 0, 0, 0, 0, 0, 0, 10, 0, 2, 15]"

lemma htons_1: "htons 1 = 256"
  by (simp add: htons_def bswap16_num)

theorem arp_request_answered_witness:
  "\<exists>s'. arp_input arp_L [0, 0, 0, 0] arp_example_packet \<lparr>pv_start = 0, pv_end = 28\<rparr> (udp_example_state 7) = Some s'
     \<and> arp_cache_lookup (n_arp_cache s') 0x0902000A = Some (Some [21, 22, 23, 24, 25, 26])"
proof -
  have wf: "arp_wf (n_arp_cache (udp_example_state 7))"
    by (auto simp: arp_wf_def udp_example_state_def ARP_CACHE_SIZE_eq ETH_ALEN_def nth_Cons split: nat.splits)
  have used: "arp_used (n_arp_cache (udp_example_state 7)) < ARP_CACHE_SIZE"
    by (simp add: arp_used_def udp_example_state_def ARP_CACHE_SIZE_eq filter_replicate)
  have op: "ld16 arp_example_packet (0 + 6) = Some (htons 1)"
    by (simp add: ld16_nth arp_example_packet_def htons_1 dec16_def)
  have sip: "ld32 arp_example_packet (0 + 14) = Some 0x0902000A"
    by (simp add: ld32_nth arp_example_packet_def dec32_def)
  have len: "0 + 28 \<le> length arp_example_packet" by (simp add: arp_example_packet_def)
  have tx: "length (n_arp_tx_buf (udp_example_state 7)) = 128" "length (n_mac_addr (udp_example_state 7)) = 6"
    by (simp_all add: udp_example_state_def)
  have L: "rfc826 arp_L" by (simp add: rfc826_def arp_L_def)
  obtain s' where "arp_input arp_L [0, 0, 0, 0] arp_example_packet \<lparr>pv_start = 0, pv_end = 28\<rparr> (udp_example_state 7) = Some s'"
      "arp_cache_lookup (n_arp_cache s') 0x0902000A = Some (Some (take 6 (drop (0 + 8) arp_example_packet)))"
    using arp_request_answered [OF L wf tx len op sip _ udp_example_queue_wf, of "[0, 0, 0, 0]" 28] used by auto
  then show ?thesis by (auto simp: arp_example_packet_def)
qed

text \<open>A dropped datagram is not skipped. When \<open>ip_input\<close> rejects a datagram, \<open>net_input\<close>
  goes on with the bytes behind the Ethernet header as if another Ethernet frame started
  there; the same holds for every ARP packet.\<close>

lemma rejected_bytes_parsed_again:
  assumes "sizeof_ethhdr \<le> packet_view_len pk" and "ld16 pkt (pv_start pk + 12) = Some proto"
    and "proto = ntohs ETH_P_IP \<and> ip_input L pkt (pk\<lparr>pv_start := pv_start pk + sizeof_ethhdr\<rparr>) s = ip_drop (pk\<lparr>pv_start := pv_start pk + sizeof_ethhdr\<rparr>) s
         \<and> s' = s\<lparr>n_ip_datagrams_dropped := n_ip_datagrams_dropped s + 1\<rparr>
       \<or> proto = ntohs ETH_P_ARP \<and> arp_input A pad pkt (pk\<lparr>pv_start := pv_start pk + sizeof_ethhdr\<rparr>) s = Some s'"
  shows "net_input_loop L A pad pkt ret pk s =
     net_input_loop L A pad pkt ret (pk\<lparr>pv_start := pv_start pk + sizeof_ethhdr\<rparr>) s'"
proof -
  have ne: "ntohs ETH_P_IP \<noteq> ntohs ETH_P_ARP"
    by code_simp
  have "net_input_one L A pad pkt pk s = Some (False, pk\<lparr>pv_start := pv_start pk + sizeof_ethhdr\<rparr>, s')"
    using assms ne by (auto simp: net_input_one_def packet_view_trim_def ip_drop_def Let_def)
  then show ?thesis
    using assms(1) by (subst net_input_loop.simps) (simp add: sizeof_ethhdr_def)
qed

definition icmp_frame_example :: "u8 list" where
  "icmp_frame_example = replicate 12 0 @ [8, 0] @ [0x45, 0, 0, 20, 0, 0, 0, 0, 64, 1, 0, 0, 10, 0, 2, 2, 10, 0, 2, 15]"

lemma rejected_bytes_parsed_again_example:
  "net_input_loop udp_L arp_L [0, 0, 0, 0] icmp_frame_example False \<lparr>pv_start = 0, pv_end = 34\<rparr> (udp_example_state 7) =
   net_input_loop udp_L arp_L [0, 0, 0, 0] icmp_frame_example False \<lparr>pv_start = 14, pv_end = 34\<rparr>
     ((udp_example_state 7)\<lparr>n_ip_datagrams_dropped := 1\<rparr>)"
proof -
  have proto: "ntohs ETH_P_IP = 8"
    by (simp add: ntohs_def bswap16_num ETH_P_IP_def)
  have tot: "ntohs 0x1400 = 20"
    by (simp add: ntohs_def bswap16_num)
  have z: "ntohs 0 = 0"
    by (simp add: ntohs_def bswap16_num)
  have ip: "ip_input udp_L icmp_frame_example \<lparr>pv_start = 14, pv_end = 34\<rparr> s = ip_drop \<lparr>pv_start = 14, pv_end = 34\<rparr> s" for s
    by (simp add: ip_input_def packet_view_len_def sizeof_iphdr_def ld16_nth icmp_frame_example_def nth_append
        dec16_def tot z ip_is_fragment_def IPPROTO_UDP_def)
  have "net_input_loop udp_L arp_L [0, 0, 0, 0] icmp_frame_example False \<lparr>pv_start = 0, pv_end = 34\<rparr> (udp_example_state 7) =
     net_input_loop udp_L arp_L [0, 0, 0, 0] icmp_frame_example False
       (\<lparr>pv_start = 0, pv_end = 34\<rparr>\<lparr>pv_start := pv_start \<lparr>pv_start = 0, pv_end = 34\<rparr> + sizeof_ethhdr\<rparr>)
       ((udp_example_state 7)\<lparr>n_ip_datagrams_dropped := 1\<rparr>)"
    by (rule rejected_bytes_parsed_again [where proto = "ntohs ETH_P_IP"])
      (simp_all add: packet_view_len_def sizeof_ethhdr_def ip proto,
       simp_all add: ld16_nth icmp_frame_example_def nth_append dec16_def udp_example_state_def)
  then show ?thesis by (simp add: sizeof_ethhdr_def)
qed

text \<open>\<open>udp_recvfrom\<close> trusts the length field of the datagram. With a length below the size
  of the header the payload length wraps around and the call returns as many bytes of the
  receive buffer as the caller asks for, whatever they were before.\<close>

lemma udp_short_length_leaks:
  assumes "rfc768 L" and "k < length (n_sockets s)" and "rx = sk_rx_buffer (n_sockets s ! k)" and "length rx = 1500"
    and "ld16 rx 24 = Some (htons n)" and "n < 8" and "unat blen \<le> 1472" and "unat blen \<le> length buf" and "sizeof_sockaddr_in \<le> alen"
  shows "\<exists>a'. udp_recvfrom L k buf blen (Some a) (Some alen) s =
     Some (int (unat blen), take (unat blen) (drop 28 rx) @ drop (unat blen) buf, Some a', Some sizeof_sockaddr_in, s)"
proof -
  have u: "unat n < 8" using assms(6) by (simp add: word_less_nat_alt)
  have e: "(ucast n - 8 :: u64) = of_nat (unat n + 2 ^ 64 - 8)"
    using u by (simp add: of_nat_diff)
  have f: "unat (of_nat (unat n + 2 ^ 64 - 8) :: u64) = unat n + 2 ^ 64 - 8"
    using u by (intro unat_of_nat64) simp
  have nr: "blen < ucast n - 8"
    unfolding e word_less_nat_alt f using assms(7) by simp
  have ret: "sint blen = int (unat blen)"
    using assms(7) by (intro sint_small) simp
  have cp: "memcpy buf 0 rx 28 (unat blen) = Some (take (unat blen) (drop 28 rx) @ drop (unat blen) buf)"
    using assms(4,7,8) by (simp add: memcpy_eq)
  have ld: "ld32 rx 12 \<noteq> None" "ld16 rx 20 \<noteq> None"
    using assms(4) by (simp_all add: ld32_nth ld16_nth)
  have "\<not> alen < sizeof_sockaddr_in" using assms(9) by simp
  then show ?thesis
    using assms(1-3,5) nr ret cp ld
    by (auto simp: udp_recvfrom_def rfc768_def sizeof_iphdr_def Let_def)
qed

definition udp_leak_example :: net_state where
  "udp_leak_example = (udp_example_state 7)\<lparr>n_sockets :=
     [\<lparr>sk_ops = Some udp_socket_ops, sk_local_port = 7, sk_rx_buffer = replicate 28 0 @ replicate 1472 0x5A\<rparr>]\<rparr>"

lemma udp_short_length_leaks_example:
  "\<exists>a'. udp_recvfrom udp_L 0 (replicate 3 0) 3 (Some udp_example_dst) (Some 12) udp_leak_example =
     Some (3, replicate 3 0x5A, Some a', Some 12, udp_leak_example)"
proof -
  have rx: "sk_rx_buffer (n_sockets udp_leak_example ! 0) = replicate 28 0 @ replicate 1472 0x5A"
    by (simp add: udp_leak_example_def)
  have n: "ld16 (replicate 28 0 @ replicate 1472 0x5A) 24 = Some (htons 0)"
    by (simp add: ld16_nth nth_append dec16_def htons_def bswap16_num)
  show ?thesis
    using udp_short_length_leaks [where L = udp_L and k = 0 and s = udp_leak_example and n = 0 and blen = 3
        and buf = "replicate 3 0" and alen = 12 and a = udp_example_dst, OF _ _ rx [symmetric] _ n]
    by (simp add: rfc768_def udp_L_def udp_leak_example_def sizeof_sockaddr_in_def)
qed

end
