(* ===== verification/Socket.thy ===== *)
theory Socket
  imports UdpPath
begin

text \<open>
  The socket calls (\<^verbatim>\<open>usr/liblinux/src/socket.c\<close> over \<^verbatim>\<open>src/internal/socket.c\<close>), the event
  calls (\<^verbatim>\<open>usr/liblinux/src/epoll.c\<close>) and the echo server (\<^verbatim>\<open>usr/echod/echod.c\<close>) on top of
  the network stack. A file descriptor is an \<open>int\<close>; a socket pointer is an index, which may
  lie outside the table.
\<close>

subsection \<open>The socket table\<close>

definition find_socket_ops :: "int \<Rightarrow> int \<Rightarrow> int \<Rightarrow> socket_operations option" where
  "find_socket_ops domain type protocol =
     (if domain \<noteq> AF_INET \<or> type \<noteq> SOCK_DGRAM \<or> protocol \<noteq> 0 then None else Some udp_socket_ops)"

definition socket_alloc :: "int \<Rightarrow> int \<Rightarrow> int \<Rightarrow> net_state \<Rightarrow> (int \<times> net_state) option" where
  "socket_alloc domain type protocol s =
     (if MAX_SOCKETS \<le> n_nr_sockets s then Some (- 1, s\<lparr>n_errno := EMFILE\<rparr>)
      else case find_socket_ops domain type protocol of
        None \<Rightarrow> Some (- 1, s\<lparr>n_errno := EINVAL\<rparr>)
      | Some ops \<Rightarrow>
          do { let sockidx = n_nr_sockets s;
               let sockfd = SOCKET_FD_OFFSET + int sockidx;
               sk \<leftarrow> rd (n_sockets s) sockidx;
               sks \<leftarrow> wr (n_sockets s) sockidx (sk\<lparr>sk_ops := Some ops, sk_local_port := 0\<rparr>);
               Some (sockfd, s\<lparr>n_nr_sockets := sockidx + 1, n_sockets := sks\<rparr>) })"

definition socket_lookup_by_fd :: "int \<Rightarrow> nat option" where
  "socket_lookup_by_fd sockfd =
     (if sockfd < SOCKET_FD_OFFSET then None
      else let idx = sockfd - SOCKET_FD_OFFSET
           in if idx > int MAX_SOCKETS then None else Some (nat idx))"

definition socket_accept :: "nat \<Rightarrow> net_state \<Rightarrow> (int \<times> net_state) option" where
  "socket_accept sk s = Some (- 1, s\<lparr>n_errno := EINVAL\<rparr>)"

definition socket_bind :: "nat \<Rightarrow> sockaddr_in option \<Rightarrow> u32 \<Rightarrow> net_state \<Rightarrow> (int \<times> net_state) option" where
  "socket_bind sk addr addrlen s =
     (if addrlen \<noteq> sizeof_sockaddr_in then Some (- 1, s\<lparr>n_errno := EINVAL\<rparr>)
      else do { sa_in \<leftarrow> addr;
                skt \<leftarrow> rd (n_sockets s) sk;
                sks \<leftarrow> wr (n_sockets s) sk (skt\<lparr>sk_local_port := sin_port sa_in\<rparr>);
                Some (0, s\<lparr>n_sockets := sks\<rparr>) })"

definition socket_getsockopt :: "nat \<Rightarrow> net_state \<Rightarrow> (int \<times> net_state) option" where
  "socket_getsockopt sk s = Some (- 1, s\<lparr>n_errno := ENOPROTOOPT\<rparr>)"

definition socket_listen :: "nat \<Rightarrow> net_state \<Rightarrow> (int \<times> net_state) option" where
  "socket_listen sk s = Some (- 1, s\<lparr>n_errno := EOPNOTSUPP\<rparr>)"

text \<open>The calls through \<^verbatim>\<open>sk->ops\<close>; a null pointer there is undefined behaviour.\<close>

definition socket_recvfrom ::
  "udp_layout \<Rightarrow> nat \<Rightarrow> u8 list \<Rightarrow> u64 \<Rightarrow> sockaddr_in option \<Rightarrow> u32 option \<Rightarrow> net_state
     \<Rightarrow> (int \<times> u8 list \<times> sockaddr_in option \<times> u32 option \<times> net_state) option" where
  "socket_recvfrom L sk buf len src_addr addrlen s =
     do { skt \<leftarrow> rd (n_sockets s) sk;
          ops \<leftarrow> sk_ops skt;
          case ops of udp_socket_ops \<Rightarrow> udp_recvfrom L sk buf len src_addr addrlen s }"

definition socket_sendto ::
  "udp_layout \<Rightarrow> u8 list \<Rightarrow> nat \<Rightarrow> u8 list \<Rightarrow> u64 \<Rightarrow> sockaddr_in option \<Rightarrow> u32 \<Rightarrow> net_state \<Rightarrow> (int \<times> net_state) option" where
  "socket_sendto L pad sk buf len dest_addr addrlen s =
     do { skt \<leftarrow> rd (n_sockets s) sk;
          ops \<leftarrow> sk_ops skt;
          case ops of udp_socket_ops \<Rightarrow> udp_sendto L pad sk buf len dest_addr addrlen s }"

definition socket_setsockopt :: "nat \<Rightarrow> net_state \<Rightarrow> (int \<times> net_state) option" where
  "socket_setsockopt sk s = Some (- 1, s\<lparr>n_errno := ENOPROTOOPT\<rparr>)"

definition socket_shutdown :: "nat \<Rightarrow> net_state \<Rightarrow> (int \<times> net_state) option" where
  "socket_shutdown sk s = Some (0, s)"

subsection \<open>The calls of the application\<close>

definition bad_fd :: "net_state \<Rightarrow> (int \<times> net_state) option" where
  "bad_fd s = Some (- 1, s\<lparr>n_errno := EBADF\<rparr>)"

definition sys_accept :: "int \<Rightarrow> net_state \<Rightarrow> (int \<times> net_state) option" where
  "sys_accept sockfd s = (case socket_lookup_by_fd sockfd of None \<Rightarrow> bad_fd s | Some sk \<Rightarrow> socket_accept sk s)"

definition sys_bind :: "int \<Rightarrow> sockaddr_in option \<Rightarrow> u32 \<Rightarrow> net_state \<Rightarrow> (int \<times> net_state) option" where
  "sys_bind sockfd addr addrlen s =
     (case socket_lookup_by_fd sockfd of None \<Rightarrow> bad_fd s | Some sk \<Rightarrow> socket_bind sk addr addrlen s)"

definition sys_getsockopt :: "int \<Rightarrow> net_state \<Rightarrow> (int \<times> net_state) option" where
  "sys_getsockopt sockfd s = (case socket_lookup_by_fd sockfd of None \<Rightarrow> bad_fd s | Some sk \<Rightarrow> socket_getsockopt sk s)"

definition sys_listen :: "int \<Rightarrow> net_state \<Rightarrow> (int \<times> net_state) option" where
  "sys_listen sockfd s = (case socket_lookup_by_fd sockfd of None \<Rightarrow> bad_fd s | Some sk \<Rightarrow> socket_listen sk s)"

definition sys_recvfrom ::
  "udp_layout \<Rightarrow> int \<Rightarrow> u8 list \<Rightarrow> u64 \<Rightarrow> sockaddr_in option \<Rightarrow> u32 option \<Rightarrow> net_state
     \<Rightarrow> (int \<times> u8 list \<times> sockaddr_in option \<times> u32 option \<times> net_state) option" where
  "sys_recvfrom L sockfd buf len src_addr addrlen s =
     (case socket_lookup_by_fd sockfd of
        None \<Rightarrow> Some (- 1, buf, src_addr, addrlen, s\<lparr>n_errno := EBADF\<rparr>)
      | Some sk \<Rightarrow> socket_recvfrom L sk buf len src_addr addrlen s)"

definition sys_recv ::
  "udp_layout \<Rightarrow> int \<Rightarrow> u8 list \<Rightarrow> u64 \<Rightarrow> net_state
     \<Rightarrow> (int \<times> u8 list \<times> sockaddr_in option \<times> u32 option \<times> net_state) option" where
  "sys_recv L sockfd buf len s = sys_recvfrom L sockfd buf len None None s"

definition sys_sendto ::
  "udp_layout \<Rightarrow> u8 list \<Rightarrow> int \<Rightarrow> u8 list \<Rightarrow> u64 \<Rightarrow> sockaddr_in option \<Rightarrow> u32 \<Rightarrow> net_state \<Rightarrow> (int \<times> net_state) option" where
  "sys_sendto L pad sockfd buf len dest_addr addrlen s =
     (case socket_lookup_by_fd sockfd of None \<Rightarrow> bad_fd s
      | Some sk \<Rightarrow> socket_sendto L pad sk buf len dest_addr addrlen s)"

definition sys_send :: "udp_layout \<Rightarrow> u8 list \<Rightarrow> int \<Rightarrow> u8 list \<Rightarrow> u64 \<Rightarrow> net_state \<Rightarrow> (int \<times> net_state) option" where
  "sys_send L pad sockfd buf len s = sys_sendto L pad sockfd buf len None 0 s"

definition sys_setsockopt :: "int \<Rightarrow> net_state \<Rightarrow> (int \<times> net_state) option" where
  "sys_setsockopt sockfd s = (case socket_lookup_by_fd sockfd of None \<Rightarrow> bad_fd s | Some sk \<Rightarrow> socket_setsockopt sk s)"

definition sys_shutdown :: "int \<Rightarrow> net_state \<Rightarrow> (int \<times> net_state) option" where
  "sys_shutdown sockfd s = (case socket_lookup_by_fd sockfd of None \<Rightarrow> bad_fd s | Some sk \<Rightarrow> socket_shutdown sk s)"

definition sys_socket :: "int \<Rightarrow> int \<Rightarrow> int \<Rightarrow> net_state \<Rightarrow> (int \<times> net_state) option" where
  "sys_socket domain type protocol s = socket_alloc domain type protocol s"

subsection \<open>Events\<close>

record epoll_event =
  ep_events :: u32
  ep_data :: u64

definition EPOLL_FD :: int where "EPOLL_FD = 200"
abbreviation EPOLLIN :: u32 where "EPOLLIN \<equiv> 1"
abbreviation EVENT_PACKET_RX :: u64 where "EVENT_PACKET_RX \<equiv> 1"

text \<open>The static variables of \<^verbatim>\<open>epoll.c\<close> and \<open>errno\<close>.\<close>

record epoll_state =
  ep_nr_fds :: int
  ep_interest :: epoll_event
  ep_errno :: int

text \<open>\<open>nr_epoll_fds++\<close> counts calls, also failing ones, and overflows at the largest \<open>int\<close>.\<close>

definition do_epoll_create :: "int \<Rightarrow> epoll_state \<Rightarrow> (int \<times> epoll_state) option" where
  "do_epoll_create flags e =
     (if flags \<noteq> 0 then Some (- 1, e\<lparr>ep_errno := EINVAL\<rparr>)
      else if ep_nr_fds e = 2 ^ 31 - 1 then None
      else let e' = e\<lparr>ep_nr_fds := ep_nr_fds e + 1\<rparr>
           in if ep_nr_fds e > 0 then Some (- 1, e'\<lparr>ep_errno := EMFILE\<rparr>) else Some (EPOLL_FD, e'))"

definition epoll_create :: "int \<Rightarrow> epoll_state \<Rightarrow> (int \<times> epoll_state) option" where
  "epoll_create sz e = (if sz \<le> 0 then Some (- 1, e\<lparr>ep_errno := EINVAL\<rparr>) else do_epoll_create 0 e)"

definition epoll_create1 :: "int \<Rightarrow> epoll_state \<Rightarrow> (int \<times> epoll_state) option" where
  "epoll_create1 flags e = do_epoll_create flags e"

definition epoll_ctl :: "int \<Rightarrow> int \<Rightarrow> int \<Rightarrow> epoll_event option \<Rightarrow> epoll_state \<Rightarrow> (int \<times> epoll_state) option" where
  "epoll_ctl epfd op fd event e =
     (if epfd \<noteq> EPOLL_FD then Some (- 1, e\<lparr>ep_errno := EBADF\<rparr>)
      else map_option (\<lambda>ev. (0, e\<lparr>ep_interest := ev\<rparr>)) event)"

text \<open>One round of the loop of \<open>epoll_wait\<close> decodes the event at the front of the queue, gives a
  received packet to \<open>input\<close> (\<open>net_input\<close> on the bytes at the event's address) and pops it.\<close>

definition event_type :: "u8 list \<Rightarrow> u64" where "event_type ev = dec64 (take 8 ev)"
definition event_addr :: "u8 list \<Rightarrow> u64" where "event_addr ev = dec64 (take 8 (drop 8 ev))"
definition event_len :: "u8 list \<Rightarrow> u64" where "event_len ev = dec64 (take 8 (drop 16 ev))"

definition epoll_wait_one ::
  "(u64 \<Rightarrow> u64 \<Rightarrow> 's \<Rightarrow> (bool \<times> 's) option) \<Rightarrow> epoll_event \<Rightarrow> u8 list \<Rightarrow> epoll_event list \<Rightarrow> int \<Rightarrow> 's
     \<Rightarrow> (epoll_event list \<times> int \<times> 's) option" where
  "epoll_wait_one input interest kern_event events nr_events s =
     (if event_type kern_event = EVENT_PACKET_RX then
        do { (r, s') \<leftarrow> input (event_addr kern_event) (event_len kern_event) s;
             if r then do { events' \<leftarrow> wr events (nat nr_events) (interest\<lparr>ep_events := EPOLLIN\<rparr>);
                            Some (events', nr_events + 1, s') }
             else Some (events, nr_events, s') }
      else Some (events, nr_events, s))"

partial_function (option) epoll_wait_loop ::
  "(u64 \<Rightarrow> u64 \<Rightarrow> 's \<Rightarrow> (bool \<times> 's) option) \<Rightarrow> epoll_event \<Rightarrow> int \<Rightarrow> atomic_ring_buffer \<Rightarrow> epoll_event list \<Rightarrow> int \<Rightarrow> 's
     \<Rightarrow> (int \<times> epoll_event list \<times> atomic_ring_buffer \<times> 's) option" where
  "epoll_wait_loop input interest maxevents queue events nr_events s =
     (if \<not> atomic_ring_buffer_is_empty queue \<and> nr_events < maxevents then
        (case atomic_ring_buffer_front queue of
           None \<Rightarrow> None
         | Some p \<Rightarrow>
             (case epoll_wait_one input interest (ring_elem queue p) events nr_events s of
                None \<Rightarrow> None
              | Some (events', nr', s') \<Rightarrow>
                  epoll_wait_loop input interest maxevents (atomic_ring_buffer_pop queue) events' nr' s'))
      else Some (nr_events, events, queue, s))"

text \<open>\<open>wait\<close> and \<open>getevents\<close> are system calls: their results are arguments.\<close>

definition epoll_wait ::
  "(u64 \<Rightarrow> u64 \<Rightarrow> 's \<Rightarrow> (bool \<times> 's) option) \<Rightarrow> int \<Rightarrow> int \<Rightarrow> atomic_ring_buffer \<Rightarrow> int \<Rightarrow> epoll_event list \<Rightarrow> int
     \<Rightarrow> epoll_state \<Rightarrow> 's \<Rightarrow> (int \<times> epoll_event list \<times> atomic_ring_buffer \<times> epoll_state \<times> 's) option" where
  "epoll_wait input wait_err getevents_err queue epfd events maxevents e s =
     (if epfd \<noteq> EPOLL_FD then Some (- 1, events, queue, e\<lparr>ep_errno := EBADF\<rparr>, s)
      else if maxevents \<le> 0 then Some (- 1, events, queue, e\<lparr>ep_errno := EINVAL\<rparr>, s)
      else if wait_err \<noteq> 0 then Some (- 1, events, queue, e\<lparr>ep_errno := - wait_err\<rparr>, s)
      else if getevents_err \<noteq> 0 then Some (- 1, events, queue, e\<lparr>ep_errno := - getevents_err\<rparr>, s)
      else map_option (\<lambda>(nr, events', queue', s'). (nr, events', queue', e, s'))
             (epoll_wait_loop input (ep_interest e) maxevents queue events 0 s))"

subsection \<open>The echo server\<close>

text \<open>\<open>echo\<close>: receives one datagram and sends it back. \<open>die\<close> aborts. The receive buffer holds
  65535 bytes, the address 20 bytes.\<close>

definition echo :: "udp_layout \<Rightarrow> u8 list \<Rightarrow> u8 list \<Rightarrow> int \<Rightarrow> net_state \<Rightarrow> net_state option" where
  "echo L pad buf0 sockfd s =
     do { (nr, buf, addr, addrlen, s) \<leftarrow>
            sys_recvfrom L sockfd buf0 65535 (Some \<lparr>sin_family = 0, sin_port = 0, s_addr = 0\<rparr>) (Some 20) s;
          if nr < 0 then None
          else do { alen \<leftarrow> addrlen;
                    (sent, s) \<leftarrow> sys_sendto L pad sockfd buf (word_of_int nr) addr alen s;
                    if sent \<noteq> nr then None else Some s } }"

text \<open>\<open>main\<close> up to its loop, and one round of the loop: \<open>epoll_wait\<close> and an \<open>echo\<close> for every
  event. \<open>die\<close> aborts; the messages on \<^verbatim>\<open>stdout\<close> are left out.\<close>

abbreviation DEFAULT_PORT :: u16 where "DEFAULT_PORT \<equiv> 7777"
abbreviation EPOLLHUP :: u32 where "EPOLLHUP \<equiv> 16"
abbreviation INADDR_ANY :: u32 where "INADDR_ANY \<equiv> 0"

definition echod_setup :: "net_state \<Rightarrow> epoll_state \<Rightarrow> (int \<times> int \<times> net_state \<times> epoll_state) option" where
  "echod_setup s e =
     do { (sockfd, s) \<leftarrow> sys_socket AF_INET SOCK_DGRAM 0 s;
          if sockfd < 0 then None else do {
          (r, s) \<leftarrow> sys_bind sockfd (Some \<lparr>sin_family = word_of_int AF_INET, sin_port = htons DEFAULT_PORT, s_addr = INADDR_ANY\<rparr>)
             sizeof_sockaddr_in s;
          if r < 0 then None else do {
          (efd, e) \<leftarrow> epoll_create1 0 e;
          if efd < 0 then None else do {
          (r, e) \<leftarrow> epoll_ctl efd 1 sockfd
             (Some \<lparr>ep_events = EPOLLIN OR EPOLLHUP, ep_data = ucast (word_of_int sockfd :: u32)\<rparr>) e;
          if r < 0 then None else Some (sockfd, efd, s, e) } } } }"

fun echo_events :: "udp_layout \<Rightarrow> u8 list \<Rightarrow> u8 list \<Rightarrow> epoll_event list \<Rightarrow> net_state \<Rightarrow> net_state option" where
  "echo_events L pad buf0 [] s = Some s"
| "echo_events L pad buf0 (ev # evs) s =
     do { s \<leftarrow> echo L pad buf0 (sint (ucast (ep_data ev) :: u32)) s; echo_events L pad buf0 evs s }"

definition echod_round ::
  "udp_layout \<Rightarrow> u8 list \<Rightarrow> (u64 \<Rightarrow> u64 \<Rightarrow> net_state \<Rightarrow> (bool \<times> net_state) option) \<Rightarrow> int \<Rightarrow> int \<Rightarrow> u8 list
     \<Rightarrow> epoll_event list \<Rightarrow> atomic_ring_buffer \<Rightarrow> int \<Rightarrow> epoll_state \<Rightarrow> net_state
     \<Rightarrow> (atomic_ring_buffer \<times> epoll_state \<times> net_state) option" where
  "echod_round L pad input wait_err getevents_err buf0 events0 queue efd e s =
     do { (nr, events, queue, e, s) \<leftarrow> epoll_wait input wait_err getevents_err queue efd events0 64 e s;
          if nr < 0 then None
          else do { s \<leftarrow> echo_events L pad buf0 (take (nat nr) events) s; Some (queue, e, s) } }"

subsection \<open>Properties\<close>

text \<open>What the network input must guarantee of an event, for the states that satisfy \<open>Inv\<close>.\<close>

definition input_ok :: "(u64 \<Rightarrow> u64 \<Rightarrow> 's \<Rightarrow> (bool \<times> 's) option) \<Rightarrow> ('s \<Rightarrow> bool) \<Rightarrow> u8 list \<Rightarrow> bool" where
  "input_ok input Inv ev \<longleftrightarrow>
     (event_type ev = EVENT_PACKET_RX \<longrightarrow>
        (\<forall>s. Inv s \<longrightarrow> (\<exists>r s'. input (event_addr ev) (event_len ev) s = Some (r, s') \<and> Inv s')))"

lemma epoll_wait_one_total:
  assumes "input_ok input Inv ev" and "Inv s" and "0 \<le> nr" and "nr < maxevents" and "maxevents \<le> int (length events)"
  shows "\<exists>events' nr' s'. epoll_wait_one input interest ev events nr s = Some (events', nr', s')
     \<and> Inv s' \<and> length events' = length events \<and> nr \<le> nr' \<and> nr' \<le> nr + 1"
proof (cases "event_type ev = EVENT_PACKET_RX")
  case False
  then show ?thesis using assms(2) by (simp add: epoll_wait_one_def)
next
  case True
  obtain r s' where "input (event_addr ev) (event_len ev) s = Some (r, s')" "Inv s'"
    using assms(1,2) True by (auto simp: input_ok_def)
  moreover have "nat nr < length events" using assms(3-5) by linarith
  ultimately show ?thesis using True by (cases r) (simp_all add: epoll_wait_one_def)
qed

lemma epoll_wait_loop_returns:
  assumes "\<forall>ev \<in> set (ring_list queue). input_ok input Inv ev" and "Inv s" and "maxevents \<le> int (length events)"
    and "ring_wf queue" and "0 \<le> nr" and "nr \<le> maxevents"
  shows "\<exists>nr' events' queue' s'. epoll_wait_loop input interest maxevents queue events nr s = Some (nr', events', queue', s')
     \<and> Inv s' \<and> nr \<le> nr' \<and> nr' \<le> maxevents \<and> ring_wf queue' \<and> (\<exists>k. ring_list queue' = drop k (ring_list queue))
     \<and> (ring_list queue' = [] \<or> nr' = maxevents)"
  using assms
proof (induction "length (ring_list queue)" arbitrary: queue events nr s)
  case 0
  then have "ring_list queue = []" using length_ring_list [of queue] by (simp del: length_ring_list)
  then have "atomic_ring_buffer_is_empty queue"
    using ring_empty_iff [OF 0(5)] by (simp add: atomic_ring_buffer_is_empty_def)
  then show ?case
    using 0 \<open>ring_list queue = []\<close> by (subst epoll_wait_loop.simps) auto
next
  case (Suc n)
  then have ne: "ring_list queue \<noteq> []" using length_ring_list [of queue] by (auto simp del: length_ring_list)
  show ?case
  proof (cases "nr < maxevents")
    case False
    then show ?thesis
      using Suc by (subst epoll_wait_loop.simps) (auto intro: exI [of _ 0])
  next
    case True
    have ht: "q_head queue \<noteq> q_tail queue" using ring_empty_iff [OF Suc(6)] ne by simp
    have "ring_elem queue (q_tail queue) \<in> set (ring_list queue)"
      using ring_list_hd [OF Suc(6) ne] ne by (metis hd_in_set)
    then obtain events1 nr1 s1 where one: "epoll_wait_one input interest (ring_elem queue (q_tail queue)) events nr s = Some (events1, nr1, s1)"
        "Inv s1" "length events1 = length events" "nr \<le> nr1" "nr1 \<le> nr + 1"
      using epoll_wait_one_total [of input Inv _ s nr maxevents events, OF _ Suc(4,7) True Suc(5)] Suc(3) by metis
    have step: "epoll_wait_loop input interest maxevents queue events nr s =
        epoll_wait_loop input interest maxevents (atomic_ring_buffer_pop queue) events1 nr1 s1"
      using True ht one(1)
      by (subst epoll_wait_loop.simps) (simp add: atomic_ring_buffer_is_empty_def atomic_ring_buffer_front_def)
    note pop = ring_pop_list [OF Suc(6) ne]
    have n: "n = length (ring_list (atomic_ring_buffer_pop queue))" using Suc(2) pop(2) by simp
    have "\<forall>ev \<in> set (ring_list (atomic_ring_buffer_pop queue)). input_ok input Inv ev"
      using Suc(3) pop(2) by (metis list.set_sel(2) ne)
    from Suc(1) [OF n this one(2) _ pop(1), of events1 nr1] one Suc True
    obtain nr' events' queue' s' k where
      "epoll_wait_loop input interest maxevents (atomic_ring_buffer_pop queue) events1 nr1 s1 = Some (nr', events', queue', s')"
      "Inv s'" "nr1 \<le> nr'" "nr' \<le> maxevents" "ring_wf queue'" "ring_list queue' = drop k (ring_list (atomic_ring_buffer_pop queue))"
      "ring_list queue' = [] \<or> nr' = maxevents"
      by auto
    then show ?thesis
      using step one(4) pop(2) by (auto simp: drop_Suc intro!: exI [of _ "Suc k"])
  qed
qed

text \<open>When the network input can process the packets that are queued, \<open>epoll_wait\<close> on a
  well-formed event queue returns: it reports at most \<open>maxevents\<close> events, has removed the events
  it looked at from the front of the queue, in order, has kept what the input keeps, and has
  stopped because the queue is empty or the array full.\<close>

lemma epoll_wait_returns:
  assumes "\<forall>ev \<in> set (ring_list queue). input_ok input Inv ev" and "Inv s"
    and "0 < maxevents" and "maxevents \<le> int (length events)" and "ring_wf queue"
  shows "\<exists>nr events' queue' s'. epoll_wait input 0 0 queue EPOLL_FD events maxevents e s = Some (nr, events', queue', e, s')
     \<and> Inv s' \<and> 0 \<le> nr \<and> nr \<le> maxevents \<and> (\<exists>k. ring_list queue' = drop k (ring_list queue))
     \<and> (ring_list queue' = [] \<or> nr = maxevents)"
  using epoll_wait_loop_returns [OF assms(1,2,4,5), of 0 "ep_interest e"] assms(3)
  by (auto simp: epoll_wait_def)

lemma epoll_wait_returns_example:
  "\<exists>nr events' queue' s'. epoll_wait (\<lambda>a l n. Some (True, n + (1::nat))) 0 0 io_full_example EPOLL_FD
      (replicate 4 \<lparr>ep_events = 0, ep_data = 0\<rparr>) 4 \<lparr>ep_nr_fds = 1, ep_interest = \<lparr>ep_events = 1, ep_data = 100\<rparr>, ep_errno = 0\<rparr> 0
      = Some (nr, events', queue', \<lparr>ep_nr_fds = 1, ep_interest = \<lparr>ep_events = 1, ep_data = 100\<rparr>, ep_errno = 0\<rparr>, s')
     \<and> 0 \<le> nr \<and> nr \<le> 4"
proof -
  have "ring_wf io_full_example"
    by (simp add: io_full_example_def ring_wf_def ring_off_def)
  then show ?thesis
    using epoll_wait_returns [of io_full_example "\<lambda>a l n. Some (True, n + (1::nat))" "\<lambda>_. True" 0 4
        "replicate 4 \<lparr>ep_events = 0, ep_data = 0\<rparr>"
        "\<lparr>ep_nr_fds = 1, ep_interest = \<lparr>ep_events = 1, ep_data = 100\<rparr>, ep_errno = 0\<rparr>"]
    by (auto simp: input_ok_def)
qed

text \<open>The descriptors 100 to 107 name the eight sockets and every descriptor below 100 or
  above 108 is rejected, but 108 is taken for a ninth socket: binding it writes past the table.\<close>

lemma socket_fd_off_by_one:
  assumes "length (n_sockets s) = MAX_SOCKETS"
  shows "(\<forall>fd. 100 \<le> fd \<and> fd \<le> 107 \<longrightarrow> (\<exists>i < MAX_SOCKETS. socket_lookup_by_fd fd = Some i \<and> fd = 100 + int i))
     \<and> (\<forall>fd. fd < 100 \<or> 108 < fd \<longrightarrow> sys_bind fd addr addrlen s = bad_fd s)
     \<and> socket_lookup_by_fd 108 = Some MAX_SOCKETS
     \<and> sys_bind 108 (Some a) sizeof_sockaddr_in s = None"
proof -
  have "\<exists>i < MAX_SOCKETS. socket_lookup_by_fd fd = Some i \<and> fd = 100 + int i" if "100 \<le> fd \<and> fd \<le> 107" for fd
    using that by (intro exI [of _ "nat (fd - 100)"]) (auto simp: socket_lookup_by_fd_def SOCKET_FD_OFFSET_def MAX_SOCKETS_def)
  moreover have "sys_bind fd addr addrlen s = bad_fd s" if "fd < 100 \<or> 108 < fd" for fd
    using that by (auto simp: sys_bind_def socket_lookup_by_fd_def SOCKET_FD_OFFSET_def MAX_SOCKETS_def)
  moreover have l: "socket_lookup_by_fd 108 = Some MAX_SOCKETS"
    by (simp add: socket_lookup_by_fd_def SOCKET_FD_OFFSET_def MAX_SOCKETS_def)
  moreover have "sys_bind 108 (Some a) sizeof_sockaddr_in s = None"
    using assms by (simp add: sys_bind_def l socket_bind_def rd_def)
  ultimately show ?thesis by blast
qed

lemma socket_fd_off_by_one_example:
  "sys_bind 108 (Some udp_example_dst) 12 (udp_example_state 7) = None
   \<and> sys_bind 99 (Some udp_example_dst) 12 (udp_example_state 7) = bad_fd (udp_example_state 7)"
proof -
  have "length (n_sockets (udp_example_state 7)) = MAX_SOCKETS"
    by (simp add: udp_example_state_def MAX_SOCKETS_def)
  from socket_fd_off_by_one [OF this, of "Some udp_example_dst" 12 udp_example_dst] show ?thesis
    by (simp add: sizeof_sockaddr_in_def)
qed

text \<open>\<open>recv\<close> on any socket dereferences the null pointer that it passes as address
  length.\<close>

lemma recv_undefined:
  assumes "socket_lookup_by_fd fd = Some k"
  shows "sys_recv L fd buf len s = None"
  using assms
  by (auto simp: sys_recv_def sys_recvfrom_def socket_recvfrom_def udp_recvfrom_def Let_def
      split: bind_splits socket_operations.splits)

lemma recv_undefined_example: "sys_recv udp_L 100 (replicate 4 0) 4 (udp_example_state 7) = None"
  by (rule recv_undefined [where k = 0]) (simp add: socket_lookup_by_fd_def SOCKET_FD_OFFSET_def MAX_SOCKETS_def)

lemma memcpy_prefix: "n \<le> length src \<Longrightarrow> memcpy m p src 0 n = memcpy m p (take n src) 0 n"
  by (simp add: memcpy_eq)

lemma packet_buf_append_prefix:
  "unat len \<le> length buf \<Longrightarrow> packet_buf_append pk buf len = packet_buf_append pk (take (unat len) buf) len"
  unfolding packet_buf_append_def by (subst memcpy_prefix) simp_all

lemma udp_sendto_prefix:
  assumes "unat len \<le> length buf"
  shows "udp_sendto L pad sk buf len dst addrlen s = udp_sendto L pad sk (take (unat len) buf) len dst addrlen s"
  unfolding udp_sendto_def by (subst packet_buf_append_prefix [OF assms]) simp

text \<open>On a fresh process the server gets descriptor 100, bound to its port, and every event
  carries that descriptor back.\<close>

lemma echod_setup_ok:
  assumes "n_nr_sockets s = 0" and "length (n_sockets s) = MAX_SOCKETS" and "ep_nr_fds e = 0"
  shows "\<exists>s' e'. echod_setup s e = Some (100, EPOLL_FD, s', e')
     \<and> sk_ops (n_sockets s' ! 0) = Some udp_socket_ops \<and> sk_local_port (n_sockets s' ! 0) = htons DEFAULT_PORT
     \<and> sint (ucast (ep_data (ep_interest e')) :: u32) = 100"
  using assms
  by (simp add: echod_setup_def sys_socket_def socket_alloc_def find_socket_ops_def AF_INET_def SOCK_DGRAM_def MAX_SOCKETS_def
      SOCKET_FD_OFFSET_def rd_def wr_def sys_bind_def socket_lookup_by_fd_def socket_bind_def epoll_create1_def do_epoll_create_def
      epoll_ctl_def EPOLL_FD_def) auto



end
