(* ===== verification/PageAlloc.thy ===== *)
theory PageAlloc
  imports Align
begin

text \<open>
  The page allocator of the kernel (\<^verbatim>\<open>kernel/memory.rs\<close>). An arena holds memory segments in
  a red-black tree of the \<^verbatim>\<open>intrusive-collections\<close> crate, ordered by base address. The tree
  is a parameter: a record of the operations of the crate that the code calls, with their
  documented behaviour as the predicate \<open>rbtree_laws\<close>. A segment is stored at its own base
  address; the model keeps it as a value. The kernel is built in release mode, where integer
  arithmetic wraps around; a null pointer is address 0.
\<close>

record MemorySegment =
  seg_base :: u64
  seg_size :: u64

definition MemorySegment_new :: "u64 \<Rightarrow> u64 \<Rightarrow> MemorySegment" where
  "MemorySegment_new base sz = \<lparr>seg_base = base, seg_size = sz\<rparr>"

definition MemorySegment_split :: "MemorySegment \<Rightarrow> u64 \<Rightarrow> MemorySegment" where
  "MemorySegment_split s sz = MemorySegment_new (seg_base s + sz) (seg_size s - sz)"

subsection \<open>The tree\<close>

text \<open>\<open>'t\<close> is the type of trees, \<open>'c\<close> that of mutable cursors. A cursor knows its tree:
  \<open>rb_remove\<close> and \<open>rb_replace_with\<close> give the tree after the operation, the latter \<open>None\<close> when the
  cursor points to no element.\<close>

record ('t, 'c) rbtree =
  rb_new :: 't
  rb_iter :: "'t \<Rightarrow> MemorySegment list"
  rb_front_mut :: "'t \<Rightarrow> 'c"
  rb_find_mut :: "u64 \<Rightarrow> 't \<Rightarrow> 'c"
  rb_upper_bound_mut :: "u64 \<Rightarrow> 't \<Rightarrow> 'c"
  rb_get :: "'c \<Rightarrow> MemorySegment option"
  rb_remove :: "'c \<Rightarrow> 't"
  rb_replace_with :: "'c \<Rightarrow> MemorySegment \<Rightarrow> 't option"
  rb_insert :: "MemorySegment \<Rightarrow> 't \<Rightarrow> 't"

text \<open>The cursor \<open>c\<close> stands at the \<open>i\<close>-th element, in key order, of \<open>t\<close>.\<close>

definition cursor_at :: "('t, 'c) rbtree \<Rightarrow> 't \<Rightarrow> 'c \<Rightarrow> nat \<Rightarrow> bool" where
  "cursor_at T t c i \<longleftrightarrow>
     i < length (rb_iter T t) \<and> rb_get T c = Some (rb_iter T t ! i)
     \<and> rb_iter T (rb_remove T c) = take i (rb_iter T t) @ drop (Suc i) (rb_iter T t)
     \<and> (\<forall>y. \<exists>t'. rb_replace_with T c y = Some t' \<and> rb_iter T t' = (rb_iter T t)[i := y])"

definition rb_sorted :: "('t, 'c) rbtree \<Rightarrow> 't \<Rightarrow> bool" where
  "rb_sorted T t \<longleftrightarrow> sorted (map seg_base (rb_iter T t))"

definition rbtree_laws :: "('t, 'c) rbtree \<Rightarrow> bool" where
  "rbtree_laws T \<longleftrightarrow>
     rb_iter T (rb_new T) = []
     \<and> (\<forall>t. if rb_iter T t = [] then rb_get T (rb_front_mut T t) = None else cursor_at T t (rb_front_mut T t) 0)
     \<and> (\<forall>t k. rb_sorted T t \<longrightarrow>
          (if k \<in> seg_base ` set (rb_iter T t)
           then \<exists>i. cursor_at T t (rb_find_mut T k t) i \<and> seg_base (rb_iter T t ! i) = k
           else rb_get T (rb_find_mut T k t) = None))
     \<and> (\<forall>t k. rb_sorted T t \<longrightarrow>
          (if \<exists>s \<in> set (rb_iter T t). seg_base s < k
           then \<exists>i. cursor_at T t (rb_upper_bound_mut T k t) i \<and> seg_base (rb_iter T t ! i) < k
                  \<and> (\<forall>s \<in> set (drop (Suc i) (rb_iter T t)). k \<le> seg_base s)
           else rb_get T (rb_upper_bound_mut T k t) = None))
     \<and> (\<forall>t s. rb_sorted T t \<longrightarrow>
          rb_sorted T (rb_insert T s t)
          \<and> (\<exists>i. rb_iter T (rb_insert T s t) = take i (rb_iter T t) @ s # drop i (rb_iter T t)))"

subsection \<open>Arenas\<close>

record ('t, 'c) MemoryArena =
  ar_tree :: "('t, 'c) rbtree"
  segments :: 't

definition MemoryArena_new :: "('t, 'c) rbtree \<Rightarrow> ('t, 'c) MemoryArena" where
  "MemoryArena_new T = \<lparr>ar_tree = T, segments = rb_new T\<rparr>"

definition MemoryArena_alloc :: "u64 \<Rightarrow> ('t, 'c) MemoryArena \<Rightarrow> (u64 \<times> ('t, 'c) MemoryArena) option" where
  "MemoryArena_alloc sz a =
     (let T = ar_tree a; cur = rb_front_mut T (segments a)
      in case rb_get T cur of
           Some seg \<Rightarrow>
             if seg_size seg < sz then Some (0, a)
             else let ret = seg_base seg
                  in if seg_size seg > sz
                     then (case rb_replace_with T cur (MemorySegment_split seg sz) of
                             None \<Rightarrow> None
                           | Some t \<Rightarrow> Some (ret, a\<lparr>segments := t\<rparr>))
                     else Some (ret, a\<lparr>segments := rb_remove T cur\<rparr>)
         | None \<Rightarrow> Some (0, a))"

definition add_to_freelist :: "MemorySegment \<Rightarrow> ('t, 'c) MemoryArena \<Rightarrow> ('t, 'c) MemoryArena" where
  "add_to_freelist seg a = a\<lparr>segments := rb_insert (ar_tree a) seg (segments a)\<rparr>"

definition coalesce_next :: "u64 \<Rightarrow> u64 \<Rightarrow> ('t, 'c) MemoryArena \<Rightarrow> u64 \<times> ('t, 'c) MemoryArena" where
  "coalesce_next addr sz a =
     (let T = ar_tree a; cursor = rb_find_mut T (addr + sz) (segments a)
      in case rb_get T cursor of
           Some nxt \<Rightarrow> if addr + sz = seg_base nxt then (sz + seg_size nxt, a\<lparr>segments := rb_remove T cursor\<rparr>) else (sz, a)
         | None \<Rightarrow> (sz, a))"

definition coalesce_prev :: "u64 \<Rightarrow> u64 \<Rightarrow> ('t, 'c) MemoryArena \<Rightarrow> u64 \<times> u64 \<times> ('t, 'c) MemoryArena" where
  "coalesce_prev addr sz a =
     (let T = ar_tree a; cursor = rb_upper_bound_mut T addr (segments a)
      in case rb_get T cursor of
           Some prev \<Rightarrow>
             if seg_base prev + seg_size prev = addr
             then (seg_base prev, sz + seg_size prev, a\<lparr>segments := rb_remove T cursor\<rparr>) else (addr, sz, a)
         | None \<Rightarrow> (addr, sz, a))"

definition MemoryArena_free :: "u64 \<Rightarrow> u64 \<Rightarrow> ('t, 'c) MemoryArena \<Rightarrow> ('t, 'c) MemoryArena" where
  "MemoryArena_free addr sz a =
     (let (sz, a) = coalesce_next addr sz a;
          (addr, sz, a) = coalesce_prev addr sz a
      in add_to_freelist (MemorySegment_new addr sz) a)"

text \<open>The two arenas of the kernel.\<close>

record ('t, 'c) page_arenas =
  KERNEL_SMALL_PAGE_ARENA :: "('t, 'c) MemoryArena"
  KERNEL_LARGE_PAGE_ARENA :: "('t, 'c) MemoryArena"

definition memory_add_span_small :: "u64 \<Rightarrow> u64 \<Rightarrow> ('t, 'c) page_arenas \<Rightarrow> ('t, 'c) page_arenas" where
  "memory_add_span_small start fin p =
     p\<lparr>KERNEL_SMALL_PAGE_ARENA := add_to_freelist (MemorySegment_new start (fin - start)) (KERNEL_SMALL_PAGE_ARENA p)\<rparr>"

definition memory_add_span_large :: "u64 \<Rightarrow> u64 \<Rightarrow> ('t, 'c) page_arenas \<Rightarrow> ('t, 'c) page_arenas" where
  "memory_add_span_large start fin p =
     p\<lparr>KERNEL_LARGE_PAGE_ARENA := add_to_freelist (MemorySegment_new start (fin - start)) (KERNEL_LARGE_PAGE_ARENA p)\<rparr>"

definition memory_add_span :: "u64 \<Rightarrow> u64 \<Rightarrow> ('t, 'c) page_arenas \<Rightarrow> ('t, 'c) page_arenas" where
  "memory_add_span start sz p =
     (let fin = start + sz;
          large_start = align_up start PAGE_SIZE_LARGE;
          large_end = align_down fin PAGE_SIZE_LARGE;
          p = (if start \<noteq> large_start then memory_add_span_small start large_start p else p);
          p = (if large_start \<noteq> large_end then memory_add_span_large large_start large_end p else p)
      in if fin \<noteq> large_end then memory_add_span_small large_end fin p else p)"

definition page_alloc_small :: "('t, 'c) page_arenas \<Rightarrow> (u64 \<times> ('t, 'c) page_arenas) option" where
  "page_alloc_small p =
     do { (r, a) \<leftarrow> MemoryArena_alloc PAGE_SIZE_SMALL (KERNEL_SMALL_PAGE_ARENA p);
          Some (r, p\<lparr>KERNEL_SMALL_PAGE_ARENA := a\<rparr>) }"

definition page_free_small :: "u64 \<Rightarrow> ('t, 'c) page_arenas \<Rightarrow> ('t, 'c) page_arenas" where
  "page_free_small addr p =
     p\<lparr>KERNEL_SMALL_PAGE_ARENA := MemoryArena_free addr PAGE_SIZE_SMALL (KERNEL_SMALL_PAGE_ARENA p)\<rparr>"

definition page_alloc_large :: "('t, 'c) page_arenas \<Rightarrow> (u64 \<times> ('t, 'c) page_arenas) option" where
  "page_alloc_large p =
     do { (r, a) \<leftarrow> MemoryArena_alloc PAGE_SIZE_LARGE (KERNEL_LARGE_PAGE_ARENA p);
          Some (r, p\<lparr>KERNEL_LARGE_PAGE_ARENA := a\<rparr>) }"

definition page_free_large :: "u64 \<Rightarrow> ('t, 'c) page_arenas \<Rightarrow> ('t, 'c) page_arenas" where
  "page_free_large addr p =
     p\<lparr>KERNEL_LARGE_PAGE_ARENA := MemoryArena_free addr PAGE_SIZE_LARGE (KERNEL_LARGE_PAGE_ARENA p)\<rparr>"

subsection \<open>What an arena holds\<close>

definition page_bytes :: "nat \<Rightarrow> u64 \<Rightarrow> nat set" where
  "page_bytes n r = {unat r ..< unat r + n}"

definition seg_bytes :: "MemorySegment \<Rightarrow> nat set" where
  "seg_bytes s = page_bytes (unat (seg_size s)) (seg_base s)"

definition seg_ok :: "nat \<Rightarrow> MemorySegment \<Rightarrow> bool" where
  "seg_ok n s \<longleftrightarrow> seg_base s \<noteq> 0 \<and> seg_size s \<noteq> 0 \<and> n dvd unat (seg_base s) \<and> n dvd unat (seg_size s)
     \<and> unat (seg_base s) + unat (seg_size s) \<le> 2 ^ 64"

definition segs_ok :: "nat \<Rightarrow> MemorySegment list \<Rightarrow> bool" where
  "segs_ok n segs \<longleftrightarrow> sorted (map seg_base segs) \<and> sorted_wrt (\<lambda>x y. seg_bytes x \<inter> seg_bytes y = {}) segs
     \<and> (\<forall>s \<in> set segs. seg_ok n s)"

definition segs_bytes :: "MemorySegment list \<Rightarrow> nat set" where
  "segs_bytes segs = (\<Union>s \<in> set segs. seg_bytes s)"

definition arena_wf :: "nat \<Rightarrow> ('t, 'c) MemoryArena \<Rightarrow> bool" where
  "arena_wf n a \<longleftrightarrow> rbtree_laws (ar_tree a) \<and> segs_ok n (rb_iter (ar_tree a) (segments a))"

definition arena_avail :: "('t, 'c) MemoryArena \<Rightarrow> nat set" where
  "arena_avail a = segs_bytes (rb_iter (ar_tree a) (segments a))"

lemma segs_bytes_simps [simp]:
  "segs_bytes [] = {}" "segs_bytes (x # xs) = seg_bytes x \<union> segs_bytes xs"
  "segs_bytes (xs @ ys) = segs_bytes xs \<union> segs_bytes ys"
  by (simp_all add: segs_bytes_def)

lemma segs_ok_remove: "segs_ok n (xs @ x # ys) \<Longrightarrow> segs_ok n (xs @ ys)"
  by (auto simp: segs_ok_def sorted_append sorted_wrt_append)

lemma segs_bytes_remove:
  assumes "segs_ok n (xs @ x # ys)"
  shows "segs_bytes (xs @ ys) = segs_bytes (xs @ x # ys) - seg_bytes x"
  using assms by (auto simp: segs_ok_def sorted_wrt_append segs_bytes_def)

lemma segs_ok_insert:
  assumes "segs_ok n (xs @ ys)" and "seg_ok n x" and "seg_bytes x \<inter> segs_bytes (xs @ ys) = {}"
    and "sorted (map seg_base (xs @ x # ys))"
  shows "segs_ok n (xs @ x # ys)"
  using assms by (auto simp: segs_ok_def sorted_wrt_append segs_bytes_def)

lemma take_nth_drop: "i < length xs \<Longrightarrow> xs = take i xs @ xs ! i # drop (Suc i) xs"
  by (simp add: id_take_nth_drop)

lemma rb_new_law: "rbtree_laws T \<Longrightarrow> rb_iter T (rb_new T) = []"
  unfolding rbtree_laws_def by (elim conjE)

lemma rb_front_law:
  "rbtree_laws T \<Longrightarrow> if rb_iter T t = [] then rb_get T (rb_front_mut T t) = None else cursor_at T t (rb_front_mut T t) 0"
  unfolding rbtree_laws_def by (elim conjE allE)

lemma rb_find_law:
  "rbtree_laws T \<Longrightarrow> rb_sorted T t \<Longrightarrow>
     if k \<in> seg_base ` set (rb_iter T t)
     then \<exists>i. cursor_at T t (rb_find_mut T k t) i \<and> seg_base (rb_iter T t ! i) = k
     else rb_get T (rb_find_mut T k t) = None"
  unfolding rbtree_laws_def by blast

lemma rb_upper_law:
  "rbtree_laws T \<Longrightarrow> rb_sorted T t \<Longrightarrow>
     if \<exists>s \<in> set (rb_iter T t). seg_base s < k
     then \<exists>i. cursor_at T t (rb_upper_bound_mut T k t) i \<and> seg_base (rb_iter T t ! i) < k
            \<and> (\<forall>s \<in> set (drop (Suc i) (rb_iter T t)). k \<le> seg_base s)
     else rb_get T (rb_upper_bound_mut T k t) = None"
  unfolding rbtree_laws_def by blast

lemma rb_insert_law:
  "rbtree_laws T \<Longrightarrow> rb_sorted T t \<Longrightarrow>
     rb_sorted T (rb_insert T s t) \<and> (\<exists>i. rb_iter T (rb_insert T s t) = take i (rb_iter T t) @ s # drop i (rb_iter T t))"
  unfolding rbtree_laws_def by blast

lemma arena_sorted: "arena_wf n a \<Longrightarrow> rb_sorted (ar_tree a) (segments a)"
  by (simp add: arena_wf_def segs_ok_def rb_sorted_def)

text \<open>Removing the element under a cursor, and inserting.\<close>

lemma arena_remove:
  assumes "arena_wf n a" and "cursor_at (ar_tree a) (segments a) c i"
  defines "x \<equiv> rb_iter (ar_tree a) (segments a) ! i" and "b \<equiv> a\<lparr>segments := rb_remove (ar_tree a) c\<rparr>"
  shows "rb_get (ar_tree a) c = Some x" and "seg_ok n x" and "seg_bytes x \<subseteq> arena_avail a"
    and "arena_wf n b" and "arena_avail b = arena_avail a - seg_bytes x"
proof -
  define l where "l = rb_iter (ar_tree a) (segments a)"
  have i: "i < length l" using assms(2) by (simp add: cursor_at_def l_def)
  have l: "l = take i l @ x # drop (Suc i) l"
    unfolding x_def l_def [symmetric] by (rule take_nth_drop [OF i])
  have ok: "segs_ok n (take i l @ x # drop (Suc i) l)"
    using assms(1) l by (simp add: arena_wf_def l_def [symmetric])
  have r: "rb_iter (ar_tree b) (segments b) = take i l @ drop (Suc i) l"
    using assms(2) by (simp add: cursor_at_def b_def l_def)
  show "rb_get (ar_tree a) c = Some x" using assms(2) by (simp add: cursor_at_def x_def)
  show "seg_ok n x" using ok by (simp add: segs_ok_def)
  show "seg_bytes x \<subseteq> arena_avail a"
    unfolding arena_avail_def l_def [symmetric] by (subst l) (simp add: le_supI1 le_supI2)
  show "arena_wf n b"
    using assms(1) segs_ok_remove [OF ok] r by (simp add: arena_wf_def b_def)
  show "arena_avail b = arena_avail a - seg_bytes x"
    unfolding arena_avail_def r l_def [symmetric] using segs_bytes_remove [OF ok] l by simp
qed

lemma arena_insert:
  assumes "arena_wf n a" and "seg_ok n x" and "seg_bytes x \<inter> arena_avail a = {}"
  shows "arena_wf n (add_to_freelist x a)" and "arena_avail (add_to_freelist x a) = arena_avail a \<union> seg_bytes x"
proof -
  define l where "l = rb_iter (ar_tree a) (segments a)"
  obtain i where srt: "rb_sorted (ar_tree a) (rb_insert (ar_tree a) x (segments a))"
      and i: "rb_iter (ar_tree a) (rb_insert (ar_tree a) x (segments a)) = take i l @ x # drop i l"
    using rb_insert_law [OF _ arena_sorted [OF assms(1)], of x] assms(1) by (auto simp: arena_wf_def l_def)
  have "segs_ok n (take i l @ x # drop i l)"
    using assms srt i
    by (intro segs_ok_insert) (simp_all add: arena_wf_def arena_avail_def l_def rb_sorted_def flip: segs_bytes_simps(3))
  then show "arena_wf n (add_to_freelist x a)"
    using assms(1) by (simp add: arena_wf_def add_to_freelist_def i)
  have "segs_bytes (take i l) \<union> segs_bytes (drop i l) = segs_bytes l"
    by (simp flip: segs_bytes_simps(3))
  then show "arena_avail (add_to_freelist x a) = arena_avail a \<union> seg_bytes x"
    by (auto simp: arena_avail_def add_to_freelist_def i l_def [symmetric])
qed

lemma arena_alloc_none:
  assumes "arena_wf n a" and "arena_avail a = {}"
  shows "MemoryArena_alloc sz a = Some (0, a)"
proof -
  have "rb_iter (ar_tree a) (segments a) = []"
  proof (rule ccontr)
    assume "rb_iter (ar_tree a) (segments a) \<noteq> []"
    then obtain x where "x \<in> set (rb_iter (ar_tree a) (segments a))" by (meson last_in_set)
    moreover from this have "seg_size x \<noteq> 0" using assms(1) by (auto simp: arena_wf_def segs_ok_def seg_ok_def)
    then have "seg_bytes x \<noteq> {}" by (simp add: seg_bytes_def page_bytes_def unat_eq_0)
    ultimately show False using assms(2) by (auto simp: arena_avail_def segs_bytes_def)
  qed
  then have "rb_get (ar_tree a) (rb_front_mut (ar_tree a) (segments a)) = None"
    using rb_front_law [of "ar_tree a" "segments a"] assms(1) by (simp add: arena_wf_def)
  then show ?thesis by (simp add: MemoryArena_alloc_def)
qed

lemma seg_split:
  assumes "seg_ok n x" and "n = unat sz" and "sz \<noteq> 0" and "sz < seg_size x"
  shows "seg_ok n (MemorySegment_split x sz)" and "seg_bytes (MemorySegment_split x sz) = seg_bytes x - page_bytes n (seg_base x)"
    and "seg_base x \<le> seg_base (MemorySegment_split x sz)"
proof -
  have n: "0 < n" "n < unat (seg_size x)" using assms(2-4) by (simp_all add: word_less_nat_alt unat_gt_0)
  have x: "seg_base x \<noteq> 0" "n dvd unat (seg_base x)" "n dvd unat (seg_size x)" "unat (seg_base x) + unat (seg_size x) \<le> 2 ^ 64"
    using assms(1) by (simp_all add: seg_ok_def)
  have b: "unat (seg_base x + sz) = unat (seg_base x) + n"
    using x n assms(2) by (subst unat_add_no_wrap) simp_all
  have s: "unat (seg_size x - sz) = unat (seg_size x) - n"
    using assms(2,4) by (simp add: unat_sub order_less_imp_le)
  have ne: "seg_base x + sz \<noteq> 0" "seg_size x - sz \<noteq> 0"
    using b s n by (metis add_is_0 less_irrefl unat_eq_0, metis unat_eq_0 zero_less_diff less_irrefl)
  show "seg_ok n (MemorySegment_split x sz)"
    using x n ne by (simp add: seg_ok_def MemorySegment_split_def MemorySegment_new_def b s dvd_diff_nat)
  show "seg_bytes (MemorySegment_split x sz) = seg_bytes x - page_bytes n (seg_base x)"
    using n by (auto simp: seg_bytes_def page_bytes_def MemorySegment_split_def MemorySegment_new_def b s)
  show "seg_base x \<le> seg_base (MemorySegment_split x sz)"
    using n by (simp add: MemorySegment_split_def MemorySegment_new_def word_le_nat_alt b)
qed

lemma seg_order:
  assumes "seg_ok n x" and "seg_ok n y" and "seg_base x \<le> seg_base y" and "seg_bytes x \<inter> seg_bytes y = {}"
  shows "unat (seg_base x) + unat (seg_size x) \<le> unat (seg_base y)"
proof (rule ccontr)
  assume "\<not> ?thesis"
  then have "unat (seg_base y) \<in> seg_bytes x \<inter> seg_bytes y"
    using assms(1-3) by (simp add: seg_bytes_def page_bytes_def seg_ok_def word_le_nat_alt unat_gt_0)
  then show False using assms(4) by simp
qed

lemma arena_alloc_page:
  assumes wf: "arena_wf n a" and sz: "n = unat sz" "sz \<noteq> 0" and ne: "arena_avail a \<noteq> {}"
  shows "\<exists>r b. MemoryArena_alloc sz a = Some (r, b) \<and> r \<noteq> 0 \<and> n dvd unat r \<and> unat r + n \<le> 2 ^ 64
     \<and> page_bytes n r \<subseteq> arena_avail a \<and> arena_wf n b \<and> arena_avail b = arena_avail a - page_bytes n r"
proof -
  let ?T = "ar_tree a" and ?t = "segments a"
  obtain x xs where l: "rb_iter ?T ?t = x # xs"
    using ne by (cases "rb_iter ?T ?t") (auto simp: arena_avail_def)
  have cur: "cursor_at ?T ?t (rb_front_mut ?T ?t) 0"
    using rb_front_law [of ?T ?t] wf l by (simp add: arena_wf_def)
  note rm = arena_remove [OF wf cur, unfolded l nth_Cons_0]
  have x: "n dvd unat (seg_base x)" "unat (seg_base x) + unat (seg_size x) \<le> 2 ^ 64" "seg_base x \<noteq> 0" "n dvd unat (seg_size x)" "seg_size x \<noteq> 0"
    using rm(2) by (simp_all add: seg_ok_def)
  then have le: "n \<le> unat (seg_size x)"
    by (simp add: dvd_imp_le unat_gt_0)
  have pg: "page_bytes n (seg_base x) \<subseteq> seg_bytes x"
    using le by (simp add: page_bytes_def seg_bytes_def)
  show ?thesis
  proof (cases "seg_size x = sz")
    case True
    then have "MemoryArena_alloc sz a = Some (seg_base x, a\<lparr>segments := rb_remove ?T (rb_front_mut ?T ?t)\<rparr>)"
      using rm(1) by (simp add: MemoryArena_alloc_def Let_def)
    moreover have "seg_bytes x = page_bytes n (seg_base x)" using True sz by (simp add: seg_bytes_def)
    ultimately show ?thesis using rm x le by auto
  next
    case False
    then have lt: "sz < seg_size x" using le sz by (simp add: word_le_nat_alt word_less_nat_alt unat_eq_iff)
    note split = seg_split [OF rm(2) sz lt]
    obtain t where t: "rb_replace_with ?T (rb_front_mut ?T ?t) (MemorySegment_split x sz) = Some t"
        "rb_iter ?T t = MemorySegment_split x sz # xs"
      using cur l unfolding cursor_at_def by (metis list_update_code(2))
    have al: "MemoryArena_alloc sz a = Some (seg_base x, a\<lparr>segments := t\<rparr>)"
      using rm(1) t lt less_not_sym [OF lt] by (simp add: MemoryArena_alloc_def Let_def)
    have xs: "segs_ok n (x # xs)" using wf l by (simp add: arena_wf_def)
    have above: "seg_base (MemorySegment_split x sz) \<le> seg_base y" if "y \<in> set xs" for y
    proof -
      have "unat (seg_base x) + unat (seg_size x) \<le> unat (seg_base y)"
        using xs that by (intro seg_order [of n]) (auto simp: segs_ok_def)
      moreover have "seg_bytes (MemorySegment_split x sz) \<subseteq> seg_bytes x" using split(2) by auto
      moreover have "unat (seg_base (MemorySegment_split x sz)) \<in> seg_bytes (MemorySegment_split x sz)"
        using split(1) by (simp add: seg_ok_def seg_bytes_def page_bytes_def unat_gt_0)
      ultimately have "unat (seg_base (MemorySegment_split x sz)) < unat (seg_base y)"
        by (auto simp: seg_bytes_def page_bytes_def)
      then show ?thesis by (simp add: word_le_nat_alt)
    qed
    have "segs_ok n (MemorySegment_split x sz # xs)"
      using xs split above by (auto simp: segs_ok_def)
    then have "arena_wf n (a\<lparr>segments := t\<rparr>)" using wf t by (simp add: arena_wf_def)
    moreover have "arena_avail (a\<lparr>segments := t\<rparr>) = arena_avail a - page_bytes n (seg_base x)"
    proof -
      have "seg_bytes x \<inter> segs_bytes xs = {}" using xs by (auto simp: segs_ok_def segs_bytes_def)
      then show ?thesis using pg split(2) by (auto simp: arena_avail_def t l)
    qed
    ultimately show ?thesis using al x le pg rm(3) by auto
  qed
qed

text \<open>Two segments that touch.\<close>

lemma seg_join:
  assumes "seg_ok n (MemorySegment_new addr sz)" and "seg_ok n x" and "seg_base x = addr + sz"
  shows "seg_ok n (MemorySegment_new addr (sz + seg_size x))"
    and "seg_bytes (MemorySegment_new addr (sz + seg_size x)) = seg_bytes (MemorySegment_new addr sz) \<union> seg_bytes x"
proof -
  have s: "addr \<noteq> 0" "sz \<noteq> 0" "n dvd unat addr" "n dvd unat sz" "unat addr + unat sz \<le> 2 ^ 64"
    using assms(1) by (simp_all add: seg_ok_def MemorySegment_new_def)
  have x: "seg_base x \<noteq> 0" "seg_size x \<noteq> 0" "n dvd unat (seg_size x)" "unat (seg_base x) + unat (seg_size x) \<le> 2 ^ 64"
    using assms(2) by (simp_all add: seg_ok_def)
  have "unat (seg_base x) = (unat addr + unat sz) mod 2 ^ 64"
    using assms(3) by (simp add: unat_word_ariths)
  then have "unat addr + unat sz \<noteq> 2 ^ 64"
    using x(1) by (auto simp: unat_eq_0)
  then have b: "unat (seg_base x) = unat addr + unat sz"
    using s(5) assms(3) by (simp add: unat_add_no_wrap)
  have "0 < unat addr" using s(1) by (simp add: unat_gt_0)
  then have z: "unat (sz + seg_size x) = unat sz + unat (seg_size x)"
    using b x(4) by (subst unat_add_no_wrap) simp_all
  have "sz + seg_size x \<noteq> 0" using z s(2) by (metis add_is_0 unat_eq_0)
  then show "seg_ok n (MemorySegment_new addr (sz + seg_size x))"
    using s x b z by (simp add: seg_ok_def MemorySegment_new_def)
  show "seg_bytes (MemorySegment_new addr (sz + seg_size x)) = seg_bytes (MemorySegment_new addr sz) \<union> seg_bytes x"
    using b z by (auto simp: seg_bytes_def page_bytes_def MemorySegment_new_def)
qed

lemma coalesce_next_ok:
  assumes wf: "arena_wf n a" and seg: "seg_ok n (MemorySegment_new addr sz)"
    and disj: "seg_bytes (MemorySegment_new addr sz) \<inter> arena_avail a = {}"
    and eq: "coalesce_next addr sz a = (sz', b)"
  shows "arena_wf n b \<and> seg_ok n (MemorySegment_new addr sz') \<and> seg_bytes (MemorySegment_new addr sz') \<inter> arena_avail b = {}
    \<and> seg_bytes (MemorySegment_new addr sz') \<union> arena_avail b = seg_bytes (MemorySegment_new addr sz) \<union> arena_avail a"
proof (cases "addr + sz \<in> seg_base ` set (rb_iter (ar_tree a) (segments a))")
  case False
  then have "rb_get (ar_tree a) (rb_find_mut (ar_tree a) (addr + sz) (segments a)) = None"
    using rb_find_law [OF _ arena_sorted [OF wf], of "addr + sz"] wf by (simp add: arena_wf_def)
  then show ?thesis using eq wf seg disj by (simp add: coalesce_next_def)
next
  case True
  then obtain i where i: "cursor_at (ar_tree a) (segments a) (rb_find_mut (ar_tree a) (addr + sz) (segments a)) i"
      "seg_base (rb_iter (ar_tree a) (segments a) ! i) = addr + sz"
    using rb_find_law [OF _ arena_sorted [OF wf], of "addr + sz"] wf by (auto simp: arena_wf_def)
  note rm = arena_remove [OF wf i(1)]
  have "sz' = sz + seg_size (rb_iter (ar_tree a) (segments a) ! i)"
      "b = a\<lparr>segments := rb_remove (ar_tree a) (rb_find_mut (ar_tree a) (addr + sz) (segments a))\<rparr>"
    using eq rm(1) i(2) by (auto simp: coalesce_next_def Let_def)
  then show ?thesis using seg_join [OF seg rm(2) i(2)] rm(3-5) disj by auto
qed

lemma coalesce_prev_ok:
  assumes wf: "arena_wf n a" and seg: "seg_ok n (MemorySegment_new addr sz)"
    and disj: "seg_bytes (MemorySegment_new addr sz) \<inter> arena_avail a = {}"
    and eq: "coalesce_prev addr sz a = (addr', sz', b)"
  shows "arena_wf n b \<and> seg_ok n (MemorySegment_new addr' sz') \<and> seg_bytes (MemorySegment_new addr' sz') \<inter> arena_avail b = {}
    \<and> seg_bytes (MemorySegment_new addr' sz') \<union> arena_avail b = seg_bytes (MemorySegment_new addr sz) \<union> arena_avail a"
proof -
  let ?c = "rb_upper_bound_mut (ar_tree a) addr (segments a)"
  have law: "rb_get (ar_tree a) ?c = None \<or> (\<exists>i. cursor_at (ar_tree a) (segments a) ?c i)"
    using rb_upper_law [OF _ arena_sorted [OF wf], of addr] wf by (auto simp: arena_wf_def split: if_splits)
  show ?thesis
  proof (cases "rb_get (ar_tree a) ?c")
    case None
    then show ?thesis using eq wf seg disj by (simp add: coalesce_prev_def)
  next
    case (Some x)
    then obtain i where i: "cursor_at (ar_tree a) (segments a) ?c i" using law by auto
    note rm = arena_remove [OF wf i]
    have x: "rb_iter (ar_tree a) (segments a) ! i = x" using rm(1) Some by simp
    show ?thesis
    proof (cases "seg_base x + seg_size x = addr")
      case False
      then show ?thesis using eq wf seg disj Some by (simp add: coalesce_prev_def Let_def)
    next
      case True
      have "addr' = seg_base x" "sz' = seg_size x + sz" "b = a\<lparr>segments := rb_remove (ar_tree a) ?c\<rparr>"
        using eq Some True by (auto simp: coalesce_prev_def Let_def)
      moreover have "x = MemorySegment_new (seg_base x) (seg_size x)" by (simp add: MemorySegment_new_def)
      moreover have "addr = seg_base x + seg_size x" "seg_base (MemorySegment_new addr sz) = addr" "seg_size (MemorySegment_new addr sz) = sz"
        using True by (simp_all add: MemorySegment_new_def)
      ultimately show ?thesis
        using seg_join [of n "seg_base x" "seg_size x" "MemorySegment_new addr sz"] seg rm(2-5) disj x by auto
    qed
  qed
qed

lemma arena_free_page:
  assumes "arena_wf n a" and "n = unat sz" and "sz \<noteq> 0" and "r \<noteq> 0" and "n dvd unat r" and "unat r + n \<le> 2 ^ 64"
    and "page_bytes n r \<inter> arena_avail a = {}"
  shows "arena_wf n (MemoryArena_free r sz a)" and "arena_avail (MemoryArena_free r sz a) = arena_avail a \<union> page_bytes n r"
proof -
  obtain sz1 a1 where n: "coalesce_next r sz a = (sz1, a1)" by fastforce
  obtain r2 sz2 a2 where p: "coalesce_prev r sz1 a1 = (r2, sz2, a2)" by (metis prod_cases3)
  have b: "seg_bytes (MemorySegment_new r sz) = page_bytes n r"
    using assms(2) by (simp add: seg_bytes_def MemorySegment_new_def)
  have "seg_ok n (MemorySegment_new r sz)"
    using assms by (simp add: seg_ok_def MemorySegment_new_def)
  note next_ok = coalesce_next_ok [OF assms(1) this _ n, unfolded b, OF assms(7)]
  then have prev_ok: "arena_wf n a2 \<and> seg_ok n (MemorySegment_new r2 sz2) \<and> seg_bytes (MemorySegment_new r2 sz2) \<inter> arena_avail a2 = {}
    \<and> seg_bytes (MemorySegment_new r2 sz2) \<union> arena_avail a2 = page_bytes n r \<union> arena_avail a"
    using coalesce_prev_ok [OF _ _ _ p, of n] by (elim conjE) (simp (no_asm_simp))
  have "MemoryArena_free r sz a = add_to_freelist (MemorySegment_new r2 sz2) a2"
    by (simp add: MemoryArena_free_def n p)
  then show "arena_wf n (MemoryArena_free r sz a)" "arena_avail (MemoryArena_free r sz a) = arena_avail a \<union> page_bytes n r"
    using prev_ok arena_insert [of n a2 "MemorySegment_new r2 sz2"] by (simp_all add: Un_commute)
qed

subsection \<open>The interface of a page allocator\<close>

text \<open>What the rest of the kernel relies on: \<open>alloc\<close> hands out a page of the memory that is
  available and takes it away, it fails with a null pointer only when nothing is available, and
  \<open>release\<close> makes a page that is not available available again.\<close>

locale page_source =
  fixes alloc :: "'p \<Rightarrow> (u64 \<times> 'p) option" and release :: "u64 \<Rightarrow> 'p \<Rightarrow> 'p"
    and inv :: "'p \<Rightarrow> bool" and avail :: "'p \<Rightarrow> nat set" and n :: nat
  assumes n_pos: "0 < n"
    and alloc_none: "inv p \<Longrightarrow> avail p = {} \<Longrightarrow> alloc p = Some (0, p)"
    and alloc_page: "inv p \<Longrightarrow> avail p \<noteq> {} \<Longrightarrow>
      \<exists>r p'. alloc p = Some (r, p') \<and> r \<noteq> 0 \<and> n dvd unat r \<and> unat r + n \<le> 2 ^ 64
        \<and> page_bytes n r \<subseteq> avail p \<and> inv p' \<and> avail p' = avail p - page_bytes n r"
    and release_page: "inv p \<Longrightarrow> r \<noteq> 0 \<Longrightarrow> n dvd unat r \<Longrightarrow> unat r + n \<le> 2 ^ 64 \<Longrightarrow> page_bytes n r \<inter> avail p = {} \<Longrightarrow>
      inv (release r p) \<and> avail (release r p) = avail p \<union> page_bytes n r"

text \<open>A client that allocates pages and frees pages it holds, in any order.\<close>

datatype page_op = AllocPage | FreePage nat

fun page_run :: "('p \<Rightarrow> (u64 \<times> 'p) option) \<Rightarrow> (u64 \<Rightarrow> 'p \<Rightarrow> 'p) \<Rightarrow> page_op list \<Rightarrow> 'p \<Rightarrow> u64 list \<Rightarrow> ('p \<times> u64 list) option" where
  "page_run alloc release [] p held = Some (p, held)"
| "page_run alloc release (AllocPage # ops) p held =
     do { (r, p') \<leftarrow> alloc p; page_run alloc release ops p' (if r = 0 then held else r # held) }"
| "page_run alloc release (FreePage i # ops) p held =
     (if i < length held then page_run alloc release ops (release (held ! i) p) (take i held @ drop (Suc i) held)
      else page_run alloc release ops p held)"

definition held_bytes :: "nat \<Rightarrow> u64 list \<Rightarrow> nat set" where
  "held_bytes n held = (\<Union>r \<in> set held. page_bytes n r)"

definition held_ok :: "nat \<Rightarrow> u64 list \<Rightarrow> bool" where
  "held_ok n held \<longleftrightarrow> sorted_wrt (\<lambda>x y. page_bytes n x \<inter> page_bytes n y = {}) held
     \<and> (\<forall>r \<in> set held. r \<noteq> 0 \<and> n dvd unat r \<and> unat r + n \<le> 2 ^ 64)"

lemma held_ok_remove:
  assumes "held_ok n held" and "i < length held"
  shows "held_ok n (take i held @ drop (Suc i) held)"
    and "held_bytes n held = page_bytes n (held ! i) \<union> held_bytes n (take i held @ drop (Suc i) held)"
    and "page_bytes n (held ! i) \<inter> held_bytes n (take i held @ drop (Suc i) held) = {}"
proof -
  obtain xs ys where h: "held = xs @ held ! i # ys" "take i held = xs" "drop (Suc i) held = ys"
    using take_nth_drop [OF assms(2)] by metis
  show "held_ok n (take i held @ drop (Suc i) held)"
    using assms(1) unfolding h(2,3) by (subst (asm) h(1)) (auto simp: held_ok_def sorted_wrt_append)
  show "held_bytes n held = page_bytes n (held ! i) \<union> held_bytes n (take i held @ drop (Suc i) held)"
    unfolding h(2,3) by (subst h(1)) (auto simp: held_bytes_def)
  show "page_bytes n (held ! i) \<inter> held_bytes n (take i held @ drop (Suc i) held) = {}"
    using assms(1) unfolding h(2,3) by (subst (asm) h(1)) (auto simp: held_ok_def sorted_wrt_append held_bytes_def)
qed

context page_source
begin

text \<open>Nothing is lost and nothing is handed out twice.\<close>

lemma page_run_conserves:
  assumes "inv p" and "held_ok n held" and "held_bytes n held \<inter> avail p = {}"
  shows "\<exists>p' held'. page_run alloc release ops p held = Some (p', held') \<and> inv p' \<and> held_ok n held'
    \<and> held_bytes n held' \<inter> avail p' = {} \<and> held_bytes n held' \<union> avail p' = held_bytes n held \<union> avail p"
  using assms
proof (induction ops arbitrary: p held)
  case Nil
  then show ?case by simp
next
  case (Cons op ops)
  show ?case
  proof (cases op)
    case AllocPage
    show ?thesis
    proof (cases "avail p = {}")
      case True
      then show ?thesis using AllocPage Cons(1) [of p held] Cons(2-4) alloc_none [of p] by simp
    next
      case False
      then obtain r p' where r: "alloc p = Some (r, p')" "r \<noteq> 0" "n dvd unat r" "unat r + n \<le> 2 ^ 64"
          "page_bytes n r \<subseteq> avail p" "inv p'" "avail p' = avail p - page_bytes n r"
        using alloc_page [of p] Cons(2) by blast
      have "held_ok n (r # held)"
        using Cons(3,4) r by (auto simp: held_ok_def held_bytes_def)
      moreover have "held_bytes n (r # held) \<inter> avail p' = {}"
        using Cons(4) r by (auto simp: held_bytes_def)
      moreover have "held_bytes n (r # held) \<union> avail p' = held_bytes n held \<union> avail p"
        using r by (auto simp: held_bytes_def)
      ultimately show ?thesis
        using Cons(1) [of p' "r # held"] r AllocPage by simp
    qed
  next
    case (FreePage i)
    show ?thesis
    proof (cases "i < length held")
      case False
      then show ?thesis using FreePage Cons by simp
    next
      case True
      let ?h = "take i held @ drop (Suc i) held"
      note rm = held_ok_remove [OF Cons(3) True]
      have "held ! i \<in> set held" using True by simp
      then have i: "held ! i \<noteq> 0" "n dvd unat (held ! i)" "unat (held ! i) + n \<le> 2 ^ 64"
        using Cons(3) by (auto simp: held_ok_def)
      have rel: "inv (release (held ! i) p) \<and> avail (release (held ! i) p) = avail p \<union> page_bytes n (held ! i)"
        using Cons(2,4) i rm(2) by (intro release_page) auto
      then have "held_bytes n ?h \<inter> avail (release (held ! i) p) = {}"
        using rm(2,3) Cons(4) by auto
      from Cons(1) [OF _ rm(1) this] rel show ?thesis using FreePage True rm(2) by auto
    qed
  qed
qed

end

interpretation small_pages: page_source page_alloc_small page_free_small
  "\<lambda>p. arena_wf 4096 (KERNEL_SMALL_PAGE_ARENA p)" "\<lambda>p. arena_avail (KERNEL_SMALL_PAGE_ARENA p)" 4096
proof
  fix p :: "('a, 'b) page_arenas"
  assume wf: "arena_wf 4096 (KERNEL_SMALL_PAGE_ARENA p)"
  show "page_alloc_small p = Some (0, p)" if "arena_avail (KERNEL_SMALL_PAGE_ARENA p) = {}"
    using arena_alloc_none [OF wf that] by (simp add: page_alloc_small_def)
  show "\<exists>r p'. page_alloc_small p = Some (r, p') \<and> r \<noteq> 0 \<and> 4096 dvd unat r \<and> unat r + 4096 \<le> 2 ^ 64
        \<and> page_bytes 4096 r \<subseteq> arena_avail (KERNEL_SMALL_PAGE_ARENA p) \<and> arena_wf 4096 (KERNEL_SMALL_PAGE_ARENA p')
        \<and> arena_avail (KERNEL_SMALL_PAGE_ARENA p') = arena_avail (KERNEL_SMALL_PAGE_ARENA p) - page_bytes 4096 r"
    if "arena_avail (KERNEL_SMALL_PAGE_ARENA p) \<noteq> {}"
    using arena_alloc_page [OF wf, of PAGE_SIZE_SMALL, OF _ _ that]
    by (auto simp: page_alloc_small_def PAGE_SIZE_SMALL_eq)
  show "arena_wf 4096 (KERNEL_SMALL_PAGE_ARENA (page_free_small r p))
      \<and> arena_avail (KERNEL_SMALL_PAGE_ARENA (page_free_small r p)) = arena_avail (KERNEL_SMALL_PAGE_ARENA p) \<union> page_bytes 4096 r"
    if "r \<noteq> 0" "4096 dvd unat r" "unat r + 4096 \<le> 2 ^ 64" "page_bytes 4096 r \<inter> arena_avail (KERNEL_SMALL_PAGE_ARENA p) = {}" for r
    using arena_free_page [OF wf, of PAGE_SIZE_SMALL r] that
    by (simp add: page_free_small_def PAGE_SIZE_SMALL_eq)
qed simp

interpretation large_pages: page_source page_alloc_large page_free_large
  "\<lambda>p. arena_wf 2097152 (KERNEL_LARGE_PAGE_ARENA p)" "\<lambda>p. arena_avail (KERNEL_LARGE_PAGE_ARENA p)" 2097152
proof
  fix p :: "('a, 'b) page_arenas"
  assume wf: "arena_wf 2097152 (KERNEL_LARGE_PAGE_ARENA p)"
  show "page_alloc_large p = Some (0, p)" if "arena_avail (KERNEL_LARGE_PAGE_ARENA p) = {}"
    using arena_alloc_none [OF wf that] by (simp add: page_alloc_large_def)
  show "\<exists>r p'. page_alloc_large p = Some (r, p') \<and> r \<noteq> 0 \<and> 2097152 dvd unat r \<and> unat r + 2097152 \<le> 2 ^ 64
        \<and> page_bytes 2097152 r \<subseteq> arena_avail (KERNEL_LARGE_PAGE_ARENA p) \<and> arena_wf 2097152 (KERNEL_LARGE_PAGE_ARENA p')
        \<and> arena_avail (KERNEL_LARGE_PAGE_ARENA p') = arena_avail (KERNEL_LARGE_PAGE_ARENA p) - page_bytes 2097152 r"
    if "arena_avail (KERNEL_LARGE_PAGE_ARENA p) \<noteq> {}"
    using arena_alloc_page [OF wf, of PAGE_SIZE_LARGE, OF _ _ that]
    by (auto simp: page_alloc_large_def PAGE_SIZE_LARGE_eq)
  show "arena_wf 2097152 (KERNEL_LARGE_PAGE_ARENA (page_free_large r p))
      \<and> arena_avail (KERNEL_LARGE_PAGE_ARENA (page_free_large r p)) = arena_avail (KERNEL_LARGE_PAGE_ARENA p) \<union> page_bytes 2097152 r"
    if "r \<noteq> 0" "2097152 dvd unat r" "unat r + 2097152 \<le> 2 ^ 64" "page_bytes 2097152 r \<inter> arena_avail (KERNEL_LARGE_PAGE_ARENA p) = {}" for r
    using arena_free_page [OF wf, of PAGE_SIZE_LARGE r] that
    by (simp add: page_free_large_def PAGE_SIZE_LARGE_eq)
qed simp

definition page_ok :: "u64 \<Rightarrow> bool" where
  "page_ok base \<longleftrightarrow> base \<noteq> 0 \<and> 4096 dvd unat base \<and> unat base + 4096 \<le> 2 ^ 64"

text \<open>Pages are equal or disjoint.\<close>

lemma page_bytes_disjoint:
  assumes "page_ok x" and "page_ok y" and "x \<noteq> y"
  shows "page_bytes 4096 x \<inter> page_bytes 4096 y = {}"
proof -
  obtain k where k: "unat x = 4096 * k" using assms(1) by (auto simp: page_ok_def elim: dvdE)
  obtain l where l: "unat y = 4096 * l" using assms(2) by (auto simp: page_ok_def elim: dvdE)
  have "k \<noteq> l" using assms(3) k l by (auto simp: word_unat_eq_iff)
  then show ?thesis by (auto simp: page_bytes_def k l)
qed

subsection \<open>Adding memory\<close>

lemma dvd_large_small: "2097152 dvd m \<Longrightarrow> 4096 dvd (m :: nat)"
  by (rule dvd_trans [of _ 2097152]) simp_all

lemma unat_align_up_large:
  assumes "unat x + 2097151 < 2 ^ 64"
  shows "unat (align_up x PAGE_SIZE_LARGE) = (unat x + 2097151) div 2097152 * 2097152"
proof -
  have "unat x + 2 ^ 21 - 1 < 2 ^ 64" using assms by simp
  from align_up_no_wrap [OF _ this] show ?thesis by (simp add: PAGE_SIZE_LARGE_eq)
qed

lemma unat_align_down_large: "unat (align_down x PAGE_SIZE_LARGE) = unat x div 2097152 * 2097152"
  unfolding PAGE_SIZE_LARGE_eq by (subst unat_align_down) simp

lemma seg_between:
  assumes "x \<noteq> 0" and "x < y" and "n dvd unat x" and "n dvd unat y"
  shows "seg_ok n (MemorySegment_new x (y - x))" and "seg_bytes (MemorySegment_new x (y - x)) = {unat x ..< unat y}"
proof -
  have u: "unat (y - x) = unat y - unat x" using assms(2) by (simp add: unat_sub order_less_imp_le)
  have lt: "unat x < unat y" "unat y < 2 ^ 64" using assms(2) unat_lt64 [of y] by (simp_all add: word_less_nat_alt)
  show "seg_bytes (MemorySegment_new x (y - x)) = {unat x ..< unat y}"
    using lt by (simp add: seg_bytes_def page_bytes_def MemorySegment_new_def u)
  have "y - x \<noteq> 0" using assms(2) by auto
  then show "seg_ok n (MemorySegment_new x (y - x))"
    using assms lt by (simp add: seg_ok_def MemorySegment_new_def u dvd_diff_nat)
qed

definition arenas_wf :: "('t, 'c) page_arenas \<Rightarrow> bool" where
  "arenas_wf p \<longleftrightarrow> arena_wf 4096 (KERNEL_SMALL_PAGE_ARENA p) \<and> arena_wf 2097152 (KERNEL_LARGE_PAGE_ARENA p)"

definition arenas_avail :: "('t, 'c) page_arenas \<Rightarrow> nat set" where
  "arenas_avail p = arena_avail (KERNEL_SMALL_PAGE_ARENA p) \<union> arena_avail (KERNEL_LARGE_PAGE_ARENA p)"

lemma add_span_small_ok:
  assumes "arenas_wf p" and "x \<noteq> 0" and "x < y" and "4096 dvd unat x" and "4096 dvd unat y"
    and "{unat x ..< unat y} \<inter> arenas_avail p = {}"
  shows "arenas_wf (memory_add_span_small x y p)" and "arenas_avail (memory_add_span_small x y p) = arenas_avail p \<union> {unat x ..< unat y}"
  using assms(1,6) arena_insert [of 4096 "KERNEL_SMALL_PAGE_ARENA p", OF _ seg_between(1) [OF assms(2-5)], unfolded seg_between(2) [OF assms(2-5)]]
  by (auto simp: arenas_wf_def arenas_avail_def memory_add_span_small_def)

lemma add_span_large_ok:
  assumes "arenas_wf p" and "x \<noteq> 0" and "x < y" and "2097152 dvd unat x" and "2097152 dvd unat y"
    and "{unat x ..< unat y} \<inter> arenas_avail p = {}"
  shows "arenas_wf (memory_add_span_large x y p)" and "arenas_avail (memory_add_span_large x y p) = arenas_avail p \<union> {unat x ..< unat y}"
  using assms(1,6) arena_insert [of 2097152 "KERNEL_LARGE_PAGE_ARENA p", OF _ seg_between(1) [OF assms(2-5)], unfolded seg_between(2) [OF assms(2-5)]]
  by (auto simp: arenas_wf_def arenas_avail_def memory_add_span_large_def)

text \<open>The optional steps of \<open>memory_add_span\<close>.\<close>

lemma add_span_small_if:
  assumes "arenas_wf p" and "x \<noteq> 0" and "x \<le> y" and "4096 dvd unat x" and "4096 dvd unat y"
    and "{unat x ..< unat y} \<inter> arenas_avail p = {}"
  defines "p' \<equiv> if x \<noteq> y then memory_add_span_small x y p else p"
  shows "arenas_wf p'" and "arenas_avail p' = arenas_avail p \<union> {unat x ..< unat y}"
  using assms add_span_small_ok [of p x y] by (cases "x = y"; simp)+

lemma add_span_large_if:
  assumes "arenas_wf p" and "x \<noteq> 0" and "x \<le> y" and "2097152 dvd unat x" and "2097152 dvd unat y"
    and "{unat x ..< unat y} \<inter> arenas_avail p = {}"
  defines "p' \<equiv> if x \<noteq> y then memory_add_span_large x y p else p"
  shows "arenas_wf p'" and "arenas_avail p' = arenas_avail p \<union> {unat x ..< unat y}"
  using assms add_span_large_ok [of p x y] by (cases "x = y"; simp)+

subsection \<open>A tree that satisfies the laws\<close>

definition list_tree :: "(MemorySegment list, MemorySegment list \<times> nat option) rbtree" where
  "list_tree = \<lparr>rb_new = [], rb_iter = (\<lambda>t. t),
     rb_front_mut = (\<lambda>t. (t, if t = [] then None else Some 0)),
     rb_find_mut = (\<lambda>k t. (let i = length (takeWhile (\<lambda>s. seg_base s \<noteq> k) t) in (t, if i < length t then Some i else None))),
     rb_upper_bound_mut = (\<lambda>k t. (let i = length (takeWhile (\<lambda>s. seg_base s < k) t) in (t, if 0 < i then Some (i - 1) else None))),
     rb_get = (\<lambda>(t, c). map_option (\<lambda>i. t ! i) c),
     rb_remove = (\<lambda>(t, c). case c of None \<Rightarrow> t | Some i \<Rightarrow> take i t @ drop (Suc i) t),
     rb_replace_with = (\<lambda>(t, c) y. map_option (\<lambda>i. t[i := y]) c),
     rb_insert = (\<lambda>s t. takeWhile (\<lambda>x. seg_base x < seg_base s) t @ s # dropWhile (\<lambda>x. seg_base x < seg_base s) t)\<rparr>"

lemma sorted_below:
  assumes "sorted (map seg_base t)" and "s \<in> set (dropWhile (\<lambda>x. seg_base x < k) t)"
  shows "k \<le> seg_base s"
  using assms by (induction t) (auto split: if_splits)

lemma list_tree_laws: "rbtree_laws list_tree"
proof -
  have at: "cursor_at list_tree t (t, Some i) i" if "i < length t" for t i
    using that by (simp add: cursor_at_def list_tree_def)
  have find: "if k \<in> seg_base ` set t then \<exists>i. cursor_at list_tree t (rb_find_mut list_tree k t) i \<and> seg_base (t ! i) = k
      else rb_get list_tree (rb_find_mut list_tree k t) = None" for k t
  proof -
    let ?i = "length (takeWhile (\<lambda>s. seg_base s \<noteq> k) t)"
    have m: "rb_find_mut list_tree k t = (t, if ?i < length t then Some ?i else None)"
      by (simp add: list_tree_def Let_def)
    have "?i < length t \<longleftrightarrow> k \<in> seg_base ` set t"
      by (induction t) auto
    moreover have "seg_base (t ! ?i) = k" if "?i < length t"
      using nth_length_takeWhile [OF that] by simp
    ultimately show ?thesis using at [of ?i t] by (auto simp: m) (auto simp: list_tree_def)
  qed
  have upper: "if \<exists>s \<in> set t. seg_base s < k
      then \<exists>i. cursor_at list_tree t (rb_upper_bound_mut list_tree k t) i \<and> seg_base (t ! i) < k
           \<and> (\<forall>s \<in> set (drop (Suc i) t). k \<le> seg_base s)
      else rb_get list_tree (rb_upper_bound_mut list_tree k t) = None" if srt: "sorted (map seg_base t)" for k t
  proof -
    define i where "i = length (takeWhile (\<lambda>s. seg_base s < k) t)"
    have m: "rb_upper_bound_mut list_tree k t = (t, if 0 < i then Some (i - 1) else None)"
      by (simp add: list_tree_def Let_def i_def)
    have le: "i \<le> length t" unfolding i_def by (rule length_takeWhile_le)
    have ex: "(\<exists>s \<in> set t. seg_base s < k) \<longleftrightarrow> 0 < i"
      using srt unfolding i_def by (cases t) (auto dest: order_le_less_trans)
    have "seg_base (t ! (i - 1)) < k" if "0 < i"
      using that takeWhile_nth [of "i - 1" "\<lambda>s. seg_base s < k" t] nth_mem [of "i - 1" "takeWhile (\<lambda>s. seg_base s < k) t"]
      unfolding i_def by (auto dest: set_takeWhileD)
    moreover have "k \<le> seg_base s" if "s \<in> set (drop i t)" for s
      using sorted_below [OF srt, of s k] that by (simp add: dropWhile_eq_drop i_def)
    ultimately show ?thesis
      using at [of "i - 1" t] le unfolding ex m by (cases "0 < i") (auto simp: list_tree_def intro!: exI [of _ "i - 1"])
  qed
  have ins: "sorted (map seg_base (rb_insert list_tree s t)) \<and> (\<exists>i. rb_insert list_tree s t = take i t @ s # drop i t)"
    if srt: "sorted (map seg_base t)" for s t
  proof
    let ?P = "\<lambda>x. seg_base x < seg_base s"
    have "sorted (map seg_base (takeWhile ?P t) @ map seg_base (dropWhile ?P t))"
      using srt by (simp flip: map_append)
    moreover have "\<forall>x \<in> set (takeWhile ?P t). seg_base x \<le> seg_base s" by (auto dest: set_takeWhileD)
    moreover have "\<forall>x \<in> set (dropWhile ?P t). seg_base s \<le> seg_base x" using sorted_below [OF srt] by auto
    ultimately show "sorted (map seg_base (rb_insert list_tree s t))"
      unfolding sorted_append by (simp add: list_tree_def sorted_append)
    show "\<exists>i. rb_insert list_tree s t = take i t @ s # drop i t"
      by (intro exI [of _ "length (takeWhile ?P t)"]) (simp add: list_tree_def takeWhile_eq_take [symmetric] dropWhile_eq_drop [symmetric])
  qed
  have it: "rb_iter list_tree = (\<lambda>t. t)" "rb_new list_tree = []" by (simp_all add: list_tree_def)
  have front: "if t = [] then rb_get list_tree (rb_front_mut list_tree t) = None else cursor_at list_tree t (rb_front_mut list_tree t) 0" for t
    using at [of 0 t] by (auto simp: list_tree_def)
  show ?thesis
    unfolding rbtree_laws_def rb_sorted_def it using front find upper ins by simp
qed

subsection \<open>Properties\<close>

text \<open>C2: whatever sequence of allocations and frees of held pages a client of the page allocator
  performs, small or large, every call is defined, the pages it holds are aligned, not null and
  pairwise disjoint, held and available memory together are the memory that was available at the
  start, and the next allocation fails with a null pointer exactly when nothing is available.\<close>

theorem page_allocator_conserves:
  assumes "arenas_wf p"
  shows "(\<exists>p' held. page_run page_alloc_small page_free_small ops p [] = Some (p', held) \<and> held_ok 4096 held
        \<and> held_bytes 4096 held \<inter> arena_avail (KERNEL_SMALL_PAGE_ARENA p') = {}
        \<and> held_bytes 4096 held \<union> arena_avail (KERNEL_SMALL_PAGE_ARENA p') = arena_avail (KERNEL_SMALL_PAGE_ARENA p)
        \<and> (\<exists>r q. page_alloc_small p' = Some (r, q) \<and> (r = 0 \<longleftrightarrow> arena_avail (KERNEL_SMALL_PAGE_ARENA p') = {})))
     \<and> (\<exists>p' held. page_run page_alloc_large page_free_large ops p [] = Some (p', held) \<and> held_ok 2097152 held
        \<and> held_bytes 2097152 held \<inter> arena_avail (KERNEL_LARGE_PAGE_ARENA p') = {}
        \<and> held_bytes 2097152 held \<union> arena_avail (KERNEL_LARGE_PAGE_ARENA p') = arena_avail (KERNEL_LARGE_PAGE_ARENA p)
        \<and> (\<exists>r q. page_alloc_large p' = Some (r, q) \<and> (r = 0 \<longleftrightarrow> arena_avail (KERNEL_LARGE_PAGE_ARENA p') = {})))"
proof -
  have none: "held_ok n []" "held_bytes n [] = {}" for n by (simp_all add: held_ok_def held_bytes_def)
  have wf: "arena_wf 4096 (KERNEL_SMALL_PAGE_ARENA p)" "arena_wf 2097152 (KERNEL_LARGE_PAGE_ARENA p)"
    using assms by (simp_all add: arenas_wf_def)
  have next_small: "\<exists>r q'. page_alloc_small q = Some (r, q') \<and> (r = 0 \<longleftrightarrow> arena_avail (KERNEL_SMALL_PAGE_ARENA q) = {})"
    if "arena_wf 4096 (KERNEL_SMALL_PAGE_ARENA q)" for q :: "('a, 'b) page_arenas"
    using small_pages.alloc_none [OF that] small_pages.alloc_page [OF that] by blast
  have next_large: "\<exists>r q'. page_alloc_large q = Some (r, q') \<and> (r = 0 \<longleftrightarrow> arena_avail (KERNEL_LARGE_PAGE_ARENA q) = {})"
    if "arena_wf 2097152 (KERNEL_LARGE_PAGE_ARENA q)" for q :: "('a, 'b) page_arenas"
    using large_pages.alloc_none [OF that] large_pages.alloc_page [OF that] by blast
  have "\<exists>p' held. page_run page_alloc_small page_free_small ops p [] = Some (p', held) \<and> held_ok 4096 held
        \<and> held_bytes 4096 held \<inter> arena_avail (KERNEL_SMALL_PAGE_ARENA p') = {}
        \<and> held_bytes 4096 held \<union> arena_avail (KERNEL_SMALL_PAGE_ARENA p') = arena_avail (KERNEL_SMALL_PAGE_ARENA p)
        \<and> (\<exists>r q. page_alloc_small p' = Some (r, q) \<and> (r = 0 \<longleftrightarrow> arena_avail (KERNEL_SMALL_PAGE_ARENA p') = {}))"
    using small_pages.page_run_conserves [OF wf(1) none(1), unfolded none(2)] next_small by fastforce
  moreover have "\<exists>p' held. page_run page_alloc_large page_free_large ops p [] = Some (p', held) \<and> held_ok 2097152 held
        \<and> held_bytes 2097152 held \<inter> arena_avail (KERNEL_LARGE_PAGE_ARENA p') = {}
        \<and> held_bytes 2097152 held \<union> arena_avail (KERNEL_LARGE_PAGE_ARENA p') = arena_avail (KERNEL_LARGE_PAGE_ARENA p)
        \<and> (\<exists>r q. page_alloc_large p' = Some (r, q) \<and> (r = 0 \<longleftrightarrow> arena_avail (KERNEL_LARGE_PAGE_ARENA p') = {}))"
    using large_pages.page_run_conserves [OF wf(2) none(1), unfolded none(2)] next_large by fastforce
  ultimately show ?thesis by blast
qed

definition arenas_example :: "(MemorySegment list, MemorySegment list \<times> nat option) page_arenas" where
  "arenas_example = \<lparr>KERNEL_SMALL_PAGE_ARENA = \<lparr>ar_tree = list_tree, segments = [\<lparr>seg_base = 0x3000, seg_size = 0x2000\<rparr>]\<rparr>,
     KERNEL_LARGE_PAGE_ARENA = \<lparr>ar_tree = list_tree, segments = [\<lparr>seg_base = 0x400000, seg_size = 0x200000\<rparr>]\<rparr>\<rparr>"

lemma arenas_example_wf: "arenas_wf arenas_example"
  by (simp add: arenas_wf_def arena_wf_def arenas_example_def list_tree_laws segs_ok_def seg_ok_def)
    (simp add: list_tree_def)

theorem page_allocator_conserves_witness:
  "\<exists>p' held. page_run page_alloc_small page_free_small [AllocPage, AllocPage, FreePage 0, AllocPage, AllocPage] arenas_example [] = Some (p', held)
      \<and> held_ok 4096 held"
  using page_allocator_conserves [OF arenas_example_wf, of "[AllocPage, AllocPage, FreePage 0, AllocPage, AllocPage]"] by blast

text \<open>A span of whole pages that contains a large-page boundary and overlaps nothing is added
  exactly: afterwards the two arenas hold, apart from what they held, the bytes of the span and no
  others, large pages in the large arena.\<close>

lemma add_span_exact:
  assumes wf: "arenas_wf p" and start: "start \<noteq> 0" "4096 dvd unat start" "4096 dvd unat sz" and nw: "unat start + unat sz < 2 ^ 64"
    and boundary: "(unat start + 2097151) div 2097152 \<le> (unat start + unat sz) div 2097152"
    and disj: "{unat start ..< unat start + unat sz} \<inter> arenas_avail p = {}"
  shows "arenas_wf (memory_add_span start sz p)
    \<and> arenas_avail (memory_add_span start sz p) = arenas_avail p \<union> {unat start ..< unat start + unat sz}"
proof -
  define ls le where "ls = align_up start PAGE_SIZE_LARGE" and "le = align_down (start + sz) PAGE_SIZE_LARGE"
  have fin: "unat (start + sz) = unat start + unat sz" using nw by (simp add: unat_add_no_wrap)
  have le: "unat le = (unat start + unat sz) div 2097152 * 2097152" "le \<le> start + sz" "2097152 dvd unat le"
    unfolding le_def by (simp_all add: unat_align_down_large fin word_le_nat_alt)
  have nw': "unat start + 2097151 < 2 ^ 64"
  proof (rule ccontr)
    assume "\<not> ?thesis"
    then have "8796093022208 \<le> (unat start + 2097151) div 2097152" by simp
    moreover have "(unat start + unat sz) div 2097152 < 8796093022208"
      using nw by (simp add: div_less_iff_less_mult)
    ultimately show False using boundary by linarith
  qed
  have ls: "unat ls = (unat start + 2097151) div 2097152 * 2097152" "2097152 dvd unat ls" "start \<le> ls" "ls \<le> le"
    unfolding ls_def using boundary le(1) by (simp_all add: unat_align_up_large [OF nw'] word_le_nat_alt)
  have ne: "ls \<noteq> 0" "le \<noteq> 0" using start(1) ls(3,4) by (auto simp: word_le_nat_alt unat_eq_0)
  have d: "4096 dvd unat ls" "4096 dvd unat le" "4096 dvd unat (start + sz)"
    using ls(2) le(3) start by (simp_all add: dvd_large_small fin)
  define p1 where "p1 = (if start \<noteq> ls then memory_add_span_small start ls p else p)"
  define p2 where "p2 = (if ls \<noteq> le then memory_add_span_large ls le p1 else p1)"
  define p3 where "p3 = (if le \<noteq> start + sz then memory_add_span_small le (start + sz) p2 else p2)"
  have ord: "unat start \<le> unat ls" "unat ls \<le> unat le" "unat le \<le> unat start + unat sz"
    using ls le fin by (simp_all add: word_le_nat_alt)
  have na: "b \<notin> arenas_avail p" if "unat start \<le> b" "b < unat start + unat sz" for b
    using disj that by auto
  have "{unat start ..< unat ls} \<inter> arenas_avail p = {}" using na ord by auto
  note 1 = add_span_small_if [OF wf start(1) ls(3) start(2) d(1) this, folded p1_def]
  have "{unat ls ..< unat le} \<inter> arenas_avail p1 = {}" using na ord unfolding 1(2) by auto
  note 2 = add_span_large_if [OF 1(1) ne(1) ls(4) ls(2) le(3) this, folded p2_def]
  have "{unat le ..< unat (start + sz)} \<inter> arenas_avail p2 = {}" using na ord unfolding fin 1(2) 2(2) by auto
  note 3 = add_span_small_if [OF 2(1) ne(2) le(2) d(2,3) this, folded p3_def]
  have "memory_add_span start sz p = p3"
    by (simp add: memory_add_span_def Let_def p3_def p2_def p1_def ls_def le_def eq_commute [of "start + sz"])
  then show ?thesis
    using 1(2) 2(2) 3 ord fin by (simp add: Un_assoc ivl_disj_un_two(3))
qed

lemma memory_add_span_exact_example:
  "arenas_avail (memory_add_span 0x7ff000 0x202000 arenas_example) = arenas_avail arenas_example \<union> {0x7ff000 ..< 0xa01000}
     \<and> arenas_wf (memory_add_span 0x7ff000 0x202000 arenas_example)"
proof -
  have a: "arenas_avail arenas_example = {0x3000 ..< 0x5000} \<union> {0x400000 ..< 0x600000}"
    by (simp add: arenas_avail_def arena_avail_def arenas_example_def list_tree_def seg_bytes_def page_bytes_def)
  have "{unat (0x7ff000 :: u64) ..< unat (0x7ff000 :: u64) + unat (0x202000 :: u64)} \<inter> arenas_avail arenas_example = {}"
    unfolding a by auto
  from add_span_exact [OF arenas_example_wf _ _ _ _ _ this] show ?thesis by simp
qed

lemma rb_insert_set:
  assumes "rbtree_laws T" and "rb_sorted T t"
  shows "set (rb_iter T (rb_insert T s t)) = insert s (set (rb_iter T t))"
proof -
  obtain i where i: "rb_iter T (rb_insert T s t) = take i (rb_iter T t) @ s # drop i (rb_iter T t)"
    using rb_insert_law [OF assms] by blast
  have "set (rb_iter T t) = set (take i (rb_iter T t)) \<union> set (drop i (rb_iter T t))"
    by (simp flip: set_append)
  then show ?thesis by (auto simp: i)
qed

text \<open>A span that lies strictly between two large-page boundaries makes memory available that
  is not part of it: everything from its start up to the next boundary is added to the small
  arena.\<close>

lemma memory_add_span_overruns:
  assumes wf: "arenas_wf p" and lo: "2097152 * k < unat start" and sz: "0 < unat sz"
    and hi: "unat start + unat sz < 2097152 * Suc k" and top: "2097152 * Suc k < 2 ^ 64"
  shows "{unat start ..< 2097152 * Suc k} \<subseteq> arena_avail (KERNEL_SMALL_PAGE_ARENA (memory_add_span start sz p))"
proof -
  let ?a = "KERNEL_SMALL_PAGE_ARENA p"
  have ls: "unat (align_up start PAGE_SIZE_LARGE) = 2097152 * Suc k"
  proof -
    have "(unat start + 2097151) div 2097152 = Suc k"
      using lo hi by (intro div_nat_eqI) simp_all
    then show ?thesis using hi top by (subst unat_align_up_large) simp_all
  qed
  have fin: "unat (start + sz) = unat start + unat sz"
    using hi top by (simp add: unat_add_no_wrap)
  have le: "unat (align_down (start + sz) PAGE_SIZE_LARGE) = 2097152 * k"
  proof -
    have "(unat start + unat sz) div 2097152 = k"
      using lo hi by (intro div_nat_eqI) simp_all
    then show ?thesis by (simp add: unat_align_down_large fin)
  qed
  have ne: "start \<noteq> align_up start PAGE_SIZE_LARGE" "start + sz \<noteq> align_down (start + sz) PAGE_SIZE_LARGE"
    using ls le lo hi fin by (auto simp: word_unat_eq_iff)
  define s1 where "s1 = MemorySegment_new start (align_up start PAGE_SIZE_LARGE - start)"
  define s2 where "s2 = MemorySegment_new (align_down (start + sz) PAGE_SIZE_LARGE) (start + sz - align_down (start + sz) PAGE_SIZE_LARGE)"
  have small: "KERNEL_SMALL_PAGE_ARENA (memory_add_span start sz p) = add_to_freelist s2 (add_to_freelist s1 ?a)"
    using ne by (simp add: memory_add_span_def Let_def memory_add_span_small_def memory_add_span_large_def s1_def s2_def)
  have laws: "rbtree_laws (ar_tree ?a)" "rb_sorted (ar_tree ?a) (segments ?a)"
    using wf arena_sorted [of 4096 ?a] by (simp_all add: arenas_wf_def arena_wf_def)
  have "s1 \<in> set (rb_iter (ar_tree ?a) (rb_insert (ar_tree ?a) s2 (rb_insert (ar_tree ?a) s1 (segments ?a))))"
    using rb_insert_law [OF laws, of s1] by (simp add: rb_insert_set laws)
  moreover have "seg_bytes s1 = {unat start ..< 2097152 * Suc k}"
    using ls hi sz by (simp add: seg_bytes_def page_bytes_def s1_def MemorySegment_new_def unat_sub word_le_nat_alt)
  ultimately show ?thesis
    unfolding small by (auto simp: arena_avail_def add_to_freelist_def segs_bytes_def)
qed

lemma memory_add_span_overruns_example:
  "0x7fffff \<in> arena_avail (KERNEL_SMALL_PAGE_ARENA (memory_add_span 0x601000 0x1000 arenas_example))"
proof -
  have "{unat (0x601000 :: u64) ..< 2097152 * Suc 3} \<subseteq> arena_avail (KERNEL_SMALL_PAGE_ARENA (memory_add_span 0x601000 0x1000 arenas_example))"
    by (rule memory_add_span_overruns [OF arenas_example_wf]) simp_all
  then show ?thesis by auto
qed

end
