(* ===== verification/Kmem.thy ===== *)
theory Kmem
  imports PageAlloc Printf
begin

text \<open>
  The kernel object allocator (\<^verbatim>\<open>mm/kmem.c\<close>, \<^verbatim>\<open>include/kernel/kmem.h\<close>) over the page
  allocator. The heap is kept by type: for every address the \<^verbatim>\<open>struct kmem_bufctl\<close>,
  \<^verbatim>\<open>struct kmem_slab\<close> or \<^verbatim>\<open>struct kmem_cache\<close> that was last written there, and the bytes
  of the objects for \<open>memset\<close>. Reading a structure that is not there is undefined behaviour,
  and a page that goes back to the page allocator loses its structures. Address 0 is the null
  pointer.
\<close>

record kmem_bufctl =
  bc_next :: u64
  bc_addr :: u64
  bc_slab :: u64

record kmem_slab =
  sl_cache :: u64
  sl_head :: u64
  sl_base :: u64
  sl_next :: u64
  sl_nr_free :: u32
  sl_capacity :: u32

record kmem_cache =
  ca_bufctl :: u64
  ca_size :: u64
  ca_align :: u64
  ca_slab :: u64
  ca_name :: "u8 list"

definition sizeof_kmem_bufctl :: u64 where "sizeof_kmem_bufctl = 24"
abbreviation sizeof_kmem_slab :: u64 where "sizeof_kmem_slab \<equiv> 40"
abbreviation sizeof_kmem_cache :: u64 where "sizeof_kmem_cache \<equiv> 64"
abbreviation KMEM_NAME_MAX_LEN :: nat where "KMEM_NAME_MAX_LEN \<equiv> 32"
abbreviation KMEM_DEFAULT_ALIGN :: u64 where "KMEM_DEFAULT_ALIGN \<equiv> 8"

text \<open>The memory the allocator works on, and the addresses of its static variables.\<close>

record ('t, 'c) kmem_state =
  km_pages :: "('t, 'c) page_arenas"
  km_bufctls :: "u64 \<rightharpoonup> kmem_bufctl"
  km_slabs :: "u64 \<rightharpoonup> kmem_slab"
  km_caches :: "u64 \<rightharpoonup> kmem_cache"
  km_bytes :: "u64 \<Rightarrow> u8"
  kmem_cache_cache :: u64
  kmem_slab_cache :: u64
  kmalloc_caches :: u64

definition put_bufctl :: "u64 \<Rightarrow> kmem_bufctl \<Rightarrow> ('t, 'c) kmem_state \<Rightarrow> ('t, 'c) kmem_state" where
  "put_bufctl a b s = s\<lparr>km_bufctls := (km_bufctls s)(a \<mapsto> b)\<rparr>"

definition put_slab :: "u64 \<Rightarrow> kmem_slab \<Rightarrow> ('t, 'c) kmem_state \<Rightarrow> ('t, 'c) kmem_state" where
  "put_slab a sl s = s\<lparr>km_slabs := (km_slabs s)(a \<mapsto> sl)\<rparr>"

definition put_cache :: "u64 \<Rightarrow> kmem_cache \<Rightarrow> ('t, 'c) kmem_state \<Rightarrow> ('t, 'c) kmem_state" where
  "put_cache a ca s = s\<lparr>km_caches := (km_caches s)(a \<mapsto> ca)\<rparr>"

text \<open>\<open>page_free_small\<close> reuses the page for its own bookkeeping.\<close>

definition in_page :: "u64 \<Rightarrow> u64 \<Rightarrow> bool" where
  "in_page base a \<longleftrightarrow> unat base \<le> unat a \<and> unat a < unat base + 4096"

definition free_page :: "u64 \<Rightarrow> ('t, 'c) kmem_state \<Rightarrow> ('t, 'c) kmem_state" where
  "free_page base s =
     s\<lparr>km_pages := page_free_small base (km_pages s),
       km_bufctls := (\<lambda>a. if in_page base a then None else km_bufctls s a),
       km_slabs := (\<lambda>a. if in_page base a then None else km_slabs s a)\<rparr>"

subsection \<open>Slabs\<close>

definition kmem_object_to_bufctl :: "kmem_cache \<Rightarrow> u64 \<Rightarrow> u64" where
  "kmem_object_to_bufctl cache obj = obj + ca_bufctl cache"

text \<open>The loop that builds the free list. Its fuel runs out only when \<open>buffer_size\<close> is 0.\<close>

fun kmem_slab_fill :: "nat \<Rightarrow> kmem_cache \<Rightarrow> u64 \<Rightarrow> u64 \<Rightarrow> u64 \<Rightarrow> u64 \<Rightarrow> u64 \<Rightarrow> ('t, 'c) kmem_state \<Rightarrow> ('t, 'c) kmem_state option" where
  "kmem_slab_fill 0 cache base slab slab_size buffer_size offset s = None"
| "kmem_slab_fill (Suc fuel) cache base slab slab_size buffer_size offset s =
     (if offset + buffer_size \<le> slab_size then
        do { let addr = base + offset;
             let bufctl = kmem_object_to_bufctl cache addr;
             let next_offset = offset + buffer_size;
             let nxt = (if next_offset + buffer_size \<le> slab_size then kmem_object_to_bufctl cache (base + next_offset) else 0);
             let s = put_bufctl bufctl \<lparr>bc_next = nxt, bc_addr = addr, bc_slab = slab\<rparr> s;
             sl \<leftarrow> km_slabs s slab;
             let s = put_slab slab (sl\<lparr>sl_capacity := sl_capacity sl + 1, sl_nr_free := sl_nr_free sl + 1\<rparr>) s;
             kmem_slab_fill fuel cache base slab slab_size buffer_size next_offset s }
      else Some s)"

definition kmem_slab_init :: "u64 \<Rightarrow> kmem_cache \<Rightarrow> u64 \<Rightarrow> u64 \<Rightarrow> u64 \<Rightarrow> ('t, 'c) kmem_state \<Rightarrow> ('t, 'c) kmem_state option" where
  "kmem_slab_init c cache base slab slab_size s =
     kmem_slab_fill (Suc (unat slab_size)) cache base slab slab_size (align_up (ca_size cache) (ca_align cache)) 0
       (put_slab slab \<lparr>sl_cache = c, sl_head = kmem_object_to_bufctl cache base, sl_base = base, sl_next = 0,
          sl_nr_free = 0, sl_capacity = 0\<rparr> s)"

definition kmem_slab_destroy :: "u64 \<Rightarrow> ('t, 'c) kmem_state \<Rightarrow> ('t, 'c) kmem_state option" where
  "kmem_slab_destroy slab s = do { sl \<leftarrow> km_slabs s slab; Some (free_page (sl_base sl) s) }"

definition kmem_slab_alloc_object :: "u64 \<Rightarrow> ('t, 'c) kmem_state \<Rightarrow> (u64 \<times> ('t, 'c) kmem_state) option" where
  "kmem_slab_alloc_object slab s =
     do { sl \<leftarrow> km_slabs s slab;
          if sl_head sl = 0 then Some (0, s)
          else do { bc \<leftarrow> km_bufctls s (sl_head sl);
                    Some (bc_addr bc, put_slab slab (sl\<lparr>sl_head := bc_next bc, sl_nr_free := sl_nr_free sl - 1\<rparr>) s) } }"

definition kmem_slab_is_full :: "kmem_slab \<Rightarrow> bool" where
  "kmem_slab_is_full sl \<longleftrightarrow> sl_nr_free sl = sl_capacity sl"

definition kmem_slab_free_object :: "u64 \<Rightarrow> u64 \<Rightarrow> ('t, 'c) kmem_state \<Rightarrow> ('t, 'c) kmem_state option" where
  "kmem_slab_free_object slab obj s =
     do { sl \<leftarrow> km_slabs s slab;
          cache \<leftarrow> km_caches s (sl_cache sl);
          let bufctl = kmem_object_to_bufctl cache obj;
          let s = put_bufctl bufctl \<lparr>bc_next = sl_head sl, bc_addr = obj, bc_slab = slab\<rparr> s;
          Some (put_slab slab (sl\<lparr>sl_head := bufctl, sl_nr_free := sl_nr_free sl + 1\<rparr>) s) }"

text \<open>\<open>kmem_slab_create\<close> allocates the descriptor of a slab of large objects from
  \<open>kmem_slab_cache\<close>, and \<open>kmem_cache_alloc\<close> creates slabs: the two call each other. The fuel
  bounds the depth of the calls and the rounds of the loop of \<open>kmem_cache_alloc\<close>.\<close>

fun kmem_slab_create :: "nat \<Rightarrow> u64 \<Rightarrow> ('t, 'c) kmem_state \<Rightarrow> (u64 \<times> ('t, 'c) kmem_state) option"
and kmem_cache_alloc :: "nat \<Rightarrow> u64 \<Rightarrow> ('t, 'c) kmem_state \<Rightarrow> (u64 \<times> ('t, 'c) kmem_state) option" where
  "kmem_slab_create 0 c s = None"
| "kmem_slab_create (Suc fuel) c s =
     do { (base, p) \<leftarrow> page_alloc_small (km_pages s);
          let s = s\<lparr>km_pages := p\<rparr>;
          if base = 0 then Some (0, s)
          else do {
            cache \<leftarrow> km_caches s c;
            if ca_size cache < PAGE_SIZE_SMALL div 8 then
              do { let slab = base + PAGE_SIZE_SMALL - sizeof_kmem_slab;
                   s \<leftarrow> kmem_slab_init c cache base slab (PAGE_SIZE_SMALL - sizeof_kmem_slab) s;
                   Some (slab, s) }
            else
              do { (slab, s) \<leftarrow> kmem_cache_alloc fuel (kmem_slab_cache s) s;
                   if slab = 0 then Some (0, free_page base s)
                   else do { s \<leftarrow> kmem_slab_init c cache base slab PAGE_SIZE_SMALL s; Some (slab, s) } } } }"
| "kmem_cache_alloc 0 c s = None"
| "kmem_cache_alloc (Suc fuel) c s =
     do { cache \<leftarrow> km_caches s c;
          (obj, s) \<leftarrow> kmem_slab_alloc_object (ca_slab cache) s;
          if obj \<noteq> 0 then Some (obj, s)
          else do {
            (slab, s) \<leftarrow> kmem_slab_create fuel c s;
            if slab = 0 then Some (0, s)
            else do { cache \<leftarrow> km_caches s c;
                      sl \<leftarrow> km_slabs s slab;
                      let s = put_slab slab (sl\<lparr>sl_next := ca_slab cache\<rparr>) s;
                      let s = put_cache c (cache\<lparr>ca_slab := slab\<rparr>) s;
                      kmem_cache_alloc fuel c s } } }"

text \<open>Four calls of depth are enough: a cache, its slab, the descriptor cache, its slab, and one
  more round of each loop.\<close>

definition kmem_fuel :: nat where "kmem_fuel = 8"

subsection \<open>Caches\<close>

definition kmem_cache_init :: "u64 \<Rightarrow> u8 list \<Rightarrow> u64 \<Rightarrow> u64 \<Rightarrow> ('t, 'c) kmem_state \<Rightarrow> (int \<times> ('t, 'c) kmem_state) option" where
  "kmem_cache_init c name sz align s =
     (if align_up sz align < sizeof_kmem_bufctl then Some (- EINVAL, s)
      else do {
        let old = (case km_caches s c of Some ca \<Rightarrow> ca_name ca | None \<Rightarrow> map (\<lambda>i. km_bytes s (c + 32 + of_nat i)) [0..<KMEM_NAME_MAX_LEN]);
        let old_slab = (case km_caches s c of Some ca \<Rightarrow> ca_slab ca | None \<Rightarrow> 0);
        (_, nm) \<leftarrow> strlcpy old name KMEM_NAME_MAX_LEN;
        let s = put_cache c \<lparr>ca_bufctl = align_up sz align - sizeof_kmem_bufctl, ca_size = sz, ca_align = align,
                  ca_slab = old_slab, ca_name = nm\<rparr> s;
        (slab, s) \<leftarrow> kmem_slab_create kmem_fuel c s;
        cache \<leftarrow> km_caches s c;
        Some (0, put_cache c (cache\<lparr>ca_slab := slab\<rparr>) s) })"

definition kmem_cache_free :: "u64 \<Rightarrow> u64 \<Rightarrow> ('t, 'c) kmem_state \<Rightarrow> ('t, 'c) kmem_state option" where
  "kmem_cache_free c obj s =
     do { cache \<leftarrow> km_caches s c;
          s \<leftarrow> kmem_slab_free_object (ca_slab cache) obj s;
          sl \<leftarrow> km_slabs s (ca_slab cache);
          if \<not> kmem_slab_is_full sl then Some s
          else if sl_next sl \<noteq> 0 then
            do { let s = put_cache c (cache\<lparr>ca_slab := sl_next sl\<rparr>) s; kmem_slab_destroy (ca_slab cache) s }
          else Some s }"

definition kmem_cache_create :: "u8 list \<Rightarrow> u64 \<Rightarrow> u64 \<Rightarrow> ('t, 'c) kmem_state \<Rightarrow> (u64 \<times> ('t, 'c) kmem_state) option" where
  "kmem_cache_create name sz align s =
     do { (cache, s) \<leftarrow> kmem_cache_alloc kmem_fuel (kmem_cache_cache s) s;
          if cache \<noteq> 0 then
            do { (r, s) \<leftarrow> kmem_cache_init cache name sz align s;
                 if r < 0 then do { s \<leftarrow> kmem_cache_free (kmem_cache_cache s) cache s; Some (0, s) }
                 else Some (cache, s) }
          else Some (cache, s) }"

partial_function (option) kmem_destroy_slabs :: "u64 \<Rightarrow> ('t, 'c) kmem_state \<Rightarrow> ('t, 'c) kmem_state option" where
  "kmem_destroy_slabs slab s =
     (case km_slabs s slab of None \<Rightarrow> None
      | Some sl \<Rightarrow>
          (case kmem_slab_destroy slab s of None \<Rightarrow> None
           | Some s' \<Rightarrow> if sl_next sl = 0 then Some s' else kmem_destroy_slabs (sl_next sl) s'))"

definition kmem_cache_destroy :: "u64 \<Rightarrow> ('t, 'c) kmem_state \<Rightarrow> ('t, 'c) kmem_state option" where
  "kmem_cache_destroy c s =
     do { cache \<leftarrow> km_caches s c;
          s \<leftarrow> kmem_destroy_slabs (ca_slab cache) s;
          kmem_cache_free (kmem_cache_cache s) c s }"

subsection \<open>Objects by size\<close>

definition kmem_alloc_sizes :: "u64 list" where
  "kmem_alloc_sizes = [32, 64, 128, 256, 512, 1024, 2048, 4096]"

definition kmem_cache_index :: "u64 \<Rightarrow> u64" where
  "kmem_cache_index sz =
     (if sz \<le> 32 then 0 else if sz \<le> 64 then 1 else if sz \<le> 128 then 2 else if sz \<le> 256 then 3
      else if sz \<le> 512 then 4 else if sz \<le> 1024 then 5 else if sz \<le> 2048 then 6 else if sz \<le> 4096 then 7
      else NOT 0)"

definition kmem_size_to_cache :: "u64 \<Rightarrow> ('t, 'c) kmem_state \<Rightarrow> u64" where
  "kmem_size_to_cache sz s =
     (let idx = kmem_cache_index sz
      in if of_nat (length kmem_alloc_sizes) \<le> idx then 0 else kmalloc_caches s + idx * sizeof_kmem_cache)"

definition kmem_alloc :: "u64 \<Rightarrow> ('t, 'c) kmem_state \<Rightarrow> (u64 \<times> ('t, 'c) kmem_state) option" where
  "kmem_alloc sz s =
     (let cache = kmem_size_to_cache sz s in if cache = 0 then Some (0, s) else kmem_cache_alloc kmem_fuel cache s)"

definition kmem_memset :: "u64 \<Rightarrow> u8 \<Rightarrow> u64 \<Rightarrow> ('t, 'c) kmem_state \<Rightarrow> ('t, 'c) kmem_state" where
  "kmem_memset p v sz s =
     s\<lparr>km_bytes := (\<lambda>a. if unat p \<le> unat a \<and> unat a < unat p + unat sz then v else km_bytes s a)\<rparr>"

definition kmem_zalloc :: "u64 \<Rightarrow> ('t, 'c) kmem_state \<Rightarrow> (u64 \<times> ('t, 'c) kmem_state) option" where
  "kmem_zalloc sz s =
     do { (p, s) \<leftarrow> kmem_alloc sz s;
          if p = 0 then Some (0, s) else Some (p, kmem_memset p 0 sz s) }"

definition kmem_free :: "u64 \<Rightarrow> u64 \<Rightarrow> ('t, 'c) kmem_state \<Rightarrow> ('t, 'c) kmem_state option" where
  "kmem_free p sz s =
     (let cache = kmem_size_to_cache sz s in if cache = 0 then Some s else kmem_cache_free cache p s)"

fun kmem_init_sizes :: "u8 list \<Rightarrow> nat \<Rightarrow> u64 list \<Rightarrow> ('t, 'c) kmem_state \<Rightarrow> (int \<times> ('t, 'c) kmem_state) option" where
  "kmem_init_sizes name0 i [] s = Some (0, s)"
| "kmem_init_sizes name0 i (sz # szs) s =
     do { (_, cache_name) \<leftarrow> snprintf name0 (of_nat KMEM_NAME_MAX_LEN) (bytes_of ''kmalloc-%lu'' @ [0]) [VaWord sz];
          (err, s) \<leftarrow> kmem_cache_init (kmalloc_caches s + of_nat i * sizeof_kmem_cache) cache_name sz KMEM_DEFAULT_ALIGN s;
          if err \<noteq> 0 then Some (err, s) else kmem_init_sizes name0 (Suc i) szs s }"

definition kmem_init :: "u8 list \<Rightarrow> ('t, 'c) kmem_state \<Rightarrow> (int \<times> ('t, 'c) kmem_state) option" where
  "kmem_init name0 s =
     do { (err, s) \<leftarrow> kmem_cache_init (kmem_cache_cache s) (bytes_of ''kmem_cache_cache'' @ [0]) sizeof_kmem_cache KMEM_DEFAULT_ALIGN s;
          if err \<noteq> 0 then Some (err, s) else do {
          (err, s) \<leftarrow> kmem_cache_init (kmem_slab_cache s) (bytes_of ''kmem_slab_cache'' @ [0]) sizeof_kmem_slab KMEM_DEFAULT_ALIGN s;
          if err \<noteq> 0 then Some (err, s) else kmem_init_sizes name0 0 kmem_alloc_sizes s } }"

end
