(* ===== verification/KmemProofs.thy ===== *)
theory KmemProofs
  imports Kmem
begin

text \<open>
  The object allocator hands out disjoint objects: an invariant of a cache whose slab
  descriptors lie inside their pages, its preservation by \<open>kmem_cache_alloc\<close> and, for objects of
  the first slab, by \<open>kmem_cache_free\<close>, and what goes wrong with the other objects.
\<close>

subsection \<open>Geometry of a slab\<close>

definition buf_size :: "kmem_cache \<Rightarrow> nat" where
  "buf_size cache = unat (align_up (ca_size cache) (ca_align cache))"

definition slab_cap :: "kmem_cache \<Rightarrow> nat" where
  "slab_cap cache = 4056 div buf_size cache"

definition slab_obj :: "kmem_cache \<Rightarrow> u64 \<Rightarrow> nat \<Rightarrow> u64" where
  "slab_obj cache base i = base + of_nat (i * buf_size cache)"

definition slab_objs :: "kmem_cache \<Rightarrow> u64 \<Rightarrow> u64 list" where
  "slab_objs cache base = map (slab_obj cache base) [0..<slab_cap cache]"

definition small_cache :: "kmem_cache \<Rightarrow> bool" where
  "small_cache cache \<longleftrightarrow> ca_size cache < 512 \<and> 24 \<le> buf_size cache \<and> buf_size cache \<le> 4056
     \<and> unat (ca_size cache) \<le> buf_size cache \<and> unat (ca_bufctl cache) = buf_size cache - 24"

lemma slab_cap_le: "i < slab_cap cache \<Longrightarrow> i * buf_size cache + buf_size cache \<le> 4056"
proof -
  assume "i < slab_cap cache"
  then have "Suc i \<le> 4056 div buf_size cache" by (simp add: slab_cap_def)
  then have "Suc i * buf_size cache \<le> 4056 div buf_size cache * buf_size cache" by (rule mult_le_mono1)
  also have "\<dots> \<le> 4056" by simp
  finally show ?thesis by (simp add: add.commute)
qed

lemma slab_cap_pos: "small_cache cache \<Longrightarrow> 0 < slab_cap cache"
  by (simp add: small_cache_def slab_cap_def div_greater_zero_iff)

lemma slab_cap_bound: "small_cache cache \<Longrightarrow> slab_cap cache \<le> 169"
proof -
  assume "small_cache cache"
  then have "4056 div buf_size cache \<le> 4056 div 24" by (intro div_le_mono2) (simp_all add: small_cache_def)
  then show ?thesis by (simp add: slab_cap_def)
qed

lemma unat_slab_obj:
  assumes "page_ok base" and "i < slab_cap cache"
  shows "unat (slab_obj cache base i) = unat base + i * buf_size cache"
proof -
  have "i * buf_size cache \<le> 4056" using slab_cap_le [OF assms(2)] by linarith
  then have u: "unat (of_nat (i * buf_size cache) :: u64) = i * buf_size cache"
    by (intro unat_of_nat64) simp
  show ?thesis
    unfolding slab_obj_def using assms(1) \<open>i * buf_size cache \<le> 4056\<close> u
    by (subst unat_add_no_wrap) (simp_all add: page_ok_def)
qed

lemma unat_obj_bufctl:
  assumes "small_cache cache" and "page_ok base" and "i < slab_cap cache"
  shows "unat (slab_obj cache base i + ca_bufctl cache) = unat base + i * buf_size cache + (buf_size cache - 24)"
proof -
  have le: "i * buf_size cache + buf_size cache \<le> 4056" by (rule slab_cap_le [OF assms(3)])
  have "unat (ca_bufctl cache) = buf_size cache - 24"
    using assms(1) by (simp add: small_cache_def)
  moreover have "i * buf_size cache + (buf_size cache - 24) \<le> 4056" using le by linarith
  ultimately show ?thesis
    using unat_slab_obj [OF assms(2,3)] assms(2) by (subst unat_add_no_wrap) (simp_all add: page_ok_def)
qed

lemma obj_bufctl_in_page:
  assumes "small_cache cache" and "page_ok base" and "obj \<in> set (slab_objs cache base)"
  shows "in_page base (obj + ca_bufctl cache)" and "obj + ca_bufctl cache \<noteq> 0" and "obj \<noteq> 0"
proof -
  obtain i where i: "i < slab_cap cache" "obj = slab_obj cache base i"
    using assms(3) by (auto simp: slab_objs_def)
  have le: "i * buf_size cache + buf_size cache \<le> 4056" by (rule slab_cap_le [OF i(1)])
  have "0 < unat base" using assms(2) by (simp add: page_ok_def unat_gt_0)
  note u = unat_obj_bufctl [OF assms(1,2) i(1)] unat_slab_obj [OF assms(2) i(1)]
  show "in_page base (obj + ca_bufctl cache)" using u le i(2) by (simp add: in_page_def)
  have "unat (obj + ca_bufctl cache) \<noteq> 0" "unat obj \<noteq> 0" using u i(2) \<open>0 < unat base\<close> by simp_all
  then show "obj + ca_bufctl cache \<noteq> 0" "obj \<noteq> 0" by (auto simp: unat_eq_0)
qed

lemma slab_obj_inj:
  assumes "small_cache cache" and "page_ok base" and "i < slab_cap cache" and "j < slab_cap cache"
    and "slab_obj cache base i = slab_obj cache base j"
  shows "i = j"
proof -
  have "i * buf_size cache = j * buf_size cache"
    using unat_slab_obj [OF assms(2,3)] unat_slab_obj [OF assms(2,4)] assms(5) by (metis add_left_cancel)
  then show ?thesis using assms(1) by (simp add: small_cache_def)
qed

lemma distinct_slab_objs: "small_cache cache \<Longrightarrow> page_ok base \<Longrightarrow> distinct (slab_objs cache base)"
  by (auto simp: slab_objs_def distinct_map inj_on_def dest: slab_obj_inj)

text \<open>Pages are equal or disjoint, and so are the objects in them.\<close>

lemma page_disjoint:
  assumes "page_ok x" and "page_ok y" and "in_page x a" and "in_page y a"
  shows "x = y"
  using page_bytes_disjoint [OF assms(1,2)] assms(3,4) by (fastforce simp: page_bytes_def in_page_def)

definition obj_bytes :: "kmem_cache \<Rightarrow> u64 \<Rightarrow> nat set" where
  "obj_bytes cache obj = {unat obj ..< unat obj + unat (ca_size cache)}"

lemma obj_bytes_page:
  assumes "small_cache cache" and "page_ok base" and "obj \<in> set (slab_objs cache base)"
  shows "obj_bytes cache obj \<subseteq> page_bytes 4096 base"
proof -
  obtain i where i: "i < slab_cap cache" "obj = slab_obj cache base i"
    using assms(3) by (auto simp: slab_objs_def)
  show ?thesis
    using slab_cap_le [OF i(1)] unat_slab_obj [OF assms(2) i(1)] assms(1) i(2)
    by (auto simp: obj_bytes_def page_bytes_def small_cache_def)
qed

lemma obj_bytes_disjoint:
  assumes "small_cache cache" and "page_ok base" and "x \<in> set (slab_objs cache base)" and "y \<in> set (slab_objs cache base)" and "x \<noteq> y"
  shows "obj_bytes cache x \<inter> obj_bytes cache y = {}"
proof -
  obtain i j where i: "i < slab_cap cache" "x = slab_obj cache base i" and j: "j < slab_cap cache" "y = slab_obj cache base j"
    using assms(3,4) by (auto simp: slab_objs_def)
  have "i < j \<or> j < i" using assms(5) i j by (cases "i = j") auto
  then have "Suc i * buf_size cache \<le> j * buf_size cache \<or> Suc j * buf_size cache \<le> i * buf_size cache"
    by (metis Suc_leI mult_le_mono1)
  then show ?thesis
    using unat_slab_obj [OF assms(2) i(1)] unat_slab_obj [OF assms(2) j(1)] assms(1) i(2) j(2)
    by (auto simp: obj_bytes_def small_cache_def)
qed

subsection \<open>Free lists\<close>

fun free_chain :: "(u64 \<rightharpoonup> kmem_bufctl) \<Rightarrow> u64 \<Rightarrow> u64 \<Rightarrow> u64 list \<Rightarrow> bool" where
  "free_chain B off h [] \<longleftrightarrow> h = 0"
| "free_chain B off h (ob # obs) \<longleftrightarrow>
     h \<noteq> 0 \<and> h = ob + off \<and> (\<exists>b. B h = Some b \<and> bc_addr b = ob \<and> free_chain B off (bc_next b) obs)"

lemma free_chain_frame:
  "(\<And>ob. ob \<in> set obs \<Longrightarrow> B' (ob + off) = B (ob + off)) \<Longrightarrow> free_chain B' off h obs = free_chain B off h obs"
  by (induction obs arbitrary: h) auto

definition slab_ok :: "('t, 'c) kmem_state \<Rightarrow> u64 \<Rightarrow> kmem_cache \<Rightarrow> u64 \<Rightarrow> u64 \<Rightarrow> u64 list \<Rightarrow> u64 \<Rightarrow> bool" where
  "slab_ok s c cache slab base free nxt \<longleftrightarrow>
     page_ok base \<and> slab = base + 4056 \<and> distinct free \<and> set free \<subseteq> set (slab_objs cache base)
     \<and> (\<exists>head. km_slabs s slab = Some \<lparr>sl_cache = c, sl_head = head, sl_base = base, sl_next = nxt,
              sl_nr_free = of_nat (length free), sl_capacity = of_nat (slab_cap cache)\<rparr>
          \<and> free_chain (km_bufctls s) (ca_bufctl cache) head free)"

definition same_page :: "u64 \<Rightarrow> ('t, 'c) kmem_state \<Rightarrow> ('t, 'c) kmem_state \<Rightarrow> bool" where
  "same_page base s s' \<longleftrightarrow> (\<forall>a. in_page base a \<longrightarrow> km_bufctls s' a = km_bufctls s a \<and> km_slabs s' a = km_slabs s a)"

lemma slab_in_page: "page_ok base \<Longrightarrow> in_page base (base + 4056)" "page_ok base \<Longrightarrow> base + 4056 \<noteq> 0"
proof -
  assume p: "page_ok base"
  then have u: "unat (base + 4056) = unat base + 4056"
    by (subst unat_add_no_wrap) (simp_all add: page_ok_def)
  then show "in_page base (base + 4056)" by (simp add: in_page_def)
  have "unat (base + 4056) \<noteq> 0" using u by simp
  then show "base + 4056 \<noteq> 0" by (auto simp: unat_eq_0)
qed

lemma slab_ok_frame:
  assumes "small_cache cache" and "same_page base s s'" and "slab_ok s c cache slab base free nxt"
  shows "slab_ok s' c cache slab base free nxt"
proof -
  have p: "page_ok base" "slab = base + 4056" "set free \<subseteq> set (slab_objs cache base)"
    using assms(3) by (simp_all add: slab_ok_def)
  have "free_chain (km_bufctls s') (ca_bufctl cache) h free = free_chain (km_bufctls s) (ca_bufctl cache) h free" for h
    using assms(2) p obj_bufctl_in_page(1) [OF assms(1) p(1)] by (intro free_chain_frame) (auto simp: same_page_def)
  moreover have "km_slabs s' slab = km_slabs s slab"
    using assms(2) slab_in_page(1) [OF p(1)] p(2) by (simp add: same_page_def)
  ultimately show ?thesis using assms(3) by (auto simp: slab_ok_def)
qed

fun slab_list :: "('t, 'c) kmem_state \<Rightarrow> u64 \<Rightarrow> kmem_cache \<Rightarrow> u64 \<Rightarrow> (u64 \<times> u64 list) list \<Rightarrow> bool" where
  "slab_list s c cache h [] \<longleftrightarrow> h = 0"
| "slab_list s c cache h ((base, free) # r) \<longleftrightarrow> (\<exists>nxt. slab_ok s c cache h base free nxt \<and> slab_list s c cache nxt r)"

lemma slab_list_frame:
  assumes "small_cache cache" and "\<And>base free. (base, free) \<in> set r \<Longrightarrow> same_page base s s'" and "slab_list s c cache h r"
  shows "slab_list s' c cache h r"
  using assms(2,3)
proof (induction r arbitrary: h)
  case (Cons x r)
  obtain base free where x: "x = (base, free)" by fastforce
  then obtain nxt where n: "slab_ok s c cache h base free nxt" "slab_list s c cache nxt r"
    using Cons(3) by auto
  have "slab_ok s' c cache h base free nxt"
    using Cons(2) [of base free] slab_ok_frame [OF assms(1) _ n(1)] x by simp
  moreover have "slab_list s' c cache nxt r"
    using Cons(1) [OF _ n(2)] Cons(2) by (meson list.set_intros(2))
  ultimately show ?case using x by auto
qed simp

lemma slab_list_pages: "slab_list s c cache h r \<Longrightarrow> (base, free) \<in> set r \<Longrightarrow> page_ok base \<and> set free \<subseteq> set (slab_objs cache base)"
  by (induction r arbitrary: h) (auto simp: slab_ok_def, blast)

subsection \<open>A new slab\<close>

definition slab_bufctl :: "kmem_cache \<Rightarrow> u64 \<Rightarrow> nat \<Rightarrow> u64" where
  "slab_bufctl cache base i = slab_obj cache base i + ca_bufctl cache"

definition filled_bufctl :: "kmem_cache \<Rightarrow> u64 \<Rightarrow> u64 \<Rightarrow> nat \<Rightarrow> kmem_bufctl" where
  "filled_bufctl cache base slab i =
     \<lparr>bc_next = if Suc i < slab_cap cache then slab_bufctl cache base (Suc i) else 0,
      bc_addr = slab_obj cache base i, bc_slab = slab\<rparr>"

lemma fill_chain:
  assumes "small_cache cache" and "page_ok base"
    and "\<And>j. i \<le> j \<Longrightarrow> j < slab_cap cache \<Longrightarrow> B (slab_bufctl cache base j) = Some (filled_bufctl cache base slab j)"
    and "i \<le> slab_cap cache"
  shows "free_chain B (ca_bufctl cache) (if i < slab_cap cache then slab_bufctl cache base i else 0) (map (slab_obj cache base) [i..<slab_cap cache])"
  using assms(3,4)
proof (induction "slab_cap cache - i" arbitrary: i)
  case 0
  then show ?case by simp
next
  case (Suc n)
  then have i: "i < slab_cap cache" by simp
  then have "slab_bufctl cache base i \<noteq> 0"
    using obj_bufctl_in_page(2) [OF assms(1,2), of "slab_obj cache base i"] by (simp add: slab_bufctl_def slab_objs_def)
  moreover have "free_chain B (ca_bufctl cache) (if Suc i < slab_cap cache then slab_bufctl cache base (Suc i) else 0)
      (map (slab_obj cache base) [Suc i..<slab_cap cache])"
    using Suc i by (intro Suc(1)) simp_all
  ultimately show ?case
    using i Suc(3) [of i] by (simp add: upt_conv_Cons filled_bufctl_def slab_bufctl_def)
qed

lemma fill_offset:
  assumes "small_cache cache" and "i \<le> slab_cap cache"
  shows "(of_nat (i * buf_size cache) + align_up (ca_size cache) (ca_align cache) \<le> (4056 :: u64)) \<longleftrightarrow> i < slab_cap cache"
    and "of_nat (i * buf_size cache) + align_up (ca_size cache) (ca_align cache) = (of_nat (Suc i * buf_size cache) :: u64)"
proof -
  have b: "0 < buf_size cache" "buf_size cache \<le> 4056" using assms(1) by (simp_all add: small_cache_def)
  have "i * buf_size cache \<le> slab_cap cache * buf_size cache" using assms(2) by (rule mult_le_mono1)
  also have "\<dots> \<le> 4056" by (simp add: slab_cap_def)
  finally have le: "i * buf_size cache \<le> 4056" .
  show eq: "of_nat (i * buf_size cache) + align_up (ca_size cache) (ca_align cache) = (of_nat (Suc i * buf_size cache) :: u64)"
    by (simp add: buf_size_def)
  have u: "unat (of_nat (Suc i * buf_size cache) :: u64) = Suc i * buf_size cache"
    using le b by (intro unat_of_nat64) simp
  have "Suc i * buf_size cache \<le> 4056 \<longleftrightarrow> Suc i \<le> slab_cap cache"
    using b by (simp add: slab_cap_def less_eq_div_iff_mult_less_eq)
  then show "(of_nat (i * buf_size cache) + align_up (ca_size cache) (ca_align cache) \<le> (4056 :: u64)) \<longleftrightarrow> i < slab_cap cache"
    unfolding eq word_le_nat_alt u by (simp add: Suc_le_eq)
qed

lemma slab_bufctl_inj:
  "small_cache cache \<Longrightarrow> page_ok base \<Longrightarrow> i < slab_cap cache \<Longrightarrow> j < slab_cap cache \<Longrightarrow>
     slab_bufctl cache base i = slab_bufctl cache base j \<longleftrightarrow> i = j"
  using slab_obj_inj by (auto simp: slab_bufctl_def)

lemma kmem_slab_fill_ok:
  assumes sm: "small_cache cache" and pg: "page_ok base" and i: "i \<le> slab_cap cache" and fuel: "slab_cap cache - i < fuel"
    and sl: "km_slabs s slab = Some sl"
  shows "\<exists>s'. kmem_slab_fill fuel cache base slab 4056 (align_up (ca_size cache) (ca_align cache)) (of_nat (i * buf_size cache)) s = Some s'
    \<and> s' = s\<lparr>km_bufctls := km_bufctls s', km_slabs := (km_slabs s)(slab \<mapsto>
         sl\<lparr>sl_capacity := sl_capacity sl + of_nat (slab_cap cache - i), sl_nr_free := sl_nr_free sl + of_nat (slab_cap cache - i)\<rparr>)\<rparr>
    \<and> (\<forall>j. i \<le> j \<and> j < slab_cap cache \<longrightarrow> km_bufctls s' (slab_bufctl cache base j) = Some (filled_bufctl cache base slab j))
    \<and> (\<forall>a. (\<forall>j. i \<le> j \<and> j < slab_cap cache \<longrightarrow> a \<noteq> slab_bufctl cache base j) \<longrightarrow> km_bufctls s' a = km_bufctls s a)"
  using i fuel sl
proof (induction "slab_cap cache - i" arbitrary: i fuel s sl)
  case 0
  then have ic: "i = slab_cap cache" by simp
  obtain f where f: "fuel = Suc f" using 0 by (cases fuel) auto
  have upd: "(km_slabs s)(slab \<mapsto> sl) = km_slabs s"
    using 0(4) by (simp add: fun_upd_idem)
  have "kmem_slab_fill fuel cache base slab 4056 (align_up (ca_size cache) (ca_align cache)) (of_nat (i * buf_size cache)) s = Some s"
    unfolding f kmem_slab_fill.simps using fill_offset(1) [OF sm 0(2)] ic by simp
  then show ?case using upd ic by (intro exI [of _ s]) auto
next
  case (Suc n)
  then have ic: "i < slab_cap cache" by simp
  obtain f where f: "fuel = Suc f" using Suc by (cases fuel) auto
  define w w1 bs where "w = (of_nat (i * buf_size cache) :: u64)" and "w1 = (of_nat (Suc i * buf_size cache) :: u64)"
    and "bs = align_up (ca_size cache) (ca_align cache)"
  have off: "w + bs \<le> 4056" "w + bs = w1" "w1 + bs \<le> 4056 \<longleftrightarrow> Suc i < slab_cap cache"
    using fill_offset [OF sm Suc(3)] fill_offset(1) [OF sm, of "Suc i"] ic unfolding w_def w1_def bs_def by simp_all
  have obj: "kmem_object_to_bufctl cache (slab_obj cache base i) = slab_bufctl cache base i" "base + w = slab_obj cache base i"
      "kmem_object_to_bufctl cache (base + w1) = slab_bufctl cache base (Suc i)"
    unfolding w_def w1_def kmem_object_to_bufctl_def slab_bufctl_def slab_obj_def by (rule refl)+
  define sl1 where "sl1 = sl\<lparr>sl_capacity := sl_capacity sl + 1, sl_nr_free := sl_nr_free sl + 1\<rparr>"
  define s1 where "s1 = put_slab slab sl1 (put_bufctl (slab_bufctl cache base i) (filled_bufctl cache base slab i) s)"
  have step: "kmem_slab_fill fuel cache base slab 4056 bs w s = kmem_slab_fill f cache base slab 4056 bs w1 s1"
    using off Suc(5) by (simp add: f s1_def sl1_def obj filled_bufctl_def put_bufctl_def Let_def)
  have s1: "km_slabs s1 slab = Some sl1" by (simp add: s1_def put_slab_def)
  have "\<exists>s'. kmem_slab_fill f cache base slab 4056 bs w1 s1 = Some s'
    \<and> s' = s1\<lparr>km_bufctls := km_bufctls s', km_slabs := (km_slabs s1)(slab \<mapsto>
         sl1\<lparr>sl_capacity := sl_capacity sl1 + of_nat (slab_cap cache - Suc i), sl_nr_free := sl_nr_free sl1 + of_nat (slab_cap cache - Suc i)\<rparr>)\<rparr>
    \<and> (\<forall>j. Suc i \<le> j \<and> j < slab_cap cache \<longrightarrow> km_bufctls s' (slab_bufctl cache base j) = Some (filled_bufctl cache base slab j))
    \<and> (\<forall>a. (\<forall>j. Suc i \<le> j \<and> j < slab_cap cache \<longrightarrow> a \<noteq> slab_bufctl cache base j) \<longrightarrow> km_bufctls s' a = km_bufctls s1 a)"
    unfolding w1_def bs_def using Suc(2,4) ic f by (intro Suc(1) s1) simp_all
  then obtain s' where s': "kmem_slab_fill f cache base slab 4056 bs w1 s1 = Some s'"
    "s' = s1\<lparr>km_bufctls := km_bufctls s', km_slabs := (km_slabs s1)(slab \<mapsto>
         sl1\<lparr>sl_capacity := sl_capacity sl1 + of_nat (slab_cap cache - Suc i), sl_nr_free := sl_nr_free sl1 + of_nat (slab_cap cache - Suc i)\<rparr>)\<rparr>"
    "\<And>j. Suc i \<le> j \<Longrightarrow> j < slab_cap cache \<Longrightarrow> km_bufctls s' (slab_bufctl cache base j) = Some (filled_bufctl cache base slab j)"
    "\<And>a. (\<And>j. Suc i \<le> j \<Longrightarrow> j < slab_cap cache \<Longrightarrow> a \<noteq> slab_bufctl cache base j) \<Longrightarrow> km_bufctls s' a = km_bufctls s1 a"
    by blast
  have cnt: "slab_cap cache - i = Suc (slab_cap cache - Suc i)" using ic by simp
  have upd: "s' = s\<lparr>km_bufctls := km_bufctls s', km_slabs := (km_slabs s)(slab \<mapsto>
         sl\<lparr>sl_capacity := sl_capacity sl + of_nat (slab_cap cache - i), sl_nr_free := sl_nr_free sl + of_nat (slab_cap cache - i)\<rparr>)\<rparr>"
    by (subst s'(2)) (simp add: s1_def sl1_def put_slab_def put_bufctl_def cnt add.assoc)
  have bufs: "km_bufctls s' (slab_bufctl cache base j) = Some (filled_bufctl cache base slab j)" if "i \<le> j" "j < slab_cap cache" for j
  proof (cases "j = i")
    case True
    have "km_bufctls s' (slab_bufctl cache base i) = km_bufctls s1 (slab_bufctl cache base i)"
      using slab_bufctl_inj [OF sm pg ic] by (intro s'(4)) auto
    then show ?thesis using True by (simp add: s1_def put_slab_def put_bufctl_def)
  qed (use s'(3) that in auto)
  have frame: "km_bufctls s' a = km_bufctls s a" if "\<And>j. i \<le> j \<Longrightarrow> j < slab_cap cache \<Longrightarrow> a \<noteq> slab_bufctl cache base j" for a
  proof -
    have "a \<noteq> slab_bufctl cache base i" using that [of i] ic by simp
    moreover have "km_bufctls s' a = km_bufctls s1 a" using that by (intro s'(4)) simp
    ultimately show ?thesis by (simp add: s1_def put_slab_def put_bufctl_def)
  qed
  have run: "kmem_slab_fill fuel cache base slab 4056 (align_up (ca_size cache) (ca_align cache)) (of_nat (i * buf_size cache)) s = Some s'"
    using step s'(1) unfolding w_def bs_def by (rule trans)
  show ?case
    using bufs frame by (intro exI [of _ s'] conjI run upd) simp_all
qed

subsection \<open>The invariant of a cache\<close>

definition cache_inv :: "('t, 'c) kmem_state \<Rightarrow> u64 \<Rightarrow> kmem_cache \<Rightarrow> (u64 \<times> u64 list) list \<Rightarrow> bool" where
  "cache_inv s c cache L \<longleftrightarrow>
     km_caches s c = Some cache \<and> small_cache cache \<and> arena_wf 4096 (KERNEL_SMALL_PAGE_ARENA (km_pages s))
     \<and> L \<noteq> [] \<and> slab_list s c cache (ca_slab cache) L \<and> distinct (map fst L)
     \<and> (\<forall>(base, free) \<in> set L. page_bytes 4096 base \<inter> arena_avail (KERNEL_SMALL_PAGE_ARENA (km_pages s)) = {})"

lemma cache_invI:
  assumes "km_caches s c = Some cache" and "small_cache cache" and "arena_wf 4096 (KERNEL_SMALL_PAGE_ARENA (km_pages s))"
    and "L \<noteq> []" and "slab_list s c cache (ca_slab cache) L" and "distinct (map fst L)"
    and "\<And>base free. (base, free) \<in> set L \<Longrightarrow> page_bytes 4096 base \<inter> arena_avail (KERNEL_SMALL_PAGE_ARENA (km_pages s)) = {}"
  shows "cache_inv s c cache L"
  using assms(1-6) assms(7) unfolding cache_inv_def by auto

lemma cache_invD:
  assumes "cache_inv s c cache L"
  shows "km_caches s c = Some cache" and "small_cache cache" and "arena_wf 4096 (KERNEL_SMALL_PAGE_ARENA (km_pages s))"
    and "L \<noteq> []" and "slab_list s c cache (ca_slab cache) L" and "distinct (map fst L)"
    and "(base, free) \<in> set L \<Longrightarrow> page_bytes 4096 base \<inter> arena_avail (KERNEL_SMALL_PAGE_ARENA (km_pages s)) = {}"
  using assms unfolding cache_inv_def by auto

text \<open>The objects in the hands of clients: those that are on no free list.\<close>

definition live_objs :: "kmem_cache \<Rightarrow> (u64 \<times> u64 list) list \<Rightarrow> u64 set" where
  "live_objs cache L = (\<Union>(base, free) \<in> set L. set (slab_objs cache base) - set free)"

lemma cache_shape:
  "buf_size (cache\<lparr>ca_slab := x\<rparr>) = buf_size cache" "slab_cap (cache\<lparr>ca_slab := x\<rparr>) = slab_cap cache"
  "slab_objs (cache\<lparr>ca_slab := x\<rparr>) = slab_objs cache" "small_cache (cache\<lparr>ca_slab := x\<rparr>) = small_cache cache"
  "live_objs (cache\<lparr>ca_slab := x\<rparr>) L = live_objs cache L" "obj_bytes (cache\<lparr>ca_slab := x\<rparr>) = obj_bytes cache"
proof -
  show 1: "buf_size (cache\<lparr>ca_slab := x\<rparr>) = buf_size cache" by (simp add: buf_size_def)
  show 2: "slab_cap (cache\<lparr>ca_slab := x\<rparr>) = slab_cap cache" by (simp add: slab_cap_def 1)
  show 3: "slab_objs (cache\<lparr>ca_slab := x\<rparr>) = slab_objs cache" by (simp add: slab_objs_def slab_obj_def 1 2 fun_eq_iff)
  show "small_cache (cache\<lparr>ca_slab := x\<rparr>) = small_cache cache" by (simp add: small_cache_def 1)
  show "live_objs (cache\<lparr>ca_slab := x\<rparr>) L = live_objs cache L" by (simp add: live_objs_def 3)
  show "obj_bytes (cache\<lparr>ca_slab := x\<rparr>) = obj_bytes cache" by (simp add: obj_bytes_def fun_eq_iff)
qed

lemma slab_ok_cache: "slab_ok s c (cache\<lparr>ca_slab := x\<rparr>) = slab_ok s c cache"
  by (intro ext) (simp add: slab_ok_def cache_shape)

lemma slab_list_cache: "slab_list s c (cache\<lparr>ca_slab := x\<rparr>) h L = slab_list s c cache h L"
  by (induction L arbitrary: h) (auto simp: slab_ok_cache)

lemma kmem_slab_init_ok:
  assumes sm: "small_cache cache" and pg: "page_ok base"
  shows "\<exists>s'. kmem_slab_init c cache base (base + 4056) 4056 s = Some s'
    \<and> s' = s\<lparr>km_bufctls := km_bufctls s', km_slabs := km_slabs s'\<rparr>
    \<and> slab_ok s' c cache (base + 4056) base (slab_objs cache base) 0
    \<and> (\<forall>b. page_ok b \<and> b \<noteq> base \<longrightarrow> same_page b s s')"
proof -
  define sl where "sl = \<lparr>sl_cache = c, sl_head = kmem_object_to_bufctl cache base, sl_base = base, sl_next = 0, sl_nr_free = 0, sl_capacity = 0\<rparr>"
  define s0 where "s0 = put_slab (base + 4056) sl s"
  have sl: "km_slabs s0 (base + 4056) = Some sl" by (simp add: s0_def put_slab_def)
  have "slab_cap cache < Suc (unat (4056 :: u64))" using slab_cap_bound [OF sm] by simp
  then obtain s' where s': "kmem_slab_fill (Suc (unat (4056 :: u64))) cache base (base + 4056) 4056 (align_up (ca_size cache) (ca_align cache)) 0 s0 = Some s'"
      "s' = s0\<lparr>km_bufctls := km_bufctls s', km_slabs := (km_slabs s0)(base + 4056 \<mapsto>
         sl\<lparr>sl_capacity := sl_capacity sl + of_nat (slab_cap cache), sl_nr_free := sl_nr_free sl + of_nat (slab_cap cache)\<rparr>)\<rparr>"
      "\<And>j. j < slab_cap cache \<Longrightarrow> km_bufctls s' (slab_bufctl cache base j) = Some (filled_bufctl cache base (base + 4056) j)"
      "\<And>a. (\<And>j. j < slab_cap cache \<Longrightarrow> a \<noteq> slab_bufctl cache base j) \<Longrightarrow> km_bufctls s' a = km_bufctls s0 a"
    using kmem_slab_fill_ok [OF sm pg, of 0 "Suc (unat (4056 :: u64))" s0 "base + 4056" sl, OF _ _ sl] by auto
  have slabs: "km_slabs s' = (km_slabs s)(base + 4056 \<mapsto>
      sl\<lparr>sl_capacity := of_nat (slab_cap cache), sl_nr_free := of_nat (slab_cap cache)\<rparr>)"
    by (subst s'(2)) (simp add: s0_def put_slab_def sl_def)
  have "free_chain (km_bufctls s') (ca_bufctl cache) (slab_bufctl cache base 0) (slab_objs cache base)"
    using fill_chain [OF sm pg, of 0 "km_bufctls s'" "base + 4056"] s'(3) slab_cap_pos [OF sm] by (simp add: slab_objs_def)
  moreover have "slab_bufctl cache base 0 = kmem_object_to_bufctl cache base"
    by (simp add: slab_bufctl_def slab_obj_def kmem_object_to_bufctl_def)
  ultimately have ok: "slab_ok s' c cache (base + 4056) base (slab_objs cache base) 0"
    using distinct_slab_objs [OF sm pg] pg by (simp add: slab_ok_def slabs sl_def slab_objs_def)
  have "same_page b s s'" if b: "page_ok b" "b \<noteq> base" for b
  proof -
    have "km_bufctls s' a = km_bufctls s a" if "in_page b a" for a
    proof -
      have "a \<noteq> slab_bufctl cache base j" if "j < slab_cap cache" for j
        using obj_bufctl_in_page(1) [OF sm pg, of "slab_obj cache base j"] that \<open>in_page b a\<close> b page_disjoint [OF b(1) pg, of a]
        by (auto simp: slab_objs_def slab_bufctl_def)
      then show ?thesis using s'(4) [of a] by (simp add: s0_def put_slab_def)
    qed
    moreover have "km_slabs s' a = km_slabs s a" if "in_page b a" for a
      using that b slab_in_page(1) [OF pg] page_disjoint [OF b(1) pg, of a] by (auto simp: slabs)
    ultimately show ?thesis by (simp add: same_page_def)
  qed
  moreover have "s' = s\<lparr>km_bufctls := km_bufctls s', km_slabs := km_slabs s'\<rparr>"
    by (subst s'(2)) (simp add: slabs s0_def put_slab_def sl_def)
  ultimately show ?thesis
    using s'(1) ok by (intro exI [of _ s']) (simp add: kmem_slab_init_def s0_def sl_def)
qed

subsection \<open>Allocation\<close>

lemma slab_alloc_object_some:
  assumes sm: "small_cache cache" and ok: "slab_ok s c cache slab base (ob # free) nxt"
  shows "\<exists>s'. kmem_slab_alloc_object slab s = Some (ob, s') \<and> s' = s\<lparr>km_slabs := km_slabs s'\<rparr>
    \<and> slab_ok s' c cache slab base free nxt \<and> (\<forall>b. page_ok b \<and> b \<noteq> base \<longrightarrow> same_page b s s')"
proof -
  obtain head b where h: "km_slabs s slab = Some \<lparr>sl_cache = c, sl_head = head, sl_base = base, sl_next = nxt,
        sl_nr_free = of_nat (length (ob # free)), sl_capacity = of_nat (slab_cap cache)\<rparr>"
      "head \<noteq> 0" "km_bufctls s head = Some b" "bc_addr b = ob" "free_chain (km_bufctls s) (ca_bufctl cache) (bc_next b) free"
      and pg: "page_ok base" "slab = base + 4056" "distinct (ob # free)" "set (ob # free) \<subseteq> set (slab_objs cache base)"
    using ok by (auto simp: slab_ok_def)
  define s' where "s' = put_slab slab \<lparr>sl_cache = c, sl_head = bc_next b, sl_base = base, sl_next = nxt,
        sl_nr_free = of_nat (length free), sl_capacity = of_nat (slab_cap cache)\<rparr> s"
  have "kmem_slab_alloc_object slab s = Some (ob, s')"
    using h by (simp add: kmem_slab_alloc_object_def s'_def)
  moreover have "slab_ok s' c cache slab base free nxt"
    using h(5) pg by (simp add: slab_ok_def s'_def put_slab_def)
  moreover have "same_page b s s'" if "page_ok b" "b \<noteq> base" for b
    using that slab_in_page(1) [OF pg(1)] page_disjoint [OF that(1) pg(1)] pg(2)
    by (auto simp: same_page_def s'_def put_slab_def)
  moreover have "s' = s\<lparr>km_slabs := km_slabs s'\<rparr>" by (simp add: s'_def put_slab_def)
  ultimately show ?thesis by blast
qed

lemma slab_alloc_object_none:
  assumes "slab_ok s c cache slab base [] nxt"
  shows "kmem_slab_alloc_object slab s = Some (0, s)"
  using assms by (auto simp: slab_ok_def kmem_slab_alloc_object_def)

lemma live_objs_Cons [simp]: "live_objs cache ((base, free) # L) = (set (slab_objs cache base) - set free) \<union> live_objs cache L"
  by (simp add: live_objs_def)

lemma page_bytes_in_page: "page_ok base \<Longrightarrow> in_page base a \<longleftrightarrow> unat a \<in> page_bytes 4096 base"
  by (simp add: in_page_def page_bytes_def)

text \<open>Objects of different pages differ.\<close>

lemma obj_in_page:
  assumes "small_cache cache" and "page_ok base" and "obj \<in> set (slab_objs cache base)"
  shows "in_page base obj"
proof -
  obtain i where i: "i < slab_cap cache" "obj = slab_obj cache base i"
    using assms(3) by (auto simp: slab_objs_def)
  show ?thesis
    using slab_cap_le [OF i(1)] unat_slab_obj [OF assms(2) i(1)] i(2) by (simp add: in_page_def)
qed

lemma objs_disjoint:
  "small_cache cache \<Longrightarrow> page_ok x \<Longrightarrow> page_ok y \<Longrightarrow> x \<noteq> y \<Longrightarrow> set (slab_objs cache x) \<inter> set (slab_objs cache y) = {}"
  using obj_in_page page_disjoint by blast

lemma live_in_pages:
  assumes "slab_list s c cache h L" and "obj \<in> live_objs cache L"
  shows "\<exists>base free. (base, free) \<in> set L \<and> page_ok base \<and> obj \<in> set (slab_objs cache base) \<and> obj \<notin> set free"
  using assms slab_list_pages [OF assms(1)] by (fastforce simp: live_objs_def)

text \<open>The first case: the first slab has a free object.\<close>

definition step_in :: "u64 \<Rightarrow> u64 \<Rightarrow> ('t, 'c) kmem_state \<Rightarrow> ('t, 'c) kmem_state \<Rightarrow> bool" where
  "step_in c base s s' \<longleftrightarrow> (\<forall>b. page_ok b \<and> b \<noteq> base \<longrightarrow> same_page b s s') \<and> (\<forall>d. d \<noteq> c \<longrightarrow> km_caches s' d = km_caches s d)
     \<and> arena_wf 4096 (KERNEL_SMALL_PAGE_ARENA (km_pages s'))
     \<and> arena_avail (KERNEL_SMALL_PAGE_ARENA (km_pages s')) \<subseteq> arena_avail (KERNEL_SMALL_PAGE_ARENA (km_pages s))"

lemma step_in_trans: "step_in c base s s1 \<Longrightarrow> step_in c base s1 s2 \<Longrightarrow> step_in c base s s2"
  unfolding step_in_def same_page_def by (simp add: subset_trans) blast

lemma cache_alloc_head:
  assumes inv: "cache_inv s c cache ((base, ob # free) # L)"
  shows "\<exists>s'. kmem_cache_alloc (Suc fuel) c s = Some (ob, s') \<and> cache_inv s' c cache ((base, free) # L)
     \<and> km_pages s' = km_pages s \<and> step_in c base s s'"
proof -
  have sm: "small_cache cache" and ca: "km_caches s c = Some cache" using inv by (simp_all add: cache_inv_def)
  obtain nxt where ok: "slab_ok s c cache (ca_slab cache) base (ob # free) nxt" and r: "slab_list s c cache nxt L"
    using inv by (auto simp: cache_inv_def)
  obtain s' where s': "kmem_slab_alloc_object (ca_slab cache) s = Some (ob, s')" "s' = s\<lparr>km_slabs := km_slabs s'\<rparr>"
      "slab_ok s' c cache (ca_slab cache) base free nxt" "\<And>b. page_ok b \<Longrightarrow> b \<noteq> base \<Longrightarrow> same_page b s s'"
    using slab_alloc_object_some [OF sm ok] by blast
  have same: "km_caches s' = km_caches s" "km_pages s' = km_pages s" by (subst s'(2), simp)+
  have "ob \<in> set (slab_objs cache base)" "page_ok base" using ok by (simp_all add: slab_ok_def)
  then have "ob \<noteq> 0" using obj_bufctl_in_page(3) [OF sm] by blast
  then have run: "kmem_cache_alloc (Suc fuel) c s = Some (ob, s')" using ca s'(1) by simp
  have "slab_list s' c cache nxt L"
  proof (rule slab_list_frame [OF sm _ r])
    fix b f
    assume bf: "(b, f) \<in> set L"
    then have "b \<noteq> base" using inv by (force simp: cache_inv_def)
    then show "same_page b s s'" using s'(4) slab_list_pages [OF r bf] by simp
  qed
  then have "cache_inv s' c cache ((base, free) # L)"
    using inv s'(3) by (auto simp: cache_inv_def same)
  moreover have "step_in c base s s'" using s'(4) inv by (simp add: step_in_def same cache_inv_def)
  ultimately show ?thesis using run same(2) by blast
qed

text \<open>The second case: the cache grows by a slab.\<close>

lemma slab_consts: "PAGE_SIZE_SMALL - sizeof_kmem_slab = 4056" "base + PAGE_SIZE_SMALL - sizeof_kmem_slab = base + 4056"
    "PAGE_SIZE_SMALL div 8 = 512"
proof -
  show "PAGE_SIZE_SMALL - sizeof_kmem_slab = 4056" "base + PAGE_SIZE_SMALL - sizeof_kmem_slab = base + 4056"
    by (simp_all add: PAGE_SIZE_SMALL_def algebra_simps)
  show "PAGE_SIZE_SMALL div 8 = 512"
    unfolding word_unat_eq_iff by (simp add: unat_div_distrib)
qed

lemma slab_create_none:
  assumes "arena_wf 4096 (KERNEL_SMALL_PAGE_ARENA (km_pages s))" and "arena_avail (KERNEL_SMALL_PAGE_ARENA (km_pages s)) = {}"
  shows "kmem_slab_create (Suc fuel) c s = Some (0, s)"
  using small_pages.alloc_none [OF assms] by simp

lemma slab_create_page:
  assumes wf: "arena_wf 4096 (KERNEL_SMALL_PAGE_ARENA (km_pages s))" and ne: "arena_avail (KERNEL_SMALL_PAGE_ARENA (km_pages s)) \<noteq> {}"
    and ca: "km_caches s c = Some cache" and sm: "small_cache cache"
  shows "\<exists>base s'. kmem_slab_create (Suc fuel) c s = Some (base + 4056, s') \<and> page_ok base
    \<and> page_bytes 4096 base \<subseteq> arena_avail (KERNEL_SMALL_PAGE_ARENA (km_pages s))
    \<and> arena_wf 4096 (KERNEL_SMALL_PAGE_ARENA (km_pages s'))
    \<and> arena_avail (KERNEL_SMALL_PAGE_ARENA (km_pages s')) = arena_avail (KERNEL_SMALL_PAGE_ARENA (km_pages s)) - page_bytes 4096 base
    \<and> km_caches s' = km_caches s \<and> slab_ok s' c cache (base + 4056) base (slab_objs cache base) 0
    \<and> (\<forall>b. page_ok b \<and> b \<noteq> base \<longrightarrow> same_page b s s')"
proof -
  obtain base p where p: "page_alloc_small (km_pages s) = Some (base, p)" "base \<noteq> 0" "4096 dvd unat base" "unat base + 4096 \<le> 2 ^ 64"
      "page_bytes 4096 base \<subseteq> arena_avail (KERNEL_SMALL_PAGE_ARENA (km_pages s))" "arena_wf 4096 (KERNEL_SMALL_PAGE_ARENA p)"
      "arena_avail (KERNEL_SMALL_PAGE_ARENA p) = arena_avail (KERNEL_SMALL_PAGE_ARENA (km_pages s)) - page_bytes 4096 base"
    using small_pages.alloc_page [OF wf ne] by blast
  have pg: "page_ok base" using p by (simp add: page_ok_def)
  define s0 where "s0 = s\<lparr>km_pages := p\<rparr>"
  obtain s' where s': "kmem_slab_init c cache base (base + 4056) 4056 s0 = Some s'"
      "s' = s0\<lparr>km_bufctls := km_bufctls s', km_slabs := km_slabs s'\<rparr>"
      "slab_ok s' c cache (base + 4056) base (slab_objs cache base) 0" "\<forall>b. page_ok b \<and> b \<noteq> base \<longrightarrow> same_page b s0 s'"
    using kmem_slab_init_ok [OF sm pg, of c s0] by blast
  have "kmem_slab_create (Suc fuel) c s = Some (base + 4056, s')"
    using p(1,2) ca sm s'(1) by (simp add: slab_consts small_cache_def s0_def)
  moreover have "km_pages s' = p" "km_caches s' = km_caches s" by (subst s'(2), simp add: s0_def)+
  moreover have "same_page b s s'" if "page_ok b" "b \<noteq> base" for b
    using s'(4) that by (simp add: same_page_def s0_def)
  ultimately show ?thesis using pg p s'(3) by (intro exI [of _ base] exI [of _ s']) simp
qed

lemma slab_set_next:
  assumes "slab_ok s c cache slab base free nxt" and "km_slabs s slab = Some sl"
  shows "slab_ok (put_slab slab (sl\<lparr>sl_next := x\<rparr>) s) c cache slab base free x"
  using assms by (auto simp: slab_ok_def put_slab_def)

lemma cache_grow:
  assumes inv: "cache_inv s c cache ((base0, []) # L)" and ne: "arena_avail (KERNEL_SMALL_PAGE_ARENA (km_pages s)) \<noteq> {}"
  shows "\<exists>base s' cache'. kmem_cache_alloc (Suc (Suc fuel)) c s = kmem_cache_alloc (Suc fuel) c s' \<and> page_ok base
     \<and> base \<notin> fst ` set ((base0, []) # L) \<and> cache' = cache\<lparr>ca_slab := ca_slab cache'\<rparr>
     \<and> cache_inv s' c cache' ((base, slab_objs cache base) # (base0, []) # L)
     \<and> page_bytes 4096 base \<subseteq> arena_avail (KERNEL_SMALL_PAGE_ARENA (km_pages s)) \<and> step_in c base s s'"
proof -
  let ?L = "(base0, []) # L"
  have ca: "km_caches s c = Some cache" and sm: "small_cache cache" and wf: "arena_wf 4096 (KERNEL_SMALL_PAGE_ARENA (km_pages s))"
      and ls: "slab_list s c cache (ca_slab cache) ?L" and dist: "distinct (map fst ?L)"
      and dj: "\<And>b f. (b, f) \<in> set ?L \<Longrightarrow> page_bytes 4096 b \<inter> arena_avail (KERNEL_SMALL_PAGE_ARENA (km_pages s)) = {}"
    using cache_invD [OF inv] by blast+
  obtain base s1 where c1: "kmem_slab_create (Suc fuel) c s = Some (base + 4056, s1)" "page_ok base"
      "page_bytes 4096 base \<subseteq> arena_avail (KERNEL_SMALL_PAGE_ARENA (km_pages s))"
      "arena_wf 4096 (KERNEL_SMALL_PAGE_ARENA (km_pages s1))"
      "arena_avail (KERNEL_SMALL_PAGE_ARENA (km_pages s1)) = arena_avail (KERNEL_SMALL_PAGE_ARENA (km_pages s)) - page_bytes 4096 base"
      "km_caches s1 = km_caches s" "slab_ok s1 c cache (base + 4056) base (slab_objs cache base) 0"
      "\<And>b. page_ok b \<Longrightarrow> b \<noteq> base \<Longrightarrow> same_page b s s1"
    using slab_create_page [OF wf ne ca sm, of fuel] by blast
  obtain sl where sl: "km_slabs s1 (base + 4056) = Some sl" using c1(7) by (auto simp: slab_ok_def)
  define cache' where "cache' = cache\<lparr>ca_slab := base + 4056\<rparr>"
  define s2 where "s2 = put_slab (base + 4056) (sl\<lparr>sl_next := ca_slab cache\<rparr>) s1"
  define s' where "s' = put_cache c cache' s2"
  have run: "kmem_cache_alloc (Suc (Suc fuel)) c s = kmem_cache_alloc (Suc fuel) c s'"
  proof -
    obtain nxt where "slab_ok s c cache (ca_slab cache) base0 [] nxt" using ls by auto
    from slab_alloc_object_none [OF this] show ?thesis
      using ca c1(1,6) sl slab_in_page(2) [OF c1(2)]
      by (subst kmem_cache_alloc.simps) (simp add: s'_def s2_def cache'_def del: kmem_slab_create.simps kmem_cache_alloc.simps)
  qed
  have new: "base \<noteq> b" if "(b, f) \<in> set ?L" for b f
  proof -
    have "unat base \<in> page_bytes 4096 base" by (simp add: page_bytes_def)
    then show ?thesis using c1(3) dj [OF that] by blast
  qed
  have ok2: "slab_ok s2 c cache (base + 4056) base (slab_objs cache base) (ca_slab cache)"
    unfolding s2_def by (rule slab_set_next [OF c1(7) sl])
  have "slab_list s2 c cache (ca_slab cache) ?L"
  proof (rule slab_list_frame [OF sm _ ls])
    fix b f
    assume bf: "(b, f) \<in> set ?L"
    note b = slab_list_pages [OF ls bf]
    have "same_page b s s1" using c1(8) new [OF bf] b by simp
    moreover have "base + 4056 \<noteq> a" if "in_page b a" for a
      using that slab_in_page(1) [OF c1(2)] page_disjoint [OF _ c1(2), of b a] b new [OF bf] by auto
    ultimately show "same_page b s s2" by (auto simp: same_page_def s2_def put_slab_def)
  qed
  moreover have same: "km_slabs s' = km_slabs s2" "km_bufctls s' = km_bufctls s2" "km_pages s' = km_pages s1" "km_caches s' c = Some cache'"
    by (simp_all add: s'_def s2_def put_cache_def put_slab_def)
  have frame: "same_page b s2 s'" for b by (simp add: same_page_def same)
  ultimately have list: "slab_list s' c cache' (ca_slab cache') ((base, slab_objs cache base) # ?L)"
    using slab_ok_frame [OF sm frame ok2] slab_list_frame [OF sm frame, where r = ?L and h = "ca_slab cache" and c = c]
    by (auto simp: cache'_def slab_ok_cache slab_list_cache)
  have pages: "page_bytes 4096 b \<inter> arena_avail (KERNEL_SMALL_PAGE_ARENA (km_pages s')) = {}"
    if "(b, f) \<in> set ((base, slab_objs cache base) # ?L)" for b f
    using that dj c1(5) by (auto simp: same)
  have notin: "base \<notin> fst ` set ?L"
  proof
    assume "base \<in> fst ` set ?L"
    then obtain f where "(base, f) \<in> set ?L" unfolding image_iff by (metis prod.collapse)
    from new [OF this] show False by simp
  qed
  have "cache_inv s' c cache' ((base, slab_objs cache base) # ?L)"
  proof (rule cache_invI [OF same(4) _ _ _ list _ pages])
    show "small_cache cache'" using sm by (simp add: cache'_def cache_shape)
    show "arena_wf 4096 (KERNEL_SMALL_PAGE_ARENA (km_pages s'))" using c1(4) by (simp add: same)
    show "distinct (map fst ((base, slab_objs cache base) # ?L))" using notin dist by simp
  qed simp
  moreover have "step_in c base s s'"
    unfolding step_in_def
  proof (intro conjI allI impI)
    fix b
    assume b: "page_ok b \<and> b \<noteq> base"
    then have "base + 4056 \<noteq> a" if "in_page b a" for a
      using that slab_in_page(1) [OF c1(2)] page_disjoint [OF _ c1(2), of b a] by auto
    then show "same_page b s s'" using c1(8) [of b] b by (auto simp: same_page_def same s2_def put_slab_def)
  next
    show "arena_wf 4096 (KERNEL_SMALL_PAGE_ARENA (km_pages s'))" using c1(4) by (simp add: same)
    show "arena_avail (KERNEL_SMALL_PAGE_ARENA (km_pages s')) \<subseteq> arena_avail (KERNEL_SMALL_PAGE_ARENA (km_pages s))"
      using c1(5) by (auto simp: same)
    show "km_caches s' d = km_caches s d" if "d \<noteq> c" for d
      using that c1(6) by (simp add: s'_def s2_def put_cache_def put_slab_def)
  qed
  ultimately show ?thesis
    using run c1(2,3) notin by (intro exI [of _ base] exI [of _ s'] exI [of _ cache']) (simp add: cache'_def)
qed

subsection \<open>Disjoint objects\<close>

lemma live_disjoint:
  assumes sm: "small_cache cache" and ls: "slab_list s c cache h L" and dist: "distinct (map fst L)"
    and x: "(bx, fx) \<in> set L" "x \<in> set (slab_objs cache bx)" and y: "y \<in> live_objs cache L" and ne: "x \<noteq> y"
  shows "obj_bytes cache x \<inter> obj_bytes cache y = {}"
proof -
  obtain b f where b: "(b, f) \<in> set L" "page_ok b" "y \<in> set (slab_objs cache b)"
    using live_in_pages [OF ls y] by blast
  have bx: "page_ok bx" using slab_list_pages [OF ls x(1)] by simp
  show ?thesis
  proof (cases "b = bx")
    case True
    then show ?thesis using obj_bytes_disjoint [OF sm bx x(2)] b(3) ne by simp
  next
    case False
    then have "page_bytes 4096 bx \<inter> page_bytes 4096 b = {}" using page_bytes_disjoint [OF bx b(2)] by simp
    then show ?thesis using obj_bytes_page [OF sm bx x(2)] obj_bytes_page [OF sm b(2,3)] by blast
  qed
qed

text \<open>What it means that \<open>obj\<close> is handed out afresh.\<close>

definition handed_out :: "('t, 'c) kmem_state \<Rightarrow> u64 \<Rightarrow> kmem_cache \<Rightarrow> (u64 \<times> u64 list) list \<Rightarrow> u64 \<Rightarrow> bool" where
  "handed_out s' c cache L obj \<longleftrightarrow>
     obj \<notin> live_objs cache L
     \<and> (\<forall>other \<in> live_objs cache L. obj_bytes cache obj \<inter> obj_bytes cache other = {})
     \<and> obj_bytes cache obj \<inter> arena_avail (KERNEL_SMALL_PAGE_ARENA (km_pages s')) = {}
     \<and> (\<exists>cache' L'. cache_inv s' c cache' L' \<and> cache' = cache\<lparr>ca_slab := ca_slab cache'\<rparr>
          \<and> live_objs cache L' = insert obj (live_objs cache L))"

lemma alloc_head_handed_out:
  assumes inv: "cache_inv s c cache ((base, ob # free) # L)"
  shows "\<exists>s'. kmem_cache_alloc (Suc fuel) c s = Some (ob, s') \<and> ob \<noteq> 0 \<and> handed_out s' c cache ((base, ob # free) # L) ob
    \<and> page_ok base \<and> ob \<in> set (slab_objs cache base) \<and> step_in c base s s'"
proof -
  let ?L = "(base, ob # free) # L"
  note D = cache_invD [OF inv]
  obtain s' where s': "kmem_cache_alloc (Suc fuel) c s = Some (ob, s')" "cache_inv s' c cache ((base, free) # L)"
      "km_pages s' = km_pages s" "step_in c base s s'"
    using cache_alloc_head [OF inv] by blast
  have ok: "page_ok base" "ob \<in> set (slab_objs cache base)" "distinct (ob # free)"
    using D(5) by (auto simp: slab_ok_def)
  have "ob \<notin> live_objs cache L"
  proof
    assume "ob \<in> live_objs cache L"
    then obtain b f where "(b, f) \<in> set L" "page_ok b" "ob \<in> set (slab_objs cache b)"
      using live_in_pages D(5) by (metis slab_list.simps(2))
    moreover have "b \<noteq> base" using D(6) \<open>(b, f) \<in> set L\<close> by force
    ultimately show False using objs_disjoint [OF D(2) _ ok(1)] ok(2) by blast
  qed
  then have fresh: "ob \<notin> live_objs cache ?L" by simp
  have "obj_bytes cache ob \<inter> obj_bytes cache other = {}" if "other \<in> live_objs cache ?L" for other
    using live_disjoint [OF D(2,5,6) _ ok(2) that] fresh that by auto
  moreover have "obj_bytes cache ob \<inter> arena_avail (KERNEL_SMALL_PAGE_ARENA (km_pages s')) = {}"
    using obj_bytes_page [OF D(2) ok(1,2)] D(7) [of base "ob # free"] s'(3) by auto
  moreover have "live_objs cache ((base, free) # L) = insert ob (live_objs cache ?L)"
    using ok by auto
  moreover have "cache = cache\<lparr>ca_slab := ca_slab cache\<rparr>" by simp
  ultimately have "handed_out s' c cache ?L ob"
    unfolding handed_out_def using fresh s'(2) by blast
  moreover have "ob \<noteq> 0" using obj_bufctl_in_page(3) [OF D(2) ok(1,2)] .
  ultimately show ?thesis using s'(1,4) ok by blast
qed

text \<open>Which page the object is in, and what that means for another cache.\<close>

definition handed_from :: "('t, 'c) kmem_state \<Rightarrow> ('t, 'c) kmem_state \<Rightarrow> u64 \<Rightarrow> kmem_cache \<Rightarrow> (u64 \<times> u64 list) list \<Rightarrow> u64 \<Rightarrow> bool" where
  "handed_from s s' c cache L obj \<longleftrightarrow>
     (\<exists>base. page_ok base \<and> obj \<in> set (slab_objs cache base) \<and> step_in c base s s'
        \<and> (base \<in> fst ` set L \<or> page_bytes 4096 base \<subseteq> arena_avail (KERNEL_SMALL_PAGE_ARENA (km_pages s))))"

lemma other_cache:
  assumes h: "handed_from s s' c cache L obj" and sm: "small_cache cache" and inv: "cache_inv s d dcache M" and d: "d \<noteq> c"
    and dj: "fst ` set M \<inter> fst ` set L = {}"
  shows "cache_inv s' d dcache M" and "other \<in> live_objs dcache M \<Longrightarrow> obj_bytes cache obj \<inter> obj_bytes dcache other = {}"
proof -
  note D = cache_invD [OF inv]
  obtain base where b: "page_ok base" "obj \<in> set (slab_objs cache base)" "step_in c base s s'"
      "base \<in> fst ` set L \<or> page_bytes 4096 base \<subseteq> arena_avail (KERNEL_SMALL_PAGE_ARENA (km_pages s))"
    using h by (auto simp: handed_from_def)
  have ne: "e \<noteq> base" if "(e, f) \<in> set M" for e f
  proof
    assume "e = base"
    moreover have "e \<in> fst ` set M" using that by force
    moreover have "unat base \<in> page_bytes 4096 base" by (simp add: page_bytes_def)
    ultimately show False using b(4) dj D(7) [OF that] by blast
  qed
  have pg: "page_ok e" if "(e, f) \<in> set M" for e f using slab_list_pages [OF D(5) that] by simp
  have "slab_list s' d dcache (ca_slab dcache) M"
    using b(3) ne pg by (intro slab_list_frame [OF D(2) _ D(5)]) (auto simp: step_in_def)
  then show "cache_inv s' d dcache M"
    using D(1,2,4,6,7) b(3) d by (intro cache_invI) (auto simp: step_in_def, blast)
  show "obj_bytes cache obj \<inter> obj_bytes dcache other = {}" if o: "other \<in> live_objs dcache M"
  proof -
    obtain e f where e: "(e, f) \<in> set M" "page_ok e" "other \<in> set (slab_objs dcache e)" using live_in_pages [OF D(5) o] by blast
    then have "page_bytes 4096 base \<inter> page_bytes 4096 e = {}" using page_bytes_disjoint [OF b(1) e(2)] ne by auto
    then show ?thesis using obj_bytes_page [OF sm b(1,2)] obj_bytes_page [OF D(2) e(2,3)] by blast
  qed
qed

lemma cache_alloc_handed_out:
  assumes inv: "cache_inv s c cache L"
  shows "\<exists>obj s'. kmem_cache_alloc (Suc (Suc (Suc fuel))) c s = Some (obj, s') \<and>
     (if obj = 0 then arena_avail (KERNEL_SMALL_PAGE_ARENA (km_pages s)) = {} \<and> snd (hd L) = [] \<and> s' = s
      else handed_out s' c cache L obj \<and> handed_from s s' c cache L obj)"
proof -
  note D = cache_invD [OF inv]
  obtain base free L0 where L: "L = (base, free) # L0" using D(4) by (cases L) auto
  show ?thesis
  proof (cases free)
    case (Cons ob free')
    then show ?thesis using alloc_head_handed_out [of s c cache base ob free' L0] inv L by (force simp: handed_from_def)
  next
    case Nil
    have L': "L = (base, []) # L0" using L Nil by simp
    show ?thesis
    proof (cases "arena_avail (KERNEL_SMALL_PAGE_ARENA (km_pages s)) = {}")
      case True
      obtain nxt where "slab_ok s c cache (ca_slab cache) base [] nxt" using D(5) L' by auto
      from slab_alloc_object_none [OF this] have "kmem_cache_alloc (Suc (Suc (Suc fuel))) c s = Some (0, s)"
        using D(1) slab_create_none [OF D(3) True]
        by (subst kmem_cache_alloc.simps) (simp del: kmem_slab_create.simps kmem_cache_alloc.simps)
      then show ?thesis using True L' by simp
    next
      case False
      obtain nb s1 cache1 where g: "kmem_cache_alloc (Suc (Suc (Suc fuel))) c s = kmem_cache_alloc (Suc (Suc fuel)) c s1" "page_ok nb"
          "cache1 = cache\<lparr>ca_slab := ca_slab cache1\<rparr>" "cache_inv s1 c cache1 ((nb, slab_objs cache nb) # L)"
          "page_bytes 4096 nb \<subseteq> arena_avail (KERNEL_SMALL_PAGE_ARENA (km_pages s))" "step_in c nb s s1"
        using cache_grow [OF inv [unfolded L'] False, of "Suc fuel"] L' by auto
      obtain ob obs where obs: "slab_objs cache nb = ob # obs"
        using slab_cap_pos [OF D(2)] by (cases "slab_objs cache nb") (auto simp: slab_objs_def)
      have shape: "live_objs cache1 = live_objs cache" "obj_bytes cache1 = obj_bytes cache"
        by (subst g(3), rule ext, rule cache_shape) (subst g(3), rule cache_shape)
      obtain s' where s': "kmem_cache_alloc (Suc (Suc fuel)) c s1 = Some (ob, s')" "ob \<noteq> 0"
          "handed_out s' c cache1 ((nb, slab_objs cache nb) # L) ob" "step_in c nb s1 s'"
        using alloc_head_handed_out [of s1 c cache1 nb ob obs L "Suc fuel"] g(4) obs by auto
      have "live_objs cache ((nb, slab_objs cache nb) # L) = live_objs cache L" by simp
      moreover from s'(3) obtain cache' L' where c': "cache_inv s' c cache' L'" "cache' = cache1\<lparr>ca_slab := ca_slab cache'\<rparr>"
          "live_objs cache L' = insert ob (live_objs cache ((nb, slab_objs cache nb) # L))"
        unfolding handed_out_def shape by blast
      moreover have "cache1\<lparr>ca_slab := ca_slab cache'\<rparr> = cache\<lparr>ca_slab := ca_slab cache'\<rparr>" by (subst g(3)) simp
      ultimately have "handed_out s' c cache L ob"
        using s'(3) unfolding handed_out_def shape by (metis (no_types))
      moreover have "handed_from s s' c cache L ob"
        using g(2,5) obs step_in_trans [OF g(6) s'(4)] by (auto simp: handed_from_def intro!: exI [of _ nb])
      ultimately show ?thesis using g(1) s' by auto
    qed
  qed
qed

subsection \<open>Freeing\<close>

lemma slab_list_nonnull: "slab_list s c cache h L \<Longrightarrow> h = 0 \<longleftrightarrow> L = []"
  by (cases L) (auto simp: slab_ok_def dest: slab_in_page(2))

text \<open>\<open>kmem_cache_free\<close> up to the test whether the slab is full: the object is pushed on the free
  list of the first slab, wherever it came from.\<close>

definition freed :: "u64 \<Rightarrow> kmem_cache \<Rightarrow> u64 \<Rightarrow> ('t, 'c) kmem_state \<Rightarrow> kmem_slab \<Rightarrow> ('t, 'c) kmem_state" where
  "freed slab cache obj s sl =
     put_slab slab (sl\<lparr>sl_head := obj + ca_bufctl cache, sl_nr_free := sl_nr_free sl + 1\<rparr>)
       (put_bufctl (obj + ca_bufctl cache) \<lparr>bc_next = sl_head sl, bc_addr = obj, bc_slab = slab\<rparr> s)"

lemma kmem_cache_free_eq:
  assumes ca: "km_caches s c = Some cache" and sl: "km_slabs s (ca_slab cache) = Some sl" "sl_cache sl = c"
  shows "kmem_cache_free c obj s =
    (if sl_nr_free sl + 1 \<noteq> sl_capacity sl \<or> sl_next sl = 0 then Some (freed (ca_slab cache) cache obj s sl)
     else Some (free_page (sl_base sl) (put_cache c (cache\<lparr>ca_slab := sl_next sl\<rparr>) (freed (ca_slab cache) cache obj s sl))))"
  using assms
  by (simp add: kmem_cache_free_def kmem_slab_free_object_def freed_def kmem_object_to_bufctl_def put_slab_def put_bufctl_def
      kmem_slab_is_full_def kmem_slab_destroy_def put_cache_def Let_def)

lemma nr_free_full:
  assumes "small_cache cache" and "n \<le> slab_cap cache"
  shows "(of_nat n + 1 = (of_nat (slab_cap cache) :: u32)) \<longleftrightarrow> Suc n = slab_cap cache"
proof -
  have "slab_cap cache \<le> 169" using slab_cap_bound [OF assms(1)] .
  then have "unat (of_nat (Suc n) :: u32) = Suc n" "unat (of_nat (slab_cap cache) :: u32) = slab_cap cache"
    using assms(2) by (simp_all add: unat_of_nat del: of_nat_Suc)
  then show ?thesis by (metis of_nat_Suc add.commute)
qed

lemma card_slab_objs: "small_cache cache \<Longrightarrow> page_ok base \<Longrightarrow> card (set (slab_objs cache base)) = slab_cap cache"
  using distinct_card [OF distinct_slab_objs] by (simp add: slab_objs_def)

lemma free_length: "small_cache cache \<Longrightarrow> slab_ok s c cache slab base free nxt \<Longrightarrow> length free \<le> slab_cap cache"
  using card_mono [of "set (slab_objs cache base)" "set free"] card_slab_objs [of cache base]
  by (simp add: slab_ok_def distinct_card)

lemma slab_full_objs:
  assumes "small_cache cache" and "slab_ok s c cache slab base free nxt" and "length free = slab_cap cache"
  shows "set (slab_objs cache base) = set free"
proof -
  have "card (set (slab_objs cache base)) = card (set free)"
    using assms card_slab_objs [of cache base] by (simp add: slab_ok_def distinct_card)
  then show ?thesis
    using assms(2) card_subset_eq [of "set (slab_objs cache base)" "set free"] by (simp add: slab_ok_def)
qed

lemma freed_slab_ok:
  assumes sm: "small_cache cache" and ok: "slab_ok s c cache slab base free nxt" and sl: "km_slabs s slab = Some sl"
    and ob: "obj \<in> set (slab_objs cache base)" "obj \<notin> set free"
  shows "slab_ok (freed slab cache obj s sl) c cache slab base (obj # free) nxt"
proof -
  have pg: "page_ok base" "set free \<subseteq> set (slab_objs cache base)" using ok by (simp_all add: slab_ok_def)
  have "free_chain (km_bufctls (freed slab cache obj s sl)) (ca_bufctl cache) h free = free_chain (km_bufctls s) (ca_bufctl cache) h free" for h
    using ob(2) by (intro free_chain_frame) (auto simp: freed_def put_slab_def put_bufctl_def)
  moreover have "obj + ca_bufctl cache \<noteq> 0" by (rule obj_bufctl_in_page(2) [OF sm pg(1) ob(1)])
  ultimately show ?thesis
    using ok sl ob by (auto simp: slab_ok_def) (simp_all add: freed_def put_slab_def put_bufctl_def)
qed

lemma freed_same_page:
  assumes "page_ok base" and "in_page base (obj + ca_bufctl cache)" and "slab = base + 4056" and "page_ok b" and "b \<noteq> base"
  shows "same_page b s (freed slab cache obj s sl)"
  using assms slab_in_page(1) [OF assms(1)] page_disjoint [OF assms(4,1)]
  by (auto simp: same_page_def freed_def put_slab_def put_bufctl_def)

lemma cache_free_head:
  assumes inv: "cache_inv s c cache ((base, free) # L)" and ob: "obj \<in> set (slab_objs cache base)" "obj \<notin> set free"
  shows "\<exists>s' cache' L'. kmem_cache_free c obj s = Some s' \<and> cache_inv s' c cache' L' \<and> cache' = cache\<lparr>ca_slab := ca_slab cache'\<rparr>
     \<and> live_objs cache L' = live_objs cache ((base, free) # L) - {obj}
     \<and> arena_avail (KERNEL_SMALL_PAGE_ARENA (km_pages s')) = arena_avail (KERNEL_SMALL_PAGE_ARENA (km_pages s))
         \<union> (if Suc (length free) = slab_cap cache \<and> L \<noteq> [] then page_bytes 4096 base else {})"
proof -
  let ?L = "(base, free) # L"
  note D = cache_invD [OF inv]
  obtain nxt where ok: "slab_ok s c cache (ca_slab cache) base free nxt" and r: "slab_list s c cache nxt L" using D(5) by auto
  obtain sl where sl: "km_slabs s (ca_slab cache) = Some sl" "sl_cache sl = c" "sl_base sl = base" "sl_next sl = nxt"
      "sl_nr_free sl = of_nat (length free)" "sl_capacity sl = of_nat (slab_cap cache)"
    using ok by (auto simp: slab_ok_def)
  have pg: "page_ok base" "ca_slab cache = base + 4056" using ok by (simp_all add: slab_ok_def)
  let ?s1 = "freed (ca_slab cache) cache obj s sl"
  have ok1: "slab_ok ?s1 c cache (ca_slab cache) base (obj # free) nxt"
    by (rule freed_slab_ok [OF D(2) ok sl(1) ob])
  have other: "b \<noteq> base" "page_ok b" if "(b, f) \<in> set L" for b f
    using D(6) that slab_list_pages [OF r that] by (force, simp)
  have same1: "same_page b s ?s1" if "(b, f) \<in> set L" for b f
    using freed_same_page [OF pg(1) obj_bufctl_in_page(1) [OF D(2) pg(1) ob(1)] pg(2)] other [OF that] by blast
  have r1: "slab_list ?s1 c cache nxt L" by (rule slab_list_frame [OF D(2) same1 r])
  have s1: "km_caches ?s1 = km_caches s" "km_pages ?s1 = km_pages s" by (simp_all add: freed_def put_slab_def put_bufctl_def)
  have notin: "obj \<notin> live_objs cache L"
    using live_in_pages [OF r] objs_disjoint [OF D(2) _ pg(1)] other ob(1) by blast
  have live: "live_objs cache ((base, obj # free) # L) = live_objs cache ?L - {obj}" using notin by auto
  have full: "sl_nr_free sl + 1 \<noteq> sl_capacity sl \<or> sl_next sl = 0 \<longleftrightarrow> \<not> (Suc (length free) = slab_cap cache \<and> L \<noteq> [])"
    using sl nr_free_full [OF D(2) free_length [OF D(2) ok]] slab_list_nonnull [OF r] by auto
  show ?thesis
  proof (cases "Suc (length free) = slab_cap cache \<and> L \<noteq> []")
    case False
    have "cache_inv ?s1 c cache ((base, obj # free) # L)"
      using D(1-3,6) ok1 r1 D(7) by (intro cache_invI) (auto simp: s1)
    moreover have "kmem_cache_free c obj s = Some ?s1"
      using kmem_cache_free_eq [OF D(1) sl(1,2)] full False by simp
    moreover have "cache = cache\<lparr>ca_slab := ca_slab cache\<rparr>" by simp
    ultimately show ?thesis using live s1(2) False
      by (intro exI [of _ ?s1] exI [of _ cache] exI [of _ "(base, obj # free) # L"]) auto
  next
    case True
    let ?cache = "cache\<lparr>ca_slab := nxt\<rparr>"
    let ?s2 = "free_page base (put_cache c ?cache ?s1)"
    have run: "kmem_cache_free c obj s = Some ?s2"
      using kmem_cache_free_eq [OF D(1) sl(1,2)] full True sl(3,4) by simp
    have rel: "arena_wf 4096 (KERNEL_SMALL_PAGE_ARENA (km_pages ?s2))
        \<and> arena_avail (KERNEL_SMALL_PAGE_ARENA (km_pages ?s2)) = arena_avail (KERNEL_SMALL_PAGE_ARENA (km_pages s)) \<union> page_bytes 4096 base"
      using small_pages.release_page [OF D(3), of base] pg(1) D(7) [of base free] s1
      by (auto simp: free_page_def put_cache_def page_ok_def)
    have same2: "same_page b ?s1 ?s2" if "(b, f) \<in> set L" for b f
      using other [OF that] page_disjoint [OF _ pg(1), of b] by (auto simp: same_page_def free_page_def put_cache_def)
    have r2: "slab_list ?s2 c ?cache (ca_slab ?cache) L"
      using slab_list_frame [OF D(2) same2 r1] by (simp add: slab_list_cache)
    have pages: "page_bytes 4096 b \<inter> arena_avail (KERNEL_SMALL_PAGE_ARENA (km_pages ?s2)) = {}" if "(b, f) \<in> set L" for b f
      using page_bytes_disjoint [OF other(2) [OF that] pg(1) other(1) [OF that]] D(7) [of b f] rel that by auto
    have "cache_inv ?s2 c ?cache L"
      using D(2,6) rel True by (intro cache_invI [OF _ _ _ _ r2 _ pages]) (auto simp: free_page_def put_cache_def cache_shape)
    moreover have "live_objs cache L = live_objs cache ?L - {obj}"
      using slab_full_objs [OF D(2) ok1] True notin by auto
    ultimately show ?thesis using run rel True by (intro exI [of _ ?s2] exI [of _ ?cache] exI [of _ L]) simp
  qed
qed

subsection \<open>New caches\<close>

lemma cache_init_inv:
  assumes wf: "arena_wf 4096 (KERNEL_SMALL_PAGE_ARENA (km_pages s))" and ne: "arena_avail (KERNEL_SMALL_PAGE_ARENA (km_pages s)) \<noteq> {}"
    and nm: "c_string name nm" and new: "km_caches s c = None"
    and sz: "sz < 512" "24 \<le> unat (align_up sz align)" "unat (align_up sz align) \<le> 4056" "unat sz \<le> unat (align_up sz align)"
  shows "\<exists>s' cache base. kmem_cache_init c name sz align s = Some (0, s') \<and> ca_size cache = sz \<and> ca_align cache = align
     \<and> cache_inv s' c cache [(base, slab_objs cache base)]
     \<and> arena_avail (KERNEL_SMALL_PAGE_ARENA (km_pages s')) = arena_avail (KERNEL_SMALL_PAGE_ARENA (km_pages s)) - page_bytes 4096 base"
proof -
  obtain nm' where nm': "strlcpy (map (\<lambda>i. km_bytes s (c + 32 + of_nat i)) [0..<KMEM_NAME_MAX_LEN]) name KMEM_NAME_MAX_LEN = Some (length nm, nm')"
    using strlcpy_result [OF nm, of KMEM_NAME_MAX_LEN "map (\<lambda>i. km_bytes s (c + 32 + of_nat i)) [0..<KMEM_NAME_MAX_LEN]"]
    by (simp add: min_def)
  define cache where "cache = \<lparr>ca_bufctl = align_up sz align - sizeof_kmem_bufctl, ca_size = sz, ca_align = align, ca_slab = 0, ca_name = nm'\<rparr>"
  define s0 where "s0 = put_cache c cache s"
  have b: "buf_size cache = unat (align_up sz align)" by (simp add: buf_size_def cache_def)
  have sm: "small_cache cache"
    using sz b by (simp add: small_cache_def cache_def sizeof_kmem_bufctl_def unat_sub word_le_nat_alt)
  have ca: "km_caches s0 c = Some cache" and pgs: "km_pages s0 = km_pages s" by (simp_all add: s0_def put_cache_def)
  obtain base s1 where c1: "kmem_slab_create kmem_fuel c s0 = Some (base + 4056, s1)" "page_ok base"
      "page_bytes 4096 base \<subseteq> arena_avail (KERNEL_SMALL_PAGE_ARENA (km_pages s))"
      "arena_wf 4096 (KERNEL_SMALL_PAGE_ARENA (km_pages s1))"
      "arena_avail (KERNEL_SMALL_PAGE_ARENA (km_pages s1)) = arena_avail (KERNEL_SMALL_PAGE_ARENA (km_pages s)) - page_bytes 4096 base"
      "km_caches s1 = km_caches s0" "slab_ok s1 c cache (base + 4056) base (slab_objs cache base) 0"
    using slab_create_page [of s0, unfolded pgs, OF wf ne ca sm, of 7] by (auto simp: kmem_fuel_def numeral_eq_Suc simp del: kmem_slab_create.simps)
  define cache' where "cache' = cache\<lparr>ca_slab := base + 4056\<rparr>"
  define s' where "s' = put_cache c cache' s1"
  have "\<not> align_up sz align < sizeof_kmem_bufctl" using sz(2) by (simp add: sizeof_kmem_bufctl_def word_less_nat_alt)
  then have run: "kmem_cache_init c name sz align s = Some (0, s')"
    using new nm' c1(1,6) ca unfolding kmem_cache_init_def
    by (simp add: s'_def s0_def cache'_def cache_def Let_def del: kmem_slab_create.simps)
  have same: "km_slabs s' = km_slabs s1" "km_bufctls s' = km_bufctls s1" "km_pages s' = km_pages s1" "km_caches s' c = Some cache'"
    by (simp_all add: s'_def put_cache_def)
  have "slab_ok s' c cache' (base + 4056) base (slab_objs cache' base) 0"
    using slab_ok_frame [OF sm, of base s1 s'] c1(7) by (simp add: same_page_def same cache'_def slab_ok_cache cache_shape)
  moreover have "page_bytes 4096 base \<inter> arena_avail (KERNEL_SMALL_PAGE_ARENA (km_pages s')) = {}"
    using c1(5) by (auto simp: same)
  ultimately have "cache_inv s' c cache' [(base, slab_objs cache' base)]"
    using sm c1(4) same by (intro cache_invI) (simp_all add: cache'_def cache_shape)
  then show ?thesis
    using run c1(5) same(3) by (intro exI [of _ s'] exI [of _ cache'] exI [of _ base]) (simp add: cache'_def cache_def)
qed

type_synonym kmem_list_state = "(MemorySegment list, MemorySegment list \<times> nat option) kmem_state"

definition kmem_example :: kmem_list_state where
  "kmem_example = \<lparr>km_pages = arenas_example, km_bufctls = Map.empty, km_slabs = Map.empty, km_caches = Map.empty,
     km_bytes = (\<lambda>_. 0), kmem_cache_cache = 0x100, kmem_slab_cache = 0x140, kmalloc_caches = 0x180\<rparr>"

lemma kmem_example_wf:
  "arena_wf 4096 (KERNEL_SMALL_PAGE_ARENA (km_pages kmem_example))"
  "arena_avail (KERNEL_SMALL_PAGE_ARENA (km_pages kmem_example)) = {0x3000 ..< 0x5000}"
  using arenas_example_wf by (simp_all add: kmem_example_def arenas_wf_def)
    (simp add: arena_avail_def arenas_example_def list_tree_def seg_bytes_def page_bytes_def)

text \<open>Objects of 24 bytes in buffers of 2048 bytes: one object to a slab.\<close>

lemma kmem_example_cache:
  "\<exists>s cache base. kmem_cache_init 0x100 [99, 0] 24 2048 kmem_example = Some (0, s) \<and> slab_cap cache = 1
     \<and> cache_inv s 0x100 cache [(base, slab_objs cache base)] \<and> arena_avail (KERNEL_SMALL_PAGE_ARENA (km_pages s)) \<noteq> {}"
proof -
  have up: "align_up 24 2048 = (2048 :: u64)" by (simp add: align_up_def align_down_def)
  obtain s cache base where r: "kmem_cache_init 0x100 [99, 0] 24 2048 kmem_example = Some (0, s)" "ca_size cache = 24" "ca_align cache = 2048"
      "cache_inv s 0x100 cache [(base, slab_objs cache base)]"
      "arena_avail (KERNEL_SMALL_PAGE_ARENA (km_pages s)) = {0x3000 ..< 0x5000} - page_bytes 4096 base"
    using cache_init_inv [OF kmem_example_wf(1), where name = "[99, 0]" and nm = "[99]" and c = "0x100" and sz = 24 and align = 2048, unfolded kmem_example_wf(2) up]
    by (auto simp: c_string_def kmem_example_def)
  have "{0x3000 ..< 0x5000} - page_bytes 4096 base \<noteq> ({} :: nat set)"
  proof
    assume "{0x3000 ..< 0x5000} - page_bytes 4096 base = {}"
    then have "0x3000 \<in> page_bytes 4096 base" "0x4fff \<in> page_bytes 4096 base" by auto
    then show False by (simp add: page_bytes_def)
  qed
  moreover have "slab_cap cache = 1" by (simp add: slab_cap_def buf_size_def r up)
  ultimately show ?thesis using r by auto
qed

subsection \<open>Properties\<close>

lemma kmem_fuel_eq: "kmem_fuel = Suc (Suc (Suc 5))"
  by (simp add: kmem_fuel_def)

text \<open>C4: let a cache of objects below 512 bytes, whose slab descriptors are inside their pages, be well formed. Then
  \<open>kmem_cache_alloc\<close> returns. It returns a null pointer only when the first slab of the cache has no free object and the page
  allocator no page, and then changes nothing. Otherwise the object it returns was not in use, overlaps no object of the
  cache that is in use and no memory that is still available, and the cache is well formed with exactly that object more
  in use. Any other well-formed cache of this kind that shares no page with this one stays as it is, and the object overlaps
  none of its objects in use. (Caches of larger objects, whose descriptors come from a cache of their own, are not covered.)\<close>

theorem kmem_cache_alloc_fresh:
  assumes "cache_inv s c cache L"
  shows "\<exists>obj s'. kmem_cache_alloc kmem_fuel c s = Some (obj, s') \<and>
     (if obj = 0 then arena_avail (KERNEL_SMALL_PAGE_ARENA (km_pages s)) = {} \<and> snd (hd L) = [] \<and> s' = s
      else handed_out s' c cache L obj
        \<and> (\<forall>d dcache M. d \<noteq> c \<and> cache_inv s d dcache M \<and> fst ` set M \<inter> fst ` set L = {} \<longrightarrow>
             cache_inv s' d dcache M \<and> (\<forall>other \<in> live_objs dcache M. obj_bytes cache obj \<inter> obj_bytes dcache other = {})))"
proof -
  have sm: "small_cache cache" using cache_invD(2) [OF assms] .
  obtain obj s' where *: "kmem_cache_alloc kmem_fuel c s = Some (obj, s')"
      "if obj = 0 then arena_avail (KERNEL_SMALL_PAGE_ARENA (km_pages s)) = {} \<and> snd (hd L) = [] \<and> s' = s
       else handed_out s' c cache L obj \<and> handed_from s s' c cache L obj"
    using cache_alloc_handed_out [OF assms, of 5] unfolding kmem_fuel_eq by blast
  show ?thesis
  proof (cases "obj = 0")
    case True
    then show ?thesis using * by auto
  next
    case False
    then have h: "handed_from s s' c cache L obj" using *(2) by simp
    have "cache_inv s' d dcache M \<and> (\<forall>other \<in> live_objs dcache M. obj_bytes cache obj \<inter> obj_bytes dcache other = {})"
      if "d \<noteq> c \<and> cache_inv s d dcache M \<and> fst ` set M \<inter> fst ` set L = {}" for d dcache M
      using other_cache [OF h sm, of d dcache M] that by blast
    then show ?thesis using * False by auto
  qed
qed

theorem kmem_cache_alloc_fresh_witness:
  "\<exists>s obj s'. kmem_cache_init 0x100 [99, 0] 24 2048 kmem_example = Some (0, s)
     \<and> kmem_cache_alloc kmem_fuel 0x100 s = Some (obj, s') \<and> obj \<noteq> 0"
proof -
  obtain s cache base where r: "kmem_cache_init 0x100 [99, 0] 24 2048 kmem_example = Some (0, s)"
      "cache_inv s 0x100 cache [(base, slab_objs cache base)]" "arena_avail (KERNEL_SMALL_PAGE_ARENA (km_pages s)) \<noteq> {}"
    using kmem_example_cache by blast
  then show ?thesis using kmem_cache_alloc_fresh [OF r(2)] by auto
qed

text \<open>C35: freeing an object of the first slab of a cache keeps the cache well formed with exactly
  that object less in use. The page goes back to the page allocator exactly when no object of it
  is in use any more and the cache has another slab.\<close>

theorem kmem_cache_free_own:
  assumes "cache_inv s c cache ((base, free) # L)" and "obj \<in> set (slab_objs cache base)" and "obj \<notin> set free"
  shows "\<exists>s' cache' L'. kmem_cache_free c obj s = Some s' \<and> cache_inv s' c cache' L' \<and> cache' = cache\<lparr>ca_slab := ca_slab cache'\<rparr>
     \<and> live_objs cache L' = live_objs cache ((base, free) # L) - {obj}
     \<and> arena_avail (KERNEL_SMALL_PAGE_ARENA (km_pages s')) = arena_avail (KERNEL_SMALL_PAGE_ARENA (km_pages s))
         \<union> (if Suc (length free) = slab_cap cache \<and> L \<noteq> [] then page_bytes 4096 base else {})"
  by (rule cache_free_head [OF assms])

lemma kmem_example_alloc:
  "\<exists>(s :: kmem_list_state) cache base obj. cache_inv s 0x100 cache [(base, [])] \<and> slab_cap cache = 1 \<and> slab_objs cache base = [obj]
     \<and> arena_avail (KERNEL_SMALL_PAGE_ARENA (km_pages s)) \<noteq> {}"
proof -
  obtain s :: kmem_list_state and cache base where r: "slab_cap cache = 1" "cache_inv s 0x100 cache [(base, slab_objs cache base)]"
      "arena_avail (KERNEL_SMALL_PAGE_ARENA (km_pages s)) \<noteq> {}"
    using kmem_example_cache by blast
  have "slab_objs cache base = [slab_obj cache base 0]" by (simp add: slab_objs_def r(1))
  then show ?thesis using cache_alloc_head [of s "0x100" cache base "slab_obj cache base 0" "[]" "[]"] r by metis
qed

theorem kmem_cache_free_own_witness:
  "\<exists>(s :: kmem_list_state) cache base obj s' cache' L'. cache_inv s 0x100 cache [(base, [])] \<and> kmem_cache_free 0x100 obj s = Some s'
     \<and> cache_inv s' 0x100 cache' L' \<and> obj \<in> live_objs cache [(base, [])] \<and> obj \<notin> live_objs cache L'"
proof -
  obtain s :: kmem_list_state and cache base obj where r: "cache_inv s 0x100 cache [(base, [])]" "slab_objs cache base = [obj]"
    using kmem_example_alloc by blast
  obtain s' cache' L' where f: "kmem_cache_free 0x100 obj s = Some s'" "cache_inv s' 0x100 cache' L'"
      "live_objs cache L' = live_objs cache [(base, [])] - {obj}"
    using kmem_cache_free_own [OF r(1), of obj] r(2) by auto
  moreover have "obj \<in> live_objs cache [(base, [])]" using r(2) by simp
  ultimately show ?thesis using r(1) by blast
qed

text \<open>Freeing an object of another slab can make a page available in which another object is
  in use: it does when the first slab has one object in use.\<close>

lemma kmem_cache_free_foreign:
  assumes inv: "cache_inv s c cache ((base, free) # L)" and ne: "L \<noteq> []" and one: "Suc (length free) = slab_cap cache"
    and obj: "obj \<in> live_objs cache L"
  shows "\<exists>s' x. kmem_cache_free c obj s = Some s' \<and> x \<in> live_objs cache ((base, free) # L) \<and> x \<noteq> obj
     \<and> obj_bytes cache x \<subseteq> arena_avail (KERNEL_SMALL_PAGE_ARENA (km_pages s'))"
proof -
  note D = cache_invD [OF inv]
  obtain nxt where ok: "slab_ok s c cache (ca_slab cache) base free nxt" and r: "slab_list s c cache nxt L" using D(5) by auto
  obtain sl where sl: "km_slabs s (ca_slab cache) = Some sl" "sl_cache sl = c" "sl_base sl = base" "sl_next sl = nxt"
      "sl_nr_free sl = of_nat (length free)" "sl_capacity sl = of_nat (slab_cap cache)"
    using ok by (auto simp: slab_ok_def)
  have pg: "page_ok base" using ok by (simp add: slab_ok_def)
  let ?s' = "free_page base (put_cache c (cache\<lparr>ca_slab := nxt\<rparr>) (freed (ca_slab cache) cache obj s sl))"
  have run: "kmem_cache_free c obj s = Some ?s'"
    using kmem_cache_free_eq [OF D(1) sl(1,2)] sl nr_free_full [OF D(2) free_length [OF D(2) ok]] one slab_list_nonnull [OF r] ne by auto
  have "arena_avail (KERNEL_SMALL_PAGE_ARENA (km_pages ?s')) = arena_avail (KERNEL_SMALL_PAGE_ARENA (km_pages s)) \<union> page_bytes 4096 base"
    using small_pages.release_page [OF D(3), of base] pg D(7) [of base free]
    by (auto simp: free_page_def put_cache_def page_ok_def freed_def put_slab_def put_bufctl_def)
  moreover obtain x where x: "x \<in> set (slab_objs cache base)" "x \<notin> set free"
  proof -
    have "card (set free) < card (set (slab_objs cache base))"
      using card_slab_objs [OF D(2) pg] one card_length [of free] by simp
    then have "\<not> set (slab_objs cache base) \<subseteq> set free" by (meson List.finite_set card_mono leD)
    then show thesis using that by blast
  qed
  moreover have "x \<noteq> obj"
  proof
    assume "x = obj"
    then obtain b f where "(b, f) \<in> set L" "page_ok b" "x \<in> set (slab_objs cache b)"
      using live_in_pages [OF r obj] by blast
    moreover have "b \<noteq> base" using D(6) \<open>(b, f) \<in> set L\<close> by force
    ultimately show False using objs_disjoint [OF D(2) _ pg] x(1) by blast
  qed
  ultimately show ?thesis using run obj_bytes_page [OF D(2) pg x(1)] by auto
qed

lemma kmem_cache_free_foreign_example:
  "\<exists>(s :: kmem_list_state) cache L obj s' x. cache_inv s 0x100 cache L \<and> kmem_cache_free 0x100 obj s = Some s' \<and> x \<in> live_objs cache L - {obj}
     \<and> obj_bytes cache x \<subseteq> arena_avail (KERNEL_SMALL_PAGE_ARENA (km_pages s'))"
proof -
  obtain s :: kmem_list_state and cache base obj where r: "cache_inv s 0x100 cache [(base, [])]" "slab_cap cache = 1" "slab_objs cache base = [obj]"
      "arena_avail (KERNEL_SMALL_PAGE_ARENA (km_pages s)) \<noteq> {}"
    using kmem_example_alloc by blast
  obtain nb and s1 :: kmem_list_state and cache1 where g: "cache1 = cache\<lparr>ca_slab := ca_slab cache1\<rparr>" "cache_inv s1 0x100 cache1 [(nb, slab_objs cache nb), (base, [])]"
    using cache_grow [OF r(1,4), of 0] by (elim exE conjE) (rule that)
  have "slab_cap cache1 = slab_cap cache" by (subst g(1)) (rule cache_shape)
  then have cap: "slab_cap cache1 = 1" using r(2) by simp
  have objs: "slab_objs cache1 = slab_objs cache" by (subst g(1)) (rule cache_shape)
  have o: "slab_objs cache nb = [slab_obj cache nb 0]" by (simp add: slab_objs_def r(2))
  obtain s2 :: kmem_list_state where i2: "cache_inv s2 0x100 cache1 [(nb, []), (base, [])]"
    using cache_alloc_head [of s1 "0x100" cache1 nb "slab_obj cache nb 0" "[]" "[(base, [])]" 0] g(2) o by (auto simp del: kmem_cache_alloc.simps)
  have "obj \<in> live_objs cache1 [(base, [])]" by (simp add: objs r(3))
  then obtain s' x where "kmem_cache_free 0x100 obj s2 = Some s'" "x \<in> live_objs cache1 [(nb, []), (base, [])]" "x \<noteq> obj"
      "obj_bytes cache1 x \<subseteq> arena_avail (KERNEL_SMALL_PAGE_ARENA (km_pages s'))"
    using kmem_cache_free_foreign [OF i2, of obj] cap by auto
  then show ?thesis using i2 by blast
qed

text \<open>A request is served from the cache of the smallest size class that holds it, and
  requests above 4096 bytes are refused without touching the allocator.\<close>

lemma kmem_cache_index_least:
  "(sz \<le> 4096 \<longrightarrow> unat (kmem_cache_index sz) < length kmem_alloc_sizes \<and> sz \<le> kmem_alloc_sizes ! unat (kmem_cache_index sz)
      \<and> (\<forall>i < unat (kmem_cache_index sz). kmem_alloc_sizes ! i < sz))
   \<and> (4096 < sz \<longrightarrow> kmem_alloc sz s = Some (0, s) \<and> kmem_zalloc sz s = Some (0, s) \<and> kmem_free p sz s = Some s)"
proof (intro conjI impI)
  have big: "kmem_size_to_cache sz s = 0" if "4096 < sz"
  proof -
    have "\<not> sz \<le> n" if "n \<le> 4096" for n using that \<open>4096 < sz\<close> by (meson leD order_trans)
    then have "kmem_cache_index sz = NOT 0" by (simp add: kmem_cache_index_def)
    then show ?thesis by (simp add: kmem_size_to_cache_def kmem_alloc_sizes_def)
  qed
  then show "kmem_alloc sz s = Some (0, s)" "kmem_zalloc sz s = Some (0, s)" "kmem_free p sz s = Some s" if "4096 < sz"
    using that by (simp_all add: kmem_alloc_def kmem_zalloc_def kmem_free_def)
  have srt: "sorted kmem_alloc_sizes" by (simp add: kmem_alloc_sizes_def)
  have cls: "unat (kmem_cache_index sz) < length kmem_alloc_sizes \<and> sz \<le> kmem_alloc_sizes ! unat (kmem_cache_index sz)
      \<and> (0 < unat (kmem_cache_index sz) \<longrightarrow> kmem_alloc_sizes ! (unat (kmem_cache_index sz) - 1) < sz)" if "sz \<le> 4096"
    using that unfolding kmem_cache_index_def kmem_alloc_sizes_def by (simp add: not_le split: if_split)
  have idx: "unat (kmem_cache_index sz) < length kmem_alloc_sizes \<and> sz \<le> kmem_alloc_sizes ! unat (kmem_cache_index sz)
      \<and> (\<forall>i < unat (kmem_cache_index sz). kmem_alloc_sizes ! i < sz)" if "sz \<le> 4096"
  proof (intro conjI allI impI)
    fix i
    assume i: "i < unat (kmem_cache_index sz)"
    then have "kmem_alloc_sizes ! i \<le> kmem_alloc_sizes ! (unat (kmem_cache_index sz) - 1)"
      using cls [OF that] by (intro sorted_nth_mono [OF srt]) auto
    then show "kmem_alloc_sizes ! i < sz" using cls [OF that] i by auto
  qed (use cls [OF that] in auto)
  show "unat (kmem_cache_index sz) < length kmem_alloc_sizes" "sz \<le> kmem_alloc_sizes ! unat (kmem_cache_index sz)"
      "\<forall>i < unat (kmem_cache_index sz). kmem_alloc_sizes ! i < sz" if "sz \<le> 4096"
    using idx [OF that] by blast+
qed

lemma kmem_cache_index_least_example:
  "kmem_cache_index 100 = 2 \<and> kmem_alloc_sizes ! 2 = 128 \<and> (100 :: u64) \<le> 128 \<and> kmem_alloc 5000 kmem_example = Some (0, kmem_example)"
  using kmem_cache_index_least [of 100 kmem_example 0] kmem_cache_index_least [of 5000 kmem_example 0]
  by (simp add: kmem_cache_index_def kmem_alloc_sizes_def)

end
