(* ===== verification/Malloc.thy ===== *)
theory Malloc
  imports Align
begin

text \<open>
  \<open>malloc\<close> and \<open>free\<close> of the user library (\<^verbatim>\<open>usr/liblinux/src/malloc.c\<close>). The heap is kept by
  type: for every address the \<^verbatim>\<open>struct malloc_segment\<close> or \<^verbatim>\<open>struct malloc_page\<close> there, and for a
  block the pointer \<open>next\<close> that was last written to it. The pages of a segment are found at
  \<open>malloc_page_at segment idx\<close>. Reading a structure that is not there and a failed assertion are
  undefined.

  The system call \<open>vmspace_alloc\<close> is a parameter: it returns an error code, the start of the region and
  what the memory of the region holds where the page descriptors will be.
\<close>

record malloc_page =
  mp_free :: u64
  mp_used :: u64
  mp_capacity :: u64
  mp_block_size :: u64
  mp_idx :: u8

record malloc_segment =
  sg_prev :: u64
  sg_next :: u64
  sg_nr_pages :: u64

record malloc_segment_queue =
  q_head :: u64
  q_tail :: u64

record malloc_heap =
  hp_pages :: "u64 list"
  segment_queue :: malloc_segment_queue

record 'os malloc_state =
  malloc_default_heap :: malloc_heap
  ml_segs :: "u64 \<rightharpoonup> malloc_segment"
  ml_pages :: "u64 \<rightharpoonup> malloc_page"
  ml_blocks :: "u64 \<rightharpoonup> u64"
  empty_page_addr :: u64
  ml_os :: 'os

type_synonym 'os vmspace_call = "u64 \<Rightarrow> u64 \<Rightarrow> 'os \<Rightarrow> int \<times> u64 \<times> (nat \<Rightarrow> malloc_page) \<times> 'os"

definition malloc_align :: "u64 \<Rightarrow> u64 \<Rightarrow> u64" where
  "malloc_align v align = (v + align - 1) AND NOT (align - 1)"

definition MIN_OBJ_SIZE_SHIFT :: nat where "MIN_OBJ_SIZE_SHIFT = 3"
definition MIN_OBJ_SIZE :: u64 where "MIN_OBJ_SIZE = push_bit MIN_OBJ_SIZE_SHIFT 1"
definition MIN_OBJ_SIZE_MASK :: u64 where "MIN_OBJ_SIZE_MASK = MIN_OBJ_SIZE - 1"
definition MALLOC_SEGMENT_SIZE :: u64 where "MALLOC_SEGMENT_SIZE = push_bit 21 1"
definition MALLOC_PAGE_SIZE :: u64 where "MALLOC_PAGE_SIZE = push_bit 16 1"
definition SMALL_OBJ_SIZE_MAX :: u64 where "SMALL_OBJ_SIZE_MAX = push_bit 10 1"
definition NUM_SIZE_CLASSES :: nat where "NUM_SIZE_CLASSES = unat (drop_bit MIN_OBJ_SIZE_SHIFT (SMALL_OBJ_SIZE_MAX + 7))"

definition sizeof_malloc_segment :: u64 where "sizeof_malloc_segment = 24"
definition sizeof_malloc_page :: u64 where "sizeof_malloc_page = 40"

definition empty_page :: malloc_page where
  "empty_page = \<lparr>mp_free = 0, mp_used = 0, mp_capacity = 0, mp_block_size = 0, mp_idx = 0\<rparr>"

definition malloc_page_at :: "u64 \<Rightarrow> u64 \<Rightarrow> u64" where
  "malloc_page_at segment idx = segment + sizeof_malloc_segment + sizeof_malloc_page * idx"

definition put_mpage :: "u64 \<Rightarrow> malloc_page \<Rightarrow> 'os malloc_state \<Rightarrow> 'os malloc_state" where
  "put_mpage a p st = st\<lparr>ml_pages := (ml_pages st)(a \<mapsto> p)\<rparr>"

definition put_seg :: "u64 \<Rightarrow> malloc_segment \<Rightarrow> 'os malloc_state \<Rightarrow> 'os malloc_state" where
  "put_seg a s st = st\<lparr>ml_segs := (ml_segs st)(a \<mapsto> s)\<rparr>"

definition put_queue :: "malloc_segment_queue \<Rightarrow> 'os malloc_state \<Rightarrow> 'os malloc_state" where
  "put_queue q st = st\<lparr>malloc_default_heap := (malloc_default_heap st)\<lparr>segment_queue := q\<rparr>\<rparr>"

subsection \<open>Sizes, objects, blocks\<close>

definition to_block_size :: "u64 \<Rightarrow> u64" where
  "to_block_size obj_size = (obj_size + MIN_OBJ_SIZE_MASK) AND NOT MIN_OBJ_SIZE_MASK"

definition to_size_class :: "u64 \<Rightarrow> u64" where
  "to_size_class obj_size = to_block_size obj_size div MIN_OBJ_SIZE"

definition malloc_block_to_obj :: "u64 \<Rightarrow> u64" where "malloc_block_to_obj block = block"
definition malloc_obj_to_block :: "u64 \<Rightarrow> u64" where "malloc_obj_to_block obj = obj"

definition malloc_page_remaining :: "malloc_page \<Rightarrow> u64" where
  "malloc_page_remaining p = mp_capacity p - mp_used p"

definition malloc_obj_to_page :: "u64 \<Rightarrow> u64 \<Rightarrow> u64" where
  "malloc_obj_to_page segment obj = (let idx = (obj - segment) div MALLOC_PAGE_SIZE in malloc_page_at segment idx)"

definition malloc_page_append_obj :: "u64 \<Rightarrow> u64 \<Rightarrow> 'os malloc_state \<Rightarrow> 'os malloc_state option" where
  "malloc_page_append_obj page obj st =
     do { let block = malloc_obj_to_block obj;
          p \<leftarrow> ml_pages st page;
          let st = st\<lparr>ml_blocks := (ml_blocks st)(block \<mapsto> mp_free p)\<rparr>;
          Some (put_mpage page (p\<lparr>mp_free := block\<rparr>) st) }"

definition malloc_page_alloc_obj :: "u64 \<Rightarrow> 'os malloc_state \<Rightarrow> (u64 \<times> 'os malloc_state) option" where
  "malloc_page_alloc_obj page st =
     do { p \<leftarrow> ml_pages st page;
          let block = mp_free p;
          if block \<noteq> 0 then
            do { nxt \<leftarrow> ml_blocks st block;
                 Some (malloc_block_to_obj block, put_mpage page (p\<lparr>mp_free := nxt, mp_used := mp_used p + 1\<rparr>) st) }
          else Some (0, st) }"

definition malloc_page_full :: "malloc_page \<Rightarrow> bool" where
  "malloc_page_full p \<longleftrightarrow> mp_free p = 0"

definition malloc_obj_to_segment :: "u64 \<Rightarrow> u64" where
  "malloc_obj_to_segment obj = obj - obj mod MALLOC_SEGMENT_SIZE"

subsection \<open>Segments\<close>

definition malloc_segment_metadata_size :: "malloc_segment \<Rightarrow> u64" where
  "malloc_segment_metadata_size s = sizeof_malloc_segment + sizeof_malloc_page * sg_nr_pages s"

definition malloc_segment_page_obj :: "u64 \<Rightarrow> malloc_segment \<Rightarrow> malloc_page \<Rightarrow> u64" where
  "malloc_segment_page_obj segment s p =
     (if mp_idx p = 0 then segment + malloc_segment_metadata_size s else segment + ucast (mp_idx p) * MALLOC_PAGE_SIZE)"

definition malloc_segment_page_size :: "malloc_segment \<Rightarrow> malloc_page \<Rightarrow> u64" where
  "malloc_segment_page_size s p =
     (if mp_idx p = 0 then MALLOC_PAGE_SIZE - malloc_segment_metadata_size s else MALLOC_PAGE_SIZE)"

fun malloc_segment_init_pages :: "nat \<Rightarrow> u64 \<Rightarrow> u64 \<Rightarrow> 'os malloc_state \<Rightarrow> 'os malloc_state option" where
  "malloc_segment_init_pages 0 segment page_idx st = Some st"
| "malloc_segment_init_pages (Suc n) segment page_idx st =
     do { let page = malloc_page_at segment page_idx;
          p \<leftarrow> ml_pages st page;
          malloc_segment_init_pages n segment (page_idx + 1) (put_mpage page (p\<lparr>mp_idx := ucast page_idx\<rparr>) st) }"

definition malloc_segment_init :: "u64 \<Rightarrow> u64 \<Rightarrow> 'os malloc_state \<Rightarrow> 'os malloc_state option" where
  "malloc_segment_init segment segment_size st =
     (let nr_pages = segment_size div MALLOC_PAGE_SIZE
      in malloc_segment_init_pages (unat nr_pages) segment 0
           (put_seg segment \<lparr>sg_prev = 0, sg_next = 0, sg_nr_pages = nr_pages\<rparr> st))"

text \<open>The memory of a new region: what it holds at the places of the 32 page descriptors.\<close>

fun fresh_pages :: "nat \<Rightarrow> u64 \<Rightarrow> (nat \<Rightarrow> malloc_page) \<Rightarrow> 'os malloc_state \<Rightarrow> 'os malloc_state" where
  "fresh_pages 0 start content st = st"
| "fresh_pages (Suc n) start content st =
     put_mpage (malloc_page_at start (of_nat n)) (content n) (fresh_pages n start content st)"

definition malloc_os_alloc :: "'os vmspace_call \<Rightarrow> u64 \<Rightarrow> u64 \<Rightarrow> 'os malloc_state \<Rightarrow> (u64 \<times> 'os malloc_state) option" where
  "malloc_os_alloc vmspace_alloc sz align st =
     (let (err, start, content, os) = vmspace_alloc MALLOC_SEGMENT_SIZE MALLOC_SEGMENT_SIZE (ml_os st);
          st = st\<lparr>ml_os := os\<rparr>
      in if err \<noteq> 0 then Some (0, st)
         else if start mod MALLOC_SEGMENT_SIZE \<noteq> 0 then None
         else Some (start, fresh_pages 32 start content st))"

definition malloc_heap_alloc_segment :: "'os vmspace_call \<Rightarrow> 'os malloc_state \<Rightarrow> (u64 \<times> 'os malloc_state) option" where
  "malloc_heap_alloc_segment vmspace_alloc st =
     do { (p, st) \<leftarrow> malloc_os_alloc vmspace_alloc MALLOC_SEGMENT_SIZE MALLOC_SEGMENT_SIZE st;
          if p = 0 then Some (0, st)
          else do { st \<leftarrow> malloc_segment_init p MALLOC_SEGMENT_SIZE st; Some (p, st) } }"

definition malloc_segment_queue_head :: "malloc_segment_queue \<Rightarrow> u64" where
  "malloc_segment_queue_head q = q_head q"

definition malloc_segment_queue_remove :: "u64 \<Rightarrow> 'os malloc_state \<Rightarrow> 'os malloc_state option" where
  "malloc_segment_queue_remove segment st =
     do { s \<leftarrow> ml_segs st segment;
          let q = segment_queue (malloc_default_heap st);
          let q = (if segment = q_head q then q\<lparr>q_head := sg_next s\<rparr> else q);
          let q = (if segment = q_tail q then q\<lparr>q_tail := sg_prev s\<rparr> else q);
          let st = put_queue q st;
          st \<leftarrow> (if sg_prev s \<noteq> 0 then
                    do { s \<leftarrow> ml_segs st segment;
                         prev \<leftarrow> ml_segs st (sg_prev s);
                         let st = put_seg (sg_prev s) (prev\<lparr>sg_next := sg_next s\<rparr>) st;
                         s \<leftarrow> ml_segs st segment;
                         Some (put_seg segment (s\<lparr>sg_prev := 0\<rparr>) st) }
                  else Some st);
          s \<leftarrow> ml_segs st segment;
          if sg_next s \<noteq> 0 then
            do { nxt \<leftarrow> ml_segs st (sg_next s);
                 let st = put_seg (sg_next s) (nxt\<lparr>sg_prev := sg_prev s\<rparr>) st;
                 s \<leftarrow> ml_segs st segment;
                 Some (put_seg segment (s\<lparr>sg_next := 0\<rparr>) st) }
          else Some st }"

definition malloc_segment_queue_pop :: "'os malloc_state \<Rightarrow> 'os malloc_state option" where
  "malloc_segment_queue_pop st =
     (let q = segment_queue (malloc_default_heap st)
      in if q_head q \<noteq> 0 then malloc_segment_queue_remove (q_head q) st else Some st)"

definition malloc_segment_queue_enqueue :: "u64 \<Rightarrow> 'os malloc_state \<Rightarrow> 'os malloc_state option" where
  "malloc_segment_queue_enqueue segment st =
     do { let q = segment_queue (malloc_default_heap st);
          s \<leftarrow> ml_segs st segment;
          let st = put_seg segment (s\<lparr>sg_prev := q_tail q, sg_next := 0\<rparr>) st;
          if q_tail q \<noteq> 0 then
            do { t \<leftarrow> ml_segs st (q_tail q);
                 let st = put_seg (q_tail q) (t\<lparr>sg_next := segment\<rparr>) st;
                 Some (put_queue (q\<lparr>q_tail := segment\<rparr>) st) }
          else Some (put_queue \<lparr>q_head = segment, q_tail = segment\<rparr> st) }"

text \<open>The loop of \<open>malloc_segment_claim_page\<close>, with the number of blocks still to append.\<close>

fun malloc_claim_blocks :: "nat \<Rightarrow> u64 \<Rightarrow> u64 \<Rightarrow> u64 \<Rightarrow> 'os malloc_state \<Rightarrow> 'os malloc_state option" where
  "malloc_claim_blocks 0 page obj block_size st = Some st"
| "malloc_claim_blocks (Suc n) page obj block_size st =
     do { st \<leftarrow> malloc_page_append_obj page (obj + of_nat n * block_size) st;
          malloc_claim_blocks n page obj block_size st }"

definition malloc_segment_claim_page :: "u64 \<Rightarrow> u64 \<Rightarrow> u64 \<Rightarrow> 'os malloc_state \<Rightarrow> 'os malloc_state option" where
  "malloc_segment_claim_page segment page block_size st =
     do { s \<leftarrow> ml_segs st segment;
          p \<leftarrow> ml_pages st page;
          if mp_block_size p \<noteq> 0 then None
          else do {
            let p = p\<lparr>mp_block_size := block_size, mp_used := 0\<rparr>;
            let p = p\<lparr>mp_capacity := malloc_segment_page_size s p div block_size\<rparr>;
            let st = put_mpage page p st;
            let obj = malloc_segment_page_obj segment s p;
            malloc_claim_blocks (unat (mp_capacity p)) page obj block_size st } }"

subsection \<open>The heap\<close>

text \<open>The loop over the pages of a segment: the result is a page with a free block, or 0.\<close>

fun malloc_find_page :: "nat \<Rightarrow> u64 \<Rightarrow> u64 \<Rightarrow> u64 \<Rightarrow> 'os malloc_state \<Rightarrow> (u64 \<times> 'os malloc_state) option" where
  "malloc_find_page 0 segment i block_size st = Some (0, st)"
| "malloc_find_page (Suc n) segment i block_size st =
     do { let page = malloc_page_at segment i;
          p \<leftarrow> ml_pages st page;
          if mp_block_size p \<noteq> 0 \<and> mp_block_size p \<noteq> block_size then malloc_find_page n segment (i + 1) block_size st
          else do {
            st \<leftarrow> (if mp_block_size p = 0 then malloc_segment_claim_page segment page block_size st else Some st);
            p \<leftarrow> ml_pages st page;
            if malloc_page_remaining p \<noteq> 0 then Some (page, st)
            else malloc_find_page n segment (i + 1) block_size st } }"

text \<open>The loop behind the label \<open>retry\<close> is a partial function: \<open>None\<close> is also not returning.\<close>

partial_function (option) malloc_heap_alloc_page ::
  "'os vmspace_call \<Rightarrow> u64 \<Rightarrow> 'os malloc_state \<Rightarrow> (u64 \<times> 'os malloc_state) option" where
  "malloc_heap_alloc_page vmspace_alloc sz st =
     Option.bind
       (let segment = malloc_segment_queue_head (segment_queue (malloc_default_heap st))
        in if segment = 0 then
             do { (segment, st) \<leftarrow> malloc_heap_alloc_segment vmspace_alloc st;
                  if segment = 0 then Some (0, st)
                  else do { st \<leftarrow> malloc_segment_queue_enqueue segment st; Some (segment, st) } }
           else Some (segment, st))
       (\<lambda>(segment, st).
          if segment = 0 then Some (0, st)
          else
            Option.bind
              (do { s \<leftarrow> ml_segs st segment;
                    (page, st) \<leftarrow> malloc_find_page (unat (sg_nr_pages s)) segment 0 (to_block_size sz) st;
                    if page \<noteq> 0 then Some (page, st)
                    else do { st \<leftarrow> malloc_segment_queue_pop st; Some (0, st) } })
              (\<lambda>(page, st). if page \<noteq> 0 then Some (page, st) else malloc_heap_alloc_page vmspace_alloc sz st))"

definition malloc_heap_get_page :: "'os vmspace_call \<Rightarrow> u64 \<Rightarrow> 'os malloc_state \<Rightarrow> (u64 \<times> 'os malloc_state) option" where
  "malloc_heap_get_page vmspace_alloc sz st =
     do { let size_class = unat (to_size_class sz);
          page \<leftarrow> rd (hp_pages (malloc_default_heap st)) size_class;
          p \<leftarrow> ml_pages st page;
          if \<not> malloc_page_full p then Some (page, st)
          else do {
            (page, st) \<leftarrow> malloc_heap_alloc_page vmspace_alloc sz st;
            if page \<noteq> 0 then
              do { pages \<leftarrow> wr (hp_pages (malloc_default_heap st)) size_class page;
                   Some (page, st\<lparr>malloc_default_heap := (malloc_default_heap st)\<lparr>hp_pages := pages\<rparr>\<rparr>) }
            else Some (page, st) } }"

definition malloc_heap_alloc_small :: "'os vmspace_call \<Rightarrow> u64 \<Rightarrow> 'os malloc_state \<Rightarrow> (u64 \<times> 'os malloc_state) option" where
  "malloc_heap_alloc_small vmspace_alloc sz st =
     do { let sz = (if sz = 0 then 8 else sz);
          (page, st) \<leftarrow> malloc_heap_get_page vmspace_alloc sz st;
          if page = 0 then Some (0, st) else malloc_page_alloc_obj page st }"

definition malloc_heap_alloc :: "'os vmspace_call \<Rightarrow> u64 \<Rightarrow> 'os malloc_state \<Rightarrow> (u64 \<times> 'os malloc_state) option" where
  "malloc_heap_alloc vmspace_alloc sz st =
     (if sz < SMALL_OBJ_SIZE_MAX then malloc_heap_alloc_small vmspace_alloc sz st else Some (0, st))"

definition malloc :: "'os vmspace_call \<Rightarrow> u64 \<Rightarrow> 'os malloc_state \<Rightarrow> (u64 \<times> 'os malloc_state) option" where
  "malloc vmspace_alloc sz st = malloc_heap_alloc vmspace_alloc sz st"

definition malloc_heap_free :: "u64 \<Rightarrow> 'os malloc_state \<Rightarrow> 'os malloc_state option" where
  "malloc_heap_free ptr st =
     do { let segment = malloc_obj_to_segment ptr;
          let page = malloc_obj_to_page segment ptr;
          st \<leftarrow> malloc_page_append_obj page ptr st;
          p \<leftarrow> ml_pages st page;
          if mp_used p > 0 then Some (put_mpage page (p\<lparr>mp_used := mp_used p - 1\<rparr>) st) else None }"

definition free :: "u64 \<Rightarrow> 'os malloc_state \<Rightarrow> 'os malloc_state option" where
  "free ptr st = (if ptr = 0 then Some st else malloc_heap_free ptr st)"

definition malloc_heap_init :: "'os malloc_state \<Rightarrow> 'os malloc_state" where
  "malloc_heap_init st =
     st\<lparr>malloc_default_heap := (malloc_default_heap st)\<lparr>hp_pages := replicate NUM_SIZE_CLASSES (empty_page_addr st)\<rparr>\<rparr>"

definition liblinux_malloc_init :: "'os malloc_state \<Rightarrow> 'os malloc_state" where
  "liblinux_malloc_init st = malloc_heap_init st"

end
