(* ===== verification/MallocProofs.thy ===== *)
theory MallocProofs
  imports Malloc
begin

text \<open>
  Correctness of \<open>malloc\<close> and \<open>free\<close>: an invariant of the segments, pages and free lists, the set of
  live blocks that a state describes, and what the two functions do to it.
\<close>

subsection \<open>Geometry of a segment\<close>

lemma malloc_consts:
  "MALLOC_SEGMENT_SIZE = 0x200000" "MALLOC_PAGE_SIZE = 0x10000" "SMALL_OBJ_SIZE_MAX = 1024" "MIN_OBJ_SIZE = 8" "MIN_OBJ_SIZE_MASK = 7"
  "sizeof_malloc_segment = 24" "sizeof_malloc_page = 40" "NUM_SIZE_CLASSES = 128"
  by (simp_all add: MALLOC_SEGMENT_SIZE_def MALLOC_PAGE_SIZE_def SMALL_OBJ_SIZE_MAX_def MIN_OBJ_SIZE_def MIN_OBJ_SIZE_MASK_def
      MIN_OBJ_SIZE_SHIFT_def sizeof_malloc_segment_def sizeof_malloc_page_def NUM_SIZE_CLASSES_def)

abbreviation pg_at :: "u64 \<Rightarrow> nat \<Rightarrow> u64" where
  "pg_at s i \<equiv> malloc_page_at s (of_nat i)"

definition seg_aligned :: "u64 \<Rightarrow> bool" where
  "seg_aligned s \<longleftrightarrow> s \<noteq> 0 \<and> 2097152 dvd unat s"

definition pg_off :: "nat \<Rightarrow> nat" where
  "pg_off i = (if i = 0 then 1304 else i * 65536)"

definition pg_len :: "nat \<Rightarrow> nat" where
  "pg_len i = (if i = 0 then 64232 else 65536)"

definition pg_cap :: "nat \<Rightarrow> nat \<Rightarrow> nat" where
  "pg_cap i b = pg_len i div b"

definition blk :: "u64 \<Rightarrow> nat \<Rightarrow> nat \<Rightarrow> nat \<Rightarrow> u64" where
  "blk s i b k = s + of_nat (pg_off i + k * b)"

definition pg_blocks :: "u64 \<Rightarrow> nat \<Rightarrow> nat \<Rightarrow> u64 list" where
  "pg_blocks s i b = map (blk s i b) [0..<pg_cap i b]"

definition in_pg :: "u64 \<Rightarrow> nat \<Rightarrow> u64 \<Rightarrow> bool" where
  "in_pg s i a \<longleftrightarrow> unat s + pg_off i \<le> unat a \<and> unat a < unat s + 65536 * Suc i"

lemma seg_bound: "seg_aligned s \<Longrightarrow> unat s + 2097152 \<le> 2 ^ 64"
proof -
  assume "seg_aligned s"
  then obtain k where "unat s = 2097152 * k" by (auto simp: seg_aligned_def elim: dvdE)
  then show ?thesis using unat_lt64 [of s] by simp
qed

lemma unat_seg_off: "seg_aligned s \<Longrightarrow> n < 2097152 \<Longrightarrow> unat (s + of_nat n) = unat s + n"
  using seg_bound [of s] by (subst unat_add_no_wrap) (simp_all add: unat_of_nat64)

lemma pg_at_eq: "pg_at s i = s + of_nat (24 + 40 * i)"
  by (simp add: malloc_page_at_def malloc_consts)

lemma unat_pg_at: "seg_aligned s \<Longrightarrow> i < 32 \<Longrightarrow> unat (pg_at s i) = unat s + (24 + 40 * i)"
  unfolding pg_at_eq by (rule unat_seg_off) simp_all

lemma same_segment:
  assumes "seg_aligned s" and "seg_aligned s'" and "unat s + m = unat s' + n" and "m < 2097152" and "n < 2097152"
  shows "s = s' \<and> m = n"
proof -
  obtain k where k: "unat s = 2097152 * k" using assms(1) by (auto simp: seg_aligned_def elim: dvdE)
  obtain l where l: "unat s' = 2097152 * l" using assms(2) by (auto simp: seg_aligned_def elim: dvdE)
  have "k = l" using assms(3-5) k l by simp
  then show ?thesis using assms(3) k l by (simp add: word_unat_eq_iff)
qed

lemma pg_at_inj:
  assumes "seg_aligned s" and "seg_aligned s'" and "i < 32" and "j < 32" and "pg_at s i = pg_at s' j"
  shows "s = s' \<and> i = j"
  using same_segment [OF assms(1,2), of "24 + 40 * i" "24 + 40 * j"] assms unat_pg_at [of s i] unat_pg_at [of s' j] by simp

lemma pg_at_nonzero: "seg_aligned s \<Longrightarrow> i < 32 \<Longrightarrow> pg_at s i \<noteq> 0"
  using unat_pg_at [of s i] by (metis add_is_0 unat_0 zero_neq_numeral)

lemma pg_cap_le: "k < pg_cap i b \<Longrightarrow> k * b + b \<le> pg_len i"
proof -
  assume "k < pg_cap i b"
  then have "Suc k * b \<le> pg_len i div b * b" by (intro mult_le_mono1) (simp add: pg_cap_def)
  also have "\<dots> \<le> pg_len i" by simp
  finally show ?thesis by (simp add: add.commute)
qed

lemma pg_off_len: "pg_off i + pg_len i = 65536 * Suc i"
  by (simp add: pg_off_def pg_len_def)

lemma unat_blk:
  assumes "seg_aligned s" and "i < 32" and "k < pg_cap i b" and "0 < b"
  shows "unat (blk s i b k) = unat s + (pg_off i + k * b)" and "pg_off i + k * b + b \<le> 65536 * Suc i"
proof -
  show 2: "pg_off i + k * b + b \<le> 65536 * Suc i" using pg_cap_le [OF assms(3)] pg_off_len [of i] by simp
  have "65536 * Suc i \<le> 2097152" using assms(2) by simp
  then show "unat (blk s i b k) = unat s + (pg_off i + k * b)"
    unfolding blk_def using 2 assms(1,4) by (intro unat_seg_off) simp_all
qed

lemma pg_blocks_in:
  assumes "seg_aligned s" and "i < 32" and "0 < b" and "x \<in> set (pg_blocks s i b)"
  shows "in_pg s i x" and "x \<noteq> 0" and "unat x + b \<le> unat s + 65536 * Suc i"
proof -
  obtain k where k: "k < pg_cap i b" "x = blk s i b k" using assms(4) by (auto simp: pg_blocks_def)
  note u = unat_blk [OF assms(1,2) k(1) assms(3)]
  show "in_pg s i x" "unat x + b \<le> unat s + 65536 * Suc i" using u assms(3) k(2) by (simp_all add: in_pg_def)
  show "x \<noteq> 0" using u(1) assms(1) k(2) by (auto simp: seg_aligned_def unat_eq_0)
qed

lemma blk_disjoint:
  assumes "seg_aligned s" and "i < 32" and "0 < b" and "k < pg_cap i b" and "l < pg_cap i b" and "k \<noteq> l"
  shows "{unat (blk s i b k) ..< unat (blk s i b k) + b} \<inter> {unat (blk s i b l) ..< unat (blk s i b l) + b} = {}"
proof -
  have "k * b + b \<le> l * b \<or> l * b + b \<le> k * b"
    using assms(6) mult_le_mono1 [of "Suc k" l b] mult_le_mono1 [of "Suc l" k b] by (cases "k < l") auto
  then show ?thesis using unat_blk(1) [OF assms(1,2,4,3)] unat_blk(1) [OF assms(1,2,5,3)] by auto
qed

lemma pg_blocks_distinct:
  assumes "seg_aligned s" and "i < 32" and "0 < b"
  shows "distinct (pg_blocks s i b)"
proof -
  have "k = l" if "k < pg_cap i b" "l < pg_cap i b" "blk s i b k = blk s i b l" for k l
  proof -
    have "unat s + (pg_off i + k * b) = unat s + (pg_off i + l * b)"
      unfolding unat_blk(1) [OF assms(1,2) that(1) assms(3), symmetric] unat_blk(1) [OF assms(1,2) that(2) assms(3), symmetric] that(3) ..
    then show ?thesis using assms(3) by simp
  qed
  then show ?thesis by (auto simp: pg_blocks_def distinct_map inj_on_def)
qed

lemma pg_blocks_disjoint:
  assumes "seg_aligned s" and "i < 32" and "0 < b" and "x \<in> set (pg_blocks s i b)" and "y \<in> set (pg_blocks s i b)" and "x \<noteq> y"
  shows "{unat x ..< unat x + b} \<inter> {unat y ..< unat y + b} = {}"
proof -
  obtain k l where "k < pg_cap i b" "x = blk s i b k" "l < pg_cap i b" "y = blk s i b l"
    using assms(4,5) by (auto simp: pg_blocks_def)
  then show ?thesis using assms(6) blk_disjoint [OF assms(1-3), of k l] by metis
qed

text \<open>An address lies in at most one page.\<close>

lemma in_pg_unique:
  assumes "seg_aligned s" and "seg_aligned s'" and "i < 32" and "j < 32"
    and "unat s + pg_off i \<le> a" and "a < unat s + 65536 * Suc i" and "unat s' + pg_off j \<le> a" and "a < unat s' + 65536 * Suc j"
  shows "s = s' \<and> i = j"
proof -
  have "65536 * Suc i \<le> 2097152" "65536 * Suc j \<le> 2097152" using assms(3,4) by simp_all
  then have e: "s = s' \<and> a - unat s = a - unat s'"
    using assms(5-8) by (intro same_segment [OF assms(1,2)]) simp_all
  have "65536 * i \<le> pg_off i" "65536 * j \<le> pg_off j" by (simp_all add: pg_off_def)
  then have "65536 * i < 65536 * Suc j" "65536 * j < 65536 * Suc i" using e assms(5-8) by auto
  then show ?thesis using e by simp
qed

subsection \<open>Free lists and the invariant of the pages\<close>

fun chain :: "nat \<Rightarrow> (u64 \<rightharpoonup> u64) \<Rightarrow> u64 \<Rightarrow> u64 list" where
  "chain 0 B x = []"
| "chain (Suc n) B x = x # chain n B (the (B x))"

fun blist :: "(u64 \<rightharpoonup> u64) \<Rightarrow> u64 \<Rightarrow> u64 list \<Rightarrow> bool" where
  "blist B x [] \<longleftrightarrow> x = 0"
| "blist B x (y # ys) \<longleftrightarrow> x = y \<and> y \<noteq> 0 \<and> (\<exists>z. B y = Some z \<and> blist B z ys)"

lemma length_chain [simp]: "length (chain n B x) = n"
  by (induction n arbitrary: x) simp_all

lemma blist_chain: "blist B x xs \<Longrightarrow> chain (length xs) B x = xs"
  by (induction xs arbitrary: x) auto

lemma blist_agree: "blist B x xs \<Longrightarrow> (\<And>y. y \<in> set xs \<Longrightarrow> B' y = B y) \<Longrightarrow> blist B' x xs"
  by (induction xs arbitrary: x) auto

definition free_blocks :: "(u64 \<rightharpoonup> u64) \<Rightarrow> malloc_page \<Rightarrow> u64 list" where
  "free_blocks B p = chain (unat (mp_capacity p - mp_used p)) B (mp_free p)"

definition pg_claimed :: "(u64 \<rightharpoonup> u64) \<Rightarrow> u64 \<Rightarrow> nat \<Rightarrow> malloc_page \<Rightarrow> bool" where
  "pg_claimed B s i p \<longleftrightarrow> 8 dvd unat (mp_block_size p) \<and> 8 \<le> unat (mp_block_size p) \<and> unat (mp_block_size p) \<le> 1024
     \<and> unat (mp_capacity p) = pg_cap i (unat (mp_block_size p)) \<and> mp_used p \<le> mp_capacity p
     \<and> blist B (mp_free p) (free_blocks B p) \<and> distinct (free_blocks B p)
     \<and> set (free_blocks B p) \<subseteq> set (pg_blocks s i (unat (mp_block_size p)))"

definition pg_ok :: "(u64 \<rightharpoonup> u64) \<Rightarrow> u64 \<Rightarrow> nat \<Rightarrow> malloc_page \<Rightarrow> bool" where
  "pg_ok B s i p \<longleftrightarrow> mp_idx p = of_nat i \<and> (mp_block_size p = 0 \<and> mp_free p = 0 \<or> pg_claimed B s i p)"

definition pg_live :: "(u64 \<rightharpoonup> u64) \<Rightarrow> u64 \<Rightarrow> nat \<Rightarrow> malloc_page \<Rightarrow> (u64 \<times> nat) set" where
  "pg_live B s i p = (if mp_block_size p = 0 then {}
     else {(x, b). b = unat (mp_block_size p) \<and> x \<in> set (pg_blocks s i b) - set (free_blocks B p)})"

definition segs_ok :: "'os malloc_state \<Rightarrow> bool" where
  "segs_ok st \<longleftrightarrow> (\<forall>s sg. ml_segs st s = Some sg \<longrightarrow> seg_aligned s \<and> sg_nr_pages sg = 32
     \<and> (\<forall>i < 32. \<exists>p. ml_pages st (pg_at s i) = Some p \<and> pg_ok (ml_blocks st) s i p))"

text \<open>The blocks that are in use, with their sizes.\<close>

definition live :: "'os malloc_state \<Rightarrow> (u64 \<times> nat) set" where
  "live st = {xb. \<exists>s i p. s \<in> dom (ml_segs st) \<and> i < 32 \<and> ml_pages st (pg_at s i) = Some p \<and> xb \<in> pg_live (ml_blocks st) s i p}"

lemma segs_okD:
  assumes "segs_ok st" and "s \<in> dom (ml_segs st)"
  shows "seg_aligned s" and "i < 32 \<Longrightarrow> \<exists>p. ml_pages st (pg_at s i) = Some p \<and> pg_ok (ml_blocks st) s i p"
  using assms by (auto simp: segs_ok_def)

lemma pg_live_in:
  assumes "seg_aligned s" and "i < 32" and "(x, b) \<in> pg_live B s i p"
  shows "0 < b" and "x \<in> set (pg_blocks s i b)" and "in_pg s i x" and "unat x + b \<le> unat s + 65536 * Suc i"
  using assms pg_blocks_in [OF assms(1,2), of b x] by (auto simp: pg_live_def unat_gt_0 split: if_splits)

lemma pg_ok_agree:
  assumes "seg_aligned s" and "i < 32" and "pg_ok B s i p" and "\<And>a. in_pg s i a \<Longrightarrow> B' a = B a"
  shows "pg_ok B' s i p" and "pg_live B' s i p = pg_live B s i p"
proof -
  have f: "blist B' (mp_free p) (free_blocks B p) \<and> free_blocks B' p = free_blocks B p" if c: "pg_claimed B s i p"
  proof -
    have ag: "B' y = B y" if "y \<in> set (free_blocks B p)" for y
      using c that pg_blocks_in(1) [OF assms(1,2), of "unat (mp_block_size p)" y] by (intro assms(4)) (auto simp: pg_claimed_def)
    have b: "blist B' (mp_free p) (free_blocks B p)" using c by (intro blist_agree [OF _ ag]) (simp_all add: pg_claimed_def)
    then have "chain (length (free_blocks B p)) B' (mp_free p) = free_blocks B p" by (rule blist_chain)
    then show ?thesis using b by (simp add: free_blocks_def)
  qed
  have c: "mp_block_size p = 0 \<and> mp_free p = 0 \<or> pg_claimed B s i p" using assms(3) by (simp add: pg_ok_def)
  then show "pg_live B' s i p = pg_live B s i p"
    using f by (elim disjE) (simp_all add: pg_live_def)
  have "pg_claimed B' s i p" if cl: "pg_claimed B s i p"
    using f [OF cl] cl unfolding pg_claimed_def by simp
  then show "pg_ok B' s i p" using c assms(3) by (auto simp: pg_ok_def)
qed

text \<open>One page descriptor and the blocks of its page change.\<close>

lemma page_update:
  assumes ok: "segs_ok st" and s: "s \<in> dom (ml_segs st)" "i < 32" and p: "ml_pages st (pg_at s i) = Some p"
    and segs: "ml_segs st' = ml_segs st" and pages: "ml_pages st' = (ml_pages st)(pg_at s i \<mapsto> p')"
    and blocks: "\<And>a. \<not> in_pg s i a \<Longrightarrow> ml_blocks st' a = ml_blocks st a" and p': "pg_ok (ml_blocks st') s i p'"
  shows "segs_ok st'" and "live st' = (live st - pg_live (ml_blocks st) s i p) \<union> pg_live (ml_blocks st') s i p'"
proof -
  have al: "seg_aligned r" if "r \<in> dom (ml_segs st)" for r using segs_okD(1) [OF ok that] .
  have other: "ml_pages st' (pg_at r j) = ml_pages st (pg_at r j)" if "r \<in> dom (ml_segs st)" "j < 32" "r \<noteq> s \<or> j \<noteq> i" for r j
    using pg_at_inj [OF al [OF that(1)] al [OF s(1)] that(2) s(2)] that(3) by (auto simp: pages)
  have ag: "pg_ok (ml_blocks st') r j q \<and> pg_live (ml_blocks st') r j q = pg_live (ml_blocks st) r j q"
    if "r \<in> dom (ml_segs st)" "j < 32" "r \<noteq> s \<or> j \<noteq> i" "ml_pages st (pg_at r j) = Some q" for r j q
  proof -
    have "pg_ok (ml_blocks st) r j q" using segs_okD(2) [OF ok that(1,2)] that(4) by auto
    moreover have "ml_blocks st' a = ml_blocks st a" if "in_pg r j a" for a
      using in_pg_unique [OF al [OF s(1)] al [OF \<open>r \<in> dom (ml_segs st)\<close>] s(2) \<open>j < 32\<close>, of "unat a"] that \<open>r \<noteq> s \<or> j \<noteq> i\<close>
      by (intro blocks) (auto simp: in_pg_def)
    ultimately show ?thesis using pg_ok_agree [OF al [OF that(1)] that(2)] by blast
  qed
  show "segs_ok st'"
    unfolding segs_ok_def segs
  proof (intro allI impI conjI)
    fix r sg and j :: nat assume r: "ml_segs st r = Some sg"
    show "seg_aligned r" "sg_nr_pages sg = 32" using ok r by (auto simp: segs_ok_def)
    assume j: "j < 32"
    have d: "r \<in> dom (ml_segs st)" using r by auto
    show "\<exists>q. ml_pages st' (pg_at r j) = Some q \<and> pg_ok (ml_blocks st') r j q"
    proof (cases "r = s \<and> j = i")
      case False
      then show ?thesis using segs_okD(2) [OF ok d j] other [OF d j] ag [OF d j] by auto
    qed (use p' pages in auto)
  qed
  have sep: "xb \<notin> pg_live (ml_blocks st) s i p" if "r \<in> dom (ml_segs st)" "j < 32" "r \<noteq> s \<or> j \<noteq> i" "xb \<in> pg_live (ml_blocks st) r j q" for r j q xb
    using in_pg_unique [OF al [OF s(1)] al [OF that(1)] s(2) that(2), of "unat (fst xb)"] that
      pg_live_in(3) [OF al [OF that(1)] that(2), of "fst xb" "snd xb"] pg_live_in(3) [OF al [OF s(1)] s(2), of "fst xb" "snd xb"]
    by (auto simp: in_pg_def)
  show "live st' = (live st - pg_live (ml_blocks st) s i p) \<union> pg_live (ml_blocks st') s i p'" (is "?L = ?R")
  proof (intro equalityI subsetI)
    fix xb assume "xb \<in> ?L"
    then obtain r j q where q: "r \<in> dom (ml_segs st)" "j < 32" "ml_pages st' (pg_at r j) = Some q" "xb \<in> pg_live (ml_blocks st') r j q"
      by (auto simp: live_def segs)
    show "xb \<in> ?R"
    proof (cases "r = s \<and> j = i")
      case True
      then show ?thesis using q pages by auto
    next
      case False
      then have "ml_pages st (pg_at r j) = Some q" using other q by auto
      then show ?thesis using ag [OF q(1,2)] sep [OF q(1,2)] False q by (auto simp: live_def)
    qed
  next
    fix xb assume "xb \<in> ?R"
    then consider "xb \<in> pg_live (ml_blocks st') s i p'" | "xb \<in> live st" "xb \<notin> pg_live (ml_blocks st) s i p" by auto
    then show "xb \<in> ?L"
    proof cases
      case 1
      then show ?thesis using s pages segs unfolding live_def by force
    next
      case 2
      then obtain r j q where q: "r \<in> dom (ml_segs st)" "j < 32" "ml_pages st (pg_at r j) = Some q" "xb \<in> pg_live (ml_blocks st) r j q"
        by (auto simp: live_def)
      then have ne: "r \<noteq> s \<or> j \<noteq> i" using 2 p by auto
      then show ?thesis using q other [OF q(1,2) ne] ag [OF q(1,2) ne q(3)] segs by (auto simp: live_def)
    qed
  qed
qed

text \<open>Live blocks do not overlap.\<close>

lemma blocks_disjoint:
  assumes ok: "segs_ok st" and "(x, b) \<in> live st" and "(y, c) \<in> live st" and "(x, b) \<noteq> (y, c)"
  shows "{unat x ..< unat x + b} \<inter> {unat y ..< unat y + c} = {}"
proof -
  obtain s i p where s: "s \<in> dom (ml_segs st)" "i < 32" "ml_pages st (pg_at s i) = Some p" "(x, b) \<in> pg_live (ml_blocks st) s i p"
    using assms(2) by (auto simp: live_def)
  obtain r j q where r: "r \<in> dom (ml_segs st)" "j < 32" "ml_pages st (pg_at r j) = Some q" "(y, c) \<in> pg_live (ml_blocks st) r j q"
    using assms(3) by (auto simp: live_def)
  note as = segs_okD(1) [OF ok s(1)] and ar = segs_okD(1) [OF ok r(1)]
  note ls = pg_live_in [OF as s(2,4)] and lr = pg_live_in [OF ar r(2,4)]
  show ?thesis
  proof (cases "s = r \<and> i = j")
    case True
    then have "b = c" using s(3,4) r(3,4) by (auto simp: pg_live_def split: if_splits)
    then show ?thesis using True ls lr assms(4) pg_blocks_disjoint [OF as s(2) ls(1,2), of y] by simp
  next
    case False
    have "False" if "a \<in> {unat x ..< unat x + b}" "a \<in> {unat y ..< unat y + c}" for a
      using in_pg_unique [OF as ar s(2) r(2), of a] ls(3,4) lr(3,4) that False unfolding in_pg_def by simp
    then show ?thesis by blast
  qed
qed

subsection \<open>Taking a block and giving it back\<close>

lemma live_here:
  assumes "segs_ok st" and "s \<in> dom (ml_segs st)" and "i < 32" and "ml_pages st (pg_at s i) = Some p"
  shows "(x, b) \<in> live st \<Longrightarrow> in_pg s i x \<Longrightarrow> (x, b) \<in> pg_live (ml_blocks st) s i p"
    and "(x, b) \<in> pg_live (ml_blocks st) s i p \<Longrightarrow> (x, b) \<in> live st"
proof -
  show "(x, b) \<in> pg_live (ml_blocks st) s i p" if "(x, b) \<in> live st" "in_pg s i x"
  proof -
    obtain r j q where r: "r \<in> dom (ml_segs st)" "j < 32" "ml_pages st (pg_at r j) = Some q" "(x, b) \<in> pg_live (ml_blocks st) r j q"
      using \<open>(x, b) \<in> live st\<close> by (auto simp: live_def)
    note al = segs_okD(1) [OF assms(1,2)] segs_okD(1) [OF assms(1) r(1)]
    have "s = r \<and> i = j"
      using in_pg_unique [OF al assms(3) r(2), of "unat x"] that(2) pg_live_in(3) [OF al(2) r(2,4)] by (simp add: in_pg_def)
    then show ?thesis using r(3,4) assms(4) by simp
  qed
  show "(x, b) \<in> live st" if "(x, b) \<in> pg_live (ml_blocks st) s i p"
    using assms(2-4) that unfolding live_def by blast
qed

lemma free_blocks_head:
  assumes "blist B (mp_free p) (free_blocks B p)" and "mp_free p \<noteq> 0" and "mp_used p \<le> mp_capacity p"
  obtains z ys where "B (mp_free p) = Some z" "free_blocks B p = mp_free p # ys" "blist B z ys"
    "free_blocks B (p\<lparr>mp_free := z, mp_used := mp_used p + 1\<rparr>) = ys" "mp_used p < mp_capacity p"
proof (cases "free_blocks B p")
  case Nil
  then show ?thesis using assms by simp
next
  case (Cons y ys)
  then obtain z where z: "y = mp_free p" "B (mp_free p) = Some z" "blist B z ys" using assms(1) by auto
  have "length (free_blocks B p) = unat (mp_capacity p - mp_used p)" by (simp add: free_blocks_def)
  then have l: "unat (mp_capacity p) - unat (mp_used p) = Suc (length ys)" using Cons assms(3) by (simp add: unat_sub)
  then have lt: "mp_used p < mp_capacity p" by (simp add: word_less_nat_alt)
  then have "unat (mp_used p + 1) = unat (mp_used p) + 1" 
    using unat_lt64 [of "mp_capacity p"] by (subst unat_add_no_wrap) (simp_all add: word_less_nat_alt)
  then have "unat (mp_capacity p - (mp_used p + 1)) = length ys"
    using l by (subst unat_sub) (simp_all add: word_le_nat_alt)
  then have "free_blocks B (p\<lparr>mp_free := z, mp_used := mp_used p + 1\<rparr>) = ys"
    using blist_chain [OF z(3)] by (simp add: free_blocks_def)
  then show ?thesis using that z Cons lt by simp
qed

lemma pop_ok:
  assumes ok: "segs_ok st" and s: "s \<in> dom (ml_segs st)" "i < 32" and p: "ml_pages st (pg_at s i) = Some p"
    and c: "pg_claimed (ml_blocks st) s i p" and f: "mp_free p \<noteq> 0" and idx: "mp_idx p = of_nat i"
  defines "b \<equiv> unat (mp_block_size p)"
  shows "\<exists>q. malloc_page_alloc_obj (pg_at s i) st = Some (mp_free p, put_mpage (pg_at s i) q st) \<and> mp_block_size q = mp_block_size p
      \<and> segs_ok (put_mpage (pg_at s i) q st) \<and> live (put_mpage (pg_at s i) q st) = insert (mp_free p, b) (live st)"
    and "(mp_free p, b) \<notin> live st" and "mp_free p \<in> set (pg_blocks s i b)"
proof -
  let ?B = "ml_blocks st" and ?x = "mp_free p"
  have C: "8 \<le> b" "unat (mp_capacity p) = pg_cap i b" "mp_used p \<le> mp_capacity p" "blist ?B ?x (free_blocks ?B p)"
    "distinct (free_blocks ?B p)" "set (free_blocks ?B p) \<subseteq> set (pg_blocks s i b)"
    using c by (simp_all add: pg_claimed_def b_def)
  obtain z ys where z: "?B ?x = Some z" "free_blocks ?B p = ?x # ys" "blist ?B z ys"
    "free_blocks ?B (p\<lparr>mp_free := z, mp_used := mp_used p + 1\<rparr>) = ys" "mp_used p < mp_capacity p"
    by (rule free_blocks_head [OF C(4) f C(3)])
  define q where "q = p\<lparr>mp_free := z, mp_used := mp_used p + 1\<rparr>"
  have nz: "mp_block_size p \<noteq> 0" using C(1) by (auto simp: b_def)
  show x: "?x \<in> set (pg_blocks s i b)" using C(6) z(2) by simp
  have pg: "in_pg s i ?x" using pg_blocks_in(1) [OF segs_okD(1) [OF ok s(1)] s(2) _ x] C(1) by simp
  show new: "(?x, b) \<notin> live st"
    using live_here(1) [OF ok s p _ pg, of b] z(2) by (auto simp: pg_live_def split: if_splits)
  have "pg_claimed ?B s i q"
    using c z C inc_le [OF z(5)] unfolding pg_claimed_def by (simp add: q_def b_def)
  then have q: "pg_ok ?B s i q" using idx by (simp add: pg_ok_def q_def)
  have "pg_live ?B s i q = insert (?x, b) (pg_live ?B s i p)"
    using z C nz x by (auto simp: pg_live_def q_def b_def)
  moreover have "pg_live ?B s i p \<subseteq> live st" using live_here(2) [OF ok s p] by auto
  moreover note page_update [OF ok s p, of "put_mpage (pg_at s i) q st" q]
  ultimately have "segs_ok (put_mpage (pg_at s i) q st)" "live (put_mpage (pg_at s i) q st) = insert (?x, b) (live st)"
    using q by (auto simp: put_mpage_def)
  then show "\<exists>q. malloc_page_alloc_obj (pg_at s i) st = Some (?x, put_mpage (pg_at s i) q st) \<and> mp_block_size q = mp_block_size p
      \<and> segs_ok (put_mpage (pg_at s i) q st) \<and> live (put_mpage (pg_at s i) q st) = insert (?x, b) (live st)"
    using p f z(1) by (intro exI [of _ q]) (simp add: malloc_page_alloc_obj_def malloc_block_to_obj_def q_def)
qed

text \<open>The page of an object is found from its address.\<close>

lemma obj_to_segment:
  assumes "seg_aligned s" and "unat x = unat s + d" and "d < 2097152"
  shows "malloc_obj_to_segment x = s"
proof -
  obtain k where k: "unat s = 2097152 * k" using assms(1) by (auto simp: seg_aligned_def elim: dvdE)
  have m: "unat (x mod MALLOC_SEGMENT_SIZE) = d" using assms(2,3) k by (simp add: malloc_consts unat_mod_distrib)
  have "x mod MALLOC_SEGMENT_SIZE \<le> x" using assms(2) by (simp add: word_le_nat_alt m)
  then show ?thesis unfolding malloc_obj_to_segment_def by (simp add: word_unat_eq_iff unat_sub m assms(2))
qed

lemma obj_to_page:
  assumes "seg_aligned s" and "i < 32" and "in_pg s i x"
  shows "malloc_obj_to_segment x = s" and "malloc_obj_to_page s x = pg_at s i"
proof -
  define d where "d = unat x - unat s"
  have d: "unat x = unat s + d" "65536 * i \<le> d" "d < 65536 * Suc i"
    using assms(3) by (auto simp: in_pg_def d_def pg_off_def split: if_splits)
  show "malloc_obj_to_segment x = s" using d(3) assms(2) by (intro obj_to_segment [OF assms(1) d(1)]) simp
  have "unat (x - s) = d" using d(1) by (simp add: unat_sub word_le_nat_alt)
  moreover have "d div 65536 = i" using d(2,3) by simp
  ultimately have "(x - s) div MALLOC_PAGE_SIZE = of_nat i"
    using assms(2) by (simp add: word_unat_eq_iff malloc_consts unat_div_distrib unat_of_nat64)
  then show "malloc_obj_to_page s x = pg_at s i" by (simp add: malloc_obj_to_page_def)
qed

lemma push_ok:
  assumes ok: "segs_ok st" and s: "s \<in> dom (ml_segs st)" "i < 32" and p: "ml_pages st (pg_at s i) = Some p"
    and x: "(x, b) \<in> pg_live (ml_blocks st) s i p"
  shows "\<exists>st' q. malloc_heap_free x st = Some st' \<and> segs_ok st' \<and> live st' = live st - {(x, b)}
    \<and> st' = put_mpage (pg_at s i) q (st\<lparr>ml_blocks := (ml_blocks st)(x \<mapsto> mp_free p)\<rparr>) \<and> mp_block_size q = mp_block_size p"
proof -
  let ?B = "ml_blocks st" and ?B' = "(ml_blocks st)(x \<mapsto> mp_free p)"
  note al = segs_okD(1) [OF ok s(1)]
  note xin = pg_live_in [OF al s(2) x]
  have b: "b = unat (mp_block_size p)" and nf: "x \<notin> set (free_blocks ?B p)" and nz: "mp_block_size p \<noteq> 0"
    using x by (auto simp: pg_live_def split: if_splits)
  have pok: "pg_ok ?B s i p" using segs_okD(2) [OF ok s] p by auto
  then have c: "pg_claimed ?B s i p" using nz by (auto simp: pg_ok_def)
  then have C: "unat (mp_capacity p) = pg_cap i b" "mp_used p \<le> mp_capacity p" "blist ?B (mp_free p) (free_blocks ?B p)"
    "distinct (free_blocks ?B p)" "set (free_blocks ?B p) \<subseteq> set (pg_blocks s i b)"
    by (simp_all add: pg_claimed_def b)
  have "set (free_blocks ?B p) \<subset> set (pg_blocks s i b)" using C(5) nf xin(2) by blast
  then have "card (set (free_blocks ?B p)) < card (set (pg_blocks s i b))" by (intro psubset_card_mono) simp_all
  then have "length (free_blocks ?B p) < pg_cap i b"
    using C(4) pg_blocks_distinct [OF al s(2) xin(1)] by (simp add: distinct_card) (simp add: pg_blocks_def)
  then have u: "0 < unat (mp_used p)" using C(1,2) by (simp add: free_blocks_def unat_sub)
  define q where "q = p\<lparr>mp_free := x, mp_used := mp_used p - 1\<rparr>"
  have "1 \<le> mp_used p" using u by (simp add: word_le_nat_alt)
  then have u1: "unat (mp_used p - 1) = unat (mp_used p) - 1" by (simp add: unat_sub)
  then have "unat (mp_capacity p - (mp_used p - 1)) = Suc (unat (mp_capacity p - mp_used p))"
    using C(2) u by (subst (1 2) unat_sub) (simp_all add: word_le_nat_alt)
  moreover have bl: "blist ?B' (mp_free p) (free_blocks ?B p)" using nf by (intro blist_agree [OF C(3)]) auto
  then have "chain (unat (mp_capacity p - mp_used p)) ?B' (mp_free p) = free_blocks ?B p"
    using blist_chain [OF bl] by (simp add: free_blocks_def)
  ultimately have fb: "free_blocks ?B' q = x # free_blocks ?B p" by (simp add: q_def free_blocks_def)
  have "unat (mp_used p - 1) \<le> unat (mp_capacity p)" using C(2) u1 unfolding word_le_nat_alt by linarith
  then have "mp_used p - 1 \<le> mp_capacity p" by (simp add: word_le_nat_alt)
  then have "pg_claimed ?B' s i q"
    using c C nf xin bl pg_blocks_in(2) [OF al s(2) xin(1,2)] unfolding pg_claimed_def fb
    by (simp add: q_def b)
  then have q: "pg_ok ?B' s i q" using pok by (simp add: pg_ok_def q_def)
  define st' where "st' = put_mpage (pg_at s i) q (st\<lparr>ml_blocks := ?B'\<rparr>)"
  have st': "ml_segs st' = ml_segs st" "ml_pages st' = (ml_pages st)(pg_at s i \<mapsto> q)" "ml_blocks st' = ?B'"
    by (simp_all add: st'_def put_mpage_def)
  have keep: "ml_blocks st' a = ml_blocks st a" if "\<not> in_pg s i a" for a
    using that xin(3) by (auto simp: st')
  have "pg_live ?B' s i q = pg_live ?B s i p - {(x, b)}"
    unfolding pg_live_def fb using nz by (auto simp: q_def b)
  then have "segs_ok st'" "live st' = live st - {(x, b)}"
    using page_update [OF ok s p st'(1,2) keep] q live_here(2) [OF ok s p] x by (auto simp: st'(3))
  moreover have "malloc_heap_free x st = Some st'"
    using p u obj_to_page [OF al s(2) xin(3)] pg_at_nonzero [OF al s(2)]
    by (simp add: malloc_heap_free_def malloc_page_append_obj_def malloc_obj_to_block_def st'_def put_mpage_def q_def word_less_nat_alt Let_def)
  ultimately show ?thesis using st'_def by (auto simp: q_def)
qed

subsection \<open>Claiming a page\<close>

definition bs_ok :: "u64 \<Rightarrow> bool" where
  "bs_ok bs \<longleftrightarrow> 8 dvd unat bs \<and> 8 \<le> unat bs \<and> unat bs \<le> 1024"

lemma claim_blocks_ok:
  assumes al: "seg_aligned s" "i < 32" and bs: "bs_ok bs"
  defines "b \<equiv> unat bs"
  shows "n \<le> pg_cap i b \<Longrightarrow> ml_pages st page = Some p \<Longrightarrow> blist (ml_blocks st) (mp_free p) (map (blk s i b) [n..<pg_cap i b]) \<Longrightarrow>
    \<exists>B f. malloc_claim_blocks n page (s + of_nat (pg_off i)) bs st = Some (put_mpage page (p\<lparr>mp_free := f\<rparr>) (st\<lparr>ml_blocks := B\<rparr>))
      \<and> blist B f (pg_blocks s i b) \<and> (\<forall>a. \<not> in_pg s i a \<longrightarrow> B a = ml_blocks st a)"
proof (induction n arbitrary: st p)
  case 0
  then show ?case
    by (intro exI [of _ "ml_blocks st"] exI [of _ "mp_free p"]) (simp add: put_mpage_def pg_blocks_def map_upd_triv)
next
  case (Suc n)
  have b: "0 < b" using bs by (simp add: b_def bs_ok_def)
  have n: "n < pg_cap i b" using Suc.prems(1) by simp
  define x where "x = blk s i b n"
  have x: "x \<in> set (pg_blocks s i b)" using n by (simp add: pg_blocks_def x_def)
  note xin = pg_blocks_in [OF al b x]
  have split: "pg_blocks s i b = map (blk s i b) [0..<n] @ x # map (blk s i b) [Suc n..<pg_cap i b]"
    unfolding pg_blocks_def x_def using n by (metis upt_add_eq_append le0 less_imp_le_nat le_add_diff_inverse map_append upt_conv_Cons list.simps(9) add.left_neutral)
  have nx: "x \<notin> set (map (blk s i b) [Suc n..<pg_cap i b])"
    using pg_blocks_distinct [OF al b] unfolding split by simp
  define st1 where "st1 = put_mpage page (p\<lparr>mp_free := x\<rparr>) (st\<lparr>ml_blocks := (ml_blocks st)(x \<mapsto> mp_free p)\<rparr>)"
  have "blist ((ml_blocks st)(x \<mapsto> mp_free p)) (mp_free p) (map (blk s i b) [Suc n..<pg_cap i b])"
    by (rule blist_agree [OF Suc.prems(3)]) (use nx in auto)
  then have "blist (ml_blocks st1) x (map (blk s i b) [n..<pg_cap i b])"
    using n xin(2) by (simp add: st1_def put_mpage_def upt_conv_Cons x_def)
  moreover have pages: "ml_pages st1 page = Some (p\<lparr>mp_free := x\<rparr>)" by (simp add: st1_def put_mpage_def)
  ultimately have IH: "\<exists>B f. malloc_claim_blocks n page (s + of_nat (pg_off i)) bs st1 = Some (put_mpage page (p\<lparr>mp_free := f\<rparr>) (st1\<lparr>ml_blocks := B\<rparr>))
      \<and> blist B f (pg_blocks s i b) \<and> (\<forall>a. \<not> in_pg s i a \<longrightarrow> B a = ml_blocks st1 a)"
    using Suc.IH [OF less_imp_le [OF n] pages] by simp
  have "s + of_nat (pg_off i) + of_nat n * bs = x" by (simp add: x_def blk_def b_def add.assoc)
  then have "malloc_claim_blocks (Suc n) page (s + of_nat (pg_off i)) bs st = malloc_claim_blocks n page (s + of_nat (pg_off i)) bs st1"
    using Suc.prems(2) by (simp add: malloc_page_append_obj_def malloc_obj_to_block_def st1_def Let_def)
  moreover have "put_mpage page q (st1\<lparr>ml_blocks := B\<rparr>) = put_mpage page q (st\<lparr>ml_blocks := B\<rparr>)" for q B
    by (simp add: st1_def put_mpage_def)
  moreover have "ml_blocks st1 a = ml_blocks st a" if "\<not> in_pg s i a" for a
    using that xin(1) by (auto simp: st1_def put_mpage_def)
  ultimately show ?case using IH by auto
qed

lemma claim_ok:
  assumes ok: "segs_ok st" and s: "ml_segs st s = Some sg" "i < 32" and p: "ml_pages st (pg_at s i) = Some p" "mp_block_size p = 0"
    and bs: "bs_ok bs"
  shows "\<exists>B q. malloc_segment_claim_page s (pg_at s i) bs st = Some (put_mpage (pg_at s i) q (st\<lparr>ml_blocks := B\<rparr>))
      \<and> segs_ok (put_mpage (pg_at s i) q (st\<lparr>ml_blocks := B\<rparr>)) \<and> live (put_mpage (pg_at s i) q (st\<lparr>ml_blocks := B\<rparr>)) = live st
      \<and> mp_block_size q = bs \<and> malloc_page_remaining q \<noteq> 0"
proof -
  let ?b = "unat bs"
  have d: "s \<in> dom (ml_segs st)" using s(1) by auto
  have al: "seg_aligned s" and nr: "sg_nr_pages sg = 32" using ok s(1) by (auto simp: segs_ok_def)
  have "pg_ok (ml_blocks st) s i p" using segs_okD(2) [OF ok d s(2)] p by auto
  then have idx: "mp_idx p = of_nat i" and f: "mp_free p = 0" using p(2) by (auto simp: pg_ok_def pg_claimed_def)
  have i: "of_nat i = (0 :: u8) \<longleftrightarrow> i = 0" "ucast (of_nat i :: u8) = (of_nat i :: u64)"
    using s(2) by (simp_all add: word_unat_eq_iff unat_of_nat unsigned_ucast_eq take_bit_eq_mod)
  define q0 where "q0 = p\<lparr>mp_block_size := bs, mp_used := 0, mp_capacity := of_nat (pg_cap i ?b)\<rparr>"
  define st0 where "st0 = put_mpage (pg_at s i) q0 st"
  have "pg_len i \<le> 65536" by (simp add: pg_len_def)
  then have cap_le: "pg_cap i ?b < 2 ^ 64" unfolding pg_cap_def by (rule le_less_trans [OF order_trans [OF div_le_dividend]]) simp
  have sz: "malloc_segment_page_size sg r = of_nat (pg_len i)" and obj: "malloc_segment_page_obj s sg r = s + of_nat (pg_off i)"
    if "mp_idx r = of_nat i" for r
    using that i nr by (simp_all add: malloc_segment_page_size_def malloc_segment_page_obj_def malloc_segment_metadata_size_def
      malloc_consts pg_len_def pg_off_def mult.commute)
  have len: "pg_len i < 2 ^ 64" by (simp add: pg_len_def)
  have "of_nat (pg_len i) div bs = (of_nat (pg_cap i ?b) :: u64)"
    using cap_le len by (simp add: word_unat_eq_iff unat_div_distrib unat_of_nat64 pg_cap_def)
  then have eq: "malloc_segment_claim_page s (pg_at s i) bs st = malloc_claim_blocks (pg_cap i ?b) (pg_at s i) (s + of_nat (pg_off i)) bs st0"
    using s p idx cap_le
    by (simp add: malloc_segment_claim_page_def Let_def q0_def st0_def sz obj unat_of_nat64)
  obtain B g where B: "malloc_claim_blocks (pg_cap i ?b) (pg_at s i) (s + of_nat (pg_off i)) bs st0
      = Some (put_mpage (pg_at s i) (q0\<lparr>mp_free := g\<rparr>) (st0\<lparr>ml_blocks := B\<rparr>))"
    "blist B g (pg_blocks s i ?b)" "\<forall>a. \<not> in_pg s i a \<longrightarrow> B a = ml_blocks st0 a"
    using claim_blocks_ok [OF al s(2) bs, of "pg_cap i ?b" st0 "pg_at s i" q0] f by (auto simp: st0_def put_mpage_def q0_def)
  define q where "q = q0\<lparr>mp_free := g\<rparr>"
  have st: "put_mpage (pg_at s i) q (st0\<lparr>ml_blocks := B\<rparr>) = put_mpage (pg_at s i) q (st\<lparr>ml_blocks := B\<rparr>)"
    by (simp add: st0_def put_mpage_def)
  have fb: "free_blocks B q = pg_blocks s i ?b"
    using blist_chain [OF B(2)] cap_le by (simp add: free_blocks_def q_def q0_def unat_of_nat64 pg_blocks_def)
  have b0: "0 < ?b" using bs by (simp add: bs_ok_def)
  have cl: "pg_claimed B s i q"
    using bs B(2) cap_le pg_blocks_distinct [OF al s(2) b0] unfolding pg_claimed_def fb
    by (simp add: q_def q0_def bs_ok_def unat_of_nat64)
  then have qok: "pg_ok B s i q" using idx by (simp add: pg_ok_def q_def q0_def)
  have "pg_live B s i q = {}" "pg_live (ml_blocks st) s i p = {}"
    using p(2) fb by (auto simp: pg_live_def q_def q0_def)
  moreover note page_update [OF ok d s(2) p(1), of "put_mpage (pg_at s i) q (st\<lparr>ml_blocks := B\<rparr>)" q]
  ultimately have "segs_ok (put_mpage (pg_at s i) q (st\<lparr>ml_blocks := B\<rparr>))" "live (put_mpage (pg_at s i) q (st\<lparr>ml_blocks := B\<rparr>)) = live st"
    using B(3) qok by (auto simp: put_mpage_def st0_def)
  moreover have "1 \<le> pg_cap i ?b" using bs by (simp add: pg_cap_def pg_len_def bs_ok_def Suc_le_eq div_greater_zero_iff)
  then have "malloc_page_remaining q \<noteq> 0" using cap_le by (simp add: malloc_page_remaining_def q_def q0_def word_unat_eq_iff unat_of_nat64)
  moreover have "mp_block_size q = bs" by (simp add: q_def q0_def)
  ultimately show ?thesis
    using eq B(1) [folded q_def] st by (intro exI [of _ B] exI [of _ q]) simp
qed

subsection \<open>Looking for a page\<close>

text \<open>What claiming pages and taking blocks keeps: a page that is claimed stays claimed for its size.\<close>

definition grows :: "'os malloc_state \<Rightarrow> 'os malloc_state \<Rightarrow> bool" where
  "grows st st' \<longleftrightarrow> ml_segs st' = ml_segs st \<and> malloc_default_heap st' = malloc_default_heap st \<and> ml_os st' = ml_os st
     \<and> empty_page_addr st' = empty_page_addr st \<and> ml_pages st' (empty_page_addr st) = ml_pages st (empty_page_addr st)
     \<and> (\<forall>a p. ml_pages st a = Some p \<and> mp_block_size p \<noteq> 0 \<longrightarrow> (\<exists>q. ml_pages st' a = Some q \<and> mp_block_size q = mp_block_size p))"

lemma grows_refl [simp]: "grows st st"
  by (simp add: grows_def)

lemma grows_trans: "grows st1 st2 \<Longrightarrow> grows st2 st3 \<Longrightarrow> grows st1 st3"
  unfolding grows_def by (metis (no_types, lifting))

lemma grows_put:
  assumes "ml_pages st a = Some p" and "mp_block_size p \<noteq> 0 \<Longrightarrow> mp_block_size q = mp_block_size p" and "a \<noteq> empty_page_addr st"
  shows "grows st (put_mpage a q (st\<lparr>ml_blocks := B\<rparr>))"
  using assms by (auto simp: grows_def put_mpage_def)

definition no_page :: "'os malloc_state \<Rightarrow> u64 \<Rightarrow> bool" where
  "no_page st a \<longleftrightarrow> (\<forall>s i. s \<in> dom (ml_segs st) \<and> i < 32 \<longrightarrow> pg_at s i \<noteq> a)"

lemma find_page_ok:
  fixes st :: "'os malloc_state"
  assumes "segs_ok st" and "ml_segs st s = Some sg" and "bs_ok bs" and "no_page st (empty_page_addr st)" and "i + n = 32"
  shows "\<exists>pa st'. malloc_find_page n s (of_nat i) bs st = Some (pa, st') \<and> segs_ok st' \<and> live st' = live st \<and> grows st st'
    \<and> (pa \<noteq> 0 \<longrightarrow> (\<exists>j p. j < 32 \<and> pa = pg_at s j \<and> ml_pages st' pa = Some p \<and> mp_block_size p = bs \<and> malloc_page_remaining p \<noteq> 0))
    \<and> (i < 32 \<and> (\<exists>p. ml_pages st (pg_at s i) = Some p \<and> mp_block_size p = 0) \<longrightarrow> pa \<noteq> 0)"
  using assms
proof (induction n arbitrary: i st)
  case 0
  then show ?case by simp
next
  case (Suc n)
  have d: "s \<in> dom (ml_segs st)" and i: "i < 32" using Suc.prems by auto
  have al: "seg_aligned s" using segs_okD(1) [OF Suc.prems(1) d] .
  obtain p where p: "ml_pages st (pg_at s i) = Some p" "pg_ok (ml_blocks st) s i p" using segs_okD(2) [OF Suc.prems(1) d i] by blast
  have E: "pg_at s i \<noteq> empty_page_addr st" using Suc.prems(4) d i by (simp add: no_page_def)
  have nz: "pg_at s i \<noteq> 0" using pg_at_nonzero [OF al i] .
  have nxt: "of_nat i + 1 = (of_nat (Suc i) :: u64)" by simp
  consider "mp_block_size p = 0" | "mp_block_size p = bs" "bs \<noteq> 0" "malloc_page_remaining p \<noteq> 0"
    | "mp_block_size p \<noteq> 0" "mp_block_size p \<noteq> bs \<or> malloc_page_remaining p = 0" by auto
  then show ?case
  proof cases
    case 1
    obtain B q where c: "malloc_segment_claim_page s (pg_at s i) bs st = Some (put_mpage (pg_at s i) q (st\<lparr>ml_blocks := B\<rparr>))"
      "segs_ok (put_mpage (pg_at s i) q (st\<lparr>ml_blocks := B\<rparr>))" "live (put_mpage (pg_at s i) q (st\<lparr>ml_blocks := B\<rparr>)) = live st"
      "mp_block_size q = bs" "malloc_page_remaining q \<noteq> 0"
      using claim_ok [OF Suc.prems(1,2) i p(1) 1 Suc.prems(3)] by blast
    have "malloc_find_page (Suc n) s (of_nat i) bs st = Some (pg_at s i, put_mpage (pg_at s i) q (st\<lparr>ml_blocks := B\<rparr>))"
      using p(1) 1 c(1,5) by (simp add: Let_def) (simp add: put_mpage_def)
    moreover have "grows st (put_mpage (pg_at s i) q (st\<lparr>ml_blocks := B\<rparr>))" using 1 E by (intro grows_put [OF p(1)]) simp_all
    moreover have "ml_pages (put_mpage (pg_at s i) q (st\<lparr>ml_blocks := B\<rparr>)) (pg_at s i) = Some q" by (simp add: put_mpage_def)
    ultimately show ?thesis using c nz i by blast
  next
    case 2
    have "malloc_find_page (Suc n) s (of_nat i) bs st = Some (pg_at s i, st)" using p(1) 2 by (simp add: Let_def)
    then show ?thesis using Suc.prems(1) 2 p(1) nz i by auto
  next
    case 3
    have "malloc_find_page (Suc n) s (of_nat i) bs st = malloc_find_page n s (of_nat (Suc i)) bs st"
      using p(1) 3 by (auto simp: Let_def nxt)
    moreover have "Suc i + n = 32" using Suc.prems(5) by simp
    then obtain pa and st' :: "'os malloc_state" where "malloc_find_page n s (of_nat (Suc i)) bs st = Some (pa, st')"
      "segs_ok st'" "live st' = live st" "grows st st'"
      "pa \<noteq> 0 \<longrightarrow> (\<exists>j p. j < 32 \<and> pa = pg_at s j \<and> ml_pages st' pa = Some p \<and> mp_block_size p = bs \<and> malloc_page_remaining p \<noteq> 0)"
      using Suc.IH [OF Suc.prems(1-4)] by blast
    ultimately show ?thesis using 3(1) p(1) by auto
  qed
qed

subsection \<open>The queue of segments\<close>

fun dll :: "(u64 \<rightharpoonup> malloc_segment) \<Rightarrow> u64 \<Rightarrow> u64 list \<Rightarrow> bool" where
  "dll S prv [] \<longleftrightarrow> True"
| "dll S prv (x # xs) \<longleftrightarrow> (\<exists>sg. S x = Some sg \<and> sg_prev sg = prv \<and> sg_next sg = (if xs = [] then 0 else hd xs)) \<and> dll S x xs"

definition queue_ok :: "'os malloc_state \<Rightarrow> u64 list \<Rightarrow> bool" where
  "queue_ok st qs \<longleftrightarrow> q_head (segment_queue (malloc_default_heap st)) = (if qs = [] then 0 else hd qs)
     \<and> q_tail (segment_queue (malloc_default_heap st)) = (if qs = [] then 0 else last qs)
     \<and> distinct qs \<and> 0 \<notin> set qs \<and> dll (ml_segs st) 0 qs"

definition requeued :: "'os malloc_state \<Rightarrow> 'os malloc_state \<Rightarrow> bool" where
  "requeued st st' \<longleftrightarrow> ml_pages st' = ml_pages st \<and> ml_blocks st' = ml_blocks st \<and> ml_os st' = ml_os st
     \<and> empty_page_addr st' = empty_page_addr st \<and> hp_pages (malloc_default_heap st') = hp_pages (malloc_default_heap st)
     \<and> (\<forall>s. map_option sg_nr_pages (ml_segs st' s) = map_option sg_nr_pages (ml_segs st s))"

lemma requeued_dom: "requeued st st' \<Longrightarrow> dom (ml_segs st') = dom (ml_segs st)"
  unfolding requeued_def dom_def by (metis (no_types, lifting) map_option_is_None)

lemma requeued_ok:
  assumes "requeued st st'" and "segs_ok st"
  shows "segs_ok st'" and "live st' = live st"
proof -
  have r: "ml_pages st' = ml_pages st" "ml_blocks st' = ml_blocks st" using assms(1) by (simp_all add: requeued_def)
  show "live st' = live st" by (simp add: live_def r requeued_dom [OF assms(1)])
  show "segs_ok st'"
    unfolding segs_ok_def r
  proof (intro allI impI)
    fix s sg assume s: "ml_segs st' s = Some sg"
    then have "map_option sg_nr_pages (ml_segs st s) = Some (sg_nr_pages sg)"
      using assms(1) unfolding requeued_def by (metis option.simps(9))
    then obtain sg' where "ml_segs st s = Some sg'" "sg_nr_pages sg' = sg_nr_pages sg" by auto
    then show "seg_aligned s \<and> sg_nr_pages sg = 32 \<and> (\<forall>i<32. \<exists>p. ml_pages st (pg_at s i) = Some p \<and> pg_ok (ml_blocks st) s i p)"
      using assms(2) unfolding segs_ok_def by metis
  qed
qed

lemma dll_agree: "dll S prv xs \<Longrightarrow> (\<And>x. x \<in> set xs \<Longrightarrow> S' x = S x) \<Longrightarrow> dll S' prv xs"
  by (induction xs arbitrary: prv) auto

lemma pop_queue_ok:
  assumes "queue_ok st (x # qs)"
  shows "\<exists>st'. malloc_segment_queue_pop st = Some st' \<and> queue_ok st' qs \<and> requeued st st'"
proof -
  let ?q = "segment_queue (malloc_default_heap st)"
  have Q: "q_head ?q = x" "q_tail ?q = last (x # qs)" "distinct (x # qs)" "x \<noteq> 0" "0 \<notin> set qs" "dll (ml_segs st) x qs"
    using assms by (auto simp: queue_ok_def)
  obtain sg where sg: "ml_segs st x = Some sg" "sg_prev sg = 0" "sg_next sg = (if qs = [] then 0 else hd qs)"
    using assms by (auto simp: queue_ok_def)
  show ?thesis
  proof (cases qs)
    case Nil
    have "malloc_segment_queue_pop st = Some (put_queue \<lparr>q_head = 0, q_tail = 0\<rparr> st)"
      using Q sg Nil by (simp add: malloc_segment_queue_pop_def malloc_segment_queue_remove_def put_queue_def Let_def)
    then show ?thesis using Nil by (auto simp: queue_ok_def requeued_def put_queue_def)
  next
    case (Cons y ys)
    obtain sy where sy: "ml_segs st y = Some sy" "sg_prev sy = x" "sg_next sy = (if ys = [] then 0 else hd ys)" "dll (ml_segs st) y ys"
      using Q(6) Cons by auto
    have ne: "y \<noteq> x" "y \<noteq> 0" "last qs \<noteq> x" using Q Cons last_in_set [of qs] by auto
    define st' where "st' = put_seg x (sg\<lparr>sg_next := 0\<rparr>) (put_seg y (sy\<lparr>sg_prev := 0\<rparr>) (put_queue (?q\<lparr>q_head := y\<rparr>) st))"
    have "malloc_segment_queue_pop st = Some st'"
      using Q sg sy ne Cons by (simp add: malloc_segment_queue_pop_def malloc_segment_queue_remove_def put_queue_def put_seg_def Let_def st'_def)
    moreover have "dll (ml_segs st') y ys"
      by (rule dll_agree [OF sy(4)]) (use Q(3) Cons in \<open>auto simp: st'_def put_seg_def put_queue_def\<close>)
    then have "queue_ok st' qs"
      using Q ne sy Cons by (auto simp: queue_ok_def st'_def put_seg_def put_queue_def)
    moreover have "requeued st st'"
      using sg(1) sy(1) by (auto simp: requeued_def st'_def put_seg_def put_queue_def)
    ultimately show ?thesis by blast
  qed
qed

lemma enqueue_ok:
  assumes "queue_ok st []" and "ml_segs st s = Some \<lparr>sg_prev = 0, sg_next = 0, sg_nr_pages = n\<rparr>" and "s \<noteq> 0"
  shows "\<exists>st'. malloc_segment_queue_enqueue s st = Some st' \<and> queue_ok st' [s] \<and> requeued st st'"
  using assms by (auto simp: queue_ok_def malloc_segment_queue_enqueue_def put_seg_def put_queue_def requeued_def Let_def)

subsection \<open>A new segment\<close>

text \<open>What \<open>malloc\<close> relies on. \<open>os_laws\<close> is what the system call promises: an aligned region that was not handed out before,
  or an error; \<open>regions\<close> are the segment-sized regions that are in use. \<open>os_zeroes\<close> is what \<open>malloc_segment_init\<close> takes for granted
  beyond that, that the memory of a new region is zero, which the manual page of \<^verbatim>\<open>vmspace_alloc\<close> does not say and
  \<^verbatim>\<open>kernel/vm.rs\<close> does not see to.\<close>

definition os_laws :: "'os vmspace_call \<Rightarrow> ('os \<Rightarrow> u64 set) \<Rightarrow> bool" where
  "os_laws V regions \<longleftrightarrow> (\<forall>os err start content os'. V MALLOC_SEGMENT_SIZE MALLOC_SEGMENT_SIZE os = (err, start, content, os') \<longrightarrow>
     (if err = 0 then seg_aligned start \<and> start \<notin> regions os \<and> regions os' = insert start (regions os)
      else regions os' = regions os))"

definition os_zeroes :: "'os vmspace_call \<Rightarrow> bool" where
  "os_zeroes V \<longleftrightarrow> (\<forall>os start content os'. V MALLOC_SEGMENT_SIZE MALLOC_SEGMENT_SIZE os = (0, start, content, os') \<longrightarrow>
     (\<forall>i. content i = empty_page))"

definition os_ok :: "'os vmspace_call \<Rightarrow> ('os \<Rightarrow> u64 set) \<Rightarrow> bool" where
  "os_ok V regions \<longleftrightarrow> os_laws V regions \<and> os_zeroes V"

definition hp_ok :: "'os malloc_state \<Rightarrow> bool" where
  "hp_ok st \<longleftrightarrow> length (hp_pages (malloc_default_heap st)) = 128
     \<and> (\<forall>c < 128. hp_pages (malloc_default_heap st) ! c = empty_page_addr st
       \<or> (\<exists>s i p. s \<in> dom (ml_segs st) \<and> i < 32 \<and> hp_pages (malloc_default_heap st) ! c = pg_at s i
            \<and> ml_pages st (pg_at s i) = Some p \<and> mp_block_size p \<noteq> 0 \<and> unat (mp_block_size p) = 8 * c))"

lemma hp_ok_mono:
  assumes ok: "hp_ok st" and "hp_pages (malloc_default_heap st') = hp_pages (malloc_default_heap st)" and "empty_page_addr st' = empty_page_addr st"
    and doms: "dom (ml_segs st) \<subseteq> dom (ml_segs st')"
    and pages: "\<And>s i p. s \<in> dom (ml_segs st) \<Longrightarrow> i < 32 \<Longrightarrow> ml_pages st (pg_at s i) = Some p \<Longrightarrow> mp_block_size p \<noteq> 0 \<Longrightarrow>
      \<exists>q. ml_pages st' (pg_at s i) = Some q \<and> mp_block_size q = mp_block_size p"
  shows "hp_ok st'"
  unfolding hp_ok_def assms(2,3)
proof (intro conjI allI impI)
  show "length (hp_pages (malloc_default_heap st)) = 128" using ok by (simp add: hp_ok_def)
  fix c :: nat assume "c < 128"
  then consider "hp_pages (malloc_default_heap st) ! c = empty_page_addr st"
    | s i p where "s \<in> dom (ml_segs st)" "i < 32" "hp_pages (malloc_default_heap st) ! c = pg_at s i"
        "ml_pages st (pg_at s i) = Some p" "mp_block_size p \<noteq> 0" "unat (mp_block_size p) = 8 * c"
    using ok unfolding hp_ok_def by blast
  then show "hp_pages (malloc_default_heap st) ! c = empty_page_addr st
      \<or> (\<exists>s i p. s \<in> dom (ml_segs st') \<and> i < 32 \<and> hp_pages (malloc_default_heap st) ! c = pg_at s i
          \<and> ml_pages st' (pg_at s i) = Some p \<and> mp_block_size p \<noteq> 0 \<and> unat (mp_block_size p) = 8 * c)"
  proof cases
    case (2 s i p)
    then obtain q where "ml_pages st' (pg_at s i) = Some q" "mp_block_size q = mp_block_size p" using pages by blast
    then show ?thesis using 2 doms by (intro disjI2 exI [of _ s] exI [of _ i] exI [of _ q]) auto
  qed simp
qed

definition base_inv :: "('os \<Rightarrow> u64 set) \<Rightarrow> 'os malloc_state \<Rightarrow> bool" where
  "base_inv regions st \<longleftrightarrow> segs_ok st \<and> dom (ml_segs st) \<subseteq> regions (ml_os st) \<and> hp_ok st
     \<and> malloc_obj_to_segment (empty_page_addr st) \<in> regions (ml_os st) - dom (ml_segs st)
     \<and> (\<exists>p. ml_pages st (empty_page_addr st) = Some p \<and> mp_free p = 0)"

lemma base_inv_no_page: "base_inv regions st \<Longrightarrow> no_page st (empty_page_addr st)"
proof -
  assume inv: "base_inv regions st"
  have "malloc_obj_to_segment (pg_at s i) = s" if "s \<in> dom (ml_segs st)" "i < 32" for s i
  proof -
    have al: "seg_aligned s" using inv that(1) by (auto simp: base_inv_def intro: segs_okD(1))
    show ?thesis using that(2) by (intro obj_to_segment [OF al unat_pg_at [OF al that(2)]]) simp
  qed
  then show ?thesis using inv unfolding no_page_def base_inv_def by force
qed

lemma fresh_pages_eq:
  assumes "\<And>i. content i = empty_page"
  shows "fresh_pages n start content st = st\<lparr>ml_pages := (\<lambda>a. if \<exists>i < n. a = pg_at start i then Some empty_page else ml_pages st a)\<rparr>"
proof (induction n)
  case 0
  then show ?case by simp
next
  case (Suc n)
  have "(\<lambda>a. if \<exists>i < n. a = pg_at start i then Some empty_page else ml_pages st a)(pg_at start n \<mapsto> empty_page)
    = (\<lambda>a. if \<exists>i < Suc n. a = pg_at start i then Some empty_page else ml_pages st a)"
    by (auto simp: fun_eq_iff less_Suc_eq)
  then show ?case by (simp add: Suc.IH assms [of n] put_mpage_def)
qed

lemma init_pages_ok:
  fixes st :: "'os malloc_state"
  assumes "seg_aligned s" and "k + n \<le> 32" and "\<And>i. k \<le> i \<Longrightarrow> i < k + n \<Longrightarrow> ml_pages st (pg_at s i) = Some empty_page"
  shows "\<exists>P. malloc_segment_init_pages n s (of_nat k) st = Some (st\<lparr>ml_pages := P\<rparr>)
    \<and> (\<forall>i. k \<le> i \<and> i < k + n \<longrightarrow> P (pg_at s i) = Some (empty_page\<lparr>mp_idx := of_nat i\<rparr>))
    \<and> (\<forall>a. (\<forall>i. k \<le> i \<and> i < k + n \<longrightarrow> a \<noteq> pg_at s i) \<longrightarrow> P a = ml_pages st a)"
  using assms(2,3)
proof (induction n arbitrary: k st)
  case 0
  then show ?case by (intro exI [of _ "ml_pages st"]) auto
next
  case (Suc n)
  have k: "k < 32" and nxt: "of_nat k + 1 = (of_nat (Suc k) :: u64)" using Suc.prems(1) by simp_all
  have idx: "ucast (of_nat k :: u64) = (of_nat k :: u8)" using k by (simp add: word_unat_eq_iff unat_of_nat unsigned_ucast_eq take_bit_eq_mod)
  define st1 where "st1 = put_mpage (pg_at s k) (empty_page\<lparr>mp_idx := of_nat k\<rparr>) st"
  have "ml_pages st1 (pg_at s i) = Some empty_page" if "Suc k \<le> i" "i < Suc k + n" for i
    using pg_at_inj [OF assms(1,1), of i k] that Suc.prems k by (auto simp: st1_def put_mpage_def)
  moreover have "Suc k + n \<le> 32" using Suc.prems(1) by simp
  ultimately obtain P where P: "malloc_segment_init_pages n s (of_nat (Suc k)) st1 = Some (st1\<lparr>ml_pages := P\<rparr>)"
    "\<forall>i. Suc k \<le> i \<and> i < Suc k + n \<longrightarrow> P (pg_at s i) = Some (empty_page\<lparr>mp_idx := of_nat i\<rparr>)"
    "\<forall>a. (\<forall>i. Suc k \<le> i \<and> i < Suc k + n \<longrightarrow> a \<noteq> pg_at s i) \<longrightarrow> P a = ml_pages st1 a"
    using Suc.IH [of "Suc k" st1] by blast
  have "malloc_segment_init_pages (Suc n) s (of_nat k) st = Some (st\<lparr>ml_pages := P\<rparr>)"
    using P(1) Suc.prems(2) [of k] by (simp add: nxt idx st1_def put_mpage_def Let_def)
  moreover have pk: "P (pg_at s k) = Some (empty_page\<lparr>mp_idx := of_nat k\<rparr>)"
  proof -
    have "pg_at s k \<noteq> pg_at s i" if "Suc k \<le> i \<and> i < Suc k + n" for i
      using pg_at_inj [OF assms(1,1) k, of i] that Suc.prems(1) by auto
    then have "P (pg_at s k) = ml_pages st1 (pg_at s k)" using P(3) by blast
    then show ?thesis by (simp add: st1_def put_mpage_def)
  qed
  moreover have "P a = ml_pages st a" if a: "\<forall>i. k \<le> i \<and> i < k + Suc n \<longrightarrow> a \<noteq> pg_at s i" for a
  proof -
    have "P a = ml_pages st1 a" using P(3) a by simp
    then show ?thesis using a by (auto simp: st1_def put_mpage_def)
  qed
  moreover have "P (pg_at s i) = Some (empty_page\<lparr>mp_idx := of_nat i\<rparr>)" if "k \<le> i" "i < k + Suc n" for i
    using that pk P(2) by (cases "i = k") simp_all
  ultimately show ?case by blast
qed

lemma new_segment_ok:
  fixes st :: "'os malloc_state"
  assumes laws: "os_ok V regions" and inv: "base_inv regions st"
    and V: "V MALLOC_SEGMENT_SIZE MALLOC_SEGMENT_SIZE (ml_os st) = (0, start, content, os')"
  shows "\<exists>st1. malloc_heap_alloc_segment V st = Some (start, st1) \<and> base_inv regions st1 \<and> live st1 = live st
    \<and> ml_segs st1 start = Some \<lparr>sg_prev = 0, sg_next = 0, sg_nr_pages = 32\<rparr> \<and> start \<noteq> 0
    \<and> malloc_default_heap st1 = malloc_default_heap st \<and> empty_page_addr st1 = empty_page_addr st
    \<and> (\<exists>p. ml_pages st1 (pg_at start 0) = Some p \<and> mp_block_size p = 0)"
proof -
  have L: "seg_aligned start" "start \<notin> regions (ml_os st)" "regions os' = insert start (regions (ml_os st))" "content i = empty_page" for i
    using laws V unfolding os_ok_def os_laws_def os_zeroes_def by fastforce+
  have I: "segs_ok st" "dom (ml_segs st) \<subseteq> regions (ml_os st)" "hp_ok st"
    "malloc_obj_to_segment (empty_page_addr st) \<in> regions (ml_os st) - dom (ml_segs st)"
    "\<exists>p. ml_pages st (empty_page_addr st) = Some p \<and> mp_free p = 0" using inv by (auto simp: base_inv_def)
  have nz: "start \<noteq> 0" and al: "start mod MALLOC_SEGMENT_SIZE = 0"
    using L(1) by (auto simp: seg_aligned_def malloc_consts word_unat_eq_iff unat_mod_distrib)
  define st0 where "st0 = put_seg start \<lparr>sg_prev = 0, sg_next = 0, sg_nr_pages = 32\<rparr> (fresh_pages 32 start content (st\<lparr>ml_os := os'\<rparr>))"
  have pages0: "ml_pages st0 = (\<lambda>a. if \<exists>i < 32. a = pg_at start i then Some empty_page else ml_pages st a)"
    unfolding st0_def fresh_pages_eq [OF L(4)] by (auto simp: put_seg_def fun_eq_iff)
  have "ml_pages st0 (pg_at start i) = Some empty_page" if "i < 0 + 32" for i using that by (auto simp: pages0)
  then obtain P where P1: "malloc_segment_init_pages 32 start (of_nat 0) st0 = Some (st0\<lparr>ml_pages := P\<rparr>)"
    and P2: "\<forall>i. 0 \<le> i \<and> i < 0 + 32 \<longrightarrow> P (pg_at start i) = Some (empty_page\<lparr>mp_idx := of_nat i\<rparr>)"
    and P3: "\<forall>a. (\<forall>i. 0 \<le> i \<and> i < 0 + 32 \<longrightarrow> a \<noteq> pg_at start i) \<longrightarrow> P a = ml_pages st0 a"
    using init_pages_ok [OF L(1), of 0 32 st0] by auto
  have P: "malloc_segment_init_pages 32 start (of_nat 0) st0 = Some (st0\<lparr>ml_pages := P\<rparr>)"
    "\<And>i. i < 32 \<Longrightarrow> P (pg_at start i) = Some (empty_page\<lparr>mp_idx := of_nat i\<rparr>)"
    "\<And>a. (\<And>i. i < 32 \<Longrightarrow> a \<noteq> pg_at start i) \<Longrightarrow> P a = ml_pages st0 a"
    using P1 P2 P3 by simp_all
  define st1 where "st1 = st0\<lparr>ml_pages := P\<rparr>"
  have f: "ml_segs st1 = (ml_segs st)(start \<mapsto> \<lparr>sg_prev = 0, sg_next = 0, sg_nr_pages = 32\<rparr>)" "ml_pages st1 = P" "ml_blocks st1 = ml_blocks st"
    "malloc_default_heap st1 = malloc_default_heap st" "empty_page_addr st1 = empty_page_addr st" "ml_os st1 = os'"
    by (simp_all add: st1_def st0_def fresh_pages_eq [OF L(4)] put_seg_def)
  have doms: "dom (ml_segs st) \<subseteq> dom (ml_segs st1)" by (auto simp: f(1))
  have "malloc_heap_alloc_segment V st = Some (start, st1)"
    using V nz al P(1) by (simp add: malloc_heap_alloc_segment_def malloc_os_alloc_def malloc_segment_init_def malloc_consts st0_def st1_def)
  moreover have old: "P (pg_at s i) = ml_pages st (pg_at s i)" if "s \<in> dom (ml_segs st)" "i < 32" for s i
  proof -
    have "pg_at s i \<noteq> pg_at start j" if "j < 32" for j
      using pg_at_inj [OF segs_okD(1) [OF I(1) \<open>s \<in> dom (ml_segs st)\<close>] L(1) \<open>i < 32\<close> that] L(2) I(2) \<open>s \<in> dom (ml_segs st)\<close> by auto
    then show ?thesis using P(3) [of "pg_at s i"] by (auto simp: pages0)
  qed
  have E: "P (empty_page_addr st) = ml_pages st (empty_page_addr st)"
  proof -
    have "empty_page_addr st \<noteq> pg_at start j" if "j < 32" for j
      using obj_to_segment [OF L(1) unat_pg_at [OF L(1) that]] that L(2) I(4) by auto
    then show ?thesis using P(3) [of "empty_page_addr st"] by (auto simp: pages0)
  qed
  have new: "pg_ok (ml_blocks st) start i (empty_page\<lparr>mp_idx := of_nat i\<rparr>)" "pg_live (ml_blocks st) start i (empty_page\<lparr>mp_idx := of_nat i\<rparr>) = {}" for i
    by (simp_all add: pg_ok_def pg_live_def empty_page_def)
  have "segs_ok st1"
    unfolding segs_ok_def f(3)
  proof (intro allI impI)
    fix s sg assume s: "ml_segs st1 s = Some sg"
    show "seg_aligned s \<and> sg_nr_pages sg = 32 \<and> (\<forall>i<32. \<exists>p. ml_pages st1 (pg_at s i) = Some p \<and> pg_ok (ml_blocks st) s i p)"
    proof (cases "s = start")
      case True
      then show ?thesis using s f L(1) P(2) new by auto
    next
      case False
      then have sg: "ml_segs st s = Some sg" using s f by simp
      then show ?thesis using I(1) old [of s] f(2) unfolding segs_ok_def by (metis domI)
    qed
  qed
  moreover have "live st1 = live st"
  proof (intro set_eqI iffI)
    fix xb assume "xb \<in> live st1"
    then obtain s i q where q: "s \<in> dom (ml_segs st1)" "i < 32" "P (pg_at s i) = Some q" "xb \<in> pg_live (ml_blocks st) s i q"
      by (auto simp: live_def f(2,3))
    have "s \<noteq> start" using P(2) q new(2) by auto
    then have "s \<in> dom (ml_segs st)" using q(1) by (auto simp: f(1))
    then show "xb \<in> live st" using old q unfolding live_def by force
  next
    fix xb assume "xb \<in> live st"
    then obtain s i q where q: "s \<in> dom (ml_segs st)" "i < 32" "ml_pages st (pg_at s i) = Some q" "xb \<in> pg_live (ml_blocks st) s i q"
      by (auto simp: live_def)
    then have "s \<in> dom (ml_segs st1)" "P (pg_at s i) = Some q" using old [OF q(1,2)] doms by auto
    then show "xb \<in> live st1" using q(2,4) unfolding live_def f(2,3) by blast
  qed
  moreover have "hp_ok st1"
    by (rule hp_ok_mono [OF I(3) _ _ doms]) (use old f in auto)
  moreover have "base_inv regions st1"
    using calculation I E L f unfolding base_inv_def by auto
  ultimately show ?thesis using f P(2) [of 0] nz by (auto simp: empty_page_def)
qed

lemma base_inv_grows:
  assumes "base_inv regions st" and "grows st st'" and "segs_ok st'"
  shows "base_inv regions st'"
proof -
  have "hp_ok st'"
    by (rule hp_ok_mono [of st]) (use assms in \<open>auto simp: base_inv_def grows_def\<close>)
  then show ?thesis using assms by (simp add: base_inv_def grows_def)
qed

lemma base_inv_requeued:
  assumes "base_inv regions st" and "requeued st st'"
  shows "base_inv regions st'"
proof -
  have "hp_ok st'"
    by (rule hp_ok_mono [of st]) (use assms requeued_dom [OF assms(2)] in \<open>auto simp: base_inv_def requeued_def\<close>)
  moreover have "segs_ok st'" using requeued_ok(1) [OF assms(2)] assms(1) by (simp add: base_inv_def)
  ultimately show ?thesis using assms requeued_dom [OF assms(2)] by (simp add: base_inv_def requeued_def)
qed

subsection \<open>Allocation\<close>

text \<open>The result of the search for a page: a page of the right size with a free block, or nothing when the
  operating system has no memory.\<close>

definition page_found :: "('os \<Rightarrow> u64 set) \<Rightarrow> 'os malloc_state \<Rightarrow> u64 \<Rightarrow> u64 \<Rightarrow> 'os malloc_state \<Rightarrow> bool" where
  "page_found regions st bs pa st' \<longleftrightarrow> base_inv regions st' \<and> live st' = live st \<and> (\<exists>qs. queue_ok st' qs \<and> set qs \<subseteq> dom (ml_segs st'))
     \<and> hp_pages (malloc_default_heap st') = hp_pages (malloc_default_heap st) \<and> empty_page_addr st' = empty_page_addr st
     \<and> (pa \<noteq> 0 \<longrightarrow> (\<exists>s i p. s \<in> dom (ml_segs st') \<and> i < 32 \<and> pa = pg_at s i \<and> ml_pages st' pa = Some p \<and> mp_block_size p = bs
          \<and> malloc_page_remaining p \<noteq> 0))"

lemma queue_ok_grows: "grows st st' \<Longrightarrow> queue_ok st' qs = queue_ok st qs"
  by (simp add: grows_def queue_ok_def)

lemma search_segment:
  fixes st :: "'os malloc_state"
  assumes inv: "base_inv regions st" and s: "ml_segs st s = Some sg" and bs: "bs_ok bs"
  obtains pa and st' :: "'os malloc_state" where "malloc_find_page (unat (sg_nr_pages sg)) s 0 bs st = Some (pa, st')" "base_inv regions st'"
    "live st' = live st" "grows st st'"
    "pa \<noteq> 0 \<Longrightarrow> \<exists>i p. i < 32 \<and> pa = pg_at s i \<and> ml_pages st' pa = Some p \<and> mp_block_size p = bs \<and> malloc_page_remaining p \<noteq> 0"
    "\<exists>p. ml_pages st (pg_at s 0) = Some p \<and> mp_block_size p = 0 \<Longrightarrow> pa \<noteq> 0"
proof -
  have ok: "segs_ok st" using inv by (simp add: base_inv_def)
  then have nr: "unat (sg_nr_pages sg) = 32" using s by (auto simp: segs_ok_def)
  obtain pa and st' :: "'os malloc_state" where r: "malloc_find_page 32 s (of_nat 0) bs st = Some (pa, st')" "segs_ok st'" "live st' = live st" "grows st st'"
    "pa \<noteq> 0 \<longrightarrow> (\<exists>j p. j < 32 \<and> pa = pg_at s j \<and> ml_pages st' pa = Some p \<and> mp_block_size p = bs \<and> malloc_page_remaining p \<noteq> 0)"
    "0 < (32 :: nat) \<and> (\<exists>p. ml_pages st (pg_at s 0) = Some p \<and> mp_block_size p = 0) \<longrightarrow> pa \<noteq> 0"
    using find_page_ok [OF ok s bs base_inv_no_page [OF inv], of 0 32] by auto
  show ?thesis
    by (rule that [of pa st']) (use r nr base_inv_grows [OF inv r(4,2)] in auto)
qed

lemma page_found_trans:
  assumes "page_found regions st1 bs pa st2" and "live st1 = live st" and "hp_pages (malloc_default_heap st1) = hp_pages (malloc_default_heap st)"
    and "empty_page_addr st1 = empty_page_addr st"
  shows "page_found regions st bs pa st2"
  using assms by (simp add: page_found_def)

lemma alloc_page_new:
  fixes st :: "'os malloc_state"
  assumes laws: "os_ok V regions" and bs: "bs_ok (to_block_size sz)" and inv: "base_inv regions st" and q: "queue_ok st []"
  shows "\<exists>pa st'. malloc_heap_alloc_page V sz st = Some (pa, st') \<and> page_found regions st (to_block_size sz) pa st'
    \<and> (pa = 0 \<longrightarrow> fst (V MALLOC_SEGMENT_SIZE MALLOC_SEGMENT_SIZE (ml_os st)) \<noteq> 0)"
proof -
  obtain err start content os' where V: "V MALLOC_SEGMENT_SIZE MALLOC_SEGMENT_SIZE (ml_os st) = (err, start, content, os')"
    by (metis prod_cases4)
  have head: "q_head (segment_queue (malloc_default_heap st)) = 0" using q by (simp add: queue_ok_def)
  show ?thesis
  proof (cases "err = 0")
    case False
    define st' where "st' = st\<lparr>ml_os := os'\<rparr>"
    have "malloc_heap_alloc_page V sz st = Some (0, st')"
      using V False head by (subst malloc_heap_alloc_page.simps)
        (simp add: malloc_segment_queue_head_def malloc_heap_alloc_segment_def malloc_os_alloc_def st'_def)
    moreover have r: "regions os' = regions (ml_os st)" using laws V False by (simp add: os_ok_def os_laws_def)
    have f: "ml_segs st' = ml_segs st" "ml_pages st' = ml_pages st" "ml_blocks st' = ml_blocks st"
      "malloc_default_heap st' = malloc_default_heap st" "empty_page_addr st' = empty_page_addr st" "ml_os st' = os'"
      by (simp_all add: st'_def)
    have "page_found regions st (to_block_size sz) 0 st'"
      using inv q r unfolding page_found_def base_inv_def segs_ok_def hp_ok_def queue_ok_def live_def f
      by (auto intro: exI [of _ "[]"])
    ultimately show ?thesis using V False by auto
  next
    case True
    obtain st1 where s1: "malloc_heap_alloc_segment V st = Some (start, st1)" "base_inv regions st1" "live st1 = live st"
      "ml_segs st1 start = Some \<lparr>sg_prev = 0, sg_next = 0, sg_nr_pages = 32\<rparr>" "start \<noteq> 0"
      "malloc_default_heap st1 = malloc_default_heap st" "empty_page_addr st1 = empty_page_addr st"
      "\<exists>p. ml_pages st1 (pg_at start 0) = Some p \<and> mp_block_size p = 0"
      using new_segment_ok [OF laws inv V [unfolded True]] by auto
    have "queue_ok st1 []" using q s1(6) by (simp add: queue_ok_def)
    then obtain st2 where s2: "malloc_segment_queue_enqueue start st1 = Some st2" "queue_ok st2 [start]" "requeued st1 st2"
      using enqueue_ok s1(4,5) by blast
    have inv2: "base_inv regions st2" using base_inv_requeued [OF s1(2) s2(3)] .
    have live2: "live st2 = live st" using requeued_ok(2) [OF s2(3)] s1(2,3) by (simp add: base_inv_def)
    obtain sg where sg: "ml_segs st2 start = Some sg" using s2(2) by (auto simp: queue_ok_def)
    obtain pa and st3 :: "'os malloc_state" where s3: "malloc_find_page (unat (sg_nr_pages sg)) start 0 (to_block_size sz) st2 = Some (pa, st3)"
      "base_inv regions st3" "live st3 = live st2" "grows st2 st3"
      "pa \<noteq> 0 \<Longrightarrow> \<exists>i p. i < 32 \<and> pa = pg_at start i \<and> ml_pages st3 pa = Some p \<and> mp_block_size p = to_block_size sz \<and> malloc_page_remaining p \<noteq> 0"
      "\<exists>p. ml_pages st2 (pg_at start 0) = Some p \<and> mp_block_size p = 0 \<Longrightarrow> pa \<noteq> 0"
      by (rule search_segment [OF inv2 sg bs]) (rule that)
    have pa: "pa \<noteq> 0" using s3(6) s1(8) s2(3) by (auto simp: requeued_def)
    have "malloc_heap_alloc_page V sz st = Some (pa, st3)"
      using head s1(1,5) s2(1) sg s3(1) pa by (subst malloc_heap_alloc_page.simps) (simp add: malloc_segment_queue_head_def)
    moreover have "queue_ok st3 [start]" using queue_ok_grows [OF s3(4)] s2(2) by simp
    moreover have "start \<in> dom (ml_segs st3)" using sg s3(4) by (auto simp: grows_def)
    ultimately show ?thesis
      using s3 pa live2 s2(3) s1(6,7) by (auto simp: page_found_def grows_def requeued_def intro: exI [of _ "[start]"])
  qed
qed

lemma alloc_page_ok:
  fixes st :: "'os malloc_state"
  assumes laws: "os_ok V regions" and bs: "bs_ok (to_block_size sz)"
  shows "base_inv regions st \<Longrightarrow> queue_ok st qs \<Longrightarrow> set qs \<subseteq> dom (ml_segs st) \<Longrightarrow>
    \<exists>pa st'. malloc_heap_alloc_page V sz st = Some (pa, st') \<and> page_found regions st (to_block_size sz) pa st'
      \<and> (pa = 0 \<longrightarrow> fst (V MALLOC_SEGMENT_SIZE MALLOC_SEGMENT_SIZE (ml_os st)) \<noteq> 0)"
proof (induction qs arbitrary: st)
  case Nil
  then show ?case using alloc_page_new [OF laws bs] by blast
next
  case (Cons x qs)
  have head: "q_head (segment_queue (malloc_default_heap st)) = x" "x \<noteq> 0" using Cons.prems(2) by (auto simp: queue_ok_def)
  obtain sg where sg: "ml_segs st x = Some sg" using Cons.prems(3) by auto
  obtain pa and st1 :: "'os malloc_state" where s1: "malloc_find_page (unat (sg_nr_pages sg)) x 0 (to_block_size sz) st = Some (pa, st1)"
    "base_inv regions st1" "live st1 = live st" "grows st st1"
    "pa \<noteq> 0 \<Longrightarrow> \<exists>i p. i < 32 \<and> pa = pg_at x i \<and> ml_pages st1 pa = Some p \<and> mp_block_size p = to_block_size sz \<and> malloc_page_remaining p \<noteq> 0"
    "\<exists>p. ml_pages st (pg_at x 0) = Some p \<and> mp_block_size p = 0 \<Longrightarrow> pa \<noteq> 0"
    by (rule search_segment [OF Cons.prems(1) sg bs]) (rule that)
  have q1: "queue_ok st1 (x # qs)" using queue_ok_grows [OF s1(4)] Cons.prems(2) by simp
  have g: "ml_segs st1 = ml_segs st" "malloc_default_heap st1 = malloc_default_heap st" "ml_os st1 = ml_os st" "empty_page_addr st1 = empty_page_addr st"
    using s1(4) by (simp_all add: grows_def)
  show ?case
  proof (cases "pa = 0")
    case False
    have "malloc_heap_alloc_page V sz st = Some (pa, st1)"
      using head sg s1(1) False by (subst malloc_heap_alloc_page.simps) (simp add: malloc_segment_queue_head_def)
    moreover have "page_found regions st (to_block_size sz) pa st1"
      using s1(2,3) s1(5) [OF False] q1 Cons.prems(3) g sg unfolding page_found_def by (auto intro!: exI [of _ "x # qs"])
    ultimately show ?thesis using False by blast
  next
    case True
    obtain st2 where s2: "malloc_segment_queue_pop st1 = Some st2" "queue_ok st2 qs" "requeued st1 st2" using pop_queue_ok [OF q1] by blast
    have inv2: "base_inv regions st2" using base_inv_requeued [OF s1(2) s2(3)] .
    have live2: "live st2 = live st" using requeued_ok(2) [OF s2(3)] s1(2,3) by (simp add: base_inv_def)
    have "set qs \<subseteq> dom (ml_segs st2)" using requeued_dom [OF s2(3)] Cons.prems(3) g by simp
    then obtain pa' st' where r: "malloc_heap_alloc_page V sz st2 = Some (pa', st')" "page_found regions st2 (to_block_size sz) pa' st'"
      "pa' = 0 \<longrightarrow> fst (V MALLOC_SEGMENT_SIZE MALLOC_SEGMENT_SIZE (ml_os st2)) \<noteq> 0"
      using Cons.IH [OF inv2 s2(2)] by blast
    have "malloc_heap_alloc_page V sz st = malloc_heap_alloc_page V sz st2"
      using head sg s1(1) True s2(1) by (subst malloc_heap_alloc_page.simps) (simp add: malloc_segment_queue_head_def)
    moreover have "page_found regions st (to_block_size sz) pa' st'"
      using s2(3) g by (intro page_found_trans [OF r(2) live2]) (simp_all add: requeued_def)
    ultimately show ?thesis using r s2(3) g by (auto simp: requeued_def)
  qed
qed

definition malloc_inv :: "('os \<Rightarrow> u64 set) \<Rightarrow> 'os malloc_state \<Rightarrow> bool" where
  "malloc_inv regions st \<longleftrightarrow> base_inv regions st \<and> (\<exists>qs. queue_ok st qs \<and> set qs \<subseteq> dom (ml_segs st))"

lemma malloc_inv_grows:
  assumes "malloc_inv regions st" and "grows st st'" and "segs_ok st'"
  shows "malloc_inv regions st'"
proof -
  have "ml_segs st' = ml_segs st" using assms(2) by (simp add: grows_def)
  then show ?thesis
    using assms base_inv_grows [of regions st st'] queue_ok_grows [OF assms(2)] by (simp add: malloc_inv_def)
qed

lemma block_size_ok:
  assumes "unat sz \<le> 1016" and "sz \<noteq> 0"
  shows "bs_ok (to_block_size sz)" and "unat sz \<le> unat (to_block_size sz)" and "unat (to_block_size sz) = 8 * unat (to_size_class sz)"
    and "unat (to_size_class sz) < 128"
proof -
  have "to_block_size sz = (sz + 7) AND NOT (mask 3)" by (simp add: to_block_size_def malloc_consts mask_eq_decr_exp)
  moreover have "unat (sz + 7) = unat sz + 7" using assms(1) by (subst unat_add_no_wrap) simp_all
  ultimately have b: "unat (to_block_size sz) = (unat sz + 7) div 8 * 8" by (simp add: unat_and_not_mask)
  have z: "0 < unat sz" using assms(2) by (simp add: unat_gt_0)
  have "(unat sz + 7) div 8 \<le> (1016 + 7) div 8" using assms(1) by (intro div_le_mono) simp
  then have k: "(unat sz + 7) div 8 \<le> 127" by simp
  have k1: "1 \<le> (unat sz + 7) div 8" using z by simp
  show "bs_ok (to_block_size sz)" using k k1 by (simp add: bs_ok_def b)
  show "unat sz \<le> unat (to_block_size sz)" using nat_round_up(1) [of 8 "unat sz"] by (simp add: b)
  have c: "unat (to_size_class sz) = (unat sz + 7) div 8" by (simp add: to_size_class_def malloc_consts unat_div_distrib b)
  show "unat (to_block_size sz) = 8 * unat (to_size_class sz)" "unat (to_size_class sz) < 128" using k by (simp_all add: c b)
qed

lemma block_aligned:
  assumes "seg_aligned s" and "i < 32" and "0 < b" and "8 dvd b" and "x \<in> set (pg_blocks s i b)"
  shows "8 dvd unat x"
proof -
  obtain k where k: "k < pg_cap i b" "x = blk s i b k" using assms(5) by (auto simp: pg_blocks_def)
  have "8 dvd unat s" using assms(1) by (auto simp: seg_aligned_def intro: dvd_trans [of _ 2097152])
  moreover have "8 dvd pg_off i" by (simp add: pg_off_def)
  ultimately show ?thesis using assms(4) k(2) by (simp add: unat_blk(1) [OF assms(1,2) k(1) assms(3)])
qed

lemma take_block:
  assumes inv: "malloc_inv regions st" and s: "s \<in> dom (ml_segs st)" "i < 32" and p: "ml_pages st (pg_at s i) = Some p"
    and bs: "mp_block_size p = bs" "bs \<noteq> 0" and f: "mp_free p \<noteq> 0"
  shows "\<exists>x st'. malloc_page_alloc_obj (pg_at s i) st = Some (x, st') \<and> malloc_inv regions st' \<and> x \<noteq> 0 \<and> 8 dvd unat x
    \<and> live st' = insert (x, unat bs) (live st) \<and> (x, unat bs) \<notin> live st"
proof -
  have ok: "segs_ok st" and np: "no_page st (empty_page_addr st)"
    using inv base_inv_no_page by (auto simp: malloc_inv_def base_inv_def)
  have "pg_ok (ml_blocks st) s i p" using segs_okD(2) [OF ok s] p by auto
  then have c: "pg_claimed (ml_blocks st) s i p" and idx: "mp_idx p = of_nat i" using bs by (auto simp: pg_ok_def)
  obtain q where q: "malloc_page_alloc_obj (pg_at s i) st = Some (mp_free p, put_mpage (pg_at s i) q st)" "mp_block_size q = mp_block_size p"
    "segs_ok (put_mpage (pg_at s i) q st)" "live (put_mpage (pg_at s i) q st) = insert (mp_free p, unat bs) (live st)"
    using pop_ok(1) [OF ok s p c f idx] bs(1) by auto
  have "grows st (put_mpage (pg_at s i) q (st\<lparr>ml_blocks := ml_blocks st\<rparr>))"
    using p q(2) np s by (intro grows_put) (auto simp: no_page_def)
  then have "malloc_inv regions (put_mpage (pg_at s i) q st)" using malloc_inv_grows [OF inv _ q(3)] by simp
  moreover have "8 dvd unat (mp_free p)"
    using block_aligned [OF segs_okD(1) [OF ok s(1)] s(2) _ _ pop_ok(3) [OF ok s p c f idx]] c by (simp add: pg_claimed_def)
  ultimately show ?thesis using q pop_ok(2) [OF ok s p c f idx] f bs(1) by auto
qed

lemma hp_ok_set:
  assumes "hp_ok st" and "c < 128" and "s \<in> dom (ml_segs st)" and "i < 32" and "ml_pages st (pg_at s i) = Some p"
    and "mp_block_size p \<noteq> 0" and "unat (mp_block_size p) = 8 * c"
  shows "hp_ok (st\<lparr>malloc_default_heap := (malloc_default_heap st)\<lparr>hp_pages := (hp_pages (malloc_default_heap st))[c := pg_at s i]\<rparr>\<rparr>)"
    (is "hp_ok ?st")
proof -
  have f: "ml_segs ?st = ml_segs st" "ml_pages ?st = ml_pages st" "empty_page_addr ?st = empty_page_addr st"
    "hp_pages (malloc_default_heap ?st) = (hp_pages (malloc_default_heap st))[c := pg_at s i]" by simp_all
  show ?thesis
    unfolding hp_ok_def f
  proof (intro conjI allI impI)
    show "length ((hp_pages (malloc_default_heap st))[c := pg_at s i]) = 128" using assms(1) by (simp add: hp_ok_def)
    fix d :: nat assume "d < 128"
    then show "(hp_pages (malloc_default_heap st))[c := pg_at s i] ! d = empty_page_addr st \<or> (\<exists>s' i' p. s' \<in> dom (ml_segs st) \<and> i' < 32
      \<and> (hp_pages (malloc_default_heap st))[c := pg_at s i] ! d = pg_at s' i' \<and> ml_pages st (pg_at s' i') = Some p
      \<and> mp_block_size p \<noteq> 0 \<and> unat (mp_block_size p) = 8 * d)"
      using assms unfolding hp_ok_def by (cases "d = c") (simp, blast, simp)
  qed
qed

text \<open>\<open>malloc_heap_get_page\<close> finds a page of the size class with a free block, or there is no memory.\<close>

lemma get_page_ok:
  fixes st :: "'os malloc_state"
  assumes laws: "os_ok V regions" and inv: "malloc_inv regions st" and sz: "unat sz \<le> 1016" "sz \<noteq> 0"
  shows "\<exists>pa st'. malloc_heap_get_page V sz st = Some (pa, st') \<and> malloc_inv regions st' \<and> live st' = live st
    \<and> (if pa = 0 then fst (V MALLOC_SEGMENT_SIZE MALLOC_SEGMENT_SIZE (ml_os st)) \<noteq> 0
       else \<exists>s i p. s \<in> dom (ml_segs st') \<and> i < 32 \<and> pa = pg_at s i \<and> ml_pages st' pa = Some p \<and> mp_block_size p = to_block_size sz \<and> mp_free p \<noteq> 0)"
proof -
  note bs = block_size_ok [OF sz]
  let ?c = "unat (to_size_class sz)"
  have hp: "hp_ok st" and base: "base_inv regions st" using inv by (simp_all add: malloc_inv_def base_inv_def)
  obtain qs where qs: "queue_ok st qs" "set qs \<subseteq> dom (ml_segs st)" using inv by (auto simp: malloc_inv_def)
  define pa0 where "pa0 = hp_pages (malloc_default_heap st) ! ?c"
  have rd0: "rd (hp_pages (malloc_default_heap st)) ?c = Some pa0" using hp bs(4) by (simp add: hp_ok_def pa0_def)
  have "pa0 = empty_page_addr st \<or> (\<exists>s i p. s \<in> dom (ml_segs st) \<and> i < 32 \<and> pa0 = pg_at s i \<and> ml_pages st (pg_at s i) = Some p
      \<and> mp_block_size p \<noteq> 0 \<and> unat (mp_block_size p) = 8 * ?c)"
    using hp bs(4) unfolding hp_ok_def pa0_def by blast
  then consider (full) p where "ml_pages st pa0 = Some p" "mp_free p = 0"
    | (found) s i p where "s \<in> dom (ml_segs st)" "i < 32" "pa0 = pg_at s i" "ml_pages st pa0 = Some p" "mp_block_size p = to_block_size sz" "mp_free p \<noteq> 0"
    using base bs(3) unfolding base_inv_def by (metis word_unat_eq_iff)
  then show ?thesis
  proof cases
    case found
    have "pa0 \<noteq> 0" using found base by (auto simp: base_inv_def dest: segs_okD(1) pg_at_nonzero)
    moreover have "malloc_heap_get_page V sz st = Some (pa0, st)"
      using rd0 found by (simp add: malloc_heap_get_page_def malloc_page_full_def)
    ultimately show ?thesis using found inv by auto
  next
    case full
    obtain pa st1 where r: "malloc_heap_alloc_page V sz st = Some (pa, st1)" "page_found regions st (to_block_size sz) pa st1"
      "pa = 0 \<longrightarrow> fst (V MALLOC_SEGMENT_SIZE MALLOC_SEGMENT_SIZE (ml_os st)) \<noteq> 0"
      using alloc_page_ok [OF laws bs(1) base qs] by blast
    have inv1: "malloc_inv regions st1" and live1: "live st1 = live st" using r(2) by (auto simp: page_found_def malloc_inv_def)
    show ?thesis
    proof (cases "pa = 0")
      case True
      then have "malloc_heap_get_page V sz st = Some (0, st1)"
        using rd0 full r(1) by (simp add: malloc_heap_get_page_def malloc_page_full_def)
      then show ?thesis using inv1 live1 r(3) True by auto
    next
      case False
      then obtain s i p where p: "s \<in> dom (ml_segs st1)" "i < 32" "pa = pg_at s i" "ml_pages st1 pa = Some p" "mp_block_size p = to_block_size sz"
        "malloc_page_remaining p \<noteq> 0" using r(2) by (auto simp: page_found_def)
      have ok1: "segs_ok st1" and hp1: "hp_ok st1" and base1: "base_inv regions st1" using inv1 by (simp_all add: malloc_inv_def base_inv_def)
      have bz: "to_block_size sz \<noteq> 0" using bs(1) by (auto simp: bs_ok_def)
      have "pg_claimed (ml_blocks st1) s i p" using segs_okD(2) [OF ok1 p(1,2)] p(3-5) bz by (auto simp: pg_ok_def)
      then have fr: "mp_free p \<noteq> 0"
        using p(6) by (auto simp: pg_claimed_def free_blocks_def malloc_page_remaining_def neq_Nil_conv unat_eq_0
          dest: arg_cong [of _ _ length] split: nat.splits elim!: blist.elims)
      define st2 where "st2 = st1\<lparr>malloc_default_heap := (malloc_default_heap st1)\<lparr>hp_pages := (hp_pages (malloc_default_heap st1))[?c := pa]\<rparr>\<rparr>"
      have eq: "malloc_heap_get_page V sz st = Some (pa, st2)"
        using rd0 full r(1) False hp1 bs(4) by (simp add: malloc_heap_get_page_def malloc_page_full_def hp_ok_def st2_def)
      have f: "ml_segs st2 = ml_segs st1" "ml_pages st2 = ml_pages st1" "ml_blocks st2 = ml_blocks st1" "ml_os st2 = ml_os st1"
        "empty_page_addr st2 = empty_page_addr st1" "segment_queue (malloc_default_heap st2) = segment_queue (malloc_default_heap st1)"
        "hp_pages (malloc_default_heap st2) = (hp_pages (malloc_default_heap st1))[?c := pa]"
        by (simp_all add: st2_def)
      have "hp_ok st2"
        unfolding st2_def p(3) using p(5) bz bs(3) by (intro hp_ok_set [OF hp1 bs(4) p(1,2) p(4) [unfolded p(3)]]) simp_all
      then have "malloc_inv regions st2"
        using inv1 unfolding malloc_inv_def base_inv_def segs_ok_def queue_ok_def f by simp
      moreover have "live st2 = live st" using live1 by (simp add: live_def f)
      ultimately show ?thesis using eq False p fr f by auto
    qed
  qed
qed

lemma malloc_ok:
  fixes st :: "'os malloc_state"
  assumes "os_ok V regions" and "malloc_inv regions st" and "unat sz \<le> 1016"
  shows "\<exists>r st'. malloc V sz st = Some (r, st') \<and> malloc_inv regions st'
    \<and> (if r = 0 then live st' = live st \<and> fst (V MALLOC_SEGMENT_SIZE MALLOC_SEGMENT_SIZE (ml_os st)) \<noteq> 0
       else \<exists>b. unat sz \<le> b \<and> 8 dvd unat r \<and> (r, b) \<notin> live st \<and> live st' = insert (r, b) (live st)
         \<and> (\<forall>(x, c) \<in> live st. {unat r ..< unat r + b} \<inter> {unat x ..< unat x + c} = {}))"
proof -
  define sz' where "sz' = (if sz = 0 then 8 else sz)"
  have sz': "unat sz' \<le> 1016" "sz' \<noteq> 0" "unat sz \<le> unat sz'" using assms(3) by (simp_all add: sz'_def)
  note bs = block_size_ok [OF sz'(1,2)]
  have small: "sz < SMALL_OBJ_SIZE_MAX" using assms(3) by (simp add: malloc_consts word_less_nat_alt)
  obtain pa st1 where g: "malloc_heap_get_page V sz' st = Some (pa, st1)" "malloc_inv regions st1" "live st1 = live st"
    "if pa = 0 then fst (V MALLOC_SEGMENT_SIZE MALLOC_SEGMENT_SIZE (ml_os st)) \<noteq> 0
     else \<exists>s i p. s \<in> dom (ml_segs st1) \<and> i < 32 \<and> pa = pg_at s i \<and> ml_pages st1 pa = Some p \<and> mp_block_size p = to_block_size sz' \<and> mp_free p \<noteq> 0"
    using get_page_ok [OF assms(1,2) sz'(1,2)] by blast
  have eq: "malloc V sz st = (if pa = 0 then Some (0, st1) else malloc_page_alloc_obj pa st1)"
    using small g(1) by (simp add: malloc_def malloc_heap_alloc_def malloc_heap_alloc_small_def sz'_def Let_def)
  show ?thesis
  proof (cases "pa = 0")
    case True
    then show ?thesis using eq g by auto
  next
    case False
    then obtain s i p where p: "s \<in> dom (ml_segs st1)" "i < 32" "pa = pg_at s i" "ml_pages st1 (pg_at s i) = Some p"
      "mp_block_size p = to_block_size sz'" "mp_free p \<noteq> 0" using g(4) by auto
    have "to_block_size sz' \<noteq> 0" using bs(1) by (auto simp: bs_ok_def)
    then obtain x st' where x: "malloc_page_alloc_obj (pg_at s i) st1 = Some (x, st')" "malloc_inv regions st'" "x \<noteq> 0" "8 dvd unat x"
      "live st' = insert (x, unat (to_block_size sz')) (live st1)" "(x, unat (to_block_size sz')) \<notin> live st1"
      using take_block [OF g(2) p(1,2,4,5) _ p(6)] by blast
    have ok: "segs_ok st'" using x(2) by (simp add: malloc_inv_def base_inv_def)
    have "{unat x ..< unat x + unat (to_block_size sz')} \<inter> {unat y ..< unat y + c} = {}" if "(y, c) \<in> live st" for y c
      using blocks_disjoint [OF ok, of x "unat (to_block_size sz')" y c] x(5,6) that g(3) by auto
    then show ?thesis
      using eq False p(3) x g(3) bs(2) sz'(3) by (auto intro!: exI [of _ "unat (to_block_size sz')"])
  qed
qed

text \<open>A system call that hands out the regions below 1 GiB one after the other, and the initial heap.\<close>

definition bump_alloc :: "u64 vmspace_call" where
  "bump_alloc sz align os =
     (if os \<noteq> 0 \<and> os mod 0x200000 = 0 \<and> os < 0x40000000 then (0, os, \<lambda>i. empty_page, os + 0x200000) else (- 12, 0, \<lambda>i. empty_page, os))"

definition bump_regions :: "u64 \<Rightarrow> u64 set" where
  "bump_regions os = {s. 2097152 dvd unat s \<and> unat s < unat os}"

lemma bump_laws: "os_laws bump_alloc bump_regions"
  unfolding os_laws_def
proof (intro allI impI)
  fix os err start content os'
  assume V: "bump_alloc MALLOC_SEGMENT_SIZE MALLOC_SEGMENT_SIZE os = (err, start, content, os')"
  show "if err = 0 then seg_aligned start \<and> start \<notin> bump_regions os \<and> bump_regions os' = insert start (bump_regions os)
      else bump_regions os' = bump_regions os"
  proof (cases "os \<noteq> 0 \<and> os mod 0x200000 = 0 \<and> os < 0x40000000")
    case True
    then have r: "err = 0" "start = os" "os' = os + 0x200000" "content = (\<lambda>i. empty_page)" using V by (auto simp: bump_alloc_def)
    have "unat (os mod 0x200000) = unat os mod 2097152" by (simp add: unat_mod_distrib)
    then have d: "2097152 dvd unat os" using True by auto
    then obtain k where k: "unat os = 2097152 * k" by (elim dvdE)
    have os': "unat (os + 0x200000) = unat os + 2097152" using True by (subst unat_add_no_wrap) (simp_all add: word_less_nat_alt)
    have "unat s < unat os + 2097152 \<longleftrightarrow> unat s < unat os \<or> s = os" if "2097152 dvd unat s" for s
      using that k by (auto simp: word_unat_eq_iff elim!: dvdE)
    then have "bump_regions os' = insert start (bump_regions os)" using d by (auto simp: bump_regions_def r os')
    then show ?thesis using r d True by (simp add: seg_aligned_def bump_regions_def)
  next
    case False
    then show ?thesis using V by (auto simp: bump_alloc_def)
  qed
qed

lemma bump_zeroes: "os_zeroes bump_alloc"
  by (auto simp: os_zeroes_def bump_alloc_def split: if_splits)

definition malloc_example :: "u64 malloc_state" where
  "malloc_example = liblinux_malloc_init \<lparr>malloc_default_heap = \<lparr>hp_pages = [], segment_queue = \<lparr>q_head = 0, q_tail = 0\<rparr>\<rparr>, ml_segs = (\<lambda>s. None),
     ml_pages = [0x1000 \<mapsto> empty_page], ml_blocks = (\<lambda>a. None), empty_page_addr = 0x1000, ml_os = 0x200000\<rparr>"

lemma malloc_example_inv: "malloc_inv bump_regions malloc_example" and malloc_example_live: "live malloc_example = {}"
proof -
  have f: "ml_segs malloc_example = (\<lambda>s. None)" "ml_pages malloc_example = [0x1000 \<mapsto> empty_page]" "empty_page_addr malloc_example = 0x1000"
    "hp_pages (malloc_default_heap malloc_example) = replicate 128 0x1000" "ml_os malloc_example = 0x200000"
    "segment_queue (malloc_default_heap malloc_example) = \<lparr>q_head = 0, q_tail = 0\<rparr>"
    by (simp_all add: malloc_example_def liblinux_malloc_init_def malloc_heap_init_def malloc_consts)
  have "hp_ok malloc_example" unfolding hp_ok_def f by simp
  moreover have "malloc_obj_to_segment 0x1000 \<in> bump_regions 0x200000"
    by (simp add: malloc_obj_to_segment_def malloc_consts bump_regions_def)
  moreover have "queue_ok malloc_example []" unfolding queue_ok_def f by simp
  ultimately show "malloc_inv bump_regions malloc_example"
    unfolding malloc_inv_def base_inv_def segs_ok_def f by (auto simp: empty_page_def intro!: exI [of _ "[]"])
  show "live malloc_example = {}" by (simp add: live_def f)
qed

lemma bump_succeeds: "fst (bump_alloc MALLOC_SEGMENT_SIZE MALLOC_SEGMENT_SIZE (ml_os malloc_example)) = 0"
  by (simp add: bump_alloc_def malloc_example_def liblinux_malloc_init_def malloc_heap_init_def)

subsection \<open>Properties\<close>

text \<open>C5: on an operating system that hands out zeroed memory, \<open>malloc\<close> of up to 1016 bytes returns a new block: it is large
  enough, aligned to 8 bytes and does not overlap any block that is in use, and the set of blocks in use grows by exactly
  this block. It returns a null pointer only when the operating system has no memory. The hypothesis on the memory is
  needed (\<open>malloc_dirty_memory\<close> below), and the kernel of the repository does not meet it.\<close>

theorem malloc_fresh:
  fixes st :: "'os malloc_state"
  assumes "os_laws V regions" and "os_zeroes V" and "malloc_inv regions st" and "unat sz \<le> 1016"
  shows "\<exists>r st'. malloc V sz st = Some (r, st') \<and> malloc_inv regions st'
    \<and> (if r = 0 then live st' = live st \<and> fst (V MALLOC_SEGMENT_SIZE MALLOC_SEGMENT_SIZE (ml_os st)) \<noteq> 0
       else \<exists>b. unat sz \<le> b \<and> 8 dvd unat r \<and> (r, b) \<notin> live st \<and> live st' = insert (r, b) (live st)
         \<and> (\<forall>(x, c) \<in> live st. {unat r ..< unat r + b} \<inter> {unat x ..< unat x + c} = {}))"
  using malloc_ok [of V regions st sz] assms by (simp add: os_ok_def)

theorem malloc_fresh_witness:
  "\<exists>r st'. malloc bump_alloc 24 malloc_example = Some (r, st') \<and> malloc_inv bump_regions st' \<and> r \<noteq> 0 \<and> 8 dvd unat r"
  using malloc_fresh [OF bump_laws bump_zeroes malloc_example_inv, of 24] bump_succeeds by (auto split: if_splits)

text \<open>C36: \<open>free\<close> of a block that is in use succeeds and removes exactly this block from the set of
  blocks in use; \<open>free\<close> of a null pointer does nothing.\<close>

theorem free_removes:
  fixes st :: "'os malloc_state"
  assumes "malloc_inv regions st" and "(x, b) \<in> live st"
  shows "(\<exists>st'. free x st = Some st' \<and> malloc_inv regions st' \<and> live st' = live st - {(x, b)}) \<and> free 0 st = Some st"
proof -
  have ok: "segs_ok st" and np: "no_page st (empty_page_addr st)"
    using assms(1) base_inv_no_page by (auto simp: malloc_inv_def base_inv_def)
  obtain s i p where s: "s \<in> dom (ml_segs st)" "i < 32" "ml_pages st (pg_at s i) = Some p" "(x, b) \<in> pg_live (ml_blocks st) s i p"
    using assms(2) by (auto simp: live_def)
  obtain st' q where r: "malloc_heap_free x st = Some st'" "segs_ok st'" "live st' = live st - {(x, b)}"
    "st' = put_mpage (pg_at s i) q (st\<lparr>ml_blocks := (ml_blocks st)(x \<mapsto> mp_free p)\<rparr>)" "mp_block_size q = mp_block_size p"
    using push_ok [OF ok s] by blast
  have "grows st st'" unfolding r(4) using r(5) np s(1,2) by (intro grows_put [OF s(3)]) (auto simp: no_page_def)
  then have "malloc_inv regions st'" using malloc_inv_grows [OF assms(1) _ r(2)] by blast
  moreover have al: "seg_aligned s" using segs_okD(1) [OF ok s(1)] .
  have "x \<noteq> 0" using pg_blocks_in(2) [OF al s(2)] pg_live_in(1,2) [OF al s(2,4)] by blast
  ultimately show ?thesis using r(1,3) by (simp add: free_def)
qed

theorem free_removes_witness:
  "\<exists>r st1 st2. malloc bump_alloc 24 malloc_example = Some (r, st1) \<and> r \<noteq> 0 \<and> free r st1 = Some st2 \<and> live st2 = {}"
proof -
  obtain r st1 b where r: "malloc bump_alloc 24 malloc_example = Some (r, st1)" "malloc_inv bump_regions st1" "r \<noteq> 0" "live st1 = {(r, b)}"
    using malloc_ok [of bump_alloc bump_regions malloc_example 24] bump_laws bump_zeroes malloc_example_inv bump_succeeds malloc_example_live
    by (auto simp: os_ok_def split: if_splits)
  then show ?thesis using free_removes [OF r(2), of r b] by auto
qed

text \<open>Without zeroed memory the promise of the system call is not enough: here the first page descriptor of the new segment
  happens to hold the block size that is asked for, and \<open>malloc\<close> follows what it takes for the free list.\<close>

definition dirty_alloc :: "u64 vmspace_call" where
  "dirty_alloc sz align os =
     (case bump_alloc sz align os of (err, start, content, os') \<Rightarrow>
        (err, start, \<lambda>i. empty_page\<lparr>mp_block_size := 24, mp_capacity := 7, mp_free := 0xdeadbee8\<rparr>, os'))"

lemma dirty_page:
  "\<exists>pa st. malloc_heap_alloc_page dirty_alloc 24 malloc_example = Some (pa, st) \<and> pa \<noteq> 0 \<and> length (hp_pages (malloc_default_heap st)) = 128
     \<and> map_option mp_free (ml_pages st pa) = Some 0xdeadbee8 \<and> ml_blocks st 0xdeadbee8 = None"
proof -
  have "map_option (\<lambda>(segment, pa, st). (segment \<noteq> 0, pa \<noteq> 0, length (hp_pages (malloc_default_heap st)), map_option mp_free (ml_pages st pa), ml_blocks st 0xdeadbee8))
     (do { (segment, st) \<leftarrow> malloc_heap_alloc_segment dirty_alloc malloc_example;
           st \<leftarrow> malloc_segment_queue_enqueue segment st;
           s \<leftarrow> ml_segs st segment;
           (pa, st) \<leftarrow> malloc_find_page (unat (sg_nr_pages s)) segment 0 (to_block_size 24) st;
           Some (segment, pa, st) }) = Some (True, True, 128, Some 0xdeadbee8, None)"
    by code_simp
  then obtain segment st1 st2 s pa st3 where
    "malloc_heap_alloc_segment dirty_alloc malloc_example = Some (segment, st1)" "malloc_segment_queue_enqueue segment st1 = Some st2"
    "ml_segs st2 segment = Some s" "malloc_find_page (unat (sg_nr_pages s)) segment 0 (to_block_size 24) st2 = Some (pa, st3)"
    and *: "segment \<noteq> 0" "pa \<noteq> 0" "length (hp_pages (malloc_default_heap st3)) = 128" "map_option mp_free (ml_pages st3 pa) = Some 0xdeadbee8"
      "ml_blocks st3 0xdeadbee8 = None"
    by (auto simp: bind_eq_Some_conv split: prod.splits)
  moreover have "malloc_segment_queue_head (segment_queue (malloc_default_heap malloc_example)) = 0"
    by (simp add: malloc_segment_queue_head_def malloc_example_def liblinux_malloc_init_def malloc_heap_init_def)
  ultimately have "malloc_heap_alloc_page dirty_alloc 24 malloc_example = Some (pa, st3)"
    by (subst malloc_heap_alloc_page.simps) simp
  with * show ?thesis by blast
qed

lemma malloc_dirty_memory: "os_laws dirty_alloc bump_regions \<and> malloc_inv bump_regions malloc_example \<and> malloc dirty_alloc 24 malloc_example = None"
proof (intro conjI)
  show "os_laws dirty_alloc bump_regions"
    using bump_laws unfolding os_laws_def dirty_alloc_def by (auto split: prod.splits)
  obtain pa st p where pa: "malloc_heap_alloc_page dirty_alloc 24 malloc_example = Some (pa, st)" "pa \<noteq> 0"
      "length (hp_pages (malloc_default_heap st)) = 128" "ml_pages st pa = Some p" "mp_free p = 0xdeadbee8" "ml_blocks st 0xdeadbee8 = None"
    using dirty_page by auto
  have "unat (to_size_class 24) = 3" by code_simp
  then show "malloc dirty_alloc 24 malloc_example = None"
    using pa by (simp add: malloc_def malloc_heap_alloc_def malloc_consts malloc_heap_alloc_small_def malloc_heap_get_page_def malloc_example_def
        liblinux_malloc_init_def malloc_heap_init_def malloc_page_full_def empty_page_def malloc_page_alloc_obj_def)
qed (rule malloc_example_inv)

text \<open>\<open>malloc\<close> accepts sizes up to 1023 bytes, but the sizes from 1017 on have size class 128 and the
  heap has 128 size classes: the access to the page of the class is outside of the array.\<close>

lemma malloc_class_overflow:
  assumes "length (hp_pages (malloc_default_heap st)) = NUM_SIZE_CLASSES" and "1017 \<le> sz" and "sz \<le> 1023"
  shows "malloc V sz st = None"
proof -
  have u: "1017 \<le> unat sz" "unat sz \<le> 1023" using assms(2,3) by (simp_all add: word_le_nat_alt)
  have "to_block_size sz = (sz + 7) AND NOT (mask 3)" by (simp add: to_block_size_def malloc_consts mask_eq_decr_exp)
  moreover have "unat (sz + 7) = unat sz + 7" using u by (subst unat_add_no_wrap) simp_all
  ultimately have "unat (to_block_size sz) = (unat sz + 7) div 8 * 8" by (simp add: unat_and_not_mask)
  moreover have "(unat sz + 7) div 8 = 128" using u by simp
  ultimately have "unat (to_size_class sz) = 128" by (simp add: to_size_class_def malloc_consts unat_div_distrib)
  moreover have "sz \<noteq> 0" "sz < SMALL_OBJ_SIZE_MAX" using u by (auto simp: malloc_consts word_less_nat_alt)
  ultimately show ?thesis
    using assms(1) by (simp add: malloc_def malloc_heap_alloc_def malloc_heap_alloc_small_def malloc_heap_get_page_def malloc_consts rd_def)
qed

lemma malloc_class_overflow_example: "malloc bump_alloc 1020 malloc_example = None"
proof -
  have "length (hp_pages (malloc_default_heap malloc_example)) = NUM_SIZE_CLASSES"
    by (simp add: malloc_example_def liblinux_malloc_init_def malloc_heap_init_def)
  then show ?thesis by (rule malloc_class_overflow) simp_all
qed

end
