(* ===== verification/Mmu.thy ===== *)
theory Mmu
  imports PageAlloc Printf
begin

text \<open>
  The x86-64 page tables: \<^verbatim>\<open>arch/x86_64/mmu.c\<close>, \<^verbatim>\<open>arch/x86_64/ioremap.c\<close>,
  \<^verbatim>\<open>arch/x86_64/include/arch/vmem.h\<close> and the range mapping of \<^verbatim>\<open>mm/mmu.c\<close>. The memory
  the tables live in is a function from the virtual address of an aligned 8-byte word to its
  value; new tables come from the page allocator. The four entry types are one-word structures
  and are kept as words.
\<close>

type_synonym phys_t = u64
type_synonym virt_t = u64
type_synonym pml4e_t = u64
type_synonym pdpte_t = u64
type_synonym pde_t = u64
type_synonym pte_t = u64

record mmu_map_t =
  cr3 :: u64

definition MMU_PROT_READ :: u32 where "MMU_PROT_READ = push_bit 0 1"
definition MMU_PROT_WRITE :: u32 where "MMU_PROT_WRITE = push_bit 1 1"
definition MMU_PROT_EXEC :: u32 where "MMU_PROT_EXEC = push_bit 2 1"
definition MMU_USER_PAGE :: u32 where "MMU_USER_PAGE = push_bit 0 1"
definition MMU_NOCACHE :: u32 where "MMU_NOCACHE = push_bit 1 1"

definition X86_PE_P :: u64 where "X86_PE_P = push_bit 0 1"
definition X86_PE_RW :: u64 where "X86_PE_RW = push_bit 1 1"
definition X86_PE_US :: u64 where "X86_PE_US = push_bit 2 1"
definition X86_PE_PCD :: u64 where "X86_PE_PCD = push_bit 4 1"
definition X86_PE_PS :: u64 where "X86_PE_PS = push_bit 7 1"
definition X86_PE_XD :: u64 where "X86_PE_XD = push_bit 63 1"

definition KERNEL_VMA :: u64 where "KERNEL_VMA = 0xffffffff80000000"

definition virt_to_phys :: "virt_t \<Rightarrow> phys_t" where "virt_to_phys addr = addr - KERNEL_VMA"
definition phys_to_virt :: "phys_t \<Rightarrow> virt_t" where "phys_to_virt addr = addr + KERNEL_VMA"
definition ptr_to_paddr :: "u64 \<Rightarrow> phys_t" where "ptr_to_paddr page = virt_to_phys page"
definition paddr_to_ptr :: "phys_t \<Rightarrow> u64" where "paddr_to_ptr paddr = paddr + KERNEL_VMA"

subsection \<open>Entries\<close>

abbreviation NR_PG_ENTRIES :: nat where "NR_PG_ENTRIES \<equiv> 512"
abbreviation PG_TABLE_BITS :: nat where "PG_TABLE_BITS \<equiv> 9"
definition PG_INDEX_MASK :: u64 where "PG_INDEX_MASK = push_bit PG_TABLE_BITS 1 - 1"
abbreviation PML4_INDEX_SHIFT :: nat where "PML4_INDEX_SHIFT \<equiv> 39"
abbreviation PDPT_INDEX_SHIFT :: nat where "PDPT_INDEX_SHIFT \<equiv> 30"
abbreviation PD_INDEX_SHIFT :: nat where "PD_INDEX_SHIFT \<equiv> 21"
abbreviation PT_INDEX_SHIFT :: nat where "PT_INDEX_SHIFT \<equiv> 12"
abbreviation PML4E_FLAGS_MASK :: u64 where "PML4E_FLAGS_MASK \<equiv> 0x80000000000007ff"
abbreviation PDPTE_FLAGS_MASK :: u64 where "PDPTE_FLAGS_MASK \<equiv> 0x80000000000007ff"
abbreviation PDE_FLAGS_MASK :: u64 where "PDE_FLAGS_MASK \<equiv> 0x80000000000007ff"
abbreviation PTE_FLAGS_MASK :: u64 where "PTE_FLAGS_MASK \<equiv> 0x80000000000007ff"

definition make_pml4e :: "phys_t \<Rightarrow> u64 \<Rightarrow> pml4e_t" where "make_pml4e paddr flags = paddr OR flags"
definition make_pdpte :: "phys_t \<Rightarrow> u64 \<Rightarrow> pdpte_t" where "make_pdpte paddr flags = paddr OR flags"
definition make_pde :: "phys_t \<Rightarrow> u64 \<Rightarrow> pde_t" where "make_pde paddr flags = paddr OR flags"
definition make_pte :: "phys_t \<Rightarrow> u64 \<Rightarrow> pte_t" where "make_pte paddr flags = paddr OR flags"

definition pml4e_is_none :: "pml4e_t \<Rightarrow> bool" where "pml4e_is_none e \<longleftrightarrow> e = 0"
definition pdpte_is_none :: "pdpte_t \<Rightarrow> bool" where "pdpte_is_none e \<longleftrightarrow> e = 0"
definition pde_is_none :: "pde_t \<Rightarrow> bool" where "pde_is_none e \<longleftrightarrow> e = 0"
definition pte_is_none :: "pte_t \<Rightarrow> bool" where "pte_is_none e \<longleftrightarrow> e = 0"
definition pde_is_large :: "pde_t \<Rightarrow> bool" where "pde_is_large e \<longleftrightarrow> e AND X86_PE_PS \<noteq> 0"

definition pml4e_paddr :: "pml4e_t \<Rightarrow> u64" where "pml4e_paddr e = e AND NOT PML4E_FLAGS_MASK"
definition pdpte_paddr :: "pdpte_t \<Rightarrow> u64" where "pdpte_paddr e = e AND NOT PDPTE_FLAGS_MASK"
definition pde_paddr :: "pde_t \<Rightarrow> u64" where "pde_paddr e = e AND NOT PDE_FLAGS_MASK"
definition pte_paddr :: "pte_t \<Rightarrow> u64" where "pte_paddr e = e AND NOT PTE_FLAGS_MASK"
definition pml4e_flags :: "pml4e_t \<Rightarrow> u64" where "pml4e_flags e = e AND PML4E_FLAGS_MASK"
definition pdpte_flags :: "pdpte_t \<Rightarrow> u64" where "pdpte_flags e = e AND PDPTE_FLAGS_MASK"
definition pde_flags :: "pde_t \<Rightarrow> u64" where "pde_flags e = e AND PDE_FLAGS_MASK"
definition pte_flags :: "pte_t \<Rightarrow> u64" where "pte_flags e = e AND PTE_FLAGS_MASK"

definition pg_index_to_vaddr :: "u64 \<Rightarrow> u64 \<Rightarrow> u64 \<Rightarrow> u64 \<Rightarrow> virt_t" where
  "pg_index_to_vaddr pml4_idx pdpt_idx pd_idx pt_idx =
     push_bit PML4_INDEX_SHIFT pml4_idx OR push_bit PDPT_INDEX_SHIFT pdpt_idx
     OR push_bit PD_INDEX_SHIFT pd_idx OR push_bit PT_INDEX_SHIFT pt_idx"

definition mmu_prot_to_hw :: "u32 \<Rightarrow> u64" where
  "mmu_prot_to_hw prot =
     (let hw_flags = X86_PE_P;
          hw_flags = (if prot AND MMU_PROT_WRITE \<noteq> 0 then hw_flags OR X86_PE_RW else hw_flags)
      in if prot AND MMU_PROT_EXEC = 0 then hw_flags OR X86_PE_XD else hw_flags)"

definition mmu_flags_to_hw :: "u32 \<Rightarrow> u64" where
  "mmu_flags_to_hw flags =
     (let hw_flags = (if flags AND MMU_USER_PAGE \<noteq> 0 then X86_PE_US else 0)
      in if flags AND MMU_NOCACHE \<noteq> 0 then hw_flags OR X86_PE_PCD else hw_flags)"

subsection \<open>State\<close>

record ('t, 'c) mmu_state =
  mm_pages :: "('t, 'c) page_arenas"
  mm_mem :: "u64 \<Rightarrow> u64"
  mm_cr3 :: u64
  kernel_vm_end :: virt_t

definition x86_read_cr3 :: "('t, 'c) mmu_state \<Rightarrow> u64" where "x86_read_cr3 s = mm_cr3 s"

definition x86_write_cr3 :: "u64 \<Rightarrow> ('t, 'c) mmu_state \<Rightarrow> ('t, 'c) mmu_state" where
  "x86_write_cr3 v s = s\<lparr>mm_cr3 := v\<rparr>"

definition mmu_invalidate_tlb :: "('t, 'c) mmu_state \<Rightarrow> ('t, 'c) mmu_state" where
  "mmu_invalidate_tlb s = x86_write_cr3 (x86_read_cr3 s) s"

definition mmu_current_map :: "('t, 'c) mmu_state \<Rightarrow> mmu_map_t" where
  "mmu_current_map s = \<lparr>cr3 = x86_read_cr3 s\<rparr>"

definition mmu_load_map :: "mmu_map_t \<Rightarrow> ('t, 'c) mmu_state \<Rightarrow> ('t, 'c) mmu_state" where
  "mmu_load_map mp s = x86_write_cr3 (cr3 mp) s"

definition pg_entry :: "(u64 \<Rightarrow> u64) \<Rightarrow> u64 \<Rightarrow> u64 \<Rightarrow> u64" where
  "pg_entry mem table idx = mem (table + 8 * idx)"

definition set_pg_entry :: "u64 \<Rightarrow> u64 \<Rightarrow> u64 \<Rightarrow> ('t, 'c) mmu_state \<Rightarrow> ('t, 'c) mmu_state" where
  "set_pg_entry table idx e s = s\<lparr>mm_mem := (mm_mem s)(table + 8 * idx := e)\<rparr>"

definition zero_page :: "u64 \<Rightarrow> ('t, 'c) mmu_state \<Rightarrow> ('t, 'c) mmu_state" where
  "zero_page page s = s\<lparr>mm_mem := (\<lambda>a. if page \<le> a \<and> a - page < PAGE_SIZE_SMALL then 0 else mm_mem s a)\<rparr>"

subsection \<open>Mapping a page\<close>

text \<open>The step that every level above the last repeats: read the entry, and when there is none
  allocate the table of the next level. The result is an error code, the entry and the state.\<close>

definition mmu_table_entry ::
  "(u64 \<Rightarrow> bool) \<Rightarrow> (phys_t \<Rightarrow> u64 \<Rightarrow> u64) \<Rightarrow> u64 \<Rightarrow> u64 \<Rightarrow> u64 \<Rightarrow> ('t, 'c) mmu_state \<Rightarrow> (int \<times> u64 \<times> ('t, 'c) mmu_state) option" where
  "mmu_table_entry is_none make_entry table idx hw_flags s =
     (let e = pg_entry (mm_mem s) table idx
      in if is_none e then
           do { (page, p) \<leftarrow> page_alloc_small (mm_pages s);
                let s = s\<lparr>mm_pages := p\<rparr>;
                if page = 0 then Some (- ENOMEM, e, s)
                else do { let s = zero_page page s;
                          let e = make_entry (ptr_to_paddr page) (X86_PE_P OR X86_PE_RW OR hw_flags);
                          Some (0, e, set_pg_entry table idx e s) } }
         else Some (0, e, s))"

definition mmu_map_small_page ::
  "mmu_map_t \<Rightarrow> virt_t \<Rightarrow> phys_t \<Rightarrow> u32 \<Rightarrow> u32 \<Rightarrow> ('t, 'c) mmu_state \<Rightarrow> (int \<times> ('t, 'c) mmu_state) option" where
  "mmu_map_small_page mp vaddr paddr prot flags s =
     do { let hw_flags = mmu_flags_to_hw flags;
          let pml4_table = paddr_to_ptr (cr3 mp);
          let pml4_idx = drop_bit PML4_INDEX_SHIFT vaddr AND PG_INDEX_MASK;
          (err, pml4e, s) \<leftarrow> mmu_table_entry pml4e_is_none make_pml4e pml4_table pml4_idx hw_flags s;
          if err \<noteq> 0 then Some (err, s) else do {
          let pdp_table = paddr_to_ptr (pml4e_paddr pml4e);
          let pdpt_idx = drop_bit PDPT_INDEX_SHIFT vaddr AND PG_INDEX_MASK;
          (err, pdpte, s) \<leftarrow> mmu_table_entry pdpte_is_none make_pdpte pdp_table pdpt_idx hw_flags s;
          if err \<noteq> 0 then Some (err, s) else do {
          let pd = paddr_to_ptr (pdpte_paddr pdpte);
          let pd_idx = drop_bit PD_INDEX_SHIFT vaddr AND PG_INDEX_MASK;
          (err, pde, s) \<leftarrow> mmu_table_entry pde_is_none make_pde pd pd_idx hw_flags s;
          if err \<noteq> 0 then Some (err, s)
          else if pde_is_large pde then Some (- EINVAL, s)
          else do {
            let hw_prot = mmu_prot_to_hw prot;
            let pt = paddr_to_ptr (pde_paddr pde);
            let pt_idx = drop_bit PT_INDEX_SHIFT vaddr AND PG_INDEX_MASK;
            Some (0, set_pg_entry pt pt_idx (make_pte paddr (hw_prot OR hw_flags)) s) } } } }"

definition mmu_map_large_page ::
  "mmu_map_t \<Rightarrow> virt_t \<Rightarrow> phys_t \<Rightarrow> u32 \<Rightarrow> u32 \<Rightarrow> ('t, 'c) mmu_state \<Rightarrow> (int \<times> ('t, 'c) mmu_state) option" where
  "mmu_map_large_page mp vaddr paddr prot flags s =
     do { let hw_flags = mmu_flags_to_hw flags;
          let pml4_table = paddr_to_ptr (cr3 mp);
          let pml4_idx = drop_bit PML4_INDEX_SHIFT vaddr AND PG_INDEX_MASK;
          (err, pml4e, s) \<leftarrow> mmu_table_entry pml4e_is_none make_pml4e pml4_table pml4_idx hw_flags s;
          if err \<noteq> 0 then Some (err, s) else do {
          let pdp_table = paddr_to_ptr (pml4e_paddr pml4e);
          let pdpt_idx = drop_bit PDPT_INDEX_SHIFT vaddr AND PG_INDEX_MASK;
          (err, pdpte, s) \<leftarrow> mmu_table_entry pdpte_is_none make_pdpte pdp_table pdpt_idx hw_flags s;
          if err \<noteq> 0 then Some (err, s) else do {
          let pd = paddr_to_ptr (pdpte_paddr pdpte);
          let pd_idx = drop_bit PD_INDEX_SHIFT vaddr AND PG_INDEX_MASK;
          let pde = pg_entry (mm_mem s) pd pd_idx;
          if \<not> pde_is_none pde \<and> \<not> pde_is_large pde then Some (- EINVAL, s)
          else do {
            let hw_prot = mmu_prot_to_hw prot;
            Some (0, set_pg_entry pd pd_idx (make_pde paddr (hw_prot OR hw_flags OR X86_PE_PS)) s) } } } }"

subsection \<open>Mapping a range\<close>

text \<open>The loop of \<open>mmu_map_range\<close>, which occurs three times there: map one page of \<open>sz\<close> bytes
  after the other up to \<open>ending\<close>. An offset that wraps around at the end of the address space
  may keep the loop going, so the loop is a partial function: \<open>None\<close> is also not returning.\<close>

partial_function (option) mmu_map_pages ::
  "(virt_t \<Rightarrow> phys_t \<Rightarrow> ('t, 'c) mmu_state \<Rightarrow> (int \<times> ('t, 'c) mmu_state) option) \<Rightarrow> u64 \<Rightarrow> virt_t \<Rightarrow> virt_t \<Rightarrow> phys_t \<Rightarrow>
   ('t, 'c) mmu_state \<Rightarrow> (int \<times> phys_t \<times> ('t, 'c) mmu_state) option" where
  "mmu_map_pages map_page sz offset ending paddr s =
     (if offset < ending then
        Option.bind (map_page offset paddr s) (\<lambda>(err, s).
          if err \<noteq> 0 then Some (err, paddr, s)
          else mmu_map_pages map_page sz (offset + sz) ending (paddr + sz) s)
      else Some (0, paddr, s))"

definition mmu_map_range ::
  "mmu_map_t \<Rightarrow> virt_t \<Rightarrow> phys_t \<Rightarrow> u64 \<Rightarrow> u32 \<Rightarrow> u32 \<Rightarrow> ('t, 'c) mmu_state \<Rightarrow> (int \<times> ('t, 'c) mmu_state) option" where
  "mmu_map_range mp vaddr paddr sz prot flags s =
     (let map_small = (\<lambda>v p. mmu_map_small_page mp v p prot flags);
          map_large = (\<lambda>v p. mmu_map_large_page mp v p prot flags)
      in if \<not> is_aligned vaddr PAGE_SIZE_SMALL then Some (- EINVAL, s)
      else
        do { let start = vaddr;
             let ending = vaddr + sz;
             let large_start = align_up vaddr PAGE_SIZE_LARGE;
             let large_end = align_down (vaddr + sz) PAGE_SIZE_LARGE;
             if large_end < large_start then
               do { (err, paddr, s) \<leftarrow> mmu_map_pages map_small PAGE_SIZE_SMALL start ending paddr s; Some (err, s) }
             else do {
               (err, paddr, s) \<leftarrow>
                 (if start \<noteq> large_start then mmu_map_pages map_small PAGE_SIZE_SMALL start large_start paddr s
                  else Some (0, paddr, s));
               if err \<noteq> 0 then Some (err, s) else do {
               (err, paddr, s) \<leftarrow>
                 (if large_start \<noteq> large_end then mmu_map_pages map_large PAGE_SIZE_LARGE large_start large_end paddr s
                  else Some (0, paddr, s));
               if err \<noteq> 0 then Some (err, s) else do {
               (err, paddr, s) \<leftarrow>
                 (if large_end \<noteq> ending then mmu_map_pages map_small PAGE_SIZE_SMALL large_end ending paddr s
                  else Some (0, paddr, s));
               Some (err, s) } } } })"

definition ioremap :: "phys_t \<Rightarrow> u64 \<Rightarrow> ('t, 'c) mmu_state \<Rightarrow> (u64 \<times> ('t, 'c) mmu_state) option" where
  "ioremap io_mem_start io_mem_size s =
     do { let ret = kernel_vm_end s;
          let s = s\<lparr>kernel_vm_end := kernel_vm_end s + align_up io_mem_size PAGE_SIZE_SMALL\<rparr>;
          let mp = mmu_current_map s;
          (err, s) \<leftarrow> mmu_map_range mp ret io_mem_start io_mem_size (MMU_PROT_READ OR MMU_PROT_WRITE) MMU_NOCACHE s;
          Some (if err \<noteq> 0 then 0 else ret, s) }"

subsection \<open>Dumping a map\<close>

fun for_idx :: "(nat \<Rightarrow> 'c \<Rightarrow> 'c option) \<Rightarrow> nat \<Rightarrow> nat \<Rightarrow> 'c \<Rightarrow> 'c option" where
  "for_idx body i 0 c = Some c"
| "for_idx body i (Suc n) c = do { c \<leftarrow> body i c; for_idx body (Suc i) n c }"

definition print_line :: "'c putchar_t \<Rightarrow> string \<Rightarrow> u64 list \<Rightarrow> 'c \<Rightarrow> 'c option" where
  "print_line out fmt args c = map_option snd (printf out (bytes_of fmt @ [10, 0]) (map VaWord args) c)"

definition mmu_dump_pde :: "'c putchar_t \<Rightarrow> (u64 \<Rightarrow> u64) \<Rightarrow> nat \<Rightarrow> nat \<Rightarrow> nat \<Rightarrow> pde_t \<Rightarrow> 'c \<Rightarrow> 'c option" where
  "mmu_dump_pde out mem pml4_idx pdpt_idx pd_idx pde c =
     (if pde_is_large pde then
        print_line out ''      PDE: %4d %016lx -> %016lx [%lx]''
          [of_nat pd_idx, pg_index_to_vaddr (of_nat pml4_idx) (of_nat pdpt_idx) (of_nat pd_idx) 0, pde_paddr pde, pde_flags pde] c
      else
        do { c \<leftarrow> print_line out ''      PDE: %d @ %016lx [%lx]'' [of_nat pd_idx, pde_paddr pde, pde_flags pde] c;
             let pt = paddr_to_ptr (pde_paddr pde);
             for_idx (\<lambda>pt_idx c.
               let pte = pg_entry mem pt (of_nat pt_idx)
               in if pte_is_none pte then Some c
                  else print_line out ''      PTE: %4d %016lx -> %016lx [%lx]''
                    [of_nat pd_idx, pg_index_to_vaddr (of_nat pml4_idx) (of_nat pdpt_idx) (of_nat pd_idx) (of_nat pt_idx),
                     pte_paddr pte, pte_flags pte] c) 0 NR_PG_ENTRIES c })"

definition mmu_dump_pdpte :: "'c putchar_t \<Rightarrow> (u64 \<Rightarrow> u64) \<Rightarrow> nat \<Rightarrow> nat \<Rightarrow> pdpte_t \<Rightarrow> 'c \<Rightarrow> 'c option" where
  "mmu_dump_pdpte out mem pml4_idx pdpt_idx pdpte c =
     do { c \<leftarrow> print_line out ''    PDPTE: %d @ %016lx [%lx]'' [of_nat pdpt_idx, pdpte_paddr pdpte, pdpte_flags pdpte] c;
          let pd = paddr_to_ptr (pdpte_paddr pdpte);
          for_idx (\<lambda>pd_idx c.
            let pde = pg_entry mem pd (of_nat pd_idx)
            in if pde_is_none pde then Some c else mmu_dump_pde out mem pml4_idx pdpt_idx pd_idx pde c) 0 NR_PG_ENTRIES c }"

definition mmu_dump_pml4e :: "'c putchar_t \<Rightarrow> (u64 \<Rightarrow> u64) \<Rightarrow> nat \<Rightarrow> pml4e_t \<Rightarrow> 'c \<Rightarrow> 'c option" where
  "mmu_dump_pml4e out mem pml4_idx pml4e c =
     do { c \<leftarrow> print_line out ''  PML4E: %d @ %016lx [%lx]'' [of_nat pml4_idx, pml4e_paddr pml4e, pml4e_flags pml4e] c;
          let pdp_table = paddr_to_ptr (pml4e_paddr pml4e);
          for_idx (\<lambda>pdpt_idx c.
            let pdpte = pg_entry mem pdp_table (of_nat pdpt_idx)
            in if pdpte_is_none pdpte then Some c else mmu_dump_pdpte out mem pml4_idx pdpt_idx pdpte c) 0 NR_PG_ENTRIES c }"

definition mmu_map_dump :: "'c putchar_t \<Rightarrow> (u64 \<Rightarrow> u64) \<Rightarrow> mmu_map_t \<Rightarrow> 'c \<Rightarrow> 'c option" where
  "mmu_map_dump out mem mp c =
     do { let pml4_table = paddr_to_ptr (cr3 mp);
          c \<leftarrow> print_line out ''PML4 table: %p'' [pml4_table] c;
          for_idx (\<lambda>pml4_idx c.
            let pml4e = pg_entry mem pml4_table (of_nat pml4_idx)
            in if pml4e_is_none pml4e then Some c else mmu_dump_pml4e out mem pml4_idx pml4e c) 0 NR_PG_ENTRIES c }"

end
