(* ===== verification/MmuProofs.thy ===== *)
theory MmuProofs
  imports Mmu
begin

text \<open>
  What the page table code establishes, in terms of the walk that the hardware performs: mapping
  a page changes the translation of the addresses of that page and of no others. Level 3 is the
  PML4, level 2 the PDPT, level 1 the page directory, level 0 the page table.
\<close>

subsection \<open>The hardware's walk\<close>

definition pe_next :: "u64 \<Rightarrow> u64" where
  "pe_next e = paddr_to_ptr (e AND NOT 0x80000000000007ff)"

definition pg_index :: "nat \<Rightarrow> u64 \<Rightarrow> u64" where
  "pg_index n v = drop_bit (12 + 9 * n) v AND PG_INDEX_MASK"

text \<open>The result of a walk is the level and the value of the entry that maps the page.\<close>

fun pg_walk :: "nat \<Rightarrow> (u64 \<Rightarrow> u64) \<Rightarrow> u64 \<Rightarrow> u64 \<Rightarrow> (nat \<times> u64) option" where
  "pg_walk 0 mem t v =
     (let e = pg_entry mem t (pg_index 0 v) in if e AND X86_PE_P = 0 then None else Some (0, e))"
| "pg_walk (Suc n) mem t v =
     (let e = pg_entry mem t (pg_index (Suc n) v)
      in if e AND X86_PE_P = 0 then None
         else if n = 0 \<and> pde_is_large e then Some (1, e)
         else pg_walk n mem (pe_next e) v)"

definition mmu_walk :: "('t, 'c) mmu_state \<Rightarrow> mmu_map_t \<Rightarrow> virt_t \<Rightarrow> (nat \<times> u64) option" where
  "mmu_walk s mp v = pg_walk 3 (mm_mem s) (paddr_to_ptr (cr3 mp)) v"

subsection \<open>Well-formed tables\<close>

definition pg_child :: "nat \<Rightarrow> (u64 \<Rightarrow> u64) \<Rightarrow> u64 \<Rightarrow> u64 \<Rightarrow> u64 option" where
  "pg_child n mem t i =
     (let e = pg_entry mem t i in if e = 0 \<or> n = 0 \<and> pde_is_large e then None else Some (pe_next e))"

fun pg_tables :: "nat \<Rightarrow> (u64 \<Rightarrow> u64) \<Rightarrow> u64 \<Rightarrow> u64 set" where
  "pg_tables 0 mem t = {t}"
| "pg_tables (Suc n) mem t = {t} \<union> (\<Union>i \<in> {i. unat i < 512}. case pg_child n mem t i of None \<Rightarrow> {} | Some c \<Rightarrow> pg_tables n mem c)"

definition direct_page :: "u64 \<Rightarrow> bool" where
  "direct_page t \<longleftrightarrow> page_ok t \<and> KERNEL_VMA \<le> t"

definition pg_present :: "(u64 \<Rightarrow> u64) \<Rightarrow> u64 \<Rightarrow> bool" where
  "pg_present mem t \<longleftrightarrow> direct_page t \<and> (\<forall>i. unat i < 512 \<longrightarrow> pg_entry mem t i = 0 \<or> pg_entry mem t i AND X86_PE_P \<noteq> 0)"

text \<open>The tables form a tree: no table is reached over two paths.\<close>

fun pg_wf :: "nat \<Rightarrow> (u64 \<Rightarrow> u64) \<Rightarrow> u64 \<Rightarrow> bool" where
  "pg_wf 0 mem t \<longleftrightarrow> pg_present mem t"
| "pg_wf (Suc n) mem t \<longleftrightarrow> pg_present mem t
     \<and> (\<forall>i c. unat i < 512 \<and> pg_child n mem t i = Some c \<longrightarrow> pg_wf n mem c \<and> t \<notin> pg_tables n mem c)
     \<and> (\<forall>i j c d. unat i < 512 \<and> unat j < 512 \<and> i \<noteq> j \<and> pg_child n mem t i = Some c \<and> pg_child n mem t j = Some d
          \<longrightarrow> pg_tables n mem c \<inter> pg_tables n mem d = {})"

lemma pg_tables_Suc_iff:
  "p \<in> pg_tables (Suc n) mem t \<longleftrightarrow> p = t \<or> (\<exists>i c. unat i < 512 \<and> pg_child n mem t i = Some c \<and> p \<in> pg_tables n mem c)"
  by (auto split: option.splits)

lemma pg_tables_self [simp]: "t \<in> pg_tables n mem t"
  by (cases n) simp_all

lemma pg_wf_SucI:
  assumes "pg_present mem t"
    and "\<And>i c. unat i < 512 \<Longrightarrow> pg_child n mem t i = Some c \<Longrightarrow> pg_wf n mem c \<and> t \<notin> pg_tables n mem c"
    and "\<And>i j c d. unat i < 512 \<Longrightarrow> unat j < 512 \<Longrightarrow> i \<noteq> j \<Longrightarrow> pg_child n mem t i = Some c \<Longrightarrow> pg_child n mem t j = Some d \<Longrightarrow>
      pg_tables n mem c \<inter> pg_tables n mem d = {}"
  shows "pg_wf (Suc n) mem t"
  using assms by (simp only: pg_wf.simps) blast

lemma pg_wf_SucD:
  assumes "pg_wf (Suc n) mem t" and "unat i < 512" and "pg_child n mem t i = Some c"
  shows "pg_wf n mem c" and "t \<notin> pg_tables n mem c"
    and "unat j < 512 \<Longrightarrow> i \<noteq> j \<Longrightarrow> pg_child n mem t j = Some d \<Longrightarrow> pg_tables n mem c \<inter> pg_tables n mem d = {}"
  using assms by (simp_all only: pg_wf.simps) blast+

lemma pg_wf_present: "pg_wf n mem t \<Longrightarrow> pg_present mem t"
  by (cases n) simp_all

declare pg_wf.simps(2) [simp del] pg_tables.simps(2) [simp del] pg_walk.simps(2) [simp del]

definition mm_avail :: "('t, 'c) mmu_state \<Rightarrow> nat set" where
  "mm_avail s = arena_avail (KERNEL_SMALL_PAGE_ARENA (mm_pages s))"

definition pg_inv :: "nat \<Rightarrow> u64 \<Rightarrow> ('t, 'c) mmu_state \<Rightarrow> bool" where
  "pg_inv n t s \<longleftrightarrow> pg_wf n (mm_mem s) t \<and> arena_wf 4096 (KERNEL_SMALL_PAGE_ARENA (mm_pages s))
     \<and> mm_avail s \<subseteq> {unat KERNEL_VMA..} \<and> (\<forall>p \<in> pg_tables n (mm_mem s) t. page_bytes 4096 p \<inter> mm_avail s = {})"

text \<open>What a change below table \<open>t\<close> may touch: the tables there and pages that were available.\<close>

definition pg_frame :: "nat \<Rightarrow> u64 \<Rightarrow> ('t, 'c) mmu_state \<Rightarrow> ('t, 'c) mmu_state \<Rightarrow> bool" where
  "pg_frame n t s s' \<longleftrightarrow> mm_avail s' \<subseteq> mm_avail s
     \<and> (\<forall>p \<in> pg_tables n (mm_mem s') t. p \<in> pg_tables n (mm_mem s) t \<or> page_bytes 4096 p \<subseteq> mm_avail s)
     \<and> (\<forall>a. mm_mem s' a \<noteq> mm_mem s a \<longrightarrow> (\<exists>p \<in> pg_tables n (mm_mem s) t. unat a \<in> page_bytes 4096 p) \<or> unat a \<in> mm_avail s)
     \<and> mm_cr3 s' = mm_cr3 s \<and> kernel_vm_end s' = kernel_vm_end s"

lemma pg_frame_trans:
  assumes "pg_frame n t s1 s2" and "pg_frame n t s2 s3"
  shows "pg_frame n t s1 s3"
proof -
  have t2: "p \<in> pg_tables n (mm_mem s1) t \<or> page_bytes 4096 p \<subseteq> mm_avail s1" if "p \<in> pg_tables n (mm_mem s2) t" for p
    using assms(1) that by (simp add: pg_frame_def)
  have av: "mm_avail s2 \<subseteq> mm_avail s1" using assms(1) by (simp add: pg_frame_def)
  have "p \<in> pg_tables n (mm_mem s1) t \<or> page_bytes 4096 p \<subseteq> mm_avail s1" if "p \<in> pg_tables n (mm_mem s3) t" for p
    using assms(2) that t2 [of p] av by (auto simp: pg_frame_def)
  moreover have "(\<exists>p \<in> pg_tables n (mm_mem s1) t. unat a \<in> page_bytes 4096 p) \<or> unat a \<in> mm_avail s1"
    if "mm_mem s3 a \<noteq> mm_mem s1 a" for a
  proof (cases "mm_mem s2 a = mm_mem s1 a")
    case True
    then have "(\<exists>p \<in> pg_tables n (mm_mem s2) t. unat a \<in> page_bytes 4096 p) \<or> unat a \<in> mm_avail s2"
      using assms(2) that by (simp add: pg_frame_def)
    then show ?thesis using t2 av by blast
  next
    case False
    then show ?thesis using assms(1) by (simp add: pg_frame_def)
  qed
  moreover have "mm_avail s3 \<subseteq> mm_avail s1" using assms(2) av by (auto simp: pg_frame_def)
  ultimately show ?thesis using assms by (simp add: pg_frame_def)
qed

lemma pg_frame_refl [simp]: "pg_frame n t s s"
  by (simp add: pg_frame_def)

lemma unat_entry:
  assumes "page_ok t" and "unat i < 512"
  shows "unat (t + 8 * i) = unat t + 8 * unat i"
proof -
  have "unat (8 * i) = 8 * unat i"
    using assms(2) by (simp add: unat_word_ariths)
  moreover have "unat t + 8 * unat i < 2 ^ 64" using assms by (simp add: page_ok_def)
  ultimately show ?thesis by (subst unat_add_no_wrap) simp_all
qed

lemma entry_in_page: "page_ok t \<Longrightarrow> unat i < 512 \<Longrightarrow> unat (t + 8 * i) \<in> page_bytes 4096 t"
  by (simp add: unat_entry page_bytes_def)

lemma entry_inj: "page_ok t \<Longrightarrow> unat i < 512 \<Longrightarrow> unat j < 512 \<Longrightarrow> t + 8 * i = t + 8 * j \<Longrightarrow> i = j"
  using unat_entry [of t i] unat_entry [of t j] by (simp add: word_unat_eq_iff)

lemma pg_index_less [simp]: "unat (pg_index n v) < 512"
proof -
  have m: "PG_INDEX_MASK = mask 9" by (simp add: PG_INDEX_MASK_def mask_eq_decr_exp)
  have "unat (pg_index n v) = unat (drop_bit (12 + 9 * n) v) mod 2 ^ 9"
    unfolding pg_index_def m by (rule unat_mask_and)
  then show ?thesis by simp
qed

lemma present_iff: "pg_wf n mem t \<Longrightarrow> unat i < 512 \<Longrightarrow> pg_entry mem t i AND X86_PE_P = 0 \<longleftrightarrow> pg_entry mem t i = 0"
  using pg_wf_present [of n mem t] by (auto simp: pg_present_def)

lemma pg_walk_Suc:
  assumes "pg_wf (Suc n) mem t"
  shows "pg_walk (Suc n) mem t v =
     (case pg_child n mem t (pg_index (Suc n) v) of
        None \<Rightarrow> (let e = pg_entry mem t (pg_index (Suc n) v) in if e = 0 then None else Some (1, e))
      | Some c \<Rightarrow> pg_walk n mem c v)"
  using present_iff [OF assms, of "pg_index (Suc n) v"] by (auto simp: pg_walk.simps pg_child_def Let_def)

text \<open>A walk, the tables and their well-formedness depend on the words of the tables only.\<close>

lemma pg_agree:
  assumes "pg_wf n mem t" and "\<And>p i. p \<in> pg_tables n mem t \<Longrightarrow> unat i < 512 \<Longrightarrow> pg_entry mem' p i = pg_entry mem p i"
  shows "pg_tables n mem' t = pg_tables n mem t \<and> pg_wf n mem' t \<and> (\<forall>v. pg_walk n mem' t v = pg_walk n mem t v)"
  using assms
proof (induction n arbitrary: t)
  case 0
  then show ?case by (simp add: pg_present_def)
next
  case (Suc n)
  have e: "pg_entry mem' t i = pg_entry mem t i" if "unat i < 512" for i
    using Suc.prems(2) [of t i] that by simp
  have ch: "pg_child n mem' t i = pg_child n mem t i" if "unat i < 512" for i
    using e [OF that] by (simp add: pg_child_def)
  have sub: "pg_tables n mem' c = pg_tables n mem c \<and> pg_wf n mem' c \<and> (\<forall>v. pg_walk n mem' c v = pg_walk n mem c v)"
    if "unat i < 512" "pg_child n mem t i = Some c" for i c
  proof (rule Suc.IH)
    show "pg_wf n mem c" using pg_wf_SucD(1) [OF Suc.prems(1) that] .
    show "pg_entry mem' p j = pg_entry mem p j" if "p \<in> pg_tables n mem c" "unat j < 512" for p j
      using that \<open>unat i < 512\<close> \<open>pg_child n mem t i = Some c\<close> by (intro Suc.prems(2)) (auto simp: pg_tables_Suc_iff)
  qed
  have "pg_tables (Suc n) mem' t = pg_tables (Suc n) mem t"
    using sub by (auto simp: ch pg_tables_Suc_iff)
  moreover have "pg_wf (Suc n) mem' t"
  proof (rule pg_wf_SucI)
    show "pg_present mem' t" using pg_wf_present [OF Suc.prems(1)] e by (simp add: pg_present_def)
    show "pg_wf n mem' c \<and> t \<notin> pg_tables n mem' c" if "unat i < 512" "pg_child n mem' t i = Some c" for i c
      using pg_wf_SucD(1,2) [OF Suc.prems(1), of i c] sub [of i c] that by (simp add: ch)
    show "pg_tables n mem' c \<inter> pg_tables n mem' d = {}"
      if "unat i < 512" "unat j < 512" "i \<noteq> j" "pg_child n mem' t i = Some c" "pg_child n mem' t j = Some d" for i j c d
      using pg_wf_SucD(3) [OF Suc.prems(1), of i c j d] sub [of i c] sub [of j d] that by (simp add: ch)
  qed
  moreover have "pg_walk (Suc n) mem' t v = pg_walk (Suc n) mem t v" for v
    using sub [of "pg_index (Suc n) v"] by (auto simp: pg_walk_Suc \<open>pg_wf (Suc n) mem' t\<close> Suc.prems(1) ch e split: option.split)
  ultimately show ?case by blast
qed

lemma pg_replace:
  assumes wf: "pg_wf (Suc n) mem t" and i: "unat i < 512" and pr: "pg_present mem' t"
    and same: "\<And>j. unat j < 512 \<Longrightarrow> j \<noteq> i \<Longrightarrow> pg_entry mem' t j = pg_entry mem t j"
    and agree: "\<And>j c p k. unat j < 512 \<Longrightarrow> j \<noteq> i \<Longrightarrow> pg_child n mem t j = Some c \<Longrightarrow> p \<in> pg_tables n mem c \<Longrightarrow>
      unat k < 512 \<Longrightarrow> pg_entry mem' p k = pg_entry mem p k"
    and new: "\<And>c. pg_child n mem' t i = Some c \<Longrightarrow> pg_wf n mem' c \<and> t \<notin> pg_tables n mem' c"
    and disj: "\<And>c j d. pg_child n mem' t i = Some c \<Longrightarrow> unat j < 512 \<Longrightarrow> j \<noteq> i \<Longrightarrow> pg_child n mem t j = Some d \<Longrightarrow>
      pg_tables n mem' c \<inter> pg_tables n mem d = {}"
  shows "pg_wf (Suc n) mem' t"
    and "p \<in> pg_tables (Suc n) mem' t \<longleftrightarrow> p = t \<or> (\<exists>j d. unat j < 512 \<and> j \<noteq> i \<and> pg_child n mem t j = Some d \<and> p \<in> pg_tables n mem d)
      \<or> (\<exists>c. pg_child n mem' t i = Some c \<and> p \<in> pg_tables n mem' c)"
    and "pg_index (Suc n) v \<noteq> i \<Longrightarrow> pg_walk (Suc n) mem' t v = pg_walk (Suc n) mem t v"
proof -
  have ch: "pg_child n mem' t j = pg_child n mem t j" if "unat j < 512" "j \<noteq> i" for j
    using same [OF that] by (simp add: pg_child_def)
  have sub: "pg_tables n mem' c = pg_tables n mem c \<and> pg_wf n mem' c \<and> (\<forall>v. pg_walk n mem' c v = pg_walk n mem c v)"
    if "unat j < 512" "j \<noteq> i" "pg_child n mem t j = Some c" for j c
    using pg_wf_SucD(1) [OF wf that(1,3)] agree [OF that] by (intro pg_agree)
  show wf': "pg_wf (Suc n) mem' t"
  proof (rule pg_wf_SucI [OF pr])
    show "pg_wf n mem' c \<and> t \<notin> pg_tables n mem' c" if "unat j < 512" "pg_child n mem' t j = Some c" for j c
    proof (cases "j = i")
      case False
      then show ?thesis using pg_wf_SucD(2) [OF wf, of j c] sub [of j c] that by (simp add: ch)
    qed (use new that in simp)
    show "pg_tables n mem' c \<inter> pg_tables n mem' d = {}"
      if "unat j < 512" "unat k < 512" "j \<noteq> k" "pg_child n mem' t j = Some c" "pg_child n mem' t k = Some d" for j k c d
    proof -
      consider "j = i" | "k = i" | "j \<noteq> i" "k \<noteq> i" by blast
      then show ?thesis
      proof cases
        case 1
        then show ?thesis using disj [of c k d] sub [of k d] that by (simp add: ch)
      next
        case 2
        then show ?thesis using disj [of d j c] sub [of j c] that by (simp add: ch Int_commute)
      next
        case 3
        then show ?thesis using pg_wf_SucD(3) [OF wf, of j c k d] sub [of j c] sub [of k d] that by (simp add: ch)
      qed
    qed
  qed
  show "p \<in> pg_tables (Suc n) mem' t \<longleftrightarrow> p = t \<or> (\<exists>j d. unat j < 512 \<and> j \<noteq> i \<and> pg_child n mem t j = Some d \<and> p \<in> pg_tables n mem d)
      \<or> (\<exists>c. pg_child n mem' t i = Some c \<and> p \<in> pg_tables n mem' c)"
    using i sub unfolding pg_tables_Suc_iff by (metis ch)
  show "pg_walk (Suc n) mem' t v = pg_walk (Suc n) mem t v" if "pg_index (Suc n) v \<noteq> i"
    using sub [of "pg_index (Suc n) v"] that
    by (auto simp: pg_walk_Suc wf wf' ch same split: option.split)
qed

lemma empty_table:
  assumes "direct_page t" and "\<And>i. unat i < 512 \<Longrightarrow> pg_entry mem t i = 0"
  shows "pg_wf n mem t" and "pg_tables n mem t = {t}" and "pg_walk n mem t v = None"
proof -
  have p: "pg_present mem t" using assms by (simp add: pg_present_def)
  have ch: "pg_child n mem t i = None" if "unat i < 512" for n i
    using assms(2) [OF that] by (simp add: pg_child_def)
  show w: "pg_wf n mem t"
    using p ch by (cases n) (auto intro!: pg_wf_SucI)
  show "pg_tables n mem t = {t}"
    using ch by (cases n) (auto simp: pg_tables_Suc_iff)
  show "pg_walk n mem t v = None"
    using w ch assms(2) by (cases n) (auto simp: pg_walk_Suc)
qed

subsection \<open>New tables\<close>

definition hw_ok :: "u64 \<Rightarrow> bool" where
  "hw_ok h \<longleftrightarrow> h \<in> {0, 4, 16, 20}"

lemma hw_ok_flags: "hw_ok (mmu_flags_to_hw flags)"
  by (simp add: hw_ok_def mmu_flags_to_hw_def X86_PE_US_def X86_PE_PCD_def Let_def)

lemma flags_mask_bit: "bit (0x80000000000007ff :: u64) k \<longleftrightarrow> k < 11 \<or> k = 63"
proof -
  have "(0x80000000000007ff :: u64) = mask 11 OR push_bit 63 1" by (simp add: mask_eq_decr_exp)
  moreover have "bit (mask 11 OR push_bit 63 1 :: u64) k \<longleftrightarrow> k < 11 \<or> k = 63"
    by (simp only: bit_or_iff bit_mask_iff bit_push_bit_iff bit_1_iff) auto
  ultimately show ?thesis by (simp only:)
qed

lemma bit_bound:
  fixes f :: u64
  assumes "unat f < 2 ^ n" and "bit f k"
  shows "k < n"
proof -
  have "unat (take_bit n f) = unat f" using assms(1) by (simp add: unat_take_bit)
  then have "take_bit n f = f" by (simp add: word_unat_eq_iff)
  then show ?thesis using assms(2) by (metis bit_take_bit_iff)
qed

lemma pde_is_large_bit: "pde_is_large e \<longleftrightarrow> bit e 7"
  using and_exp_eq_0_iff_not_bit [of e 7] by (simp add: pde_is_large_def X86_PE_PS_def)

lemma present_bit: "e AND X86_PE_P = 0 \<longleftrightarrow> \<not> bit e 0"
  using and_exp_eq_0_iff_not_bit [of e 0] by (simp add: X86_PE_P_def)

lemma page_bits:
  fixes q :: u64
  assumes "4096 dvd unat q" and "unat q < 2 ^ 63" and "bit q k"
  shows "12 \<le> k" and "k < 63"
proof -
  have "unat (take_bit 12 q) = 0" using assms(1) by (simp add: unat_take_bit)
  then have "take_bit 12 q = 0" by (simp add: unat_eq_0)
  then show "12 \<le> k" using assms(3) by (metis bit_take_bit_iff bit_0_eq bot_apply bot_bool_def not_less)
  show "k < 63" using bit_bound [OF assms(2,3)] .
qed

text \<open>The entry of a page that is aligned: address and flags do not overlap.\<close>

lemma entry_address:
  fixes q :: u64
  assumes "4096 dvd unat q" and "unat q < 2 ^ 63" and "\<And>k. bit f k \<Longrightarrow> k < 11 \<or> k = 63"
  shows "(q OR f) AND NOT 0x80000000000007ff = q"
proof (rule bit_word_eqI)
  fix k assume "k < LENGTH(64)"
  then show "bit ((q OR f) AND NOT 0x80000000000007ff) k = bit q k"
    using page_bits [OF assms(1,2), of k] assms(3) [of k]
    by (simp only: bit_and_iff bit_or_iff bit_not_iff flags_mask_bit possible_bit_word) auto
qed

lemma new_table_entry:
  assumes "direct_page r" and "hw_ok h"
  defines "e \<equiv> ptr_to_paddr r OR (X86_PE_P OR X86_PE_RW OR h)"
  shows "pe_next e = r" and "\<not> pde_is_large e" and "e AND X86_PE_P \<noteq> 0" and "e \<noteq> 0"
proof -
  define q where "q = ptr_to_paddr r"
  have "unat q = unat r - unat KERNEL_VMA"
    using assms(1) by (simp add: q_def ptr_to_paddr_def virt_to_phys_def unat_sub direct_page_def)
  moreover have "unat KERNEL_VMA = 4096 * 4503599626846208" by (simp add: KERNEL_VMA_def)
  moreover have "4096 dvd unat r" using assms(1) by (simp add: direct_page_def page_ok_def)
  ultimately have q: "4096 dvd unat q" "unat q < 2 ^ 63"
    using unat_lt64 [of r] by (auto intro: dvd_diff_nat)
  have f: "X86_PE_P OR X86_PE_RW OR h \<in> {3, 7, 19, 23}"
    using assms(2) by (auto simp: hw_ok_def X86_PE_P_def X86_PE_RW_def)
  have fb: "k < 11 \<or> k = 63" if "bit (X86_PE_P OR X86_PE_RW OR h) k" for k
    using f bit_bound [OF _ that, of 5] by fastforce
  have "e AND NOT 0x80000000000007ff = q"
    unfolding e_def q_def [symmetric] by (rule entry_address [OF q fb])
  then show "pe_next e = r"
    by (simp add: pe_next_def paddr_to_ptr_def q_def ptr_to_paddr_def virt_to_phys_def)
  have "\<not> bit q 7" using page_bits(1) [OF q, of 7] by auto
  moreover have "\<not> bit (X86_PE_P OR X86_PE_RW OR h) 7" "bit (X86_PE_P OR X86_PE_RW OR h) 0" using f by auto
  ultimately show "\<not> pde_is_large e" and present: "e AND X86_PE_P \<noteq> 0"
    unfolding e_def q_def [symmetric] by (auto simp: pde_is_large_bit present_bit bit_or_iff)
  show "e \<noteq> 0" using present by auto
qed

lemma pg_tables_direct: "pg_wf n mem t \<Longrightarrow> p \<in> pg_tables n mem t \<Longrightarrow> direct_page p"
proof (induction n arbitrary: t)
  case 0
  then show ?case by (simp add: pg_present_def)
next
  case (Suc n)
  then show ?case
    using pg_wf_present [OF Suc.prems(1)] pg_wf_SucD(1) [OF Suc.prems(1)]
    by (auto simp: pg_tables_Suc_iff pg_present_def)
qed

text \<open>An entry of a table is written: the words of the other tables stay.\<close>

lemma entry_other:
  assumes "direct_page t" and "direct_page p" and "unat i < 512" and "unat j < 512" and "p \<noteq> t \<or> j \<noteq> i"
  shows "p + 8 * j \<noteq> t + 8 * i"
proof (cases "p = t")
  case True
  then show ?thesis using assms entry_inj [of t j i] by (auto simp: direct_page_def)
next
  case False
  then have "page_bytes 4096 p \<inter> page_bytes 4096 t = {}"
    using assms by (intro page_bytes_disjoint) (simp_all add: direct_page_def)
  then show ?thesis
    using entry_in_page [of p j] entry_in_page [of t i] assms by (auto simp: direct_page_def)
qed

lemma pg_entry_set:
  assumes "direct_page t" and "direct_page p" and "unat i < 512" and "unat j < 512"
  shows "pg_entry (mm_mem (set_pg_entry t i e s)) p j = (if p = t \<and> j = i then e else pg_entry (mm_mem s) p j)"
  using entry_other [OF assms] by (auto simp: set_pg_entry_def pg_entry_def)

lemma zero_page_eq: "zero_page page s = s\<lparr>mm_mem := (\<lambda>a. if unat a \<in> page_bytes 4096 page then 0 else mm_mem s a)\<rparr>"
proof -
  have "page \<le> a \<and> a - page < PAGE_SIZE_SMALL \<longleftrightarrow> unat a \<in> page_bytes 4096 page" for a
    by (auto simp: word_le_nat_alt word_less_nat_alt unat_sub page_bytes_def)
  then show ?thesis by (simp add: zero_page_def)
qed

lemma pg_entry_zero:
  assumes "direct_page r" and "direct_page p" and "unat j < 512"
  shows "pg_entry (mm_mem (zero_page r s)) p j = (if p = r then 0 else pg_entry (mm_mem s) p j)"
proof -
  have "unat (p + 8 * j) \<in> page_bytes 4096 r \<longleftrightarrow> p = r"
    using entry_in_page [of p j] page_bytes_disjoint [of p r] assms by (auto simp: direct_page_def)
  then show ?thesis by (simp add: pg_entry_def zero_page_eq)
qed

lemma pg_invD:
  assumes "pg_inv n t s"
  shows "pg_wf n (mm_mem s) t" and "arena_wf 4096 (KERNEL_SMALL_PAGE_ARENA (mm_pages s))" and "mm_avail s \<subseteq> {unat KERNEL_VMA..}"
    and "p \<in> pg_tables n (mm_mem s) t \<Longrightarrow> page_bytes 4096 p \<inter> mm_avail s = {}" and "direct_page t"
  using assms pg_wf_present [of n "mm_mem s" t] by (simp_all add: pg_inv_def pg_present_def)

lemma new_table_ok:
  assumes inv: "pg_inv (Suc n) t s" and h: "hw_ok h" and i: "unat i < 512" and none: "pg_entry (mm_mem s) t i = 0"
    and r: "direct_page r" "page_bytes 4096 r \<subseteq> mm_avail s" and ar: "arena_wf 4096 (KERNEL_SMALL_PAGE_ARENA p')"
    and av: "arena_avail (KERNEL_SMALL_PAGE_ARENA p') = mm_avail s - page_bytes 4096 r"
  defines "e \<equiv> ptr_to_paddr r OR (X86_PE_P OR X86_PE_RW OR h)"
  defines "s' \<equiv> set_pg_entry t i e (zero_page r (s\<lparr>mm_pages := p'\<rparr>))"
  shows "pg_inv (Suc n) t s'" and "pg_frame (Suc n) t s s'"
    and "pg_walk (Suc n) (mm_mem s') t v = pg_walk (Suc n) (mm_mem s) t v" and "pg_entry (mm_mem s') t i = e" and "e \<noteq> 0"
proof -
  let ?m = "mm_mem s" and ?m' = "mm_mem s'"
  note inv = pg_invD [OF inv]
  note new = new_table_entry [OF r(1) h, folded e_def]
  have rp: "unat r \<in> page_bytes 4096 r" by (simp add: page_bytes_def)
  have r_new: "p \<noteq> r" if "p \<in> pg_tables (Suc n) ?m t" for p
    using inv(4) [OF that] rp r(2) by auto
  have ent: "pg_entry ?m' p j = (if p = t \<and> j = i then e else if p = r then 0 else pg_entry ?m p j)"
    if "direct_page p" "unat j < 512" for p j
    unfolding s'_def using that inv(5) r(1) i by (subst pg_entry_set) (simp_all add: pg_entry_zero)
  have rt: "r \<noteq> t" using r_new [of t] by simp
  show "pg_entry ?m' t i = e" and "e \<noteq> 0" using ent [OF inv(5) i] new(4) by simp_all
  have sub: "c \<in> pg_tables (Suc n) ?m t" "pg_tables n ?m c \<subseteq> pg_tables (Suc n) ?m t" if "unat j < 512" "pg_child n ?m t j = Some c" for j c
    using that by (auto simp: pg_tables_Suc_iff intro: exI [of _ j])
  have none_child: "pg_child n ?m t i = None" using none by (simp add: pg_child_def)
  have child: "pg_child n ?m' t i = Some r" using ent [OF inv(5) i] new by (simp add: pg_child_def)
  note empty = empty_table [of r ?m', OF r(1)]
  have z: "pg_entry ?m' r j = 0" if "unat j < 512" for j using ent [OF r(1) that] rt by simp
  have pr: "pg_present ?m' t"
    using pg_wf_present [OF inv(1)] ent [OF inv(5)] new(3) rt by (auto simp: pg_present_def)
  have agree: "pg_entry ?m' p k = pg_entry ?m p k"
    if "unat j < 512" "pg_child n ?m t j = Some c" "p \<in> pg_tables n ?m c" "unat k < 512" for j c p k
  proof -
    have "p \<noteq> t" using pg_wf_SucD(2) [OF inv(1) that(1,2)] that(3) by auto
    moreover have "p \<in> pg_tables (Suc n) ?m t" using sub(2) [OF that(1,2)] that(3) by auto
    ultimately show ?thesis using ent [OF pg_tables_direct [OF inv(1)] that(4), of p] r_new [of p] by simp
  qed
  have disj: "pg_tables n ?m' r \<inter> pg_tables n ?m d = {}" if "unat j < 512" "pg_child n ?m t j = Some d" for j d
    using empty(2) [of n, OF z] r_new sub(2) [OF that] by auto
  note rep = pg_replace [OF inv(1) i pr, unfolded child option.inject]
  have wf': "pg_wf (Suc n) ?m' t"
    using ent [OF inv(5)] agree disj empty(1,2) [of n, OF z] rt by (intro rep(1)) auto
  have tab: "pg_tables (Suc n) ?m' t = insert r (pg_tables (Suc n) ?m t)"
  proof (rule set_eqI)
    fix p
    have "p \<in> pg_tables (Suc n) ?m' t \<longleftrightarrow> p = t \<or> (\<exists>j d. unat j < 512 \<and> j \<noteq> i \<and> pg_child n ?m t j = Some d \<and> p \<in> pg_tables n ?m d) \<or> p = r"
      using ent [OF inv(5)] agree disj empty(1,2) [of n, OF z] rt by (subst rep(2)) auto
    then show "p \<in> pg_tables (Suc n) ?m' t \<longleftrightarrow> p \<in> insert r (pg_tables (Suc n) ?m t)"
      using none_child by (auto simp: pg_tables_Suc_iff)
  qed
  have av': "mm_avail s' = mm_avail s - page_bytes 4096 r"
    using av by (simp add: mm_avail_def s'_def set_pg_entry_def zero_page_eq)
  have st: "mm_pages s' = p'" "mm_cr3 s' = mm_cr3 s" "kernel_vm_end s' = kernel_vm_end s"
    "?m' a \<noteq> ?m a \<Longrightarrow> unat a \<in> page_bytes 4096 r \<or> a = t + 8 * i" for a
    by (auto simp: s'_def set_pg_entry_def zero_page_eq split: if_splits)
  show "pg_inv (Suc n) t s'"
    using wf' ar inv(3,4) by (auto simp: pg_inv_def tab av' st)
  have "unat (t + 8 * i) \<in> page_bytes 4096 t" using entry_in_page [of t i] inv(5) i by (simp add: direct_page_def)
  then show "pg_frame (Suc n) t s s'"
    using r(2) st(4) by (fastforce simp: pg_frame_def tab av' st(1-3))
  show "pg_walk (Suc n) ?m' t v = pg_walk (Suc n) ?m t v"
  proof (cases "pg_index (Suc n) v = i")
    case True
    then show ?thesis using none_child child empty(3) [of n, OF z] none by (simp add: pg_walk_Suc inv(1) wf')
  next
    case False
    then show ?thesis
      using ent [OF inv(5)] agree disj empty(1,2) [of n, OF z] rt by (intro rep(3)) auto
  qed
qed

lemma table_entry_ok:
  fixes s :: "('t, 'c) mmu_state"
  assumes inv: "pg_inv (Suc n) t s" and h: "hw_ok h" and i: "unat i < 512"
  obtains err e and s' :: "('t, 'c) mmu_state" where
    "mmu_table_entry (\<lambda>e. e = 0) (\<lambda>p f. p OR f) t i h s = Some (err, e, s')"
    "pg_inv (Suc n) t s'" "pg_frame (Suc n) t s s'"
    "\<And>v. pg_walk (Suc n) (mm_mem s') t v = pg_walk (Suc n) (mm_mem s) t v"
    "err = 0 \<and> e \<noteq> 0 \<and> pg_entry (mm_mem s') t i = e \<or> err = - ENOMEM \<and> mm_avail s = {}"
proof (cases "pg_entry (mm_mem s) t i = 0")
  case False
  then show ?thesis
    using that [of 0 "pg_entry (mm_mem s) t i" s] inv by (simp add: mmu_table_entry_def)
next
  case none: True
  note wf = pg_invD(2) [OF inv]
  show ?thesis
  proof (cases "mm_avail s = {}")
    case True
    then have "page_alloc_small (mm_pages s) = Some (0, mm_pages s)"
      using small_pages.alloc_none [OF wf] by (simp add: mm_avail_def)
    then show ?thesis
      using that [of "- ENOMEM" 0 s] inv none True by (simp add: mmu_table_entry_def)
  next
    case False
    then obtain r p' where r: "page_alloc_small (mm_pages s) = Some (r, p')" "r \<noteq> 0" "4096 dvd unat r" "unat r + 4096 \<le> 2 ^ 64"
      "page_bytes 4096 r \<subseteq> mm_avail s" "arena_wf 4096 (KERNEL_SMALL_PAGE_ARENA p')"
      "arena_avail (KERNEL_SMALL_PAGE_ARENA p') = mm_avail s - page_bytes 4096 r"
      using small_pages.alloc_page [OF wf False [unfolded mm_avail_def]] unfolding mm_avail_def by blast
    have "unat r \<in> mm_avail s" using r(5) by (auto simp: page_bytes_def)
    then have "direct_page r"
      using r(2-4) pg_invD(3) [OF inv] by (auto simp: direct_page_def page_ok_def word_le_nat_alt)
    note new = new_table_ok [OF inv h i none this r(5-7)]
    show ?thesis
      by (rule that [OF _ new(1,2,3), of 0 "ptr_to_paddr r OR (X86_PE_P OR X86_PE_RW OR h)"])
        (use r(1,2) none new(4,5) in \<open>simp_all add: mmu_table_entry_def Let_def\<close>)
  qed
qed

subsection \<open>A change below one entry\<close>

lemma child_inv:
  assumes "pg_inv (Suc n) t s" and "unat i < 512" and "pg_child n (mm_mem s) t i = Some c"
  shows "pg_inv n c s"
  using pg_invD [OF assms(1)] pg_wf_SucD(1) [OF pg_invD(1) [OF assms(1)] assms(2,3)] assms(2,3)
  by (auto simp: pg_inv_def pg_tables_Suc_iff)

lemma subtree_step:
  assumes inv: "pg_inv (Suc n) t s" and i: "unat i < 512" and ch: "pg_child n (mm_mem s) t i = Some c"
    and inv': "pg_inv n c s'" and fr: "pg_frame n c s s'"
  shows "pg_inv (Suc n) t s'" and "pg_frame (Suc n) t s s'" and "pg_child n (mm_mem s') t i = Some c"
    and "pg_walk (Suc n) (mm_mem s') t v = (if pg_index (Suc n) v = i then pg_walk n (mm_mem s') c v else pg_walk (Suc n) (mm_mem s) t v)"
proof -
  let ?m = "mm_mem s" and ?m' = "mm_mem s'"
  note D = pg_invD [OF inv] and wfD = pg_wf_SucD [OF pg_invD(1) [OF inv]] and F = fr [unfolded pg_frame_def]
  have sub: "p \<in> pg_tables (Suc n) ?m t" if "unat j < 512" "pg_child n ?m t j = Some d" "p \<in> pg_tables n ?m d" for p j d
    using that by (auto simp: pg_tables_Suc_iff)
  have rp: "unat p \<in> page_bytes 4096 p" for p by (simp add: page_bytes_def)
  have keep: "pg_entry ?m' p k = pg_entry ?m p k"
    if p: "p \<in> pg_tables (Suc n) ?m t" "p \<notin> pg_tables n ?m c" and k: "unat k < 512" for p k
  proof (rule ccontr)
    assume "\<not> ?thesis"
    then have "(\<exists>q \<in> pg_tables n ?m c. unat (p + 8 * k) \<in> page_bytes 4096 q) \<or> unat (p + 8 * k) \<in> mm_avail s"
      using F by (simp add: pg_entry_def)
    moreover have dp: "direct_page p" using pg_tables_direct [OF D(1) p(1)] .
    then have "unat (p + 8 * k) \<in> page_bytes 4096 p" using k by (intro entry_in_page) (simp_all add: direct_page_def)
    moreover have "page_bytes 4096 p \<inter> page_bytes 4096 q = {}" if "q \<in> pg_tables n ?m c" for q
      using dp p(2) that pg_tables_direct [OF D(1) sub [OF i ch that]]
      by (intro page_bytes_disjoint) (auto simp: direct_page_def)
    ultimately show False using D(4) [OF p(1)] by blast
  qed
  have new: "p \<in> pg_tables n ?m c \<or> page_bytes 4096 p \<subseteq> mm_avail s" if "p \<in> pg_tables n ?m' c" for p
    using F that by blast
  have fresh: "q \<notin> pg_tables n ?m' c" if "q \<in> pg_tables (Suc n) ?m t" "q \<notin> pg_tables n ?m c" for q
    using new [of q] that D(4) [OF that(1)] rp [of q] by auto
  have t: "t \<notin> pg_tables n ?m c" using wfD(2) [OF i ch] .
  have other: "p \<notin> pg_tables n ?m c" if "unat j < 512" "j \<noteq> i" "pg_child n ?m t j = Some d" "p \<in> pg_tables n ?m d" for j d p
    using wfD(3) [OF i ch that(1) _ that(3)] that by auto
  have te: "pg_entry ?m' t k = pg_entry ?m t k" if "unat k < 512" for k
    using keep [OF _ t that] by simp
  show ch': "pg_child n ?m' t i = Some c" using ch te [OF i] by (simp add: pg_child_def)
  have pr: "pg_present ?m' t" using pg_wf_present [OF D(1)] te by (simp add: pg_present_def)
  note rep = pg_replace [OF D(1) i pr, unfolded ch' option.inject]
  have ag: "pg_entry ?m' p k = pg_entry ?m p k"
    if "unat j < 512" "j \<noteq> i" "pg_child n ?m t j = Some d" "p \<in> pg_tables n ?m d" "unat k < 512" for j d p k
    using keep [OF sub [OF that(1,3,4)] other [OF that(1-4)] that(5)] .
  have c': "pg_wf n ?m' c \<and> t \<notin> pg_tables n ?m' c" using pg_invD(1) [OF inv'] fresh [OF _ t] by simp
  have dj: "pg_tables n ?m' c \<inter> pg_tables n ?m d = {}" if "unat j < 512" "j \<noteq> i" "pg_child n ?m t j = Some d" for j d
    using fresh [OF sub [OF that(1,3)] other [OF that]] by blast
  have wf': "pg_wf (Suc n) ?m' t"
    by (rule rep(1)) (use te ag c' dj in auto)
  have tab: "p \<in> pg_tables (Suc n) ?m' t \<longleftrightarrow> p = t \<or> (\<exists>j d. unat j < 512 \<and> j \<noteq> i \<and> pg_child n ?m t j = Some d \<and> p \<in> pg_tables n ?m d)
      \<or> p \<in> pg_tables n ?m' c" for p
    by (subst rep(2)) (use te ag c' dj in auto)
  have tab_le: "p \<in> pg_tables (Suc n) ?m t \<or> p \<in> pg_tables n ?m' c" if "p \<in> pg_tables (Suc n) ?m' t" for p
    using that sub unfolding tab by auto
  have av: "mm_avail s' \<subseteq> mm_avail s" using F by blast
  show "pg_inv (Suc n) t s'"
    unfolding pg_inv_def
  proof (intro conjI ballI)
    show "page_bytes 4096 p \<inter> mm_avail s' = {}" if "p \<in> pg_tables (Suc n) ?m' t" for p
      using tab_le [OF that] D(4) [of p] pg_invD(4) [OF inv', of p] av by blast
  qed (use wf' pg_invD [OF inv'] in auto)
  show "pg_frame (Suc n) t s s'"
    unfolding pg_frame_def
  proof (intro conjI ballI allI impI)
    show "p \<in> pg_tables (Suc n) ?m t \<or> page_bytes 4096 p \<subseteq> mm_avail s" if "p \<in> pg_tables (Suc n) ?m' t" for p
      using tab_le [OF that] new [of p] sub [OF i ch, of p] by blast
    show "(\<exists>p \<in> pg_tables (Suc n) ?m t. unat a \<in> page_bytes 4096 p) \<or> unat a \<in> mm_avail s" if "?m' a \<noteq> ?m a" for a
      using F that sub [OF i ch] by blast
  qed (use F in auto)
  show "pg_walk (Suc n) ?m' t v = (if pg_index (Suc n) v = i then pg_walk n ?m' c v else pg_walk (Suc n) ?m t v)"
  proof (cases "pg_index (Suc n) v = i")
    case True
    then show ?thesis by (simp add: pg_walk_Suc wf' ch')
  next
    case False
    have "pg_walk (Suc n) ?m' t v = pg_walk (Suc n) ?m t v"
      by (rule rep(3) [OF _ _ _ _ False]) (use te ag c' dj in auto)
    then show ?thesis using False by simp
  qed
qed

subsection \<open>Mapping a page\<close>

text \<open>The code unrolls this recursion over the levels. The page is mapped by an entry of level \<open>l\<close>.\<close>

fun pg_map :: "nat \<Rightarrow> nat \<Rightarrow> u64 \<Rightarrow> virt_t \<Rightarrow> u64 \<Rightarrow> u64 \<Rightarrow> ('t, 'c) mmu_state \<Rightarrow> (int \<times> ('t, 'c) mmu_state) option" where
  "pg_map l 0 t v w h s = Some (0, set_pg_entry t (pg_index 0 v) w s)"
| "pg_map l (Suc n) t v w h s =
     (if l = Suc n then
        let e = pg_entry (mm_mem s) t (pg_index (Suc n) v)
        in if e \<noteq> 0 \<and> \<not> pde_is_large e then Some (- EINVAL, s)
           else Some (0, set_pg_entry t (pg_index (Suc n) v) w s)
      else do { (err, e, s) \<leftarrow> mmu_table_entry (\<lambda>e. e = 0) (\<lambda>p f. p OR f) t (pg_index (Suc n) v) h s;
                if err \<noteq> 0 then Some (err, s)
                else if n = 0 \<and> pde_is_large e then Some (- EINVAL, s)
                else pg_map l n (pe_next e) v w h s })"

definition pg_mapped :: "nat \<Rightarrow> nat \<Rightarrow> u64 \<Rightarrow> virt_t \<Rightarrow> u64 \<Rightarrow> ('t, 'c) mmu_state \<Rightarrow> ('t, 'c) mmu_state \<Rightarrow> bool" where
  "pg_mapped l n t v w s s' \<longleftrightarrow>
     (\<forall>v'. pg_walk n (mm_mem s') t v' =
        (if \<forall>k. l \<le> k \<and> k \<le> n \<longrightarrow> pg_index k v' = pg_index k v then Some (l, w) else pg_walk n (mm_mem s) t v'))"

definition pg_unmapped :: "nat \<Rightarrow> nat \<Rightarrow> u64 \<Rightarrow> virt_t \<Rightarrow> int \<Rightarrow> ('t, 'c) mmu_state \<Rightarrow> ('t, 'c) mmu_state \<Rightarrow> bool" where
  "pg_unmapped l n t v r s s' \<longleftrightarrow> (\<forall>v'. pg_walk n (mm_mem s') t v' = pg_walk n (mm_mem s) t v')
     \<and> (r = - ENOMEM \<and> mm_avail s' = {} \<or> r = - EINVAL \<and> (l = 0 \<longrightarrow> (\<exists>e. pg_walk n (mm_mem s) t v = Some (1, e))))"

lemma set_entry_frame:
  assumes "pg_inv n t s" and "unat i < 512" and "pg_wf n (mm_mem (set_pg_entry t i w s)) t"
    and "pg_tables n (mm_mem (set_pg_entry t i w s)) t = pg_tables n (mm_mem s) t"
  shows "pg_inv n t (set_pg_entry t i w s)" and "pg_frame n t s (set_pg_entry t i w s)"
proof -
  have av: "mm_avail (set_pg_entry t i w s) = mm_avail s" and st: "mm_pages (set_pg_entry t i w s) = mm_pages s"
    by (simp_all add: set_pg_entry_def mm_avail_def)
  show "pg_inv n t (set_pg_entry t i w s)"
    using assms pg_invD [OF assms(1)] by (simp add: pg_inv_def av st)
  have "unat (t + 8 * i) \<in> page_bytes 4096 t"
    using entry_in_page [of t i] pg_invD(5) [OF assms(1)] assms(2) by (simp add: direct_page_def)
  then have "\<exists>p \<in> pg_tables n (mm_mem s) t. unat (t + 8 * i) \<in> page_bytes 4096 p" using pg_tables_self by blast
  then show "pg_frame n t s (set_pg_entry t i w s)"
    unfolding pg_frame_def assms(4) av by (auto simp: set_pg_entry_def)
qed

lemma leaf_small:
  fixes v :: virt_t
  assumes inv: "pg_inv 0 t s" and w: "w AND X86_PE_P \<noteq> 0"
  defines "s' \<equiv> set_pg_entry t (pg_index 0 v) w s"
  shows "pg_inv 0 t s'" and "pg_frame 0 t s s'" and "pg_mapped 0 0 t v w s s'"
proof -
  note d = pg_invD(5) [OF inv]
  have wf: "pg_wf 0 (mm_mem s') t"
    using pg_wf_present [OF pg_invD(1) [OF inv]] w d by (auto simp: s'_def pg_present_def pg_entry_set)
  show "pg_inv 0 t s'" "pg_frame 0 t s s'"
    unfolding s'_def using wf by (intro set_entry_frame [OF inv]; simp add: s'_def)+
  show "pg_mapped 0 0 t v w s s'"
    using w d by (auto simp: pg_mapped_def s'_def pg_entry_set)
qed

lemma leaf_large:
  fixes v :: virt_t
  assumes inv: "pg_inv (Suc 0) t s" and w: "w AND X86_PE_P \<noteq> 0" "pde_is_large w"
    and free: "pg_entry (mm_mem s) t (pg_index (Suc 0) v) = 0 \<or> pde_is_large (pg_entry (mm_mem s) t (pg_index (Suc 0) v))"
  defines "s' \<equiv> set_pg_entry t (pg_index (Suc 0) v) w s"
  shows "pg_inv (Suc 0) t s'" and "pg_frame (Suc 0) t s s'" and "pg_mapped 1 (Suc 0) t v w s s'"
proof -
  let ?i = "pg_index (Suc 0) v"
  note D = pg_invD [OF inv]
  have w0: "w \<noteq> 0" using w(1) by auto
  have ent: "pg_entry (mm_mem s') p j = (if p = t \<and> j = ?i then w else pg_entry (mm_mem s) p j)" if "direct_page p" "unat j < 512" for p j
    unfolding s'_def using that D(5) by (simp add: pg_entry_set)
  have pr: "pg_present (mm_mem s') t"
    using pg_wf_present [OF D(1)] w(1) ent [OF D(5)] by (auto simp: pg_present_def)
  have none: "pg_child 0 (mm_mem s') t ?i = None" "pg_child 0 (mm_mem s) t ?i = None"
    using ent [OF D(5), of ?i] w(2) free by (auto simp: pg_child_def)
  have ag: "pg_entry (mm_mem s') p k = pg_entry (mm_mem s) p k"
    if "unat j < 512" "pg_child 0 (mm_mem s) t j = Some c" "p \<in> pg_tables 0 (mm_mem s) c" "unat k < 512" for j c p k
    using pg_wf_SucD(1,2) [OF D(1) that(1,2)] that(3,4) ent [of p k] by (auto simp: pg_present_def)
  note rep = pg_replace [OF D(1) pg_index_less [of "Suc 0" v] pr, unfolded none]
  have wf: "pg_wf (Suc 0) (mm_mem s') t"
    by (rule rep(1)) (use ent [OF D(5)] ag in auto)
  have "p \<in> pg_tables (Suc 0) (mm_mem s') t \<longleftrightarrow> p \<in> pg_tables (Suc 0) (mm_mem s) t" for p
  proof -
    have "p \<in> pg_tables (Suc 0) (mm_mem s') t \<longleftrightarrow>
      p = t \<or> (\<exists>j d. unat j < 512 \<and> j \<noteq> ?i \<and> pg_child 0 (mm_mem s) t j = Some d \<and> p \<in> pg_tables 0 (mm_mem s) d)"
      by (subst rep(2)) (use ent [OF D(5)] ag in auto)
    also have "\<dots> \<longleftrightarrow> p \<in> pg_tables (Suc 0) (mm_mem s) t"
      using none(2) unfolding pg_tables_Suc_iff by auto
    finally show ?thesis .
  qed
  then have tab: "pg_tables (Suc 0) (mm_mem s') t = pg_tables (Suc 0) (mm_mem s) t" by blast
  show "pg_inv (Suc 0) t s'" "pg_frame (Suc 0) t s s'"
    unfolding s'_def using wf tab by (intro set_entry_frame [OF inv]; simp add: s'_def)+
  have "pg_walk (Suc 0) (mm_mem s') t v' = (if pg_index (Suc 0) v' = ?i then Some (1, w) else pg_walk (Suc 0) (mm_mem s) t v')" for v'
  proof (cases "pg_index (Suc 0) v' = ?i")
    case True
    then show ?thesis using none(1) ent [OF D(5), of ?i] w0 by (simp add: pg_walk_Suc wf)
  next
    case False
    have "pg_walk (Suc 0) (mm_mem s') t v' = pg_walk (Suc 0) (mm_mem s) t v'"
      by (rule rep(3) [OF _ _ _ _ False]) (use ent [OF D(5)] ag in auto)
    then show ?thesis using False by simp
  qed
  then show "pg_mapped 1 (Suc 0) t v w s s'"
    unfolding pg_mapped_def by (auto simp: le_Suc_eq)
qed

lemma pg_map_ok:
  fixes s :: "('t, 'c) mmu_state"
  assumes "pg_inv n t s" and "l \<le> n" and "l \<le> 1" and "hw_ok h" and "w AND X86_PE_P \<noteq> 0" and "l = 1 \<Longrightarrow> pde_is_large w"
  shows "\<exists>r s'. pg_map l n t v w h s = Some (r, s') \<and> pg_inv n t s' \<and> pg_frame n t s s'
    \<and> (r = 0 \<and> pg_mapped l n t v w s s' \<or> r \<noteq> 0 \<and> pg_unmapped l n t v r s s')"
  using assms(1,2)
proof (induction n arbitrary: t s)
  case 0
  then show ?case using leaf_small [OF 0(1) assms(5), of v] by auto
next
  case (Suc n)
  let ?i = "pg_index (Suc n) v"
  show ?case
  proof (cases "l = Suc n")
    case True
    then have n: "n = 0" and l: "l = 1" using assms(3) by auto
    show ?thesis
    proof (cases "pg_entry (mm_mem s) t ?i \<noteq> 0 \<and> \<not> pde_is_large (pg_entry (mm_mem s) t ?i)")
      case True
      then show ?thesis using Suc.prems n l by (simp add: Let_def pg_unmapped_def EINVAL_def)
    next
      case False
      then show ?thesis
        using leaf_large [of t s w v] Suc.prems(1) n l assms(5,6) by (simp add: Let_def) blast
    qed
  next
    case False
    then have ln: "l \<le> n" using Suc.prems(2) by simp
    obtain err e and s1 :: "('t, 'c) mmu_state" where te: "mmu_table_entry (\<lambda>e. e = 0) (\<lambda>p f. p OR f) t ?i h s = Some (err, e, s1)"
      and s1: "pg_inv (Suc n) t s1" "pg_frame (Suc n) t s s1"
        "\<And>v. pg_walk (Suc n) (mm_mem s1) t v = pg_walk (Suc n) (mm_mem s) t v"
      and err: "err = 0 \<and> e \<noteq> 0 \<and> pg_entry (mm_mem s1) t ?i = e \<or> err = - ENOMEM \<and> mm_avail s = {}"
      by (rule table_entry_ok [OF Suc.prems(1) assms(4) pg_index_less [of "Suc n" v]]) (rule that)
    have eq: "pg_map l (Suc n) t v w h s =
      (if err \<noteq> 0 then Some (err, s1) else if n = 0 \<and> pde_is_large e then Some (- EINVAL, s1) else pg_map l n (pe_next e) v w h s1)"
      using False te by simp
    show ?thesis
    proof (cases "err = 0")
      case False
      then have "err = - ENOMEM" "mm_avail s = {}" using err by auto
      moreover have "mm_avail s1 \<subseteq> mm_avail s" using s1(2) by (simp add: pg_frame_def)
      ultimately show ?thesis using False eq s1 by (auto simp: pg_unmapped_def)
    next
      case True
      then have e: "e \<noteq> 0" "pg_entry (mm_mem s1) t ?i = e" using err by (auto simp: ENOMEM_def)
      show ?thesis
      proof (cases "n = 0 \<and> pde_is_large e")
        case large: True
        then have "pg_child n (mm_mem s1) t ?i = None" using e by (simp add: pg_child_def)
        then have "pg_walk (Suc n) (mm_mem s1) t v = Some (1, e)" using e by (simp add: pg_walk_Suc pg_invD(1) [OF s1(1)])
        then show ?thesis using eq True large s1 by (auto simp: pg_unmapped_def EINVAL_def)
      next
        case False
        then have ch: "pg_child n (mm_mem s1) t ?i = Some (pe_next e)" using e by (simp add: pg_child_def)
        obtain r and s2 :: "('t, 'c) mmu_state" where
          m: "pg_map l n (pe_next e) v w h s1 = Some (r, s2)" "pg_inv n (pe_next e) s2" "pg_frame n (pe_next e) s1 s2"
          and res: "r = 0 \<and> pg_mapped l n (pe_next e) v w s1 s2 \<or> r \<noteq> 0 \<and> pg_unmapped l n (pe_next e) v r s1 s2"
          using Suc.IH [OF child_inv [OF s1(1) pg_index_less ch] ln] by blast
        note st = subtree_step [OF s1(1) pg_index_less ch m(2,3)]
        have walk1: "pg_walk (Suc n) (mm_mem s1) t v' = pg_walk n (mm_mem s1) (pe_next e) v'" if "pg_index (Suc n) v' = ?i" for v'
          using ch that by (simp add: pg_walk_Suc pg_invD(1) [OF s1(1)])
        have "r = 0 \<and> pg_mapped l (Suc n) t v w s s2 \<or> r \<noteq> 0 \<and> pg_unmapped l (Suc n) t v r s s2"
          using res
        proof
          assume r: "r = 0 \<and> pg_mapped l n (pe_next e) v w s1 s2"
          have "(\<forall>k. l \<le> k \<and> k \<le> Suc n \<longrightarrow> pg_index k v' = pg_index k v) \<longleftrightarrow>
            pg_index (Suc n) v' = ?i \<and> (\<forall>k. l \<le> k \<and> k \<le> n \<longrightarrow> pg_index k v' = pg_index k v)" for v'
            using Suc.prems(2) by (auto simp: le_Suc_eq)
          then have "pg_mapped l (Suc n) t v w s s2"
            using r walk1 s1(3) unfolding pg_mapped_def st(4) by auto
          then show ?thesis using r by simp
        next
          assume r: "r \<noteq> 0 \<and> pg_unmapped l n (pe_next e) v r s1 s2"
          then have "pg_unmapped l (Suc n) t v r s s2"
            using walk1 s1(3) unfolding pg_unmapped_def st(4) by auto
          then show ?thesis using r by simp
        qed
        then show ?thesis
          using eq True False m(1) st(1) pg_frame_trans [OF s1(2) st(2)] by auto
      qed
    qed
  qed
qed

lemma is_none_eqs: "pml4e_is_none = (\<lambda>e. e = 0)" "pdpte_is_none = (\<lambda>e. e = 0)" "pde_is_none = (\<lambda>e. e = 0)"
  by (intro ext; simp add: pml4e_is_none_def pdpte_is_none_def pde_is_none_def)+

lemma make_eqs: "make_pml4e = (\<lambda>p f. p OR f)" "make_pdpte = (\<lambda>p f. p OR f)" "make_pde = (\<lambda>p f. p OR f)" "make_pte = (\<lambda>p f. p OR f)"
  by (intro ext; simp add: make_pml4e_def make_pdpte_def make_pde_def make_pte_def)+

lemma next_eqs: "paddr_to_ptr (pml4e_paddr e) = pe_next e" "paddr_to_ptr (pdpte_paddr e) = pe_next e" "paddr_to_ptr (pde_paddr e) = pe_next e"
  by (simp_all add: pe_next_def pml4e_paddr_def pdpte_paddr_def pde_paddr_def)

lemma index_eqs:
  "drop_bit PML4_INDEX_SHIFT v AND PG_INDEX_MASK = pg_index (Suc (Suc (Suc 0))) v"
  "drop_bit PDPT_INDEX_SHIFT v AND PG_INDEX_MASK = pg_index (Suc (Suc 0)) v"
  "drop_bit PD_INDEX_SHIFT v AND PG_INDEX_MASK = pg_index (Suc 0) v" "drop_bit PT_INDEX_SHIFT v AND PG_INDEX_MASK = pg_index 0 v"
  by (simp_all add: pg_index_def)

lemma zero_Suc: "(0 = Suc n) = False" "(Suc n = 0) = False"
  by simp_all

lemmas unrolled = is_none_eqs make_eqs next_eqs index_eqs

lemma map_small_eq:
  "mmu_map_small_page mp v p prot flags s =
     pg_map 0 3 (paddr_to_ptr (cr3 mp)) v (p OR (mmu_prot_to_hw prot OR mmu_flags_to_hw flags)) (mmu_flags_to_hw flags) s"
  unfolding mmu_map_small_page_def numeral_3_eq_3 pg_map.simps Let_def unrolled
    One_nat_def nat.inject zero_Suc simp_thms if_False if_True by (rule TrueI)

lemma map_large_eq:
  "mmu_map_large_page mp v p prot flags s =
     pg_map 1 3 (paddr_to_ptr (cr3 mp)) v (p OR (mmu_prot_to_hw prot OR mmu_flags_to_hw flags OR X86_PE_PS)) (mmu_flags_to_hw flags) s"
  unfolding mmu_map_large_page_def numeral_3_eq_3 pg_map.simps Let_def unrolled
    One_nat_def nat.inject zero_Suc simp_thms if_False if_True by (rule TrueI)

text \<open>The indices of two addresses agree from level \<open>l\<close> on iff the addresses, of which the walk
  looks at 48 bits, lie on the same page.\<close>

definition page_no :: "nat \<Rightarrow> u64 \<Rightarrow> nat" where
  "page_no l v = unat v mod 2 ^ 48 div 2 ^ (12 + 9 * l)"

lemma same_page_iff:
  assumes "l \<le> 3"
  shows "(\<forall>k. l \<le> k \<and> k \<le> 3 \<longrightarrow> pg_index k v = pg_index k u) \<longleftrightarrow> page_no l v = page_no l u"
proof -
  have m: "PG_INDEX_MASK = mask 9" by (simp add: PG_INDEX_MASK_def mask_eq_decr_exp)
  have b: "bit (pg_index k x) j \<longleftrightarrow> j < 9 \<and> bit x (12 + 9 * k + j)" if "k \<le> 3" for k j x
    unfolding pg_index_def m using that by (auto simp: bit_simps)
  define w where "w x = drop_bit (12 + 9 * l) (take_bit 48 x)" for x :: u64
  have wb: "bit (w x) j \<longleftrightarrow> 12 + 9 * l + j < 48 \<and> bit x (12 + 9 * l + j)" for x j
    by (auto simp: w_def bit_simps)
  have "unat (w x) = page_no l x" for x
    unfolding w_def page_no_def unat_drop_bit_eq unat_take_bit by (rule drop_bit_eq_div)
  then have "page_no l v = page_no l u \<longleftrightarrow> w v = w u" by (metis word_unat_eq_iff)
  also have "\<dots> \<longleftrightarrow> (\<forall>k. l \<le> k \<and> k \<le> 3 \<longrightarrow> pg_index k v = pg_index k u)"
  proof (intro iffI allI impI)
    fix k assume eq: "w v = w u" and k: "l \<le> k \<and> k \<le> 3"
    show "pg_index k v = pg_index k u"
    proof (rule bit_word_eqI)
      fix j assume "j < LENGTH(64)"
      obtain d where d: "k = l + d" using k by (metis le_Suc_ex)
      have "bit (w v) (9 * d + j) = bit (w u) (9 * d + j)" using eq by simp
      then show "bit (pg_index k v) j = bit (pg_index k u) j"
        using k by (auto simp: wb b d algebra_simps)
    qed
  next
    assume eq: "\<forall>k. l \<le> k \<and> k \<le> 3 \<longrightarrow> pg_index k v = pg_index k u"
    show "w v = w u"
    proof (rule bit_word_eqI)
      fix j assume "j < LENGTH(64)"
      show "bit (w v) j = bit (w u) j"
      proof (cases "12 + 9 * l + j < 48")
        case True
        define k where "k = l + j div 9"
        have "k \<le> 3" "l \<le> k" using True by (auto simp: k_def)
        then have "bit (pg_index k v) (j mod 9) = bit (pg_index k u) (j mod 9)" using eq by simp
        moreover have "12 + 9 * k + j mod 9 = 12 + 9 * l + j" by (simp add: k_def)
        ultimately show ?thesis using \<open>k \<le> 3\<close> by (simp add: wb b True)
      qed (simp add: wb)
    qed
  qed
  finally show ?thesis by simp
qed

definition mmu_inv :: "mmu_map_t \<Rightarrow> ('t, 'c) mmu_state \<Rightarrow> bool" where
  "mmu_inv mp s \<longleftrightarrow> pg_inv 3 (paddr_to_ptr (cr3 mp)) s"

text \<open>The contract of \<open>mmu_map_small_page\<close> and \<open>mmu_map_large_page\<close>: on success the addresses of
  the page, and no others, are translated by the new entry; on failure nothing changes.\<close>

definition page_mapper :: "nat \<Rightarrow> (phys_t \<Rightarrow> u64) \<Rightarrow> mmu_map_t \<Rightarrow> (virt_t \<Rightarrow> phys_t \<Rightarrow> ('t, 'c) mmu_state \<Rightarrow> (int \<times> ('t, 'c) mmu_state) option) \<Rightarrow> bool" where
  "page_mapper l ent mp f \<longleftrightarrow> (\<forall>v p s. mmu_inv mp s \<longrightarrow>
     (\<exists>r s'. f v p s = Some (r, s') \<and> mmu_inv mp s'
       \<and> (r = 0 \<and> (\<forall>v'. mmu_walk s' mp v' = (if page_no l v' = page_no l v then Some (l, ent p) else mmu_walk s mp v'))
          \<or> (r = - ENOMEM \<and> mm_avail s' = {} \<or> r = - EINVAL \<and> (l = 0 \<longrightarrow> (\<exists>e. mmu_walk s mp v = Some (1, e))))
            \<and> (\<forall>v'. mmu_walk s' mp v' = mmu_walk s mp v'))))"

lemma hw_present: "(p OR (mmu_prot_to_hw prot OR h)) AND X86_PE_P \<noteq> 0"
proof -
  have "bit (mmu_prot_to_hw prot) 0"
    by (simp add: mmu_prot_to_hw_def X86_PE_P_def X86_PE_RW_def X86_PE_XD_def Let_def bit_or_iff)
  then show ?thesis unfolding present_bit by (simp add: bit_or_iff)
qed

lemma pg_map_mapper:
  assumes "l \<le> 1" and "hw_ok h" and "\<And>p. ent p AND X86_PE_P \<noteq> 0" and "\<And>p. l = 1 \<Longrightarrow> pde_is_large (ent p)"
  shows "page_mapper l ent mp (\<lambda>v p. pg_map l 3 (paddr_to_ptr (cr3 mp)) v (ent p) h)"
  unfolding page_mapper_def mmu_inv_def mmu_walk_def
proof (intro allI impI)
  fix v p and s :: "('a, 'b) mmu_state"
  assume inv: "pg_inv 3 (paddr_to_ptr (cr3 mp)) s"
  have same: "(\<forall>k. l \<le> k \<and> k \<le> 3 \<longrightarrow> pg_index k v' = pg_index k v) \<longleftrightarrow> page_no l v' = page_no l v" for v'
    using assms(1) by (intro same_page_iff) simp
  show "\<exists>r s'. pg_map l 3 (paddr_to_ptr (cr3 mp)) v (ent p) h s = Some (r, s') \<and> pg_inv 3 (paddr_to_ptr (cr3 mp)) s'
       \<and> (r = 0 \<and> (\<forall>v'. pg_walk 3 (mm_mem s') (paddr_to_ptr (cr3 mp)) v' =
            (if page_no l v' = page_no l v then Some (l, ent p) else pg_walk 3 (mm_mem s) (paddr_to_ptr (cr3 mp)) v'))
          \<or> (r = - ENOMEM \<and> mm_avail s' = {} \<or> r = - EINVAL \<and> (l = 0 \<longrightarrow> (\<exists>e. pg_walk 3 (mm_mem s) (paddr_to_ptr (cr3 mp)) v = Some (1, e))))
            \<and> (\<forall>v'. pg_walk 3 (mm_mem s') (paddr_to_ptr (cr3 mp)) v' = pg_walk 3 (mm_mem s) (paddr_to_ptr (cr3 mp)) v'))"
    using pg_map_ok [OF inv _ assms(1,2) assms(3,4), of v p] assms(1)
    unfolding pg_mapped_def pg_unmapped_def same by auto
qed

definition small_entry :: "u32 \<Rightarrow> u32 \<Rightarrow> phys_t \<Rightarrow> u64" where
  "small_entry prot flags p = p OR (mmu_prot_to_hw prot OR mmu_flags_to_hw flags)"

definition large_entry :: "u32 \<Rightarrow> u32 \<Rightarrow> phys_t \<Rightarrow> u64" where
  "large_entry prot flags p = p OR (mmu_prot_to_hw prot OR mmu_flags_to_hw flags OR X86_PE_PS)"

lemma small_mapper: "page_mapper 0 (small_entry prot flags) mp (\<lambda>v p. mmu_map_small_page mp v p prot flags)"
  unfolding map_small_eq [abs_def] small_entry_def [symmetric]
  by (rule pg_map_mapper) (simp_all add: hw_ok_flags small_entry_def hw_present)

lemma large_mapper: "page_mapper 1 (large_entry prot flags) mp (\<lambda>v p. mmu_map_large_page mp v p prot flags)"
  unfolding map_large_eq [abs_def] large_entry_def [symmetric]
proof (rule pg_map_mapper)
  show "pde_is_large (large_entry prot flags p)" for p
    by (simp add: large_entry_def pde_is_large_bit bit_or_iff X86_PE_PS_def)
qed (simp_all add: hw_ok_flags large_entry_def hw_present)

subsection \<open>Mapping a range\<close>

text \<open>The physical address that an address is translated to. The walk looks at the low 48 bits.\<close>

definition vpos :: "u64 \<Rightarrow> nat" where
  "vpos v = unat v mod 2 ^ 48"

definition mmu_translate :: "('t, 'c) mmu_state \<Rightarrow> mmu_map_t \<Rightarrow> virt_t \<Rightarrow> phys_t option" where
  "mmu_translate s mp v =
     (case mmu_walk s mp v of
        None \<Rightarrow> None
      | Some (l, e) \<Rightarrow> Some ((e AND NOT 0x80000000000007ff) + of_nat (vpos v mod 2 ^ (12 + 9 * l))))"

definition keeps_outside :: "nat \<Rightarrow> nat \<Rightarrow> mmu_map_t \<Rightarrow> ('t, 'c) mmu_state \<Rightarrow> ('t, 'c) mmu_state \<Rightarrow> bool" where
  "keeps_outside lo hi mp s s' \<longleftrightarrow> (\<forall>v. vpos v < lo \<or> hi \<le> vpos v \<longrightarrow> mmu_walk s' mp v = mmu_walk s mp v)"

definition translates :: "nat \<Rightarrow> nat \<Rightarrow> phys_t \<Rightarrow> mmu_map_t \<Rightarrow> ('t, 'c) mmu_state \<Rightarrow> bool" where
  "translates lo hi p mp s \<longleftrightarrow> (\<forall>v. lo \<le> vpos v \<and> vpos v < hi \<longrightarrow> mmu_translate s mp v = Some (p + of_nat (vpos v - lo)))"

lemma keeps_outside_trans:
  "keeps_outside lo m mp s1 s2 \<Longrightarrow> keeps_outside m hi mp s2 s3 \<Longrightarrow> lo \<le> m \<Longrightarrow> m \<le> hi \<Longrightarrow> keeps_outside lo hi mp s1 s3"
  by (simp add: keeps_outside_def)

lemma translates_extend:
  assumes "translates lo m p mp s" and "keeps_outside m hi mp s s'" and "translates m hi q mp s'" and "lo \<le> m" and "q = p + of_nat (m - lo)"
  shows "translates lo hi p mp s'"
  unfolding translates_def
proof (intro allI impI)
  fix v assume v: "lo \<le> vpos v \<and> vpos v < hi"
  show "mmu_translate s' mp v = Some (p + of_nat (vpos v - lo))"
  proof (cases "vpos v < m")
    case True
    then have "mmu_translate s' mp v = mmu_translate s mp v" using assms(2) by (simp add: mmu_translate_def keeps_outside_def)
    then show ?thesis using assms(1) v True by (simp add: translates_def)
  next
    case False
    then have "mmu_translate s' mp v = Some (q + of_nat (vpos v - m))" using assms(3) v by (simp add: translates_def)
    moreover have "vpos v - lo = (m - lo) + (vpos v - m)" using False assms(4) by simp
    ultimately show ?thesis using assms(5) by (simp add: add.assoc)
  qed
qed

text \<open>What the loops of \<open>mmu_map_range\<close> promise: they return, they change the translation only of
  addresses between \<open>lo\<close> and \<open>hi\<close>, and when they return 0 these addresses are mapped to \<open>p\<close> and the
  addresses after it. Loops over adjacent regions compose.\<close>

definition maps :: "nat \<Rightarrow> nat \<Rightarrow> phys_t \<Rightarrow> mmu_map_t \<Rightarrow> ('t, 'c) mmu_state \<Rightarrow> (int \<times> phys_t \<times> ('t, 'c) mmu_state) option \<Rightarrow> bool" where
  "maps lo hi p mp s res \<longleftrightarrow> (\<exists>r p' s'. res = Some (r, p', s') \<and> mmu_inv mp s' \<and> r \<in> {0, - ENOMEM, - EINVAL}
     \<and> keeps_outside lo hi mp s s' \<and> (r = 0 \<longrightarrow> p' = p + of_nat (hi - lo) \<and> translates lo hi p mp s'))"

definition then_loop :: "(int \<times> phys_t \<times> 's) option \<Rightarrow> (phys_t \<Rightarrow> 's \<Rightarrow> (int \<times> phys_t \<times> 's) option) \<Rightarrow> (int \<times> phys_t \<times> 's) option" where
  "then_loop res k = do { (err, p, s) \<leftarrow> res; if err \<noteq> 0 then Some (err, p, s) else k p s }"

lemma maps_empty: "mmu_inv mp s \<Longrightarrow> maps lo lo p mp s (Some (0, p, s))"
  by (auto simp: maps_def keeps_outside_def translates_def)

lemma maps_fail: "mmu_inv mp s' \<Longrightarrow> r \<in> {- ENOMEM, - EINVAL} \<Longrightarrow> keeps_outside lo m mp s s' \<Longrightarrow> m \<le> hi \<Longrightarrow>
    maps lo hi p mp s (Some (r, p', s'))"
  by (auto simp: maps_def keeps_outside_def ENOMEM_def EINVAL_def)

lemma maps_extend:
  assumes "keeps_outside lo m mp s s'" and "translates lo m p mp s'" and "maps m hi (p + of_nat (m - lo)) mp s' res" and "lo \<le> m" and "m \<le> hi"
  shows "maps lo hi p mp s res"
proof -
  obtain r p' s2 where r: "res = Some (r, p', s2)" "mmu_inv mp s2" "r \<in> {0, - ENOMEM, - EINVAL}" "keeps_outside m hi mp s' s2"
    "r = 0 \<longrightarrow> p' = p + of_nat (m - lo) + of_nat (hi - m) \<and> translates m hi (p + of_nat (m - lo)) mp s2"
    using assms(3) unfolding maps_def by blast
  have "keeps_outside lo hi mp s s2" by (rule keeps_outside_trans [OF assms(1) r(4) assms(4,5)])
  moreover have "translates lo hi p mp s2" if "r = 0"
    using translates_extend [OF assms(2) r(4) _ assms(4) refl] r(5) that by blast
  moreover have "hi - lo = (m - lo) + (hi - m)" using assms(4,5) by simp
  ultimately show ?thesis using r by (auto simp: maps_def add.assoc)
qed

lemma maps_then:
  assumes "maps lo m p mp s res" and "\<And>s'. mmu_inv mp s' \<Longrightarrow> maps m hi q mp s' (k q s')"
    and "lo \<le> m" and "m \<le> hi" and q: "q = p + of_nat (m - lo)"
  shows "maps lo hi p mp s (then_loop res k)"
proof -
  obtain r p' s' where r: "res = Some (r, p', s')" "mmu_inv mp s'" "r \<in> {0, - ENOMEM, - EINVAL}" "keeps_outside lo m mp s s'"
    "r = 0 \<longrightarrow> p' = p + of_nat (m - lo) \<and> translates lo m p mp s'"
    using assms(1) unfolding maps_def by blast
  show ?thesis
  proof (cases "r = 0")
    case True
    then show ?thesis using maps_extend [OF r(4) _ assms(2) [OF r(2), unfolded q] assms(3,4)] r q by (simp add: then_loop_def)
  next
    case False
    then show ?thesis using maps_fail [OF r(2) _ r(4) assms(4)] r by (simp add: then_loop_def)
  qed
qed

lemma page_no_vpos: "page_no l v = vpos v div 2 ^ (12 + 9 * l)"
  by (simp add: page_no_def vpos_def)

lemma one_page:
  assumes w: "\<forall>v'. mmu_walk s' mp v' = (if page_no l v' = page_no l v then Some (l, e) else mmu_walk s mp v')"
    and v: "vpos v = pos" "2 ^ (12 + 9 * l) dvd pos" and e: "e AND NOT 0x80000000000007ff = p"
  shows "keeps_outside pos (pos + 2 ^ (12 + 9 * l)) mp s s'" and "translates pos (pos + 2 ^ (12 + 9 * l)) p mp s'"
proof -
  define z where "z = (2 :: nat) ^ (12 + 9 * l)"
  have z: "0 < z" by (simp add: z_def)
  obtain k where k: "pos = z * k" using v(2) unfolding z_def by (elim dvdE)
  have pn: "page_no l v' = page_no l v \<longleftrightarrow> pos \<le> vpos v' \<and> vpos v' < pos + z" for v'
  proof -
    have "page_no l v' = page_no l v \<longleftrightarrow> vpos v' div z = k" using z by (simp add: page_no_vpos z_def [symmetric] v(1) k)
    also have "\<dots> \<longleftrightarrow> k \<le> vpos v' div z \<and> vpos v' div z < Suc k" by auto
    also have "\<dots> \<longleftrightarrow> k * z \<le> vpos v' \<and> vpos v' < Suc k * z"
      using z by (simp only: less_eq_div_iff_mult_less_eq div_less_iff_less_mult)
    finally show ?thesis by (simp add: k ac_simps)
  qed
  show "keeps_outside pos (pos + 2 ^ (12 + 9 * l)) mp s s'"
    unfolding keeps_outside_def z_def [symmetric] using w pn by auto
  have off: "vpos v' mod z = vpos v' - pos" if "pos \<le> vpos v'" "vpos v' < pos + z" for v'
  proof -
    have "vpos v' = (vpos v' - pos) + z * k" using that k by simp
    then have "vpos v' mod z = (vpos v' - pos) mod z" by (metis mod_mult_self2)
    then show ?thesis using that by simp
  qed
  show "translates pos (pos + 2 ^ (12 + 9 * l)) p mp s'"
    unfolding translates_def z_def [symmetric] using w pn off e by (simp add: mmu_translate_def z_def [symmetric])
qed

lemma map_pages_ok:
  fixes s :: "('t, 'c) mmu_state"
  assumes f: "page_mapper l ent mp f" and sz: "unat sz = 2 ^ (12 + 9 * l)"
    and ent: "\<And>p. unat sz dvd unat p \<Longrightarrow> unat p < 2 ^ 63 \<Longrightarrow> ent p AND NOT 0x80000000000007ff = p"
  shows "mmu_inv mp s \<Longrightarrow> unat off = B + pos \<Longrightarrow> 2 ^ 48 dvd B \<Longrightarrow> unat sz dvd pos \<Longrightarrow> pos + n * unat sz \<le> 2 ^ 48 \<Longrightarrow>
    B + pos + n * unat sz < 2 ^ 64 \<Longrightarrow> unat ending - unat off \<le> n * unat sz \<Longrightarrow> n * unat sz < unat ending - unat off + unat sz \<Longrightarrow>
    unat sz dvd unat p \<Longrightarrow> unat p + n * unat sz < 2 ^ 63 \<Longrightarrow>
    maps pos (pos + n * unat sz) p mp s (mmu_map_pages f sz off ending p s)"
proof (induction n arbitrary: s off pos p)
  case 0
  then have "\<not> off < ending" by (simp add: word_less_nat_alt)
  then show ?case using 0(1) by (subst mmu_map_pages.simps) (simp add: maps_empty)
next
  case (Suc n)
  let ?z = "unat sz"
  have z: "0 < ?z" by (simp add: sz)
  have lt: "off < ending" using Suc.prems(8) z by (simp add: word_less_nat_alt)
  have "?z \<le> Suc n * ?z" by simp
  then have pos: "pos < 2 ^ 48" and nz: "pos + ?z \<le> 2 ^ 48" and nw: "unat off + ?z < 2 ^ 64" and pw: "unat p + ?z < 2 ^ 63"
    using Suc.prems(2,5,6,10) z by linarith+
  have v: "vpos off = pos" using Suc.prems(2,3) pos by (auto simp: vpos_def elim!: dvdE)
  have off: "unat (off + sz) = B + (pos + ?z)" using nw Suc.prems(2) by (simp add: unat_add_no_wrap)
  have p: "unat (p + sz) = unat p + ?z" using pw by (subst unat_add_no_wrap) simp_all
  have e: "ent p AND NOT 0x80000000000007ff = p" using Suc.prems(9) pw by (intro ent) simp_all
  obtain r1 s1 where r1: "f off p s = Some (r1, s1)" "mmu_inv mp s1"
    and w: "r1 = 0 \<and> (\<forall>v'. mmu_walk s1 mp v' = (if page_no l v' = page_no l off then Some (l, ent p) else mmu_walk s mp v'))
      \<or> (r1 = - ENOMEM \<and> mm_avail s1 = {} \<or> r1 = - EINVAL \<and> (l = 0 \<longrightarrow> (\<exists>e. mmu_walk s mp off = Some (1, e)))) \<and> (\<forall>v'. mmu_walk s1 mp v' = mmu_walk s mp v')"
    using f Suc.prems(1) unfolding page_mapper_def by blast
  show ?case
  proof (cases "r1 = 0")
    case False
    then have r: "r1 \<in> {- ENOMEM, - EINVAL}" "\<forall>v'. mmu_walk s1 mp v' = mmu_walk s mp v'" using w by auto
    then have "maps pos (pos + Suc n * ?z) p mp s (Some (r1, p, s1))"
      by (intro maps_fail [OF r1(2), of _ _ pos]) (auto simp: keeps_outside_def)
    then show ?thesis using lt r1 False by (subst mmu_map_pages.simps) simp
  next
    case True
    then have w: "\<forall>v'. mmu_walk s1 mp v' = (if page_no l v' = page_no l off then Some (l, ent p) else mmu_walk s mp v')"
      using w by (auto simp: ENOMEM_def EINVAL_def)
    note one = one_page [OF w v Suc.prems(4) [unfolded sz] e, folded sz]
    have "maps (pos + ?z) (pos + ?z + n * ?z) (p + sz) mp s1 (mmu_map_pages f sz (off + sz) ending (p + sz) s1)"
    proof (rule Suc.IH [OF r1(2) off Suc.prems(3)])
      show "unat ending - unat (off + sz) \<le> n * ?z" "n * ?z < unat ending - unat (off + sz) + ?z"
        using Suc.prems(2,7,8) z unfolding off by simp_all
    qed (use Suc.prems nz p in \<open>simp_all add: add.assoc\<close>)
    then have "maps pos (pos + ?z + n * ?z) p mp s (mmu_map_pages f sz (off + sz) ending (p + sz) s1)"
      by (intro maps_extend [OF one]) simp_all
    then show ?thesis
      using lt r1 True by (subst mmu_map_pages.simps) (simp add: add.assoc)
  qed
qed

lemma hw_bits:
  "bit (mmu_prot_to_hw prot) k \<Longrightarrow> k < 11 \<or> k = 63" "bit (mmu_flags_to_hw flags) k \<Longrightarrow> k < 11" "bit X86_PE_PS k \<Longrightarrow> k < 11"
  unfolding mmu_prot_to_hw_def mmu_flags_to_hw_def X86_PE_P_def X86_PE_RW_def X86_PE_XD_def X86_PE_US_def X86_PE_PCD_def X86_PE_PS_def Let_def
  by (simp_all only: bit_or_iff bit_push_bit_iff bit_1_iff bit_0_eq split: if_splits) auto

lemma small_entry_address:
  "unat PAGE_SIZE_SMALL dvd unat p \<Longrightarrow> unat p < 2 ^ 63 \<Longrightarrow> small_entry prot flags p AND NOT 0x80000000000007ff = p"
  unfolding small_entry_def by (rule entry_address) (auto simp: bit_or_iff dest: hw_bits)

lemma large_entry_address:
  "unat PAGE_SIZE_LARGE dvd unat p \<Longrightarrow> unat p < 2 ^ 63 \<Longrightarrow> large_entry prot flags p AND NOT 0x80000000000007ff = p"
  unfolding large_entry_def by (rule entry_address) (auto simp: bit_or_iff dvd_large_small dest: hw_bits)

lemma map_pages_none: "mmu_map_pages f sz off off p s = Some (0, p, s)"
  by (subst mmu_map_pages.simps) simp

lemma map_pages_if: "(if a \<noteq> b then mmu_map_pages f sz a b p s else Some (0, p, s)) = mmu_map_pages f sz a b p s"
  by (simp add: map_pages_none)

text \<open>The loops of \<open>mmu_map_range\<close>, from \<open>off\<close> to \<open>ending\<close>.\<close>

definition page_round :: "nat \<Rightarrow> nat" where
  "page_round x = (x + 4095) div 4096 * 4096"

lemma page_round_bounds: "x \<le> page_round x" "page_round x < x + 4096"
  using nat_round_up [of 4096 x] by (simp_all add: page_round_def)

lemma page_round_exact: "4096 dvd x \<Longrightarrow> page_round x = x"
  using nat_round_up_multiple [of 4096] by (auto simp: page_round_def elim!: dvdE)

lemma page_round_add: "4096 dvd a \<Longrightarrow> page_round (a + b) = a + page_round b"
  by (auto simp: page_round_def add.assoc elim!: dvdE)

lemma small_loop:
  assumes inv: "mmu_inv mp s" and off: "unat off = B + pos" "2 ^ 48 dvd B" "4096 dvd pos" and le: "unat ending = unat off + d"
    and lim: "pos + page_round d \<le> 2 ^ 48" "unat ending + 4096 \<le> 2 ^ 64" and p: "4096 dvd unat p" "unat p + d + 4096 \<le> 2 ^ 63"
  shows "maps pos (pos + page_round d) p mp s
    (mmu_map_pages (\<lambda>v p. mmu_map_small_page mp v p prot flags) PAGE_SIZE_SMALL off ending p s)"
proof -
  define n where "n = (d + 4095) div 4096"
  have n: "page_round d = n * unat PAGE_SIZE_SMALL" by (simp add: page_round_def n_def)
  show ?thesis
    unfolding n by (rule map_pages_ok [OF small_mapper _ small_entry_address inv off(1,2)])
      (use off le lim(2) lim(1) [unfolded n] p page_round_bounds [of d, unfolded n] in simp_all)
qed

lemma large_loop:
  assumes inv: "mmu_inv mp s" and off: "unat off = B + pos" "2 ^ 48 dvd B" "2097152 dvd pos" and le: "unat ending = unat off + d"
    and al: "2097152 dvd d" and lim: "pos + d \<le> 2 ^ 48" and p: "d \<noteq> 0 \<Longrightarrow> 2097152 dvd unat p" "unat p + d < 2 ^ 63"
  shows "maps pos (pos + d) p mp s
    (mmu_map_pages (\<lambda>v p. mmu_map_large_page mp v p prot flags) PAGE_SIZE_LARGE off ending p s)"
proof (cases "d = 0")
  case True
  then have "off = ending" using le by (simp add: word_unat_eq_iff)
  then show ?thesis using True inv by (simp add: map_pages_none maps_empty)
next
  case False
  obtain n where n: "d = n * 2097152" using al by (metis dvd_def mult.commute)
  have "B + pos + n * 2097152 < 2 ^ 64" using n le off(1) unat_lt64 [of ending] by linarith
  then have "maps pos (pos + n * unat PAGE_SIZE_LARGE) p mp s
    (mmu_map_pages (\<lambda>v p. mmu_map_large_page mp v p prot flags) PAGE_SIZE_LARGE off ending p s)"
    by (intro map_pages_ok [OF large_mapper _ large_entry_address inv off(1,2)])
      (use off le lim p n False in simp_all)
  then show ?thesis by (simp add: n)
qed

text \<open>\<open>mmu_map_range\<close> as loops in sequence.\<close>

lemma map_range_loops:
  assumes "is_aligned vaddr PAGE_SIZE_SMALL"
  shows "mmu_map_range mp vaddr paddr sz prot flags s = map_option (\<lambda>(r, p, s). (r, s))
    (if align_down (vaddr + sz) PAGE_SIZE_LARGE < align_up vaddr PAGE_SIZE_LARGE
     then mmu_map_pages (\<lambda>v p. mmu_map_small_page mp v p prot flags) PAGE_SIZE_SMALL vaddr (vaddr + sz) paddr s
     else then_loop (mmu_map_pages (\<lambda>v p. mmu_map_small_page mp v p prot flags) PAGE_SIZE_SMALL vaddr (align_up vaddr PAGE_SIZE_LARGE) paddr s)
       (\<lambda>p s. then_loop (mmu_map_pages (\<lambda>v p. mmu_map_large_page mp v p prot flags) PAGE_SIZE_LARGE
             (align_up vaddr PAGE_SIZE_LARGE) (align_down (vaddr + sz) PAGE_SIZE_LARGE) p s)
         (mmu_map_pages (\<lambda>v p. mmu_map_small_page mp v p prot flags) PAGE_SIZE_SMALL (align_down (vaddr + sz) PAGE_SIZE_LARGE) (vaddr + sz))))"
  using assms unfolding mmu_map_range_def then_loop_def Let_def map_pages_if
  by (auto simp: map_option_case bind_eq_None_conv split: option.splits bind_splits)

text \<open>The three parts of a range with a large-page boundary in it: \<open>a\<close> bytes before the first large
  page, \<open>b\<close> bytes of large pages, \<open>c\<close> bytes after them.\<close>

lemma range_parts:
  assumes V: "4096 dvd unat vaddr" and nw: "unat vaddr + unat sz + 2097152 \<le> 2 ^ 64"
    and yes: "\<not> align_down (vaddr + sz) PAGE_SIZE_LARGE < align_up vaddr PAGE_SIZE_LARGE"
  obtains a b c where "unat (align_up vaddr PAGE_SIZE_LARGE) = unat vaddr + a"
    "unat (align_down (vaddr + sz) PAGE_SIZE_LARGE) = unat vaddr + a + b" "unat sz = a + b + c"
    "4096 dvd a" "2097152 dvd b" "4096 dvd a + b" "2097152 dvd unat vaddr + a"
proof -
  let ?ls = "unat (align_up vaddr PAGE_SIZE_LARGE)" and ?le = "unat (align_down (vaddr + sz) PAGE_SIZE_LARGE)"
  have fin: "unat (vaddr + sz) = unat vaddr + unat sz" using nw by (simp add: unat_add_no_wrap)
  have LS: "?ls = (unat vaddr + 2097151) div 2097152 * 2097152" using nw by (simp add: unat_align_up_large)
  have LE: "?le = (unat vaddr + unat sz) div 2097152 * 2097152" by (simp add: unat_align_down_large fin)
  have o: "unat vaddr \<le> ?ls" "?ls \<le> ?le" "?le \<le> unat vaddr + unat sz"
    using nat_round_up [of 2097152 "unat vaddr"] yes by (simp_all add: LS LE word_less_nat_alt not_less)
  have d: "2097152 dvd ?ls" "2097152 dvd ?le" by (simp_all add: LS LE)
  have d4: "4096 dvd ?ls" "4096 dvd ?le" using d by (simp_all add: dvd_large_small)
  show ?thesis
  proof (rule that [of "?ls - unat vaddr" "?le - ?ls" "unat vaddr + unat sz - ?le"])
    show "4096 dvd ?ls - unat vaddr + (?le - ?ls)" using d4 V o by (auto intro: dvd_diff_nat)
  qed (use o d d4 V in \<open>auto intro: dvd_diff_nat\<close>)
qed

lemma range_maps:
  assumes inv: "mmu_inv mp s" and v: "unat vaddr = B + pos" "2 ^ 48 dvd B" "4096 dvd unat vaddr" "4096 dvd pos"
    and lim: "pos + page_round (unat sz) \<le> 2 ^ 48" "unat vaddr + unat sz + 2097152 \<le> 2 ^ 64"
    and p: "4096 dvd unat paddr" "unat paddr + unat sz + 4096 \<le> 2 ^ 63"
    and cong: "unat sz < 2097152 \<or> unat vaddr mod 2097152 = unat paddr mod 2097152"
  obtains res where "mmu_map_range mp vaddr paddr sz prot flags s = map_option (\<lambda>(r, p, s). (r, s)) res"
    "maps pos (pos + page_round (unat sz)) paddr mp s res"
proof -
  have "is_aligned vaddr PAGE_SIZE_SMALL" using v(3) is_aligned_iff_dvd [of 12 vaddr] by (simp add: PAGE_SIZE_SMALL_eq)
  note eq = map_range_loops [OF this]
  have fin: "unat (vaddr + sz) = unat vaddr + unat sz" using lim(2) by (simp add: unat_add_no_wrap)
  show ?thesis
  proof (cases "align_down (vaddr + sz) PAGE_SIZE_LARGE < align_up vaddr PAGE_SIZE_LARGE")
    case True
    have "maps pos (pos + page_round (unat sz)) paddr mp s
      (mmu_map_pages (\<lambda>v p. mmu_map_small_page mp v p prot flags) PAGE_SIZE_SMALL vaddr (vaddr + sz) paddr s)"
      by (rule small_loop [OF inv v(1,2,4) fin]) (use lim p fin in simp_all)
    then show ?thesis using that [OF eq] True by simp
  next
    case False
    obtain a b c where ab: "unat (align_up vaddr PAGE_SIZE_LARGE) = unat vaddr + a"
      "unat (align_down (vaddr + sz) PAGE_SIZE_LARGE) = unat vaddr + a + b" and sum: "unat sz = a + b + c"
      and dv: "4096 dvd a" "2097152 dvd b" "4096 dvd a + b" "2097152 dvd unat vaddr + a"
      by (rule range_parts [OF v(3) lim(2) False])
    have pr: "page_round (unat sz) = a + b + page_round c" unfolding sum by (rule page_round_add [OF dv(3)])
    have up: "unat (paddr + of_nat n) = unat paddr + n" if "n \<le> unat sz" for n
      using that p(2) by (subst unat_add_no_wrap) (simp_all add: unat_of_nat64)
    have "2097152 dvd B" using v(2) by (auto elim!: dvdE)
    then have d2: "2097152 dvd pos + a" using dv(4) v(1) by (simp add: dvd_add_right_iff add.assoc)
    have d3: "2097152 dvd unat paddr + a" if "b \<noteq> 0"
    proof -
      have "unat vaddr mod 2097152 = unat paddr mod 2097152" using cong sum that dvd_imp_le [OF dv(2)] by auto
      then have "(unat paddr + a) mod 2097152 = (unat vaddr + a) mod 2097152" by (metis mod_add_left_eq)
      then show ?thesis using dv(4) by auto
    qed
    let ?ls = "align_up vaddr PAGE_SIZE_LARGE" and ?le = "align_down (vaddr + sz) PAGE_SIZE_LARGE"
    let ?small = "mmu_map_pages (\<lambda>v p. mmu_map_small_page mp v p prot flags) PAGE_SIZE_SMALL"
    let ?large = "mmu_map_pages (\<lambda>v p. mmu_map_large_page mp v p prot flags) PAGE_SIZE_LARGE"
    have 1: "maps pos (pos + a) paddr mp s (?small vaddr ?ls paddr s)"
      using small_loop [OF inv v(1,2,4) ab(1), of paddr prot flags] lim p sum pr dv(1) ab(1) by (simp add: page_round_exact)
    have 2: "maps (pos + a) (pos + a + b) (paddr + of_nat a) mp s1 (?large ?ls ?le (paddr + of_nat a) s1)" if "mmu_inv mp s1" for s1
      by (rule large_loop [OF that _ v(2) d2 _ dv(2)]) (use ab v(1) lim p sum pr d3 up [of a] in simp_all)
    have 3: "maps (pos + a + b) (pos + page_round (unat sz)) (paddr + of_nat (a + b)) mp s2 (?small ?le (vaddr + sz) (paddr + of_nat (a + b)) s2)"
      if "mmu_inv mp s2" for s2
      using small_loop [OF that _ v(2), of ?le "pos + a + b" "vaddr + sz" c "paddr + of_nat (a + b)" prot flags]
        ab v lim p sum pr dv up [of "a + b"] fin by (simp add: add.assoc)
    have 4: "maps (pos + a) (pos + page_round (unat sz)) (paddr + of_nat a) mp s1
      (then_loop (?large ?ls ?le (paddr + of_nat a) s1) (?small ?le (vaddr + sz)))" if "mmu_inv mp s1" for s1
    proof (rule maps_then [OF 2 [OF that]])
      show "maps (pos + a + b) (pos + page_round (unat sz)) (paddr + of_nat (a + b)) mp s2 (?small ?le (vaddr + sz) (paddr + of_nat (a + b)) s2)"
        if "mmu_inv mp s2" for s2 by (rule 3 [OF that])
    qed (use pr in simp_all)
    have "maps pos (pos + page_round (unat sz)) paddr mp s (then_loop (?small vaddr ?ls paddr s)
       (\<lambda>p s. then_loop (?large ?ls ?le p s) (?small ?le (vaddr + sz))))"
    proof (rule maps_then [OF 1])
      show "maps (pos + a) (pos + page_round (unat sz)) (paddr + of_nat a) mp s1
        (then_loop (?large ?ls ?le (paddr + of_nat a) s1) (?small ?le (vaddr + sz)))" if "mmu_inv mp s1" for s1 by (rule 4 [OF that])
    qed (use pr in simp_all)
    then show ?thesis using that [OF eq] False by simp
  qed
qed

subsection \<open>Properties\<close>

text \<open>C21: in well-formed page tables \<open>mmu_map_small_page\<close> always returns. When it returns 0 the
  hardware's walk finds for every address of the page the new entry, with the physical address and
  the flags of \<open>prot\<close> and \<open>flags\<close>, and for every other address what it found before. Otherwise no
  translation changes, and either there is no free page for a table or the address is mapped by a
  large page.\<close>

theorem mmu_map_small_page_exact:
  fixes s :: "('t, 'c) mmu_state"
  assumes "mmu_inv mp s"
  shows "\<exists>r s'. mmu_map_small_page mp vaddr paddr prot flags s = Some (r, s') \<and> mmu_inv mp s'
    \<and> (r = 0 \<and> (\<forall>v. mmu_walk s' mp v =
          (if vpos v div 4096 = vpos vaddr div 4096 then Some (0, paddr OR (mmu_prot_to_hw prot OR mmu_flags_to_hw flags)) else mmu_walk s mp v))
      \<or> (r = - ENOMEM \<and> mm_avail s' = {} \<or> r = - EINVAL \<and> (\<exists>e. mmu_walk s mp vaddr = Some (1, e)))
        \<and> (\<forall>v. mmu_walk s' mp v = mmu_walk s mp v))"
  using small_mapper [of prot flags mp, unfolded page_mapper_def, rule_format, OF assms, of vaddr paddr]
  unfolding page_no_vpos small_entry_def by simp

lemma map_range_ok:
  fixes s :: "('t, 'c) mmu_state"
  assumes inv: "mmu_inv mp s" and "4096 dvd unat vaddr" and "4096 dvd unat paddr"
    and lim: "vpos vaddr + unat sz \<le> 2 ^ 48" "unat vaddr + unat sz + 2097152 \<le> 2 ^ 64" "unat paddr + unat sz + 4096 \<le> 2 ^ 63"
    and "unat sz < 2097152 \<or> unat vaddr mod 2097152 = unat paddr mod 2097152"
  shows "\<exists>r s'. mmu_map_range mp vaddr paddr sz prot flags s = Some (r, s') \<and> mmu_inv mp s' \<and> r \<in> {0, - ENOMEM, - EINVAL}
    \<and> (\<forall>v. vpos v < vpos vaddr \<or> vpos vaddr + (unat sz + 4095) div 4096 * 4096 \<le> vpos v \<longrightarrow> mmu_walk s' mp v = mmu_walk s mp v)
    \<and> (r = 0 \<longrightarrow> (\<forall>k < unat sz. mmu_translate s' mp (vaddr + of_nat k) = Some (paddr + of_nat k)))"
proof -
  define B where "B = unat vaddr div 2 ^ 48 * 2 ^ 48"
  have V: "unat vaddr = B + vpos vaddr" and "2 ^ 48 dvd B" by (simp_all add: B_def vpos_def)
  moreover have dv: "4096 dvd vpos vaddr" using assms(2) by (auto simp: vpos_def dvd_mod_iff)
  moreover have "vpos vaddr + page_round (unat sz) \<le> 2 ^ 48"
  proof -
    have "page_round (vpos vaddr + unat sz) \<le> page_round (2 ^ 48)"
      unfolding page_round_def using lim(1) by (intro mult_le_mono1 div_le_mono) simp
    moreover have "page_round (2 ^ 48) = 2 ^ 48" by (rule page_round_exact) simp
    ultimately show ?thesis using page_round_add [OF dv, of "unat sz"] by simp
  qed
  ultimately obtain res where eq: "mmu_map_range mp vaddr paddr sz prot flags s = map_option (\<lambda>(r, p, s). (r, s)) res"
    and m: "maps (vpos vaddr) (vpos vaddr + page_round (unat sz)) paddr mp s res"
    using range_maps [OF inv _ _ assms(2) _ _ lim(2) assms(3) lim(3) assms(7)] by blast
  have "vpos (vaddr + of_nat k) = vpos vaddr + k" if "k < unat sz" for k
  proof -
    have "unat (vaddr + of_nat k) = B + (vpos vaddr + k)"
      using that lim(2) V by (subst unat_add_no_wrap) (simp_all add: unat_of_nat64)
    then have "vpos (vaddr + of_nat k) = (vpos vaddr + k) mod 2 ^ 48"
      unfolding vpos_def [of "vaddr + of_nat k"] B_def by (simp only: mod_mult_self3)
    then show ?thesis using lim(1) that by simp
  qed
  moreover have "unat sz \<le> page_round (unat sz)" by (rule page_round_bounds)
  ultimately show ?thesis
    using m unfolding maps_def keeps_outside_def translates_def eq by (fastforce simp: page_round_def)
qed

text \<open>C3: a range that starts on a page boundary, virtual and physical, lies in one half of the address space, ends
  at least 2 MiB before the end of the address space (and the physical one before 2^63), and either is smaller than a large
  page or has the same offset in a large page on both sides, is mapped exactly. \<open>mmu_map_range\<close> returns 0, \<open>- ENOMEM\<close>
  or \<open>- EINVAL\<close>; in each case no translation outside of the range, rounded up to whole pages, changes; and when it returns
  0, byte \<open>k\<close> of the range is translated to byte \<open>k\<close> of the physical range.\<close>

theorem mmu_map_range_translates:
  fixes s :: "('t, 'c) mmu_state"
  assumes inv: "mmu_inv mp s" and "4096 dvd unat vaddr" and "4096 dvd unat paddr"
    and lim: "vpos vaddr + unat sz \<le> 2 ^ 48" "unat vaddr + unat sz + 2097152 \<le> 2 ^ 64" "unat paddr + unat sz + 4096 \<le> 2 ^ 63"
    and "unat sz < 2097152 \<or> unat vaddr mod 2097152 = unat paddr mod 2097152"
  shows "\<exists>r s'. mmu_map_range mp vaddr paddr sz prot flags s = Some (r, s') \<and> mmu_inv mp s' \<and> r \<in> {0, - ENOMEM, - EINVAL}
    \<and> (\<forall>v. vpos v < vpos vaddr \<or> vpos vaddr + (unat sz + 4095) div 4096 * 4096 \<le> vpos v \<longrightarrow> mmu_walk s' mp v = mmu_walk s mp v)
    \<and> (r = 0 \<longrightarrow> (\<forall>k < unat sz. mmu_translate s' mp (vaddr + of_nat k) = Some (paddr + of_nat k)))"
  by (rule map_range_ok [OF assms])

text \<open>An empty PML4 table at physical address \<open>0x1000\<close> and 16 free pages.\<close>

definition mmu_example :: "(MemorySegment list, MemorySegment list \<times> nat option) mmu_state" where
  "mmu_example = \<lparr>mm_pages = arenas_example\<lparr>KERNEL_SMALL_PAGE_ARENA := \<lparr>ar_tree = list_tree,
       segments = [\<lparr>seg_base = 0xffffffff80010000, seg_size = 0x10000\<rparr>]\<rparr>\<rparr>,
     mm_mem = (\<lambda>a. 0), mm_cr3 = 0x1000, kernel_vm_end = 0xffffffff90000000\<rparr>"

lemma mmu_example_inv: "mmu_inv \<lparr>cr3 = 0x1000\<rparr> mmu_example"
proof -
  let ?t = "paddr_to_ptr 0x1000"
  have t: "?t = 0xffffffff80001000" by (simp add: paddr_to_ptr_def KERNEL_VMA_def)
  have d: "direct_page ?t" by (simp add: t direct_page_def page_ok_def KERNEL_VMA_def)
  have mem: "mm_mem mmu_example = (\<lambda>a. 0)" by (simp add: mmu_example_def)
  note e = empty_table [of ?t "mm_mem mmu_example" 3, OF d]
  have av: "mm_avail mmu_example = {0xffffffff80010000 ..< 0xffffffff80020000}"
    by (simp add: mm_avail_def mmu_example_def arena_avail_def list_tree_def seg_bytes_def page_bytes_def)
  have ar: "arena_wf 4096 (KERNEL_SMALL_PAGE_ARENA (mm_pages mmu_example))"
    by (simp add: mmu_example_def arena_wf_def list_tree_laws segs_ok_def seg_ok_def) (simp add: list_tree_def)
  show ?thesis
    unfolding mmu_inv_def pg_inv_def using e(1,2) ar
    by (simp add: av mem pg_entry_def) (auto simp: t page_bytes_def KERNEL_VMA_def)
qed

declare mmu_map_pages.simps [code]

lemma mmu_example_returns:
  "map_option fst (mmu_map_small_page \<lparr>cr3 = 0x1000\<rparr> 0x400000 0x5000 MMU_PROT_WRITE MMU_USER_PAGE mmu_example) = Some 0"
  "map_option fst (mmu_map_range \<lparr>cr3 = 0x1000\<rparr> 0xffffffff90000000 0xfee00000 0x1000 (MMU_PROT_READ OR MMU_PROT_WRITE) MMU_NOCACHE mmu_example) = Some 0"
  by code_simp+

theorem mmu_map_small_page_exact_witness:
  "\<exists>s'. mmu_map_small_page \<lparr>cr3 = 0x1000\<rparr> 0x400000 0x5000 MMU_PROT_WRITE MMU_USER_PAGE mmu_example = Some (0, s')
     \<and> mmu_walk s' \<lparr>cr3 = 0x1000\<rparr> 0x400abc = Some (0, 0x8000000000005007)"
proof -
  have "vpos 0x400abc div 4096 = vpos 0x400000 div 4096" by (simp add: vpos_def)
  moreover have "(0x5000 OR (mmu_prot_to_hw MMU_PROT_WRITE OR mmu_flags_to_hw MMU_USER_PAGE)) = 0x8000000000005007" by code_simp
  ultimately show ?thesis
    using mmu_map_small_page_exact [OF mmu_example_inv, of "0x400000" "0x5000" MMU_PROT_WRITE MMU_USER_PAGE] mmu_example_returns(1)
    by (fastforce simp: ENOMEM_def EINVAL_def)
qed

theorem mmu_map_range_translates_witness:
  "\<exists>s'. mmu_map_range \<lparr>cr3 = 0x1000\<rparr> 0xffffffff90000000 0xfee00000 0x1000 (MMU_PROT_READ OR MMU_PROT_WRITE) MMU_NOCACHE mmu_example = Some (0, s')
     \<and> (\<forall>k < 4096. mmu_translate s' \<lparr>cr3 = 0x1000\<rparr> (0xffffffff90000000 + of_nat k) = Some (0xfee00000 + of_nat k))"
  using mmu_map_range_translates [OF mmu_example_inv, of "0xffffffff90000000" "0xfee00000" "0x1000" "MMU_PROT_READ OR MMU_PROT_WRITE" MMU_NOCACHE]
    mmu_example_returns(2)
  by (auto simp: vpos_def)

lemma map_range_one_large:
  assumes "2097152 dvd unat vaddr" and "unat vaddr + 4194304 \<le> 2 ^ 64"
  shows "mmu_map_range mp vaddr paddr PAGE_SIZE_LARGE prot flags s = mmu_map_large_page mp vaddr paddr prot flags s"
proof -
  have "is_aligned vaddr PAGE_SIZE_SMALL"
    using dvd_large_small [OF assms(1)] is_aligned_iff_dvd [of 12 vaddr] by (simp add: PAGE_SIZE_SMALL_eq)
  note eq = map_range_loops [OF this]
  obtain k where k: "unat vaddr = 2097152 * k" using assms(1) by (elim dvdE)
  have fin: "unat (vaddr + PAGE_SIZE_LARGE) = unat vaddr + 2097152" using assms(2) by (simp add: unat_add_no_wrap)
  have ls: "align_up vaddr PAGE_SIZE_LARGE = vaddr"
    using assms(2) nat_round_up_multiple [of 2097152 k] by (simp add: word_unat_eq_iff unat_align_up_large k)
  have le: "align_down (vaddr + PAGE_SIZE_LARGE) PAGE_SIZE_LARGE = vaddr + PAGE_SIZE_LARGE"
    by (simp add: word_unat_eq_iff unat_align_down_large fin k)
  have lt: "vaddr < vaddr + PAGE_SIZE_LARGE" by (simp add: word_less_nat_alt fin)
  have one: "mmu_map_pages f PAGE_SIZE_LARGE vaddr (vaddr + PAGE_SIZE_LARGE) paddr s =
    Option.bind (f vaddr paddr s) (\<lambda>(err, s). if err \<noteq> 0 then Some (err, paddr, s) else Some (0, paddr + PAGE_SIZE_LARGE, s))" for f
    using lt by (subst mmu_map_pages.simps) (simp only: map_pages_none if_True)
  show ?thesis
    unfolding eq ls le using lt
    by (auto simp: then_loop_def map_pages_none one map_option_case split: option.splits bind_splits)
qed

text \<open>\<open>mmu_map_range\<close> does not look at the alignment of the physical address when it chooses large
  pages: a range of one large page is mapped with a large-page entry that carries the bits 12 to 20 of
  the physical address, which are not part of the address in such an entry.\<close>

lemma mmu_map_range_misaligned:
  assumes "mmu_inv mp s" and "2097152 dvd unat vaddr" and "unat vaddr + 4194304 \<le> 2 ^ 64"
    and "mmu_map_range mp vaddr paddr PAGE_SIZE_LARGE prot flags s = Some (0, s')"
  shows "\<exists>e. mmu_walk s' mp vaddr = Some (1, e) \<and> (\<forall>k. 12 \<le> k \<and> k \<le> 20 \<longrightarrow> bit e k = bit paddr k)"
proof -
  have "mmu_walk s' mp vaddr = Some (1, large_entry prot flags paddr)"
    using large_mapper [of prot flags mp, unfolded page_mapper_def, rule_format, OF assms(1), of vaddr paddr] assms(4)
    unfolding map_range_one_large [OF assms(2,3)] by (auto simp: ENOMEM_def EINVAL_def)
  moreover have "bit (large_entry prot flags paddr) k = bit paddr k" if "12 \<le> k" "k \<le> 20" for k
    using that hw_bits(1) [of prot k] hw_bits(2) [of flags k] hw_bits(3) [of k] by (auto simp: large_entry_def bit_or_iff)
  ultimately show ?thesis by blast
qed

lemma mmu_map_range_misaligned_example:
  "\<exists>s' e. mmu_map_range \<lparr>cr3 = 0x1000\<rparr> 0xffffffff90000000 0xfe001000 PAGE_SIZE_LARGE MMU_PROT_WRITE MMU_NOCACHE mmu_example = Some (0, s')
     \<and> mmu_walk s' \<lparr>cr3 = 0x1000\<rparr> 0xffffffff90000000 = Some (1, e) \<and> bit e 12"
proof -
  have "map_option fst (mmu_map_range \<lparr>cr3 = 0x1000\<rparr> 0xffffffff90000000 0xfe001000 PAGE_SIZE_LARGE MMU_PROT_WRITE MMU_NOCACHE mmu_example) = Some 0"
    by code_simp
  then obtain s' where s': "mmu_map_range \<lparr>cr3 = 0x1000\<rparr> 0xffffffff90000000 0xfe001000 PAGE_SIZE_LARGE MMU_PROT_WRITE MMU_NOCACHE mmu_example = Some (0, s')"
    by auto
  have "bit (0xfe001000 :: u64) 12" by code_simp
  then show ?thesis
    using mmu_map_range_misaligned [OF mmu_example_inv _ _ s'] s' by fastforce
qed

end
