(* ===== verification/Vm.thy ===== *)
theory Vm
  imports MmuProofs
begin

text \<open>
  Virtual address spaces (\<^verbatim>\<open>kernel/vm.rs\<close>). A space holds its regions in a red-black tree of
  the \<^verbatim>\<open>intrusive-collections\<close> crate, ordered by start address, which is a parameter with its
  documented behaviour as the predicate \<open>region_tree_laws\<close>. The \<open>page\<close> cell of a region, which the
  code changes in place, is kept apart from the tree, by the start address of its region. A
  \<open>Result\<close> is a sum with the error number on the left.
\<close>

record VMRegion =
  vr_start :: u64
  vr_end :: u64
  vr_prot :: u32

abbreviation VM_PROT_READ :: u32 where "VM_PROT_READ \<equiv> 1"
abbreviation VM_PROT_WRITE :: u32 where "VM_PROT_WRITE \<equiv> 2"
abbreviation VM_PROT_EXEC :: u32 where "VM_PROT_EXEC \<equiv> 4"
definition VM_PROT_RW :: u32 where "VM_PROT_RW = VM_PROT_READ OR VM_PROT_WRITE"

definition VMRegion_new :: "u64 \<Rightarrow> u64 \<Rightarrow> u32 \<Rightarrow> VMRegion" where
  "VMRegion_new start end prot = \<lparr>vr_start = start, vr_end = end, vr_prot = prot\<rparr>"

definition mmu_prot :: "VMRegion \<Rightarrow> u32" where
  "mmu_prot r =
     (let prot = 0;
          prot = (if vr_prot r AND VM_PROT_READ = VM_PROT_READ then prot OR MMU_PROT_READ else prot);
          prot = (if vr_prot r AND VM_PROT_WRITE = VM_PROT_WRITE then prot OR MMU_PROT_WRITE else prot)
      in if vr_prot r AND VM_PROT_EXEC = VM_PROT_EXEC then prot OR MMU_PROT_EXEC else prot)"

subsection \<open>The tree of regions\<close>

text \<open>The calls of the crate that the code makes: \<open>vt_last\<close> is the element of the cursor
  \<open>upper_bound(Unbounded)\<close>, \<open>vt_range_count\<close> the number of elements of the range from a key,
  inclusive, to another, exclusive, \<open>vt_find\<close> the element of the cursor \<open>find\<close>, and \<open>vt_remove\<close>
  the removal at that cursor.\<close>

record 'v region_tree =
  vt_new :: 'v
  vt_iter :: "'v \<Rightarrow> VMRegion list"
  vt_last :: "'v \<Rightarrow> VMRegion option"
  vt_range_count :: "u64 \<Rightarrow> u64 \<Rightarrow> 'v \<Rightarrow> nat"
  vt_find :: "u64 \<Rightarrow> 'v \<Rightarrow> VMRegion option"
  vt_remove :: "u64 \<Rightarrow> 'v \<Rightarrow> 'v"
  vt_insert :: "VMRegion \<Rightarrow> 'v \<Rightarrow> 'v"

definition vt_sorted :: "'v region_tree \<Rightarrow> 'v \<Rightarrow> bool" where
  "vt_sorted T t \<longleftrightarrow> sorted (map vr_start (vt_iter T t))"

definition region_tree_laws :: "'v region_tree \<Rightarrow> bool" where
  "region_tree_laws T \<longleftrightarrow>
     vt_iter T (vt_new T) = []
     \<and> (\<forall>t. vt_last T t = (if vt_iter T t = [] then None else Some (last (vt_iter T t))))
     \<and> (\<forall>t lo hi. vt_sorted T t \<longrightarrow> vt_range_count T lo hi t = length (filter (\<lambda>r. lo \<le> vr_start r \<and> vr_start r < hi) (vt_iter T t)))
     \<and> (\<forall>t k. vt_sorted T t \<longrightarrow>
          (if k \<in> vr_start ` set (vt_iter T t)
           then \<exists>i < length (vt_iter T t). vr_start (vt_iter T t ! i) = k \<and> vt_find T k t = Some (vt_iter T t ! i)
                  \<and> vt_iter T (vt_remove T k t) = take i (vt_iter T t) @ drop (Suc i) (vt_iter T t)
           else vt_find T k t = None))
     \<and> (\<forall>t r. vt_sorted T t \<longrightarrow>
          vt_sorted T (vt_insert T r t)
          \<and> (\<exists>i. vt_iter T (vt_insert T r t) = take i (vt_iter T t) @ r # drop i (vt_iter T t)))"

subsection \<open>Address spaces\<close>

record 'v VMAddressSpace =
  vm_tree :: "'v region_tree"
  vm_regions :: 'v
  region_page :: "u64 \<Rightarrow> u64 option"
  vm_mmu_map :: mmu_map_t

definition VMAddressSpace_new :: "'v region_tree \<Rightarrow> mmu_map_t \<Rightarrow> 'v VMAddressSpace" where
  "VMAddressSpace_new T mp = \<lparr>vm_tree = T, vm_regions = vt_new T, region_page = (\<lambda>_. None), vm_mmu_map = mp\<rparr>"

text \<open>Dropping a region returns its page.\<close>

definition VMRegion_delete :: "VMRegion \<Rightarrow> (u64 \<Rightarrow> u64 option) \<times> ('t, 'c) mmu_state \<Rightarrow> (u64 \<Rightarrow> u64 option) \<times> ('t, 'c) mmu_state" where
  "VMRegion_delete r = (\<lambda>(pages, s).
     case pages (vr_start r) of
       Some page \<Rightarrow> (pages(vr_start r := None), s\<lparr>mm_pages := page_free_small page (mm_pages s)\<rparr>)
     | None \<Rightarrow> (pages, s))"

definition VMAddressSpace_delete :: "'v VMAddressSpace \<Rightarrow> ('t, 'c) mmu_state \<Rightarrow> 'v VMAddressSpace \<times> ('t, 'c) mmu_state" where
  "VMAddressSpace_delete vs s =
     (let (pages, s) = fold VMRegion_delete (vt_iter (vm_tree vs) (vm_regions vs)) (region_page vs, s)
      in (vs\<lparr>vm_regions := vt_new (vm_tree vs), region_page := pages\<rparr>, s))"

definition vmspace_switch_to :: "'v VMAddressSpace \<Rightarrow> ('t, 'c) mmu_state \<Rightarrow> ('t, 'c) mmu_state" where
  "vmspace_switch_to vs s = mmu_load_map (vm_mmu_map vs) s"

definition insert_region :: "u64 \<Rightarrow> u64 \<Rightarrow> u32 \<Rightarrow> 'v VMAddressSpace \<Rightarrow> 'v VMAddressSpace" where
  "insert_region start end prot vs =
     vs\<lparr>vm_regions := vt_insert (vm_tree vs) (VMRegion_new start end prot) (vm_regions vs)\<rparr>"

definition vm_allocate :: "u64 \<Rightarrow> u64 \<Rightarrow> u32 \<Rightarrow> 'v VMAddressSpace \<Rightarrow> (int + u64 \<times> u64) \<times> 'v VMAddressSpace" where
  "vm_allocate sz align prot vs =
     (if \<not> is_aligned sz PAGE_SIZE_SMALL then (Inl EINVAL, vs)
      else let T = vm_tree vs;
               upper_end = (case vt_last T (vm_regions vs) of Some region \<Rightarrow> vr_end region | None \<Rightarrow> 0);
               start = align_up upper_end align;
               end = start + sz
           in if vt_range_count T start end (vm_regions vs) > 0 then (Inl EINVAL, vs)
              else (Inr (start, end), insert_region start end prot vs))"

definition vm_allocate_fixed :: "u64 \<Rightarrow> u64 \<Rightarrow> u32 \<Rightarrow> 'v VMAddressSpace \<Rightarrow> (int + unit) \<times> 'v VMAddressSpace" where
  "vm_allocate_fixed start end prot vs =
     (let sz = end - start
      in if \<not> is_aligned sz PAGE_SIZE_SMALL then (Inl EINVAL, vs)
         else if vt_range_count (vm_tree vs) start end (vm_regions vs) > 0 then (Inl EINVAL, vs)
         else (Inr (), insert_region start end prot vs))"

definition vm_deallocate ::
  "u64 \<Rightarrow> u64 \<Rightarrow> 'v VMAddressSpace \<Rightarrow> ('t, 'c) mmu_state \<Rightarrow> (int + unit) \<times> 'v VMAddressSpace \<times> ('t, 'c) mmu_state" where
  "vm_deallocate start end vs s =
     (case vt_find (vm_tree vs) start (vm_regions vs) of
        Some region \<Rightarrow>
          if vr_end region \<noteq> end then (Inl EINVAL, vs, s)
          else let (pages, s) = VMRegion_delete region (region_page vs, s)
               in (Inr (), vs\<lparr>vm_regions := vt_remove (vm_tree vs) start (vm_regions vs), region_page := pages\<rparr>, s)
      | None \<Rightarrow> (Inl EINVAL, vs, s))"

text \<open>Store the page of a region and map it, as \<open>map\<close> and \<open>populate\<close> both do. The error number of
  \<open>mmu_map_range\<close>, which is negative, becomes the error as it is.\<close>

definition map_region_page ::
  "VMRegion \<Rightarrow> u64 \<Rightarrow> u64 \<Rightarrow> u64 \<Rightarrow> 'v VMAddressSpace \<Rightarrow> ('t, 'c) mmu_state \<Rightarrow> ((int + unit) \<times> 'v VMAddressSpace \<times> ('t, 'c) mmu_state) option" where
  "map_region_page region start end page vs s =
     do { let vs = vs\<lparr>region_page := (region_page vs)(vr_start region \<mapsto> page)\<rparr>;
          (err, s) \<leftarrow> mmu_map_range (vm_mmu_map vs) start (virt_to_phys page) (end - start) (mmu_prot region) MMU_USER_PAGE s;
          Some (if err \<noteq> 0 then Inl err else Inr (), vs, s) }"

definition vm_map ::
  "u64 \<Rightarrow> u64 \<Rightarrow> u64 \<Rightarrow> 'v VMAddressSpace \<Rightarrow> ('t, 'c) mmu_state \<Rightarrow> ((int + unit) \<times> 'v VMAddressSpace \<times> ('t, 'c) mmu_state) option" where
  "vm_map start end page vs s =
     (case vt_find (vm_tree vs) start (vm_regions vs) of
        Some region \<Rightarrow> if vr_end region \<noteq> end then Some (Inl EINVAL, vs, s) else map_region_page region start end page vs s
      | None \<Rightarrow> Some (Inl EINVAL, vs, s))"

definition vm_populate ::
  "u64 \<Rightarrow> u64 \<Rightarrow> 'v VMAddressSpace \<Rightarrow> ('t, 'c) mmu_state \<Rightarrow> ((int + unit) \<times> 'v VMAddressSpace \<times> ('t, 'c) mmu_state) option" where
  "vm_populate start end vs s =
     (case vt_find (vm_tree vs) start (vm_regions vs) of
        Some region \<Rightarrow>
          if vr_end region \<noteq> end then Some (Inl EINVAL, vs, s)
          else let sz = end - start
               in if sz \<noteq> PAGE_SIZE_LARGE \<and> sz \<noteq> PAGE_SIZE_SMALL then Some (Inl EINVAL, vs, s)
                  else do { (page, p) \<leftarrow> (if sz = PAGE_SIZE_LARGE then page_alloc_large (mm_pages s) else page_alloc_small (mm_pages s));
                            let s = s\<lparr>mm_pages := p\<rparr>;
                            if page = 0 then Some (Inl ENOMEM, vs, s)
                            else map_region_page region start end page vs s }
      | None \<Rightarrow> Some (Inl EINVAL, vs, s))"

text \<open>The loop of \<open>populate_from\<close> over the \<open>n\<close> pages from \<open>offset\<close>. \<open>copy\<close> is the effect of copying
  a page of the image on the memory.\<close>

fun populate_pages ::
  "(u64 \<Rightarrow> u64 \<Rightarrow> ('t, 'c) mmu_state \<Rightarrow> ('t, 'c) mmu_state) \<Rightarrow> VMRegion \<Rightarrow> u64 \<Rightarrow> u64 \<Rightarrow> u64 \<Rightarrow> nat \<Rightarrow>
   'v VMAddressSpace \<Rightarrow> ('t, 'c) mmu_state \<Rightarrow> ((int + unit) \<times> 'v VMAddressSpace \<times> ('t, 'c) mmu_state) option" where
  "populate_pages copy region start src_start offset 0 vs s = Some (Inr (), vs, s)"
| "populate_pages copy region start src_start offset (Suc n) vs s =
     do { (page, p) \<leftarrow> page_alloc_small (mm_pages s);
          let s = s\<lparr>mm_pages := p\<rparr>;
          if page = 0 then Some (Inl ENOMEM, vs, s)
          else do {
            let vs = vs\<lparr>region_page := (region_page vs)(vr_start region \<mapsto> page)\<rparr>;
            let s = copy page (src_start + offset) s;
            (err, s) \<leftarrow> mmu_map_range (vm_mmu_map vs) (start + offset) (virt_to_phys page) PAGE_SIZE_SMALL (mmu_prot region) MMU_USER_PAGE s;
            if err \<noteq> 0 then Some (Inl err, vs, s)
            else populate_pages copy region start src_start (offset + PAGE_SIZE_SMALL) n vs s } }"

definition vm_populate_from ::
  "(u64 \<Rightarrow> u64 \<Rightarrow> ('t, 'c) mmu_state \<Rightarrow> ('t, 'c) mmu_state) \<Rightarrow> u64 \<Rightarrow> u64 \<Rightarrow> u64 \<Rightarrow> u64 \<Rightarrow>
   'v VMAddressSpace \<Rightarrow> ('t, 'c) mmu_state \<Rightarrow> ((int + unit) \<times> 'v VMAddressSpace \<times> ('t, 'c) mmu_state) option" where
  "vm_populate_from copy start end src_start src_end vs s =
     (let sz = end - start; src_size = src_end - src_start
      in if sz < src_size then Some (Inl EINVAL, vs, s)
         else case vt_find (vm_tree vs) start (vm_regions vs) of
           Some region \<Rightarrow>
             if vr_end region \<noteq> end then Some (Inl EINVAL, vs, s)
             else populate_pages copy region start src_start 0 ((unat sz + 4095) div 4096) vs s
         | None \<Rightarrow> Some (Inl EINVAL, vs, s))"

text \<open>The part of \<open>process_vmspace_alloc\<close> (\<^verbatim>\<open>kernel/sched.rs\<close>) behind the lookup of the current
  process, on the address space of that process: the return value, and the start address when it is
  stored.\<close>

definition process_vmspace_alloc ::
  "u64 \<Rightarrow> u64 \<Rightarrow> 'v VMAddressSpace \<Rightarrow> ('t, 'c) mmu_state \<Rightarrow> (int \<times> u64 option \<times> 'v VMAddressSpace \<times> ('t, 'c) mmu_state) option" where
  "process_vmspace_alloc sz align vs s =
     (case vm_allocate sz align VM_PROT_RW vs of
        (Inl e, vs) \<Rightarrow> Some (- e, None, vs, s)
      | (Inr (start, end), vs) \<Rightarrow>
          do { (res, vs, s) \<leftarrow> vm_populate start end vs s;
               Some (case res of Inl e \<Rightarrow> (- e, None, vs, s) | Inr _ \<Rightarrow> (0, Some start, vs, s)) })"

end
