(* ===== verification/VmProofs.thy ===== *)
theory VmProofs
  imports Vm
begin

text \<open>
  Allocation in an address space: the invariant of the regions, and that the region which
  \<open>process_vmspace_alloc\<close> hands out is aligned, disjoint from all others, and mapped to a page that was
  available.
\<close>

subsection \<open>What mapping leaves alone\<close>

text \<open>From \<open>s\<close> to \<open>s'\<close> the code has only taken small pages from the allocator.\<close>

definition pages_taken :: "('t, 'c) mmu_state \<Rightarrow> ('t, 'c) mmu_state \<Rightarrow> bool" where
  "pages_taken s s' \<longleftrightarrow>
     KERNEL_LARGE_PAGE_ARENA (mm_pages s') = KERNEL_LARGE_PAGE_ARENA (mm_pages s)
     \<and> (arena_wf 4096 (KERNEL_SMALL_PAGE_ARENA (mm_pages s)) \<longrightarrow>
          arena_wf 4096 (KERNEL_SMALL_PAGE_ARENA (mm_pages s')) \<and> mm_avail s' \<subseteq> mm_avail s)"

lemma pages_taken_refl: "mm_pages s' = mm_pages s \<Longrightarrow> pages_taken s s'"
  by (simp add: pages_taken_def mm_avail_def)

lemma pages_taken_trans: "pages_taken s s' \<Longrightarrow> pages_taken s' s'' \<Longrightarrow> pages_taken s s''"
  by (auto simp: pages_taken_def)

lemma pages_taken_alloc:
  assumes "page_alloc_small (mm_pages s) = Some (r, p)"
  shows "pages_taken s (s\<lparr>mm_pages := p\<rparr>)"
proof -
  have "KERNEL_LARGE_PAGE_ARENA p = KERNEL_LARGE_PAGE_ARENA (mm_pages s)"
    using assms by (auto simp: page_alloc_small_def split: bind_splits)
  moreover have "arena_wf 4096 (KERNEL_SMALL_PAGE_ARENA p) \<and> arena_avail (KERNEL_SMALL_PAGE_ARENA p) \<subseteq> mm_avail s"
    if wf: "arena_wf 4096 (KERNEL_SMALL_PAGE_ARENA (mm_pages s))"
  proof (cases "mm_avail s = {}")
    case True
    then show ?thesis using small_pages.alloc_none [OF wf] assms wf by (auto simp: mm_avail_def)
  next
    case False
    then show ?thesis using small_pages.alloc_page [OF wf] assms by (auto simp: mm_avail_def)
  qed
  ultimately show ?thesis by (simp add: pages_taken_def mm_avail_def)
qed

lemma pages_taken_table_entry:
  assumes "mmu_table_entry n m t i f s = Some (r, e, s')"
  shows "pages_taken s s'"
proof (cases "n (pg_entry (mm_mem s) t i)")
  case False
  then show ?thesis using assms by (simp add: mmu_table_entry_def pages_taken_refl)
next
  case True
  then obtain page p where a: "page_alloc_small (mm_pages s) = Some (page, p)" and "mm_pages s' = p"
    using assms by (auto simp: mmu_table_entry_def zero_page_def set_pg_entry_def Let_def split: bind_splits if_splits)
  then show ?thesis using pages_taken_trans [OF pages_taken_alloc [OF a] pages_taken_refl] by simp
qed

lemma pages_taken_set_entry: "pages_taken s (set_pg_entry t i e s)"
  by (simp add: pages_taken_refl set_pg_entry_def)

lemma pages_taken_small:
  "mmu_map_small_page mp v p prot flags s = Some (r, s') \<Longrightarrow> pages_taken s s'"
  unfolding mmu_map_small_page_def Let_def
  by (auto split: bind_splits if_splits dest!: pages_taken_table_entry)
    (meson pages_taken_trans pages_taken_set_entry)+

lemma pages_taken_large:
  "mmu_map_large_page mp v p prot flags s = Some (r, s') \<Longrightarrow> pages_taken s s'"
  unfolding mmu_map_large_page_def Let_def
  by (auto split: bind_splits if_splits dest!: pages_taken_table_entry)
    (meson pages_taken_trans pages_taken_set_entry)+

lemma pages_taken_pages:
  assumes f: "\<And>v p s r s'. f v p s = Some (r, s') \<Longrightarrow> pages_taken s s'"
    and run: "mmu_map_pages f sz off fin p s = Some res"
  shows "pages_taken s (snd (snd res))"
proof -
  have "f = f \<longrightarrow> pages_taken s (snd (snd res))"
  proof (rule mmu_map_pages.raw_induct [of "\<lambda>g sz off fin p s res. g = f \<longrightarrow> pages_taken s (snd (snd res))", OF _ run], rule impI)
    fix loop g sz off fin p s res
    assume IH: "\<And>g sz off fin p s res. loop g sz off fin p s = Some res \<Longrightarrow> g = f \<longrightarrow> pages_taken s (snd (snd res))"
      and body: "(if off < fin then g off p s \<bind> (\<lambda>(err, s). if err \<noteq> 0 then Some (err, p, s) else loop g sz (off + sz) fin (p + sz) s)
        else Some (0, p, s)) = Some res" and g: "g = f"
    show "pages_taken s (snd (snd res))"
    proof (cases "off < fin")
      case False
      then show ?thesis using body by (auto simp: pages_taken_refl)
    next
      case True
      then obtain r s1 where r: "f off p s = Some (r, s1)"
        and rest: "(if r \<noteq> 0 then Some (r, p, s1) else loop g sz (off + sz) fin (p + sz) s1) = Some res"
        using body g by (auto split: bind_splits)
      then have "pages_taken s1 (snd (snd res))" using IH g by (auto simp: pages_taken_refl split: if_splits)
      then show ?thesis using f [OF r] by (rule pages_taken_trans [rotated])
    qed
  qed
  then show ?thesis by simp
qed

lemma pages_taken_range:
  assumes "mmu_map_range mp v p sz prot flags s = Some (r, s')"
  shows "pages_taken s s'"
proof -
  have "pages_taken s (snd (snd res))" if "mmu_map_pages (\<lambda>v p. mmu_map_small_page mp v p prot flags) n o1 o2 p s = Some res" for n o1 o2 p s res
    by (rule pages_taken_pages [OF _ that]) (rule pages_taken_small)
  then have small: "pages_taken s s'" if "mmu_map_pages (\<lambda>v p. mmu_map_small_page mp v p prot flags) n o1 o2 p s = Some (r, p', s')" for n o1 o2 p s r p' s'
    using that by fastforce
  have "pages_taken s (snd (snd res))" if "mmu_map_pages (\<lambda>v p. mmu_map_large_page mp v p prot flags) n o1 o2 p s = Some res" for n o1 o2 p s res
    by (rule pages_taken_pages [OF _ that]) (rule pages_taken_large)
  then have large: "pages_taken s s'" if "mmu_map_pages (\<lambda>v p. mmu_map_large_page mp v p prot flags) n o1 o2 p s = Some (r, p', s')" for n o1 o2 p s r p' s'
    using that by fastforce
  show ?thesis
    using assms unfolding mmu_map_range_def Let_def
    by (auto split: bind_splits if_splits dest!: small large simp: pages_taken_refl) (meson pages_taken_trans)+
qed

subsection \<open>Regions\<close>

definition region_list :: "'v VMAddressSpace \<Rightarrow> VMRegion list" where
  "region_list vs = vt_iter (vm_tree vs) (vm_regions vs)"

text \<open>The regions are not empty and lie one behind the other.\<close>

definition vm_inv :: "'v VMAddressSpace \<Rightarrow> bool" where
  "vm_inv vs \<longleftrightarrow> region_tree_laws (vm_tree vs)
     \<and> sorted_wrt (\<lambda>a b. vr_end a \<le> vr_start b) (region_list vs)
     \<and> (\<forall>r \<in> set (region_list vs). vr_start r < vr_end r)"

definition upper_end :: "'v VMAddressSpace \<Rightarrow> u64" where
  "upper_end vs = (if region_list vs = [] then 0 else vr_end (last (region_list vs)))"

definition region_bytes :: "VMRegion \<Rightarrow> nat set" where
  "region_bytes r = {unat (vr_start r) ..< unat (vr_end r)}"

lemma sorted_regions:
  assumes "sorted_wrt (\<lambda>a b. vr_end a \<le> vr_start b) rs" and "\<forall>r \<in> set rs. vr_start r < vr_end r"
  shows "sorted (map vr_start rs)" and "distinct (map vr_start rs)"
    and "\<forall>r \<in> set rs. vr_end r \<le> vr_end (last rs)"
proof -
  have "sorted (map vr_start rs) \<and> distinct (map vr_start rs) \<and> (\<forall>r \<in> set rs. vr_end r \<le> vr_end (last rs))"
    using assms
  proof (induction rs)
    case Nil
    then show ?case by simp
  next
    case (Cons a rs)
    have next_end: "vr_end a \<le> vr_start b \<and> vr_start b < vr_end b" if "b \<in> set rs" for b using Cons.prems that by auto
    have "vr_start a < vr_end a" using Cons.prems by simp
    then have "vr_start a < vr_start b" if "b \<in> set rs" for b using next_end [OF that] by (auto intro: order.strict_trans2)
    moreover have "vr_end a \<le> vr_end (last rs)" if "rs \<noteq> []" using next_end [of "last rs"] that by (auto intro: order.trans less_imp_le)
    ultimately show ?case using Cons by fastforce
  qed
  then show "sorted (map vr_start rs)" "distinct (map vr_start rs)" "\<forall>r \<in> set rs. vr_end r \<le> vr_end (last rs)" by auto
qed

lemma insert_at_end:
  assumes "sorted (map vr_start (take i rs @ r # drop i rs))" and "\<forall>x \<in> set rs. vr_start x < vr_start r"
  shows "take i rs @ r # drop i rs = rs @ [r]"
proof -
  have "\<forall>x \<in> set (drop i rs). vr_start r \<le> vr_start x" using assms(1) by (simp add: sorted_append)
  then have "drop i rs = []" using assms(2) by (metis in_set_dropD list.set_intros(1) neq_Nil_conv not_less)
  then show ?thesis by simp
qed

lemma insert_region_end:
  assumes inv: "vm_inv vs" and "\<forall>x \<in> set (region_list vs). vr_start x < start"
  shows "region_list (insert_region start fin prot vs) = region_list vs @ [VMRegion_new start fin prot]"
proof -
  have T: "region_tree_laws (vm_tree vs)" and s: "vt_sorted (vm_tree vs) (vm_regions vs)"
    using inv sorted_regions(1) by (auto simp: vm_inv_def vt_sorted_def region_list_def)
  define rs where "rs = region_list vs"
  define r where "r = VMRegion_new start fin prot"
  obtain i where i: "region_list (insert_region start fin prot vs) = take i rs @ r # drop i rs"
    and "sorted (map vr_start (region_list (insert_region start fin prot vs)))"
    using T [unfolded region_tree_laws_def, THEN conjunct2, THEN conjunct2, THEN conjunct2, THEN conjunct2, rule_format, OF s, of r]
    by (auto simp: region_list_def insert_region_def vt_sorted_def rs_def r_def)
  then have "sorted (map vr_start (take i rs @ r # drop i rs))" by simp
  then have "take i rs @ r # drop i rs = rs @ [r]"
    by (rule insert_at_end) (use assms(2) in \<open>simp add: rs_def r_def VMRegion_new_def\<close>)
  with i show ?thesis by (simp add: rs_def r_def)
qed

lemma upper_end_bound:
  assumes "vm_inv vs" and "r \<in> set (region_list vs)"
  shows "vr_start r < vr_end r" and "vr_end r \<le> upper_end vs"
  using assms sorted_regions(3) [of "region_list vs"] by (auto simp: vm_inv_def upper_end_def)

lemma vm_last_upper:
  assumes "vm_inv vs"
  shows "(case vt_last (vm_tree vs) (vm_regions vs) of Some region \<Rightarrow> vr_end region | None \<Rightarrow> 0) = upper_end vs"
  using assms by (simp add: vm_inv_def region_tree_laws_def upper_end_def region_list_def)

lemma range_count_above:
  assumes inv: "vm_inv vs" and "upper_end vs \<le> start"
  shows "vt_range_count (vm_tree vs) start fin (vm_regions vs) = 0"
proof -
  have T: "region_tree_laws (vm_tree vs)" and s: "vt_sorted (vm_tree vs) (vm_regions vs)"
    using inv sorted_regions(1) by (auto simp: vm_inv_def vt_sorted_def region_list_def)
  have "\<not> start \<le> vr_start r" if "r \<in> set (region_list vs)" for r
    using upper_end_bound [OF inv that] assms(2) by order
  then have "filter (\<lambda>r. start \<le> vr_start r \<and> vr_start r < fin) (region_list vs) = []" by (auto simp: filter_empty_conv)
  then show ?thesis
    using T [unfolded region_tree_laws_def, THEN conjunct2, THEN conjunct2, THEN conjunct1, rule_format, OF s] by (simp add: region_list_def)
qed

lemma vm_allocate_ok:
  assumes inv: "vm_inv vs" and sz: "4096 dvd unat sz" "sz \<noteq> 0" and "n < 64"
    and lim: "unat (upper_end vs) + 2 ^ n + unat sz \<le> 2 ^ 63"
  defines "start \<equiv> align_up (upper_end vs) (2 ^ n)"
  shows "\<exists>vs'. vm_allocate sz (2 ^ n) prot vs = (Inr (start, start + sz), vs') \<and> vm_inv vs'
    \<and> region_list vs' = region_list vs @ [VMRegion_new start (start + sz) prot]
    \<and> vm_tree vs' = vm_tree vs \<and> vm_mmu_map vs' = vm_mmu_map vs"
    and "upper_end vs \<le> start" and "unat start < unat (upper_end vs) + 2 ^ n" and "unat (start + sz) = unat start + unat sz"
proof -
  have nw: "unat (upper_end vs) + 2 ^ n - 1 < 2 ^ 64" using lim by simp
  show ge: "upper_end vs \<le> start" and lt: "unat start < unat (upper_end vs) + 2 ^ n"
    unfolding start_def using align_up_ge [OF assms(4) nw] by auto
  show fin: "unat (start + sz) = unat start + unat sz" using lt lim by (intro unat_add_no_wrap) simp
  have al: "is_aligned sz PAGE_SIZE_SMALL" using sz(1) is_aligned_iff_dvd [of 12 sz] by (simp add: PAGE_SIZE_SMALL_eq)
  have below: "\<forall>x \<in> set (region_list vs). vr_start x < start" using upper_end_bound [OF inv] ge by (meson order.strict_trans1 order.strict_trans2)
  define vs' where "vs' = insert_region start (start + sz) prot vs"
  have l: "region_list vs' = region_list vs @ [VMRegion_new start (start + sz) prot]"
    unfolding vs'_def by (rule insert_region_end [OF inv below])
  have lt2: "start < start + sz" using fin sz(2) by (simp add: word_less_nat_alt unat_gt_0)
  have "\<forall>x \<in> set (region_list vs). vr_end x \<le> start" using upper_end_bound [OF inv] ge by (meson order.trans)
  then have "vm_inv vs'"
    using inv lt2 unfolding vm_inv_def l by (auto simp: sorted_wrt_append VMRegion_new_def vs'_def insert_region_def)
  moreover have "vm_allocate sz (2 ^ n) prot vs = (Inr (start, start + sz), vs')"
    using al range_count_above [OF inv ge, of "start + sz"]
    unfolding vm_allocate_def Let_def vm_last_upper [OF inv] by (simp add: start_def [symmetric] vs'_def)
  ultimately show "\<exists>vs'. vm_allocate sz (2 ^ n) prot vs = (Inr (start, start + sz), vs') \<and> vm_inv vs'
    \<and> region_list vs' = region_list vs @ [VMRegion_new start (start + sz) prot]
    \<and> vm_tree vs' = vm_tree vs \<and> vm_mmu_map vs' = vm_mmu_map vs"
    using l by (intro exI [of _ vs']) (simp add: vs'_def insert_region_def)
qed

lemma vm_find_region:
  assumes inv: "vm_inv vs" and r: "r \<in> set (region_list vs)"
  shows "vt_find (vm_tree vs) (vr_start r) (vm_regions vs) = Some r"
proof -
  have T: "region_tree_laws (vm_tree vs)" and s: "vt_sorted (vm_tree vs) (vm_regions vs)" and d: "distinct (map vr_start (region_list vs))"
    using inv sorted_regions(1,2) by (auto simp: vm_inv_def vt_sorted_def region_list_def)
  obtain i where "i < length (region_list vs)" "vr_start (region_list vs ! i) = vr_start r"
    "vt_find (vm_tree vs) (vr_start r) (vm_regions vs) = Some (region_list vs ! i)"
    using T [unfolded region_tree_laws_def, THEN conjunct2, THEN conjunct2, THEN conjunct2, THEN conjunct1, rule_format, OF s, of "vr_start r"] r
    by (auto simp: region_list_def split: if_splits)
  moreover have "region_list vs ! i = r" if "i < length (region_list vs)" "vr_start (region_list vs ! i) = vr_start r" for i
    using d r that by (metis (mono_tags, lifting) distinct_map inj_onD nth_mem)
  ultimately show ?thesis by simp
qed

subsection \<open>Populating a region\<close>

definition large_avail :: "('t, 'c) mmu_state \<Rightarrow> nat set" where
  "large_avail s = arena_avail (KERNEL_LARGE_PAGE_ARENA (mm_pages s))"

definition large_ok :: "('t, 'c) mmu_state \<Rightarrow> bool" where
  "large_ok s \<longleftrightarrow> arena_wf 2097152 (KERNEL_LARGE_PAGE_ARENA (mm_pages s)) \<and> large_avail s \<subseteq> {unat KERNEL_VMA..}"

text \<open>The memory from which a region of \<open>sz\<close> bytes is served.\<close>

definition pool :: "u64 \<Rightarrow> ('t, 'c) mmu_state \<Rightarrow> nat set" where
  "pool sz s = (if sz = PAGE_SIZE_LARGE then large_avail s else mm_avail s)"

lemma pool_simps [simp]: "pool PAGE_SIZE_LARGE s = large_avail s" "pool PAGE_SIZE_SMALL s = mm_avail s"
  by (simp_all add: pool_def PAGE_SIZE_SMALL_def PAGE_SIZE_LARGE_def)

lemma mmu_inv_less:
  assumes "mmu_inv mp s" and "mm_mem s' = mm_mem s" and "arena_wf 4096 (KERNEL_SMALL_PAGE_ARENA (mm_pages s'))" and "mm_avail s' \<subseteq> mm_avail s"
  shows "mmu_inv mp s'"
  using assms unfolding mmu_inv_def pg_inv_def by fastforce

lemma page_bytes_self: "0 < n \<Longrightarrow> unat r \<in> page_bytes n r"
  by (simp add: page_bytes_def)

lemma take_small:
  assumes inv: "mmu_inv mp s" and l: "large_ok s"
  shows "\<exists>page p. page_alloc_small (mm_pages s) = Some (page, p) \<and> mmu_inv mp (s\<lparr>mm_pages := p\<rparr>) \<and> large_ok (s\<lparr>mm_pages := p\<rparr>)
    \<and> (page \<noteq> 0 \<longrightarrow> 4096 dvd unat page \<and> KERNEL_VMA \<le> page \<and> page_bytes 4096 page \<subseteq> mm_avail s \<and> page_bytes 4096 page \<inter> mm_avail (s\<lparr>mm_pages := p\<rparr>) = {})"
proof -
  have wf: "arena_wf 4096 (KERNEL_SMALL_PAGE_ARENA (mm_pages s))" and ge: "mm_avail s \<subseteq> {unat KERNEL_VMA..}"
    using inv by (auto simp: mmu_inv_def pg_inv_def)
  obtain page p where a: "page_alloc_small (mm_pages s) = Some (page, p)"
    and P: "page \<noteq> 0 \<longrightarrow> 4096 dvd unat page \<and> page_bytes 4096 page \<subseteq> mm_avail s \<and> page_bytes 4096 page \<inter> arena_avail (KERNEL_SMALL_PAGE_ARENA p) = {}"
  proof (cases "mm_avail s = {}")
    case True
    then show ?thesis using that small_pages.alloc_none [OF wf] by (simp add: mm_avail_def)
  next
    case False
    then obtain r p where "page_alloc_small (mm_pages s) = Some (r, p)" "4096 dvd unat r" "page_bytes 4096 r \<subseteq> mm_avail s"
      "arena_avail (KERNEL_SMALL_PAGE_ARENA p) = mm_avail s - page_bytes 4096 r"
      using small_pages.alloc_page [OF wf] by (auto simp: mm_avail_def)
    then show ?thesis using that [of r p] by auto
  qed
  let ?s = "s\<lparr>mm_pages := p\<rparr>"
  have t: "pages_taken s ?s" by (rule pages_taken_alloc [OF a])
  have "mmu_inv mp ?s" by (rule mmu_inv_less [OF inv]) (use t wf in \<open>auto simp: pages_taken_def\<close>)
  moreover have "large_ok ?s" using t l by (simp add: large_ok_def large_avail_def pages_taken_def)
  moreover have "KERNEL_VMA \<le> page" if "page \<noteq> 0"
    using P that ge page_bytes_self [of 4096 page] by (auto simp: word_le_nat_alt)
  ultimately show ?thesis using a P by (auto simp: mm_avail_def)
qed

lemma take_large:
  assumes inv: "mmu_inv mp s" and l: "large_ok s"
  shows "\<exists>page p. page_alloc_large (mm_pages s) = Some (page, p) \<and> mmu_inv mp (s\<lparr>mm_pages := p\<rparr>) \<and> large_ok (s\<lparr>mm_pages := p\<rparr>)
    \<and> (page \<noteq> 0 \<longrightarrow> 2097152 dvd unat page \<and> KERNEL_VMA \<le> page \<and> page_bytes 2097152 page \<subseteq> large_avail s
        \<and> page_bytes 2097152 page \<inter> large_avail (s\<lparr>mm_pages := p\<rparr>) = {})"
proof -
  have wf: "arena_wf 2097152 (KERNEL_LARGE_PAGE_ARENA (mm_pages s))" and ge: "large_avail s \<subseteq> {unat KERNEL_VMA..}"
    using l by (auto simp: large_ok_def)
  obtain page p where a: "page_alloc_large (mm_pages s) = Some (page, p)" and wf': "arena_wf 2097152 (KERNEL_LARGE_PAGE_ARENA p)"
    and sub: "arena_avail (KERNEL_LARGE_PAGE_ARENA p) \<subseteq> large_avail s"
    and P: "page \<noteq> 0 \<longrightarrow> 2097152 dvd unat page \<and> page_bytes 2097152 page \<subseteq> large_avail s \<and> page_bytes 2097152 page \<inter> arena_avail (KERNEL_LARGE_PAGE_ARENA p) = {}"
  proof (cases "large_avail s = {}")
    case True
    then show ?thesis using that large_pages.alloc_none [OF wf] wf by (simp add: large_avail_def)
  next
    case False
    then obtain r p where "page_alloc_large (mm_pages s) = Some (r, p)" "2097152 dvd unat r" "page_bytes 2097152 r \<subseteq> large_avail s"
      "arena_wf 2097152 (KERNEL_LARGE_PAGE_ARENA p)" "arena_avail (KERNEL_LARGE_PAGE_ARENA p) = large_avail s - page_bytes 2097152 r"
      using large_pages.alloc_page [OF wf] by (auto simp: large_avail_def)
    then show ?thesis using that [of r p] by auto
  qed
  let ?s = "s\<lparr>mm_pages := p\<rparr>"
  have small: "KERNEL_SMALL_PAGE_ARENA p = KERNEL_SMALL_PAGE_ARENA (mm_pages s)"
    using a by (auto simp: page_alloc_large_def split: bind_splits)
  have "mmu_inv mp ?s"
    by (rule mmu_inv_less [OF inv]) (use inv in \<open>auto simp: small mm_avail_def mmu_inv_def pg_inv_def\<close>)
  moreover have "large_ok ?s" using wf' sub ge by (auto simp: large_ok_def large_avail_def)
  moreover have "KERNEL_VMA \<le> page" if "page \<noteq> 0"
    using P that ge page_bytes_self [of 2097152 page] by (auto simp: word_le_nat_alt)
  ultimately show ?thesis using a P by (auto simp: large_avail_def)
qed

lemma take_page:
  assumes "mmu_inv mp s" and "large_ok s" and "sz = PAGE_SIZE_SMALL \<or> sz = PAGE_SIZE_LARGE"
  shows "\<exists>page p. (if sz = PAGE_SIZE_LARGE then page_alloc_large (mm_pages s) else page_alloc_small (mm_pages s)) = Some (page, p)
    \<and> mmu_inv mp (s\<lparr>mm_pages := p\<rparr>) \<and> large_ok (s\<lparr>mm_pages := p\<rparr>)
    \<and> (page \<noteq> 0 \<longrightarrow> unat sz dvd unat page \<and> KERNEL_VMA \<le> page \<and> page_bytes (unat sz) page \<subseteq> pool sz s
        \<and> page_bytes (unat sz) page \<inter> pool sz (s\<lparr>mm_pages := p\<rparr>) = {})"
proof (cases "sz = PAGE_SIZE_LARGE")
  case True
  then show ?thesis using take_large [OF assms(1,2)] by simp
next
  case False
  then show ?thesis using take_small [OF assms(1,2)] assms(3) by auto
qed

lemma pool_taken:
  assumes "pages_taken s s'" and "mmu_inv mp s" and "large_ok s"
  shows "pool sz s' \<subseteq> pool sz s" and "large_ok s'"
  using assms by (auto simp: pages_taken_def pool_def large_avail_def large_ok_def mmu_inv_def pg_inv_def)

lemma map_region_page_ok:
  fixes s :: "('t, 'c) mmu_state"
  assumes inv: "mmu_inv (vm_mmu_map vs) s" and l: "large_ok s" and sz: "sz = PAGE_SIZE_SMALL \<or> sz = PAGE_SIZE_LARGE"
    and start: "4096 dvd unat start" "sz = PAGE_SIZE_LARGE \<Longrightarrow> 2097152 dvd unat start" "unat start + unat sz \<le> 2 ^ 47"
    and page: "unat sz dvd unat page" "KERNEL_VMA \<le> page"
  shows "\<exists>res vs' s'. map_region_page region start (start + sz) page vs s = Some (res, vs', s') \<and> mmu_inv (vm_mmu_map vs) s' \<and> large_ok s'
    \<and> pool sz s' \<subseteq> pool sz s \<and> vs' = vs\<lparr>region_page := (region_page vs)(vr_start region \<mapsto> page)\<rparr>
    \<and> res \<in> {Inr (), Inl (- ENOMEM), Inl (- EINVAL)}
    \<and> (\<forall>v. vpos v < unat start \<or> unat start + unat sz \<le> vpos v \<longrightarrow> mmu_walk s' (vm_mmu_map vs) v = mmu_walk s (vm_mmu_map vs) v)
    \<and> (res = Inr () \<longrightarrow> (\<forall>k < unat sz. mmu_translate s' (vm_mmu_map vs) (start + of_nat k) = Some (virt_to_phys page + of_nat k)))"
proof -
  let ?mp = "vm_mmu_map vs" and ?p = "virt_to_phys page"
  have up: "unat ?p = unat page - unat KERNEL_VMA" using page(2) by (simp add: virt_to_phys_def unat_sub)
  have usz: "unat sz = 4096 \<or> unat sz = 2097152 \<and> sz = PAGE_SIZE_LARGE" using sz by auto
  have vma: "(2097152 :: nat) dvd unat KERNEL_VMA" "(4096 :: nat) dvd unat KERNEL_VMA" by (simp_all add: KERNEL_VMA_def)
  have lt: "unat page < 2 ^ 64" by (rule unat_lt64)
  have "(4096 :: nat) dvd unat page" using usz page(1) by (auto elim: dvd_trans [rotated])
  then have d: "4096 dvd unat ?p" unfolding up using vma(2) by (rule dvd_diff_nat)
  have vp: "vpos start = unat start" using start(3) usz by (auto simp: vpos_def)
  have m: "unat sz < 2097152 \<or> unat start mod 2097152 = unat ?p mod 2097152"
  proof (cases "unat sz = 4096")
    case False
    then have L: "sz = PAGE_SIZE_LARGE" "unat sz = 2097152" using usz by auto
    then have "2097152 dvd unat start" "2097152 dvd unat ?p" using start(2) page(1) vma(1) unfolding up by (simp_all add: dvd_diff_nat)
    then show ?thesis by (simp add: dvd_eq_mod_eq_0)
  qed simp
  have lim: "vpos start + unat sz \<le> 2 ^ 48" "unat start + unat sz + 2097152 \<le> 2 ^ 64" "unat ?p + unat sz + 4096 \<le> 2 ^ 63"
    using start(3) usz lt unfolding vp up by (auto simp: KERNEL_VMA_def)
  obtain r s' where R: "mmu_map_range ?mp start ?p sz (mmu_prot region) MMU_USER_PAGE s = Some (r, s')" "mmu_inv ?mp s'" "r \<in> {0, - ENOMEM, - EINVAL}"
    "\<forall>v. vpos v < vpos start \<or> vpos start + (unat sz + 4095) div 4096 * 4096 \<le> vpos v \<longrightarrow> mmu_walk s' ?mp v = mmu_walk s ?mp v"
    "r = 0 \<longrightarrow> (\<forall>k < unat sz. mmu_translate s' ?mp (start + of_nat k) = Some (?p + of_nat k))"
    using map_range_ok [OF inv start(1) d lim m, of "mmu_prot region" MMU_USER_PAGE] by blast
  have rd: "(unat sz + 4095) div 4096 * 4096 = unat sz" using usz by auto
  have tk: "pages_taken s s'" by (rule pages_taken_range [OF R(1)])
  note pt = pool_taken [OF tk inv l]
  show ?thesis
    using R pt unfolding vp rd map_region_page_def
    by (intro exI [of _ "if r \<noteq> 0 then Inl r else Inr ()"] exI [of _ "vs\<lparr>region_page := (region_page vs)(vr_start region \<mapsto> page)\<rparr>"] exI [of _ s'])
      auto
qed

lemma vm_populate_ok:
  fixes s :: "('t, 'c) mmu_state"
  assumes inv: "mmu_inv (vm_mmu_map vs) s" and l: "large_ok s" and sz: "sz = PAGE_SIZE_SMALL \<or> sz = PAGE_SIZE_LARGE"
    and find: "vt_find (vm_tree vs) start (vm_regions vs) = Some (VMRegion_new start (start + sz) prot)"
    and start: "4096 dvd unat start" "sz = PAGE_SIZE_LARGE \<Longrightarrow> 2097152 dvd unat start" "unat start + unat sz \<le> 2 ^ 47"
  shows "\<exists>res vs' s'. vm_populate start (start + sz) vs s = Some (res, vs', s') \<and> mmu_inv (vm_mmu_map vs) s' \<and> large_ok s'
    \<and> region_list vs' = region_list vs \<and> vm_tree vs' = vm_tree vs
    \<and> res \<in> {Inr (), Inl ENOMEM, Inl (- ENOMEM), Inl (- EINVAL)}
    \<and> (\<forall>v. vpos v < unat start \<or> unat start + unat sz \<le> vpos v \<longrightarrow> mmu_walk s' (vm_mmu_map vs) v = mmu_walk s (vm_mmu_map vs) v)
    \<and> (res = Inr () \<longrightarrow> (\<exists>page. page_bytes (unat sz) page \<subseteq> pool sz s \<and> page_bytes (unat sz) page \<inter> pool sz s' = {}
         \<and> (\<forall>k < unat sz. mmu_translate s' (vm_mmu_map vs) (start + of_nat k) = Some (virt_to_phys page + of_nat k))))"
proof -
  let ?mp = "vm_mmu_map vs" and ?r = "VMRegion_new start (start + sz) prot"
  obtain page p where a: "(if sz = PAGE_SIZE_LARGE then page_alloc_large (mm_pages s) else page_alloc_small (mm_pages s)) = Some (page, p)"
    and s1: "mmu_inv ?mp (s\<lparr>mm_pages := p\<rparr>)" "large_ok (s\<lparr>mm_pages := p\<rparr>)"
    and P: "page \<noteq> 0 \<longrightarrow> unat sz dvd unat page \<and> KERNEL_VMA \<le> page \<and> page_bytes (unat sz) page \<subseteq> pool sz s
        \<and> page_bytes (unat sz) page \<inter> pool sz (s\<lparr>mm_pages := p\<rparr>) = {}"
    using take_page [OF inv l sz] by blast
  let ?s1 = "s\<lparr>mm_pages := p\<rparr>"
  have walk: "mmu_walk ?s1 ?mp v = mmu_walk s ?mp v" for v by (simp add: mmu_walk_def)
  have e: "start + sz - start = sz" by simp
  have pop: "vm_populate start (start + sz) vs s = (if page = 0 then Some (Inl ENOMEM, vs, ?s1) else map_region_page ?r start (start + sz) page vs ?s1)"
    using a sz unfolding vm_populate_def find by (auto simp: VMRegion_new_def)
  show ?thesis
  proof (cases "page = 0")
    case True
    then show ?thesis using s1 walk unfolding pop by auto
  next
    case False
    obtain res vs' s' where R: "map_region_page ?r start (start + sz) page vs ?s1 = Some (res, vs', s')" "mmu_inv ?mp s'" "large_ok s'"
      "pool sz s' \<subseteq> pool sz ?s1" "vs' = vs\<lparr>region_page := (region_page vs)(vr_start ?r \<mapsto> page)\<rparr>"
      "res \<in> {Inr (), Inl (- ENOMEM), Inl (- EINVAL)}"
      "\<forall>v. vpos v < unat start \<or> unat start + unat sz \<le> vpos v \<longrightarrow> mmu_walk s' ?mp v = mmu_walk ?s1 ?mp v"
      "res = Inr () \<longrightarrow> (\<forall>k < unat sz. mmu_translate s' ?mp (start + of_nat k) = Some (virt_to_phys page + of_nat k))"
      using map_region_page_ok [OF s1 sz start, of page ?r] P False by blast
    have "page_bytes (unat sz) page \<subseteq> pool sz s" "page_bytes (unat sz) page \<inter> pool sz s' = {}" using P False R(4) by auto
    moreover have "region_list vs' = region_list vs" "vm_tree vs' = vm_tree vs" by (simp_all add: R(5) region_list_def)
    ultimately show ?thesis using False R(1-3,6-8) walk unfolding pop by auto
  qed
qed

subsection \<open>Properties\<close>

text \<open>C8: in an address space whose regions are disjoint, a request for a small page, or for a large
  page with at least its alignment, that fits below the end of the user half returns. On success the
  new region is aligned and disjoint from every other region, it is backed by a page that was
  available and no longer is, and every byte of it is translated to the byte of that page. Whatever
  the result, the regions stay disjoint and no address outside of the new region changes its
  translation.\<close>

theorem vmspace_alloc_fresh:
  fixes s :: "('t, 'c) mmu_state"
  assumes "vm_inv vs" and "mmu_inv (vm_mmu_map vs) s" and "large_ok s"
    and "12 \<le> n" and "sz = PAGE_SIZE_SMALL \<or> sz = PAGE_SIZE_LARGE \<and> 21 \<le> n"
    and "unat (upper_end vs) + 2 ^ n + unat sz \<le> 2 ^ 47"
  shows "\<exists>r res vs' s' start. process_vmspace_alloc sz (2 ^ n) vs s = Some (r, res, vs', s')
    \<and> vm_inv vs' \<and> mmu_inv (vm_mmu_map vs) s' \<and> large_ok s' \<and> r \<in> {0, - ENOMEM, ENOMEM, EINVAL}
    \<and> region_list vs' = region_list vs @ [VMRegion_new start (start + sz) VM_PROT_RW]
    \<and> 2 ^ n dvd unat start \<and> (\<forall>x \<in> set (region_list vs). region_bytes x \<inter> {unat start ..< unat start + unat sz} = {})
    \<and> (\<forall>v. vpos v < unat start \<or> unat start + unat sz \<le> vpos v \<longrightarrow> mmu_walk s' (vm_mmu_map vs) v = mmu_walk s (vm_mmu_map vs) v)
    \<and> (if r = 0 then res = Some start \<and> (\<exists>page. page_bytes (unat sz) page \<subseteq> pool sz s \<and> page_bytes (unat sz) page \<inter> pool sz s' = {}
         \<and> (\<forall>k < unat sz. mmu_translate s' (vm_mmu_map vs) (start + of_nat k) = Some (virt_to_phys page + of_nat k)))
       else res = None)"
proof -
  define start where "start = align_up (upper_end vs) (2 ^ n)"
  have sz: "sz = PAGE_SIZE_SMALL \<or> sz = PAGE_SIZE_LARGE" "4096 dvd unat sz" "sz \<noteq> 0" "unat sz = 4096 \<or> unat sz = 2097152"
    using assms(5) by (auto simp: word_unat_eq_iff)
  have n: "n < 64" proof (rule ccontr)
    assume "\<not> n < 64" then have "(2 :: nat) ^ 64 \<le> 2 ^ n" by (intro power_increasing) simp_all
    then show False using assms(6) by simp
  qed
  note al = vm_allocate_ok [OF assms(1) sz(2,3) n, folded start_def]
  have lim: "unat (upper_end vs) + 2 ^ n + unat sz \<le> 2 ^ 63" using assms(6) by simp
  obtain vs1 where V: "vm_allocate sz (2 ^ n) VM_PROT_RW vs = (Inr (start, start + sz), vs1)" "vm_inv vs1"
    "region_list vs1 = region_list vs @ [VMRegion_new start (start + sz) VM_PROT_RW]" "vm_tree vs1 = vm_tree vs" "vm_mmu_map vs1 = vm_mmu_map vs"
    using al(1) [OF lim, of VM_PROT_RW] by blast
  have dv: "2 ^ n dvd unat start" unfolding start_def by (rule align_up_dvd)
  have d12: "4096 dvd unat start" using dv le_imp_power_dvd [OF assms(4), of "2 :: nat"] by (auto elim: dvd_trans [rotated])
  have d21: "2097152 dvd unat start" if "sz = PAGE_SIZE_LARGE"
  proof -
    have "21 \<le> n" using that assms(5) by (auto simp: PAGE_SIZE_SMALL_def PAGE_SIZE_LARGE_def)
    then show ?thesis using dv le_imp_power_dvd [of 21 n "2 :: nat"] by (auto elim: dvd_trans [rotated])
  qed
  have top: "unat start + unat sz \<le> 2 ^ 47" using al(3) [OF lim] assms(6) by simp
  have "VMRegion_new start (start + sz) VM_PROT_RW \<in> set (region_list vs1)" by (simp add: V(3))
  from vm_find_region [OF V(2) this]
  have find: "vt_find (vm_tree vs1) start (vm_regions vs1) = Some (VMRegion_new start (start + sz) VM_PROT_RW)" by (simp add: VMRegion_new_def)
  obtain res vs' s' where R: "vm_populate start (start + sz) vs1 s = Some (res, vs', s')" "mmu_inv (vm_mmu_map vs) s'" "large_ok s'"
    "region_list vs' = region_list vs1" "vm_tree vs' = vm_tree vs1" "res \<in> {Inr (), Inl ENOMEM, Inl (- ENOMEM), Inl (- EINVAL)}"
    "\<forall>v. vpos v < unat start \<or> unat start + unat sz \<le> vpos v \<longrightarrow> mmu_walk s' (vm_mmu_map vs) v = mmu_walk s (vm_mmu_map vs) v"
    "res = Inr () \<longrightarrow> (\<exists>page. page_bytes (unat sz) page \<subseteq> pool sz s \<and> page_bytes (unat sz) page \<inter> pool sz s' = {}
         \<and> (\<forall>k < unat sz. mmu_translate s' (vm_mmu_map vs) (start + of_nat k) = Some (virt_to_phys page + of_nat k)))"
    using vm_populate_ok [OF _ assms(3) sz(1) find d12 d21 top] assms(2) unfolding V(5) by blast
  have inv': "vm_inv vs'" using V(2) unfolding vm_inv_def R(4,5) .
  have dis: "\<forall>x \<in> set (region_list vs). region_bytes x \<inter> {unat start ..< unat start + unat sz} = {}"
    using upper_end_bound(2) [OF assms(1)] al(2) [OF lim] by (fastforce simp: region_bytes_def word_le_nat_alt)
  define r where "r = (case res of Inl e \<Rightarrow> - e | Inr _ \<Rightarrow> 0)"
  have eq: "process_vmspace_alloc sz (2 ^ n) vs s = Some (r, if r = 0 then Some start else None, vs', s')"
    using R(1,6) unfolding process_vmspace_alloc_def V(1) by (auto simp: r_def ENOMEM_def EINVAL_def split: sum.splits)
  have "r \<in> {0, - ENOMEM, ENOMEM, EINVAL}" "r = 0 \<longleftrightarrow> res = Inr ()" using R(6) by (auto simp: r_def ENOMEM_def EINVAL_def)
  with eq inv' R(2,3,4,7,8) V(3) dv dis show ?thesis
    by (intro exI [of _ r] exI [of _ "if r = 0 then Some start else None"] exI [of _ vs'] exI [of _ s'] exI [of _ start]) simp
qed

text \<open>Trees of regions as sorted lists, and an address space with one region in use.\<close>

definition list_regions :: "VMRegion list region_tree" where
  "list_regions = \<lparr>vt_new = [], vt_iter = (\<lambda>t. t), vt_last = (\<lambda>t. if t = [] then None else Some (last t)),
     vt_range_count = (\<lambda>lo hi t. length (filter (\<lambda>r. lo \<le> vr_start r \<and> vr_start r < hi) t)),
     vt_find = (\<lambda>k t. find (\<lambda>r. vr_start r = k) t),
     vt_remove = (\<lambda>k t. takeWhile (\<lambda>r. vr_start r \<noteq> k) t @ tl (dropWhile (\<lambda>r. vr_start r \<noteq> k) t)),
     vt_insert = (\<lambda>r t. takeWhile (\<lambda>x. vr_start x < vr_start r) t @ r # dropWhile (\<lambda>x. vr_start x < vr_start r) t)\<rparr>"

lemma sorted_regions_above:
  assumes "sorted (map vr_start t)" and "x \<in> set (dropWhile (\<lambda>x. vr_start x < k) t)"
  shows "k \<le> vr_start x"
  using assms by (induction t) (auto split: if_splits)

lemma list_regions_laws: "region_tree_laws list_regions"
proof -
  have ins: "sorted (map vr_start (vt_insert list_regions r t)) \<and> (\<exists>i. vt_insert list_regions r t = take i t @ r # drop i t)"
    if srt: "sorted (map vr_start t)" for r t
  proof
    let ?P = "\<lambda>x. vr_start x < vr_start r"
    have "sorted (map vr_start (takeWhile ?P t) @ map vr_start (dropWhile ?P t))"
      using srt by (simp flip: map_append)
    moreover have "\<forall>x \<in> set (takeWhile ?P t). vr_start x \<le> vr_start r" by (auto dest: set_takeWhileD)
    moreover have "\<forall>x \<in> set (dropWhile ?P t). vr_start r \<le> vr_start x" using sorted_regions_above [OF srt] by auto
    ultimately show "sorted (map vr_start (vt_insert list_regions r t))"
      unfolding sorted_append by (simp add: list_regions_def sorted_append)
    show "\<exists>i. vt_insert list_regions r t = take i t @ r # drop i t"
      by (intro exI [of _ "length (takeWhile ?P t)"]) (simp add: list_regions_def takeWhile_eq_take [symmetric] dropWhile_eq_drop [symmetric])
  qed
  have fnd: "if k \<in> vr_start ` set t
     then \<exists>i < length t. vr_start (t ! i) = k \<and> vt_find list_regions k t = Some (t ! i) \<and> vt_remove list_regions k t = take i t @ drop (Suc i) t
     else vt_find list_regions k t = None" for k t
  proof -
    let ?i = "length (takeWhile (\<lambda>r. vr_start r \<noteq> k) t)"
    have i: "?i < length t \<longleftrightarrow> k \<in> vr_start ` set t" by (induction t) auto
    have at: "vr_start (t ! ?i) = k" if "?i < length t" using nth_length_takeWhile [OF that] by simp
    have f: "find (\<lambda>r. vr_start r = k) t = Some (t ! ?i)" if "?i < length t" using that by (induction t) auto
    have rm: "vt_remove list_regions k t = take ?i t @ drop (Suc ?i) t"
      by (simp add: list_regions_def takeWhile_eq_take [symmetric] dropWhile_eq_drop tl_drop drop_Suc)
    have none: "find (\<lambda>r. vr_start r = k) t = None" if "k \<notin> vr_start ` set t" using that by (auto simp: find_None_iff)
    have ff: "vt_find list_regions k t = find (\<lambda>r. vr_start r = k) t" by (simp add: list_regions_def)
    show ?thesis
    proof (cases "k \<in> vr_start ` set t")
      case True
      then have "?i < length t" using i by simp
      then show ?thesis using True at f rm by (simp add: ff) blast
    next
      case False
      then show ?thesis using none by (simp add: ff)
    qed
  qed
  have it: "vt_iter list_regions = (\<lambda>t. t)" "vt_new list_regions = []"
    "vt_last list_regions t = (if t = [] then None else Some (last t))"
    "vt_range_count list_regions lo hi t = length (filter (\<lambda>r. lo \<le> vr_start r \<and> vr_start r < hi) t)" for t lo hi
    by (simp_all add: list_regions_def)
  show ?thesis
    unfolding region_tree_laws_def vt_sorted_def it using ins fnd by simp
qed

definition vm_example :: "VMRegion list VMAddressSpace" where
  "vm_example = \<lparr>vm_tree = list_regions, vm_regions = [VMRegion_new 0x3fe00000 0x40000000 VM_PROT_RW, VMRegion_new 0x80000000 0x80001000 VM_PROT_RW],
     region_page = (\<lambda>_. None), vm_mmu_map = \<lparr>cr3 = 0x1000\<rparr>\<rparr>"

definition vm_mmu_example :: "(MemorySegment list, MemorySegment list \<times> nat option) mmu_state" where
  "vm_mmu_example = mmu_example\<lparr>mm_pages := (mm_pages mmu_example)\<lparr>KERNEL_LARGE_PAGE_ARENA := \<lparr>ar_tree = list_tree,
     segments = [\<lparr>seg_base = 0xffffffff80400000, seg_size = 0x400000\<rparr>]\<rparr>\<rparr>\<rparr>"

lemma vm_example_inv: "vm_inv vm_example" "mmu_inv \<lparr>cr3 = 0x1000\<rparr> vm_mmu_example" "large_ok vm_mmu_example"
proof -
  show "vm_inv vm_example"
    by (simp add: vm_inv_def vm_example_def list_regions_laws region_list_def) (simp add: list_regions_def VMRegion_new_def)
  show "mmu_inv \<lparr>cr3 = 0x1000\<rparr> vm_mmu_example"
    by (rule mmu_inv_less [OF mmu_example_inv]) (use mmu_example_inv in \<open>auto simp: vm_mmu_example_def mm_avail_def mmu_inv_def pg_inv_def\<close>)
  show "large_ok vm_mmu_example"
    by (simp add: large_ok_def large_avail_def vm_mmu_example_def arena_wf_def list_tree_laws arena_avail_def)
      (auto simp: list_tree_def segs_ok_def seg_ok_def seg_bytes_def page_bytes_def KERNEL_VMA_def)
qed

lemma vm_example_returns:
  "map_option (\<lambda>x. (fst x, fst (snd x))) (process_vmspace_alloc PAGE_SIZE_LARGE (2 ^ 21) vm_example vm_mmu_example) = Some (0, Some 0x80200000)"
  by code_simp

theorem vmspace_alloc_fresh_witness:
  "\<exists>vs' s' page. process_vmspace_alloc PAGE_SIZE_LARGE (2 ^ 21) vm_example vm_mmu_example = Some (0, Some 0x80200000, vs', s')
     \<and> (\<forall>k < 2097152. mmu_translate s' \<lparr>cr3 = 0x1000\<rparr> (0x80200000 + of_nat k) = Some (virt_to_phys page + of_nat k))"
proof -
  have m: "vm_mmu_map vm_example = \<lparr>cr3 = 0x1000\<rparr>" by (simp add: vm_example_def)
  have u: "unat (upper_end vm_example) = 0x80001000"
    by (simp add: upper_end_def region_list_def vm_example_def list_regions_def VMRegion_new_def)
  show ?thesis
    using vmspace_alloc_fresh [OF vm_example_inv(1) _ vm_example_inv(3), of 21 PAGE_SIZE_LARGE, unfolded m u, OF vm_example_inv(2)]
      vm_example_returns by (auto split: if_splits)
qed

text \<open>A request for zero bytes fails, and leaves an empty region behind at the place where the
  next region would begin. From then on every request with the same or a smaller alignment fails too.\<close>

lemma vmspace_alloc_zero_blocks:
  fixes s :: "('t, 'c) mmu_state"
  assumes "vm_inv vs" and "n < 63" and "unat (upper_end vs) + 2 ^ n \<le> 2 ^ 63"
  shows "\<exists>vs'. process_vmspace_alloc 0 (2 ^ n) vs s = Some (- EINVAL, None, vs', s)
    \<and> (\<forall>m \<le> n. \<forall>sz (s' :: ('t, 'c) mmu_state). 4096 dvd unat sz \<and> sz \<noteq> 0 \<and> unat sz < 2 ^ 63 \<longrightarrow>
         process_vmspace_alloc sz (2 ^ m) vs' s' = Some (- EINVAL, None, vs', s'))"
proof -
  let ?T = "vm_tree vs"
  define start where "start = align_up (upper_end vs) (2 ^ n)"
  define vs' where "vs' = insert_region start start VM_PROT_RW vs"
  have nw: "unat (upper_end vs) + 2 ^ n - 1 < 2 ^ 64" using assms(3) by simp
  have ge: "upper_end vs \<le> start" and lt: "unat start < unat (upper_end vs) + 2 ^ n"
    unfolding start_def using align_up_ge [of n "upper_end vs"] nw assms(2) by auto
  have below: "\<forall>x \<in> set (region_list vs). vr_start x < start" using upper_end_bound [OF assms(1)] ge by (meson order.strict_trans1 order.strict_trans2)
  have l: "region_list vs' = region_list vs @ [VMRegion_new start start VM_PROT_RW]"
    unfolding vs'_def by (rule insert_region_end [OF assms(1) below])
  have T: "region_tree_laws ?T" and srt: "vt_sorted ?T (vm_regions vs)"
    using assms(1) sorted_regions(1) by (auto simp: vm_inv_def vt_sorted_def region_list_def)
  have tr: "vm_tree vs' = ?T" by (simp add: vs'_def insert_region_def)
  note L = T [unfolded region_tree_laws_def]
  have srt': "vt_sorted ?T (vm_regions vs')"
    using L [THEN conjunct2, THEN conjunct2, THEN conjunct2, THEN conjunct2, rule_format, OF srt] by (simp add: vs'_def insert_region_def)
  have it: "vt_iter ?T (vm_regions vs') = region_list vs @ [VMRegion_new start start VM_PROT_RW]" using l by (simp add: region_list_def tr)
  have last: "vt_last ?T (vm_regions vs') = Some (VMRegion_new start start VM_PROT_RW)"
    using L [THEN conjunct2, THEN conjunct1, rule_format, of "vm_regions vs'"] by (simp add: it)
  have find: "vt_find ?T start (vm_regions vs') = Some (VMRegion_new start start VM_PROT_RW)"
  proof -
    obtain i where i: "i < length (vt_iter ?T (vm_regions vs'))" "vr_start (vt_iter ?T (vm_regions vs') ! i) = start"
      "vt_find ?T start (vm_regions vs') = Some (vt_iter ?T (vm_regions vs') ! i)"
      using L [THEN conjunct2, THEN conjunct2, THEN conjunct2, THEN conjunct1, rule_format, OF srt', of start]
      by (auto simp: it VMRegion_new_def split: if_splits)
    have "\<not> i < length (region_list vs)"
    proof
      assume "i < length (region_list vs)"
      then have "region_list vs ! i \<in> set (region_list vs)" "vr_start (region_list vs ! i) = start" using i(2) by (simp_all add: it nth_append)
      then show False using below by auto
    qed
    then show ?thesis using i by (simp add: it nth_append)
  qed
  have zero: "process_vmspace_alloc 0 (2 ^ n) vs s = Some (- EINVAL, None, vs', s)"
    using range_count_above [OF assms(1) ge, of start] find
    unfolding process_vmspace_alloc_def vm_allocate_def Let_def vm_last_upper [OF assms(1)] start_def [symmetric] vm_populate_def
    by (simp add: is_aligned_def vs'_def [symmetric] tr VMRegion_new_def PAGE_SIZE_LARGE_def PAGE_SIZE_SMALL_def)
  have "process_vmspace_alloc sz (2 ^ m) vs' s' = Some (- EINVAL, None, vs', s')"
    if "m \<le> n" "4096 dvd unat sz" "sz \<noteq> 0" "unat sz < 2 ^ 63" for m sz and s' :: "('t, 'c) mmu_state"
  proof -
    have "2 ^ n dvd unat start" unfolding start_def by (rule align_up_dvd)
    then have "2 ^ m dvd unat start" using le_imp_power_dvd [OF that(1), of "2 :: nat"] by (rule dvd_trans [rotated])
    moreover have "unat start + 2 ^ m - 1 < 2 ^ 64"
    proof -
      have "unat start < 2 ^ 63" using lt assms(3) by simp
      moreover have "(2 :: nat) ^ m \<le> 2 ^ 63" using that(1) assms(2) by (intro power_increasing) simp_all
      ultimately show ?thesis by simp
    qed
    ultimately have same: "align_up start (2 ^ m) = start"
      using align_up_no_wrap [of m start] that(1) assms(2) nat_round_up_multiple [of "2 ^ m" "unat start div 2 ^ m"]
      by (simp add: word_unat_eq_iff)
    have "unat (start + sz) = unat start + unat sz" using lt assms(3) that(4) by (intro unat_add_no_wrap) simp
    then have "start < start + sz" using that(3) by (simp add: word_less_nat_alt unat_gt_0)
    then have cnt: "0 < vt_range_count ?T start (start + sz) (vm_regions vs')"
      using L [THEN conjunct2, THEN conjunct2, THEN conjunct1, rule_format, OF srt'] by (simp add: it VMRegion_new_def)
    have "is_aligned sz PAGE_SIZE_SMALL" using that(2) is_aligned_iff_dvd [of 12 sz] by (simp add: PAGE_SIZE_SMALL_eq)
    then show ?thesis using cnt
      unfolding process_vmspace_alloc_def vm_allocate_def Let_def tr last by (simp add: VMRegion_new_def same)
  qed
  with zero show ?thesis by blast
qed

lemma vmspace_alloc_zero_blocks_example:
  "\<exists>vs'. process_vmspace_alloc 0 4096 vm_example vm_mmu_example = Some (- EINVAL, None, vs', vm_mmu_example)
     \<and> process_vmspace_alloc 4096 4096 vs' vm_mmu_example = Some (- EINVAL, None, vs', vm_mmu_example)"
proof -
  have u: "unat (upper_end vm_example) = 0x80001000"
    by (simp add: upper_end_def region_list_def vm_example_def list_regions_def VMRegion_new_def)
  obtain vs' where "process_vmspace_alloc 0 (2 ^ 12) vm_example vm_mmu_example = Some (- EINVAL, None, vs', vm_mmu_example)"
    and "\<forall>m \<le> 12. \<forall>sz. 4096 dvd unat sz \<and> sz \<noteq> 0 \<and> unat sz < 2 ^ 63 \<longrightarrow>
         process_vmspace_alloc sz (2 ^ m) vs' vm_mmu_example = Some (- EINVAL, None, vs', vm_mmu_example)"
    using vmspace_alloc_zero_blocks [OF vm_example_inv(1), of 12 vm_mmu_example, unfolded u] by auto
  from this(1) this(2) [rule_format, of 12 4096] show ?thesis by auto
qed

end
