(* ===== verification/Sched.thy ===== *)
theory Sched
  imports VmProofs
begin

text \<open>
  Processes and the scheduler (\<^verbatim>\<open>kernel/sched.rs\<close>, \<^verbatim>\<open>kernel/process.rs\<close>,
  \<^verbatim>\<open>kernel/device.rs\<close>). Reference-counted objects are numbers with a store; the intrusive lists
  of the crate are lists of process numbers, and \<open>push_back\<close> of an element that is linked in a list
  already, which panics, is \<open>None\<close>. A device driver is a record of the operations of the trait
  \<open>DeviceOps\<close>, on a state of type \<open>'x\<close>.
\<close>

datatype ProcessState = RUNNABLE | RUNNING | WAITING

record 'v Process =
  pr_state :: ProcessState
  pr_task_state :: u64
  pr_vmspace :: "'v VMAddressSpace"
  pr_devices :: "nat list"
  page_fault_fixup :: u64
  pr_events :: u64

record ('v, 'x) kernel =
  procs :: "nat \<Rightarrow> 'v Process"
  CURRENT :: "nat option"
  RUNQUEUE :: "nat list"
  WAITQUEUE :: "nat list"
  NAMESPACE :: "(string \<times> nat) list"
  drivers :: 'x

text \<open>The result of \<open>schedule\<close> says which context switch it ends with; what the switch does to the
  processor is in \<^verbatim>\<open>Thread\<close>.\<close>

datatype switch = NoSwitch | SwitchTo u64 u64 | SwitchToFirst u64

definition update_proc :: "nat \<Rightarrow> ('v Process \<Rightarrow> 'v Process) \<Rightarrow> ('v, 'x) kernel \<Rightarrow> ('v, 'x) kernel" where
  "update_proc p f k = k\<lparr>procs := (procs k)(p := f (procs k p))\<rparr>"

definition set_current :: "nat \<Rightarrow> ('v, 'x) kernel \<Rightarrow> ('v, 'x) kernel" where
  "set_current p k = k\<lparr>CURRENT := Some p\<rparr>"

definition get_current :: "('v, 'x) kernel \<Rightarrow> nat option" where
  "get_current k = CURRENT k"

definition take_current :: "('v, 'x) kernel \<Rightarrow> nat option \<times> ('v, 'x) kernel" where
  "take_current k = (CURRENT k, k\<lparr>CURRENT := None\<rparr>)"

definition linked :: "nat \<Rightarrow> ('v, 'x) kernel \<Rightarrow> bool" where
  "linked p k \<longleftrightarrow> p \<in> set (RUNQUEUE k) \<or> p \<in> set (WAITQUEUE k)"

text \<open>The state of a process is in a \<open>RefCell\<close>: \<open>replace\<close> panics while a borrow of the cell is alive.
  \<open>borrowed\<close> says whether the caller holds one.\<close>

definition replace_state :: "bool \<Rightarrow> nat \<Rightarrow> ProcessState \<Rightarrow> ('v, 'x) kernel \<Rightarrow> ('v, 'x) kernel option" where
  "replace_state borrowed p st k = (if borrowed then None else Some (update_proc p (\<lambda>pr. pr\<lparr>pr_state := st\<rparr>) k))"

definition enqueue :: "bool \<Rightarrow> nat \<Rightarrow> ('v, 'x) kernel \<Rightarrow> ('v, 'x) kernel option" where
  "enqueue borrowed p k =
     do { k \<leftarrow> replace_state borrowed p RUNNABLE k;
          if linked p k then None else Some (k\<lparr>RUNQUEUE := RUNQUEUE k @ [p]\<rparr>) }"

definition dequeue :: "('v, 'x) kernel \<Rightarrow> nat option \<times> ('v, 'x) kernel" where
  "dequeue k = (case RUNQUEUE k of [] \<Rightarrow> (None, k) | p # q \<Rightarrow> (Some p, k\<lparr>RUNQUEUE := q\<rparr>))"

text \<open>The value that \<open>schedule\<close> matches on is a borrow of the state of the previous process, which
  lives to the end of the \<open>match\<close>: \<open>enqueue\<close> is called while the state is borrowed.\<close>

text \<open>Besides the context switch the state of the memory is a result: the address space of the next process is
  loaded before the switch, except when both task states are the same. The idle task runs in the address
  space of the previous process.\<close>

definition schedule :: "u64 \<Rightarrow> ('v, 'x) kernel \<Rightarrow> ('t, 'c) mmu_state \<Rightarrow> (switch \<times> ('v, 'x) kernel \<times> ('t, 'c) mmu_state) option" where
  "schedule idle_task k mm =
     do { let (prev, k) = take_current k;
          k \<leftarrow> (case prev of
                  None \<Rightarrow> Some k
                | Some p \<Rightarrow> (case pr_state (procs k p) of
                    WAITING \<Rightarrow> if linked p k then None else Some (k\<lparr>WAITQUEUE := WAITQUEUE k @ [p]\<rparr>)
                  | _ \<Rightarrow> enqueue True p k));
          let (nxt, k) = dequeue k;
          (case nxt of
             Some n \<Rightarrow>
               (let k = set_current n k;
                    k = update_proc n (\<lambda>pr. pr\<lparr>pr_state := RUNNING\<rparr>) k;
                    next_ts = pr_task_state (procs k n)
                in case prev of
                     Some p \<Rightarrow>
                       (let prev_ts = pr_task_state (procs k p)
                        in if prev_ts \<noteq> next_ts then Some (SwitchTo prev_ts next_ts, k, vmspace_switch_to (pr_vmspace (procs k n)) mm)
                           else Some (NoSwitch, k, mm))
                   | None \<Rightarrow> Some (SwitchToFirst next_ts, k, vmspace_switch_to (pr_vmspace (procs k n)) mm))
           | None \<Rightarrow>
               (case prev of
                  Some p \<Rightarrow> Some (SwitchTo (pr_task_state (procs k p)) idle_task, k, mm)
                | None \<Rightarrow> Some (SwitchToFirst idle_task, k, mm))) }"

text \<open>The drivers. \<open>None\<close> is a driver that does not return: it panics, faults or loops.\<close>

record 'x device_ops =
  dev_subscribe :: "nat \<Rightarrow> u8 list \<Rightarrow> 'x \<Rightarrow> 'x option"
  dev_get_config :: "nat \<Rightarrow> int \<Rightarrow> 'x \<Rightarrow> u8 list option"
  dev_process_io :: "nat \<Rightarrow> 'x \<Rightarrow> 'x option"

fun process_io_devices :: "'x device_ops \<Rightarrow> (string \<times> nat) list \<Rightarrow> 'x \<Rightarrow> 'x option" where
  "process_io_devices D [] x = Some x"
| "process_io_devices D ((name, dev) # devs) x = do { x \<leftarrow> dev_process_io D dev x; process_io_devices D devs x }"

definition process_io :: "'x device_ops \<Rightarrow> ('v, 'x) kernel \<Rightarrow> ('v, 'x) kernel option" where
  "process_io D k = do { x \<leftarrow> process_io_devices D (NAMESPACE k) (drivers k); Some (k\<lparr>drivers := x\<rparr>) }"

definition process_wait ::
  "'x device_ops \<Rightarrow> u64 \<Rightarrow> ('v, 'x) kernel \<Rightarrow> ('t, 'c) mmu_state \<Rightarrow> (switch \<times> ('v, 'x) kernel \<times> ('t, 'c) mmu_state) option" where
  "process_wait D idle_task k mm =
     do { current \<leftarrow> get_current k;
          let k = update_proc current (\<lambda>pr. pr\<lparr>pr_state := WAITING\<rparr>) k;
          k \<leftarrow> process_io D k;
          schedule idle_task k mm }"

function wake_up_processes :: "('v, 'x) kernel \<Rightarrow> ('v, 'x) kernel option" where
  "wake_up_processes k =
     (case WAITQUEUE k of
        [] \<Rightarrow> Some k
      | p # q \<Rightarrow> (case enqueue False p (k\<lparr>WAITQUEUE := q\<rparr>) of None \<Rightarrow> None | Some k' \<Rightarrow> wake_up_processes k'))"
  by pat_completeness auto
termination
  by (relation "measure (\<lambda>k. length (WAITQUEUE k))") (auto simp: enqueue_def replace_state_def update_proc_def split: if_splits)

declare wake_up_processes.simps [simp del]

definition page_fault_set_fixup :: "u64 \<Rightarrow> ('v, 'x) kernel \<Rightarrow> ('v, 'x) kernel" where
  "page_fault_set_fixup fixup k =
     (case CURRENT k of Some p \<Rightarrow> update_proc p (\<lambda>pr. pr\<lparr>page_fault_fixup := fixup\<rparr>) k | None \<Rightarrow> k)"

definition page_fault_get_fixup :: "('v, 'x) kernel \<Rightarrow> u64" where
  "page_fault_get_fixup k = (case CURRENT k of Some p \<Rightarrow> page_fault_fixup (procs k p) | None \<Rightarrow> 0)"

definition process_getevents :: "('v, 'x) kernel \<Rightarrow> u64 option" where
  "process_getevents k = map_option (\<lambda>p. pr_events (procs k p)) (get_current k)"

text \<open>Device descriptors. The index that \<open>lookup\<close> lets through may be the length of the table,
  where the access panics.\<close>

definition desc_to_idx :: "int \<Rightarrow> nat option" where
  "desc_to_idx desc = (if desc \<ge> 0 then Some (nat desc) else None)"

definition device_attach :: "nat \<Rightarrow> nat list \<Rightarrow> int \<times> nat list" where
  "device_attach dev table = (int (length table), table @ [dev])"

definition device_lookup :: "int \<Rightarrow> nat list \<Rightarrow> nat option option" where
  "device_lookup desc table =
     (case desc_to_idx desc of
        Some idx \<Rightarrow> if idx > length table then Some None else map_option Some (rd table idx)
      | None \<Rightarrow> Some None)"

definition process_subscribe :: "'x device_ops \<Rightarrow> int \<Rightarrow> u8 list \<Rightarrow> ('v, 'x) kernel \<Rightarrow> (int \<times> ('v, 'x) kernel) option" where
  "process_subscribe D raw_desc events k =
     do { current \<leftarrow> get_current k;
          dev \<leftarrow> device_lookup raw_desc (pr_devices (procs k current));
          (case dev of
             Some d \<Rightarrow> do { x \<leftarrow> dev_subscribe D d events (drivers k); Some (- EINVAL, k\<lparr>drivers := x\<rparr>) }
           | None \<Rightarrow> Some (- EINVAL, k)) }"

subsection \<open>The scheduler\<close>

definition current_list :: "('v, 'x) kernel \<Rightarrow> nat list" where
  "current_list k = (case CURRENT k of Some p \<Rightarrow> [p] | None \<Rightarrow> [])"

text \<open>Every process is in exactly one place, and its state says where.\<close>

definition sched_inv :: "nat set \<Rightarrow> ('v, 'x) kernel \<Rightarrow> bool" where
  "sched_inv P k \<longleftrightarrow> distinct (current_list k @ RUNQUEUE k @ WAITQUEUE k)
     \<and> set (current_list k @ RUNQUEUE k @ WAITQUEUE k) = P
     \<and> (\<forall>p \<in> set (current_list k). pr_state (procs k p) = RUNNING)
     \<and> (\<forall>p \<in> set (RUNQUEUE k). pr_state (procs k p) = RUNNABLE)
     \<and> (\<forall>p \<in> set (WAITQUEUE k). pr_state (procs k p) = WAITING)"

text \<open>The steps of the kernel: a new process, a call of \<open>schedule\<close>, \<open>process_wait\<close> of the current
  process, and \<open>wake_up_processes\<close> from the idle loop. The state has the set of processes, the kernel
  and the memory.\<close>

type_synonym ('v, 'x, 't, 'c) sched_state = "nat set \<times> ('v, 'x) kernel \<times> ('t, 'c) mmu_state"

inductive sched_step :: "'x device_ops \<Rightarrow> u64 \<Rightarrow> bool \<Rightarrow> ('v, 'x, 't, 'c) sched_state \<Rightarrow> ('v, 'x, 't, 'c) sched_state \<Rightarrow> bool"
  for D idle_task where
  spawn: "p \<notin> P \<Longrightarrow> enqueue False p k = Some k' \<Longrightarrow> sched_step D idle_task False (P, k, mm) (insert p P, k', mm)"
| sched: "schedule idle_task k mm = Some (sw, k', mm') \<Longrightarrow> sched_step D idle_task True (P, k, mm) (P, k', mm')"
| wait: "process_wait D idle_task k mm = Some (sw, k', mm') \<Longrightarrow> sched_step D idle_task True (P, k, mm) (P, k', mm')"
| wake: "wake_up_processes k = Some k' \<Longrightarrow> sched_step D idle_task False (P, k, mm) (P, k', mm)"

inductive sched_run :: "'x device_ops \<Rightarrow> u64 \<Rightarrow> nat \<Rightarrow> ('v, 'x, 't, 'c) sched_state \<Rightarrow> ('v, 'x, 't, 'c) sched_state \<Rightarrow> bool"
  for D idle_task where
  run_refl: "sched_run D idle_task 0 s s"
| run_step: "sched_run D idle_task n s s' \<Longrightarrow> sched_step D idle_task b s' s'' \<Longrightarrow> sched_run D idle_task (if b then Suc n else n) s s''"

text \<open>The address space of process \<open>n\<close> is the one in use.\<close>

definition space_loaded :: "('v, 'x) kernel \<Rightarrow> ('t, 'c) mmu_state \<Rightarrow> nat \<Rightarrow> bool" where
  "space_loaded k mm n \<longleftrightarrow> mmu_current_map mm = vm_mmu_map (pr_vmspace (procs k n))"

lemma enqueue_eq:
  "\<not> linked p k \<Longrightarrow> enqueue False p k =
     Some (k\<lparr>procs := (procs k)(p := (procs k p)\<lparr>pr_state := RUNNABLE\<rparr>), RUNQUEUE := RUNQUEUE k @ [p]\<rparr>)"
  by (simp add: enqueue_def replace_state_def update_proc_def linked_def)

text \<open>The steps under the invariant, as equations.\<close>

lemma spawn_inv:
  assumes "sched_inv P k" and "p \<notin> P"
  shows "\<exists>k'. enqueue False p k = Some k' \<and> sched_inv (insert p P) k' \<and> RUNQUEUE k' = RUNQUEUE k @ [p] \<and> CURRENT k' = CURRENT k"
proof -
  have "\<not> linked p k" using assms by (auto simp: sched_inv_def linked_def)
  then show ?thesis using assms by (auto simp: enqueue_eq sched_inv_def current_list_def split: option.splits)
qed

lemma wake_inv: "sched_inv P k \<Longrightarrow> \<exists>k' q. wake_up_processes k = Some k' \<and> sched_inv P k' \<and> RUNQUEUE k' = RUNQUEUE k @ q \<and> CURRENT k' = CURRENT k"
proof (induction k rule: wake_up_processes.induct)
  case (1 k)
  show ?case
  proof (cases "WAITQUEUE k")
    case Nil
    then show ?thesis using 1(2) by (subst wake_up_processes.simps) auto
  next
    case (Cons p q)
    define k1 where "k1 = k\<lparr>WAITQUEUE := q, procs := (procs k)(p := (procs k p)\<lparr>pr_state := RUNNABLE\<rparr>), RUNQUEUE := RUNQUEUE k @ [p]\<rparr>"
    have "\<not> linked p (k\<lparr>WAITQUEUE := q\<rparr>)" using 1(2) Cons by (auto simp: sched_inv_def linked_def)
    then have e: "enqueue False p (k\<lparr>WAITQUEUE := q\<rparr>) = Some k1" by (simp add: enqueue_eq k1_def)
    have "sched_inv P k1" using 1(2) Cons by (auto simp: sched_inv_def k1_def current_list_def split: option.splits)
    from 1(1) [OF Cons e this] obtain k' q' where "wake_up_processes k1 = Some k'" "sched_inv P k'" "RUNQUEUE k' = RUNQUEUE k1 @ q'" "CURRENT k' = CURRENT k1"
      by blast
    then show ?thesis using e Cons by (subst wake_up_processes.simps) (auto simp: k1_def)
  qed
qed

lemma space_loaded_switch: "space_loaded k (vmspace_switch_to (pr_vmspace (procs k n)) mm) n"
  by (simp add: space_loaded_def vmspace_switch_to_def mmu_load_map_def mmu_current_map_def x86_read_cr3_def x86_write_cr3_def)

lemma space_loaded_cong: "pr_vmspace (procs k' n) = pr_vmspace (procs k n) \<Longrightarrow> space_loaded k' mm n = space_loaded k mm n"
  by (simp add: space_loaded_def)

lemma dispatch_inv:
  assumes "sched_inv P k" and "CURRENT k = None"
  shows "case RUNQUEUE k of
      [] \<Rightarrow> schedule idle_task k mm = Some (SwitchToFirst idle_task, k, mm)
    | n # q \<Rightarrow> \<exists>k' mm'. schedule idle_task k mm = Some (SwitchToFirst (pr_task_state (procs k n)), k', mm')
        \<and> sched_inv P k' \<and> RUNQUEUE k' = q \<and> CURRENT k' = Some n \<and> space_loaded k' mm' n"
proof (cases "RUNQUEUE k")
  case Nil
  then show ?thesis using assms(2) by (simp add: schedule_def take_current_def dequeue_def)
next
  case (Cons n q)
  define k' where "k' = update_proc n (\<lambda>pr. pr\<lparr>pr_state := RUNNING\<rparr>) (set_current n (k\<lparr>RUNQUEUE := q\<rparr>))"
  have "schedule idle_task k mm = Some (SwitchToFirst (pr_task_state (procs k n)), k', vmspace_switch_to (pr_vmspace (procs k' n)) mm)"
    using Cons assms(2) by (simp add: schedule_def take_current_def dequeue_def k'_def set_current_def update_proc_def)
  moreover have "sched_inv P k' \<and> RUNQUEUE k' = q \<and> CURRENT k' = Some n"
    using Cons assms by (auto simp: k'_def set_current_def update_proc_def sched_inv_def current_list_def)
  ultimately show ?thesis using Cons space_loaded_switch by auto
qed

lemma schedule_running:
  assumes "CURRENT k = Some p" and "pr_state (procs k p) \<noteq> WAITING"
  shows "schedule idle_task k mm = None"
  using assms by (cases "pr_state (procs k p)") (auto simp: schedule_def take_current_def enqueue_def replace_state_def)

lemma process_io_update_proc: "process_io D (update_proc p f k) = map_option (update_proc p f) (process_io D k)"
  by (cases "process_io_devices D (NAMESPACE k) (drivers k)") (simp_all add: process_io_def update_proc_def)

lemma process_io_frame:
  "process_io D k = Some k' \<Longrightarrow> CURRENT k' = CURRENT k \<and> RUNQUEUE k' = RUNQUEUE k \<and> WAITQUEUE k' = WAITQUEUE k \<and> procs k' = procs k"
  by (auto simp: process_io_def split: bind_splits)

lemma wait_returns: "process_wait D idle_task k mm = Some r \<Longrightarrow> \<exists>p kd. CURRENT k = Some p \<and> process_io D k = Some kd"
  by (auto simp: process_wait_def get_current_def process_io_update_proc split: bind_splits)

lemma wait_inv:
  assumes "sched_inv P k" and "CURRENT k = Some p" and "process_io D k = Some kd"
  shows "\<exists>sw k' mm'. process_wait D idle_task k mm = Some (sw, k', mm') \<and> sched_inv P k' \<and> WAITQUEUE k' = WAITQUEUE k @ [p]
    \<and> (case RUNQUEUE k of
         [] \<Rightarrow> CURRENT k' = None \<and> RUNQUEUE k' = []
       | n # q \<Rightarrow> CURRENT k' = Some n \<and> RUNQUEUE k' = q \<and> (pr_task_state (procs k p) \<noteq> pr_task_state (procs k n) \<longrightarrow> space_loaded k' mm' n))"
proof -
  define k0 where "k0 = update_proc p (\<lambda>pr. pr\<lparr>pr_state := WAITING\<rparr>) kd"
  define k1 where "k1 = k0\<lparr>CURRENT := None, WAITQUEUE := WAITQUEUE k @ [p]\<rparr>"
  have f: "CURRENT k0 = Some p" "RUNQUEUE k0 = RUNQUEUE k" "WAITQUEUE k0 = WAITQUEUE k" "procs k0 = (procs k)(p := (procs k p)\<lparr>pr_state := WAITING\<rparr>)"
    using assms(2) process_io_frame [OF assms(3)] by (simp_all add: k0_def update_proc_def)
  have free: "p \<notin> set (RUNQUEUE k)" "p \<notin> set (WAITQUEUE k)" using assms by (auto simp: sched_inv_def current_list_def)
  have wait: "process_wait D idle_task k mm = schedule idle_task k0 mm"
    using assms(2,3) by (simp add: process_wait_def get_current_def k0_def Let_def process_io_update_proc)
  have linked: "\<not> linked p (k0\<lparr>CURRENT := None\<rparr>)" using free by (simp add: linked_def f)
  have inv1: "distinct (RUNQUEUE k @ WAITQUEUE k @ [p])" "set (RUNQUEUE k @ WAITQUEUE k @ [p]) = P"
    "\<forall>x \<in> set (RUNQUEUE k). pr_state (procs k1 x) = RUNNABLE" "\<forall>x \<in> set (WAITQUEUE k @ [p]). pr_state (procs k1 x) = WAITING"
    using assms free by (auto simp: sched_inv_def current_list_def k1_def f)
  show ?thesis
  proof (cases "RUNQUEUE k")
    case Nil
    then have "process_wait D idle_task k mm = Some (SwitchTo (pr_task_state (procs k1 p)) idle_task, k1, mm)"
      unfolding wait using linked by (simp add: schedule_def take_current_def f k1_def dequeue_def)
    moreover have "sched_inv P k1" using inv1 Nil by (simp add: sched_inv_def current_list_def k1_def f)
    ultimately show ?thesis using Nil by (simp add: k1_def f)
  next
    case (Cons n q)
    define k2 where "k2 = update_proc n (\<lambda>pr. pr\<lparr>pr_state := RUNNING\<rparr>) (set_current n (k1\<lparr>RUNQUEUE := q\<rparr>))"
    have "dequeue k1 = (Some n, k1\<lparr>RUNQUEUE := q\<rparr>)" using Cons by (simp add: dequeue_def k1_def f)
    then have w: "process_wait D idle_task k mm =
        (if pr_task_state (procs k2 p) \<noteq> pr_task_state (procs k2 n)
         then Some (SwitchTo (pr_task_state (procs k2 p)) (pr_task_state (procs k2 n)), k2, vmspace_switch_to (pr_vmspace (procs k2 n)) mm)
         else Some (NoSwitch, k2, mm))"
      unfolding wait using linked by (simp add: schedule_def take_current_def f k1_def k2_def Let_def)
    have k2: "CURRENT k2 = Some n" "RUNQUEUE k2 = q" "WAITQUEUE k2 = WAITQUEUE k @ [p]" "procs k2 = (procs k1)(n := (procs k1 n)\<lparr>pr_state := RUNNING\<rparr>)"
      by (simp_all add: k2_def k1_def f update_proc_def set_current_def)
    have ts: "pr_task_state (procs k2 x) = pr_task_state (procs k x)" for x by (simp add: k2(4) k1_def f)
    have "sched_inv P k2" using inv1 Cons unfolding sched_inv_def current_list_def k2 by auto
    then show ?thesis
      using w [unfolded ts] Cons k2(1-3) space_loaded_switch [of k2 n mm] by (cases "pr_task_state (procs k p) = pr_task_state (procs k n)") auto
  qed
qed

lemma sched_idle: "schedule idle_task k mm = Some r \<Longrightarrow> sched_inv P k \<Longrightarrow> CURRENT k = None"
  using schedule_running [of k _ idle_task mm] by (cases "CURRENT k") (auto simp: sched_inv_def current_list_def)

lemma sched_step_inv:
  assumes "sched_inv P k" and "sched_step D idle_task b (P, k, mm) (P', k', mm')"
  shows "sched_inv P' k'"
  using assms(2)
proof (cases rule: sched_step.cases)
  case (spawn p)
  then show ?thesis using spawn_inv [OF assms(1), of p] by auto
next
  case (sched sw)
  then have "CURRENT k = None" using sched_idle assms(1) by blast
  then show ?thesis using dispatch_inv [OF assms(1), of idle_task mm] sched assms(1) by (auto split: list.splits)
next
  case (wait sw)
  then obtain p kd where "CURRENT k = Some p" "process_io D k = Some kd" using wait_returns by blast
  then show ?thesis using wait_inv [OF assms(1), of p D kd idle_task mm] wait by auto
next
  case wake
  then show ?thesis using wake_inv [OF assms(1)] by auto
qed

text \<open>A step moves the process at position \<open>i\<close> of the run queue one place forward when it schedules,
  and leaves it where it is otherwise. A process that gets the processor runs in its own address space.\<close>

lemma sched_step_position:
  assumes inv: "sched_inv P k" and step: "sched_step D idle_task b (P, k, mm) (P', k', mm')" and i: "i < length (RUNQUEUE k)"
  shows "if b then (if i = 0 then CURRENT k' = Some (RUNQUEUE k ! 0) else i - 1 < length (RUNQUEUE k') \<and> RUNQUEUE k' ! (i - 1) = RUNQUEUE k ! i)
         else i < length (RUNQUEUE k') \<and> RUNQUEUE k' ! i = RUNQUEUE k ! i"
  using step
proof (cases rule: sched_step.cases)
  case (spawn p)
  then show ?thesis using spawn_inv [OF inv, of p] i by (auto simp: nth_append)
next
  case (sched sw)
  then have "CURRENT k = None" using sched_idle inv by blast
  then show ?thesis using dispatch_inv [OF inv, of idle_task mm] sched i by (auto simp: nth_Cons' split: list.splits)
next
  case (wait sw)
  then obtain p kd where "CURRENT k = Some p" "process_io D k = Some kd" using wait_returns by blast
  then show ?thesis using wait_inv [OF inv, of p D kd idle_task mm] wait i by (auto simp: nth_Cons' split: list.splits)
next
  case wake
  then show ?thesis using wake_inv [OF inv] i by (auto simp: nth_append)
qed

lemma sched_step_space:
  assumes inv: "sched_inv P k" and step: "sched_step D idle_task True (P, k, mm) (P', k', mm')" and n: "CURRENT k' = Some n"
    and ts: "\<forall>p. CURRENT k = Some p \<longrightarrow> pr_task_state (procs k p) \<noteq> pr_task_state (procs k n)"
  shows "space_loaded k' mm' n"
  using step
proof (cases rule: sched_step.cases)
  case (sched sw)
  then have "CURRENT k = None" using sched_idle inv by blast
  then show ?thesis using dispatch_inv [OF inv, of idle_task mm] sched n by (auto split: list.splits)
next
  case (wait sw)
  then obtain p kd where "CURRENT k = Some p" "process_io D k = Some kd" using wait_returns by blast
  then show ?thesis using wait_inv [OF inv, of p D kd idle_task mm] wait n ts by (auto split: list.splits)
qed simp_all

lemma sched_can_schedule:
  assumes "sched_inv P k" and "CURRENT k = None \<or> process_io D k \<noteq> None"
  shows "\<exists>k' mm'. sched_step D idle_task True (P, k, mm) (P, k', mm')"
proof (cases "CURRENT k")
  case None
  then show ?thesis
    using dispatch_inv [OF assms(1) None, of idle_task mm] by (cases "RUNQUEUE k") (auto intro: sched_step.sched)
next
  case (Some p)
  then obtain kd where "process_io D k = Some kd" using assms(2) by auto
  then show ?thesis using wait_inv [OF assms(1) Some, of D kd idle_task mm] by (auto intro: sched_step.wait)
qed

lemma sched_run_inv:
  "sched_run D idle_task n s s' \<Longrightarrow> sched_inv (fst s) (fst (snd s)) \<Longrightarrow> sched_inv (fst s') (fst (snd s'))"
proof (induction rule: sched_run.induct)
  case (run_step n s s' b s'')
  then show ?case
    using sched_step_inv [of "fst s'" "fst (snd s')" D idle_task b "snd (snd s')" "fst s''" "fst (snd s'')" "snd (snd s'')"] by simp
qed

lemma sched_run_position:
  "sched_run D idle_task n s s' \<Longrightarrow> sched_inv (fst s) (fst (snd s)) \<Longrightarrow> i < length (RUNQUEUE (fst (snd s))) \<Longrightarrow> n \<le> i \<Longrightarrow>
   i - n < length (RUNQUEUE (fst (snd s'))) \<and> RUNQUEUE (fst (snd s')) ! (i - n) = RUNQUEUE (fst (snd s)) ! i"
proof (induction rule: sched_run.induct)
  case (run_refl s)
  then show ?case by simp
next
  case (run_step n s s' b s'')
  have inv: "sched_inv (fst s') (fst (snd s'))" using sched_run_inv [OF run_step(1,4)] .
  have IH: "i - n < length (RUNQUEUE (fst (snd s')))" "RUNQUEUE (fst (snd s')) ! (i - n) = RUNQUEUE (fst (snd s)) ! i"
    using run_step by (auto split: if_splits)
  show ?case
    using sched_step_position [of "fst s'" "fst (snd s')" D idle_task b "snd (snd s')" "fst s''" "fst (snd s'')" "snd (snd s'')" "i - n", OF inv]
      IH run_step(2,6) by (cases b) auto
qed

text \<open>A kernel without devices, and two processes whose task states are at \<open>0x1000\<close> and
  \<open>0x2000\<close>.\<close>

definition sched_example :: "(VMRegion list, unit) kernel" where
  "sched_example = \<lparr>procs = (\<lambda>p. \<lparr>pr_state = RUNNABLE, pr_task_state = of_nat p * 0x1000, pr_vmspace = vm_example, pr_devices = [],
       page_fault_fixup = 0, pr_events = 0\<rparr>),
     CURRENT = None, RUNQUEUE = [], WAITQUEUE = [], NAMESPACE = [], drivers = ()\<rparr>"

definition no_devices :: "unit device_ops" where
  "no_devices = \<lparr>dev_subscribe = \<lambda>_ _. Some, dev_get_config = \<lambda>_ _ _. None, dev_process_io = \<lambda>_. Some\<rparr>"

text \<open>C9: the scheduler loses no process and starves none. Whatever steps a kernel takes that starts
  without processes (new processes, calls of \<open>schedule\<close> and \<open>process_wait\<close>, and wake-ups from the idle
  loop), every process is current, runnable or waiting, in exactly one of these places and with the state of
  that place. The kernel can schedule again if no process is running, or if the drivers finish their work
  (\<open>process_wait\<close> runs them first, and a driver that panics or loops stops the kernel). A process at position
  \<open>i\<close> of the run queue is the current one after the next \<open>i + 1\<close> scheduling steps, whatever other steps come
  between. A process that a scheduling step makes the current one runs in its own address space, as long
  as its task state is not also that of the process before.\<close>

theorem sched_fair:
  assumes "CURRENT k0 = None" and "RUNQUEUE k0 = []" and "WAITQUEUE k0 = []"
    and "sched_run D idle_task m ({}, k0, mm0) (P, k, mm)"
  shows "sched_inv P k
    \<and> (CURRENT k = None \<or> process_io D k \<noteq> None \<longrightarrow> (\<exists>k' mm'. sched_step D idle_task True (P, k, mm) (P, k', mm')))
    \<and> (\<forall>i < length (RUNQUEUE k). \<forall>P1 k1 mm1 P2 k2 mm2.
         sched_run D idle_task i (P, k, mm) (P1, k1, mm1) \<and> sched_step D idle_task True (P1, k1, mm1) (P2, k2, mm2)
         \<longrightarrow> CURRENT k2 = Some (RUNQUEUE k ! i))
    \<and> (\<forall>P' k' mm' n. sched_step D idle_task True (P, k, mm) (P', k', mm') \<and> CURRENT k' = Some n
         \<and> (\<forall>p. CURRENT k = Some p \<longrightarrow> pr_task_state (procs k p) \<noteq> pr_task_state (procs k n))
         \<longrightarrow> mmu_current_map mm' = vm_mmu_map (pr_vmspace (procs k' n)))"
proof -
  have "sched_inv {} k0" using assms(1-3) by (simp add: sched_inv_def current_list_def)
  then have inv: "sched_inv P k" using sched_run_inv [OF assms(4)] by simp
  have "CURRENT k2 = Some (RUNQUEUE k ! i)"
    if i: "i < length (RUNQUEUE k)" and r: "sched_run D idle_task i (P, k, mm) (P1, k1, mm1)"
      and st: "sched_step D idle_task True (P1, k1, mm1) (P2, k2, mm2)" for i P1 k1 mm1 P2 k2 mm2
  proof -
    have "sched_inv P1 k1" using sched_run_inv [OF r] inv by simp
    moreover have "0 < length (RUNQUEUE k1)" "RUNQUEUE k1 ! 0 = RUNQUEUE k ! i" using sched_run_position [OF r, of i] inv i by auto
    ultimately show ?thesis using sched_step_position [OF _ st, of 0] by simp
  qed
  then show ?thesis using inv sched_can_schedule [OF inv, of D idle_task mm] sched_step_space [OF inv, of D idle_task mm] unfolding space_loaded_def by blast
qed

theorem sched_fair_witness:
  "\<exists>k1 k2 k3 k4 sw1 sw2 mm1 mm2. enqueue False 1 sched_example = Some k1 \<and> enqueue False 2 k1 = Some k2
     \<and> schedule 0x900 k2 vm_mmu_example = Some (sw1, k3, mm1) \<and> process_wait no_devices 0x900 k3 mm1 = Some (sw2, k4, mm2) \<and> CURRENT k4 = Some 2"
proof -
  let ?step = "sched_step no_devices 0x900" and ?mm = vm_mmu_example
  obtain k1 where k1: "enqueue False 1 sched_example = Some k1" "RUNQUEUE k1 = [1]" "WAITQUEUE k1 = []" "CURRENT k1 = None" "NAMESPACE k1 = []"
    by (simp add: enqueue_def replace_state_def update_proc_def linked_def sched_example_def)
  obtain k2 where k2: "enqueue False 2 k1 = Some k2" "RUNQUEUE k2 = [1, 2]" "NAMESPACE k2 = []"
    using k1 by (simp add: enqueue_def replace_state_def update_proc_def linked_def)
  have e: "CURRENT sched_example = None" "RUNQUEUE sched_example = []" "WAITQUEUE sched_example = []" by (simp_all add: sched_example_def)
  have st1: "?step False ({}, sched_example, ?mm) ({1}, k1, ?mm)" by (rule sched_step.spawn [OF _ k1(1)]) simp
  have st2: "?step False ({1}, k1, ?mm) ({2, 1}, k2, ?mm)" by (rule sched_step.spawn [OF _ k2(1)]) simp
  have run: "sched_run no_devices 0x900 0 ({}, sched_example, ?mm) ({2, 1}, k2, ?mm)"
    using run_step [OF run_step [OF run_refl st1] st2] by simp
  note fair = sched_fair [OF e run]
  have inv: "sched_inv {2, 1} k2" using fair by simp
  have c2: "CURRENT k2 = None" using k1 k2 by (auto simp: enqueue_def replace_state_def update_proc_def linked_def)
  obtain sw1 k3 mm1 where k3: "schedule 0x900 k2 ?mm = Some (sw1, k3, mm1)" "sched_inv {2, 1} k3" "CURRENT k3 = Some 1"
    using dispatch_inv [OF inv c2, of "0x900" ?mm] by (auto simp: k2)
  have "NAMESPACE k3 = []" using k3(1) k2 c2 by (auto simp: schedule_def take_current_def dequeue_def set_current_def update_proc_def)
  then have "process_io no_devices k3 = Some k3" by (simp add: process_io_def)
  then obtain sw2 k4 mm2 where k4: "process_wait no_devices 0x900 k3 mm1 = Some (sw2, k4, mm2)" using wait_inv [OF k3(2,3)] by blast
  have st3: "?step True ({2, 1}, k2, ?mm) ({2, 1}, k3, mm1)" by (rule sched_step.sched [OF k3(1)])
  have st4: "?step True ({2, 1}, k3, mm1) ({2, 1}, k4, mm2)" by (rule sched_step.wait [OF k4])
  have "sched_run no_devices 0x900 1 ({2, 1}, k2, ?mm) ({2, 1}, k3, mm1)" using run_step [OF run_refl st3] by simp
  then have "CURRENT k4 = Some (RUNQUEUE k2 ! 1)"
    using fair [THEN conjunct2, THEN conjunct2, THEN conjunct1, rule_format, of 1 "{2, 1}" k3 mm1 "{2, 1}" k4 mm2] st4 k2 by simp
  then show ?thesis using k1(1) k2 k3(1) k4 by auto
qed

text \<open>\<open>schedule\<close> called while a process is running, not waiting, panics: it changes the state of the
  process in the queue while it still holds a borrow of that state.\<close>

lemma schedule_while_running_panics:
  assumes "sched_inv P k" and "CURRENT k = Some p"
  shows "schedule idle_task k mm = None"
  using assms by (intro schedule_running) (auto simp: sched_inv_def current_list_def)

lemma schedule_while_running_panics_example:
  "schedule 0x900 (sched_example\<lparr>CURRENT := Some 1, procs := \<lambda>p. (procs sched_example p)\<lparr>pr_state := RUNNING\<rparr>\<rparr>) vm_mmu_example = None"
  by (rule schedule_while_running_panics [of "{1}" _ 1]) (simp_all add: sched_inv_def current_list_def sched_example_def)

end
