(* ===== verification/Console.thy ===== *)
theory Console
  imports PrintfText
begin

text \<open>
  Device access and the console: the port instructions of \<^verbatim>\<open>arch/x86_64/ioport.c\<close>, the UART
  drivers \<^verbatim>\<open>drivers/uart/8250.c\<close> and \<^verbatim>\<open>drivers/uart/pl011.c\<close>, and
  \<^verbatim>\<open>kernel/panic.c\<close>. The hardware behind the ports is a parameter: a record of what the
  instructions \<open>in\<close> and \<open>out\<close> do on a state of type \<open>'d\<close>. What the 8250 driver relies on
  of its chip is the predicate \<open>uart_laws\<close>.
\<close>

subsection \<open>Ports\<close>

record 'd ports =
  inb :: "u16 \<Rightarrow> 'd \<Rightarrow> u8 \<times> 'd"
  outb :: "u16 \<Rightarrow> u8 \<Rightarrow> 'd \<Rightarrow> 'd"
  inw :: "u16 \<Rightarrow> 'd \<Rightarrow> u16 \<times> 'd"
  outw :: "u16 \<Rightarrow> u16 \<Rightarrow> 'd \<Rightarrow> 'd"
  inl :: "u16 \<Rightarrow> 'd \<Rightarrow> u32 \<times> 'd"
  outl :: "u16 \<Rightarrow> u32 \<Rightarrow> 'd \<Rightarrow> 'd"

definition pio_read8 :: "'d ports \<Rightarrow> u16 \<Rightarrow> 'd \<Rightarrow> u8 \<times> 'd" where
  "pio_read8 P port d = (let (v, d) = inb P port d in (v, d))"

definition pio_write8 :: "'d ports \<Rightarrow> u8 \<Rightarrow> u16 \<Rightarrow> 'd \<Rightarrow> 'd" where
  "pio_write8 P v port d = outb P port v d"

definition pio_read16 :: "'d ports \<Rightarrow> u16 \<Rightarrow> 'd \<Rightarrow> u16 \<times> 'd" where
  "pio_read16 P port d = (let (v, d) = inw P port d in (v, d))"

definition pio_write16 :: "'d ports \<Rightarrow> u16 \<Rightarrow> u16 \<Rightarrow> 'd \<Rightarrow> 'd" where
  "pio_write16 P v port d = outw P port v d"

definition pio_read32 :: "'d ports \<Rightarrow> u16 \<Rightarrow> 'd \<Rightarrow> u32 \<times> 'd" where
  "pio_read32 P port d = (let (v, d) = inl P port d in (v, d))"

definition pio_write32 :: "'d ports \<Rightarrow> u32 \<Rightarrow> u16 \<Rightarrow> 'd \<Rightarrow> 'd" where
  "pio_write32 P v port d = outl P port v d"

subsection \<open>The 8250 UART\<close>

abbreviation UART_THR :: u16 where "UART_THR \<equiv> 0"
abbreviation UART_DLL :: u16 where "UART_DLL \<equiv> 0"
abbreviation UART_IER :: u16 where "UART_IER \<equiv> 1"
abbreviation UART_DLH :: u16 where "UART_DLH \<equiv> 1"
abbreviation UART_FCR :: u16 where "UART_FCR \<equiv> 2"
abbreviation UART_LCR :: u16 where "UART_LCR \<equiv> 3"
abbreviation UART_MCR :: u16 where "UART_MCR \<equiv> 4"
abbreviation UART_LSR :: u16 where "UART_LSR \<equiv> 5"

definition uart_8250_ioport :: u16 where "uart_8250_ioport = 0x3f8"

text \<open>The loop that waits for the transmitter ends only if the chip becomes ready: \<open>None\<close> is
  waiting for ever.\<close>

partial_function (option) uart_8250_wait :: "'d ports \<Rightarrow> 'd \<Rightarrow> 'd option" where
  "uart_8250_wait P d =
     (let (lsr, d) = pio_read8 P (uart_8250_ioport + UART_LSR) d
      in if lsr AND 0x20 = 0 then uart_8250_wait P d else Some d)"

definition uart_8250_write_char :: "'d ports \<Rightarrow> u8 \<Rightarrow> 'd \<Rightarrow> 'd option" where
  "uart_8250_write_char P c d =
     do { d \<leftarrow> uart_8250_wait P d;
          let c = (if c = ch CHR 0x0D then ch CHR 0x0A else c);
          Some (pio_write8 P c uart_8250_ioport d) }"

definition console_write_char :: "'d ports \<Rightarrow> u8 \<Rightarrow> 'd \<Rightarrow> 'd option" where
  "console_write_char P c d = uart_8250_write_char P c d"

text \<open>The loops over a text are the same in both drivers.\<close>

function write_str_from :: "'d putchar_t \<Rightarrow> u8 list \<Rightarrow> nat \<Rightarrow> 'd \<Rightarrow> 'd option" where
  "write_str_from write_char s p d =
     (if p < length s then
        if s ! p = 0 then Some d
        else (case write_char (s ! p) d of None \<Rightarrow> None | Some d \<Rightarrow> write_str_from write_char s (Suc p) d)
      else None)"
  by pat_completeness auto
termination
  by (relation "measure (\<lambda>(_, s, p, _). length s - p)") auto

declare write_str_from.simps [simp del]

fun write_from :: "'d putchar_t \<Rightarrow> u8 list \<Rightarrow> nat \<Rightarrow> nat \<Rightarrow> 'd \<Rightarrow> 'd option" where
  "write_from write_char s p 0 d = Some d"
| "write_from write_char s p (Suc n) d =
     do { c \<leftarrow> rd s p; d \<leftarrow> write_char c d; write_from write_char s (Suc p) n d }"

definition console_write_str :: "'d ports \<Rightarrow> u8 list \<Rightarrow> 'd \<Rightarrow> 'd option" where
  "console_write_str P s d = write_str_from (uart_8250_write_char P) s 0 d"

definition console_write :: "'d ports \<Rightarrow> u8 list \<Rightarrow> u64 \<Rightarrow> 'd \<Rightarrow> 'd option" where
  "console_write P s count d = write_from (uart_8250_write_char P) s 0 (unat count) d"

definition console_init :: "'d ports \<Rightarrow> 'd \<Rightarrow> 'd" where
  "console_init P d =
     (let d = pio_write8 P 0x00 (uart_8250_ioport + UART_IER) d;
          d = pio_write8 P 0x80 (uart_8250_ioport + UART_LCR) d;
          d = pio_write8 P 0x03 (uart_8250_ioport + UART_DLL) d;
          d = pio_write8 P 0x00 (uart_8250_ioport + UART_DLH) d;
          d = pio_write8 P 0x03 (uart_8250_ioport + UART_LCR) d;
          d = pio_write8 P 0xC7 (uart_8250_ioport + UART_FCR) d
      in pio_write8 P 0x0B (uart_8250_ioport + UART_MCR) d)"

subsection \<open>The PL011 UART\<close>

text \<open>The chip is a parameter again: what a store of a byte to a register address does.\<close>

abbreviation UARTDR :: u64 where "UARTDR \<equiv> 0x000"
abbreviation pl011_regs :: u64 where "pl011_regs \<equiv> 0x9000000"

definition pl011_write_char :: "(u64 \<Rightarrow> u8 \<Rightarrow> 'd \<Rightarrow> 'd) \<Rightarrow> u8 \<Rightarrow> 'd \<Rightarrow> 'd option" where
  "pl011_write_char strb c d = Some (strb (pl011_regs + UARTDR) c d)"

definition pl011_console_write_char :: "(u64 \<Rightarrow> u8 \<Rightarrow> 'd \<Rightarrow> 'd) \<Rightarrow> u8 \<Rightarrow> 'd \<Rightarrow> 'd option" where
  "pl011_console_write_char strb c d = pl011_write_char strb c d"

definition pl011_console_write_str :: "(u64 \<Rightarrow> u8 \<Rightarrow> 'd \<Rightarrow> 'd) \<Rightarrow> u8 list \<Rightarrow> 'd \<Rightarrow> 'd option" where
  "pl011_console_write_str strb s d = write_str_from (pl011_write_char strb) s 0 d"

definition pl011_console_write :: "(u64 \<Rightarrow> u8 \<Rightarrow> 'd \<Rightarrow> 'd) \<Rightarrow> u8 list \<Rightarrow> u64 \<Rightarrow> 'd \<Rightarrow> 'd option" where
  "pl011_console_write strb s count d = write_from (pl011_write_char strb) s 0 (unat count) d"

definition pl011_console_init :: "'d \<Rightarrow> 'd" where
  "pl011_console_init d = d"

subsection \<open>Panic\<close>

text \<open>A panic prints its message and halts: the result is the state of the device in which the
  processor halts for ever. The message is formatted into a buffer of 64 bytes; \<open>buf\<close> is what
  the static buffer held before.\<close>

definition do_panic :: "'d ports \<Rightarrow> u8 list \<Rightarrow> 'd \<Rightarrow> 'd option" where
  "do_panic P msg d =
     do { d \<leftarrow> console_write_str P (bytes_of ''Kernel panic: '' @ [0]) d;
          d \<leftarrow> console_write_str P msg d;
          console_write_str P [10, 0] d }"

definition panic :: "'d ports \<Rightarrow> u8 list \<Rightarrow> u8 list \<Rightarrow> va_slot list \<Rightarrow> 'd \<Rightarrow> 'd option" where
  "panic P buf fmt ap d =
     do { (n, msg) \<leftarrow> vsnprintf buf 64 fmt ap;
          do_panic P msg d }"

definition assert_fail :: "'d ports \<Rightarrow> u8 list \<Rightarrow> va_slot \<Rightarrow> va_slot \<Rightarrow> u32 \<Rightarrow> va_slot \<Rightarrow> 'd \<Rightarrow> 'd option" where
  "assert_fail P buf assertion file line func d =
     do { (n, msg) \<leftarrow> sprintf buf (bytes_of ''%s:%d: %s: Assertion %s failed'' @ [0])
                         [file, VaWord (ucast line), func, assertion];
          do_panic P msg d }"

subsection \<open>Texts arrive\<close>

lemma write_from_all:
  "p + n \<le> length s \<Longrightarrow> write_from out s p n d = put_all (take n (drop p s)) out d"
proof (induction out s p n d rule: write_from.induct)
  case (1 out s p d)
  then show ?case by (simp add: put_all_Nil)
next
  case (2 out s p n d)
  then have "p < length s" by simp
  then show ?case using 2 by (auto simp: drop_eq_nth_Cons split: option.splits bind_splits)
qed

lemma write_str_from_all:
  "p \<le> q \<Longrightarrow> q < length s \<Longrightarrow> s ! q = 0 \<Longrightarrow> (\<And>i. p \<le> i \<Longrightarrow> i < q \<Longrightarrow> s ! i \<noteq> 0) \<Longrightarrow>
   write_str_from out s p d = put_all (take (q - p) (drop p s)) out d"
proof (induction out s p d rule: write_str_from.induct)
  case (1 out s p d)
  show ?case
  proof (cases "p = q")
    case True
    then show ?thesis using 1 by (subst write_str_from.simps) (simp add: put_all_Nil)
  next
    case False
    have IH: "write_str_from out s (Suc p) d' = put_all (take (q - Suc p) (drop (Suc p) s)) out d'"
      if "out (s ! p) d = Some d'" for d'
      by (rule 1(1)) (use 1 False that in auto)
    from False 1 have "p < length s" "s ! p \<noteq> 0" "q - p = Suc (q - Suc p)" by auto
    then show ?thesis
      by (subst write_str_from.simps) (auto simp: drop_eq_nth_Cons IH split: option.splits)
  qed
qed

text \<open>What the driver relies on of the chip: \<open>busy\<close> bounds the reads of the line status register
  until the transmitter is empty, a byte written to an empty transmitter is sent, and bit 7 of the
  line control register turns the first two ports into the divisor latch.\<close>

definition uart_laws :: "'d ports \<Rightarrow> ('d \<Rightarrow> nat) \<Rightarrow> ('d \<Rightarrow> bool) \<Rightarrow> ('d \<Rightarrow> u8 list) \<Rightarrow> bool" where
  "uart_laws P busy dlab sent \<longleftrightarrow>
     (\<forall>d v d'. inb P 0x3fd d = (v, d') \<longrightarrow>
            sent d' = sent d \<and> dlab d' = dlab d
            \<and> (busy d = 0 \<longrightarrow> v AND 0x20 \<noteq> 0 \<and> busy d' = 0) \<and> (busy d \<noteq> 0 \<longrightarrow> v AND 0x20 = 0 \<and> busy d' < busy d))
     \<and> (\<forall>d c. dlab (outb P 0x3f8 c d) = dlab d
            \<and> (dlab d \<longrightarrow> sent (outb P 0x3f8 c d) = sent d)
            \<and> (\<not> dlab d \<and> busy d = 0 \<longrightarrow> sent (outb P 0x3f8 c d) = sent d @ [c]))
     \<and> (\<forall>d v. dlab (outb P 0x3fb v d) = bit v 7 \<and> sent (outb P 0x3fb v d) = sent d)
     \<and> (\<forall>port \<in> {0x3f9, 0x3fa, 0x3fc}. \<forall>d v. dlab (outb P port v d) = dlab d \<and> sent (outb P port v d) = sent d)"

definition cr_to_lf :: "u8 \<Rightarrow> u8" where
  "cr_to_lf c = (if c = 13 then 10 else c)"

lemma uart_wait_ends:
  assumes "uart_laws P busy dlab sent"
  shows "\<exists>d'. uart_8250_wait P d = Some d' \<and> busy d' = 0 \<and> dlab d' = dlab d \<and> sent d' = sent d"
proof (induction "busy d" arbitrary: d rule: less_induct)
  case less
  obtain v d1 where v: "inb P 0x3fd d = (v, d1)" by fastforce
  have port: "uart_8250_ioport + UART_LSR = 0x3fd" by (simp add: uart_8250_ioport_def)
  have L: "sent d1 = sent d" "dlab d1 = dlab d" "busy d = 0 \<Longrightarrow> v AND 0x20 \<noteq> 0 \<and> busy d1 = 0"
    "busy d \<noteq> 0 \<Longrightarrow> v AND 0x20 = 0 \<and> busy d1 < busy d"
    using assms [unfolded uart_laws_def, THEN conjunct1, rule_format, OF v] by blast+
  show ?case
  proof (cases "busy d = 0")
    case True
    then show ?thesis using L by (subst uart_8250_wait.simps) (simp add: pio_read8_def port v)
  next
    case False
    then have "v AND 0x20 = 0" "busy d1 < busy d" using L by auto
    then show ?thesis using less [of d1] L by (subst uart_8250_wait.simps) (simp add: pio_read8_def port v)
  qed
qed

lemma uart_write_char_sends:
  assumes "uart_laws P busy dlab sent" and "\<not> dlab d"
  shows "\<exists>d'. uart_8250_write_char P c d = Some d' \<and> \<not> dlab d' \<and> sent d' = sent d @ [cr_to_lf c]"
proof -
  obtain d1 where d1: "uart_8250_wait P d = Some d1" "busy d1 = 0" "\<not> dlab d1" "sent d1 = sent d"
    using uart_wait_ends [OF assms(1), of d] assms(2) by auto
  have "\<not> dlab (outb P 0x3f8 e d1) \<and> sent (outb P 0x3f8 e d1) = sent d1 @ [e]" for e
    using assms(1) [unfolded uart_laws_def, THEN conjunct2, THEN conjunct1, rule_format, of e d1] d1 by blast
  with d1 show ?thesis
    by (simp add: uart_8250_write_char_def pio_write8_def uart_8250_ioport_def cr_to_lf_def ch_def)
qed

lemma put_all_sends:
  assumes step: "\<And>c d. ok d \<Longrightarrow> \<exists>d'. out c d = Some d' \<and> ok d' \<and> sent d' = sent d @ [tr c]"
  shows "ok d \<Longrightarrow> \<exists>d'. put_all t out d = Some d' \<and> ok d' \<and> sent d' = sent d @ map tr t"
proof (induction t arbitrary: d)
  case Nil
  then show ?case by (simp add: put_all_Nil)
next
  case (Cons c t)
  obtain d1 where d1: "out c d = Some d1" "ok d1" "sent d1 = sent d @ [tr c]" using step Cons.prems by blast
  show ?case using Cons.IH [OF d1(2)] d1 by auto
qed

lemma uart_put_all:
  assumes "uart_laws P busy dlab sent" and "\<not> dlab d"
  shows "\<exists>d'. put_all t (uart_8250_write_char P) d = Some d' \<and> \<not> dlab d' \<and> sent d' = sent d @ map cr_to_lf t"
proof (rule put_all_sends [where ok = "\<lambda>d. \<not> dlab d" and tr = cr_to_lf])
  show "\<exists>d'. uart_8250_write_char P c d = Some d' \<and> \<not> dlab d' \<and> sent d' = sent d @ [cr_to_lf c]" if "\<not> dlab d" for c d
    using assms(1) that by (rule uart_write_char_sends)
qed (rule assms(2))

lemma console_write_sends:
  assumes "uart_laws P busy dlab sent" and "\<not> dlab d" and "unat n \<le> length s"
  shows "\<exists>d'. console_write P s n d = Some d' \<and> \<not> dlab d' \<and> sent d' = sent d @ map cr_to_lf (take (unat n) s)"
  using uart_put_all [OF assms(1,2), of "take (unat n) s"] assms(3)
  by (simp add: console_write_def write_from_all)

lemma console_init_ready:
  assumes "uart_laws P busy dlab sent"
  shows "\<not> dlab (console_init P d)"
proof -
  have "dlab (outb P 0x3fc v d) = dlab d" "dlab (outb P 0x3fa v d) = dlab d" "dlab (outb P 0x3fb v d) = bit v 7" for v d
    using assms by (auto simp: uart_laws_def)
  then show ?thesis by (simp add: console_init_def pio_write8_def uart_8250_ioport_def Let_def)
qed

text \<open>A serial port that is always ready and keeps what was sent.\<close>

definition uart_example :: "(bool \<times> u8 list) ports" where
  "uart_example = \<lparr>inb = \<lambda>_ d. (0x20, d),
     outb = (\<lambda>port v (dl, out). if port = 0x3f8 \<and> \<not> dl then (dl, out @ [v]) else if port = 0x3fb then (bit v 7, out) else (dl, out)),
     inw = \<lambda>_ d. (0, d), outw = \<lambda>_ _ d. d, inl = \<lambda>_ d. (0, d), outl = \<lambda>_ _ d. d\<rparr>"

lemma uart_example_laws: "uart_laws uart_example (\<lambda>_. 0) fst snd"
  by (auto simp: uart_laws_def uart_example_def split: prod.split)

end
