(* ===== verification/X86.thy ===== *)
theory X86
  imports Console Mmu
begin

text \<open>
  Processor support for x86-64: \<^verbatim>\<open>irq.c\<close>, \<^verbatim>\<open>apic.c\<close>, \<^verbatim>\<open>i8259.c\<close>,
  \<^verbatim>\<open>pci.c\<close>, \<^verbatim>\<open>exceptions.c\<close>, \<^verbatim>\<open>task.c\<close>, \<^verbatim>\<open>syscall.c\<close>,
  \<^verbatim>\<open>mmio.c\<close> and the descriptor tables of \<^verbatim>\<open>setup.c\<close> under
  \<^verbatim>\<open>arch/x86_64/\<close>. What a privileged instruction does to the machine is a field of the
  record \<open>cpu\<close>, on a machine state of type \<open>'d\<close>; the static variables of these files are the
  record \<open>x86\<close>. Addresses that the linker assigns are given by a function \<open>symb\<close> on names.
\<close>

subsection \<open>Instructions\<close>

record 'd cpu =
  cpu_ports :: "'d ports"
  insn_rdmsr :: "u32 \<Rightarrow> 'd \<Rightarrow> u32 \<times> u32"
  insn_wrmsr :: "u32 \<Rightarrow> u32 \<Rightarrow> u32 \<Rightarrow> 'd \<Rightarrow> 'd"
  insn_cpuid :: "u32 \<Rightarrow> 'd \<Rightarrow> u32 \<times> u32 \<times> u32 \<times> u32"
  insn_read_cr2 :: "'d \<Rightarrow> u64"
  insn_lidt :: "u16 \<Rightarrow> u64 \<Rightarrow> 'd \<Rightarrow> 'd"
  insn_lgdt :: "u16 \<Rightarrow> u64 \<Rightarrow> 'd \<Rightarrow> 'd"
  insn_lretq :: "u64 \<Rightarrow> 'd \<Rightarrow> 'd"
  insn_ltr :: "u16 \<Rightarrow> 'd \<Rightarrow> 'd"
  insn_cli :: "'d \<Rightarrow> 'd"
  insn_sti :: "'d \<Rightarrow> 'd"
  insn_pushfq :: "'d \<Rightarrow> u64"
  insn_popfq :: "u64 \<Rightarrow> 'd \<Rightarrow> 'd"

definition x86_read_cr2 :: "'d cpu \<Rightarrow> 'd \<Rightarrow> u64" where
  "x86_read_cr2 C d = insn_read_cr2 C d"

definition rdmsr :: "'d cpu \<Rightarrow> u32 \<Rightarrow> 'd \<Rightarrow> u64" where
  "rdmsr C idx d = (let (low, high) = insn_rdmsr C idx d in push_bit 32 (ucast high) OR ucast low)"

definition wrmsr :: "'d cpu \<Rightarrow> u32 \<Rightarrow> u64 \<Rightarrow> 'd \<Rightarrow> 'd" where
  "wrmsr C idx v d = (let high = ucast (drop_bit 32 v) :: u32; low = ucast v :: u32 in insn_wrmsr C idx low high d)"

definition cpuid :: "'d cpu \<Rightarrow> u32 \<Rightarrow> 'd \<Rightarrow> u32 \<times> u32 \<times> u32 \<times> u32" where
  "cpuid C op d = insn_cpuid C op d"

abbreviation X86_RFLAGS_IF :: u64 where "X86_RFLAGS_IF \<equiv> push_bit 9 1"

definition arch_local_interrupt_disable :: "'d cpu \<Rightarrow> 'd \<Rightarrow> 'd" where
  "arch_local_interrupt_disable C d = insn_cli C d"

definition arch_local_interrupt_enable :: "'d cpu \<Rightarrow> 'd \<Rightarrow> 'd" where
  "arch_local_interrupt_enable C d = insn_sti C d"

definition arch_local_interrupt_mask :: "'d cpu \<Rightarrow> 'd \<Rightarrow> u64" where
  "arch_local_interrupt_mask C d = insn_pushfq C d"

definition arch_local_interrupt_save :: "'d cpu \<Rightarrow> 'd \<Rightarrow> u64 \<times> 'd" where
  "arch_local_interrupt_save C d =
     (let flags = arch_local_interrupt_mask C d in (flags, arch_local_interrupt_disable C d))"

definition arch_local_interrupt_restore :: "'d cpu \<Rightarrow> u64 \<Rightarrow> 'd \<Rightarrow> 'd" where
  "arch_local_interrupt_restore C flags d = insn_popfq C flags d"

definition arch_local_interrupt_is_disabled :: "u64 \<Rightarrow> bool" where
  "arch_local_interrupt_is_disabled flags \<longleftrightarrow> flags AND X86_RFLAGS_IF = 0"

subsection \<open>PCI configuration space\<close>

abbreviation PCI_CONFIG_ADDRESS :: u16 where "PCI_CONFIG_ADDRESS \<equiv> 0xcf8"
abbreviation PCI_CONFIG_DATA :: u16 where "PCI_CONFIG_DATA \<equiv> 0xcfc"
abbreviation PCI_CONFIG_ADDRESS_ENABLE :: u64 where "PCI_CONFIG_ADDRESS_ENABLE \<equiv> 0x80000000"

definition pci_config_addr :: "u16 \<Rightarrow> u16 \<Rightarrow> u16 \<Rightarrow> u8 \<Rightarrow> u64" where
  "pci_config_addr bus slot func offset =
     (let addr = PCI_CONFIG_ADDRESS_ENABLE;
          addr = addr OR push_bit 16 (ucast bus);
          addr = addr OR push_bit 11 (ucast slot);
          addr = addr OR push_bit 8 (ucast func)
      in addr OR (ucast offset AND 0xfc))"

definition pci_config_read_u8 :: "'d ports \<Rightarrow> u16 \<Rightarrow> u16 \<Rightarrow> u16 \<Rightarrow> u8 \<Rightarrow> 'd \<Rightarrow> u8 \<times> 'd" where
  "pci_config_read_u8 P bus slot func offset d =
     (let addr = pci_config_addr bus slot func offset;
          d = pio_write32 P (ucast addr) PCI_CONFIG_ADDRESS d
      in pio_read8 P (PCI_CONFIG_DATA + (ucast offset AND 3)) d)"

definition pci_config_read_u16 :: "'d ports \<Rightarrow> u16 \<Rightarrow> u16 \<Rightarrow> u16 \<Rightarrow> u8 \<Rightarrow> 'd \<Rightarrow> u16 \<times> 'd" where
  "pci_config_read_u16 P bus slot func offset d =
     (let addr = pci_config_addr bus slot func offset;
          d = pio_write32 P (ucast addr) PCI_CONFIG_ADDRESS d
      in pio_read16 P (PCI_CONFIG_DATA + (ucast offset AND 2)) d)"

definition pci_config_read_u32 :: "'d ports \<Rightarrow> u16 \<Rightarrow> u16 \<Rightarrow> u16 \<Rightarrow> u8 \<Rightarrow> 'd \<Rightarrow> u32 \<times> 'd" where
  "pci_config_read_u32 P bus slot func offset d =
     (let addr = pci_config_addr bus slot func offset;
          d = pio_write32 P (ucast addr) PCI_CONFIG_ADDRESS d
      in pio_read32 P PCI_CONFIG_DATA d)"

definition pci_config_write_u16 :: "'d ports \<Rightarrow> u16 \<Rightarrow> u16 \<Rightarrow> u16 \<Rightarrow> u8 \<Rightarrow> u16 \<Rightarrow> 'd \<Rightarrow> 'd" where
  "pci_config_write_u16 P bus slot func offset v d =
     (let addr = pci_config_addr bus slot func offset;
          d = pio_write32 P (ucast addr) PCI_CONFIG_ADDRESS d
      in pio_write16 P v (PCI_CONFIG_DATA + (ucast offset AND 2)) d)"

definition pci_config_write_u32 :: "'d ports \<Rightarrow> u16 \<Rightarrow> u16 \<Rightarrow> u16 \<Rightarrow> u8 \<Rightarrow> u32 \<Rightarrow> 'd \<Rightarrow> 'd" where
  "pci_config_write_u32 P bus slot func offset v d =
     (let addr = pci_config_addr bus slot func offset;
          d = pio_write32 P (ucast addr) PCI_CONFIG_ADDRESS d
      in pio_write32 P v PCI_CONFIG_DATA d)"

subsection \<open>The legacy interrupt controller\<close>

abbreviation PIC1_CMD :: u16 where "PIC1_CMD \<equiv> 0x20"
abbreviation PIC1_DATA :: u16 where "PIC1_DATA \<equiv> 0x21"
abbreviation PIC2_CMD :: u16 where "PIC2_CMD \<equiv> 0xA0"
abbreviation PIC2_DATA :: u16 where "PIC2_DATA \<equiv> 0xA1"
abbreviation ICW1_IC4 :: u8 where "ICW1_IC4 \<equiv> push_bit 0 1"
abbreviation ICW4_8086_MODE :: u8 where "ICW4_8086_MODE \<equiv> push_bit 0 1"

definition i8259_remap :: "'d ports \<Rightarrow> 'd \<Rightarrow> 'd" where
  "i8259_remap P d =
     (let (pic1_mask, d) = pio_read8 P PIC1_DATA d;
          (pic2_mask, d) = pio_read8 P PIC2_DATA d;
          d = pio_write8 P (0x10 OR ICW1_IC4) PIC1_CMD d;
          d = pio_write8 P (0x10 OR ICW1_IC4) PIC2_CMD d;
          d = pio_write8 P 0x20 PIC1_DATA d;
          d = pio_write8 P 0x28 PIC2_DATA d;
          d = pio_write8 P 4 PIC1_DATA d;
          d = pio_write8 P 2 PIC2_DATA d;
          d = pio_write8 P ICW4_8086_MODE PIC1_DATA d;
          d = pio_write8 P ICW4_8086_MODE PIC2_DATA d;
          d = pio_write8 P pic1_mask PIC1_DATA d
      in pio_write8 P pic2_mask PIC2_DATA d)"

subsection \<open>Memory-mapped registers\<close>

text \<open>The bus is a parameter: a load or store of a number of bytes at an address.\<close>

record 'd mmio_bus =
  bus_load :: "nat \<Rightarrow> u64 \<Rightarrow> 'd \<Rightarrow> u64 \<times> 'd"
  bus_store :: "nat \<Rightarrow> u64 \<Rightarrow> u64 \<Rightarrow> 'd \<Rightarrow> 'd"

definition mmio_read8 :: "'d mmio_bus \<Rightarrow> u64 \<Rightarrow> 'd \<Rightarrow> u8 \<times> 'd" where
  "mmio_read8 B addr d = map_prod ucast id (bus_load B 1 addr d)"
definition mmio_write8 :: "'d mmio_bus \<Rightarrow> u8 \<Rightarrow> u64 \<Rightarrow> 'd \<Rightarrow> 'd" where
  "mmio_write8 B v addr d = bus_store B 1 addr (ucast v) d"
definition mmio_read16 :: "'d mmio_bus \<Rightarrow> u64 \<Rightarrow> 'd \<Rightarrow> u16 \<times> 'd" where
  "mmio_read16 B addr d = map_prod ucast id (bus_load B 2 addr d)"
definition mmio_write16 :: "'d mmio_bus \<Rightarrow> u16 \<Rightarrow> u64 \<Rightarrow> 'd \<Rightarrow> 'd" where
  "mmio_write16 B v addr d = bus_store B 2 addr (ucast v) d"
definition mmio_read32 :: "'d mmio_bus \<Rightarrow> u64 \<Rightarrow> 'd \<Rightarrow> u32 \<times> 'd" where
  "mmio_read32 B addr d = map_prod ucast id (bus_load B 4 addr d)"
definition mmio_write32 :: "'d mmio_bus \<Rightarrow> u32 \<Rightarrow> u64 \<Rightarrow> 'd \<Rightarrow> 'd" where
  "mmio_write32 B v addr d = bus_store B 4 addr (ucast v) d"
definition mmio_read64 :: "'d mmio_bus \<Rightarrow> u64 \<Rightarrow> 'd \<Rightarrow> u64 \<times> 'd" where
  "mmio_read64 B addr d = bus_load B 8 addr d"
definition mmio_write64 :: "'d mmio_bus \<Rightarrow> u64 \<Rightarrow> u64 \<Rightarrow> 'd \<Rightarrow> 'd" where
  "mmio_write64 B v addr d = bus_store B 8 addr v d"

subsection \<open>Descriptors\<close>

abbreviation X86_KERNEL_CS :: u64 where "X86_KERNEL_CS \<equiv> 0x08"
abbreviation X86_KERNEL_DS :: u64 where "X86_KERNEL_DS \<equiv> 0x10"
abbreviation X86_GDT_TSS_IDX :: nat where "X86_GDT_TSS_IDX \<equiv> 5"
abbreviation X86_GDT_TYPE_DATA :: u64 where "X86_GDT_TYPE_DATA \<equiv> push_bit 40 2"
abbreviation X86_GDT_TYPE_CODE :: u64 where "X86_GDT_TYPE_CODE \<equiv> push_bit 40 8"
abbreviation X86_GDT_S :: u64 where "X86_GDT_S \<equiv> push_bit 44 1"
definition X86_GDT_DPL :: "u64 \<Rightarrow> u64" where "X86_GDT_DPL level = push_bit 45 level"
abbreviation X86_GDT_P :: u64 where "X86_GDT_P \<equiv> push_bit 47 1"
abbreviation X86_GDT_L :: u64 where "X86_GDT_L \<equiv> push_bit 53 1"
abbreviation X86_GDT_DB :: u64 where "X86_GDT_DB \<equiv> push_bit 54 1"

definition X86_GDT_ENTRY :: "u64 \<Rightarrow> u64 \<Rightarrow> u64 \<Rightarrow> u64" where
  "X86_GDT_ENTRY flags base limit =
     push_bit 32 (base AND 0xff000000) OR flags OR push_bit 32 (limit AND 0xf0000)
     OR push_bit 16 (base AND 0x00ffffff) OR (limit AND 0x0ffff)"

definition gdt_init :: "u64 list" where
  "gdt_init =
     [0,
      X86_GDT_ENTRY (X86_GDT_TYPE_CODE OR X86_GDT_P OR X86_GDT_S OR X86_GDT_DPL 0 OR X86_GDT_L) 0 0xfffff,
      X86_GDT_ENTRY (X86_GDT_TYPE_DATA OR X86_GDT_P OR X86_GDT_S OR X86_GDT_DPL 0 OR X86_GDT_DB) 0 0xfffff,
      X86_GDT_ENTRY (X86_GDT_TYPE_DATA OR X86_GDT_P OR X86_GDT_S OR X86_GDT_DPL 3 OR X86_GDT_DB) 0 0xfffff,
      X86_GDT_ENTRY (X86_GDT_TYPE_CODE OR X86_GDT_P OR X86_GDT_S OR X86_GDT_DPL 3 OR X86_GDT_L) 0 0xfffff,
      0, 0]"

record tss_t =
  tss_rsp :: "u64 list"
  tss_ist :: "u64 list"
  io_map_base :: u16

record tss_desc =
  segment_limit_1 :: u16
  base_addr_1 :: u16
  base_addr_2 :: u8
  td_type :: "4 word"
  td_system :: "1 word"
  td_dpl :: "2 word"
  td_present :: "1 word"
  segment_limit_2 :: "4 word"
  td_avl :: "1 word"
  td_gran :: "1 word"
  base_addr_3 :: u8
  base_addr_4 :: u32

definition init_tss_desc :: "u64 \<Rightarrow> u32 \<Rightarrow> tss_desc" where
  "init_tss_desc base limit =
     \<lparr>segment_limit_1 = ucast (limit AND 0x0ffff),
      base_addr_1 = ucast (base AND 0xffff),
      base_addr_2 = ucast (drop_bit 16 (base AND 0xff0000)),
      td_type = 9, td_system = 0, td_dpl = 0, td_present = 1,
      segment_limit_2 = ucast (drop_bit 16 (limit AND 0xf00000)),
      td_avl = 0, td_gran = 0,
      base_addr_3 = ucast (drop_bit 24 (base AND 0xff000000)),
      base_addr_4 = ucast (drop_bit 32 (base AND 0xffffffff00000000))\<rparr>"

text \<open>The packed structure as the two words of the table that it occupies, the reserved fields zero.\<close>

definition tss_desc_words :: "tss_desc \<Rightarrow> u64 list" where
  "tss_desc_words t =
     [ucast (segment_limit_1 t) OR push_bit 16 (ucast (base_addr_1 t)) OR push_bit 32 (ucast (base_addr_2 t))
        OR push_bit 40 (ucast (td_type t)) OR push_bit 44 (ucast (td_system t)) OR push_bit 45 (ucast (td_dpl t))
        OR push_bit 47 (ucast (td_present t)) OR push_bit 48 (ucast (segment_limit_2 t)) OR push_bit 52 (ucast (td_avl t))
        OR push_bit 55 (ucast (td_gran t)) OR push_bit 56 (ucast (base_addr_3 t)),
      ucast (base_addr_4 t)]"

abbreviation sizeof_tss :: u32 where "sizeof_tss \<equiv> 4 + 3 * 8 + 8 + 7 * 8 + 8 + 2 + 2"

definition init_tss :: "u64 \<Rightarrow> u64 \<Rightarrow> tss_t" where
  "init_tss rsp ist = \<lparr>tss_rsp = [rsp, 0, 0], tss_ist = [ist, 0, 0, 0, 0, 0, 0], io_map_base = 0\<rparr>"

record idt_entry =
  offset_1 :: u16
  ie_selector :: u16
  ie_ist :: "3 word"
  ie_zero :: "5 word"
  ie_type :: "5 word"
  ie_dpl :: "2 word"
  ie_p :: "1 word"
  offset_2 :: u16
  offset_3 :: u32
  ie_reserved :: u32

definition IDT_ENTRY_OFFSET_1 :: "u64 \<Rightarrow> u64" where "IDT_ENTRY_OFFSET_1 x = x AND 0xffff"
definition IDT_ENTRY_OFFSET_2 :: "u64 \<Rightarrow> u64" where "IDT_ENTRY_OFFSET_2 x = drop_bit 16 x AND 0xffff"
definition IDT_ENTRY_OFFSET_3 :: "u64 \<Rightarrow> u64" where "IDT_ENTRY_OFFSET_3 x = drop_bit 32 x"

abbreviation X86_INTERRUPT_GATE :: u8 where "X86_INTERRUPT_GATE \<equiv> 14"
abbreviation X86_TRAP_GATE :: u8 where "X86_TRAP_GATE \<equiv> 15"

definition idt_zero :: idt_entry where
  "idt_zero = \<lparr>offset_1 = 0, ie_selector = 0, ie_ist = 0, ie_zero = 0, ie_type = 0, ie_dpl = 0, ie_p = 0,
     offset_2 = 0, offset_3 = 0, ie_reserved = 0\<rparr>"

definition init_idt_entry :: "u8 \<Rightarrow> u32 \<Rightarrow> u64 \<Rightarrow> idt_entry" where
  "init_idt_entry type ist offset =
     \<lparr>offset_1 = ucast (IDT_ENTRY_OFFSET_1 offset),
      ie_selector = ucast X86_KERNEL_CS,
      ie_ist = ucast ist, ie_zero = 0, ie_type = ucast type, ie_dpl = 0, ie_p = 1,
      offset_2 = ucast (IDT_ENTRY_OFFSET_2 offset),
      offset_3 = ucast (IDT_ENTRY_OFFSET_3 offset),
      ie_reserved = 0\<rparr>"

subsection \<open>State\<close>

record irq_service =
  irq_handler :: u64
  irq_arg :: u64

record 'd x86 =
  hw :: 'd
  next_vector :: u32
  irq_services :: "irq_service list"
  apic_base :: u64
  idt :: "idt_entry list"
  tss :: tss_t
  gdt :: "u64 list"

definition NR_INTERRUPT_VECTORS :: int where "NR_INTERRUPT_VECTORS = 256"
definition NR_EXCEPTIONS :: int where "NR_EXCEPTIONS = 32"
definition NR_INTERRUPTS :: int where "NR_INTERRUPTS = NR_INTERRUPT_VECTORS - NR_EXCEPTIONS"

text \<open>The static variables before any code has run.\<close>

definition x86_static :: "'d \<Rightarrow> 'd x86" where
  "x86_static d =
     \<lparr>hw = d, next_vector = of_int NR_EXCEPTIONS,
      irq_services = replicate (nat NR_INTERRUPTS) \<lparr>irq_handler = 0, irq_arg = 0\<rparr>,
      apic_base = 0, idt = replicate 256 idt_zero,
      tss = \<lparr>tss_rsp = [0, 0, 0], tss_ist = [0, 0, 0, 0, 0, 0, 0], io_map_base = 0\<rparr>,
      gdt = gdt_init\<rparr>"

subsection \<open>Interrupt requests\<close>

definition request_irq :: "u64 \<Rightarrow> u64 \<Rightarrow> 'd x86 \<Rightarrow> (int \<times> 'd x86) option" where
  "request_irq handler arg s =
     (let vector = sint (next_vector s);
          s = s\<lparr>next_vector := next_vector s + 1\<rparr>
      in if vector < NR_EXCEPTIONS \<or> vector > NR_INTERRUPT_VECTORS then Some (- EINVAL, s)
         else do { let idx = nat (vector - NR_EXCEPTIONS);
                   service \<leftarrow> rd (irq_services s) idx;
                   if irq_handler service \<noteq> 0 then Some (- EINVAL, s)
                   else do { services \<leftarrow> wr (irq_services s) idx \<lparr>irq_handler = handler, irq_arg = arg\<rparr>;
                             Some (vector, s\<lparr>irq_services := services\<rparr>) } })"

text \<open>\<open>call\<close> runs the function at an address with an argument. A vector without a service is
  reported on the console.\<close>

definition interrupt_service :: "'d cpu \<Rightarrow> (u64 \<Rightarrow> u64 \<Rightarrow> 'd \<Rightarrow> 'd option) \<Rightarrow> int \<Rightarrow> 'd x86 \<Rightarrow> 'd x86 option" where
  "interrupt_service C call vector s =
     (if vector < NR_EXCEPTIONS \<or> vector > NR_INTERRUPT_VECTORS then Some s
      else do { let idx = nat (vector - NR_EXCEPTIONS);
                service \<leftarrow> rd (irq_services s) idx;
                d \<leftarrow> (if irq_handler service \<noteq> 0 then call (irq_handler service) (irq_arg service) (hw s)
                      else print_line (console_write_char (cpu_ports C)) ''warning: unhandled interrupt %d'' [of_int vector] (hw s));
                Some (s\<lparr>hw := d\<rparr>) })"

abbreviation X86_IA32_APIC_BASE :: u32 where "X86_IA32_APIC_BASE \<equiv> 0x1b"
abbreviation X86_IA32_APIC_BASE_BSP :: u64 where "X86_IA32_APIC_BASE_BSP \<equiv> push_bit 8 1"
abbreviation X86_IA32_APIC_BASE_EXTD :: u64 where "X86_IA32_APIC_BASE_EXTD \<equiv> push_bit 10 1"
abbreviation X86_IA32_APIC_BASE_EN :: u64 where "X86_IA32_APIC_BASE_EN \<equiv> push_bit 11 1"
abbreviation X86_IA32_EFER :: u32 where "X86_IA32_EFER \<equiv> 0xc0000080"
abbreviation X86_IA32_EFER_SCE :: u64 where "X86_IA32_EFER_SCE \<equiv> push_bit 0 1"
abbreviation X86_IA32_EFER_NXE :: u64 where "X86_IA32_EFER_NXE \<equiv> push_bit 11 1"
abbreviation X86_IA32_STAR :: u32 where "X86_IA32_STAR \<equiv> 0xc0000081"
abbreviation X86_IA32_LSTAR :: u32 where "X86_IA32_LSTAR \<equiv> 0xc0000082"
abbreviation X86_IA32_FMASK :: u32 where "X86_IA32_FMASK \<equiv> 0xc0000084"
abbreviation X86_CPUID_FEATURE_ECX_X2APIC :: u32 where "X86_CPUID_FEATURE_ECX_X2APIC \<equiv> push_bit 21 1"

abbreviation APIC_EOI :: u32 where "APIC_EOI \<equiv> 0x80b"
abbreviation APIC_SPIV :: u32 where "APIC_SPIV \<equiv> 0x80f"
abbreviation APIC_LVT_TIMER :: u32 where "APIC_LVT_TIMER \<equiv> 0x832"
abbreviation ACPI_LVT_LINT0 :: u32 where "ACPI_LVT_LINT0 \<equiv> 0x835"
abbreviation APIC_TIMER_IC :: u32 where "APIC_TIMER_IC \<equiv> 0x838"
abbreviation APIC_TIMER_DC :: u32 where "APIC_TIMER_DC \<equiv> 0x83e"
abbreviation APIC_LVT_TIMER_PERIODIC :: u64 where "APIC_LVT_TIMER_PERIODIC \<equiv> push_bit 17 1"
abbreviation MSI_DELIVERY_FIXED :: u64 where "MSI_DELIVERY_FIXED \<equiv> push_bit 8 0"
abbreviation MSI_TRIGGER_EDGE :: u64 where "MSI_TRIGGER_EDGE \<equiv> push_bit 15 1"

record msi_message =
  msg_addr :: u64
  msg_data :: u32

definition apic_compose_msi_msg :: "u8 \<Rightarrow> u8 \<Rightarrow> 'd x86 \<Rightarrow> msi_message" where
  "apic_compose_msi_msg vector dest_id s =
     \<lparr>msg_addr = (apic_base s AND 0xfff00000) OR push_bit 12 (ucast dest_id),
      msg_data = ucast (MSI_TRIGGER_EDGE OR MSI_DELIVERY_FIXED OR ucast vector)\<rparr>"

definition apic_write :: "'d cpu \<Rightarrow> u32 \<Rightarrow> u64 \<Rightarrow> 'd x86 \<Rightarrow> 'd x86" where
  "apic_write C addr v s = s\<lparr>hw := wrmsr C addr v (hw s)\<rparr>"

definition apic_timer_intr :: "u64 \<Rightarrow> 'd \<Rightarrow> 'd option" where
  "apic_timer_intr arg d = Some d"

definition apic_eoi :: "'d cpu \<Rightarrow> 'd x86 \<Rightarrow> 'd x86" where
  "apic_eoi C s = apic_write C APIC_EOI 0 s"

definition end_of_interrupt :: "'d cpu \<Rightarrow> 'd x86 \<Rightarrow> 'd x86" where
  "end_of_interrupt C s = apic_eoi C s"

definition handle_interrupt :: "'d cpu \<Rightarrow> (u64 \<Rightarrow> u64 \<Rightarrow> 'd \<Rightarrow> 'd option) \<Rightarrow> int \<Rightarrow> 'd x86 \<Rightarrow> 'd x86 option" where
  "handle_interrupt C call vector s = interrupt_service C call vector (end_of_interrupt C s)"

text \<open>A function that can panic yields \<open>Inl d\<close>, the machine halted in state \<open>d\<close>, or \<open>Inr\<close> its
  result. The buffer of \<open>panic\<close> is zero, as it is written only by a panic.\<close>

definition panic_halt :: "'d cpu \<Rightarrow> string \<Rightarrow> va_slot list \<Rightarrow> 'd \<Rightarrow> ('d + 'a) option" where
  "panic_halt C fmt ap d = map_option Inl (panic (cpu_ports C) (replicate 64 0) (bytes_of fmt @ [0]) ap d)"

definition apic_timer_init :: "'d cpu \<Rightarrow> (string \<Rightarrow> u64) \<Rightarrow> 'd x86 \<Rightarrow> ('d + 'd x86) option" where
  "apic_timer_init C symb s =
     do { (vector, s) \<leftarrow> request_irq (symb ''apic_timer_intr'') 0 s;
          if vector < 0 then panic_halt C ''Unable to initialize APIC timer.'' [] (hw s)
          else do { let s = apic_write C APIC_LVT_TIMER (of_int vector OR APIC_LVT_TIMER_PERIODIC) s;
                    let s = apic_write C APIC_TIMER_DC 0x3 s;
                    Some (Inr (apic_write C APIC_TIMER_IC 100000000 s)) } }"

definition probe_x2apic :: "'d cpu \<Rightarrow> 'd \<Rightarrow> bool" where
  "probe_x2apic C d = (let (eax, ebx, ecx, edx) = cpuid C 0x01 d in ecx AND X86_CPUID_FEATURE_ECX_X2APIC \<noteq> 0)"

definition apic_is_bsp :: "'d cpu \<Rightarrow> 'd \<Rightarrow> bool" where
  "apic_is_bsp C d \<longleftrightarrow> rdmsr C X86_IA32_APIC_BASE d AND X86_IA32_APIC_BASE_BSP = X86_IA32_APIC_BASE_BSP"

definition init_apic :: "'d cpu \<Rightarrow> (string \<Rightarrow> u64) \<Rightarrow> 'd x86 \<Rightarrow> ('d + 'd x86) option" where
  "init_apic C symb s =
     (let out = console_write_char (cpu_ports C)
      in if \<not> probe_x2apic C (hw s) then
           do { d \<leftarrow> print_line out ''No x2APIC found'' [] (hw s); Some (Inr (s\<lparr>hw := d\<rparr>)) }
         else
           do { let base = rdmsr C X86_IA32_APIC_BASE (hw s);
                let d = wrmsr C X86_IA32_APIC_BASE (base OR X86_IA32_APIC_BASE_EXTD OR X86_IA32_APIC_BASE_EN) (hw s);
                let base = base AND NOT X86_IA32_APIC_BASE_BSP;
                d \<leftarrow> print_line out ''Found x2APIC at %lx'' [base] d;
                let s = s\<lparr>hw := d, apic_base := base\<rparr>;
                let s = apic_write C ACPI_LVT_LINT0 0 s;
                let s = apic_write C APIC_SPIV 0x1ff s;
                apic_timer_init C symb s })"

text \<open>A processor with that serial port, whose other instructions do nothing.\<close>

definition cpu_example :: "(bool \<times> u8 list) cpu" where
  "cpu_example = \<lparr>cpu_ports = uart_example, insn_rdmsr = \<lambda>_ _. (0, 0), insn_wrmsr = \<lambda>_ _ _ d. d,
     insn_cpuid = \<lambda>_ _. (0, 0, 0, 0), insn_read_cr2 = \<lambda>_. 0, insn_lidt = \<lambda>_ _ d. d, insn_lgdt = \<lambda>_ _ d. d,
     insn_lretq = \<lambda>_ d. d, insn_ltr = \<lambda>_ d. d, insn_cli = \<lambda>d. d, insn_sti = \<lambda>d. d, insn_pushfq = \<lambda>_. 0, insn_popfq = \<lambda>_ d. d\<rparr>"

end
