(* ===== verification/Exceptions.thy ===== *)
theory Exceptions
  imports X86
begin

text \<open>
  Exceptions and interrupts (\<^verbatim>\<open>arch/x86_64/exceptions.c\<close> with the stubs of
  \<^verbatim>\<open>arch/x86_64/entry.S\<close>), the task state segment (\<^verbatim>\<open>task.c\<close>) and the set-up of the
  \<open>syscall\<close> instruction (\<^verbatim>\<open>syscall.c\<close>), and the path of an interrupt from the descriptor
  table to the handler that requested its vector.
\<close>

record exception_frame =
  ef_regs :: "u64 list"
  error_code :: u64
  ef_rip :: u64
  ef_cs :: u64
  ef_rflags :: u64
  ef_rsp :: u64
  ef_ss :: u64

abbreviation REG_RAX :: nat where "REG_RAX \<equiv> 0"
abbreviation REG_RBX :: nat where "REG_RBX \<equiv> 1"
abbreviation REG_RCX :: nat where "REG_RCX \<equiv> 2"
abbreviation REG_RDX :: nat where "REG_RDX \<equiv> 3"
abbreviation REG_RBP :: nat where "REG_RBP \<equiv> 4"
abbreviation REG_RSI :: nat where "REG_RSI \<equiv> 5"
abbreviation REG_RDI :: nat where "REG_RDI \<equiv> 6"
abbreviation REG_R8 :: nat where "REG_R8 \<equiv> 7"
abbreviation REG_R9 :: nat where "REG_R9 \<equiv> 8"
abbreviation REG_R10 :: nat where "REG_R10 \<equiv> 9"
abbreviation REG_R11 :: nat where "REG_R11 \<equiv> 10"
abbreviation REG_R12 :: nat where "REG_R12 \<equiv> 11"
abbreviation REG_R13 :: nat where "REG_R13 \<equiv> 12"
abbreviation REG_R14 :: nat where "REG_R14 \<equiv> 13"
abbreviation REG_R15 :: nat where "REG_R15 \<equiv> 14"

text \<open>The structure has 15 registers: \<open>ef_regs\<close> has that length wherever a stub built it.\<close>

definition dump_exception_frame :: "'d putchar_t \<Rightarrow> exception_frame \<Rightarrow> 'd \<Rightarrow> 'd option" where
  "dump_exception_frame out ef d =
     (let r = (\<lambda>i. ef_regs ef ! i)
      in do { d \<leftarrow> print_line out ''Registers:'' [] d;
              d \<leftarrow> print_line out ''  RIP=%016lx CS=%016lx RFLAGS=%016lx RSP=%016lx SS=%016lx''
                     [ef_rip ef, ef_cs ef, ef_rflags ef, ef_rsp ef, ef_ss ef] d;
              d \<leftarrow> print_line out ''  RAX=%016lx RBX=%016lx RCX=%016lx RDX=%016lx RBP=%016lx''
                     [r REG_RAX, r REG_RBX, r REG_RCX, r REG_RDX, r REG_RBP] d;
              d \<leftarrow> print_line out ''  RSI=%016lx RDI=%016lx R8=%016lx  R9=%016lx  R10=%016lx''
                     [r REG_RSI, r REG_RDI, r REG_R8, r REG_R9, r REG_R10] d;
              print_line out ''  R11=%016lx R12=%016lx R13=%016lx R14=%016lx R15=%016lx''
                     [r REG_R11, r REG_R12, r REG_R13, r REG_R14, r REG_R15] d })"

subsection \<open>Exception handlers\<close>

text \<open>What every fatal handler does: print the name of the exception, the frame, and panic.\<close>

definition fatal_exception :: "'d cpu \<Rightarrow> string \<Rightarrow> u64 list \<Rightarrow> exception_frame \<Rightarrow> 'd \<Rightarrow> ('d + exception_frame) option" where
  "fatal_exception C name args ef d =
     do { d \<leftarrow> print_line (console_write_char (cpu_ports C)) name args d;
          d \<leftarrow> dump_exception_frame (console_write_char (cpu_ports C)) ef d;
          panic_halt C ''Halted'' [] d }"

definition do_x86_divide_error_exception :: "'d cpu \<Rightarrow> exception_frame \<Rightarrow> 'd \<Rightarrow> ('d + exception_frame) option" where
  "do_x86_divide_error_exception C ef d = fatal_exception C ''Divide error exception'' [] ef d"
definition do_x86_debug_exception :: "'d cpu \<Rightarrow> exception_frame \<Rightarrow> 'd \<Rightarrow> ('d + exception_frame) option" where
  "do_x86_debug_exception C ef d = fatal_exception C ''Debug exception'' [] ef d"
definition do_x86_nmi_interrupt :: "'d cpu \<Rightarrow> exception_frame \<Rightarrow> 'd \<Rightarrow> ('d + exception_frame) option" where
  "do_x86_nmi_interrupt C ef d = fatal_exception C ''NMI interrupt'' [] ef d"
definition do_x86_breakpoint_exception :: "'d cpu \<Rightarrow> exception_frame \<Rightarrow> 'd \<Rightarrow> ('d + exception_frame) option" where
  "do_x86_breakpoint_exception C ef d = fatal_exception C ''Breakpoint exception'' [] ef d"
definition do_x86_overflow_exception :: "'d cpu \<Rightarrow> exception_frame \<Rightarrow> 'd \<Rightarrow> ('d + exception_frame) option" where
  "do_x86_overflow_exception C ef d = fatal_exception C ''Overflow exception'' [] ef d"
definition do_x86_bound_range_exceeded_exception :: "'d cpu \<Rightarrow> exception_frame \<Rightarrow> 'd \<Rightarrow> ('d + exception_frame) option" where
  "do_x86_bound_range_exceeded_exception C ef d = fatal_exception C ''BOUND range exceeded exception'' [] ef d"
definition do_x86_invalid_opcode_exception :: "'d cpu \<Rightarrow> exception_frame \<Rightarrow> 'd \<Rightarrow> ('d + exception_frame) option" where
  "do_x86_invalid_opcode_exception C ef d = fatal_exception C ''Invalid opcode exception'' [] ef d"
definition do_x86_device_not_available_exception :: "'d cpu \<Rightarrow> exception_frame \<Rightarrow> 'd \<Rightarrow> ('d + exception_frame) option" where
  "do_x86_device_not_available_exception C ef d = fatal_exception C ''Device not available exception'' [] ef d"
definition do_x86_double_fault_exception :: "'d cpu \<Rightarrow> exception_frame \<Rightarrow> 'd \<Rightarrow> ('d + exception_frame) option" where
  "do_x86_double_fault_exception C ef d = fatal_exception C ''Double fault exception'' [] ef d"
definition do_x86_invalid_tss_exception :: "'d cpu \<Rightarrow> exception_frame \<Rightarrow> 'd \<Rightarrow> ('d + exception_frame) option" where
  "do_x86_invalid_tss_exception C ef d = fatal_exception C ''Invalid TSS exception'' [] ef d"
definition do_x86_segment_not_present :: "'d cpu \<Rightarrow> exception_frame \<Rightarrow> 'd \<Rightarrow> ('d + exception_frame) option" where
  "do_x86_segment_not_present C ef d = fatal_exception C ''Segment not present'' [] ef d"
definition do_x86_stack_fault_exception :: "'d cpu \<Rightarrow> exception_frame \<Rightarrow> 'd \<Rightarrow> ('d + exception_frame) option" where
  "do_x86_stack_fault_exception C ef d = fatal_exception C ''Stack fault exception'' [] ef d"
definition do_x86_general_protection_exception :: "'d cpu \<Rightarrow> exception_frame \<Rightarrow> 'd \<Rightarrow> ('d + exception_frame) option" where
  "do_x86_general_protection_exception C ef d = fatal_exception C ''General protection exception'' [] ef d"

text \<open>\<open>page_fault_get_fixup\<close> is its result, the fixup address of the current process.\<close>

definition do_x86_page_fault_exception :: "'d cpu \<Rightarrow> u64 \<Rightarrow> exception_frame \<Rightarrow> 'd \<Rightarrow> ('d + exception_frame) option" where
  "do_x86_page_fault_exception C page_fault_get_fixup ef d =
     (let fixup = page_fault_get_fixup
      in if fixup \<noteq> 0 then Some (Inr (ef\<lparr>ef_rip := fixup\<rparr>))
         else let addr = x86_read_cr2 C d in fatal_exception C ''Page fault at address %016lx'' [addr] ef d)"

definition do_x86_x87_fpu_floating_point_error :: "'d cpu \<Rightarrow> exception_frame \<Rightarrow> 'd \<Rightarrow> ('d + exception_frame) option" where
  "do_x86_x87_fpu_floating_point_error C ef d = fatal_exception C ''x87 FPU floating-point error'' [] ef d"
definition do_x86_alignment_check_exception :: "'d cpu \<Rightarrow> exception_frame \<Rightarrow> 'd \<Rightarrow> ('d + exception_frame) option" where
  "do_x86_alignment_check_exception C ef d = fatal_exception C ''Alignment check exception'' [] ef d"
definition do_x86_machine_check_exception :: "'d cpu \<Rightarrow> exception_frame \<Rightarrow> 'd \<Rightarrow> ('d + exception_frame) option" where
  "do_x86_machine_check_exception C ef d = fatal_exception C ''Machine-check exception'' [] ef d"
definition do_x86_simd_floating_point_exception :: "'d cpu \<Rightarrow> exception_frame \<Rightarrow> 'd \<Rightarrow> ('d + exception_frame) option" where
  "do_x86_simd_floating_point_exception C ef d = fatal_exception C ''SIMD floating-point exception'' [] ef d"
definition do_x86_virtualization_exception :: "'d cpu \<Rightarrow> exception_frame \<Rightarrow> 'd \<Rightarrow> ('d + exception_frame) option" where
  "do_x86_virtualization_exception C ef d = fatal_exception C ''Virtualization exception'' [] ef d"

definition do_interrupt :: "'d cpu \<Rightarrow> (u64 \<Rightarrow> u64 \<Rightarrow> 'd \<Rightarrow> 'd option) \<Rightarrow> exception_frame \<Rightarrow> 'd x86 \<Rightarrow> 'd x86 option" where
  "do_interrupt C call ef s = handle_interrupt C call (sint (ucast (error_code ef) :: u32)) s"

subsection \<open>The interrupt descriptor table\<close>

definition set_idt :: "nat \<Rightarrow> idt_entry \<Rightarrow> 'd x86 \<Rightarrow> 'd x86" where
  "set_idt i e s = s\<lparr>idt := (idt s)[i := e]\<rparr>"

text \<open>Vector, gate type, interrupt stack and entry point of the exceptions, in the order of the calls.\<close>

definition exception_entries :: "(nat \<times> u8 \<times> u32 \<times> string) list" where
  "exception_entries =
     [(0, X86_TRAP_GATE, 0, ''x86_divide_error_exception''),
      (1, X86_TRAP_GATE, 1, ''x86_debug_exception''),
      (2, X86_INTERRUPT_GATE, 1, ''x86_nmi_interrupt''),
      (3, X86_TRAP_GATE, 0, ''x86_breakpoint_exception''),
      (4, X86_TRAP_GATE, 0, ''x86_overflow_exception''),
      (5, X86_TRAP_GATE, 0, ''x86_bound_range_exceeded_exception''),
      (6, X86_TRAP_GATE, 0, ''x86_invalid_opcode_exception''),
      (7, X86_TRAP_GATE, 0, ''x86_device_not_available_exception''),
      (8, X86_TRAP_GATE, 1, ''x86_double_fault_exception''),
      (10, X86_TRAP_GATE, 0, ''x86_invalid_tss_exception''),
      (11, X86_TRAP_GATE, 0, ''x86_segment_not_present''),
      (12, X86_TRAP_GATE, 0, ''x86_stack_fault_exception''),
      (13, X86_TRAP_GATE, 0, ''x86_general_protection_exception''),
      (14, X86_TRAP_GATE, 0, ''x86_page_fault_exception''),
      (16, X86_TRAP_GATE, 0, ''x86_x87_fpu_floating_point_error''),
      (17, X86_TRAP_GATE, 0, ''x86_alignment_check_exception''),
      (18, X86_TRAP_GATE, 1, ''x86_machine_check_exception''),
      (19, X86_TRAP_GATE, 0, ''x86_simd_floating_point_exception''),
      (20, X86_TRAP_GATE, 0, ''x86_virtualization_exception'')]"

fun init_idt_interrupts :: "(string \<Rightarrow> u64) \<Rightarrow> nat \<Rightarrow> nat \<Rightarrow> 'd x86 \<Rightarrow> 'd x86" where
  "init_idt_interrupts symb idx 0 s = s"
| "init_idt_interrupts symb idx (Suc n) s =
     (let vector = nat NR_EXCEPTIONS + idx;
          handler = symb ''interrupt_entries'' + of_nat idx * 16
      in init_idt_interrupts symb (Suc idx) n (set_idt vector (init_idt_entry X86_INTERRUPT_GATE 1 handler) s))"

definition init_idt :: "'d cpu \<Rightarrow> (string \<Rightarrow> u64) \<Rightarrow> 'd x86 \<Rightarrow> 'd x86" where
  "init_idt C symb s =
     (let s = s\<lparr>idt := replicate 256 idt_zero\<rparr>;
          s = fold (\<lambda>(v, type, ist, name). set_idt v (init_idt_entry type ist (symb name))) exception_entries s;
          s = init_idt_interrupts symb 0 (nat NR_INTERRUPTS) s
      in s\<lparr>hw := insn_lidt C (of_int (16 * NR_INTERRUPT_VECTORS - 1)) (symb ''idt'') (hw s)\<rparr>)"

text \<open>The stub number \<open>i\<close> of \<open>interrupt_entries\<close>, 16 bytes each, pushes the vector number as
  the error code, builds the frame and calls \<open>do_interrupt\<close>.\<close>

definition interrupt_stub :: "(string \<Rightarrow> u64) \<Rightarrow> u64 \<Rightarrow> u64 option" where
  "interrupt_stub symb addr =
     (let off = addr - symb ''interrupt_entries''
      in if off mod 16 = 0 \<and> off div 16 < of_int NR_INTERRUPTS then Some (of_int NR_EXCEPTIONS + off div 16) else None)"

subsection \<open>Task state and system call set-up\<close>

definition set_cs :: "'d cpu \<Rightarrow> u64 \<Rightarrow> 'd \<Rightarrow> 'd" where
  "set_cs C cs d = insn_lretq C cs d"

definition gdt_limit :: u16 where "gdt_limit = of_nat (length gdt_init) * 8 - 1"

definition init_gdt :: "'d cpu \<Rightarrow> (string \<Rightarrow> u64) \<Rightarrow> 'd x86 \<Rightarrow> 'd x86" where
  "init_gdt C symb s = s\<lparr>hw := insn_lgdt C gdt_limit (symb ''gdt'') (hw s)\<rparr>"

definition load_task_reg :: "'d cpu \<Rightarrow> (string \<Rightarrow> u64) \<Rightarrow> 'd x86 \<Rightarrow> 'd x86" where
  "load_task_reg C symb s =
     (let t = tss_desc_words (init_tss_desc (symb ''tss'') sizeof_tss);
          s = s\<lparr>gdt := (gdt s)[X86_GDT_TSS_IDX := t ! 0, Suc X86_GDT_TSS_IDX := t ! 1]\<rparr>;
          d = insn_lgdt C gdt_limit (symb ''gdt'') (hw s);
          d = set_cs C X86_KERNEL_CS d
      in s\<lparr>hw := insn_ltr C (of_nat X86_GDT_TSS_IDX * 8) d\<rparr>)"

definition init_task :: "'d cpu \<Rightarrow> (string \<Rightarrow> u64) \<Rightarrow> 'd x86 \<Rightarrow> 'd x86" where
  "init_task C symb s =
     load_task_reg C symb (s\<lparr>tss := init_tss (symb ''kernel_stack'' + 4096) (symb ''exception_stack'' + 4096)\<rparr>)"

definition init_syscall :: "'d cpu \<Rightarrow> (string \<Rightarrow> u64) \<Rightarrow> 'd x86 \<Rightarrow> 'd x86" where
  "init_syscall C symb s =
     (let star = push_bit 48 X86_KERNEL_DS OR push_bit 32 X86_KERNEL_CS;
          d = wrmsr C X86_IA32_STAR star (hw s);
          d = wrmsr C X86_IA32_LSTAR (symb ''syscall_entry'') d;
          d = wrmsr C X86_IA32_FMASK 0 d
      in s\<lparr>hw := wrmsr C X86_IA32_EFER (rdmsr C X86_IA32_EFER d OR X86_IA32_EFER_SCE) d\<rparr>)"

definition setup_nxe :: "'d cpu \<Rightarrow> 'd x86 \<Rightarrow> 'd x86" where
  "setup_nxe C s = s\<lparr>hw := wrmsr C X86_IA32_EFER (rdmsr C X86_IA32_EFER (hw s) OR X86_IA32_EFER_NXE) (hw s)\<rparr>"

subsection \<open>Delivery of an interrupt\<close>

text \<open>The processor's side: the address of a gate, and the delivery of a vector through the table.
  \<open>frame\<close> is what the processor and the stub saved.\<close>

definition gate_offset :: "idt_entry \<Rightarrow> u64" where
  "gate_offset e = ucast (offset_1 e) OR push_bit 16 (ucast (offset_2 e)) OR push_bit 32 (ucast (offset_3 e))"

definition deliver_interrupt ::
  "'d cpu \<Rightarrow> (string \<Rightarrow> u64) \<Rightarrow> (u64 \<Rightarrow> u64 \<Rightarrow> 'd \<Rightarrow> 'd option) \<Rightarrow> exception_frame \<Rightarrow> nat \<Rightarrow> 'd x86 \<Rightarrow> 'd x86 option" where
  "deliver_interrupt C symb call frame vector s =
     do { gate \<leftarrow> rd (idt s) vector;
          n \<leftarrow> interrupt_stub symb (gate_offset gate);
          do_interrupt C call (frame\<lparr>error_code := n\<rparr>) s }"

fun request_irqs :: "(u64 \<times> u64) list \<Rightarrow> 'd x86 \<Rightarrow> (int list \<times> 'd x86) option" where
  "request_irqs [] s = Some ([], s)"
| "request_irqs ((handler, arg) # rs) s =
     do { (v, s) \<leftarrow> request_irq handler arg s; (vs, s) \<leftarrow> request_irqs rs s; Some (v # vs, s) }"

lemma gate_offset_init: "gate_offset (init_idt_entry type ist offset) = offset"
proof (rule bit_word_eqI)
  fix n :: nat assume "n < LENGTH(64)"
  then have n: "n < 64" by simp
  have m: "0xffff = (mask 16 :: u64)" by (simp add: mask_eq_exp_minus_1)
  consider "n < 16" | "16 \<le> n" "n < 32" | "32 \<le> n" by linarith
  then show "bit (gate_offset (init_idt_entry type ist offset)) n = bit offset n"
    using n by cases (auto simp: gate_offset_def init_idt_entry_def IDT_ENTRY_OFFSET_1_def IDT_ENTRY_OFFSET_2_def
        IDT_ENTRY_OFFSET_3_def m bit_simps)
qed

lemma init_idt_interrupts_idt:
  "length (idt s) = 256 \<Longrightarrow> idx + n \<le> 224 \<Longrightarrow>
   length (idt (init_idt_interrupts symb idx n s)) = 256
   \<and> (\<forall>i. idx \<le> i \<and> i < idx + n \<longrightarrow> idt (init_idt_interrupts symb idx n s) ! (32 + i) =
        init_idt_entry X86_INTERRUPT_GATE 1 (symb ''interrupt_entries'' + of_nat i * 16))
   \<and> (\<forall>v < 32 + idx. idt (init_idt_interrupts symb idx n s) ! v = idt s ! v)"
proof (induction symb idx n s rule: init_idt_interrupts.induct)
  case (1 symb idx s)
  then show ?case by auto
next
  case (2 symb idx n s)
  define e where "e = init_idt_entry X86_INTERRUPT_GATE 1 (symb ''interrupt_entries'' + of_nat idx * 16)"
  define s1 where "s1 = set_idt (32 + idx) e s"
  have l: "length (idt s1) = 256" and at: "idt s1 ! (32 + idx) = e" and other: "\<And>v. v < 32 + idx \<Longrightarrow> idt s1 ! v = idt s ! v"
    using 2(2,3) by (simp_all add: s1_def set_idt_def)
  have IH: "length (idt (init_idt_interrupts symb (Suc idx) n s1)) = 256
     \<and> (\<forall>i. Suc idx \<le> i \<and> i < Suc idx + n \<longrightarrow> idt (init_idt_interrupts symb (Suc idx) n s1) ! (32 + i) =
          init_idt_entry X86_INTERRUPT_GATE 1 (symb ''interrupt_entries'' + of_nat i * 16))
     \<and> (\<forall>v < 32 + Suc idx. idt (init_idt_interrupts symb (Suc idx) n s1) ! v = idt s1 ! v)"
    using 2(1) [OF refl refl, of] l 2(3) by (simp add: s1_def e_def NR_EXCEPTIONS_def)
  have eq: "init_idt_interrupts symb idx (Suc n) s = init_idt_interrupts symb (Suc idx) n s1"
    by (simp add: s1_def e_def NR_EXCEPTIONS_def Let_def)
  have "idt (init_idt_interrupts symb (Suc idx) n s1) ! (32 + i) = init_idt_entry X86_INTERRUPT_GATE 1 (symb ''interrupt_entries'' + of_nat i * 16)"
    if "idx \<le> i" "i < idx + Suc n" for i
  proof (cases "i = idx")
    case True
    then show ?thesis using IH at by (simp add: e_def)
  next
    case False
    then show ?thesis using IH that by auto
  qed
  then show ?case using IH other unfolding eq by auto
qed

lemma length_idt_fold:
  "length (idt (fold (\<lambda>(v, type, ist, name). set_idt v (init_idt_entry type ist (symb name))) es s)) = length (idt s)"
  by (induction es arbitrary: s) (auto simp: set_idt_def)

lemma idt_vector:
  assumes "i < 224"
  shows "idt (init_idt C symb s) ! (32 + i) = init_idt_entry X86_INTERRUPT_GATE 1 (symb ''interrupt_entries'' + of_nat i * 16)"
    and "length (idt (init_idt C symb s)) = 256"
proof -
  define s0 where "s0 = fold (\<lambda>(v, type, ist, name). set_idt v (init_idt_entry type ist (symb name))) exception_entries (s\<lparr>idt := replicate 256 idt_zero\<rparr>)"
  have "length (idt s0) = 256" by (simp add: s0_def length_idt_fold)
  then have J: "length (idt (init_idt_interrupts symb 0 224 s0)) = 256
    \<and> (\<forall>i < 224. idt (init_idt_interrupts symb 0 224 s0) ! (32 + i) =
         init_idt_entry X86_INTERRUPT_GATE 1 (symb ''interrupt_entries'' + of_nat i * 16))"
    using init_idt_interrupts_idt [of s0 0 224 symb] by simp
  have "idt (init_idt C symb s) = idt (init_idt_interrupts symb 0 224 s0)"
    by (simp add: init_idt_def s0_def NR_INTERRUPTS_def NR_INTERRUPT_VECTORS_def NR_EXCEPTIONS_def Let_def)
  then show "idt (init_idt C symb s) ! (32 + i) = init_idt_entry X86_INTERRUPT_GATE 1 (symb ''interrupt_entries'' + of_nat i * 16)"
    "length (idt (init_idt C symb s)) = 256" using J assms by simp_all
qed

lemma interrupt_stub_nth:
  assumes "i < 224"
  shows "interrupt_stub symb (symb ''interrupt_entries'' + of_nat i * 16) = Some (of_nat (32 + i))"
proof -
  define off :: u64 where "off = of_nat i * 16"
  have u: "unat off = 16 * i" using assms by (simp add: off_def unat_word_ariths unat_of_nat)
  have m: "off mod 16 = 0" by (simp add: word_unat_eq_iff unat_mod_distrib u)
  have d: "off div 16 = of_nat i" using assms by (simp add: word_unat_eq_iff unat_div_distrib u unat_of_nat)
  have l: "of_nat i < (224 :: u64)" using assms by (simp add: word_less_nat_alt unat_of_nat)
  show ?thesis using m d l
    by (simp add: interrupt_stub_def NR_INTERRUPTS_def NR_INTERRUPT_VECTORS_def NR_EXCEPTIONS_def Let_def flip: off_def)
qed

lemma sint_of_nat32: "n < 2 ^ 31 \<Longrightarrow> sint (of_nat n :: u32) = int n"
  by (simp add: signed_of_nat signed_take_bit_int_eq_self)

lemma sint_next_vector: "k \<le> 224 \<Longrightarrow> sint (of_nat (32 + k) :: u32) = 32 + int k"
  using sint_of_nat32 [of "32 + k"] by simp

lemma request_irq_next:
  assumes "next_vector s = of_nat (32 + k)" and "k < 224" and "length (irq_services s) = 224" and "irq_handler (irq_services s ! k) = 0"
  shows "request_irq h a s = Some (32 + int k, s\<lparr>next_vector := of_nat (32 + Suc k), irq_services := (irq_services s)[k := \<lparr>irq_handler = h, irq_arg = a\<rparr>]\<rparr>)"
  using assms(2-4) sint_next_vector [of k]
  by (simp add: request_irq_def assms(1) NR_EXCEPTIONS_def NR_INTERRUPT_VECTORS_def Let_def add.commute)

lemma request_irqs_ok:
  fixes s :: "'d x86"
  assumes "next_vector s = of_nat (32 + k)" and "k + length rs \<le> 224" and "length (irq_services s) = 224"
    and "\<forall>j \<ge> k. j < 224 \<longrightarrow> irq_handler (irq_services s ! j) = 0"
  shows "\<exists>s'. request_irqs rs s = Some (map (\<lambda>j. 32 + int j) [k..<k + length rs], s') \<and> hw s' = hw s \<and> idt s' = idt s
    \<and> length (irq_services s') = 224
    \<and> (\<forall>j < length rs. irq_services s' ! (k + j) = \<lparr>irq_handler = fst (rs ! j), irq_arg = snd (rs ! j)\<rparr>)
    \<and> (\<forall>j < k. irq_services s' ! j = irq_services s ! j)"
  using assms
proof (induction rs arbitrary: s k)
  case Nil
  then show ?case by simp
next
  case (Cons r rs)
  obtain h a where r: "r = (h, a)" by fastforce
  define s1 where "s1 = s\<lparr>next_vector := of_nat (32 + Suc k), irq_services := (irq_services s)[k := \<lparr>irq_handler = h, irq_arg = a\<rparr>]\<rparr>"
  have k: "k < 224" using Cons.prems(2) by simp
  have req: "request_irq h a s = Some (32 + int k, s1)"
    unfolding s1_def using Cons.prems k by (intro request_irq_next) auto
  have "\<exists>s'. request_irqs rs s1 = Some (map (\<lambda>j. 32 + int j) [Suc k..<Suc k + length rs], s') \<and> hw s' = hw s1 \<and> idt s' = idt s1
    \<and> length (irq_services s') = 224
    \<and> (\<forall>j < length rs. irq_services s' ! (Suc k + j) = \<lparr>irq_handler = fst (rs ! j), irq_arg = snd (rs ! j)\<rparr>)
    \<and> (\<forall>j < Suc k. irq_services s' ! j = irq_services s1 ! j)"
    by (rule Cons.IH) (use Cons.prems in \<open>auto simp: s1_def\<close>)
  then obtain s' where s': "request_irqs rs s1 = Some (map (\<lambda>j. 32 + int j) [Suc k..<Suc k + length rs], s')" "hw s' = hw s1" "idt s' = idt s1"
    "length (irq_services s') = 224" and new: "\<And>j. j < length rs \<Longrightarrow> irq_services s' ! (Suc k + j) = \<lparr>irq_handler = fst (rs ! j), irq_arg = snd (rs ! j)\<rparr>"
    and old: "\<And>j. j < Suc k \<Longrightarrow> irq_services s' ! j = irq_services s1 ! j" by blast
  have at: "irq_services s' ! (k + j) = \<lparr>irq_handler = fst ((r # rs) ! j), irq_arg = snd ((r # rs) ! j)\<rparr>" if "j < length (r # rs)" for j
    using that new [of "j - 1"] old [of k] Cons.prems(3) k by (cases j) (auto simp: s1_def r)
  have keep: "irq_services s' ! j = irq_services s ! j" if "j < k" for j
    using old [of j] that by (simp add: s1_def)
  have upt: "[k..<k + length (r # rs)] = k # [Suc k..<Suc k + length rs]" by (simp add: upt_conv_Cons del: upt_Suc)
  have "request_irqs (r # rs) s = Some (map (\<lambda>j. 32 + int j) [k..<k + length (r # rs)], s')"
    unfolding upt using s'(1) by (simp add: r req del: upt_Suc)
  moreover have "hw s' = hw s" "idt s' = idt s" using s' by (simp_all add: s1_def)
  ultimately show ?case using s'(4) at keep by blast
qed

text \<open>C17: interrupts reach the handlers that requested them. When the descriptor table is set up
  and up to 224 non-null handlers have been registered with \<open>request_irq\<close>, the calls have returned
  the vectors 32, 33, and so on, and an interrupt on the vector of a handler, taken through the gate of
  the table and the stub it points to, acknowledges the interrupt at the APIC and then runs
  exactly this handler with the argument it was registered with.\<close>

theorem interrupt_delivered:
  assumes "length rs \<le> 224" and "\<forall>r \<in> set rs. fst r \<noteq> 0"
  shows "\<exists>s. request_irqs rs (init_idt C symb (x86_static d)) = Some (map (\<lambda>j. 32 + int j) [0..<length rs], s)
    \<and> (\<forall>i < length rs. deliver_interrupt C symb call frame (32 + i) s =
         map_option (\<lambda>d'. s\<lparr>hw := d'\<rparr>) (call (fst (rs ! i)) (snd (rs ! i)) (wrmsr C APIC_EOI 0 (hw s))))"
proof -
  let ?s0 = "init_idt C symb (x86_static d)"
  have frame: "next_vector (init_idt_interrupts symb i n t) = next_vector t \<and> irq_services (init_idt_interrupts symb i n t) = irq_services t"
    for i n and t :: "'a x86" by (induction symb i n t rule: init_idt_interrupts.induct) (simp_all add: set_idt_def Let_def)
  have frame2: "next_vector (fold (\<lambda>(v, type, ist, name). set_idt v (init_idt_entry type ist (symb name))) es t) = next_vector t
    \<and> irq_services (fold (\<lambda>(v, type, ist, name). set_idt v (init_idt_entry type ist (symb name))) es t) = irq_services t" for es and t :: "'a x86"
    by (induction es arbitrary: t) (auto simp: set_idt_def)
  have nv: "next_vector ?s0 = of_nat (32 + 0)" and sv: "irq_services ?s0 = replicate 224 \<lparr>irq_handler = 0, irq_arg = 0\<rparr>"
    by (simp_all add: init_idt_def Let_def frame frame2 x86_static_def NR_EXCEPTIONS_def NR_INTERRUPTS_def NR_INTERRUPT_VECTORS_def)
  obtain s where s: "request_irqs rs ?s0 = Some (map (\<lambda>j. 32 + int j) [0..<length rs], s)" "idt s = idt ?s0" "length (irq_services s) = 224"
    and at: "\<forall>j < length rs. irq_services s ! j = \<lparr>irq_handler = fst (rs ! j), irq_arg = snd (rs ! j)\<rparr>"
    using request_irqs_ok [OF nv, of rs] assms(1) by (auto simp: sv)
  have "deliver_interrupt C symb call frame (32 + i) s =
      map_option (\<lambda>d'. s\<lparr>hw := d'\<rparr>) (call (fst (rs ! i)) (snd (rs ! i)) (wrmsr C APIC_EOI 0 (hw s)))" if i: "i < length rs" for i
  proof -
    have i': "i < 224" using i assms(1) by simp
    have h: "irq_handler (irq_services s ! i) = fst (rs ! i)" "irq_arg (irq_services s ! i) = snd (rs ! i)" "fst (rs ! i) \<noteq> 0"
      using at i assms(2) by auto
    have "ucast (of_nat (32 + i) :: u64) = (of_nat (32 + i) :: u32)"
      unfolding word_unat_eq_iff unsigned_ucast_eq using i' by (simp add: unat_of_nat take_bit_eq_mod del: of_nat_add)
    then have v: "sint (ucast (of_nat (32 + i) :: u64) :: u32) = 32 + int i"
      using sint_next_vector [of i] i' by (simp only: less_imp_le)
    show ?thesis
      using i' h s(3) v
      by (simp add: deliver_interrupt_def s(2) idt_vector [OF i'] gate_offset_init interrupt_stub_nth do_interrupt_def
          handle_interrupt_def end_of_interrupt_def apic_eoi_def apic_write_def interrupt_service_def NR_EXCEPTIONS_def
          NR_INTERRUPT_VECTORS_def map_option_case split: option.splits)
  qed
  with s(1) show ?thesis by blast
qed

text \<open>A machine that records the register writes and the calls of handlers, for the witness.\<close>

definition trace_ports :: "(u64 \<times> u64) list ports" where
  "trace_ports = \<lparr>inb = \<lambda>_ d. (0x20, d), outb = \<lambda>_ _ d. d, inw = \<lambda>_ d. (0, d), outw = \<lambda>_ _ d. d,
     inl = \<lambda>_ d. (0, d), outl = \<lambda>_ _ d. d\<rparr>"

definition trace_cpu :: "(u64 \<times> u64) list cpu" where
  "trace_cpu = \<lparr>cpu_ports = trace_ports, insn_rdmsr = \<lambda>_ _. (0, 0),
     insn_wrmsr = \<lambda>idx low high d. d @ [(ucast idx, push_bit 32 (ucast high) OR ucast low)],
     insn_cpuid = \<lambda>_ _. (0, 0, 0, 0), insn_read_cr2 = \<lambda>_. 0, insn_lidt = \<lambda>_ _ d. d, insn_lgdt = \<lambda>_ _ d. d,
     insn_lretq = \<lambda>_ d. d, insn_ltr = \<lambda>_ d. d, insn_cli = \<lambda>d. d, insn_sti = \<lambda>d. d, insn_pushfq = \<lambda>_. 0,
     insn_popfq = \<lambda>_ d. d\<rparr>"

definition zero_frame :: exception_frame where
  "zero_frame = \<lparr>ef_regs = replicate 15 0, error_code = 0, ef_rip = 0, ef_cs = 0, ef_rflags = 0, ef_rsp = 0, ef_ss = 0\<rparr>"

theorem interrupt_delivered_witness:
  "\<exists>s. request_irqs [(0x1000, 7), (0x2000, 8)] (init_idt trace_cpu (\<lambda>_. 0x100000) (x86_static [])) = Some ([32, 33], s)
     \<and> deliver_interrupt trace_cpu (\<lambda>_. 0x100000) (\<lambda>h a d. Some (d @ [(h, a)])) zero_frame 33 s =
         Some (s\<lparr>hw := wrmsr trace_cpu APIC_EOI 0 (hw s) @ [(0x2000, 8)]\<rparr>)"
proof -
  let ?rs = "[(0x1000, 7), (0x2000, 8)] :: (u64 \<times> u64) list"
  obtain s where s: "request_irqs ?rs (init_idt trace_cpu (\<lambda>_. 0x100000) (x86_static [])) = Some (map (\<lambda>j. 32 + int j) [0..<length ?rs], s)"
    and i: "\<forall>i < length ?rs. deliver_interrupt trace_cpu (\<lambda>_. 0x100000) (\<lambda>h a d. Some (d @ [(h, a)])) zero_frame (32 + i) s =
         map_option (\<lambda>d'. s\<lparr>hw := d'\<rparr>) (Some (wrmsr trace_cpu APIC_EOI 0 (hw s) @ [(fst (?rs ! i), snd (?rs ! i))]))"
    using interrupt_delivered [of ?rs trace_cpu "\<lambda>_. 0x100000" "[]" "\<lambda>h a d. Some (d @ [(h, a)])" zero_frame] by auto
  have "deliver_interrupt trace_cpu (\<lambda>_. 0x100000) (\<lambda>h a d. Some (d @ [(h, a)])) zero_frame 33 s =
         Some (s\<lparr>hw := wrmsr trace_cpu APIC_EOI 0 (hw s) @ [(0x2000, 8)]\<rparr>)"
    using i [rule_format, of 1] by simp
  moreover have "map (\<lambda>j. 32 + int j) [0..<length ?rs] = [32, 33]" by (simp add: upt_rec)
  ultimately show ?thesis using s by auto
qed

text \<open>The 225th request passes the check of the vector, which is 256, and reads beyond the table.\<close>

lemma request_irq_overrun:
  assumes "next_vector s = 256" and "length (irq_services s) = 224"
  shows "request_irq h a s = None"
  using assms by (simp add: request_irq_def rd_def NR_EXCEPTIONS_def NR_INTERRUPT_VECTORS_def)

end
