(* ===== verification/Syscall.thy ===== *)
theory Syscall
  imports Sched Exceptions Bytes
begin

text \<open>
  System calls: \<^verbatim>\<open>kernel/syscall.c\<close>, \<^verbatim>\<open>kernel/user-copy.c\<close>,
  \<^verbatim>\<open>arch/x86_64/user-copy.S\<close>, the entry point of \<^verbatim>\<open>arch/x86_64/entry.S\<close>, the Rust
  functions of \<^verbatim>\<open>kernel/sched.rs\<close> behind the calls, and the wrappers of
  \<^verbatim>\<open>usr/libmanticore\<close>. User memory is what the page tables in use translate to bytes of physical
  memory: an access to an address without a translation is a page fault. An access to an address
  that is not canonical is a general protection exception, whose handler panics with or without a
  fixup; the copies yield \<open>None\<close> then.
\<close>

record ('v, 'x, 't, 'c, 'd) sys =
  sy_kernel :: "('v, 'x) kernel"
  sy_mm :: "('t, 'c) mmu_state"
  sy_phys :: "u64 \<Rightarrow> u8"
  sy_hw :: 'd

text \<open>The environment: the processor, the drivers, the address of the fixup routine and of the task
  state of the idle loop.\<close>

record ('v, 'x, 't, 'c, 'd) env =
  en_cpu :: "'d cpu"
  en_devices :: "'x device_ops"
  en_dev_acquire :: "nat \<Rightarrow> nat \<Rightarrow> 'v VMAddressSpace \<Rightarrow> ('t, 'c) mmu_state \<Rightarrow> 'x \<Rightarrow> ((int + unit) \<times> 'v VMAddressSpace \<times> ('t, 'c) mmu_state \<times> 'x) option"
  en_fixup :: u64
  en_idle_task :: u64

definition user_paddr :: "('v, 'x, 't, 'c, 'd) sys \<Rightarrow> u64 \<Rightarrow> u64 option" where
  "user_paddr s a = mmu_translate (sy_mm s) (mmu_current_map (sy_mm s)) a"

definition user_rd :: "('v, 'x, 't, 'c, 'd) sys \<Rightarrow> u64 \<Rightarrow> u8 option" where
  "user_rd s a = map_option (sy_phys s) (user_paddr s a)"

definition user_wr :: "('v, 'x, 't, 'c, 'd) sys \<Rightarrow> u64 \<Rightarrow> u8 \<Rightarrow> ('v, 'x, 't, 'c, 'd) sys option" where
  "user_wr s a b = map_option (\<lambda>p. s\<lparr>sy_phys := (sy_phys s)(p := b)\<rparr>) (user_paddr s a)"

definition canonical :: "u64 \<Rightarrow> bool" where
  "canonical a \<longleftrightarrow> a < 0x0000800000000000 \<or> 0xffff800000000000 \<le> a"

definition set_fixup :: "u64 \<Rightarrow> ('v, 'x, 't, 'c, 'd) sys \<Rightarrow> ('v, 'x, 't, 'c, 'd) sys" where
  "set_fixup a s = s\<lparr>sy_kernel := page_fault_set_fixup a (sy_kernel s)\<rparr>"

subsection \<open>Copies between user space and the kernel\<close>

text \<open>A page fault in one of the copy routines resumes at the fixup address, where the routine
  clears the fixup and returns \<open>- EFAULT\<close>. Without a fixup the handler panics.\<close>

definition memcpy_user_fixup ::
  "('v, 'x, 't, 'c, 'd) env \<Rightarrow> ('v, 'x, 't, 'c, 'd) sys \<Rightarrow> (int \<times> ('v, 'x, 't, 'c, 'd) sys) option" where
  "memcpy_user_fixup E s =
     (case do_x86_page_fault_exception (en_cpu E) (page_fault_get_fixup (sy_kernel s)) zero_frame (sy_hw s) of
        Some (Inr ef) \<Rightarrow> if ef_rip ef = en_fixup E then Some (- EFAULT, set_fixup 0 s) else None
      | _ \<Rightarrow> None)"

text \<open>The string copy \<open>rep movsb\<close> from user space to a kernel object: whether it faulted, and the object.\<close>

fun movsb_from :: "('v, 'x, 't, 'c, 'd) sys \<Rightarrow> u8 list \<Rightarrow> nat \<Rightarrow> u64 \<Rightarrow> nat \<Rightarrow> (bool \<times> u8 list) option" where
  "movsb_from s buf i src 0 = Some (False, buf)"
| "movsb_from s buf i src (Suc n) =
     (if \<not> canonical src then None
      else case user_rd s src of
        None \<Rightarrow> Some (True, buf)
      | Some b \<Rightarrow> do { buf \<leftarrow> wr buf i b; movsb_from s buf (Suc i) (src + 1) n })"

fun movsb_to :: "u8 list \<Rightarrow> nat \<Rightarrow> u64 \<Rightarrow> nat \<Rightarrow> ('v, 'x, 't, 'c, 'd) sys \<Rightarrow> (bool \<times> ('v, 'x, 't, 'c, 'd) sys) option" where
  "movsb_to buf i dest 0 s = Some (False, s)"
| "movsb_to buf i dest (Suc n) s =
     do { b \<leftarrow> rd buf i;
          (if \<not> canonical dest then None
           else case user_wr s dest b of None \<Rightarrow> Some (True, s) | Some s \<Rightarrow> movsb_to buf (Suc i) (dest + 1) n s) }"

definition memcpy_user_safe_from ::
  "('v, 'x, 't, 'c, 'd) env \<Rightarrow> u8 list \<Rightarrow> u64 \<Rightarrow> u64 \<Rightarrow> ('v, 'x, 't, 'c, 'd) sys \<Rightarrow> (int \<times> u8 list \<times> ('v, 'x, 't, 'c, 'd) sys) option" where
  "memcpy_user_safe_from E dest src len s =
     do { let s = set_fixup (en_fixup E) s;
          (fault, dest) \<leftarrow> movsb_from s dest 0 src (unat len);
          if fault then do { (err, s) \<leftarrow> memcpy_user_fixup E s; Some (err, dest, s) }
          else Some (0, dest, set_fixup 0 s) }"

definition memcpy_user_safe_to ::
  "('v, 'x, 't, 'c, 'd) env \<Rightarrow> u64 \<Rightarrow> u8 list \<Rightarrow> u64 \<Rightarrow> ('v, 'x, 't, 'c, 'd) sys \<Rightarrow> (int \<times> ('v, 'x, 't, 'c, 'd) sys) option" where
  "memcpy_user_safe_to E dest src len s =
     do { let s = set_fixup (en_fixup E) s;
          (fault, s) \<leftarrow> movsb_to src 0 dest (unat len) s;
          if fault then memcpy_user_fixup E s else Some (0, set_fixup 0 s) }"

text \<open>The loop of \<open>raw_strncpy_from_user\<close>: \<open>rdx\<close> counts down and is tested after it was decremented.\<close>

function strncpy_loop :: "('v, 'x, 't, 'c, 'd) sys \<Rightarrow> u8 list \<Rightarrow> nat \<Rightarrow> u64 \<Rightarrow> u64 \<Rightarrow> (bool \<times> u8 list) option" where
  "strncpy_loop s dest rdi rsi rdx =
     (if \<not> canonical rsi then None
      else case user_rd s rsi of
        None \<Rightarrow> Some (True, dest)
      | Some al \<Rightarrow>
          if al = 0 then map_option (Pair False) (wr dest rdi 0)
          else if rdi < length dest then
            (let dest = dest[rdi := al]; rdi = Suc rdi; rsi = rsi + 1; rdx = rdx - 1
             in if rdx = 0 then map_option (Pair False) (wr dest rdi 0) else strncpy_loop s dest rdi rsi rdx)
          else None)"
  by pat_completeness auto
termination
  by (relation "measure (\<lambda>(_, dest, rdi, _). length dest - rdi)") auto

declare strncpy_loop.simps [simp del]

definition raw_strncpy_from_user ::
  "('v, 'x, 't, 'c, 'd) env \<Rightarrow> u8 list \<Rightarrow> u64 \<Rightarrow> u64 \<Rightarrow> ('v, 'x, 't, 'c, 'd) sys \<Rightarrow> (int \<times> u8 list \<times> ('v, 'x, 't, 'c, 'd) sys) option" where
  "raw_strncpy_from_user E dest src len s =
     do { let s = set_fixup (en_fixup E) s;
          (fault, dest) \<leftarrow> strncpy_loop s dest 0 src (len - 1);
          if fault then do { (err, s) \<leftarrow> memcpy_user_fixup E s; Some (err, dest, s) }
          else Some (0, dest, set_fixup 0 s) }"

definition memcpy_to_user ::
  "('v, 'x, 't, 'c, 'd) env \<Rightarrow> u64 \<Rightarrow> u8 list \<Rightarrow> u64 \<Rightarrow> ('v, 'x, 't, 'c, 'd) sys \<Rightarrow> (int \<times> ('v, 'x, 't, 'c, 'd) sys) option" where
  "memcpy_to_user E dest src len s =
     (if dest \<ge> KERNEL_VMA then Some (- EFAULT, s) else memcpy_user_safe_to E dest src len s)"

definition memcpy_from_user ::
  "('v, 'x, 't, 'c, 'd) env \<Rightarrow> u8 list \<Rightarrow> u64 \<Rightarrow> u64 \<Rightarrow> ('v, 'x, 't, 'c, 'd) sys \<Rightarrow> (int \<times> u8 list \<times> ('v, 'x, 't, 'c, 'd) sys) option" where
  "memcpy_from_user E dest src len s =
     (if src \<ge> KERNEL_VMA then Some (- EFAULT, dest, s) else memcpy_user_safe_from E dest src len s)"

definition strncpy_from_user ::
  "('v, 'x, 't, 'c, 'd) env \<Rightarrow> u8 list \<Rightarrow> u64 \<Rightarrow> u64 \<Rightarrow> ('v, 'x, 't, 'c, 'd) sys \<Rightarrow> (int \<times> u8 list \<times> ('v, 'x, 't, 'c, 'd) sys) option" where
  "strncpy_from_user E dest src len s =
     (if src \<ge> KERNEL_VMA then Some (- EFAULT, dest, s) else raw_strncpy_from_user E dest src len s)"

subsection \<open>The calls\<close>

text \<open>A call yields \<open>Inl d\<close> when it halts the machine, with the console in state \<open>d\<close>, and else
  \<open>Inr\<close> its return value and the state. Local buffers, which the code does not initialise, start out as
  zeros; every byte that is read from them was written before.\<close>

type_synonym ('v, 'x, 't, 'c, 'd) sysres = "('d + int \<times> ('v, 'x, 't, 'c, 'd) sys) option"

definition sys_exit :: "('v, 'x, 't, 'c, 'd) env \<Rightarrow> u32 \<Rightarrow> ('v, 'x, 't, 'c, 'd) sys \<Rightarrow> ('v, 'x, 't, 'c, 'd) sysres" where
  "sys_exit E status s = panic_halt (en_cpu E) ''Process terminated with exit status %d.'' [VaWord (ucast status)] (sy_hw s)"

text \<open>The state is that at the switch to another process; the value is returned when the process
  is resumed.\<close>

definition sys_wait :: "('v, 'x, 't, 'c, 'd) env \<Rightarrow> ('v, 'x, 't, 'c, 'd) sys \<Rightarrow> ('v, 'x, 't, 'c, 'd) sysres" where
  "sys_wait E s =
     do { (sw, k, mm) \<leftarrow> process_wait (en_devices E) (en_idle_task E) (sy_kernel s) (sy_mm s);
          Some (Inr (0, s\<lparr>sy_kernel := k, sy_mm := mm\<rparr>)) }"

abbreviation EVENT_SIZE :: nat where "EVENT_SIZE \<equiv> 32"
abbreviation MAX_NAME_LEN :: nat where "MAX_NAME_LEN \<equiv> 32"
definition BUF_SIZE :: u64 where "BUF_SIZE = 64"

text \<open>\<open>process_subscribe\<close> is declared in C with the name as its only argument and defined in Rust with
  a descriptor before it: the descriptor it sees is the address of the local buffer, \<open>event_addr\<close>, and
  the events are what the register of the second argument holds, \<open>rsi_events\<close>.\<close>

definition sys_subscribe ::
  "('v, 'x, 't, 'c, 'd) env \<Rightarrow> u64 \<Rightarrow> u8 list \<Rightarrow> u64 \<Rightarrow> ('v, 'x, 't, 'c, 'd) sys \<Rightarrow> ('v, 'x, 't, 'c, 'd) sysres" where
  "sys_subscribe E event_addr rsi_events uevent s =
     do { (err, event, s) \<leftarrow> strncpy_from_user E (replicate EVENT_SIZE 0) uevent (of_nat EVENT_SIZE) s;
          if err < 0 then Some (Inr (err, s))
          else do { (ret, k) \<leftarrow> process_subscribe (en_devices E) (sint (ucast event_addr :: u32)) rsi_events (sy_kernel s);
                    Some (Inr (ret, s\<lparr>sy_kernel := k\<rparr>)) } }"

text \<open>The pointer is stored directly through the address the process passed. A fault there has no
  fixup and panics.\<close>

definition sys_getevents ::
  "('v, 'x, 't, 'c, 'd) env \<Rightarrow> u64 \<Rightarrow> ('v, 'x, 't, 'c, 'd) sys \<Rightarrow> ('v, 'x, 't, 'c, 'd) sysres" where
  "sys_getevents E events s =
     do { p \<leftarrow> process_getevents (sy_kernel s);
          (fault, s') \<leftarrow> movsb_to (enc64 p) 0 events 8 s;
          if fault then
            (case do_x86_page_fault_exception (en_cpu E) (page_fault_get_fixup (sy_kernel s')) zero_frame (sy_hw s') of
               Some (Inl d) \<Rightarrow> Some (Inl d)
             | _ \<Rightarrow> None)
          else Some (Inr (0, s')) }"

definition process_get_config ::
  "('v, 'x, 't, 'c, 'd) env \<Rightarrow> int \<Rightarrow> int \<Rightarrow> u64 \<Rightarrow> u64 \<Rightarrow> ('v, 'x, 't, 'c, 'd) sys \<Rightarrow> (int \<times> ('v, 'x, 't, 'c, 'd) sys) option" where
  "process_get_config E raw_desc opt buf len s =
     do { current \<leftarrow> get_current (sy_kernel s);
          dev \<leftarrow> device_lookup raw_desc (pr_devices (procs (sy_kernel s) current));
          (case dev of
             None \<Rightarrow> Some (- EINVAL, s)
           | Some d \<Rightarrow>
               (case dev_get_config (en_devices E) d opt (drivers (sy_kernel s)) of
                  None \<Rightarrow> Some (- EINVAL, s)
                | Some v \<Rightarrow>
                    do { let to_copy = min (unat len) (length v);
                         (err, s) \<leftarrow> memcpy_to_user E buf v (of_nat to_copy) s;
                         Some (0, s) })) }"

definition sys_get_config ::
  "('v, 'x, 't, 'c, 'd) env \<Rightarrow> u32 \<Rightarrow> u32 \<Rightarrow> u64 \<Rightarrow> u64 \<Rightarrow> ('v, 'x, 't, 'c, 'd) sys \<Rightarrow> ('v, 'x, 't, 'c, 'd) sysres" where
  "sys_get_config E desc opt buf len s = map_option Inr (process_get_config E (sint desc) (sint opt) buf len s)"

text \<open>\<open>Process::acquire\<close> and \<open>process_acquire\<close>. The name is the bytes before the terminator.\<close>

definition process_acquire ::
  "('v, 'x, 't, 'c, 'd) env \<Rightarrow> u8 list \<Rightarrow> ('v, 'x, 't, 'c, 'd) sys \<Rightarrow> (int \<times> ('v, 'x, 't, 'c, 'd) sys) option" where
  "process_acquire E name s =
     do { current \<leftarrow> get_current (sy_kernel s);
          (case find (\<lambda>(n, dev). bytes_of n = takeWhile (\<lambda>b. b \<noteq> 0) name) (NAMESPACE (sy_kernel s)) of
             None \<Rightarrow> Some (- EINVAL, s)
           | Some (n, dev) \<Rightarrow>
               do { let k = sy_kernel s;
                    let (desc, table) = device_attach dev (pr_devices (procs k current));
                    (res, vs, mm, x) \<leftarrow> en_dev_acquire E dev current (pr_vmspace (procs k current)) (sy_mm s) (drivers k);
                    let k = update_proc current (\<lambda>pr. pr\<lparr>pr_devices := table, pr_vmspace := vs\<rparr>) k;
                    Some (case res of Inl e \<Rightarrow> - e | Inr _ \<Rightarrow> desc, s\<lparr>sy_kernel := k\<lparr>drivers := x\<rparr>, sy_mm := mm\<rparr>) }) }"

definition sys_acquire ::
  "('v, 'x, 't, 'c, 'd) env \<Rightarrow> u64 \<Rightarrow> u32 \<Rightarrow> ('v, 'x, 't, 'c, 'd) sys \<Rightarrow> ('v, 'x, 't, 'c, 'd) sysres" where
  "sys_acquire E uname flags s =
     do { (err, name, s) \<leftarrow> strncpy_from_user E (replicate MAX_NAME_LEN 0) uname (of_nat MAX_NAME_LEN) s;
          if err < 0 then Some (Inr (err, s)) else map_option Inr (process_acquire E name s) }"

lemma chunk_decreases:
  assumes "count \<noteq> 0"
  shows "unat (count - (if BUF_SIZE < count then BUF_SIZE else count)) < unat count"
proof (cases "BUF_SIZE < count")
  case True
  then show ?thesis using unat_sub [of BUF_SIZE count] by (simp add: BUF_SIZE_def word_less_nat_alt word_le_nat_alt)
next
  case False
  then show ?thesis using assms by (simp add: unat_gt_0)
qed

function console_print_loop ::
  "('v, 'x, 't, 'c, 'd) env \<Rightarrow> u64 \<Rightarrow> u64 \<Rightarrow> u64 \<Rightarrow> ('v, 'x, 't, 'c, 'd) sys \<Rightarrow> (int \<times> ('v, 'x, 't, 'c, 'd) sys) option" where
  "console_print_loop E ubuf count off s =
     (if count = 0 then Some (sint off, s)
      else let nr = (if count > BUF_SIZE then BUF_SIZE else count)
           in case memcpy_from_user E (replicate (unat BUF_SIZE) 0) (ubuf + off) nr s of
                None \<Rightarrow> None
              | Some (err, buf, s) \<Rightarrow>
                  if err < 0 then Some (err, s)
                  else (case console_write (cpu_ports (en_cpu E)) buf nr (sy_hw s) of
                          None \<Rightarrow> None
                        | Some d \<Rightarrow> console_print_loop E ubuf (count - nr) (off + nr) (s\<lparr>sy_hw := d\<rparr>)))"
  by pat_completeness auto
termination
  by (relation "measure (\<lambda>(_, _, count, _). unat count)") (use chunk_decreases in \<open>auto simp: Let_def split: if_splits\<close>)

declare console_print_loop.simps [simp del]

definition sys_console_print ::
  "('v, 'x, 't, 'c, 'd) env \<Rightarrow> u64 \<Rightarrow> u64 \<Rightarrow> ('v, 'x, 't, 'c, 'd) sys \<Rightarrow> ('v, 'x, 't, 'c, 'd) sysres" where
  "sys_console_print E ubuf count s = map_option Inr (console_print_loop E ubuf count 0 s)"

text \<open>\<open>struct vmspace_region\<close>: size, alignment and start, 24 bytes.\<close>

definition sys_vmspace_alloc ::
  "('v, 'x, 't, 'c, 'd) env \<Rightarrow> u64 \<Rightarrow> u64 \<Rightarrow> ('v, 'x, 't, 'c, 'd) sys \<Rightarrow> ('v, 'x, 't, 'c, 'd) sysres" where
  "sys_vmspace_alloc E uvmr sz s =
     (if sz \<noteq> 24 then Some (Inr (- EINVAL, s))
      else do {
        (err, vmr, s) \<leftarrow> memcpy_from_user E (replicate 24 0) uvmr 24 s;
        if err \<noteq> 0 then Some (Inr (err, s))
        else do {
          let vmr_size = dec64 (take 8 vmr);
          let vmr_align = dec64 (take 8 (drop 8 vmr));
          let vmr_align = (if vmr_align = 0 then PAGE_SIZE_SMALL else vmr_align);
          current \<leftarrow> get_current (sy_kernel s);
          (err, start, vs, mm) \<leftarrow> process_vmspace_alloc vmr_size vmr_align (pr_vmspace (procs (sy_kernel s) current)) (sy_mm s);
          let s = s\<lparr>sy_kernel := update_proc current (\<lambda>pr. pr\<lparr>pr_vmspace := vs\<rparr>) (sy_kernel s), sy_mm := mm\<rparr>;
          if err \<noteq> 0 then Some (Inr (err, s))
          else map_option Inr (memcpy_to_user E uvmr (enc64 vmr_size @ enc64 vmr_align @ enc64 (case start of Some a \<Rightarrow> a | None \<Rightarrow> 0)) 24 s) } })"

abbreviation SYS_exit :: int where "SYS_exit \<equiv> 1"
abbreviation SYS_wait :: int where "SYS_wait \<equiv> 2"
abbreviation SYS_console_print :: int where "SYS_console_print \<equiv> 3"
abbreviation SYS_subscribe :: int where "SYS_subscribe \<equiv> 4"
abbreviation SYS_getevents :: int where "SYS_getevents \<equiv> 5"
abbreviation SYS_get_config :: int where "SYS_get_config \<equiv> 7"
abbreviation SYS_acquire :: int where "SYS_acquire \<equiv> 8"
abbreviation SYS_vmspace_alloc :: int where "SYS_vmspace_alloc \<equiv> 9"

text \<open>The dispatcher. \<open>a0\<close> to \<open>a3\<close> are the variable arguments; an \<open>int\<close> argument is the low half of
  its slot. \<open>junk\<close> is what \<open>sys_subscribe\<close> passes on by mistake.\<close>

definition syscall ::
  "('v, 'x, 't, 'c, 'd) env \<Rightarrow> u64 \<times> u8 list \<Rightarrow> u32 \<Rightarrow> u64 \<Rightarrow> u64 \<Rightarrow> u64 \<Rightarrow> u64 \<Rightarrow> ('v, 'x, 't, 'c, 'd) sys \<Rightarrow> ('v, 'x, 't, 'c, 'd) sysres" where
  "syscall E junk nr a0 a1 a2 a3 s =
     (let n = sint nr
      in if n = SYS_exit then sys_exit E (ucast a0) s
         else if n = SYS_wait then sys_wait E s
         else if n = SYS_console_print then sys_console_print E a0 a1 s
         else if n = SYS_subscribe then sys_subscribe E (fst junk) (snd junk) a0 s
         else if n = SYS_getevents then sys_getevents E a0 s
         else if n = SYS_get_config then sys_get_config E (ucast a0) (ucast a1) a2 a3 s
         else if n = SYS_acquire then sys_acquire E a0 (ucast a1) s
         else if n = SYS_vmspace_alloc then sys_vmspace_alloc E a0 a1 s
         else Some (Inr (- ENOSYS, s)))"

subsection \<open>The system call instruction and the wrappers of the user library\<close>

record regs =
  r_rax :: u64
  r_rdi :: u64
  r_rsi :: u64
  r_rdx :: u64
  r_rcx :: u64
  r_r8 :: u64
  r_r9 :: u64
  r_r10 :: u64
  r_r11 :: u64

text \<open>A process at its \<open>syscall\<close> instruction: the address of the next instruction, the flags, the
  registers, and what \<open>sys_subscribe\<close> passes on by mistake. The instruction saves the address in
  \<open>rcx\<close> and the flags in \<open>r11\<close>.\<close>

record user =
  us_rip :: u64
  us_rflags :: u64
  us_regs :: regs
  us_junk :: "u64 \<times> u8 list"

definition syscall_insn :: "user \<Rightarrow> regs \<Rightarrow> regs" where
  "syscall_insn u r = r\<lparr>r_rcx := us_rip u, r_r11 := us_rflags u\<rparr>"

text \<open>\<open>syscall_entry\<close> moves the saved registers to those of a C call: \<open>rdi\<close>, \<open>rsi\<close>, \<open>rdx\<close> and \<open>rcx\<close>
  become the variable arguments.\<close>

definition syscall_entry ::
  "('v, 'x, 't, 'c, 'd) env \<Rightarrow> user \<Rightarrow> regs \<Rightarrow> ('v, 'x, 't, 'c, 'd) sys \<Rightarrow> ('d + regs \<times> ('v, 'x, 't, 'c, 'd) sys) option" where
  "syscall_entry E u r s =
     (case syscall E (us_junk u) (ucast (r_rax r)) (r_rdi r) (r_rsi r) (r_rdx r) (r_rcx r) s of
        None \<Rightarrow> None
      | Some (Inl d) \<Rightarrow> Some (Inl d)
      | Some (Inr (ret, s)) \<Rightarrow> Some (Inr (r\<lparr>r_rax := word_of_int ret\<rparr>, s)))"

definition syscall_ret ::
  "('v, 'x, 't, 'c, 'd) env \<Rightarrow> user \<Rightarrow> regs \<Rightarrow> ('v, 'x, 't, 'c, 'd) sys \<Rightarrow> ('d + u64 \<times> ('v, 'x, 't, 'c, 'd) sys) option" where
  "syscall_ret E u r s =
     map_option (map_sum id (map_prod r_rax id)) (syscall_entry E u (syscall_insn u r) s)"

definition syscall0 where
  "syscall0 E u number s = syscall_ret E u ((us_regs u)\<lparr>r_rax := number\<rparr>) s"

definition syscall1 where
  "syscall1 E u number arg0 s = syscall_ret E u ((us_regs u)\<lparr>r_rax := number, r_rdi := arg0\<rparr>) s"

definition syscall2 where
  "syscall2 E u number arg0 arg1 s =
     syscall_ret E u ((us_regs u)\<lparr>r_rax := number, r_rdi := arg0, r_rsi := arg1\<rparr>) s"

definition syscall4 where
  "syscall4 E u number arg0 arg1 arg2 arg3 s =
     syscall_ret E u ((us_regs u)\<lparr>r_rax := number, r_rdi := arg0, r_rsi := arg1, r_rdx := arg2, r_rcx := arg3\<rparr>) s"

text \<open>A wrapper that returns an \<open>int\<close> truncates the result.\<close>

definition int_ret :: "('d + u64 \<times> 's) option \<Rightarrow> ('d + int \<times> 's) option" where
  "int_ret r = map_option (map_sum id (map_prod c_int_of_size id)) r"

definition user_acquire where
  "user_acquire E u event flags s = int_ret (syscall2 E u (word_of_int SYS_acquire) event (word_of_int flags) s)"

definition user_console_print where
  "user_console_print E u text count s =
     map_option (map_sum id (map_prod sint id)) (syscall2 E u (word_of_int SYS_console_print) text count s)"

partial_function (option) user_exit ::
  "('v, 'x, 't, 'c, 'd) env \<Rightarrow> user \<Rightarrow> int \<Rightarrow> ('v, 'x, 't, 'c, 'd) sys \<Rightarrow> 'd option" where
  "user_exit E u status s =
     Option.bind (syscall1 E u (word_of_int SYS_exit) (word_of_int status) s)
       (\<lambda>r. case r of Inl d \<Rightarrow> Some d | Inr p \<Rightarrow> user_exit E u status (snd p))"

definition user_get_config where
  "user_get_config E u desc opt buf len s =
     int_ret (syscall4 E u (word_of_int SYS_get_config) (word_of_int desc) (word_of_int opt) buf len s)"

definition user_getevents where
  "user_getevents E u events s = int_ret (syscall1 E u (word_of_int SYS_getevents) events s)"

definition user_subscribe where
  "user_subscribe E u event s = int_ret (syscall1 E u (word_of_int SYS_subscribe) event s)"

definition user_vmspace_alloc where
  "user_vmspace_alloc E u vmr sz s = int_ret (syscall2 E u (word_of_int SYS_vmspace_alloc) vmr sz s)"

definition user_wait where
  "user_wait E u s = int_ret (syscall0 E u (word_of_int SYS_wait) s)"

end
