(* ===== verification/SyscallProofs.thy ===== *)
theory SyscallProofs
  imports Syscall
begin

text \<open>
  What the system calls guarantee: the bytes \<open>console_print\<close> sends, what happens to a pointer into
  the kernel, that no call disturbs the scheduler, and what reaches the kernel of the arguments
  the user library passes.
\<close>

lemma user_rd_cong: "sy_mm s' = sy_mm s \<Longrightarrow> sy_phys s' = sy_phys s \<Longrightarrow> user_rd s' = user_rd s"
  by (rule ext) (simp add: user_rd_def user_paddr_def)

lemma set_fixup_fields [simp]:
  "sy_mm (set_fixup a s) = sy_mm s" "sy_phys (set_fixup a s) = sy_phys s" "sy_hw (set_fixup a s) = sy_hw s"
  "CURRENT (sy_kernel (set_fixup a s)) = CURRENT (sy_kernel s)" "user_rd (set_fixup a s) = user_rd s"
  by (auto simp: set_fixup_def page_fault_set_fixup_def update_proc_def intro: user_rd_cong split: option.split)

lemma set_fixup_twice [simp]: "set_fixup a (set_fixup b s) = set_fixup a s"
  by (simp add: set_fixup_def page_fault_set_fixup_def update_proc_def split: option.split)

text \<open>With a current process and a fixup address, a page fault in a copy is an error value.\<close>

lemma fixup_returns:
  "en_fixup E \<noteq> 0 \<Longrightarrow> CURRENT (sy_kernel s) = Some p \<Longrightarrow> memcpy_user_fixup E (set_fixup (en_fixup E) s) = Some (- EFAULT, set_fixup 0 s)"
  by (simp add: memcpy_user_fixup_def page_fault_get_fixup_def set_fixup_def page_fault_set_fixup_def update_proc_def
      do_x86_page_fault_exception_def)

text \<open>The bytes \<open>bs\<close> are what can be read at \<open>src\<close>, up to the first fault or to \<open>n\<close> bytes.\<close>

definition reads :: "('v, 'x, 't, 'c, 'd) sys \<Rightarrow> u64 \<Rightarrow> nat \<Rightarrow> u8 list \<Rightarrow> bool" where
  "reads s src n bs \<longleftrightarrow> length bs \<le> n \<and> (\<forall>k < length bs. user_rd s (src + of_nat k) = Some (bs ! k))
     \<and> (length bs < n \<longrightarrow> user_rd s (src + of_nat (length bs)) = None)"

lemma reads_Nil: "reads s src (Suc n) [] \<Longrightarrow> user_rd s src = None"
  by (simp add: reads_def)

lemma reads_Cons: "reads s src (Suc n) (b # bs) \<Longrightarrow> user_rd s src = Some b \<and> reads s (src + 1) n bs"
  by (force simp: reads_def add.assoc)

lemma reads_take: "reads s src n bs \<Longrightarrow> m \<le> n \<Longrightarrow> reads s src m (take m bs)"
  by (auto simp: reads_def min_def)

lemma reads_drop: "reads s src n bs \<Longrightarrow> m \<le> length bs \<Longrightarrow> reads s (src + of_nat m) (n - m) (drop m bs)"
  by (auto simp: reads_def add.assoc simp flip: of_nat_add)

lemma reads_cong: "user_rd s' = user_rd s \<Longrightarrow> reads s' src n bs = reads s src n bs"
  by (simp add: reads_def)

lemma low_canonical: "unat a < 2 ^ 47 \<Longrightarrow> canonical a"
  by (simp add: canonical_def word_less_nat_alt)

lemma movsb_from_reads:
  "reads s src n bs \<Longrightarrow> i + n \<le> length buf \<Longrightarrow> unat src + n \<le> 2 ^ 47 \<Longrightarrow>
   movsb_from s buf i src n = Some (length bs < n, take i buf @ bs @ drop (i + length bs) buf)"
proof (induction n arbitrary: src bs i buf)
  case 0
  then show ?case by (simp add: reads_def)
next
  case (Suc n)
  have c: "canonical src" using Suc.prems(3) by (simp add: low_canonical)
  show ?case
  proof (cases bs)
    case Nil
    then show ?thesis using reads_Nil [of s src n] Suc.prems(1) c by simp
  next
    case (Cons b bs')
    have i: "i < length buf" using Suc.prems(2) by simp
    have u: "unat (src + 1) = Suc (unat src)" using Suc.prems(3) unat_add_no_wrap [of src 1] by simp
    have "movsb_from s (buf[i := b]) (Suc i) (src + 1) n =
        Some (length bs' < n, take (Suc i) (buf[i := b]) @ bs' @ drop (Suc i + length bs') (buf[i := b]))"
      using Suc.IH [of "src + 1" bs' "Suc i" "buf[i := b]"] reads_Cons [of s src n b bs'] Suc.prems Cons u by simp
    then show ?thesis using reads_Cons [of s src n b bs'] Suc.prems(1) Cons c i by (simp add: wr_ok take_list_update_same)
  qed
qed

lemma memcpy_from_user_reads:
  assumes "reads s src (unat len) bs" and "unat len \<le> length buf" and "unat src + unat len \<le> 2 ^ 47"
    and "en_fixup E \<noteq> 0" and "CURRENT (sy_kernel s) = Some p"
  shows "memcpy_from_user E buf src len s =
    Some (if length bs < unat len then - EFAULT else 0, bs @ drop (length bs) buf, set_fixup 0 s)"
proof -
  have "\<not> KERNEL_VMA \<le> src" using assms(3) by (simp add: KERNEL_VMA_def word_le_nat_alt)
  moreover have "reads (set_fixup (en_fixup E) s) src (unat len) bs" using assms(1) by (simp add: reads_def)
  ultimately show ?thesis
    using movsb_from_reads [of "set_fixup (en_fixup E) s" src "unat len" bs 0 buf] assms
    by (simp add: memcpy_from_user_def memcpy_user_safe_from_def fixup_returns)
qed

subsection \<open>The console\<close>

lemma chunk_size: "unat (if BUF_SIZE < count then BUF_SIZE else count) = min 64 (unat count)"
  by (simp add: BUF_SIZE_def word_less_nat_alt)

lemma chunk_text:
  assumes "length bs \<le> n" and "min 64 n \<le> length bs"
  shows "take (min 64 n) bs @ (if length (drop (min 64 n) bs) = n - min 64 n then drop (min 64 n) bs
           else take (64 * (length (drop (min 64 n) bs) div 64)) (drop (min 64 n) bs)) =
         (if length bs = n then bs else take (64 * (length bs div 64)) bs)"
proof (cases "length bs = n")
  case False
  then have m: "min 64 n = 64" "64 \<le> length bs" "length bs < n" using assms by auto
  have "64 * (length bs div 64) = 64 + 64 * ((length bs - 64) div 64)" using m(2) by (simp add: le_div_geq)
  then show ?thesis using m by (simp add: take_add)
qed auto

text \<open>One round of the loop: the next chunk of the text is sent whole, or the copy faults in it.\<close>

definition printing :: "('d \<Rightarrow> bool) \<Rightarrow> u64 \<Rightarrow> u64 \<Rightarrow> u64 \<Rightarrow> ('v, 'x, 't, 'c, 'd) sys \<Rightarrow> u8 list \<Rightarrow> bool" where
  "printing dlab ubuf off count s bs \<longleftrightarrow> \<not> dlab (sy_hw s) \<and> CURRENT (sy_kernel s) \<noteq> None
     \<and> unat ubuf + unat off + unat count \<le> 2 ^ 47 \<and> reads s (ubuf + off) (unat count) bs"

lemma print_chunk:
  fixes count :: u64 and bs :: "u8 list"
  defines "m \<equiv> min 64 (unat count)"
  assumes U: "uart_laws (cpu_ports (en_cpu E)) busy dlab sent" and F: "en_fixup E \<noteq> 0"
    and P: "printing dlab ubuf off count s bs" and C: "count \<noteq> 0"
  shows "if length bs < m then console_print_loop E ubuf count off s = Some (- EFAULT, set_fixup 0 s)
    else \<exists>nr d. unat nr = m \<and> sent d = sent (sy_hw s) @ map cr_to_lf (take m bs)
      \<and> console_print_loop E ubuf count off s = console_print_loop E ubuf (count - nr) (off + nr) ((set_fixup 0 s)\<lparr>sy_hw := d\<rparr>)
      \<and> printing dlab ubuf (off + nr) (count - nr) ((set_fixup 0 s)\<lparr>sy_hw := d\<rparr>) (drop m bs)"
proof -
  define nr where "nr = (if BUF_SIZE < count then BUF_SIZE else count)"
  have nr: "unat nr = m" and m: "m \<le> unat count" "m \<le> 64" by (simp_all add: nr_def chunk_size m_def)
  obtain p where p: "\<not> dlab (sy_hw s)" "CURRENT (sy_kernel s) = Some p" "unat ubuf + unat off + unat count \<le> 2 ^ 47"
    "reads s (ubuf + off) (unat count) bs" using P by (auto simp: printing_def)
  have off: "unat (ubuf + off) = unat ubuf + unat off" using p(3) by (intro unat_add_no_wrap) simp
  define buf where "buf = take m bs @ drop (length (take m bs)) (replicate (unat BUF_SIZE) 0)"
  have copy: "memcpy_from_user E (replicate (unat BUF_SIZE) 0) (ubuf + off) nr s =
      Some (if length (take m bs) < m then - EFAULT else 0, buf, set_fixup 0 s)"
    unfolding buf_def nr [symmetric] using p nr m off F
    by (intro memcpy_from_user_reads) (auto simp: BUF_SIZE_def intro: reads_take)
  note loop = console_print_loop.simps [of E ubuf count off s, folded nr_def]
  show ?thesis
  proof (cases "length bs < m")
    case True
    then show ?thesis using C copy m by (subst loop) (simp add: EFAULT_def)
  next
    case T: False
    have b: "length buf = 64" "take m buf = take m bs" using T m(2) by (simp_all add: buf_def BUF_SIZE_def)
    obtain d where d: "console_write (cpu_ports (en_cpu E)) buf nr (sy_hw s) = Some d" "\<not> dlab d"
        "sent d = sent (sy_hw s) @ map cr_to_lf (take m bs)"
      using console_write_sends [OF U p(1), of nr buf] nr b m(2) by auto
    have step: "console_print_loop E ubuf count off s = console_print_loop E ubuf (count - nr) (off + nr) ((set_fixup 0 s)\<lparr>sy_hw := d\<rparr>)"
      using C copy T d(1) by (subst loop) simp
    have rest: "unat (count - nr) = unat count - m" using nr m(1) by (simp add: unat_sub word_le_nat_alt)
    have shift: "ubuf + (off + nr) = ubuf + off + of_nat m" by (simp add: add.assoc flip: nr)
    have u: "user_rd ((set_fixup 0 s)\<lparr>sy_hw := d\<rparr>) = user_rd s" by (rule user_rd_cong) simp_all
    have "reads ((set_fixup 0 s)\<lparr>sy_hw := d\<rparr>) (ubuf + (off + nr)) (unat (count - nr)) (drop m bs)"
      using reads_drop [OF p(4), of m] T unfolding rest shift reads_cong [OF u] by simp
    then have "printing dlab ubuf (off + nr) (count - nr) ((set_fixup 0 s)\<lparr>sy_hw := d\<rparr>) (drop m bs)"
      using p d(2) m nr rest by (simp add: printing_def unat_add_no_wrap [of off nr])
    then show ?thesis using T nr d(3) step by auto
  qed
qed

lemma print_loop:
  assumes U: "uart_laws (cpu_ports (en_cpu E)) busy dlab sent" and F: "en_fixup E \<noteq> 0"
  shows "printing dlab ubuf off count s bs \<Longrightarrow>
    \<exists>s'. console_print_loop E ubuf count off s = Some (if length bs = unat count then sint (off + count) else - EFAULT, s')
      \<and> sent (sy_hw s') = sent (sy_hw s) @ map cr_to_lf (if length bs = unat count then bs else take (64 * (length bs div 64)) bs)
      \<and> sy_mm s' = sy_mm s \<and> sy_phys s' = sy_phys s"
proof (induction "unat count" arbitrary: count off s bs rule: less_induct)
  case less
  define m where "m = min 64 (unat count)"
  have l: "length bs \<le> unat count" using less.prems by (simp add: printing_def reads_def)
  consider (z) "count = 0" | (f) "count \<noteq> 0" "length bs < m" | (c) "count \<noteq> 0" "m \<le> length bs" by fastforce
  then show ?case
  proof cases
    case z
    then show ?thesis using l by (simp add: console_print_loop.simps)
  next
    case f
    then show ?thesis using print_chunk [OF U F less.prems f(1), folded m_def] by (auto simp: m_def)
  next
    case c
    obtain nr d where nr: "unat nr = m" and d: "sent d = sent (sy_hw s) @ map cr_to_lf (take m bs)"
        "console_print_loop E ubuf count off s = console_print_loop E ubuf (count - nr) (off + nr) ((set_fixup 0 s)\<lparr>sy_hw := d\<rparr>)"
        "printing dlab ubuf (off + nr) (count - nr) ((set_fixup 0 s)\<lparr>sy_hw := d\<rparr>) (drop m bs)"
      using print_chunk [OF U F less.prems c(1), folded m_def] c(2) by auto
    have rest: "unat (count - nr) = unat count - m" using nr by (simp add: m_def unat_sub word_le_nat_alt)
    then have "unat (count - nr) < unat count" using c(1) by (simp add: m_def unat_gt_0)
    from less.hyps [OF this d(3)] obtain s' where s': "console_print_loop E ubuf (count - nr) (off + nr) ((set_fixup 0 s)\<lparr>sy_hw := d\<rparr>) =
          Some (if length (drop m bs) = unat count - m then sint (off + count) else - EFAULT, s')"
        "sent (sy_hw s') = sent d @ map cr_to_lf (if length (drop m bs) = unat count - m then drop m bs
            else take (64 * (length (drop m bs) div 64)) (drop m bs))"
        "sy_mm s' = sy_mm s" "sy_phys s' = sy_phys s"
      unfolding rest by auto
    have "length (drop m bs) = unat count - m \<longleftrightarrow> length bs = unat count" using c(2) by (auto simp: m_def)
    moreover have "sent (sy_hw s') = sent (sy_hw s) @ map cr_to_lf (if length bs = unat count then bs else take (64 * (length bs div 64)) bs)"
      using chunk_text [of bs "unat count", folded m_def] l c(2) s'(2) d(1) by (simp flip: map_append)
    ultimately show ?thesis using s' d(2) by auto
  qed
qed

subsection \<open>The calls as the user library makes them\<close>

lemma number_of_call [simp]:
  "ucast (1 :: u64) = (1 :: u32)" "ucast (2 :: u64) = (2 :: u32)" "ucast (3 :: u64) = (3 :: u32)" "ucast (4 :: u64) = (4 :: u32)"
  "ucast (5 :: u64) = (5 :: u32)" "ucast (7 :: u64) = (7 :: u32)" "ucast (8 :: u64) = (8 :: u32)" "ucast (9 :: u64) = (9 :: u32)"
  by code_simp+

lemma efault_results [simp]:
  "sint (- word_of_int EFAULT :: u64) = - EFAULT" "c_int_of_size (- word_of_int EFAULT) = - EFAULT" "c_int_of_size 0 = 0"
  by code_simp+

definition as_int :: "('d + int \<times> 's) option \<Rightarrow> ('d + int \<times> 's) option" where
  "as_int r = map_option (map_sum id (map_prod (\<lambda>ret. c_int_of_size (word_of_int ret)) id)) r"

lemma as_int_simps [simp]:
  "as_int None = None" "as_int (Some (Inl d)) = Some (Inl d)" "as_int (Some (Inr (r, s))) = Some (Inr (c_int_of_size (word_of_int r), s))"
  by (simp_all add: as_int_def)

text \<open>A wrapper is its system call, with the result cut to the wrapper's type.\<close>

lemmas user_defs = user_console_print_def user_subscribe_def user_acquire_def user_vmspace_alloc_def user_getevents_def
  user_get_config_def user_wait_def syscall0_def syscall1_def syscall2_def syscall4_def syscall_ret_def syscall_entry_def
  syscall_insn_def syscall_def int_ret_def as_int_def

lemma ucast_of_int: "ucast (word_of_int i :: u64) = (word_of_int i :: u32)"
  by transfer simp

lemma user_calls:
  "user_console_print E u a n s = map_option (map_sum id (map_prod (\<lambda>ret. sint (word_of_int ret :: u64)) id)) (sys_console_print E a n s)"
  "user_subscribe E u a s = as_int (sys_subscribe E (fst (us_junk u)) (snd (us_junk u)) a s)"
  "user_acquire E u a flags s = as_int (sys_acquire E a (word_of_int flags) s)"
  "user_vmspace_alloc E u a n s = as_int (sys_vmspace_alloc E a n s)"
  "user_getevents E u a s = as_int (sys_getevents E a s)"
  "user_get_config E u desc opt buf len s = as_int (sys_get_config E (word_of_int desc) (word_of_int opt) buf (us_rip u) s)"
  "user_wait E u s = as_int (sys_wait E s)"
  by (simp_all add: user_defs ucast_of_int split: option.split sum.split prod.split)

text \<open>C19: \<open>console_print\<close> of the user library, down to the serial port, for a buffer that ends below 2^47. When all
  bytes can be read the call returns their number and the port has sent them in order, every carriage return as a line feed
  and every other byte as it is. When the text runs into an unmapped address, the call returns \<open>- EFAULT\<close>, and what was sent
  are the whole chunks of 64 bytes before that address. Memory and page tables are unchanged.\<close>

theorem console_print_sends:
  assumes "uart_laws (cpu_ports (en_cpu E)) busy dlab sent" and "\<not> dlab (sy_hw s)" and "en_fixup E \<noteq> 0"
    and "CURRENT (sy_kernel s) = Some p" and "unat ubuf + unat count \<le> 2 ^ 47" and "reads s ubuf (unat count) bs"
  shows "\<exists>s'. user_console_print E u ubuf count s = Some (Inr (if length bs = unat count then sint count else - EFAULT, s'))
    \<and> sent (sy_hw s') = sent (sy_hw s) @ map cr_to_lf (if length bs = unat count then bs else take (64 * (length bs div 64)) bs)
    \<and> sy_mm s' = sy_mm s \<and> sy_phys s' = sy_phys s"
proof -
  have "printing dlab ubuf 0 count s bs" using assms by (simp add: printing_def)
  from print_loop [OF assms(1,3) this] show ?thesis
    by (auto simp: user_calls sys_console_print_def)
qed

lemma copies_refuse:
  assumes "KERNEL_VMA \<le> a"
  shows "memcpy_from_user E buf a n s = Some (- EFAULT, buf, s)" and "strncpy_from_user E buf a n s = Some (- EFAULT, buf, s)"
  using assms by (simp_all add: memcpy_from_user_def strncpy_from_user_def)

text \<open>The physical memory with \<open>bs\<close> at \<open>q\<close>.\<close>

definition put_phys :: "u64 \<Rightarrow> u8 list \<Rightarrow> (u64 \<Rightarrow> u8) \<Rightarrow> u64 \<Rightarrow> u8" where
  "put_phys q bs m = (\<lambda>a. if unat (a - q) < length bs then bs ! unat (a - q) else m a)"

lemma put_phys_Cons:
  assumes "length bs < 2 ^ 64 - 1"
  shows "put_phys (q + 1) bs (m(q := b)) = put_phys q (b # bs) m"
proof
  fix a
  show "put_phys (q + 1) bs (m(q := b)) a = put_phys q (b # bs) m a"
  proof (cases "a = q")
    case True
    have "unat (- 1 :: u64) = 2 ^ 64 - 1" by (simp add: unsigned_minus_1_eq_mask mask_eq_exp_minus_1)
    then show ?thesis using True assms by (simp add: put_phys_def)
  next
    case False
    then have "unat (a - q) \<noteq> 0" by (simp add: unat_eq_0)
    moreover have "unat (a - (q + 1)) = unat (a - q) - 1" using False unat_minus_one [of "a - q"] by (simp add: diff_diff_eq)
    ultimately show ?thesis using False by (auto simp: put_phys_def nth_Cons')
  qed
qed

text \<open>Stores to consecutive bytes, each translated to the consecutive physical byte.\<close>

lemma movsb_to_all:
  "i + n \<le> length buf \<Longrightarrow> n < 2 ^ 63 \<Longrightarrow> \<forall>k < n. canonical (dest + of_nat k) \<and> user_paddr s (dest + of_nat k) = Some (q + of_nat k) \<Longrightarrow>
   movsb_to buf i dest n s = Some (False, s\<lparr>sy_phys := put_phys q (take n (drop i buf)) (sy_phys s)\<rparr>)"
proof (induction n arbitrary: i dest q s)
  case 0
  then show ?case by (simp add: put_phys_def)
next
  case (Suc n)
  let ?s = "s\<lparr>sy_phys := (sy_phys s)(q := buf ! i)\<rparr>"
  have 0: "canonical dest" "user_paddr s dest = Some q" using Suc.prems(3) by (auto dest: spec [of _ 0])
  have "user_paddr ?s = user_paddr s" by (rule ext) (simp add: user_paddr_def)
  moreover have "\<forall>k < n. canonical (dest + 1 + of_nat k) \<and> user_paddr s (dest + 1 + of_nat k) = Some (q + 1 + of_nat k)"
  proof (intro allI impI)
    fix k assume "k < n"
    then show "canonical (dest + 1 + of_nat k) \<and> user_paddr s (dest + 1 + of_nat k) = Some (q + 1 + of_nat k)"
      using Suc.prems(3) [rule_format, of "Suc k"] by (simp add: add.assoc)
  qed
  ultimately have "movsb_to buf (Suc i) (dest + 1) n ?s =
      Some (False, ?s\<lparr>sy_phys := put_phys (q + 1) (take n (drop (Suc i) buf)) (sy_phys ?s)\<rparr>)"
    using Suc.prems(1,2) by (intro Suc.IH) simp_all
  moreover have "put_phys (q + 1) (take n (drop (Suc i) buf)) (sy_phys ?s) = put_phys q (take (Suc n) (drop i buf)) (sy_phys s)"
    using Suc.prems(1,2) by (simp add: put_phys_Cons drop_eq_nth_Cons)
  ultimately show ?case using Suc.prems(1) 0 by (simp add: user_wr_def rd_ok)
qed

text \<open>C20: a pointer into the kernel. The calls that copy from user space refuse it with \<open>- EFAULT\<close> and
  change nothing. \<open>getevents\<close> does not look at it: the address of the event queue is stored there,
  whatever the eight bytes are in the kernel, and the call succeeds.\<close>

theorem kernel_pointers:
  assumes "KERNEL_VMA \<le> a"
  shows "(count \<noteq> 0 \<longrightarrow> user_console_print E u a count s = Some (Inr (- EFAULT, s)))
    \<and> user_subscribe E u a s = Some (Inr (- EFAULT, s))
    \<and> user_acquire E u a flags s = Some (Inr (- EFAULT, s))
    \<and> user_vmspace_alloc E u a 24 s = Some (Inr (- EFAULT, s))
    \<and> (\<forall>p q. CURRENT (sy_kernel s) = Some p \<and> unat a + 8 \<le> 2 ^ 64 \<and> (\<forall>k < 8. user_paddr s (a + of_nat k) = Some (q + of_nat k)) \<longrightarrow>
        user_getevents E u a s = Some (Inr (0, s\<lparr>sy_phys := put_phys q (enc64 (pr_events (procs (sy_kernel s) p))) (sy_phys s)\<rparr>)))"
proof (intro conjI impI allI)
  have e: "- EFAULT < 0" by (simp add: EFAULT_def)
  have "count \<noteq> 0 \<Longrightarrow> console_print_loop E a count 0 s = Some (- EFAULT, s)"
    using e by (subst console_print_loop.simps) (simp add: copies_refuse [OF assms])
  then show "count \<noteq> 0 \<Longrightarrow> user_console_print E u a count s = Some (Inr (- EFAULT, s))"
    by (simp add: user_calls sys_console_print_def)
  show "user_subscribe E u a s = Some (Inr (- EFAULT, s))" "user_acquire E u a flags s = Some (Inr (- EFAULT, s))"
    "user_vmspace_alloc E u a 24 s = Some (Inr (- EFAULT, s))"
    using e by (simp_all add: copies_refuse [OF assms] sys_subscribe_def sys_acquire_def sys_vmspace_alloc_def user_calls)
next
  fix p q
  assume A: "CURRENT (sy_kernel s) = Some p \<and> unat a + 8 \<le> 2 ^ 64 \<and> (\<forall>k < 8. user_paddr s (a + of_nat k) = Some (q + of_nat k))"
  have "canonical (a + of_nat k)" if "k < 8" for k
  proof -
    have "unat (a + of_nat k) = unat a + k" using that A by (subst unat_add_no_wrap) (simp_all add: unat_of_nat64)
    then show ?thesis using assms by (simp add: canonical_def KERNEL_VMA_def word_le_nat_alt)
  qed
  then have "movsb_to (enc64 (pr_events (procs (sy_kernel s) p))) 0 a 8 s =
      Some (False, s\<lparr>sy_phys := put_phys q (enc64 (pr_events (procs (sy_kernel s) p))) (sy_phys s)\<rparr>)"
    using movsb_to_all [of 0 8 "enc64 (pr_events (procs (sy_kernel s) p))" a s q] A by (simp add: length_enc)
  then show "user_getevents E u a s = Some (Inr (0, s\<lparr>sy_phys := put_phys q (enc64 (pr_events (procs (sy_kernel s) p))) (sy_phys s)\<rparr>))"
    using A by (simp add: sys_getevents_def process_getevents_def get_current_def user_calls)
qed

text \<open>\<open>get_config\<close> of the user library. The kernel takes the length from \<open>rcx\<close>, where the
  \<open>syscall\<close> instruction has put the return address, so the length the caller gave is lost: the
  whole value is stored at \<open>buf\<close>, also when the caller's buffer is shorter.\<close>

lemma get_config_ignores_length:
  assumes "CURRENT (sy_kernel s) = Some p" and "0 \<le> desc" and "desc < 2 ^ 31" and "0 \<le> opt" and "opt < 2 ^ 31"
    and "device_lookup desc (pr_devices (procs (sy_kernel s) p)) = Some (Some d)"
    and "dev_get_config (en_devices E) d opt (drivers (sy_kernel s)) = Some v"
    and "length v \<le> unat (us_rip u)" and "unat buf + length v \<le> 2 ^ 47"
    and "\<forall>k < length v. user_paddr s (buf + of_nat k) = Some (q + of_nat k)"
  shows "\<exists>s'. user_get_config E u desc opt buf len s = Some (Inr (0, s')) \<and> sy_phys s' = put_phys q v (sy_phys s)"
proof -
  have i: "sint (word_of_int desc :: u32) = desc" "sint (word_of_int opt :: u32) = opt"
    using assms(2-5) by (simp_all add: signed_of_int signed_take_bit_int_eq_self)
  have v: "length v < 2 ^ 63" using assms(9) by simp
  have "canonical (buf + of_nat k)" if "k < length v" for k
    using that assms(9) by (intro low_canonical) (simp add: unat_add_no_wrap unat_of_nat64)
  then have "movsb_to v 0 buf (length v) (set_fixup (en_fixup E) s) =
      Some (False, (set_fixup (en_fixup E) s)\<lparr>sy_phys := put_phys q v (sy_phys s)\<rparr>)"
    using movsb_to_all [of 0 "length v" v buf "set_fixup (en_fixup E) s" q] assms(10) v by (simp add: user_paddr_def)
  moreover have "\<not> KERNEL_VMA \<le> buf" using assms(9) by (simp add: KERNEL_VMA_def word_le_nat_alt)
  ultimately have "memcpy_to_user E buf v (of_nat (length v)) s =
      Some (0, set_fixup 0 ((set_fixup (en_fixup E) s)\<lparr>sy_phys := put_phys q v (sy_phys s)\<rparr>))"
    using v by (simp add: memcpy_to_user_def memcpy_user_safe_to_def unat_of_nat64)
  then have "process_get_config E desc opt buf (us_rip u) s =
      Some (0, set_fixup 0 ((set_fixup (en_fixup E) s)\<lparr>sy_phys := put_phys q v (sy_phys s)\<rparr>))"
    using assms(1,6,7,8) by (simp add: process_get_config_def get_current_def min_absorb2)
  then show ?thesis by (simp add: user_calls sys_get_config_def i)
qed

subsection \<open>The scheduler's state\<close>

definition sched_view :: "('v, 'x) kernel \<Rightarrow> nat option \<times> nat list \<times> nat list \<times> (nat \<Rightarrow> ProcessState)" where
  "sched_view k = (CURRENT k, RUNQUEUE k, WAITQUEUE k, \<lambda>p. pr_state (procs k p))"

lemma sched_view_inv: "sched_view k' = sched_view k \<Longrightarrow> sched_inv P k' = sched_inv P k"
  by (simp add: sched_view_def sched_inv_def current_list_def fun_eq_iff)

lemma sched_view_update [simp]:
  "(\<And>pr. pr_state (f pr) = pr_state pr) \<Longrightarrow> sched_view (update_proc p f k) = sched_view k"
  "sched_view (drivers_update g k) = sched_view k"
  by (simp_all add: sched_view_def update_proc_def fun_eq_iff)

lemma sched_view_fixup [simp]: "sched_view (sy_kernel (set_fixup a s)) = sched_view (sy_kernel s)"
  by (simp add: set_fixup_def page_fault_set_fixup_def split: option.split)

lemma movsb_to_kernel: "movsb_to buf i dest n s = Some (f, s') \<Longrightarrow> sy_kernel s' = sy_kernel s"
proof (induction n arbitrary: i dest s)
  case (Suc n)
  then obtain b where "rd buf i = Some b" "canonical dest" by (auto split: if_splits bind_splits)
  then show ?case using Suc by (cases "user_wr s dest b") (force simp: user_wr_def)+
qed simp

lemma fixup_view: "memcpy_user_fixup E s = Some (e, s') \<Longrightarrow> sched_view (sy_kernel s') = sched_view (sy_kernel s)"
  by (auto simp: memcpy_user_fixup_def split: option.splits sum.splits if_splits)

lemma copies_view:
  "memcpy_from_user E buf a n s = Some (e, buf', s') \<Longrightarrow> sched_view (sy_kernel s') = sched_view (sy_kernel s)"
  "strncpy_from_user E buf a n s = Some (e, buf', s') \<Longrightarrow> sched_view (sy_kernel s') = sched_view (sy_kernel s)"
  "memcpy_to_user E a buf n s = Some (e, s') \<Longrightarrow> sched_view (sy_kernel s') = sched_view (sy_kernel s)"
  by (auto simp: memcpy_from_user_def memcpy_user_safe_from_def strncpy_from_user_def raw_strncpy_from_user_def Let_def
      memcpy_to_user_def memcpy_user_safe_to_def dest!: fixup_view movsb_to_kernel split: if_splits bind_splits prod.splits)

lemma print_loop_view:
  "console_print_loop E ubuf count off s = Some (r, s') \<Longrightarrow> sched_view (sy_kernel s') = sched_view (sy_kernel s)"
proof (induction "unat count" arbitrary: count off s rule: less_induct)
  case less
  define nr where "nr = (if BUF_SIZE < count then BUF_SIZE else count)"
  note loop = console_print_loop.simps [of E ubuf count off s, folded nr_def]
  show ?case
  proof (cases "count = 0")
    case True
    then show ?thesis using less.prems loop by simp
  next
    case False
    obtain e buf s1 where c: "memcpy_from_user E (replicate (unat BUF_SIZE) 0) (ubuf + off) nr s = Some (e, buf, s1)"
      using less.prems False by (subst (asm) loop) (auto simp: Let_def split: option.splits)
    note v = copies_view(1) [OF c]
    show ?thesis
    proof (cases "e < 0")
      case True
      then show ?thesis using less.prems False c v by (subst (asm) loop) simp
    next
      case e: False
      obtain d where "console_print_loop E ubuf (count - nr) (off + nr) (s1\<lparr>sy_hw := d\<rparr>) = Some (r, s')"
        using less.prems False c e by (subst (asm) loop) (auto split: option.splits)
      from less.hyps [OF _ this] show ?thesis using v chunk_decreases [OF False] by (simp add: nr_def)
    qed
  qed
qed

text \<open>No call but \<open>wait\<close> and \<open>exit\<close> touches the queues, the current process or a process state.\<close>

lemma calls_view:
  "sys_subscribe E ea ev a s = Some (Inr (r, s')) \<Longrightarrow> sched_view (sy_kernel s') = sched_view (sy_kernel s)"
  "sys_getevents E a s = Some (Inr (r, s')) \<Longrightarrow> sched_view (sy_kernel s') = sched_view (sy_kernel s)"
  "sys_acquire E a flags s = Some (Inr (r, s')) \<Longrightarrow> sched_view (sy_kernel s') = sched_view (sy_kernel s)"
  "sys_get_config E w opt a n s = Some (Inr (r, s')) \<Longrightarrow> sched_view (sy_kernel s') = sched_view (sy_kernel s)"
  "sys_vmspace_alloc E a n s = Some (Inr (r, s')) \<Longrightarrow> sched_view (sy_kernel s') = sched_view (sy_kernel s)"
proof -
  show "sys_subscribe E ea ev a s = Some (Inr (r, s')) \<Longrightarrow> sched_view (sy_kernel s') = sched_view (sy_kernel s)"
    by (auto simp: sys_subscribe_def process_subscribe_def Let_def dest!: copies_view split: if_splits bind_splits prod.splits option.splits)
  show "sys_getevents E a s = Some (Inr (r, s')) \<Longrightarrow> sched_view (sy_kernel s') = sched_view (sy_kernel s)"
    by (auto simp: sys_getevents_def dest!: movsb_to_kernel split: if_splits bind_splits prod.splits option.splits sum.splits)
  have acq: "sched_view (sy_kernel s') = sched_view (sy_kernel s)" if "process_acquire E name s = Some (r, s')" for name s
    using that by (auto simp: process_acquire_def Let_def split: bind_splits prod.splits option.splits)
  show "sys_acquire E a flags s = Some (Inr (r, s')) \<Longrightarrow> sched_view (sy_kernel s') = sched_view (sy_kernel s)"
    by (auto simp: sys_acquire_def dest!: copies_view acq split: if_splits bind_splits prod.splits)
  show "sys_get_config E w opt a n s = Some (Inr (r, s')) \<Longrightarrow> sched_view (sy_kernel s') = sched_view (sy_kernel s)"
    by (auto simp: sys_get_config_def process_get_config_def Let_def dest!: copies_view split: bind_splits prod.splits option.splits)
  show "sys_vmspace_alloc E a n s = Some (Inr (r, s')) \<Longrightarrow> sched_view (sy_kernel s') = sched_view (sy_kernel s)"
    by (auto simp: sys_vmspace_alloc_def Let_def dest!: copies_view split: if_splits bind_splits prod.splits)
qed

text \<open>C37: a system call that returns keeps the scheduler well-formed, whatever its number and
  arguments: every process is still in exactly one place, with the state that goes with it. Only
  \<open>wait\<close> moves processes: the caller to the end of the wait queue, and the first runnable process to
  the processor.\<close>

theorem syscall_keeps_scheduler:
  assumes "sched_inv P (sy_kernel s)" and "CURRENT (sy_kernel s) = Some p"
    and "syscall E junk nr a0 a1 a2 a3 s = Some (Inr (ret, s'))"
  shows "sched_inv P (sy_kernel s')
    \<and> (if nr = 2 then ret = 0 \<and> WAITQUEUE (sy_kernel s') = WAITQUEUE (sy_kernel s) @ [p]
            \<and> current_list (sy_kernel s') @ RUNQUEUE (sy_kernel s') = RUNQUEUE (sy_kernel s)
         else sched_view (sy_kernel s') = sched_view (sy_kernel s))"
proof -
  have two: "sint (2 :: u32) = 2" by simp
  have view: "sched_view (sy_kernel s') = sched_view (sy_kernel s)" if "nr \<noteq> 2"
  proof -
    have "sint nr \<noteq> 2" using that signed_word_eqI [of nr 2] two by metis
    then show ?thesis using assms(3)
      by (auto simp: syscall_def Let_def sys_exit_def panic_halt_def sys_console_print_def dest: calls_view print_loop_view split: if_splits)
  qed
  have wait: "ret = 0 \<and> sched_inv P (sy_kernel s') \<and> WAITQUEUE (sy_kernel s') = WAITQUEUE (sy_kernel s) @ [p]
      \<and> current_list (sy_kernel s') @ RUNQUEUE (sy_kernel s') = RUNQUEUE (sy_kernel s)" if n: "nr = 2"
  proof -
    obtain sw k mm where w: "process_wait (en_devices E) (en_idle_task E) (sy_kernel s) (sy_mm s) = Some (sw, k, mm)" "ret = 0" "sy_kernel s' = k"
      using assms(3) n by (auto simp: syscall_def sys_wait_def split: bind_splits)
    then obtain kd where "process_io (en_devices E) (sy_kernel s) = Some kd" using wait_returns by blast
    from wait_inv [OF assms(1,2) this, of "en_idle_task E" "sy_mm s"] w show ?thesis
      by (cases "RUNQUEUE (sy_kernel s)") (auto simp: current_list_def)
  qed
  have "sched_inv P (sy_kernel s')" using view wait sched_view_inv assms(1) by metis
  then show ?thesis using view wait by simp
qed

subsection \<open>A machine to run the calls on\<close>

definition env_example :: "(VMRegion list, unit, MemorySegment list, MemorySegment list \<times> nat option, bool \<times> u8 list) env" where
  "env_example = \<lparr>en_cpu = cpu_example,
     en_devices = \<lparr>dev_subscribe = \<lambda>_ _. Some, dev_get_config = \<lambda>_ _ _. Some [1, 2, 3, 4, 5, 6], dev_process_io = \<lambda>_. Some\<rparr>,
     en_dev_acquire = \<lambda>_ _ vs mm x. Some (Inr (), vs, mm, x), en_fixup = 0xffffffff80100000, en_idle_task = 0x900\<rparr>"

text \<open>One page is mapped to the frame at \<open>0x5000\<close>, which ends with \<open>Hi\<close>.\<close>

definition sys_example :: "virt_t \<Rightarrow> (VMRegion list, unit, MemorySegment list, MemorySegment list \<times> nat option, bool \<times> u8 list) sys" where
  "sys_example v = \<lparr>sy_kernel = sched_example\<lparr>CURRENT := Some 1, procs := \<lambda>p. (procs sched_example p)\<lparr>pr_state := RUNNING, pr_devices := [0]\<rparr>\<rparr>,
     sy_mm = snd (the (mmu_map_small_page \<lparr>cr3 = 0x1000\<rparr> v 0x5000 MMU_PROT_WRITE MMU_USER_PAGE mmu_example)),
     sy_phys = (\<lambda>a. if a = 0x5ffe then 72 else if a = 0x5fff then 105 else 0), sy_hw = (False, [])\<rparr>"

definition user_example :: user where
  "user_example = \<lparr>us_rip = 0x400123, us_rflags = 0x202, us_regs = \<lparr>r_rax = 0, r_rdi = 0, r_rsi = 0, r_rdx = 0, r_rcx = 0,
     r_r8 = 0, r_r9 = 0, r_r10 = 0, r_r11 = 0\<rparr>, us_junk = (0, [])\<rparr>"

lemma sys_example_walk:
  assumes "map_option fst (mmu_map_small_page \<lparr>cr3 = 0x1000\<rparr> v 0x5000 MMU_PROT_WRITE MMU_USER_PAGE mmu_example) = Some 0"
  shows "mmu_walk (sy_mm (sys_example v)) \<lparr>cr3 = 0x1000\<rparr> v' = (if vpos v' div 4096 = vpos v div 4096 then Some (0, 0x8000000000005007) else None)"
proof -
  have "mmu_walk mmu_example \<lparr>cr3 = 0x1000\<rparr> v' = None"
    by (simp add: mmu_walk_def mmu_example_def pg_entry_def numeral_3_eq_3 pg_walk.simps)
  moreover have "small_entry MMU_PROT_WRITE MMU_USER_PAGE 0x5000 = 0x8000000000005007" by code_simp
  ultimately show ?thesis
    using small_mapper [of MMU_PROT_WRITE MMU_USER_PAGE "\<lparr>cr3 = 0x1000\<rparr>", unfolded page_mapper_def, rule_format, OF mmu_example_inv, of v "0x5000"]
      assms
    by (auto simp: page_no_vpos sys_example_def ENOMEM_def EINVAL_def)
qed

lemma sys_example_paddr:
  "user_paddr (sys_example 0x400000) v = (if vpos v div 4096 = 0x400 then Some (0x5000 + of_nat (vpos v mod 4096)) else None)"
  "user_paddr (sys_example 0xffffffff80200000) v = (if vpos v div 4096 = 0xffff80200 then Some (0x5000 + of_nat (vpos v mod 4096)) else None)"
proof -
  have c: "mmu_current_map (sy_mm (sys_example 0x400000)) = \<lparr>cr3 = 0x1000\<rparr>" "mmu_current_map (sy_mm (sys_example 0xffffffff80200000)) = \<lparr>cr3 = 0x1000\<rparr>"
    by code_simp+
  have "map_option fst (mmu_map_small_page \<lparr>cr3 = 0x1000\<rparr> 0xffffffff80200000 0x5000 MMU_PROT_WRITE MMU_USER_PAGE mmu_example) = Some 0"
    by code_simp
  note w = sys_example_walk [OF mmu_example_returns(1)] sys_example_walk [OF this]
  show "user_paddr (sys_example 0x400000) v = (if vpos v div 4096 = 0x400 then Some (0x5000 + of_nat (vpos v mod 4096)) else None)"
    by (simp add: user_paddr_def c mmu_translate_def w(1)) (simp add: vpos_def)
  show "user_paddr (sys_example 0xffffffff80200000) v = (if vpos v div 4096 = 0xffff80200 then Some (0x5000 + of_nat (vpos v mod 4096)) else None)"
    by (simp add: user_paddr_def c mmu_translate_def w(2)) (simp add: vpos_def)
qed

lemma all_below_8: "(\<forall>k < 8 :: nat. Q k) \<longleftrightarrow> Q 0 \<and> Q 1 \<and> Q 2 \<and> Q 3 \<and> Q 4 \<and> Q 5 \<and> Q 6 \<and> Q 7"
  by (auto simp: numeral_eq_Suc All_less_Suc)

theorem console_print_sends_witness:
  "(\<exists>s'. user_console_print env_example user_example 0x400ffe 2 (sys_example 0x400000) = Some (Inr (2, s')) \<and> snd (sy_hw s') = [72, 105])
   \<and> (\<exists>s'. user_console_print env_example user_example 0x400ffe 3 (sys_example 0x400000) = Some (Inr (- EFAULT, s')) \<and> snd (sy_hw s') = [])"
proof -
  let ?s = "sys_example 0x400000"
  have rd: "user_rd ?s 0x400ffe = Some 72" "user_rd ?s 0x400fff = Some 105" "user_rd ?s 0x401000 = None"
    unfolding user_rd_def sys_example_paddr by (simp_all add: vpos_def) (simp_all add: sys_example_def)
  have r: "reads ?s 0x400ffe 2 [72, 105]" "reads ?s 0x400ffe 3 [72, 105]"
    using rd by (auto simp: reads_def less_Suc_eq)
  have s: "cpu_ports (en_cpu env_example) = uart_example" "\<not> fst (sy_hw ?s)" "snd (sy_hw ?s) = []" "en_fixup env_example \<noteq> 0" "CURRENT (sy_kernel ?s) = Some 1"
    by (simp_all add: env_example_def cpu_example_def sys_example_def)
  note t = console_print_sends [of env_example "\<lambda>_. 0" fst snd ?s 1 _ _ "[72, 105]" user_example, unfolded s(1), OF uart_example_laws s(2,4,5)]
  show ?thesis using t [of "0x400ffe" 2] t [of "0x400ffe" 3] r s(3) by (auto simp: cr_to_lf_def)
qed

theorem kernel_pointers_witness:
  "user_acquire env_example user_example 0xffffffff80000000 0 (sys_example 0x400000) = Some (Inr (- EFAULT, sys_example 0x400000))
   \<and> (\<exists>s'. user_getevents env_example user_example 0xffffffff80200000 (sys_example 0xffffffff80200000) = Some (Inr (0, s')))"
proof -
  let ?a = "0xffffffff80200000 :: u64" and ?s = "sys_example 0xffffffff80200000"
  have "\<forall>k < 8. user_paddr ?s (?a + of_nat k) = Some (0x5000 + of_nat k)"
    unfolding all_below_8 sys_example_paddr by (simp add: vpos_def)
  moreover have "CURRENT (sy_kernel ?s) = Some 1" by (simp add: sys_example_def)
  moreover have "KERNEL_VMA \<le> ?a" "KERNEL_VMA \<le> 0xffffffff80000000" by (simp_all add: KERNEL_VMA_def)
  ultimately show ?thesis
    using kernel_pointers [of ?a 0 env_example user_example ?s] kernel_pointers [of "0xffffffff80000000" 0 env_example user_example "sys_example 0x400000" 0]
    by auto
qed

lemma get_config_ignores_length_example:
  "\<exists>s'. user_get_config env_example user_example 0 0 0x400000 4 (sys_example 0x400000) = Some (Inr (0, s'))
     \<and> map (sy_phys s') [0x5000, 0x5001, 0x5002, 0x5003, 0x5004, 0x5005] = [1, 2, 3, 4, 5, 6]"
proof -
  let ?s = "sys_example 0x400000" and ?v = "[1, 2, 3, 4, 5, 6] :: u8 list"
  have m: "\<forall>k < length ?v. user_paddr ?s (0x400000 + of_nat k) = Some (0x5000 + of_nat k)"
    unfolding sys_example_paddr by (auto simp: less_Suc_eq vpos_def)
  have d: "dev_get_config (en_devices env_example) 0 0 (drivers (sy_kernel ?s)) = Some ?v" "device_lookup 0 (pr_devices (procs (sy_kernel ?s) 1)) = Some (Some 0)"
    "length ?v \<le> unat (us_rip user_example)" "CURRENT (sy_kernel ?s) = Some 1"
    by (simp_all add: env_example_def sys_example_def device_lookup_def desc_to_idx_def rd_ok user_example_def)
  obtain s' where "user_get_config env_example user_example 0 0 0x400000 4 ?s = Some (Inr (0, s'))" "sy_phys s' = put_phys 0x5000 ?v (sy_phys ?s)"
    using get_config_ignores_length [OF d(4) _ _ _ _ d(2,1,3), of "0x400000" "0x5000" 4] m by auto
  then show ?thesis by (simp add: put_phys_def)
qed

theorem syscall_keeps_scheduler_witness:
  "\<exists>s'. syscall env_example (0, []) 9 0xffffffff80000000 24 0 0 (sys_example 0x400000) = Some (Inr (- EFAULT, s')) \<and> sched_inv {1} (sy_kernel s')"
proof -
  have "syscall env_example (0, []) 9 0xffffffff80000000 24 0 0 (sys_example 0x400000) = Some (Inr (- EFAULT, sys_example 0x400000))"
    by (simp add: syscall_def sys_vmspace_alloc_def memcpy_from_user_def KERNEL_VMA_def EFAULT_def)
  moreover have "sched_inv {1} (sy_kernel (sys_example 0x400000))" "CURRENT (sy_kernel (sys_example 0x400000)) = Some 1"
    by (simp_all add: sched_inv_def current_list_def sys_example_def sched_example_def)
  ultimately show ?thesis using syscall_keeps_scheduler by blast
qed

end
