(* ===== verification/Boot.thy ===== *)
theory Boot
  imports Exceptions Bytes MmuProofs
begin

text \<open>
  The start of the kernel on x86-64: \<^verbatim>\<open>arch/x86_64/platform.c\<close> (the data of the boot loader),
  \<^verbatim>\<open>arch/x86_64/acpi.c\<close> and \<^verbatim>\<open>arch/x86_64/setup.c\<close>. \<open>mem\<close> is the memory the boot loader and the firmware
  have filled in, \<open>symb\<close> the addresses of the linker.
\<close>

definition mem_bytes :: "(u64 \<Rightarrow> u8) \<Rightarrow> u64 \<Rightarrow> nat \<Rightarrow> u8 list" where
  "mem_bytes mem a n = map (\<lambda>k. mem (a + of_nat k)) [0..<n]"

definition mem32 :: "(u64 \<Rightarrow> u8) \<Rightarrow> u64 \<Rightarrow> u32" where
  "mem32 mem a = dec32 (mem_bytes mem a 4)"

definition mem64 :: "(u64 \<Rightarrow> u8) \<Rightarrow> u64 \<Rightarrow> u64" where
  "mem64 mem a = dec64 (mem_bytes mem a 8)"

abbreviation MAX_MEM_REGIONS :: nat where "MAX_MEM_REGIONS \<equiv> 8"

record memory_region =
  mr_base :: u64
  mr_len :: u64

record ('t, 'c, 'd) boot =
  bt_x86 :: "'d x86"
  bt_mm :: "('t, 'c) mmu_state"
  mem_regions :: "memory_region list"
  nr_mem_regions :: u64
  initrd_start :: u64
  initrd_end :: u64

text \<open>\<open>printf\<close> of the kernel, on the serial console.\<close>

definition boot_printf :: "'d cpu \<Rightarrow> string \<Rightarrow> va_slot list \<Rightarrow> ('t, 'c, 'd) boot \<Rightarrow> ('t, 'c, 'd) boot option" where
  "boot_printf C fmt ap s =
     map_option (\<lambda>(_, d). s\<lparr>bt_x86 := (bt_x86 s)\<lparr>hw := d\<rparr>\<rparr>)
       (printf (console_write_char (cpu_ports C)) (bytes_of fmt @ [0]) ap (hw (bt_x86 s)))"

subsection \<open>The tables of the firmware\<close>

abbreviation ACPI_PROCESSOR_LOCAL_APIC :: u8 where "ACPI_PROCESSOR_LOCAL_APIC \<equiv> 0"
abbreviation ACPI_IO_APIC :: u8 where "ACPI_IO_APIC \<equiv> 1"
abbreviation ACPI_INT_SOURCE_OVERRIDE :: u8 where "ACPI_INT_SOURCE_OVERRIDE \<equiv> 2"
abbreviation ACPI_LOCAL_APIC_NMI :: u8 where "ACPI_LOCAL_APIC_NMI \<equiv> 4"

abbreviation sizeof_acpi_sdt_header :: u64 where "sizeof_acpi_sdt_header \<equiv> 36"
abbreviation sizeof_acpi_madt_header :: u64 where "sizeof_acpi_madt_header \<equiv> 44"

definition acpi_read_u8 :: "(u64 \<Rightarrow> u8) \<Rightarrow> u64 \<Rightarrow> u8" where
  "acpi_read_u8 mem a = mem a"

definition acpi_read_u32 :: "(u64 \<Rightarrow> u8) \<Rightarrow> u64 \<Rightarrow> u32" where
  "acpi_read_u32 mem a = mem32 mem a"

text \<open>The loop over the entries of the table. Nothing makes it end: an entry of length zero is read
  again for ever.\<close>

partial_function (option) madt_loop ::
  "'d cpu \<Rightarrow> (u64 \<Rightarrow> u8) \<Rightarrow> u64 \<Rightarrow> u64 \<Rightarrow> u64 \<Rightarrow> u64 \<Rightarrow> ('t, 'c, 'd) boot \<Rightarrow> ('t, 'c, 'd) boot option" where
  "madt_loop C mem raw_madt madt_len off nr_cpus s =
     (if off < madt_len then
        (let type = acpi_read_u8 mem (raw_madt + off);
             len = acpi_read_u8 mem (raw_madt + off + 1)
         in if type = ACPI_PROCESSOR_LOCAL_APIC then madt_loop C mem raw_madt madt_len (off + ucast len) (nr_cpus + 1) s
            else if type = ACPI_IO_APIC \<or> type = ACPI_INT_SOURCE_OVERRIDE \<or> type = ACPI_LOCAL_APIC_NMI
            then madt_loop C mem raw_madt madt_len (off + ucast len) nr_cpus s
            else boot_printf C (''warning: unknown ACPI MADT entry: %d'' @ [CHR 0x0A]) [VaWord (ucast type)] s)
      else boot_printf C (''Found %d CPUs via ACPI MADT'' @ [CHR 0x0A]) [VaWord nr_cpus] s)"

definition acpi_parse_madt :: "'d cpu \<Rightarrow> (u64 \<Rightarrow> u8) \<Rightarrow> u64 \<Rightarrow> ('t, 'c, 'd) boot \<Rightarrow> ('t, 'c, 'd) boot option" where
  "acpi_parse_madt C mem raw_madt s =
     (if mem_bytes mem raw_madt 4 \<noteq> bytes_of ''APIC'' then boot_printf C (''ACPI MADT signature mismatch'' @ [CHR 0x0A]) [] s
      else madt_loop C mem raw_madt (ucast (mem32 mem (raw_madt + 4))) sizeof_acpi_madt_header 0 s)"

function rsdt_loop :: "'d cpu \<Rightarrow> (u64 \<Rightarrow> u8) \<Rightarrow> u64 \<Rightarrow> u32 \<Rightarrow> u64 \<Rightarrow> ('t, 'c, 'd) boot \<Rightarrow> ('t, 'c, 'd) boot option" where
  "rsdt_loop C mem rsdt_addr len off s =
     (if off < ucast len then
        (let sdt_addr = ucast (acpi_read_u32 mem (rsdt_addr + off))
         in case (if mem_bytes mem sdt_addr 4 = bytes_of ''APIC'' then acpi_parse_madt C mem sdt_addr s else Some s) of
              None \<Rightarrow> None
            | Some s \<Rightarrow> rsdt_loop C mem rsdt_addr len (off + 4) s)
      else Some s)"
  by pat_completeness auto

lemma unat_ucast_u32: "unat (ucast (n :: u32) :: u64) < 2 ^ 32"
  using unat_lt [of n] by (simp add: unsigned_ucast_eq take_bit_eq_mod)

lemma ucast_step:
  fixes off d :: u64 and n :: u32
  assumes "off < ucast n" and "0 < unat d" and "unat d \<le> 2 ^ 33"
  shows "unat (ucast n :: u64) - unat (off + d) < unat (ucast n :: u64) - unat off"
proof -
  have n: "unat (ucast n :: u64) < 2 ^ 32" by (rule unat_ucast_u32)
  moreover have "unat off < unat (ucast n :: u64)" using assms(1) by (simp add: word_less_nat_alt)
  moreover have "unat (off + d) = unat off + unat d" using n calculation assms by (intro unat_add_no_wrap) simp
  ultimately show ?thesis using assms(2) by simp
qed

termination rsdt_loop
  by (relation "measure (\<lambda>(_, _, _, len, off, _). unat (ucast len :: u64) - unat off)") (auto intro!: ucast_step)

declare rsdt_loop.simps [simp del]

definition acpi_parse_config :: "'d cpu \<Rightarrow> (u64 \<Rightarrow> u8) \<Rightarrow> u64 \<Rightarrow> ('t, 'c, 'd) boot \<Rightarrow> ('t, 'c, 'd) boot option" where
  "acpi_parse_config C mem raw_rsdp s =
     (if mem_bytes mem raw_rsdp 8 \<noteq> bytes_of ''RSD PTR '' then boot_printf C (''ACPI RSDP signature mismatch'' @ [CHR 0x0A]) [] s
      else let rsdt_addr = ucast (mem32 mem (raw_rsdp + 16))
           in if mem_bytes mem rsdt_addr 4 \<noteq> bytes_of ''RSDT'' then boot_printf C (''ACPI RSDT signature mismatch'' @ [CHR 0x0A]) [] s
              else rsdt_loop C mem rsdt_addr (mem32 mem (rsdt_addr + 4)) sizeof_acpi_sdt_header s)"

subsection \<open>The data of the boot loader\<close>

abbreviation BOOT_LOADER_NAME_TAG :: u32 where "BOOT_LOADER_NAME_TAG \<equiv> 2"
abbreviation MODULES_TAG :: u32 where "MODULES_TAG \<equiv> 3"
abbreviation MEMORY_MAP_TAG :: u32 where "MEMORY_MAP_TAG \<equiv> 6"
abbreviation ACPI_V1_RSDP_TAG :: u32 where "ACPI_V1_RSDP_TAG \<equiv> 14"
abbreviation MEMORY_TYPE_AVAILABLE :: u32 where "MEMORY_TYPE_AVAILABLE \<equiv> 1"

record memory_map_entry =
  me_base_addr :: u64
  me_length :: u64
  me_type :: u32

definition memory_map_entry_at :: "(u64 \<Rightarrow> u8) \<Rightarrow> u64 \<Rightarrow> memory_map_entry" where
  "memory_map_entry_at mem a = \<lparr>me_base_addr = mem64 mem a, me_length = mem64 mem (a + 8), me_type = mem32 mem (a + 16)\<rparr>"

text \<open>The table of names has no name at index 0: its entry is the null pointer. A string argument of
  \<open>printf\<close> is a pointer and the bytes behind it.\<close>

definition memory_types :: "u32 \<Rightarrow> string" where
  "memory_types type =
     (if type = 1 then ''available'' else if type = 2 then ''reserved'' else if type = 3 then ''ACPI reclaimable''
      else if type = 4 then ''NVS'' else if type = 5 then ''bad RAM'' else ''unknown'')"

definition memory_type_name :: "(string \<Rightarrow> u64) \<Rightarrow> u32 \<Rightarrow> va_slot" where
  "memory_type_name symb type = (if type = 0 then VaWord 0 else VaStr (symb ''memory_types'') (bytes_of (memory_types type) @ [0]))"

text \<open>The string at the end of a tag is read up to its terminator; without one inside the tag the
  code reads on, which is undefined here.\<close>

definition parse_boot_loader_name :: "'d cpu \<Rightarrow> (u64 \<Rightarrow> u8) \<Rightarrow> u32 \<Rightarrow> u64 \<Rightarrow> ('t, 'c, 'd) boot \<Rightarrow> ('t, 'c, 'd) boot option" where
  "parse_boot_loader_name C mem sz data s =
     boot_printf C (''Boot loader: '' @ [CHR 0x27] @ ''%s'' @ [CHR 0x27, CHR 0x0A]) [VaStr (data + 8) (mem_bytes mem (data + 8) (unat sz - 8))] s"

definition parse_module :: "'d cpu \<Rightarrow> (u64 \<Rightarrow> u8) \<Rightarrow> u32 \<Rightarrow> u64 \<Rightarrow> ('t, 'c, 'd) boot \<Rightarrow> ('t, 'c, 'd) boot option" where
  "parse_module C mem sz data s =
     do { let mod_start = mem32 mem (data + 8);
          let mod_end = mem32 mem (data + 12);
          s \<leftarrow> boot_printf C (''Module: %08x-%08x %s'' @ [CHR 0x0A])
                 [VaWord (ucast mod_start), VaWord (ucast mod_end), VaStr (data + 16) (mem_bytes mem (data + 16) (unat sz - 16))] s;
          Some (s\<lparr>initrd_start := paddr_to_ptr (ucast mod_start), initrd_end := paddr_to_ptr (ucast mod_end)\<rparr>) }"

text \<open>What of an available entry goes to the page allocator: the part above the kernel and the
  initial ramdisk.\<close>

definition memory_map_add :: "u64 \<Rightarrow> memory_map_entry \<Rightarrow> ('t, 'c, 'd) boot \<Rightarrow> ('t, 'c, 'd) boot" where
  "memory_map_add kernel_end e s =
     (let base_addr = me_base_addr e + KERNEL_VMA; length = me_length e
      in if base_addr + length < kernel_end then s
         else if base_addr + length < initrd_end s then s
         else let (base_addr, length) =
                    (if base_addr < kernel_end then (kernel_end, length - (kernel_end - base_addr)) else (base_addr, length));
                  (base_addr, length) =
                    (if base_addr < initrd_end s then (initrd_end s, length - (initrd_end s - base_addr)) else (base_addr, length));
                  base_addr = align_up base_addr PAGE_SIZE_SMALL;
                  length = align_down length PAGE_SIZE_SMALL
              in s\<lparr>bt_mm := (bt_mm s)\<lparr>mm_pages := memory_add_span base_addr length (mm_pages (bt_mm s))\<rparr>\<rparr>)"

definition parse_memory_map_entry ::
  "'d cpu \<Rightarrow> (string \<Rightarrow> u64) \<Rightarrow> memory_map_entry \<Rightarrow> ('t, 'c, 'd) boot \<Rightarrow> ('t, 'c, 'd) boot option" where
  "parse_memory_map_entry C symb e s =
     do { let vaddr = align_up (me_base_addr e + KERNEL_VMA) PAGE_SIZE_SMALL;
          let s = (if vaddr > kernel_vm_end (bt_mm s) then s\<lparr>bt_mm := (bt_mm s)\<lparr>kernel_vm_end := vaddr\<rparr>\<rparr> else s);
          let memory_type = memory_type_name symb (me_type e);
          s \<leftarrow> (if me_length e < 1024 * 1024
                then boot_printf C (''  %016lx-%016lx %4ld KiB [%s]'' @ [CHR 0x0A])
                       [VaWord (me_base_addr e), VaWord (me_base_addr e + me_length e), VaWord (me_length e div 1024), memory_type] s
                else boot_printf C (''  %016lx-%016lx %4ld MiB [%s]'' @ [CHR 0x0A])
                       [VaWord (me_base_addr e), VaWord (me_base_addr e + me_length e), VaWord (me_length e div 1024 div 1024), memory_type] s);
          if me_type e \<noteq> MEMORY_TYPE_AVAILABLE then Some s
          else do {
            let i = nr_mem_regions s;
            let s = s\<lparr>nr_mem_regions := i + 1\<rparr>;
            regions \<leftarrow> wr (mem_regions s) (unat i) \<lparr>mr_base = me_base_addr e, mr_len = align_down (me_length e) PAGE_SIZE_SMALL\<rparr>;
            Some (memory_map_add (symb ''_kernel_end'') e (s\<lparr>mem_regions := regions\<rparr>)) } }"

function memory_map_loop ::
  "'d cpu \<Rightarrow> (string \<Rightarrow> u64) \<Rightarrow> (u64 \<Rightarrow> u8) \<Rightarrow> u32 \<Rightarrow> u64 \<Rightarrow> u64 \<Rightarrow> ('t, 'c, 'd) boot \<Rightarrow> ('t, 'c, 'd) boot option" where
  "memory_map_loop C symb mem sz data offset s =
     (if offset < ucast sz then
        (case parse_memory_map_entry C symb (memory_map_entry_at mem (data + offset)) s of
           None \<Rightarrow> None
         | Some s \<Rightarrow> memory_map_loop C symb mem sz data (offset + 24) s)
      else Some s)"
  by pat_completeness auto
termination
  by (relation "measure (\<lambda>(_, _, _, sz, _, offset, _). unat (ucast sz :: u64) - unat offset)") (auto intro!: ucast_step)

declare memory_map_loop.simps [simp del]

definition parse_memory_map ::
  "'d cpu \<Rightarrow> (string \<Rightarrow> u64) \<Rightarrow> (u64 \<Rightarrow> u8) \<Rightarrow> u32 \<Rightarrow> u64 \<Rightarrow> ('t, 'c, 'd) boot \<Rightarrow> ('t, 'c, 'd) boot option" where
  "parse_memory_map C symb mem sz data s =
     do { s \<leftarrow> boot_printf C (''Memory map:'' @ [CHR 0x0A]) [] s; memory_map_loop C symb mem sz data 16 s }"

definition parse_acpi_v1_rsdp :: "'d cpu \<Rightarrow> (u64 \<Rightarrow> u8) \<Rightarrow> u64 \<Rightarrow> ('t, 'c, 'd) boot \<Rightarrow> ('t, 'c, 'd) boot option" where
  "parse_acpi_v1_rsdp C mem data s = acpi_parse_config C mem (data + 8) s"

lemma tag_step:
  fixes offset :: u64 and total sz :: u32
  assumes "offset < ucast total" and "sz \<noteq> 0"
  shows "unat (ucast total :: u64) - unat (align_up (offset + ucast sz) 8) < unat (ucast total :: u64) - unat offset"
proof -
  have b: "unat (ucast sz :: u64) < 2 ^ 32" "unat (ucast total :: u64) < 2 ^ 32" by (rule unat_ucast_u32)+
  have z: "0 < unat (ucast sz :: u64)" using assms(2) unat_lt [of sz] by (simp add: unsigned_ucast_eq take_bit_eq_mod unat_gt_0)
  have o: "unat offset < unat (ucast total :: u64)" using assms(1) by (simp add: word_less_nat_alt)
  then have "unat (offset + ucast sz) = unat offset + unat (ucast sz :: u64)" using b by (intro unat_add_no_wrap) simp
  moreover from this have "offset + ucast sz \<le> align_up (offset + ucast sz) (2 ^ 3)" using b o by (intro align_up_ge(1)) simp_all
  ultimately show ?thesis using z o by (simp add: word_le_nat_alt)
qed

function tag_loop ::
  "'d cpu \<Rightarrow> (string \<Rightarrow> u64) \<Rightarrow> (u64 \<Rightarrow> u8) \<Rightarrow> u64 \<Rightarrow> u32 \<Rightarrow> u64 \<Rightarrow> ('t, 'c, 'd) boot \<Rightarrow> ('t, 'c, 'd) boot option" where
  "tag_loop C symb mem boot_data total_size offset s =
     (if offset < ucast total_size then
        (let tag = boot_data + offset; sz = mem32 mem (tag + 4); t = mem32 mem tag
         in if tag = 0 \<or> sz = 0 then Some s
            else case (if t = BOOT_LOADER_NAME_TAG then parse_boot_loader_name C mem sz tag s
                       else if t = MODULES_TAG then parse_module C mem sz tag s
                       else if t = MEMORY_MAP_TAG then parse_memory_map C symb mem sz tag s
                       else if t = ACPI_V1_RSDP_TAG then parse_acpi_v1_rsdp C mem tag s
                       else Some s) of
                   None \<Rightarrow> None
                 | Some s \<Rightarrow> tag_loop C symb mem boot_data total_size (align_up (offset + ucast sz) 8) s)
      else Some s)"
  by pat_completeness auto
termination
  by (relation "measure (\<lambda>(_, _, _, _, total, offset, _). unat (ucast total :: u64) - unat offset)") (auto intro!: tag_step)

declare tag_loop.simps [simp del]

definition parse_platform_config ::
  "'d cpu \<Rightarrow> (string \<Rightarrow> u64) \<Rightarrow> (u64 \<Rightarrow> u8) \<Rightarrow> u64 \<Rightarrow> ('t, 'c, 'd) boot \<Rightarrow> ('t, 'c, 'd) boot option" where
  "parse_platform_config C symb mem boot_data s = tag_loop C symb mem boot_data (mem32 mem boot_data) 8 s"

subsection \<open>Set-up of the processor\<close>

fun map_mem_regions :: "mmu_map_t \<Rightarrow> memory_region list \<Rightarrow> ('t, 'c) mmu_state \<Rightarrow> (int \<times> ('t, 'c) mmu_state) option" where
  "map_mem_regions mp [] s = Some (0, s)"
| "map_mem_regions mp (r # rs) s =
     do { (err, s) \<leftarrow> mmu_map_range mp (mr_base r + KERNEL_VMA) (mr_base r) (mr_len r) (MMU_PROT_READ OR MMU_PROT_WRITE OR MMU_PROT_EXEC) 0 s;
          if err \<noteq> 0 then Some (err, s) else map_mem_regions mp rs s }"

definition init_mmu_map :: "'d cpu \<Rightarrow> ('t, 'c, 'd) boot \<Rightarrow> ('d + ('t, 'c, 'd) boot) option" where
  "init_mmu_map C s =
     do { (page, pages) \<leftarrow> page_alloc_small (mm_pages (bt_mm s));
          if page = 0 then panic_halt C ''Unable to allocate kernel MMU map'' [] (hw (bt_x86 s))
          else do {
            let mm = zero_page page ((bt_mm s)\<lparr>mm_pages := pages\<rparr>);
            let mmu_map = \<lparr>cr3 = ptr_to_paddr page\<rparr>;
            (err, mm) \<leftarrow> map_mem_regions mmu_map (take (unat (nr_mem_regions s)) (mem_regions s)) mm;
            if err \<noteq> 0 then panic_halt C ''Unable to setup kernel MMU map'' [] (hw (bt_x86 s))
            else Some (Inr (s\<lparr>bt_mm := mmu_invalidate_tlb (mmu_load_map mmu_map mm)\<rparr>)) } }"

definition arch_early_setup ::
  "'d cpu \<Rightarrow> (string \<Rightarrow> u64) \<Rightarrow> (u64 \<Rightarrow> u8) \<Rightarrow> u64 \<Rightarrow> ('t, 'c, 'd) boot \<Rightarrow> ('d + ('t, 'c, 'd) boot) option" where
  "arch_early_setup C symb mem boot_data s =
     do { let s = s\<lparr>bt_x86 := (bt_x86 s)\<lparr>hw := i8259_remap (cpu_ports C) (hw (bt_x86 s))\<rparr>\<rparr>;
          let s = s\<lparr>bt_x86 := init_syscall C symb (init_task C symb (init_idt C symb (init_gdt C symb (bt_x86 s))))\<rparr>;
          s \<leftarrow> parse_platform_config C symb mem boot_data s;
          r \<leftarrow> init_mmu_map C s;
          (case r of
             Inl d \<Rightarrow> Some (Inl d)
           | Inr s \<Rightarrow> do { r \<leftarrow> init_apic C symb (bt_x86 s);
                          (case r of
                             Inl d \<Rightarrow> Some (Inl d)
                           | Inr x \<Rightarrow> Some (Inr (s\<lparr>bt_x86 := setup_nxe C x\<rparr>))) }) }"

end
