(* ===== verification/BootProofs.thy ===== *)
theory BootProofs
  imports Boot
begin

text \<open>
  What the start of the kernel achieves: the page allocator gets exactly the usable memory of the
  memory map, and when the walk over the tables of the firmware ends.
\<close>

subsection \<open>Output\<close>

text \<open>With a working serial port, output changes nothing but the port.\<close>

definition console_ok :: "'d cpu \<Rightarrow> ('d \<Rightarrow> bool) \<Rightarrow> bool" where
  "console_ok C ready \<longleftrightarrow> (\<exists>busy sent. uart_laws (cpu_ports C) busy (\<lambda>d. \<not> ready d) sent)"

lemma boot_printf_ok:
  assumes "console_ok C ready" and "ready (hw (bt_x86 s))" and "va_ok ap" and "fmt_text (bytes_of fmt @ [0]) 0 ap \<noteq> None"
  shows "\<exists>d'. boot_printf C fmt ap s = Some (s\<lparr>bt_x86 := (bt_x86 s)\<lparr>hw := d'\<rparr>\<rparr>) \<and> ready d'"
proof -
  obtain busy sent where U: "uart_laws (cpu_ports C) busy (\<lambda>d. \<not> ready d) sent" using assms(1) by (auto simp: console_ok_def)
  obtain t where t: "fmt_text (bytes_of fmt @ [0]) 0 ap = Some t" using assms(4) by auto
  obtain d' where d: "put_all t (console_write_char (cpu_ports C)) (hw (bt_x86 s)) = Some d'" "ready d'"
    using uart_put_all [OF U, of "hw (bt_x86 s)" t] assms(2) by (auto simp: console_write_char_def [abs_def])
  have "map_option fst (vprintf_loop (console_write_char (cpu_ports C)) (bytes_of fmt @ [0]) 0 ap (hw (bt_x86 s), 0)) = Some d'"
    by (simp add: vprintf_loop_all [OF assms(3)] t d)
  then show ?thesis using d(2) by (auto simp: boot_printf_def printf_def vprintf_def)
qed

text \<open>The formats of the memory map have an argument for each directive.\<close>

lemma map_formats:
  "fmt_text (bytes_of (''  %016lx-%016lx %4ld KiB [%s]'' @ [CHR 0x0A]) @ [0]) 0 [VaWord a, VaWord b, VaWord c, memory_type_name symb t] \<noteq> None"
  "fmt_text (bytes_of (''  %016lx-%016lx %4ld MiB [%s]'' @ [CHR 0x0A]) @ [0]) 0 [VaWord a, VaWord b, VaWord c, memory_type_name symb t] \<noteq> None"
  "va_ok [VaWord a, VaWord b, VaWord c, memory_type_name symb t]"
proof -
  have t: "memory_types t \<in> {''available'', ''reserved'', ''ACPI reclaimable'', ''NVS'', ''bad RAM'', ''unknown''}"
    by (simp add: memory_types_def)
  have k: "fmt_text (bytes_of (''  %016lx-%016lx %4ld KiB [%s]'' @ [CHR 0x0A]) @ [0]) 0 [VaWord a, VaWord b, VaWord c, VaWord 0] \<noteq> None"
    "fmt_text (bytes_of (''  %016lx-%016lx %4ld MiB [%s]'' @ [CHR 0x0A]) @ [0]) 0 [VaWord a, VaWord b, VaWord c, VaWord 0] \<noteq> None"
    by code_simp+
  have n: "fmt_text (bytes_of (''  %016lx-%016lx %4ld KiB [%s]'' @ [CHR 0x0A]) @ [0]) 0 [VaWord a, VaWord b, VaWord c, VaStr p (bytes_of n @ [0])] \<noteq> None \<and>
     fmt_text (bytes_of (''  %016lx-%016lx %4ld MiB [%s]'' @ [CHR 0x0A]) @ [0]) 0 [VaWord a, VaWord b, VaWord c, VaStr p (bytes_of n @ [0])] \<noteq> None"
    if "n \<in> {''available'', ''reserved'', ''ACPI reclaimable'', ''NVS'', ''bad RAM'', ''unknown''}" for n p
    using that by (elim insertE emptyE; hypsubst; intro conjI; code_simp)
  show "fmt_text (bytes_of (''  %016lx-%016lx %4ld KiB [%s]'' @ [CHR 0x0A]) @ [0]) 0 [VaWord a, VaWord b, VaWord c, memory_type_name symb t] \<noteq> None"
    "fmt_text (bytes_of (''  %016lx-%016lx %4ld MiB [%s]'' @ [CHR 0x0A]) @ [0]) 0 [VaWord a, VaWord b, VaWord c, memory_type_name symb t] \<noteq> None"
    unfolding memory_type_name_def using k n [OF t] by simp_all
  have "length (bytes_of (memory_types t) @ [0]) < 2 ^ 64" using t by (auto simp: bytes_of_def)
  then show "va_ok [VaWord a, VaWord b, VaWord c, memory_type_name symb t]"
    by (simp add: va_ok_def memory_type_name_def)
qed

subsection \<open>The memory map\<close>

text \<open>An entry in kernel addresses, and the part of it above \<open>lo\<close>, from a page boundary on.\<close>

definition entry_base :: "memory_map_entry \<Rightarrow> nat" where
  "entry_base e = unat (me_base_addr e) + unat KERNEL_VMA"

definition entry_end :: "memory_map_entry \<Rightarrow> nat" where
  "entry_end e = entry_base e + unat (me_length e)"

definition available :: "memory_map_entry \<Rightarrow> bool" where
  "available e \<longleftrightarrow> me_type e = MEMORY_TYPE_AVAILABLE"

definition usable_start :: "nat \<Rightarrow> memory_map_entry \<Rightarrow> nat" where
  "usable_start lo e = (max (entry_base e) lo + 4095) div 4096 * 4096"

definition usable :: "nat \<Rightarrow> memory_map_entry \<Rightarrow> nat set" where
  "usable lo e = (if available e \<and> lo \<le> entry_end e then {usable_start lo e ..< entry_end e} else {})"

text \<open>A sane map: available memory is inside the kernel's window, its usable part ends with a page,
  contains a boundary of large pages, and overlaps nothing that the allocator already has.\<close>

definition entry_ok :: "nat \<Rightarrow> memory_map_entry \<Rightarrow> bool" where
  "entry_ok lo e \<longleftrightarrow> (available e \<longrightarrow> entry_end e < 2 ^ 64 \<and>
     (lo \<le> entry_end e \<longrightarrow> 4096 dvd entry_end e \<and> (usable_start lo e + 2097151) div 2097152 \<le> entry_end e div 2097152))"

fun map_ok :: "nat \<Rightarrow> nat set \<Rightarrow> memory_map_entry list \<Rightarrow> bool" where
  "map_ok lo A [] \<longleftrightarrow> True"
| "map_ok lo A (e # es) \<longleftrightarrow> entry_ok lo e \<and> usable lo e \<inter> A = {} \<and> map_ok lo (A \<union> usable lo e) es"

lemma round_up_end:
  assumes "4096 dvd h" and "b \<le> (h :: nat)"
  shows "(b + 4095) div 4096 * 4096 + (h - b) div 4096 * 4096 = h"
proof -
  obtain k where k: "h = 4096 * k" using assms(1) by (elim dvdE)
  define q r where "q = (h - b) div 4096" and "r = (h - b) mod 4096"
  have l: "h - b = 4096 * q + r" "r < 4096" by (simp_all add: q_def r_def)
  then have "q \<le> k" using k by linarith
  then have "b + 4095 = (4095 - r) + 4096 * (k - q)" using l k assms(2) by (simp add: diff_mult_distrib2)
  then have "(b + 4095) div 4096 = k - q" by simp
  then show ?thesis using \<open>q \<le> k\<close> by (simp add: k q_def flip: add_mult_distrib)
qed

lemma clip_lower:
  fixes b l m :: u64
  assumes "unat b + unat l = h" and "unat m \<le> h" and "(b', l') = (if b < m then (m, l - (m - b)) else (b, l))"
  shows "unat b' = max (unat b) (unat m)" and "unat b' + unat l' = h"
proof -
  have "unat (l - (m - b)) = unat l - (unat m - unat b)" if "b < m"
  proof -
    have "unat (m - b) = unat m - unat b" using that by (simp add: unat_sub word_less_nat_alt word_le_nat_alt)
    then show ?thesis using assms(1,2) by (subst unat_sub) (simp_all add: word_le_nat_alt)
  qed
  then show "unat b' = max (unat b) (unat m)" "unat b' + unat l' = h"
    using assms by (auto simp: word_less_nat_alt split: if_splits)
qed

lemma memory_map_add_ok:
  fixes s :: "('t, 'c, 'd) boot" and kernel_end :: u64
  defines "lo \<equiv> max (unat kernel_end) (unat (initrd_end s))"
  assumes wf: "arenas_wf (mm_pages (bt_mm s))" and ok: "entry_ok lo e" and av: "available e"
    and disj: "usable lo e \<inter> arenas_avail (mm_pages (bt_mm s)) = {}"
  shows "\<exists>p'. memory_map_add kernel_end e s = s\<lparr>bt_mm := (bt_mm s)\<lparr>mm_pages := p'\<rparr>\<rparr>
    \<and> arenas_wf p' \<and> arenas_avail p' = arenas_avail (mm_pages (bt_mm s)) \<union> usable lo e"
proof -
  have lim: "entry_end e < 2 ^ 64" using ok av by (simp add: entry_ok_def)
  have b: "unat (me_base_addr e + KERNEL_VMA) = entry_base e"
    using lim by (simp add: unat_add_no_wrap entry_base_def entry_end_def)
  have h: "unat (me_base_addr e + KERNEL_VMA + me_length e) = entry_end e"
    using lim b by (subst unat_add_no_wrap) (simp_all add: entry_end_def)
  show ?thesis
  proof (cases "lo \<le> entry_end e")
    case False
    then have "memory_map_add kernel_end e s = s"
      using h by (auto simp: memory_map_add_def Let_def lo_def word_less_nat_alt not_le)
    then show ?thesis using wf False by (intro exI [of _ "mm_pages (bt_mm s)"]) (simp add: usable_def)
  next
    case True
    then have ends: "unat kernel_end \<le> entry_end e" "unat (initrd_end s) \<le> entry_end e" by (simp_all add: lo_def)
    obtain b1 l1 where 1: "(b1, l1) = (if me_base_addr e + KERNEL_VMA < kernel_end
        then (kernel_end, me_length e - (kernel_end - (me_base_addr e + KERNEL_VMA))) else (me_base_addr e + KERNEL_VMA, me_length e))"
      by (metis surj_pair)
    obtain b2 l2 where 2: "(b2, l2) = (if b1 < initrd_end s then (initrd_end s, l1 - (initrd_end s - b1)) else (b1, l1))"
      by (metis surj_pair)
    note c1 = clip_lower [OF _ ends(1) 1] and c2 = clip_lower [OF _ ends(2) 2]
    have b2: "unat b2 = max (entry_base e) lo" "unat b2 + unat l2 = entry_end e"
      using c1 c2 b by (auto simp: entry_end_def lo_def max.assoc)
    have d: "4096 dvd entry_end e" and bd: "(usable_start lo e + 2097151) div 2097152 \<le> entry_end e div 2097152"
      using ok av True by (auto simp: entry_ok_def)
    have "entry_end e \<le> 2 ^ 64 - 4096" using d lim by (auto elim!: dvdE)
    then have "unat b2 + 2 ^ 12 - 1 < 2 ^ 64" using b2(2) by simp
    then have st: "unat (align_up b2 PAGE_SIZE_SMALL) = usable_start lo e"
      using align_up_no_wrap [of 12 b2] by (simp add: PAGE_SIZE_SMALL_eq usable_start_def add.commute flip: b2(1))
    have sz: "unat (align_down l2 PAGE_SIZE_SMALL) = unat l2 div 4096 * 4096"
      using unat_align_down [of l2 12] by (simp add: PAGE_SIZE_SMALL_eq)
    have le: "unat b2 \<le> entry_end e" and l2: "entry_end e - unat b2 = unat l2" using b2(2) by linarith+
    have e: "usable_start lo e + unat l2 div 4096 * 4096 = entry_end e"
      using round_up_end [OF d le] unfolding l2 unfolding usable_start_def b2(1) .
    have "0 < usable_start lo e" by (auto simp: usable_start_def entry_base_def KERNEL_VMA_def)
    then have nz: "align_up b2 PAGE_SIZE_SMALL \<noteq> 0" using st by auto
    define p' where "p' = memory_add_span (align_up b2 PAGE_SIZE_SMALL) (align_down l2 PAGE_SIZE_SMALL) (mm_pages (bt_mm s))"
    have "\<not> me_base_addr e + KERNEL_VMA + me_length e < kernel_end" "\<not> me_base_addr e + KERNEL_VMA + me_length e < initrd_end s"
      using h ends by (simp_all add: word_less_nat_alt)
    then have "memory_map_add kernel_end e s = s\<lparr>bt_mm := (bt_mm s)\<lparr>mm_pages := p'\<rparr>\<rparr>"
      using 2 by (simp add: memory_map_add_def Let_def p'_def split: if_splits flip: 1)
    moreover have "arenas_wf p' \<and> arenas_avail p' = arenas_avail (mm_pages (bt_mm s)) \<union> {usable_start lo e ..< entry_end e}"
      unfolding p'_def
      using add_span_exact [of "mm_pages (bt_mm s)" "align_up b2 PAGE_SIZE_SMALL" "align_down l2 PAGE_SIZE_SMALL", unfolded st sz e, OF wf nz]
        lim bd disj True av by (simp add: usable_def usable_start_def)
    ultimately show ?thesis using True av by (auto simp: usable_def)
  qed
qed

text \<open>The state while the map is read: the bytes the allocator has, and the regions recorded.\<close>

definition map_state :: "('d \<Rightarrow> bool) \<Rightarrow> u64 \<Rightarrow> nat set \<Rightarrow> memory_region list \<Rightarrow> ('t, 'c, 'd) boot \<Rightarrow> bool" where
  "map_state ready fin A rs s \<longleftrightarrow> ready (hw (bt_x86 s)) \<and> initrd_end s = fin
     \<and> arenas_wf (mm_pages (bt_mm s)) \<and> arenas_avail (mm_pages (bt_mm s)) = A
     \<and> length (mem_regions s) = MAX_MEM_REGIONS \<and> unat (nr_mem_regions s) = length rs \<and> take (length rs) (mem_regions s) = rs"

definition entry_region :: "memory_map_entry \<Rightarrow> memory_region list" where
  "entry_region e = (if available e then [\<lparr>mr_base = me_base_addr e, mr_len = align_down (me_length e) PAGE_SIZE_SMALL\<rparr>] else [])"

text \<open>The state after the output for an entry.\<close>

lemma entry_printed:
  assumes C: "console_ok C ready" and S: "map_state ready fin A rs s"
  shows "\<exists>s1. map_state ready fin A rs s1 \<and> parse_memory_map_entry C symb e s =
    (if \<not> available e then Some s1
     else do { regions \<leftarrow> wr (mem_regions s1) (length rs) (hd (entry_region e));
               Some (memory_map_add (symb ''_kernel_end'') e (s1\<lparr>nr_mem_regions := nr_mem_regions s1 + 1, mem_regions := regions\<rparr>)) })"
proof -
  define s0 where "s0 = (if align_up (me_base_addr e + KERNEL_VMA) PAGE_SIZE_SMALL > kernel_vm_end (bt_mm s)
    then s\<lparr>bt_mm := (bt_mm s)\<lparr>kernel_vm_end := align_up (me_base_addr e + KERNEL_VMA) PAGE_SIZE_SMALL\<rparr>\<rparr> else s)"
  have S0: "map_state ready fin A rs s0" using S by (simp add: map_state_def s0_def)
  then have r: "ready (hw (bt_x86 s0))" by (simp add: map_state_def)
  let ?fmt = "if me_length e < 1024 * 1024 then ''  %016lx-%016lx %4ld KiB [%s]'' @ [CHR 0x0A] else ''  %016lx-%016lx %4ld MiB [%s]'' @ [CHR 0x0A]"
  let ?ap = "[VaWord (me_base_addr e), VaWord (me_base_addr e + me_length e),
    VaWord (if me_length e < 1024 * 1024 then me_length e div 1024 else me_length e div 1024 div 1024), memory_type_name symb (me_type e)]"
  have "fmt_text (bytes_of ?fmt @ [0]) 0 ?ap \<noteq> None" using map_formats(1,2) by (cases "me_length e < 1024 * 1024") (simp_all only: if_True if_False simp_thms)
  from boot_printf_ok [OF C r map_formats(3) this] obtain d' where
    d: "boot_printf C ?fmt ?ap s0 = Some (s0\<lparr>bt_x86 := (bt_x86 s0)\<lparr>hw := d'\<rparr>\<rparr>)" "ready d'" by blast
  define s1 where "s1 = s0\<lparr>bt_x86 := (bt_x86 s0)\<lparr>hw := d'\<rparr>\<rparr>"
  have S1: "map_state ready fin A rs s1" using S0 d(2) by (simp add: map_state_def s1_def)
  then have n: "unat (nr_mem_regions s1) = length rs" by (simp add: map_state_def)
  have "parse_memory_map_entry C symb e s = do { s \<leftarrow> boot_printf C ?fmt ?ap s0;
      if me_type e \<noteq> MEMORY_TYPE_AVAILABLE then Some s
      else do {
        let i = nr_mem_regions s;
        let s = s\<lparr>nr_mem_regions := i + 1\<rparr>;
        regions \<leftarrow> wr (mem_regions s) (unat i) \<lparr>mr_base = me_base_addr e, mr_len = align_down (me_length e) PAGE_SIZE_SMALL\<rparr>;
        Some (memory_map_add (symb ''_kernel_end'') e (s\<lparr>mem_regions := regions\<rparr>)) } }"
    unfolding parse_memory_map_entry_def Let_def s0_def [symmetric] by (cases "me_length e < 1024 * 1024") (simp_all only: if_True if_False)
  then have "parse_memory_map_entry C symb e s = (if \<not> available e then Some s1
     else do { regions \<leftarrow> wr (mem_regions s1) (length rs) (hd (entry_region e));
               Some (memory_map_add (symb ''_kernel_end'') e (s1\<lparr>nr_mem_regions := nr_mem_regions s1 + 1, mem_regions := regions\<rparr>)) })"
    unfolding d(1) s1_def [symmetric] by (simp add: available_def entry_region_def n)
  then show ?thesis using S1 by blast
qed

lemma entry_parsed:
  fixes symb fin
  defines "lo \<equiv> max (unat (symb ''_kernel_end'')) (unat fin)"
  assumes C: "console_ok C ready" and S: "map_state ready fin A rs s" and ok: "entry_ok lo e" and disj: "usable lo e \<inter> A = {}"
    and room: "length (rs @ entry_region e) \<le> MAX_MEM_REGIONS"
  shows "\<exists>s'. parse_memory_map_entry C symb e s = Some s' \<and> map_state ready fin (A \<union> usable lo e) (rs @ entry_region e) s'"
proof -
  obtain s1 where S1: "map_state ready fin A rs s1" and eq: "parse_memory_map_entry C symb e s =
    (if \<not> available e then Some s1
     else do { regions \<leftarrow> wr (mem_regions s1) (length rs) (hd (entry_region e));
               Some (memory_map_add (symb ''_kernel_end'') e (s1\<lparr>nr_mem_regions := nr_mem_regions s1 + 1, mem_regions := regions\<rparr>)) })"
    using entry_printed [OF C S] by blast
  show ?thesis
  proof (cases "available e")
    case False
    then show ?thesis using S1 eq by (simp add: usable_def entry_region_def)
  next
    case True
    define s2 where "s2 = s1\<lparr>nr_mem_regions := nr_mem_regions s1 + 1, mem_regions := (mem_regions s1)[length rs := hd (entry_region e)]\<rparr>"
    have l: "length rs < MAX_MEM_REGIONS" using room True by (simp add: entry_region_def)
    have S2: "map_state ready fin A (rs @ entry_region e) s2"
      using S1 l True unat_add_no_wrap [of "nr_mem_regions s1" 1]
      by (simp add: map_state_def s2_def entry_region_def take_Suc_conv_app_nth take_list_update_same)
    then obtain p' where p: "memory_map_add (symb ''_kernel_end'') e s2 = s2\<lparr>bt_mm := (bt_mm s2)\<lparr>mm_pages := p'\<rparr>\<rparr>"
        "arenas_wf p'" "arenas_avail p' = A \<union> usable lo e"
      using memory_map_add_ok [of s2 "symb ''_kernel_end''" e] ok disj True by (auto simp: map_state_def lo_def)
    have "parse_memory_map_entry C symb e s = Some (s2\<lparr>bt_mm := (bt_mm s2)\<lparr>mm_pages := p'\<rparr>\<rparr>)"
      using True l S1 unfolding eq by (simp add: wr_ok map_state_def flip: p(1)) (simp add: s2_def)
    then show ?thesis using S2 p(2,3) by (simp add: map_state_def)
  qed
qed

fun parse_entries :: "'d cpu \<Rightarrow> (string \<Rightarrow> u64) \<Rightarrow> memory_map_entry list \<Rightarrow> ('t, 'c, 'd) boot \<Rightarrow> ('t, 'c, 'd) boot option" where
  "parse_entries C symb [] s = Some s"
| "parse_entries C symb (e # es) s = Option.bind (parse_memory_map_entry C symb e s) (parse_entries C symb es)"

lemma entries_parsed:
  fixes symb fin
  defines "lo \<equiv> max (unat (symb ''_kernel_end'')) (unat fin)"
  assumes C: "console_ok C ready"
  shows "map_state ready fin A rs s \<Longrightarrow> map_ok lo A es \<Longrightarrow> length (rs @ concat (map entry_region es)) \<le> MAX_MEM_REGIONS \<Longrightarrow>
    \<exists>s'. parse_entries C symb es s = Some s' \<and> map_state ready fin (A \<union> \<Union> (usable lo ` set es)) (rs @ concat (map entry_region es)) s'"
proof (induction es arbitrary: A rs s)
  case Nil
  then show ?case by simp
next
  case (Cons e es)
  obtain s1 where s1: "parse_memory_map_entry C symb e s = Some s1" "map_state ready fin (A \<union> usable lo e) (rs @ entry_region e) s1"
    using entry_parsed [OF C Cons.prems(1), of symb e, folded lo_def] Cons.prems(2,3) by auto
  show ?case using Cons.IH [OF s1(2)] Cons.prems(2,3) s1(1) by (simp add: Un_assoc)
qed

definition map_entries :: "(u64 \<Rightarrow> u8) \<Rightarrow> u32 \<Rightarrow> u64 \<Rightarrow> memory_map_entry list" where
  "map_entries mem sz data = map (\<lambda>k. memory_map_entry_at mem (data + (16 + 24 * of_nat k))) [0..<(unat sz + 7) div 24]"

lemma entry_offset:
  assumes "k \<le> (unat (sz :: u32) + 7) div 24"
  shows "unat (16 + 24 * of_nat k :: u64) = 16 + 24 * k" and "(16 + 24 * of_nat k :: u64) < ucast sz \<longleftrightarrow> k < (unat sz + 7) div 24"
proof -
  have sz: "unat sz < 2 ^ 32" using unat_lt [of sz] by simp
  have k: "24 * k \<le> unat sz + 7" using assms by (simp add: less_eq_div_iff_mult_less_eq mult.commute)
  have "(16 + 24 * of_nat k :: u64) = of_nat (16 + 24 * k)" by simp
  then show u: "unat (16 + 24 * of_nat k :: u64) = 16 + 24 * k" using k sz unat_of_nat64 [of "16 + 24 * k"] by simp
  have "unat (ucast sz :: u64) = unat sz" using sz by (simp add: unsigned_ucast_eq take_bit_eq_mod)
  moreover have "16 + 24 * k < unat sz \<longleftrightarrow> k < (unat sz + 7) div 24" using div_mult_mod_eq [of "unat sz + 7" 24] by (auto simp: less_eq_div_iff_mult_less_eq Suc_le_eq [symmetric])
  ultimately show "(16 + 24 * of_nat k :: u64) < ucast sz \<longleftrightarrow> k < (unat sz + 7) div 24" by (simp add: word_less_nat_alt u)
qed

lemma loop_entries:
  fixes s :: "('t, 'c, 'd) boot"
  shows "k \<le> (unat sz + 7) div 24 \<Longrightarrow>
   memory_map_loop C symb mem sz data (16 + 24 * of_nat k) s = parse_entries C symb (drop k (map_entries mem sz data)) s"
proof (induction "(unat sz + 7) div 24 - k" arbitrary: k s)
  case 0
  then show ?case using entry_offset(2) [OF 0(2)] by (subst memory_map_loop.simps) (simp add: map_entries_def)
next
  case (Suc n)
  then have k: "k < (unat sz + 7) div 24" by simp
  have d: "drop k (map_entries mem sz data) = memory_map_entry_at mem (data + (16 + 24 * of_nat k)) # drop (Suc k) (map_entries mem sz data)"
    using k by (subst drop_eq_nth_Cons) (simp_all add: map_entries_def)
  have o: "(16 + 24 * of_nat k + 24 :: u64) = 16 + 24 * of_nat (Suc k)" by (simp add: algebra_simps)
  have "memory_map_loop C symb mem sz data (16 + 24 * of_nat (Suc k)) s1 = parse_entries C symb (drop (Suc k) (map_entries mem sz data)) s1" for s1 :: "('t, 'c, 'd) boot"
    using Suc.hyps(1) [of "Suc k" s1] Suc.hyps(2) k by simp
  then show ?case using entry_offset(2) [of k sz] k unfolding d
    by (subst memory_map_loop.simps) (simp add: o split: option.split)
qed


subsection \<open>A boot loader's memory map\<close>

definition mem_example :: "u64 \<Rightarrow> u8 list \<Rightarrow> u64 \<Rightarrow> u8" where
  "mem_example base bs a = (if unat (a - base) < length bs then bs ! unat (a - base) else 0)"

definition map_example :: "u8 list" where
  "map_example = enc32 6 @ enc32 88 @ enc32 24 @ enc32 0
     @ enc64 0 @ enc64 0x9f000 @ enc32 1 @ enc32 0
     @ enc64 0x100000 @ enc64 0x7ee0000 @ enc32 1 @ enc32 0
     @ enc64 0x7fe0000 @ enc64 0x20000 @ enc32 2 @ enc32 0"

lemma mem_bytes_example:
  assumes "k + n \<le> length bs" and "length bs < 2 ^ 64"
  shows "mem_bytes (mem_example base bs) (base + of_nat k) n = take n (drop k bs)"
proof (rule nth_equalityI)
  show "length (mem_bytes (mem_example base bs) (base + of_nat k) n) = length (take n (drop k bs))"
    using assms(1) by (simp add: mem_bytes_def)
  fix i assume "i < length (mem_bytes (mem_example base bs) (base + of_nat k) n)"
  then have i: "i < n" by (simp add: mem_bytes_def)
  have "base + of_nat k + of_nat i - base = of_nat (k + i)" by simp
  then show "mem_bytes (mem_example base bs) (base + of_nat k) n ! i = take n (drop k bs) ! i"
    using i assms unat_of_nat64 [of "k + i"] by (simp add: mem_bytes_def mem_example_def)
qed

lemma length_map_example: "length map_example = 88"
  by (simp add: map_example_def length_enc)

lemma map_example_entry:
  assumes "k + 24 \<le> 88" and "take 24 (drop k map_example) = enc64 b @ enc64 l @ enc32 t @ enc32 0"
  shows "memory_map_entry_at (mem_example 0x1000 map_example) (0x1000 + of_nat k) = \<lparr>me_base_addr = b, me_length = l, me_type = t\<rparr>"
proof -
  let ?m = "mem_example 0x1000 map_example"
  have f: "take n (drop (k + i) map_example) = take n (drop i (enc64 b @ enc64 l @ enc32 t @ enc32 0))" if "i + n \<le> 24" for i n
    unfolding assms(2) [symmetric] using that by (simp add: drop_take add.commute min_absorb1)
  have b: "mem_bytes ?m (0x1000 + of_nat k + of_nat i) n = take n (drop (k + i) map_example)" if "i + n \<le> 24" for i n
    using mem_bytes_example [of "k + i" n map_example "0x1000"] that assms(1) by (simp add: length_map_example add.assoc)
  show ?thesis
    using b [of 0 8] b [of 8 8] b [of 16 4] f [of 0 8] f [of 8 8] f [of 16 4]
    by (simp add: memory_map_entry_at_def mem64_def mem32_def length_enc dec_enc)
qed

lemma map_example_entries:
  "map_entries (mem_example 0x1000 map_example) 88 0x1000 =
     [\<lparr>me_base_addr = 0, me_length = 0x9f000, me_type = 1\<rparr>, \<lparr>me_base_addr = 0x100000, me_length = 0x7ee0000, me_type = 1\<rparr>,
      \<lparr>me_base_addr = 0x7fe0000, me_length = 0x20000, me_type = 2\<rparr>]"
proof -
  have d: "take 24 (drop 16 map_example) = enc64 0 @ enc64 0x9f000 @ enc32 1 @ enc32 0"
    "take 24 (drop 40 map_example) = enc64 0x100000 @ enc64 0x7ee0000 @ enc32 1 @ enc32 0"
    "take 24 (drop 64 map_example) = enc64 0x7fe0000 @ enc64 0x20000 @ enc32 2 @ enc32 0"
    by (simp_all add: map_example_def length_enc)
  have u: "[0..<3] = [0, 1, 2 :: nat]" by (simp add: upt_rec)
  show ?thesis
    using map_example_entry [OF _ d(1)] map_example_entry [OF _ d(2)] map_example_entry [OF _ d(3)]
    by (simp add: map_entries_def u)
qed

definition boot_example :: "(MemorySegment list, MemorySegment list \<times> nat option, bool \<times> u8 list) boot" where
  "boot_example = \<lparr>bt_x86 = x86_static (False, []),
     bt_mm = mmu_example\<lparr>mm_pages := \<lparr>KERNEL_SMALL_PAGE_ARENA = MemoryArena_new list_tree, KERNEL_LARGE_PAGE_ARENA = MemoryArena_new list_tree\<rparr>\<rparr>,
     mem_regions = replicate 8 \<lparr>mr_base = 0, mr_len = 0\<rparr>, nr_mem_regions = 0, initrd_start = 0, initrd_end = 0\<rparr>"

lemma cpu_example_console: "console_ok cpu_example (\<lambda>d. \<not> fst d)"
  using uart_example_laws by (auto simp: console_ok_def cpu_example_def)


subsection \<open>The walk over the processor table\<close>

text \<open>The offsets the loop reads an entry at.\<close>

inductive madt_at :: "(u64 \<Rightarrow> u8) \<Rightarrow> u64 \<Rightarrow> u64 \<Rightarrow> u64 \<Rightarrow> bool" for mem madt len where
  madt_first: "sizeof_acpi_madt_header < len \<Longrightarrow> madt_at mem madt len sizeof_acpi_madt_header"
| madt_next: "madt_at mem madt len off \<Longrightarrow> mem (madt + off) \<in> {0, 1, 2, 4} \<Longrightarrow> off + ucast (mem (madt + off + 1)) < len \<Longrightarrow>
    madt_at mem madt len (off + ucast (mem (madt + off + 1)))"

lemma madt_loop_stuck:
  assumes "off < len" and "mem (madt + off) \<in> {0, 1, 2, 4}" and "mem (madt + off + 1) = 0"
  shows "madt_loop C mem madt len off n s = None"
proof (rule ccontr)
  assume "madt_loop C mem madt len off n s \<noteq> None"
  then obtain y where "madt_loop C mem madt len off n s = Some y" by auto
  then have "\<not> (off < len \<and> mem (madt + off) \<in> {0, 1, 2, 4} \<and> mem (madt + off + 1) = 0)"
  proof (rule madt_loop.raw_induct [of "\<lambda>C mem madt len off n s y. \<not> (off < len \<and> mem (madt + off) \<in> {0, 1, 2, 4} \<and> mem (madt + off + 1) = 0)", rotated], goal_cases)
    case (1 f C mem madt len off n s y)
    show ?case
    proof
      assume A: "off < len \<and> mem (madt + off) \<in> {0, 1, 2, 4} \<and> mem (madt + off + 1) = 0"
      then have "f C mem madt len off (n + 1) s = Some y \<or> f C mem madt len off n s = Some y"
        using 1(2) by (auto simp: acpi_read_u8_def Let_def split: if_splits)
      then show False using 1(1) A by blast
    qed
  qed
  then show False using assms by blast
qed

lemma madt_at_less: "madt_at mem madt len off \<Longrightarrow> off < len"
  by (induction rule: madt_at.induct) simp_all

text \<open>One round of the loop at an entry of a known type.\<close>

lemma madt_loop_next:
  assumes "off < len" and "mem (madt + off) \<in> {0, 1, 2, 4}"
  shows "\<exists>n'. madt_loop C mem madt len off n s = madt_loop C mem madt len (off + ucast (mem (madt + off + 1))) n' s"
proof (cases "mem (madt + off) = 0")
  case True
  then show ?thesis using assms(1) by (subst madt_loop.simps) (auto simp: acpi_read_u8_def Let_def)
next
  case False
  then show ?thesis using assms by (subst madt_loop.simps) (auto simp: acpi_read_u8_def Let_def)
qed

lemma madt_loop_reaches: "madt_at mem madt len off \<Longrightarrow> \<exists>n. madt_loop C mem madt len sizeof_acpi_madt_header 0 s = madt_loop C mem madt len off n s"
proof (induction rule: madt_at.induct)
  case (madt_next off)
  then show ?case using madt_loop_next [OF madt_at_less] by metis
qed blast

lemma madt_messages:
  assumes "console_ok C ready" and "ready (hw (bt_x86 s))"
  shows "\<exists>s'. boot_printf C (''Found %d CPUs via ACPI MADT'' @ [CHR 0x0A]) [VaWord m] s = Some s'"
    and "\<exists>s'. boot_printf C (''warning: unknown ACPI MADT entry: %d'' @ [CHR 0x0A]) [VaWord m] s = Some s'"
proof -
  have f: "fmt_text (bytes_of (''Found %d CPUs via ACPI MADT'' @ [CHR 0x0A]) @ [0]) 0 [VaWord m] \<noteq> None"
    "fmt_text (bytes_of (''warning: unknown ACPI MADT entry: %d'' @ [CHR 0x0A]) @ [0]) 0 [VaWord m] \<noteq> None"
    by code_simp+
  have v: "va_ok [VaWord m]" by (simp add: va_ok_def)
  show "\<exists>s'. boot_printf C (''Found %d CPUs via ACPI MADT'' @ [CHR 0x0A]) [VaWord m] s = Some s'"
    "\<exists>s'. boot_printf C (''warning: unknown ACPI MADT entry: %d'' @ [CHR 0x0A]) [VaWord m] s = Some s'"
    using boot_printf_ok [OF assms v f(1)] boot_printf_ok [OF assms v f(2)] by blast+
qed

lemma madt_loop_returns:
  assumes C: "console_ok C ready" and R: "ready (hw (bt_x86 s))" and len: "unat len < 2 ^ 32"
    and ok: "\<And>off. madt_at mem madt len off \<Longrightarrow> mem (madt + off) \<in> {0, 1, 2, 4} \<Longrightarrow> mem (madt + off + 1) \<noteq> 0"
  shows "len \<le> off \<or> madt_at mem madt len off \<Longrightarrow> \<exists>s'. madt_loop C mem madt len off n s = Some s'"
proof (induction "unat len - unat off" arbitrary: off n rule: less_induct)
  case less
  note p = madt_messages [OF C R]
  consider (fin) "len \<le> off" | (known) "madt_at mem madt len off" "mem (madt + off) \<in> {0, 1, 2, 4}"
    | (other) "madt_at mem madt len off" "mem (madt + off) \<notin> {0, 1, 2, 4}"
    using less.prems by blast
  then show ?case
  proof cases
    case fin
    then have "\<not> off < len" by simp
    then show ?thesis using p(1) by (subst madt_loop.simps) simp
  next
    case other
    then show ?thesis using p(2) madt_at_less [OF other(1)] by (subst madt_loop.simps) (simp add: acpi_read_u8_def Let_def)
  next
    case known
    let ?l = "mem (madt + off + 1)"
    have off: "off < len" by (rule madt_at_less [OF known(1)])
    obtain n' where n': "madt_loop C mem madt len off n s = madt_loop C mem madt len (off + ucast ?l) n' s"
      using madt_loop_next [of off len mem madt, OF off known(2)] by blast
    have l: "unat (ucast ?l :: u64) = unat ?l" "unat ?l < 256"
      using unat_lt [of ?l] by (simp_all add: unsigned_ucast_eq take_bit_eq_mod)
    have "unat (off + ucast ?l) = unat off + unat ?l"
      using l len off by (subst unat_add_no_wrap) (simp_all add: word_less_nat_alt)
    moreover have "0 < unat ?l" using ok [OF known] by (simp add: unat_gt_0)
    ultimately have "unat len - unat (off + ucast ?l) < unat len - unat off" using off by (simp add: word_less_nat_alt)
    moreover have "len \<le> off + ucast ?l \<or> madt_at mem madt len (off + ucast ?l)"
      using known by (auto intro: madt_next simp: not_le)
    ultimately show ?thesis unfolding n' by (rule less.hyps)
  qed
qed

text \<open>C38: the walk over the processor table of the firmware returns exactly when no entry of a known
  type that it comes to has length zero; such an entry is read again for ever.\<close>

theorem madt_walk_ends:
  assumes "console_ok C ready" and "ready (hw (bt_x86 s))" and "mem_bytes mem madt 4 = bytes_of ''APIC''"
  shows "(\<exists>s'. acpi_parse_madt C mem madt s = Some s') \<longleftrightarrow>
    (\<forall>off. madt_at mem madt (ucast (mem32 mem (madt + 4))) off \<and> mem (madt + off) \<in> {0, 1, 2, 4} \<longrightarrow> mem (madt + off + 1) \<noteq> 0)"
proof -
  let ?len = "ucast (mem32 mem (madt + 4)) :: u64"
  have p: "acpi_parse_madt C mem madt s = madt_loop C mem madt ?len sizeof_acpi_madt_header 0 s"
    using assms(3) by (simp add: acpi_parse_madt_def)
  show ?thesis
  proof
    assume R: "\<exists>s'. acpi_parse_madt C mem madt s = Some s'"
    show "\<forall>off. madt_at mem madt ?len off \<and> mem (madt + off) \<in> {0, 1, 2, 4} \<longrightarrow> mem (madt + off + 1) \<noteq> 0"
    proof (intro allI impI notI)
      fix off assume A: "madt_at mem madt ?len off \<and> mem (madt + off) \<in> {0, 1, 2, 4}" and z: "mem (madt + off + 1) = 0"
      have "madt_loop C mem madt ?len off n s = None" for n
        using A z madt_at_less by (intro madt_loop_stuck) blast+
      then show False using madt_loop_reaches [of mem madt ?len off C s] A R by (auto simp: p)
    qed
  next
    assume "\<forall>off. madt_at mem madt ?len off \<and> mem (madt + off) \<in> {0, 1, 2, 4} \<longrightarrow> mem (madt + off + 1) \<noteq> 0"
    moreover have "?len \<le> sizeof_acpi_madt_header \<or> madt_at mem madt ?len sizeof_acpi_madt_header"
      by (auto intro: madt_first simp: not_le)
    ultimately show "\<exists>s'. acpi_parse_madt C mem madt s = Some s'"
      unfolding p using madt_loop_returns [OF assms(1,2) unat_ucast_u32] by blast
  qed
qed

text \<open>A table with one entry, of length \<open>l\<close>.\<close>

definition madt_example :: "u8 \<Rightarrow> u8 list" where
  "madt_example l = bytes_of ''APIC'' @ enc32 46 @ replicate 36 0 @ [0, l]"

theorem madt_walk_ends_witness:
  "acpi_parse_madt cpu_example (mem_example 0x1000 (madt_example 0)) 0x1000 boot_example = None
   \<and> (\<exists>s'. acpi_parse_madt cpu_example (mem_example 0x1000 (madt_example 8)) 0x1000 boot_example = Some s')"
proof -
  let ?m = "\<lambda>l. mem_example 0x1000 (madt_example l)"
  have L: "length (madt_example l) = 46" for l by (simp add: madt_example_def bytes_of_def)
  have sig: "mem_bytes (?m l) 0x1000 4 = bytes_of ''APIC''" and len: "mem32 (?m l) (0x1000 + 4) = 46" for l
    using mem_bytes_example [of 0 4 "madt_example l" "0x1000"] mem_bytes_example [of 4 4 "madt_example l" "0x1000"]
    by (simp_all add: L mem32_def) (simp_all add: madt_example_def bytes_of_def)
  have e: "?m l (0x1000 + 44) = 0" "?m l (0x1000 + 44 + 1) = l" for l
    by (simp_all add: mem_example_def L) (simp_all add: madt_example_def bytes_of_def nth_append)
  have c: "(ucast (46 :: u32) :: u64) = 46" by simp
  have at: "madt_at (?m l) 0x1000 46 44" for l by (rule madt_first) simp
  have only: "off = 44" if "madt_at (?m 8) 0x1000 46 off" for off
    using that by (induction rule: madt_at.induct) (use e [of 8] in simp_all)
  have r: "\<not> fst (hw (bt_x86 boot_example))" by (simp add: boot_example_def x86_static_def)
  note t = madt_walk_ends [OF cpu_example_console r sig, unfolded len c]
  have "\<not> (\<exists>s'. acpi_parse_madt cpu_example (?m 0) 0x1000 boot_example = Some s')"
    unfolding t using at [of 0] e [of 0] by auto
  moreover have "?m 8 (0x1000 + off + 1) \<noteq> 0" if "madt_at (?m 8) 0x1000 46 off" for off
    using only [OF that] e(2) [of 8] by simp
  then have "\<exists>s'. acpi_parse_madt cpu_example (?m 8) 0x1000 boot_example = Some s'"
    unfolding t by blast
  ultimately show ?thesis by auto
qed

end
