(* ===== verification/Thread.thy ===== *)
theory Thread
  imports Kmem Sched
begin

text \<open>
  Task states and the context switch (\<^verbatim>\<open>arch/x86_64/thread.c\<close>, \<^verbatim>\<open>kernel/thread.c\<close>,
  \<open>ret_to_userspace\<close> of \<^verbatim>\<open>arch/x86_64/entry.S\<close>). The assembly is modelled instruction by instruction on the registers and
  the memory it touches: \<open>tasks\<close> holds the task states by address, \<open>stack\<close> the words of the stacks.
\<close>

record task_state =
  ts_rsp :: u64
  ts_rip :: u64
  ts_flags :: u32

abbreviation TIF_NEW_BIT :: nat where "TIF_NEW_BIT \<equiv> 0"
abbreviation TIF_NEW :: u32 where "TIF_NEW \<equiv> 1"
abbreviation sizeof_task_state :: u64 where "sizeof_task_state \<equiv> 24"

type_synonym tasks = "u64 \<Rightarrow> task_state"

definition task_state_init :: "u64 \<Rightarrow> u64 \<Rightarrow> u64 \<Rightarrow> tasks \<Rightarrow> tasks" where
  "task_state_init t rip rsp tasks = tasks(t := (tasks t)\<lparr>ts_rsp := rsp, ts_rip := rip\<rparr>)"

definition task_state_new :: "u64 \<Rightarrow> u64 \<Rightarrow> tasks \<times> ('t, 'c) kmem_state \<Rightarrow> (u64 \<times> tasks \<times> ('t, 'c) kmem_state) option" where
  "task_state_new rip rsp = (\<lambda>(tasks, k).
     do { (ret, k) \<leftarrow> kmem_alloc sizeof_task_state k;
          Some (ret, if ret \<noteq> 0 then tasks(ret := \<lparr>ts_rsp = rsp, ts_rip = rip, ts_flags = TIF_NEW\<rparr>) else tasks, k) })"

definition task_state_delete :: "u64 \<Rightarrow> ('t, 'c) kmem_state \<Rightarrow> ('t, 'c) kmem_state option" where
  "task_state_delete t k = kmem_free t sizeof_task_state k"

definition task_state_stack_top :: "u64 \<Rightarrow> tasks \<Rightarrow> u64" where
  "task_state_stack_top t tasks = ts_rsp (tasks t)"

definition task_state_entry_point :: "u64 \<Rightarrow> tasks \<Rightarrow> u64" where
  "task_state_entry_point t tasks = ts_rip (tasks t)"

text \<open>A thread (\<^verbatim>\<open>kernel/thread.c\<close>) is its task state; \<open>t\<close> is its address.\<close>

definition thread_create :: "u64 \<Rightarrow> u64 \<Rightarrow> u64 \<Rightarrow> tasks \<Rightarrow> int \<times> tasks" where
  "thread_create t start_fn sp tasks = (0, task_state_init t start_fn sp tasks)"

subsection \<open>The context switch\<close>

record thread =
  th_rip :: u64
  th_rsp :: u64
  th_rbp :: u64
  th_user :: bool
  th_stack :: "u64 \<Rightarrow> u64"
  th_tasks :: tasks

definition push :: "u64 \<Rightarrow> thread \<Rightarrow> thread" where
  "push w c = c\<lparr>th_rsp := th_rsp c - 8, th_stack := (th_stack c)(th_rsp c - 8 := w)\<rparr>"

definition pop_rbp :: "thread \<Rightarrow> thread" where
  "pop_rbp c = c\<lparr>th_rbp := th_stack c (th_rsp c), th_rsp := th_rsp c + 8\<rparr>"

text \<open>The frame for \<open>iretq\<close> is built on the stack of the kernel; \<open>iretq\<close> then loads from it. \<open>flags\<close>
  is what \<open>pushfq\<close> stores.\<close>

abbreviation X86_USER_DS :: u64 where "X86_USER_DS \<equiv> 0x1b"
abbreviation X86_USER_CS :: u64 where "X86_USER_CS \<equiv> 0x23"

definition ret_to_userspace :: "u64 \<Rightarrow> u64 \<Rightarrow> u64 \<Rightarrow> thread \<Rightarrow> thread" where
  "ret_to_userspace flags rip rsp c =
     (let c = push X86_USER_DS c; c = push rsp c; c = push (flags OR 0x200) c; c = push X86_USER_CS c; c = push rip c
      in c\<lparr>th_rip := th_stack c (th_rsp c), th_rsp := th_stack c (th_rsp c + 24), th_user := True\<rparr>)"

text \<open>The second half of both functions: the flag of a new task is tested and cleared, and the task
  starts in user space, or goes on where it left the processor. At the label behind the jump, \<open>resume\<close>,
  the frame pointer is popped.\<close>

definition switch_load :: "u64 \<Rightarrow> u64 \<Rightarrow> u64 \<Rightarrow> thread \<Rightarrow> thread" where
  "switch_load resume flags new c =
     (let t = th_tasks c new;
          carry = bit (ts_flags t) TIF_NEW_BIT;
          c = c\<lparr>th_tasks := (th_tasks c)(new := t\<lparr>ts_flags := unset_bit TIF_NEW_BIT (ts_flags t)\<rparr>)\<rparr>;
          rdi = ts_rip t; rsi = ts_rsp t
      in if carry then ret_to_userspace flags rdi rsi c
         else let c = c\<lparr>th_rsp := rsi, th_rip := rdi\<rparr> in if rdi = resume then pop_rbp c else c)"

definition switch_to_first :: "u64 \<Rightarrow> u64 \<Rightarrow> u64 \<Rightarrow> thread \<Rightarrow> thread" where
  "switch_to_first resume flags new c = switch_load resume flags new (push (th_rbp c) c)"

definition switch_to :: "u64 \<Rightarrow> u64 \<Rightarrow> u64 \<Rightarrow> u64 \<Rightarrow> thread \<Rightarrow> thread" where
  "switch_to resume flags old new c =
     (let c = push (th_rbp c) c;
          c = c\<lparr>th_tasks := (th_tasks c)(old := (th_tasks c old)\<lparr>ts_rip := resume\<rparr>)\<rparr>;
          c = c\<lparr>th_tasks := (th_tasks c)(old := (th_tasks c old)\<lparr>ts_rsp := th_rsp c\<rparr>)\<rparr>
      in switch_load resume flags new c)"

text \<open>The switch that \<open>schedule\<close> ends with.\<close>

fun do_switch :: "u64 \<Rightarrow> u64 \<Rightarrow> switch \<Rightarrow> thread \<Rightarrow> thread" where
  "do_switch resume flags NoSwitch c = c"
| "do_switch resume flags (SwitchTo old new) c = switch_to resume flags old new c"
| "do_switch resume flags (SwitchToFirst new) c = switch_to_first resume flags new c"

subsection \<open>Switching away and back\<close>

lemma new_task_starts:
  assumes "bit (ts_flags (th_tasks c new)) TIF_NEW_BIT"
  shows "th_user (switch_load resume flags new c)" and "th_rip (switch_load resume flags new c) = ts_rip (th_tasks c new)"
    and "th_rsp (switch_load resume flags new c) = ts_rsp (th_tasks c new)"
    and "\<not> bit (ts_flags (th_tasks (switch_load resume flags new c) new)) TIF_NEW_BIT"
  using assms by (simp_all add: switch_load_def ret_to_userspace_def push_def Let_def bit_unset_bit_iff)

lemma old_task_resumes:
  assumes "\<not> bit (ts_flags (th_tasks c new)) TIF_NEW_BIT" and "ts_rip (th_tasks c new) = resume"
  shows "th_rip (switch_load resume flags new c) = resume" and "th_rsp (switch_load resume flags new c) = ts_rsp (th_tasks c new) + 8"
    and "th_rbp (switch_load resume flags new c) = th_stack c (ts_rsp (th_tasks c new))"
    and "th_user (switch_load resume flags new c) = th_user c"
  using assms by (simp_all add: switch_load_def pop_rbp_def Let_def)

lemma switch_load_keeps:
  assumes "old \<noteq> new"
  shows "th_tasks (switch_load resume flags new c) old = th_tasks c old"
    and "th_stack (switch_load resume flags new c) (th_rsp c) = th_stack c (th_rsp c)"
  using assms by (simp_all add: switch_load_def ret_to_userspace_def push_def pop_rbp_def Let_def)

definition save_task :: "u64 \<Rightarrow> u64 \<Rightarrow> thread \<Rightarrow> thread" where
  "save_task resume old c = (push (th_rbp c) c)\<lparr>th_tasks := (th_tasks c)(old := (th_tasks c old)\<lparr>ts_rip := resume, ts_rsp := th_rsp c - 8\<rparr>)\<rparr>"

lemma switch_to_save: "switch_to resume flags old new c = switch_load resume flags new (save_task resume old c)"
  by (simp add: switch_to_def save_task_def push_def Let_def)

text \<open>C39: a task that gives up the processor in \<open>switch_to\<close> gets it back where it was. Whatever runs in
  between, as long as it leaves the task state and the word of the frame pointer alone, a later switch
  to the task, from any other, ends behind the jump with the stack pointer and the frame pointer the task
  had. A task switched to for the first time starts in user space at its entry point with its stack, and
  only once: its flag is clear afterwards.\<close>

theorem switch_round_trip:
  assumes "old \<noteq> new" and "old \<noteq> other" and "\<not> bit (ts_flags (th_tasks c old)) TIF_NEW_BIT"
    and "c1 = switch_to resume flags old new c"
    and "th_tasks c2 old = th_tasks c1 old" and "th_stack c2 (th_rsp c - 8) = th_stack c1 (th_rsp c - 8)" and "th_rsp c2 \<noteq> th_rsp c"
    and "c3 = switch_to resume flags' other old c2"
  shows "th_rip c3 = resume \<and> th_rsp c3 = th_rsp c \<and> th_rbp c3 = th_rbp c \<and> th_user c3 = th_user c2
    \<and> (bit (ts_flags (th_tasks c new)) TIF_NEW_BIT \<longrightarrow>
        th_user c1 \<and> th_rip c1 = ts_rip (th_tasks c new) \<and> th_rsp c1 = ts_rsp (th_tasks c new)
        \<and> \<not> bit (ts_flags (th_tasks c1 new)) TIF_NEW_BIT)"
proof -
  let ?s = "save_task resume old c" and ?s2 = "save_task resume other c2"
  have "th_tasks c1 old = th_tasks ?s old" "th_stack c1 (th_rsp c - 8) = th_stack ?s (th_rsp c - 8)"
    using switch_load_keeps [OF assms(1), of resume flags ?s] unfolding assms(4) switch_to_save by (simp_all add: save_task_def push_def)
  then have old: "th_tasks c2 old = (th_tasks c old)\<lparr>ts_rip := resume, ts_rsp := th_rsp c - 8\<rparr>" "th_stack c2 (th_rsp c - 8) = th_rbp c"
    using assms(5,6) by (simp_all add: save_task_def push_def)
  then have "th_tasks ?s2 old = (th_tasks c old)\<lparr>ts_rip := resume, ts_rsp := th_rsp c - 8\<rparr>" "th_stack ?s2 (th_rsp c - 8) = th_rbp c"
    "th_user ?s2 = th_user c2"
    using assms(2,7) by (simp_all add: save_task_def push_def)
  then have "th_rip c3 = resume \<and> th_rsp c3 = th_rsp c \<and> th_rbp c3 = th_rbp c \<and> th_user c3 = th_user c2"
    using old_task_resumes [of ?s2 old resume flags'] assms(3) unfolding assms(8) switch_to_save by simp
  moreover have "th_user c1 \<and> th_rip c1 = ts_rip (th_tasks c new) \<and> th_rsp c1 = ts_rsp (th_tasks c new)
      \<and> \<not> bit (ts_flags (th_tasks c1 new)) TIF_NEW_BIT" if "bit (ts_flags (th_tasks c new)) TIF_NEW_BIT"
  proof -
    have n: "th_tasks ?s new = th_tasks c new" using assms(1) by (simp add: save_task_def push_def)
    show ?thesis using new_task_starts [of ?s new resume flags] that unfolding assms(4) switch_to_save n by simp
  qed
  ultimately show ?thesis by blast
qed

definition thread_example :: thread where
  "thread_example = \<lparr>th_rip = 0, th_rsp = 0x9000, th_rbp = 0x9010, th_user = False, th_stack = (\<lambda>_. 0),
     th_tasks = (\<lambda>t. \<lparr>ts_rsp = 0x40000000, ts_rip = 0x401000, ts_flags = (if t = 0x200 then TIF_NEW else 0)\<rparr>)\<rparr>"

theorem switch_round_trip_witness:
  "th_rsp (switch_to 0x77 0 0x300 0x100 ((switch_to 0x77 0 0x100 0x200 thread_example)\<lparr>th_user := False\<rparr>)) = 0x9000
   \<and> th_user (switch_to 0x77 0 0x100 0x200 thread_example) \<and> th_rip (switch_to 0x77 0 0x100 0x200 thread_example) = 0x401000"
proof -
  let ?c1 = "switch_to 0x77 0 0x100 0x200 thread_example"
  have t: "th_tasks thread_example 0x200 = \<lparr>ts_rsp = 0x40000000, ts_rip = 0x401000, ts_flags = TIF_NEW\<rparr>" "th_rsp thread_example = 0x9000"
    "ts_flags (th_tasks thread_example 0x100) = 0"
    by (simp_all add: thread_example_def)
  have "th_rsp ?c1 = 0x40000000"
    using new_task_starts(3) [of "save_task 0x77 0x100 thread_example" "0x200" "0x77" 0]
    by (simp add: switch_to_save save_task_def push_def thread_example_def)
  then show ?thesis
    using switch_round_trip [of "0x100" "0x200" "0x300" thread_example ?c1 "0x77" 0 "?c1\<lparr>th_user := False\<rparr>" _ 0, OF _ _ _ refl _ _ _ refl] t
    by simp
qed

end
