(* ===== verification/Event.thy ===== *)
theory Event
  imports RingBuffer Sched
begin

text \<open>
  Events from the kernel to processes (\<^verbatim>\<open>kernel/event.rs\<close>, \<open>on_event\<close> of \<^verbatim>\<open>kernel/process.rs\<close>). The
  event queue of a process is a ring buffer in its memory; the kernel keeps its virtual address in the process,
  and uses it in whatever address space is loaded at the time. \<open>rings\<close> is the store of the ring buffers of the
  loaded address space, by address. A listener is a process, by its number.
\<close>

datatype Event = PacketIO u64 u64

type_synonym rings = "u64 \<Rightarrow> atomic_ring_buffer"

text \<open>The bytes of a \<open>RawEvent\<close>: type, address and length.\<close>

abbreviation sizeof_RawEvent :: u64 where "sizeof_RawEvent \<equiv> 24"

fun RawEvent :: "Event \<Rightarrow> u8 list" where
  "RawEvent (PacketIO addr len) = enc64 1 @ enc64 addr @ enc64 len"

definition EventQueue_new :: "u8 list \<Rightarrow> u64 \<Rightarrow> atomic_ring_buffer option" where
  "EventQueue_new buf sz = atomic_ring_buffer_new buf sz sizeof_RawEvent"

text \<open>An event that does not fit is lost: the result of \<open>emplace\<close> is dropped.\<close>

definition EventQueue_emplace :: "u64 \<Rightarrow> Event \<Rightarrow> rings \<Rightarrow> rings option" where
  "EventQueue_emplace queue ev rings =
     map_option (\<lambda>(_, q). rings(queue := q)) (atomic_ring_buffer_emplace (rings queue) (RawEvent ev))"

definition Process_on_event :: "('v, 'x) kernel \<Rightarrow> nat \<Rightarrow> Event \<Rightarrow> rings \<Rightarrow> rings option" where
  "Process_on_event k p ev rings = EventQueue_emplace (pr_events (procs k p)) ev rings"

record EventNotifier =
  en_name :: string
  en_listeners :: "nat list"

definition EventNotifier_new :: "string \<Rightarrow> EventNotifier" where
  "EventNotifier_new name = \<lparr>en_name = name, en_listeners = []\<rparr>"

definition add_listener :: "nat \<Rightarrow> EventNotifier \<Rightarrow> EventNotifier" where
  "add_listener p n = n\<lparr>en_listeners := en_listeners n @ [p]\<rparr>"

fun notify_listeners :: "('v, 'x) kernel \<Rightarrow> nat list \<Rightarrow> Event \<Rightarrow> rings \<Rightarrow> rings option" where
  "notify_listeners k [] ev rings = Some rings"
| "notify_listeners k (p # ps) ev rings = do { rings \<leftarrow> Process_on_event k p ev rings; notify_listeners k ps ev rings }"

definition EventNotifier_on_event :: "('v, 'x) kernel \<Rightarrow> EventNotifier \<Rightarrow> Event \<Rightarrow> rings \<Rightarrow> rings option" where
  "EventNotifier_on_event k n ev rings = notify_listeners k (en_listeners n) ev rings"

subsection \<open>What the queues hold\<close>

definition event_ring :: "atomic_ring_buffer \<Rightarrow> bool" where
  "event_ring q \<longleftrightarrow> ring_wf q \<and> q_element_size q = sizeof_RawEvent"

text \<open>The elements of a ring of \<open>n\<close> slots, one of which stays free, after \<open>es\<close> were offered to it.\<close>

definition offered :: "nat \<Rightarrow> 'e list \<Rightarrow> 'e list \<Rightarrow> 'e list" where
  "offered n xs es = take (n - 1) (xs @ es)"

lemma length_RawEvent [simp]: "length (RawEvent ev) = 24"
  by (cases ev) simp

lemma offered_append: "length xs < n \<Longrightarrow> offered n (offered n xs es) fs = offered n xs (es @ fs)"
  by (cases "length es \<le> n - Suc (length xs)") (auto simp: offered_def)

lemma event_ring_bound: "event_ring q \<Longrightarrow> length (ring_list q) < ring_slots q"
  using ring_count_bound [of q] by (simp add: event_ring_def)

lemma offered_nil: "event_ring q \<Longrightarrow> offered (ring_slots q) (ring_list q) [] = ring_list q"
  using event_ring_bound [of q] by (simp add: offered_def)

lemma EventQueue_new_ring:
  assumes "length buf = 4096"
  shows "\<exists>q. EventQueue_new buf 4096 = Some q \<and> event_ring q \<and> ring_list q = [] \<and> ring_slots q = 162"
proof -
  obtain q where q: "EventQueue_new buf 4096 = Some q"
    using assms by (auto simp: EventQueue_new_def atomic_ring_buffer_new_def sizeof_atomic_ring_buffer_def Let_def)
  then have "atomic_ring_buffer_new buf (of_nat (length buf)) 24 = Some q" using assms by (simp add: EventQueue_new_def)
  from ring_new_wf [OF this] assms show ?thesis using q by (simp add: event_ring_def sizeof_atomic_ring_buffer_def)
qed

lemma EventQueue_emplace_offers:
  assumes "event_ring (rings a)"
  shows "\<exists>q. EventQueue_emplace a ev rings = Some (rings(a := q)) \<and> event_ring q \<and> ring_slots q = ring_slots (rings a)
    \<and> ring_list q = offered (ring_slots (rings a)) (ring_list (rings a)) [RawEvent ev]"
proof (cases "Suc (ring_count (rings a)) < ring_slots (rings a)")
  case True
  then obtain q where "atomic_ring_buffer_emplace (rings a) (RawEvent ev) = Some (True, q)" "ring_wf q"
      "ring_list q = ring_list (rings a) @ [RawEvent ev]" "ring_slots q = ring_slots (rings a)" "q_element_size q = q_element_size (rings a)"
    using assms ring_emplace_room [of "rings a" "RawEvent ev"] by (auto simp: event_ring_def)
  then show ?thesis using True assms by (auto simp: EventQueue_emplace_def event_ring_def offered_def)
next
  case False
  then have "Suc (ring_count (rings a)) = ring_slots (rings a)" using assms ring_count_bound [of "rings a"] by (simp add: event_ring_def)
  then have "atomic_ring_buffer_emplace (rings a) (RawEvent ev) = Some (False, rings a)" "length (ring_list (rings a)) = ring_slots (rings a) - 1"
    using assms ring_emplace_full [of "rings a"] by (auto simp: event_ring_def)
  then have "EventQueue_emplace a ev rings = Some (rings(a := rings a))" "ring_list (rings a) = offered (ring_slots (rings a)) (ring_list (rings a)) [RawEvent ev]"
    by (simp_all add: EventQueue_emplace_def offered_def)
  with assms show ?thesis by blast
qed

text \<open>A relation between the rings before and after events were offered: \<open>evs a\<close> to the ring at \<open>a\<close>.\<close>

definition rings_offered :: "rings \<Rightarrow> (u64 \<Rightarrow> Event list) \<Rightarrow> rings \<Rightarrow> bool" where
  "rings_offered r evs r' \<longleftrightarrow>
     (\<forall>a. if evs a = [] then r' a = r a
          else event_ring (r' a) \<and> ring_slots (r' a) = ring_slots (r a)
            \<and> ring_list (r' a) = offered (ring_slots (r a)) (ring_list (r a)) (map RawEvent (evs a)))"

lemma rings_offered_refl: "rings_offered r (\<lambda>_. []) r"
  by (simp add: rings_offered_def)

lemma rings_offered_ring: "rings_offered r evs r' \<Longrightarrow> event_ring (r a) \<Longrightarrow> event_ring (r' a)"
  unfolding rings_offered_def by metis

lemma rings_offered_trans:
  assumes "rings_offered r f r1" and "rings_offered r1 g r2" and "\<And>a. g a \<noteq> [] \<Longrightarrow> event_ring (r a)"
  shows "rings_offered r (\<lambda>a. f a @ g a) r2"
  unfolding rings_offered_def
proof
  fix a
  show "if f a @ g a = [] then r2 a = r a
        else event_ring (r2 a) \<and> ring_slots (r2 a) = ring_slots (r a)
          \<and> ring_list (r2 a) = offered (ring_slots (r a)) (ring_list (r a)) (map RawEvent (f a @ g a))"
    using assms(1,2) [unfolded rings_offered_def, rule_format, of a] assms(3) [of a] event_ring_bound [of "r a"]
    by (cases "f a = []"; cases "g a = []") (auto simp: offered_append)
qed

text \<open>What the listeners \<open>ps\<close> are offered at address \<open>a\<close>: the event once for every listener whose queue
  is there.\<close>

definition event_copies :: "('v, 'x) kernel \<Rightarrow> nat list \<Rightarrow> Event \<Rightarrow> u64 \<Rightarrow> Event list" where
  "event_copies k ps ev a = replicate (length (filter (\<lambda>p. pr_events (procs k p) = a) ps)) ev"

lemma event_copies_Cons: "event_copies k (p # ps) ev = (\<lambda>a. event_copies k [p] ev a @ event_copies k ps ev a)"
  by (auto simp: event_copies_def)

lemma notify_listeners_offers:
  assumes "\<forall>p \<in> set ps. event_ring (rings (pr_events (procs k p)))"
  shows "\<exists>r'. notify_listeners k ps ev rings = Some r' \<and> rings_offered rings (event_copies k ps ev) r'"
  using assms
proof (induction ps arbitrary: rings)
  case Nil
  then show ?case by (simp add: rings_offered_def event_copies_def)
next
  case (Cons p ps)
  let ?a = "pr_events (procs k p)"
  obtain q where q: "EventQueue_emplace ?a ev rings = Some (rings(?a := q))" "event_ring q" "ring_slots q = ring_slots (rings ?a)"
      "ring_list q = offered (ring_slots (rings ?a)) (ring_list (rings ?a)) [RawEvent ev]"
    using EventQueue_emplace_offers [of rings ?a ev] Cons.prems by auto
  have one: "rings_offered rings (event_copies k [p] ev) (rings(?a := q))"
    using q by (auto simp: rings_offered_def event_copies_def)
  have "\<forall>p \<in> set ps. event_ring ((rings(?a := q)) (pr_events (procs k p)))" using Cons.prems q(2) by simp
  from Cons.IH [OF this] obtain r' where
    r': "notify_listeners k ps ev (rings(?a := q)) = Some r'" "rings_offered (rings(?a := q)) (event_copies k ps ev) r'" by blast
  have "rings_offered rings (event_copies k (p # ps) ev) r'"
    using Cons.prems
    by (subst event_copies_Cons, intro rings_offered_trans [OF one r'(2)]) (auto simp: event_copies_def filter_empty_conv)
  then show ?case using q(1) r'(1) by (simp add: Process_on_event_def)
qed

text \<open>An empty queue for two events.\<close>

definition ring24_example :: atomic_ring_buffer where
  "ring24_example = \<lparr>q_element_size = 24, q_capacity = 72, q_tail = 0, q_head = 0, q_data = replicate 72 0\<rparr>"

lemma ring24_example_wf: "event_ring ring24_example" "ring_list ring24_example = []" "ring_slots ring24_example = 3"
  by (simp_all add: event_ring_def ring_wf_def ring_off_def ring_list_def ring_count_def ring_idx_def ring_dist_def ring_slots_def ring24_example_def)

end
