(* ===== verification/Init.thy ===== *)
theory Init
  imports BootProofs Thread Event
begin

text \<open>
  From the boot loader to the first process: \<^verbatim>\<open>kernel/init.c\<close>, \<^verbatim>\<open>kernel/initrd.c\<close> and
  \<open>process_spawn\<close> of \<^verbatim>\<open>kernel/process.rs\<close>. The ELF file reader is the \<^verbatim>\<open>xmas-elf\<close> crate: a
  parameter that yields, for an image in memory, its program headers, its \<^verbatim>\<open>.bss\<close> section and its entry
  point, or nothing for an image that is not an ELF file.
\<close>

record elf_phdr =
  ph_load :: bool
  ph_read :: bool
  ph_write :: bool
  ph_execute :: bool
  ph_virtual_addr :: u64
  ph_mem_size :: u64
  ph_offset :: u64
  ph_file_size :: u64

record elf_file =
  elf_phdrs :: "elf_phdr list"
  elf_bss :: "(u64 \<times> u64) option"
  elf_entry :: u64

text \<open>What the loader is given: the reader, the tree of the regions, what copying a page of the image
  and clearing a range do to the memory, and the bytes that a fresh page holds.\<close>

record ('v, 't, 'c) loader =
  ld_elf :: "u64 \<Rightarrow> u64 \<Rightarrow> elf_file option"
  ld_tree :: "'v region_tree"
  ld_copy :: "u64 \<Rightarrow> u64 \<Rightarrow> ('t, 'c) mmu_state \<Rightarrow> ('t, 'c) mmu_state"
  ld_clear :: "u64 \<Rightarrow> u64 \<Rightarrow> ('t, 'c) mmu_state \<Rightarrow> ('t, 'c) mmu_state"
  ld_page :: "u64 \<Rightarrow> u8 list"

record ('v, 'x, 't, 'c, 'd) machine =
  ma_boot :: "('t, 'c, 'd) boot"
  ma_kmem :: "('t, 'c) kmem_state"
  ma_tasks :: tasks
  ma_rings :: rings
  ma_kernel :: "('v, 'x) kernel"

abbreviation ma_mm :: "('v, 'x, 't, 'c, 'd) machine \<Rightarrow> ('t, 'c) mmu_state" where
  "ma_mm m \<equiv> bt_mm (ma_boot m)"

definition set_mm :: "('t, 'c) mmu_state \<Rightarrow> ('v, 'x, 't, 'c, 'd) machine \<Rightarrow> ('v, 'x, 't, 'c, 'd) machine" where
  "set_mm mm m = m\<lparr>ma_boot := (ma_boot m)\<lparr>bt_mm := mm\<rparr>\<rparr>"

text \<open>The object allocator takes its pages from the page allocator of the machine.\<close>

definition on_kmem ::
  "(('t, 'c) kmem_state \<Rightarrow> ('r \<times> ('t, 'c) kmem_state) option) \<Rightarrow> ('v, 'x, 't, 'c, 'd) machine \<Rightarrow> ('r \<times> ('v, 'x, 't, 'c, 'd) machine) option" where
  "on_kmem f m =
     do { (r, k) \<leftarrow> f ((ma_kmem m)\<lparr>km_pages := mm_pages (ma_mm m)\<rparr>);
          Some (r, set_mm ((ma_mm m)\<lparr>mm_pages := km_pages k\<rparr>) (m\<lparr>ma_kmem := k\<rparr>)) }"

subsection \<open>Loading an image\<close>

definition elf_phdr_flags_to_prot :: "elf_phdr \<Rightarrow> u32" where
  "elf_phdr_flags_to_prot ph =
     (let prot = 0;
          prot = (if ph_read ph then prot OR VM_PROT_READ else prot);
          prot = (if ph_write ph then prot OR VM_PROT_WRITE else prot)
      in if ph_execute ph then prot OR VM_PROT_EXEC else prot)"

text \<open>A segment that cannot be allocated or filled makes the kernel panic.\<close>

definition load_segment ::
  "('v, 't, 'c) loader \<Rightarrow> u64 \<Rightarrow> elf_phdr \<Rightarrow> 'v VMAddressSpace \<times> ('t, 'c) mmu_state \<Rightarrow> ('v VMAddressSpace \<times> ('t, 'c) mmu_state) option" where
  "load_segment L image_start ph = (\<lambda>(vs, mm).
     let prot = elf_phdr_flags_to_prot ph;
         start = ph_virtual_addr ph;
         end = align_up (start + ph_mem_size ph) PAGE_SIZE_SMALL
     in case vm_allocate_fixed start end prot vs of
          (Inl e, vs) \<Rightarrow> None
        | (Inr _, vs) \<Rightarrow>
            (let src_start = image_start + ph_offset ph; src_end = src_start + ph_file_size ph
             in case vm_populate_from (ld_copy L) start end src_start src_end vs mm of
                  Some (Inr _, vs, mm) \<Rightarrow> Some (vs, mm)
                | _ \<Rightarrow> None))"

fun load_segments ::
  "('v, 't, 'c) loader \<Rightarrow> u64 \<Rightarrow> elf_phdr list \<Rightarrow> 'v VMAddressSpace \<times> ('t, 'c) mmu_state \<Rightarrow> ('v VMAddressSpace \<times> ('t, 'c) mmu_state) option" where
  "load_segments L image_start [] vm = Some vm"
| "load_segments L image_start (ph # phs) vm =
     do { vm \<leftarrow> (if ph_load ph then load_segment L image_start ph vm else Some vm); load_segments L image_start phs vm }"

definition parse_elf_image ::
  "('v, 't, 'c) loader \<Rightarrow> u64 \<Rightarrow> u64 \<Rightarrow> 'v VMAddressSpace \<Rightarrow> ('t, 'c) mmu_state \<Rightarrow> (u64 \<times> 'v VMAddressSpace \<times> ('t, 'c) mmu_state) option" where
  "parse_elf_image L image_start image_size vs mm =
     do { elf \<leftarrow> ld_elf L image_start image_size;
          (vs, mm) \<leftarrow> load_segments L image_start (elf_phdrs elf) (vs, mm);
          let mm = (case elf_bss elf of Some (a, n) \<Rightarrow> ld_clear L a n mm | None \<Rightarrow> mm);
          Some (elf_entry elf, vs, mm) }"

text \<open>Allocate and fill a fixed range; on an error its number is the result.\<close>

definition vm_reserve ::
  "u64 \<Rightarrow> u64 \<Rightarrow> 'v VMAddressSpace \<Rightarrow> ('t, 'c) mmu_state \<Rightarrow> ((int + unit) \<times> 'v VMAddressSpace \<times> ('t, 'c) mmu_state) option" where
  "vm_reserve start end vs mm =
     (case vm_allocate_fixed start end VM_PROT_RW vs of
        (Inl e, vs) \<Rightarrow> Some (Inl e, vs, mm)
      | (Inr _, vs) \<Rightarrow> vm_populate start end vs mm)"

text \<open>\<open>p\<close> is the number of the new process. The result of \<open>task_state_new\<close> is not checked.\<close>

definition process_spawn ::
  "('v, 't, 'c) loader \<Rightarrow> nat \<Rightarrow> u64 \<Rightarrow> u64 \<Rightarrow> ('v, 'x, 't, 'c, 'd) machine \<Rightarrow> (int \<times> ('v, 'x, 't, 'c, 'd) machine) option" where
  "process_spawn L p image_start image_size m =
     do { let mmu_map = mmu_current_map (ma_mm m);
          let vmspace = VMAddressSpace_new (ld_tree L) mmu_map;
          (entry_point, vmspace, mm) \<leftarrow> parse_elf_image L image_start image_size vmspace (ma_mm m);
          let stack_top = 0x40000000;
          let stack_size = PAGE_SIZE_LARGE;
          let stack_start = stack_top - stack_size;
          (res, vmspace, mm) \<leftarrow> vm_reserve stack_start stack_top vmspace mm;
          (case res of
             Inl e \<Rightarrow> Some (- e, set_mm mm m)
           | Inr _ \<Rightarrow> do {
               let event_buf_start = 0x80000000;
               let event_buf_end = event_buf_start + 4096;
               (res, vmspace, mm) \<leftarrow> vm_reserve event_buf_start event_buf_end vmspace mm;
               (case res of
                  Inl e \<Rightarrow> Some (- e, set_mm mm m)
                | Inr _ \<Rightarrow> do {
                    event_queue \<leftarrow> EventQueue_new (ld_page L event_buf_start) 4096;
                    ((task_state, tasks), m) \<leftarrow> on_kmem (\<lambda>k. map_option (\<lambda>(t, tasks, k). ((t, tasks), k)) (task_state_new entry_point stack_top (ma_tasks m, k))) (set_mm mm m);
                    let process = \<lparr>pr_state = RUNNABLE, pr_task_state = task_state, pr_vmspace = vmspace, pr_devices = [],
                                   page_fault_fixup = 0, pr_events = event_buf_start\<rparr>;
                    k \<leftarrow> enqueue False p (update_proc p (\<lambda>_. process) (ma_kernel m));
                    Some (0, m\<lparr>ma_tasks := tasks, ma_rings := (ma_rings m)(event_buf_start := event_queue), ma_kernel := k\<rparr>) }) }) }"

subsection \<open>The start of the kernel\<close>

definition ma_printf :: "'d cpu \<Rightarrow> string \<Rightarrow> va_slot list \<Rightarrow> ('v, 'x, 't, 'c, 'd) machine \<Rightarrow> ('v, 'x, 't, 'c, 'd) machine option" where
  "ma_printf C fmt ap m = map_option (\<lambda>b. m\<lparr>ma_boot := b\<rparr>) (boot_printf C fmt ap (ma_boot m))"

definition initrd_load ::
  "'d cpu \<Rightarrow> ('v, 't, 'c) loader \<Rightarrow> nat \<Rightarrow> ('v, 'x, 't, 'c, 'd) machine \<Rightarrow> ('v, 'x, 't, 'c, 'd) machine option" where
  "initrd_load C L p m =
     (let start = initrd_start (ma_boot m)
      in if start = 0 then ma_printf C (''No initrd found.'' @ [CHR 0x0A]) [] m
         else do {
           let initrd_size = initrd_end (ma_boot m) - start;
           m \<leftarrow> ma_printf C (''Found initrd at %p (%lu bytes)'' @ [CHR 0x0A]) [VaWord start, VaWord initrd_size] m;
           (err, m) \<leftarrow> process_spawn L p start initrd_size m;
           if err \<noteq> 0 then ma_printf C (''Failed to spawn initrd process: %d'' @ [CHR 0x0A]) [VaWord (word_of_int err)] m
           else Some m })"

text \<open>One round of the idle task, after the processor was woken up.\<close>

definition idle_round :: "u64 \<Rightarrow> ('v, 'x) kernel \<Rightarrow> ('t, 'c) mmu_state \<Rightarrow> (switch \<times> ('v, 'x) kernel \<times> ('t, 'c) mmu_state) option" where
  "idle_round idle_task k mm = do { k \<leftarrow> wake_up_processes k; schedule idle_task k mm }"

text \<open>\<open>start_kernel\<close> up to the switch of the processor that ends it; \<open>page_alloc_init\<close> is empty. \<open>late\<close> is
  \<open>arch_late_setup\<close>, the registration of the drivers and the probing of the PCI devices.\<close>

definition start_kernel ::
  "'d cpu \<Rightarrow> ('v, 't, 'c) loader \<Rightarrow> (string \<Rightarrow> u64) \<Rightarrow> (u64 \<Rightarrow> u8) \<Rightarrow> u64 \<Rightarrow> u8 list \<Rightarrow>
   (('v, 'x, 't, 'c, 'd) machine \<Rightarrow> ('v, 'x, 't, 'c, 'd) machine option) \<Rightarrow> nat \<Rightarrow>
   ('v, 'x, 't, 'c, 'd) machine \<Rightarrow> ('d + switch \<times> ('v, 'x, 't, 'c, 'd) machine) option" where
  "start_kernel C L symb mem boot_data name0 late p m =
     do { let set_hw = (\<lambda>f m. m\<lparr>ma_boot := (ma_boot m)\<lparr>bt_x86 := (bt_x86 (ma_boot m))\<lparr>hw := f (hw (bt_x86 (ma_boot m)))\<rparr>\<rparr>\<rparr>);
          let m = set_hw (console_init (cpu_ports C)) m;
          m \<leftarrow> ma_printf C (''Booting kernel ...'' @ [CHR 0x0A]) [] m;
          r \<leftarrow> arch_early_setup C symb mem boot_data (ma_boot m);
          (case r of
             Inl d \<Rightarrow> Some (Inl d)
           | Inr b \<Rightarrow> do {
               (err, m) \<leftarrow> on_kmem (kmem_init name0) (m\<lparr>ma_boot := b\<rparr>);
               if err \<noteq> 0 then panic_halt C ''kmem_init failed'' [] (hw (bt_x86 (ma_boot m)))
               else do {
                 m \<leftarrow> late m;
                 let m = set_hw (arch_local_interrupt_enable C) m;
                 m \<leftarrow> initrd_load C L p m;
                 ((idle_task, tasks), m) \<leftarrow> on_kmem (\<lambda>k. map_option (\<lambda>(t, tasks, k). ((t, tasks), k))
                     (task_state_new (symb ''idle'') (symb ''idle_stack'' + PAGE_SIZE_SMALL) (ma_tasks m, k))) m;
                 if idle_task = 0 then panic_halt C ''unable to allocate idle task'' [] (hw (bt_x86 (ma_boot m)))
                 else do {
                   let tasks = tasks(idle_task := (tasks idle_task)\<lparr>ts_flags := 0\<rparr>);
                   (sw, k, mm) \<leftarrow> schedule idle_task (ma_kernel m) (ma_mm m);
                   Some (Inr (sw, set_mm mm (m\<lparr>ma_tasks := tasks, ma_kernel := k\<rparr>))) } } }) }"

end
