(* ===== verification/InitProofs.thy ===== *)
theory InitProofs
  imports Init
begin

text \<open>
  The first process: what \<open>process_spawn\<close> leaves behind, and that the kernel runs it.
\<close>

lemma vm_reserve_error: "vm_reserve start end vs mm = Some (Inl e, r) \<Longrightarrow> e \<noteq> 0"
  by (auto simp: vm_reserve_def vm_allocate_fixed_def vm_populate_def map_region_page_def Let_def EINVAL_def ENOMEM_def
      split: if_splits option.splits prod.splits bind_splits sum.splits)

text \<open>A process runs in the address space that is in use when it is spawned: loading its image and its stack
  changes the regions and the translation table, not which table it is.\<close>

lemma populate_pages_map:
  "populate_pages copy region start src offset n vs s = Some (res, vs', s') \<Longrightarrow> vm_mmu_map vs' = vm_mmu_map vs"
proof (induction n arbitrary: offset vs s)
  case (Suc n)
  then show ?case by (fastforce simp: Let_def split: bind_splits if_splits prod.splits)
qed simp

lemma vm_fixed_map:
  "vm_allocate_fixed start end prot vs = (res, vs') \<Longrightarrow> vm_mmu_map vs' = vm_mmu_map vs"
  "vm_populate_from copy start end src src_end vs s = Some (res', vs', s') \<Longrightarrow> vm_mmu_map vs' = vm_mmu_map vs"
  "vm_populate start end vs s = Some (res', vs', s') \<Longrightarrow> vm_mmu_map vs' = vm_mmu_map vs"
  by (auto simp: vm_allocate_fixed_def insert_region_def vm_populate_from_def vm_populate_def map_region_page_def Let_def
      dest: populate_pages_map split: if_splits option.splits bind_splits prod.splits)

lemma load_segments_map: "load_segments L start phs (vs, mm) = Some (vs', mm') \<Longrightarrow> vm_mmu_map vs' = vm_mmu_map vs"
proof (induction phs arbitrary: vs mm)
  case (Cons ph phs)
  have "vm_mmu_map vs1 = vm_mmu_map vs" if "load_segment L start ph (vs, mm) = Some (vs1, mm1)" for vs1 mm1
    using that by (auto simp: load_segment_def Let_def dest!: vm_fixed_map split: prod.splits sum.splits option.splits)
  then show ?case using Cons by (force split: if_splits bind_splits)
qed simp

lemma parse_elf_image_map: "parse_elf_image L start sz vs mm = Some (entry, vs', mm') \<Longrightarrow> vm_mmu_map vs' = vm_mmu_map vs"
  by (auto simp: parse_elf_image_def Let_def dest: load_segments_map split: bind_splits option.splits)

lemma vm_reserve_map: "vm_reserve start end vs mm = Some (res, vs', mm') \<Longrightarrow> vm_mmu_map vs' = vm_mmu_map vs \<and> res \<noteq> Inl 0"
  using vm_reserve_error [of start "end" vs mm 0 "(vs', mm')"]
  by (auto simp: vm_reserve_def dest!: vm_fixed_map split: prod.splits sum.splits)

lemma process_spawn_space:
  assumes "process_spawn L p start sz m = Some (0, m')"
  shows "vm_mmu_map (pr_vmspace (procs (ma_kernel m') p)) = mmu_current_map (ma_mm m)"
  using assms unfolding process_spawn_def Let_def
  by (auto simp: on_kmem_def set_mm_def enqueue_def replace_state_def update_proc_def VMAddressSpace_new_def
      dest!: vm_reserve_map parse_elf_image_map split: bind_splits prod.splits sum.splits if_splits)

lemma process_spawn_result:
  assumes "process_spawn L p start sz m = Some (0, m')" and "ld_elf L start sz = Some elf" and "\<not> linked p (ma_kernel m)"
  defines "pr \<equiv> procs (ma_kernel m') p"
  shows "CURRENT (ma_kernel m') = CURRENT (ma_kernel m)" and "RUNQUEUE (ma_kernel m') = RUNQUEUE (ma_kernel m) @ [p]"
    and "WAITQUEUE (ma_kernel m') = WAITQUEUE (ma_kernel m)" and "\<And>q. q \<noteq> p \<Longrightarrow> procs (ma_kernel m') q = procs (ma_kernel m) q"
    and "pr_state pr = RUNNABLE" and "pr_devices pr = []" and "pr_events pr = 0x80000000"
    and "pr_task_state pr \<noteq> 0 \<Longrightarrow> ma_tasks m' (pr_task_state pr) = \<lparr>ts_rsp = 0x40000000, ts_rip = elf_entry elf, ts_flags = TIF_NEW\<rparr>"
    and "length (ld_page L 0x80000000) = 4096 \<Longrightarrow> event_ring (ma_rings m' 0x80000000) \<and> ring_list (ma_rings m' 0x80000000) = []"
proof -
  have "CURRENT (ma_kernel m') = CURRENT (ma_kernel m) \<and> RUNQUEUE (ma_kernel m') = RUNQUEUE (ma_kernel m) @ [p]
    \<and> WAITQUEUE (ma_kernel m') = WAITQUEUE (ma_kernel m) \<and> (\<forall>q. q \<noteq> p \<longrightarrow> procs (ma_kernel m') q = procs (ma_kernel m) q)
    \<and> pr_state pr = RUNNABLE \<and> pr_devices pr = [] \<and> pr_events pr = 0x80000000
    \<and> (pr_task_state pr \<noteq> 0 \<longrightarrow> ma_tasks m' (pr_task_state pr) = \<lparr>ts_rsp = 0x40000000, ts_rip = elf_entry elf, ts_flags = TIF_NEW\<rparr>)
    \<and> EventQueue_new (ld_page L 0x80000000) 4096 = Some (ma_rings m' 0x80000000)"
    using assms(1,3) unfolding process_spawn_def Let_def pr_def
    by (auto simp: parse_elf_image_def assms(2) on_kmem_def task_state_new_def set_mm_def enqueue_def replace_state_def linked_def update_proc_def
      dest: vm_reserve_error split: bind_splits prod.splits sum.splits)
  then show "CURRENT (ma_kernel m') = CURRENT (ma_kernel m)" "RUNQUEUE (ma_kernel m') = RUNQUEUE (ma_kernel m) @ [p]"
    "WAITQUEUE (ma_kernel m') = WAITQUEUE (ma_kernel m)" "\<And>q. q \<noteq> p \<Longrightarrow> procs (ma_kernel m') q = procs (ma_kernel m) q"
    "pr_state pr = RUNNABLE" "pr_devices pr = []" "pr_events pr = 0x80000000"
    "pr_task_state pr \<noteq> 0 \<Longrightarrow> ma_tasks m' (pr_task_state pr) = \<lparr>ts_rsp = 0x40000000, ts_rip = elf_entry elf, ts_flags = TIF_NEW\<rparr>"
    "length (ld_page L 0x80000000) = 4096 \<Longrightarrow> event_ring (ma_rings m' 0x80000000) \<and> ring_list (ma_rings m' 0x80000000) = []"
    using EventQueue_new_ring [of "ld_page L 0x80000000"] by auto
qed

text \<open>C14: when the image of the initial ramdisk has been spawned in a kernel without processes, and its
  task state could be allocated (\<open>process_spawn\<close> does not check this), the kernel's next scheduling decision is
  the new process. The address space of the process is loaded, which is the one that was in use when it was
  spawned, and the context switch starts the entry point of the image in user space, on the stack below
  \<open>0x40000000\<close>. The event queue of the process is an empty ring buffer.\<close>

theorem first_process_runs:
  assumes "process_spawn L p start sz m = Some (0, m')" and "ld_elf L start sz = Some elf"
    and "sched_inv {} (ma_kernel m)" and "pr_task_state (procs (ma_kernel m') p) \<noteq> 0" and "th_tasks c = ma_tasks m'"
    and "length (ld_page L 0x80000000) = 4096"
  shows "\<exists>sw k mm. schedule idle_task (ma_kernel m') (ma_mm m') = Some (sw, k, mm) \<and> CURRENT k = Some p \<and> sched_inv {p} k
    \<and> mmu_current_map mm = vm_mmu_map (pr_vmspace (procs k p)) \<and> mmu_current_map mm = mmu_current_map (ma_mm m)
    \<and> th_user (do_switch resume flags sw c) \<and> th_rip (do_switch resume flags sw c) = elf_entry elf
    \<and> th_rsp (do_switch resume flags sw c) = 0x40000000
    \<and> event_ring (ma_rings m' (pr_events (procs k p))) \<and> ring_list (ma_rings m' (pr_events (procs k p))) = []"
proof -
  have e: "CURRENT (ma_kernel m) = None" "RUNQUEUE (ma_kernel m) = []" "WAITQUEUE (ma_kernel m) = []"
    using assms(3) by (auto simp: sched_inv_def current_list_def split: option.splits)
  then have nl: "\<not> linked p (ma_kernel m)" by (simp add: linked_def)
  note r = process_spawn_result [OF assms(1,2) nl]
  have inv: "sched_inv {p} (ma_kernel m')" using r(1,2,3,5) e by (simp add: sched_inv_def current_list_def)
  let ?t = "pr_task_state (procs (ma_kernel m') p)"
  obtain k mm where k: "schedule idle_task (ma_kernel m') (ma_mm m') = Some (SwitchToFirst ?t, k, mm)" "sched_inv {p} k" "CURRENT k = Some p"
      "mmu_current_map mm = vm_mmu_map (pr_vmspace (procs k p))"
    using dispatch_inv [OF inv, of idle_task "ma_mm m'"] r(1,2) e by (auto simp: space_loaded_def)
  have ev: "pr_events (procs k p) = 0x80000000" "pr_vmspace (procs k p) = pr_vmspace (procs (ma_kernel m') p)"
    using k(1) r(1,2,7) e by (auto simp: schedule_def take_current_def dequeue_def set_current_def update_proc_def)
  let ?c = "push (th_rbp c) c"
  have "th_tasks ?c ?t = \<lparr>ts_rsp = 0x40000000, ts_rip = elf_entry elf, ts_flags = TIF_NEW\<rparr>"
    using r(8) [OF assms(4)] assms(5) by (simp add: push_def)
  then show ?thesis
    using new_task_starts [of ?c ?t resume flags] k r(9) [OF assms(6)] ev process_spawn_space [OF assms(1)] by (simp add: switch_to_first_def)
qed

subsection \<open>An image to run\<close>

definition loader_example :: "(VMRegion list, MemorySegment list, MemorySegment list \<times> nat option) loader" where
  "loader_example = \<lparr>ld_elf = \<lambda>_ _. Some \<lparr>elf_phdrs = [], elf_bss = None, elf_entry = 0x401000\<rparr>,
     ld_tree = list_regions, ld_copy = \<lambda>_ _ s. s, ld_clear = \<lambda>_ _ s. s, ld_page = \<lambda>_. replicate 4096 0\<rparr>"

text \<open>A machine without processes, with an object of 32 bytes to spare.\<close>

definition machine_example :: "(VMRegion list, unit, MemorySegment list, MemorySegment list \<times> nat option, bool \<times> u8 list) machine" where
  "machine_example = \<lparr>ma_boot = boot_example\<lparr>bt_mm := vm_mmu_example\<rparr>,
     ma_kmem = \<lparr>km_pages = mm_pages vm_mmu_example,
       km_bufctls = [0x600 \<mapsto> \<lparr>bc_next = 0, bc_addr = 0xffffffff80100000, bc_slab = 0x500\<rparr>],
       km_slabs = [0x500 \<mapsto> \<lparr>sl_cache = 0x180, sl_head = 0x600, sl_base = 0xffffffff80100000, sl_next = 0, sl_nr_free = 1, sl_capacity = 1\<rparr>],
       km_caches = [0x180 \<mapsto> \<lparr>ca_bufctl = 8, ca_size = 32, ca_align = 8, ca_slab = 0x500, ca_name = []\<rparr>],
       km_bytes = \<lambda>_. 0, kmem_cache_cache = 0x100, kmem_slab_cache = 0x140, kmalloc_caches = 0x180\<rparr>,
     ma_tasks = \<lambda>_. \<lparr>ts_rsp = 0, ts_rip = 0, ts_flags = 0\<rparr>, ma_rings = \<lambda>_. ring24_example, ma_kernel = sched_example\<rparr>"

lemma machine_example_spawns:
  "map_option (\<lambda>(e, m). (e, pr_task_state (procs (ma_kernel m) 1))) (process_spawn loader_example 1 0x10000 0x1000 machine_example) =
     Some (0, 0xffffffff80100000)"
  by code_simp

theorem first_process_runs_witness:
  "\<exists>m' sw k mm. process_spawn loader_example 1 0x10000 0x1000 machine_example = Some (0, m')
     \<and> schedule 0x900 (ma_kernel m') (ma_mm m') = Some (sw, k, mm) \<and> CURRENT k = Some 1
     \<and> th_rip (do_switch 0x77 0 sw (thread_example\<lparr>th_tasks := ma_tasks m'\<rparr>)) = 0x401000"
proof -
  obtain m' where m': "process_spawn loader_example 1 0x10000 0x1000 machine_example = Some (0, m')" "pr_task_state (procs (ma_kernel m') 1) \<noteq> 0"
    using machine_example_spawns by auto
  have "sched_inv {} (ma_kernel machine_example)" by (simp add: machine_example_def sched_inv_def current_list_def sched_example_def)
  then show ?thesis
    using first_process_runs [OF m'(1) _ _ m'(2), of "\<lparr>elf_phdrs = [], elf_bss = None, elf_entry = 0x401000\<rparr>" "thread_example\<lparr>th_tasks := ma_tasks m'\<rparr>" "0x900" "0x77" 0]
      m'(1) by (auto simp: loader_example_def)
qed

end
