(* ===== verification/Virtio.thy ===== *)
theory Virtio
  imports Event IoQueue Kmem X86
begin

text \<open>
  The virtio network driver: \<^verbatim>\<open>kernel/ioport.rs\<close>, \<^verbatim>\<open>drivers/virtio/virtqueue.rs\<close> and
  \<^verbatim>\<open>drivers/virtio/net.rs\<close>. The descriptor table and the two rings of a virtqueue, which the driver
  shares with the device, are fields of the queue; what the device does to them is not the driver's
  code. A panic is \<open>None\<close>, also that of a checked index and of a remainder by zero.
\<close>

subsection \<open>Ports\<close>

datatype IOPort = Memory u64 u32 | IO u16 u32

text \<open>The check compares the offset with an address, not with the size of the port.\<close>

fun IOPort_remap :: "IOPort \<Rightarrow> u64 \<Rightarrow> u32 \<Rightarrow> IOPort option" where
  "IOPort_remap (Memory base_addr sz) offset new_size =
     (if offset > base_addr + ucast sz then None else Some (Memory (base_addr + offset) new_size))"
| "IOPort_remap (IO iobase sz) offset new_size =
     (if offset > ucast (ucast iobase + sz :: u32) then None else Some (IO (iobase + ucast offset) new_size))"

fun IOPort_read8 :: "'d ports \<Rightarrow> 'd mmio_bus \<Rightarrow> IOPort \<Rightarrow> u64 \<Rightarrow> 'd \<Rightarrow> u8 \<times> 'd" where
  "IOPort_read8 P B (Memory base_addr sz) offset d = mmio_read8 B (base_addr + offset) d"
| "IOPort_read8 P B (IO iobase sz) offset d = pio_read8 P (iobase + ucast offset) d"

fun IOPort_write8 :: "'d ports \<Rightarrow> 'd mmio_bus \<Rightarrow> IOPort \<Rightarrow> u8 \<Rightarrow> u64 \<Rightarrow> 'd \<Rightarrow> 'd" where
  "IOPort_write8 P B (Memory base_addr sz) v offset d = mmio_write8 B v (base_addr + offset) d"
| "IOPort_write8 P B (IO iobase sz) v offset d = pio_write8 P v (iobase + ucast offset) d"

fun IOPort_read16 :: "'d ports \<Rightarrow> 'd mmio_bus \<Rightarrow> IOPort \<Rightarrow> u64 \<Rightarrow> 'd \<Rightarrow> u16 \<times> 'd" where
  "IOPort_read16 P B (Memory base_addr sz) offset d = mmio_read16 B (base_addr + offset) d"
| "IOPort_read16 P B (IO iobase sz) offset d = pio_read16 P (iobase + ucast offset) d"

fun IOPort_write16 :: "'d ports \<Rightarrow> 'd mmio_bus \<Rightarrow> IOPort \<Rightarrow> u16 \<Rightarrow> u64 \<Rightarrow> 'd \<Rightarrow> 'd" where
  "IOPort_write16 P B (Memory base_addr sz) v offset d = mmio_write16 B v (base_addr + offset) d"
| "IOPort_write16 P B (IO iobase sz) v offset d = pio_write16 P v (iobase + ucast offset) d"

fun IOPort_read32 :: "'d ports \<Rightarrow> 'd mmio_bus \<Rightarrow> IOPort \<Rightarrow> u64 \<Rightarrow> 'd \<Rightarrow> u32 \<times> 'd" where
  "IOPort_read32 P B (Memory base_addr sz) offset d = mmio_read32 B (base_addr + offset) d"
| "IOPort_read32 P B (IO iobase sz) offset d = pio_read32 P (iobase + ucast offset) d"

fun IOPort_write32 :: "'d ports \<Rightarrow> 'd mmio_bus \<Rightarrow> IOPort \<Rightarrow> u32 \<Rightarrow> u64 \<Rightarrow> 'd \<Rightarrow> 'd" where
  "IOPort_write32 P B (Memory base_addr sz) v offset d = mmio_write32 B v (base_addr + offset) d"
| "IOPort_write32 P B (IO iobase sz) v offset d = pio_write32 P v (iobase + ucast offset) d"

text \<open>64 bits exist in memory only.\<close>

fun IOPort_read64 :: "'d mmio_bus \<Rightarrow> IOPort \<Rightarrow> u64 \<Rightarrow> 'd \<Rightarrow> (u64 \<times> 'd) option" where
  "IOPort_read64 B (Memory base_addr sz) offset d = Some (mmio_read64 B (base_addr + offset) d)"
| "IOPort_read64 B (IO iobase sz) offset d = None"

fun IOPort_write64 :: "'d mmio_bus \<Rightarrow> IOPort \<Rightarrow> u64 \<Rightarrow> u64 \<Rightarrow> 'd \<Rightarrow> 'd option" where
  "IOPort_write64 B (Memory base_addr sz) v offset d = Some (mmio_write64 B v (base_addr + offset) d)"
| "IOPort_write64 B (IO iobase sz) v offset d = None"

subsection \<open>Virtqueues\<close>

record VirtqDesc =
  vd_addr :: u64
  vd_len :: u32
  vd_flags :: u16
  vd_next :: u16

abbreviation VIRTQ_DESC_F_WRITE :: u16 where "VIRTQ_DESC_F_WRITE \<equiv> 2"

text \<open>An element of the used ring is the index of a descriptor and a length.\<close>

record Virtqueue =
  queue_idx :: u16
  queue_size :: u64
  notify_off :: u16
  last_seen_used :: u16
  raw_descriptor_table_ptr :: u64
  raw_available_ring_ptr :: u64
  raw_used_ring_ptr :: u64
  vq_desc :: "VirtqDesc list"
  avail_idx :: u16
  avail_ring :: "u16 list"
  used_idx :: u16
  used_ring :: "(u32 \<times> u32) list"

definition Virtqueue_new :: "u16 \<Rightarrow> u64 \<Rightarrow> u16 \<Rightarrow> ('t, 'c) kmem_state \<Rightarrow> (Virtqueue \<times> ('t, 'c) kmem_state) option" where
  "Virtqueue_new qi qs off k =
     do { (desc, k) \<leftarrow> kmem_zalloc (qs * 16) k;
          if desc = 0 then None else do {
          (avail, k) \<leftarrow> kmem_zalloc (qs * 2 + 6) k;
          if avail = 0 then None else do {
          (used, k) \<leftarrow> kmem_zalloc (qs * 4 + 6) k;
          if used = 0 then None
          else Some (\<lparr>queue_idx = qi, queue_size = qs, notify_off = off, last_seen_used = 0,
                      raw_descriptor_table_ptr = desc, raw_available_ring_ptr = avail, raw_used_ring_ptr = used,
                      vq_desc = replicate (unat qs) \<lparr>vd_addr = 0, vd_len = 0, vd_flags = 0, vd_next = 0\<rparr>,
                      avail_idx = 0, avail_ring = replicate (unat qs) 0, used_idx = 0, used_ring = replicate (unat qs) (0, 0)\<rparr>, k) } } }"

definition Virtqueue_free :: "Virtqueue \<Rightarrow> ('t, 'c) kmem_state \<Rightarrow> ('t, 'c) kmem_state option" where
  "Virtqueue_free vq k =
     do { k \<leftarrow> kmem_free (raw_descriptor_table_ptr vq) (queue_size vq * 16) k;
          k \<leftarrow> kmem_free (raw_available_ring_ptr vq) (queue_size vq * 2 + 6) k;
          kmem_free (raw_used_ring_ptr vq) (queue_size vq * 4 + 6) k }"

definition advance_last_seen_used :: "Virtqueue \<Rightarrow> Virtqueue" where
  "advance_last_seen_used vq = vq\<lparr>last_seen_used := last_seen_used vq + 1\<rparr>"

definition add_buf_idx :: "u16 \<Rightarrow> Virtqueue \<Rightarrow> Virtqueue option" where
  "add_buf_idx idx vq =
     (if (ucast (queue_size vq) :: u16) = 0 then None
      else do { ring \<leftarrow> wr (avail_ring vq) (unat (avail_idx vq mod ucast (queue_size vq))) idx;
                Some (vq\<lparr>avail_ring := ring, avail_idx := avail_idx vq + 1\<rparr>) })"

text \<open>The driver has one descriptor.\<close>

definition add_buf :: "u64 \<Rightarrow> u64 \<Rightarrow> u16 \<Rightarrow> Virtqueue \<Rightarrow> Virtqueue option" where
  "add_buf addr len flags vq =
     do { let idx = 0;
          table \<leftarrow> wr (vq_desc vq) (unat idx) \<lparr>vd_addr = addr, vd_len = ucast len, vd_flags = flags, vd_next = 0\<rparr>;
          add_buf_idx idx (vq\<lparr>vq_desc := table\<rparr>) }"

definition add_inbuf :: "u64 \<Rightarrow> u64 \<Rightarrow> Virtqueue \<Rightarrow> Virtqueue option" where
  "add_inbuf addr len vq = add_buf addr len VIRTQ_DESC_F_WRITE vq"

definition add_outbuf :: "u64 \<Rightarrow> u64 \<Rightarrow> Virtqueue \<Rightarrow> Virtqueue option" where
  "add_outbuf addr len vq = add_buf addr len 0 vq"

definition get_buf :: "u16 \<Rightarrow> Virtqueue \<Rightarrow> u64 option" where
  "get_buf idx vq = map_option vd_addr (rd (vq_desc vq) (unat idx))"

definition get_used_buf :: "u16 \<Rightarrow> Virtqueue \<Rightarrow> (u64 \<times> u64) option" where
  "get_used_buf idx vq =
     do { (id, len) \<leftarrow> rd (used_ring vq) (unat idx);
          addr \<leftarrow> get_buf (ucast id) vq;
          Some (addr, ucast len) }"

subsection \<open>The network device\<close>

abbreviation VIRTIO_RX_QUEUE_IDX :: nat where "VIRTIO_RX_QUEUE_IDX \<equiv> 0"
abbreviation VIRTIO_TX_QUEUE_IDX :: nat where "VIRTIO_TX_QUEUE_IDX \<equiv> 1"
abbreviation sizeof_VirtioNetHdr :: u64 where "sizeof_VirtioNetHdr \<equiv> 10"

record VirtioNetDevice =
  notify_cfg_ioport :: IOPort
  notify_off_multiplier :: u32
  vqs :: "Virtqueue list"
  notifier :: EventNotifier
  rx_page :: u64
  rx_page_size :: u64
  tx_page :: u64
  tx_page_size :: u64
  mac_addr :: "u8 list option"
  rx_buffer_addr :: "u64 option"
  io_queue :: "u64 option"

text \<open>\<open>new\<close>: the results of the page allocator are not checked.\<close>

definition VirtioNetDevice_new ::
  "IOPort \<Rightarrow> u32 \<Rightarrow> ('t, 'c) page_arenas \<Rightarrow> (VirtioNetDevice \<times> ('t, 'c) page_arenas) option" where
  "VirtioNetDevice_new ioport multiplier pg =
     do { (rx, pg) \<leftarrow> page_alloc_small pg;
          (tx, pg) \<leftarrow> page_alloc_small pg;
          Some (\<lparr>notify_cfg_ioport = ioport, notify_off_multiplier = multiplier, vqs = [], notifier = EventNotifier_new ''/dev/eth'',
                 rx_page = rx, rx_page_size = PAGE_SIZE_SMALL, tx_page = tx, tx_page_size = PAGE_SIZE_SMALL,
                 mac_addr = None, rx_buffer_addr = None, io_queue = None\<rparr>, pg) }"

text \<open>The loop of \<open>recv\<close> from index \<open>idx\<close> of the used ring; the arithmetic is of 16 bits and wraps
  around, as the index of the device does.\<close>

definition recv_one :: "('v, 'x) kernel \<Rightarrow> VirtioNetDevice \<Rightarrow> Virtqueue \<Rightarrow> u16 \<Rightarrow> rings \<Rightarrow> (Virtqueue \<times> rings) option" where
  "recv_one k dev vq idx rings =
     (if (ucast (queue_size vq) :: u16) = 0 then None
      else do {
        (buf_addr, buf_len) \<leftarrow> get_used_buf (idx mod ucast (queue_size vq)) vq;
        rings \<leftarrow> (case rx_buffer_addr dev of
                    Some rx_addr \<Rightarrow> EventNotifier_on_event k (notifier dev) (PacketIO (rx_addr + sizeof_VirtioNetHdr) (buf_len - sizeof_VirtioNetHdr)) rings
                  | None \<Rightarrow> Some rings);
        Some (advance_last_seen_used vq, rings) })"

function recv_loop ::
  "('v, 'x) kernel \<Rightarrow> VirtioNetDevice \<Rightarrow> u16 \<Rightarrow> Virtqueue \<Rightarrow> u16 \<Rightarrow> rings \<Rightarrow> (Virtqueue \<times> rings) option" where
  "recv_loop k dev last_used_idx vq idx rings =
     (if idx = last_used_idx then Some (vq, rings)
      else case recv_one k dev vq idx rings of
             None \<Rightarrow> None
           | Some (vq, rings) \<Rightarrow> recv_loop k dev last_used_idx vq (idx + 1) rings)"
  by pat_completeness auto

lemma idx_step: "idx \<noteq> last \<Longrightarrow> unat (last - (idx + 1)) < unat (last - idx)" for idx last :: u16
  using unat_sub [of 1 "last - idx"] by (simp add: word_le_nat_alt unat_gt_0 Suc_le_eq diff_diff_eq [symmetric])

termination recv_loop
  by (relation "measure (\<lambda>(_, _, last, _, idx, _). unat (last - idx))") (auto intro: idx_step)

declare recv_loop.simps [simp del]

definition recv :: "('v, 'x) kernel \<Rightarrow> VirtioNetDevice \<Rightarrow> rings \<Rightarrow> (VirtioNetDevice \<times> rings) option" where
  "recv k dev rings =
     do { vq \<leftarrow> rd (vqs dev) VIRTIO_RX_QUEUE_IDX;
          (vq, rings) \<leftarrow> recv_loop k dev (used_idx vq) vq (last_seen_used vq) rings;
          Some (dev\<lparr>vqs := (vqs dev)[VIRTIO_RX_QUEUE_IDX := vq]\<rparr>, rings) }"

text \<open>The interrupt handler runs in the address space that is loaded, whatever process is to be told: only the
  ring buffers of this space change. \<open>spaces\<close> has the ring buffers of all address spaces.\<close>

type_synonym spaces = "mmu_map_t \<Rightarrow> rings"

definition net_interrupt ::
  "('t, 'c) mmu_state \<Rightarrow> ('v, 'x) kernel \<Rightarrow> VirtioNetDevice \<Rightarrow> spaces \<Rightarrow> (VirtioNetDevice \<times> spaces) option" where
  "net_interrupt mm k dev sp =
     do { (dev, rings) \<leftarrow> recv k dev (sp (mmu_current_map mm));
          Some (dev, sp(mmu_current_map mm := rings)) }"

definition notify :: "'d ports \<Rightarrow> 'd mmio_bus \<Rightarrow> VirtioNetDevice \<Rightarrow> Virtqueue \<Rightarrow> 'd \<Rightarrow> 'd" where
  "notify P B dev vq d =
     (let off = ucast (notify_off_multiplier dev * ucast (notify_off vq) :: u32)
      in IOPort_write16 P B (notify_cfg_ioport dev) (queue_idx vq) off d)"

text \<open>The memory as the kernel addresses it, user space included: an address without a value is not
  mapped, and the kernel panics when it is used. The copy goes from the first byte to the last.\<close>

type_synonym vmem = "u64 \<Rightarrow> u8 option"

definition vmem_wr :: "u64 \<Rightarrow> u8 \<Rightarrow> vmem \<Rightarrow> vmem option" where
  "vmem_wr a b m = (case m a of None \<Rightarrow> None | Some _ \<Rightarrow> Some (m(a \<mapsto> b)))"

fun vmem_set :: "u64 \<Rightarrow> u8 \<Rightarrow> nat \<Rightarrow> vmem \<Rightarrow> vmem option" where
  "vmem_set a b 0 m = Some m"
| "vmem_set a b (Suc n) m = do { m \<leftarrow> vmem_wr a b m; vmem_set (a + 1) b n m }"

fun vmem_copy :: "u64 \<Rightarrow> u64 \<Rightarrow> nat \<Rightarrow> vmem \<Rightarrow> vmem option" where
  "vmem_copy dest src 0 m = Some m"
| "vmem_copy dest src (Suc n) m = do { b \<leftarrow> m src; m \<leftarrow> vmem_wr dest b m; vmem_copy (dest + 1) (src + 1) n m }"

text \<open>What the driver works on: its device, the memory, the ring buffers, and the hardware.\<close>

record 'd net_io =
  ni_dev :: VirtioNetDevice
  ni_mem :: vmem
  ni_rings :: rings
  ni_hw :: 'd

definition queue_buf :: "'d ports \<Rightarrow> 'd mmio_bus \<Rightarrow> nat \<Rightarrow> (Virtqueue \<Rightarrow> Virtqueue option) \<Rightarrow> 'd net_io \<Rightarrow> 'd net_io option" where
  "queue_buf P B q add s =
     do { vq \<leftarrow> rd (vqs (ni_dev s)) q;
          vq \<leftarrow> add vq;
          let dev = (ni_dev s)\<lparr>vqs := (vqs (ni_dev s))[q := vq]\<rparr>;
          Some (s\<lparr>ni_dev := dev, ni_hw := notify P B dev vq (ni_hw s)\<rparr>) }"

definition process_io_one :: "'d ports \<Rightarrow> 'd mmio_bus \<Rightarrow> IOCmd \<Rightarrow> 'd net_io \<Rightarrow> 'd net_io option" where
  "process_io_one P B cmd s =
     (case cmd_opcode cmd of
        Submit \<Rightarrow>
          do { let tx = tx_page (ni_dev s);
               m \<leftarrow> vmem_set tx 0 (unat sizeof_VirtioNetHdr) (ni_mem s);
               m \<leftarrow> vmem_copy (tx + sizeof_VirtioNetHdr) (cmd_addr cmd) (unat (cmd_len cmd)) m;
               if cmd_len cmd \<le> tx_page_size (ni_dev s)
               then queue_buf P B VIRTIO_TX_QUEUE_IDX (add_outbuf (virt_to_phys tx) (sizeof_VirtioNetHdr + cmd_len cmd)) (s\<lparr>ni_mem := m\<rparr>)
               else None }
      | Complete \<Rightarrow>
          queue_buf P B VIRTIO_RX_QUEUE_IDX (add_inbuf (virt_to_phys (rx_page (ni_dev s))) (rx_page_size (ni_dev s))) s)"

text \<open>The ring buffer is memory of the process: nothing makes the loop end.\<close>

partial_function (option) process_io_loop :: "'d ports \<Rightarrow> 'd mmio_bus \<Rightarrow> u64 \<Rightarrow> 'd net_io \<Rightarrow> 'd net_io option" where
  "process_io_loop P B queue s =
     (case IOQueue_pop (ni_rings s queue) of
        (None, q) \<Rightarrow> Some (s\<lparr>ni_rings := (ni_rings s)(queue := q)\<rparr>)
      | (Some cmd, q) \<Rightarrow>
          (case process_io_one P B cmd (s\<lparr>ni_rings := (ni_rings s)(queue := q)\<rparr>) of
             None \<Rightarrow> None
           | Some s \<Rightarrow> process_io_loop P B queue s))"

definition net_process_io :: "'d ports \<Rightarrow> 'd mmio_bus \<Rightarrow> 'd net_io \<Rightarrow> 'd net_io option" where
  "net_process_io P B s = (case io_queue (ni_dev s) of None \<Rightarrow> Some s | Some queue \<Rightarrow> process_io_loop P B queue s)"

text \<open>\<open>acquire\<close> by process \<open>p\<close>. \<open>page\<close> is what the memory of the new queue holds.\<close>

definition net_acquire ::
  "(u64 \<Rightarrow> u8 list) \<Rightarrow> nat \<Rightarrow> 'v VMAddressSpace \<Rightarrow> ('t, 'c) mmu_state \<Rightarrow> VirtioNetDevice \<times> rings \<Rightarrow>
   ((int + unit) \<times> 'v VMAddressSpace \<times> ('t, 'c) mmu_state \<times> VirtioNetDevice \<times> rings) option" where
  "net_acquire page p vs mm = (\<lambda>(dev, rings).
     let dev = dev\<lparr>notifier := add_listener p (notifier dev)\<rparr>
     in case vm_allocate (rx_page_size dev) PAGE_SIZE_SMALL VM_PROT_READ vs of
          (Inl e, vs) \<Rightarrow> Some (Inl e, vs, mm, dev, rings)
        | (Inr (rx_start, rx_end), vs) \<Rightarrow>
            do { (res, vs, mm) \<leftarrow> vm_map rx_start rx_end (rx_page dev) vs mm;
                 (case res of
                    Inl e \<Rightarrow> Some (Inl e, vs, mm, dev, rings)
                  | Inr _ \<Rightarrow>
                      (let dev = dev\<lparr>rx_buffer_addr := Some rx_start\<rparr>
                       in case vm_allocate 4096 PAGE_SIZE_SMALL VM_PROT_RW vs of
                            (Inl e, vs) \<Rightarrow> Some (Inl e, vs, mm, dev, rings)
                          | (Inr (io_start, io_end), vs) \<Rightarrow>
                              do { (res, vs, mm) \<leftarrow> vm_populate io_start io_end vs mm;
                                   (case res of
                                      Inl e \<Rightarrow> Some (Inl e, vs, mm, dev, rings)
                                    | Inr _ \<Rightarrow>
                                        do { q \<leftarrow> IOQueue_new (page io_start) 4096;
                                             Some (Inr (), vs, mm, dev\<lparr>io_queue := Some io_start\<rparr>, rings(io_start := q)) }) })) })"

abbreviation CONFIG_ETHERNET_MAC_ADDRESS :: int where "CONFIG_ETHERNET_MAC_ADDRESS \<equiv> 0"
abbreviation CONFIG_IO_QUEUE :: int where "CONFIG_IO_QUEUE \<equiv> 1"

definition net_get_config :: "int \<Rightarrow> VirtioNetDevice \<Rightarrow> u8 list option" where
  "net_get_config opt dev =
     (if opt = CONFIG_ETHERNET_MAC_ADDRESS then mac_addr dev
      else if opt = CONFIG_IO_QUEUE then map_option enc64 (io_queue dev)
      else None)"

end
