(* ===== verification/VirtioProofs.thy ===== *)
theory VirtioProofs
  imports Virtio Socket
begin

text \<open>
  The network driver between the device and the processes: received packets become events, and the
  commands of a process become buffers of the transmit queue.
\<close>

subsection \<open>Reception\<close>

definition vq_wf :: "Virtqueue \<Rightarrow> bool" where
  "vq_wf vq \<longleftrightarrow> 0 < queue_size vq \<and> queue_size vq < 2 ^ 16 \<and> length (vq_desc vq) = unat (queue_size vq)
     \<and> length (avail_ring vq) = unat (queue_size vq) \<and> length (used_ring vq) = unat (queue_size vq)"

text \<open>The element of the used ring that the index \<open>idx\<close>, which only ever grows, stands for.\<close>

definition used_elem :: "Virtqueue \<Rightarrow> u16 \<Rightarrow> u32 \<times> u32" where
  "used_elem vq idx = used_ring vq ! unat (idx mod ucast (queue_size vq))"

definition packet_event :: "u64 \<Rightarrow> Virtqueue \<Rightarrow> u16 \<Rightarrow> Event" where
  "packet_event rx vq idx = PacketIO (rx + sizeof_VirtioNetHdr) (ucast (snd (used_elem vq idx)) - sizeof_VirtioNetHdr)"

lemma unat_ucast_16: "x < 2 ^ 16 \<Longrightarrow> unat (ucast x :: u16) = unat x" for x :: u64
  by (simp add: unsigned_ucast_eq take_bit_eq_mod word_less_nat_alt)

lemma unat_mod_size: "vq_wf vq \<Longrightarrow> unat (idx mod ucast (queue_size vq)) < unat (queue_size vq)" for idx :: u16
  using unat_ucast_16 [of "queue_size vq"] by (auto simp: vq_wf_def unat_mod_distrib word_less_nat_alt)

lemma size_nonzero: "vq_wf vq \<Longrightarrow> (ucast (queue_size vq) :: u16) \<noteq> 0"
  using unat_ucast_16 [of "queue_size vq"] by (auto simp: vq_wf_def word_less_nat_alt)

lemma get_used_buf_elem:
  assumes "vq_wf vq" and "unat (ucast (fst (used_elem vq idx)) :: u16) < unat (queue_size vq)"
  shows "\<exists>addr. get_used_buf (idx mod ucast (queue_size vq)) vq = Some (addr, ucast (snd (used_elem vq idx)))"
  using assms unat_mod_size [OF assms(1), of idx]
  by (auto simp: get_used_buf_def get_buf_def used_elem_def vq_wf_def rd_def split: prod.splits)

text \<open>The events for the elements from index \<open>idx\<close> on, as they arrive in the queue at address \<open>a\<close>.\<close>

definition packet_events :: "('v, 'x) kernel \<Rightarrow> VirtioNetDevice \<Rightarrow> Virtqueue \<Rightarrow> u16 \<Rightarrow> nat \<Rightarrow> u64 \<Rightarrow> Event list" where
  "packet_events k dev vq idx n a =
     (case rx_buffer_addr dev of
        None \<Rightarrow> []
      | Some rx \<Rightarrow> concat (map (\<lambda>i. event_copies k (en_listeners (notifier dev)) (packet_event rx vq (idx + of_nat i)) a) [0..<n]))"

lemma packet_events_Suc:
  "packet_events k dev vq idx (Suc n) a =
     (case rx_buffer_addr dev of None \<Rightarrow> [] | Some rx \<Rightarrow> event_copies k (en_listeners (notifier dev)) (packet_event rx vq idx) a)
     @ packet_events k dev vq (idx + 1) n a"
proof -
  have "[0..<Suc n] = 0 # map Suc [0..<n]" by (metis map_Suc_upt upt_conv_Cons zero_less_Suc)
  then show ?thesis by (simp add: packet_events_def comp_def add.assoc split: option.splits del: upt_Suc)
qed

lemma packet_events_advance [simp]:
  "packet_events k dev (advance_last_seen_used vq) = packet_events k dev vq"
  "used_elem (advance_last_seen_used vq) idx = used_elem vq idx" "vq_wf (advance_last_seen_used vq) = vq_wf vq"
  "queue_size (advance_last_seen_used vq) = queue_size vq" "last_seen_used (advance_last_seen_used vq) = last_seen_used vq + 1"
  by (simp_all add: fun_eq_iff packet_events_def packet_event_def used_elem_def vq_wf_def advance_last_seen_used_def cong: option.case_cong)

lemma recv_one_step:
  assumes "vq_wf vq" and "unat (ucast (fst (used_elem vq idx)) :: u16) < unat (queue_size vq)"
    and "\<forall>p \<in> set (en_listeners (notifier dev)). event_ring (rings (pr_events (procs k p)))"
  shows "\<exists>r'. recv_one k dev vq idx rings = Some (advance_last_seen_used vq, r') \<and> rings_offered rings (packet_events k dev vq idx 1) r'"
proof -
  obtain addr where g: "get_used_buf (idx mod ucast (queue_size vq)) vq = Some (addr, ucast (snd (used_elem vq idx)))"
    using get_used_buf_elem [OF assms(1,2)] by blast
  show ?thesis
  proof (cases "rx_buffer_addr dev")
    case None
    then show ?thesis using g size_nonzero [OF assms(1)] by (simp add: recv_one_def rings_offered_def packet_events_def)
  next
    case (Some rx)
    then have e: "packet_events k dev vq idx 1 = event_copies k (en_listeners (notifier dev)) (packet_event rx vq idx)"
      by (simp add: packet_events_def fun_eq_iff)
    show ?thesis
      using notify_listeners_offers [OF assms(3), of "packet_event rx vq idx"] g size_nonzero [OF assms(1)] Some
      unfolding e by (auto simp: recv_one_def EventNotifier_on_event_def packet_event_def)
  qed
qed

lemma recv_loop_delivers:
  assumes "vq_wf vq" and "\<forall>i < unat (lst - idx). unat (ucast (fst (used_elem vq (idx + of_nat i))) :: u16) < unat (queue_size vq)"
    and "\<forall>p \<in> set (en_listeners (notifier dev)). event_ring (rings (pr_events (procs k p)))"
    and "last_seen_used vq = idx"
  shows "\<exists>r'. recv_loop k dev lst vq idx rings = Some (vq\<lparr>last_seen_used := lst\<rparr>, r')
    \<and> rings_offered rings (packet_events k dev vq idx (unat (lst - idx))) r'"
  using assms
proof (induction "unat (lst - idx)" arbitrary: vq idx rings)
  case 0
  then have "idx = lst" by (simp add: unat_eq_zero)
  then show ?case using 0 by (subst recv_loop.simps) (simp add: rings_offered_def packet_events_def split: option.splits)
next
  case (Suc n)
  then have ne: "idx \<noteq> lst" by auto
  have n: "n = unat (lst - (idx + 1))"
    using Suc(2) unat_sub [of 1 "lst - idx"] by (simp add: word_le_nat_alt diff_diff_eq)
  have "unat (ucast (fst (used_elem vq idx)) :: u16) < unat (queue_size vq)" using Suc(4) [rule_format, of 0] Suc(2) by simp
  then obtain r1 where r1: "recv_one k dev vq idx rings = Some (advance_last_seen_used vq, r1)" "rings_offered rings (packet_events k dev vq idx 1) r1"
    using recv_one_step [OF Suc(3) _ Suc(5)] by blast
  have l1: "\<forall>p \<in> set (en_listeners (notifier dev)). event_ring (r1 (pr_events (procs k p)))"
    using Suc(5) rings_offered_ring [OF r1(2)] by blast
  have "unat (ucast (fst (used_elem vq (idx + 1 + of_nat i))) :: u16) < unat (queue_size vq)" if "i < n" for i
    using Suc(4) [rule_format, of "Suc i"] Suc(2) that by (simp add: add.assoc)
  then obtain r' where r': "recv_loop k dev lst (advance_last_seen_used vq) (idx + 1) r1 = Some ((advance_last_seen_used vq)\<lparr>last_seen_used := lst\<rparr>, r')"
      "rings_offered r1 (packet_events k dev vq (idx + 1) n) r'"
    using Suc(1) [OF n, of "advance_last_seen_used vq" r1] Suc(3,6) l1 n by auto
  have ev: "event_ring (rings a)" if "packet_events k dev vq (idx + 1) n a \<noteq> []" for a
    using that Suc(5) by (auto simp: packet_events_def event_copies_def filter_empty_conv split: option.splits)
  have "packet_events k dev vq idx (unat (lst - idx)) = (\<lambda>a. packet_events k dev vq idx 1 a @ packet_events k dev vq (idx + 1) n a)"
    unfolding Suc(2) [symmetric] by (simp add: packet_events_Suc fun_eq_iff) (simp add: packet_events_def split: option.splits)
  then have "rings_offered rings (packet_events k dev vq idx (unat (lst - idx))) r'"
    using rings_offered_trans [OF r1(2) r'(2) ev] by simp
  then show ?case using ne r1(1) r'(1) by (subst recv_loop.simps) (simp add: advance_last_seen_used_def)
qed

lemma event_decodes:
  "event_type (RawEvent (PacketIO addr len)) = EVENT_PACKET_RX" "event_addr (RawEvent (PacketIO addr len)) = addr"
  "event_len (RawEvent (PacketIO addr len)) = len"
  by (simp_all add: event_type_def event_addr_def event_len_def)

text \<open>The event queue of a process: the ring buffer at its address, in its address space.\<close>

definition process_queue :: "('v, 'x) kernel \<Rightarrow> spaces \<Rightarrow> nat \<Rightarrow> atomic_ring_buffer" where
  "process_queue k sp p = sp (vm_mmu_map (pr_vmspace (procs k p))) (pr_events (procs k p))"

text \<open>How many of the listeners have the same queue address as process \<open>p\<close>.\<close>

definition registrations :: "('v, 'x) kernel \<Rightarrow> VirtioNetDevice \<Rightarrow> nat \<Rightarrow> nat" where
  "registrations k dev p = length (filter (\<lambda>l. pr_events (procs k l) = pr_events (procs k p)) (en_listeners (notifier dev)))"

lemma packet_events_registrations:
  "rx_buffer_addr dev = Some rx \<Longrightarrow> packet_events k dev vq idx n (pr_events (procs k p)) =
     concat (map (\<lambda>i. replicate (registrations k dev p) (packet_event rx vq (idx + of_nat i))) [0..<n])"
  by (simp add: packet_events_def event_copies_def registrations_def)

lemma packet_events_none:
  "(\<forall>p \<in> set (en_listeners (notifier dev)). pr_events (procs k p) \<noteq> a) \<or> rx_buffer_addr dev = None \<Longrightarrow> packet_events k dev vq idx n a = []"
  by (auto simp: packet_events_def event_copies_def filter_empty_conv split: option.splits)

lemma rings_offered_list:
  "rings_offered r evs r' \<Longrightarrow> evs a \<noteq> [] \<or> event_ring (r a) \<Longrightarrow>
   ring_list (r' a) = offered (ring_slots (r a)) (ring_list (r a)) (map RawEvent (evs a))"
  by (cases "evs a = []") (auto simp: rings_offered_def offered_nil)

text \<open>C11: the interrupt handler of the network device returns when the device has filled its used ring
  as it should, and has then seen all of it. Consider the processes that acquired the device, each by the
  address of its event queue. In the address space that is loaded, the queue at this address has, behind
  what was there, one event for every packet since the last interrupt and every registration with this address,
  in the order of the used ring and as far as the queue has room. No other ring buffer changes, neither
  at another address nor in another address space, nor does any before the first \<open>acquire\<close>. So a process whose
  address space is loaded is told (\<open>process_spawn\<close> puts every process into the same one), and one that
  acquired the device twice, or shares its queue address with another, finds each packet twice. The user library decodes
  such an event as a received packet behind the virtio header, without its ten bytes.\<close>

theorem recv_delivers:
  assumes "rd (vqs dev) VIRTIO_RX_QUEUE_IDX = Some vq" and "vq_wf vq"
    and "\<forall>i < unat (used_idx vq - last_seen_used vq). unat (ucast (fst (used_elem vq (last_seen_used vq + of_nat i))) :: u16) < unat (queue_size vq)"
    and "\<forall>p \<in> set (en_listeners (notifier dev)). event_ring (sp (mmu_current_map mm) (pr_events (procs k p)))"
  shows "\<exists>sp'. net_interrupt mm k dev sp = Some (dev\<lparr>vqs := (vqs dev)[VIRTIO_RX_QUEUE_IDX := vq\<lparr>last_seen_used := used_idx vq\<rparr>]\<rparr>, sp')
    \<and> (\<forall>p rx. p \<in> set (en_listeners (notifier dev)) \<and> vm_mmu_map (pr_vmspace (procs k p)) = mmu_current_map mm \<and> rx_buffer_addr dev = Some rx \<longrightarrow>
         ring_list (process_queue k sp' p) = take (ring_slots (process_queue k sp p) - 1) (ring_list (process_queue k sp p)
           @ concat (map (\<lambda>i. replicate (registrations k dev p) (RawEvent (packet_event rx vq (last_seen_used vq + of_nat i))))
               [0..<unat (used_idx vq - last_seen_used vq)])))
    \<and> (\<forall>m a. m \<noteq> mmu_current_map mm \<or> (\<forall>p \<in> set (en_listeners (notifier dev)). pr_events (procs k p) \<noteq> a) \<or> rx_buffer_addr dev = None
         \<longrightarrow> sp' m a = sp m a)
    \<and> (\<forall>addr len. event_type (RawEvent (PacketIO addr len)) = EVENT_PACKET_RX \<and> event_addr (RawEvent (PacketIO addr len)) = addr
        \<and> event_len (RawEvent (PacketIO addr len)) = len)"
proof -
  let ?m = "mmu_current_map mm" and ?n = "unat (used_idx vq - last_seen_used vq)" and ?i = "last_seen_used vq"
  obtain r' where r': "recv_loop k dev (used_idx vq) vq ?i (sp ?m) = Some (vq\<lparr>last_seen_used := used_idx vq\<rparr>, r')"
      "rings_offered (sp ?m) (packet_events k dev vq ?i ?n) r'"
    using recv_loop_delivers [OF assms(2-4) refl] by blast
  have "net_interrupt mm k dev sp = Some (dev\<lparr>vqs := (vqs dev)[VIRTIO_RX_QUEUE_IDX := vq\<lparr>last_seen_used := used_idx vq\<rparr>]\<rparr>, sp(?m := r'))"
    using r'(1) assms(1) by (simp add: net_interrupt_def recv_def)
  moreover have "ring_list (r' (pr_events (procs k p))) = take (ring_slots (sp ?m (pr_events (procs k p))) - 1) (ring_list (sp ?m (pr_events (procs k p)))
      @ concat (map (\<lambda>i. replicate (registrations k dev p) (RawEvent (packet_event rx vq (?i + of_nat i)))) [0..<?n]))"
    if "p \<in> set (en_listeners (notifier dev))" "rx_buffer_addr dev = Some rx" for p rx
    using rings_offered_list [OF r'(2), of "pr_events (procs k p)"] assms(4) that
    by (simp add: packet_events_registrations offered_def map_concat comp_def map_replicate)
  moreover have "r' a = sp ?m a" if "(\<forall>p \<in> set (en_listeners (notifier dev)). pr_events (procs k p) \<noteq> a) \<or> rx_buffer_addr dev = None" for a
    using r'(2) packet_events_none [OF that] by (simp add: rings_offered_def)
  ultimately show ?thesis
    by (intro exI [of _ "sp(?m := r')"]) (auto simp: process_queue_def event_decodes simp del: RawEvent.simps)
qed

definition vq_example :: Virtqueue where
  "vq_example = \<lparr>queue_idx = 0, queue_size = 2, notify_off = 0, last_seen_used = 0xffff,
     raw_descriptor_table_ptr = 0x1000, raw_available_ring_ptr = 0x1100, raw_used_ring_ptr = 0x1200,
     vq_desc = replicate 2 \<lparr>vd_addr = 0x7000, vd_len = 4096, vd_flags = 2, vd_next = 0\<rparr>,
     avail_idx = 1, avail_ring = [0, 0], used_idx = 1, used_ring = [(0, 110), (0, 74)]\<rparr>"

definition net_example :: VirtioNetDevice where
  "net_example = \<lparr>notify_cfg_ioport = Memory 0x9000 16, notify_off_multiplier = 4, vqs = [vq_example, vq_example\<lparr>queue_idx := 1, notify_off := 1\<rparr>],
     notifier = add_listener 1 (EventNotifier_new ''/dev/eth''), rx_page = 0xffffffff80007000, rx_page_size = 4096,
     tx_page = 0xffffffff80008000, tx_page_size = 4096, mac_addr = Some [2, 0, 0, 0, 0, 1], rx_buffer_addr = Some 0x90000000, io_queue = Some 0x90001000\<rparr>"

theorem recv_delivers_witness:
  "\<exists>sp'. net_interrupt vm_mmu_example sched_example net_example (\<lambda>_ _. ring24_example) =
       Some (net_example\<lparr>vqs := (vqs net_example)[0 := vq_example\<lparr>last_seen_used := 1\<rparr>]\<rparr>, sp')
     \<and> ring_list (process_queue sched_example sp' 1) = [RawEvent (PacketIO 0x9000000a 64), RawEvent (PacketIO 0x9000000a 100)]"
proof -
  have wf: "vq_wf vq_example" "rd (vqs net_example) 0 = Some vq_example"
    by (simp_all add: vq_wf_def vq_example_def net_example_def rd_def)
  have v: "unat (used_idx vq_example - last_seen_used vq_example) = 2" "last_seen_used vq_example = 0xffff" "used_idx vq_example = 1"
    by (simp_all add: vq_example_def)
  have id: "unat (ucast (fst (used_elem vq_example idx)) :: u16) < unat (queue_size vq_example)" for idx
    using unat_mod_size [OF wf(1), of idx] by (cases "unat (idx mod 2)") (simp_all add: used_elem_def vq_example_def)
  have m: "vm_mmu_map (pr_vmspace (procs sched_example 1)) = mmu_current_map vm_mmu_example" by code_simp
  have l: "en_listeners (notifier net_example) = [1]" "rx_buffer_addr net_example = Some 0x90000000"
    by (simp_all add: net_example_def add_listener_def EventNotifier_new_def)
  have e: "packet_event 0x90000000 vq_example 0xffff = PacketIO 0x9000000a 64" "packet_event 0x90000000 vq_example 0x10000 = PacketIO 0x9000000a 100"
    by code_simp+
  have q: "process_queue sched_example (\<lambda>_ _. ring24_example) 1 = ring24_example" "registrations sched_example net_example 1 = 1"
    by (simp_all add: process_queue_def registrations_def l)
  note t = recv_delivers [where sp = "\<lambda>_ _. ring24_example" and mm = vm_mmu_example and k = sched_example, OF wf(2,1), unfolded v(1), unfolded v(2,3)]
  obtain sp' where sp':
      "net_interrupt vm_mmu_example sched_example net_example (\<lambda>_ _. ring24_example) =
       Some (net_example\<lparr>vqs := (vqs net_example)[0 := vq_example\<lparr>last_seen_used := 1\<rparr>]\<rparr>, sp')"
      "\<forall>p rx. p \<in> set (en_listeners (notifier net_example)) \<and> vm_mmu_map (pr_vmspace (procs sched_example p)) = mmu_current_map vm_mmu_example
         \<and> rx_buffer_addr net_example = Some rx \<longrightarrow> ring_list (process_queue sched_example sp' p) =
           take (ring_slots (process_queue sched_example (\<lambda>_ _. ring24_example) p) - 1) (ring_list (process_queue sched_example (\<lambda>_ _. ring24_example) p)
           @ concat (map (\<lambda>i. replicate (registrations sched_example net_example p) (RawEvent (packet_event rx vq_example (0xffff + of_nat i)))) [0..<2]))"
    using t id ring24_example_wf(1) by blast
  have "ring_list (process_queue sched_example sp' 1) = take (ring_slots ring24_example - 1) (ring_list ring24_example
           @ concat (map (\<lambda>i. replicate 1 (RawEvent (packet_event 0x90000000 vq_example (0xffff + of_nat i)))) [0..<2]))"
    using sp'(2) [rule_format, of 1 "0x90000000"] l m q by simp
  then show ?thesis using sp'(1) by (auto simp: ring24_example_wf upt_conv_Cons e simp del: RawEvent.simps)
qed

subsection \<open>Transmission\<close>

lemma unat_pred: "x \<noteq> a \<Longrightarrow> unat (x - (a + 1)) = unat (x - a) - 1" for x a :: u64
  using unat_sub [of 1 "x - a"] by (simp add: word_le_nat_alt unat_gt_0 Suc_le_eq diff_diff_eq [symmetric])

lemma unat_self_pred: "unat (a - (a + 1)) = 2 ^ 64 - 1" for a :: u64
  by (simp add: unsigned_minus_1_eq_mask mask_eq_exp_minus_1)

lemma vmem_set_result:
  assumes "n < 2 ^ 64" and "\<forall>i < n. m (a + of_nat i) \<noteq> None"
  shows "vmem_set a b n m = Some (\<lambda>x. if unat (x - a) < n then Some b else m x)"
  using assms
proof (induction n arbitrary: a m)
  case 0
  then show ?case by simp
next
  case (Suc n)
  let ?m = "m(a \<mapsto> b)"
  have "m a \<noteq> None" using Suc.prems(2) [rule_format, of 0] by simp
  then have w: "vmem_wr a b m = Some ?m" by (auto simp: vmem_wr_def split: option.splits)
  have "\<forall>i < n. ?m (a + 1 + of_nat i) \<noteq> None"
    using Suc.prems(2) [rule_format, of "Suc _"] by (simp add: add.assoc)
  then have "vmem_set (a + 1) b n ?m = Some (\<lambda>x. if unat (x - (a + 1)) < n then Some b else ?m x)" using Suc by simp
  moreover have "(\<lambda>x. if unat (x - (a + 1)) < n then Some b else ?m x) = (\<lambda>x. if unat (x - a) < Suc n then Some b else m x)"
  proof
    fix x
    show "(if unat (x - (a + 1)) < n then Some b else ?m x) = (if unat (x - a) < Suc n then Some b else m x)"
    proof (cases "x = a")
      case True
      then show ?thesis using Suc.prems(1) unat_self_pred [of a] by simp
    next
      case False
      then have "0 < unat (x - a)" by (simp add: unat_gt_0)
      then show ?thesis using False unat_pred [OF False] by auto
    qed
  qed
  ultimately show ?case using w by simp
qed

lemma vmem_copy_result:
  assumes "n < 2 ^ 64" and "\<forall>i < n. m (dest + of_nat i) \<noteq> None" and "\<forall>i < n. m (src + of_nat i) \<noteq> None"
    and "\<forall>i < n. \<forall>j < n. src + of_nat i \<noteq> dest + of_nat j"
  shows "vmem_copy dest src n m = Some (\<lambda>x. if unat (x - dest) < n then m (src + (x - dest)) else m x)"
  using assms
proof (induction n arbitrary: dest src m)
  case 0
  then show ?case by simp
next
  case (Suc n)
  obtain b where b: "m src = Some b" using Suc.prems(3) [rule_format, of 0] by auto
  let ?m = "m(dest \<mapsto> b)"
  have w: "vmem_wr dest b m = Some ?m" using Suc.prems(2) [rule_format, of 0] by (auto simp: vmem_wr_def split: option.splits)
  have "\<forall>i < n. ?m (dest + 1 + of_nat i) \<noteq> None" "\<forall>i < n. ?m (src + 1 + of_nat i) \<noteq> None"
    using Suc.prems(2,3) [rule_format, of "Suc _"] by (simp_all add: add.assoc)
  moreover have "\<forall>i < n. \<forall>j < n. src + 1 + of_nat i \<noteq> dest + 1 + of_nat j"
    using Suc.prems(4) [rule_format, of "Suc _" "Suc _"] by (simp add: add.assoc)
  ultimately have c: "vmem_copy (dest + 1) (src + 1) n ?m = Some (\<lambda>x. if unat (x - (dest + 1)) < n then ?m (src + 1 + (x - (dest + 1))) else ?m x)"
    using Suc by simp
  have "(\<lambda>x. if unat (x - (dest + 1)) < n then ?m (src + 1 + (x - (dest + 1))) else ?m x) =
      (\<lambda>x. if unat (x - dest) < Suc n then m (src + (x - dest)) else m x)"
  proof
    fix x
    show "(if unat (x - (dest + 1)) < n then ?m (src + 1 + (x - (dest + 1))) else ?m x) =
        (if unat (x - dest) < Suc n then m (src + (x - dest)) else m x)"
    proof (cases "x = dest")
      case True
      then show ?thesis using Suc.prems(1) unat_self_pred [of dest] b by simp
    next
      case False
      then have p: "0 < unat (x - dest)" by (simp add: unat_gt_0)
      have "src + (x - dest) \<noteq> dest" if "unat (x - dest) < Suc n"
        using Suc.prems(4) [rule_format, OF that, of 0] by simp
      then show ?thesis using False p unat_pred [OF False] by auto
    qed
  qed
  with c show ?case using b w by simp
qed

text \<open>The queue with one more buffer made available to the device, in descriptor 0.\<close>

definition with_buf :: "u64 \<Rightarrow> u64 \<Rightarrow> u16 \<Rightarrow> Virtqueue \<Rightarrow> Virtqueue" where
  "with_buf addr len flags vq =
     vq\<lparr>vq_desc := (vq_desc vq)[0 := \<lparr>vd_addr = addr, vd_len = ucast len, vd_flags = flags, vd_next = 0\<rparr>],
        avail_ring := (avail_ring vq)[unat (avail_idx vq) mod unat (queue_size vq) := 0], avail_idx := avail_idx vq + 1\<rparr>"

lemma add_buf_eq:
  assumes "vq_wf vq"
  shows "add_buf addr len flags vq = Some (with_buf addr len flags vq)"
proof -
  have i: "unat (avail_idx vq mod ucast (queue_size vq)) = unat (avail_idx vq) mod unat (queue_size vq)"
    using assms unat_ucast_16 [of "queue_size vq"] by (simp add: vq_wf_def unat_mod_distrib)
  have "0 < length (vq_desc vq)" "unat (avail_idx vq) mod unat (queue_size vq) < length (avail_ring vq)"
    using assms by (auto simp: vq_wf_def word_less_nat_alt)
  then show ?thesis using size_nonzero [OF assms] i by (simp add: add_buf_def add_buf_idx_def wr_def with_buf_def)
qed

text \<open>The memory after a packet was put behind an empty virtio header at \<open>tx\<close>.\<close>

definition tx_mem :: "u64 \<Rightarrow> u64 \<Rightarrow> nat \<Rightarrow> vmem \<Rightarrow> vmem" where
  "tx_mem tx src n m x =
     (if unat (x - tx) < 10 then Some 0 else if unat (x - tx) < 10 + n then m (src + (x - tx - 10)) else m x)"

lemma tx_copy:
  assumes "10 + n < 2 ^ 64" and "\<forall>i < 10 + n. m (tx + of_nat i) \<noteq> None" and "\<forall>i < n. m (src + of_nat i) \<noteq> None"
    and "\<forall>i < n. \<forall>j < 10 + n. src + of_nat i \<noteq> tx + of_nat j"
  shows "do { m \<leftarrow> vmem_set tx 0 10 m; vmem_copy (tx + 10) src n m } = Some (tx_mem tx src n m)"
proof -
  define m1 where "m1 = (\<lambda>x. if unat (x - tx) < 10 then Some 0 else m x)"
  have 1: "vmem_set tx 0 10 m = Some m1"
    using assms(1,2) unfolding m1_def by (intro vmem_set_result) auto
  have src: "m1 (src + of_nat i) = m (src + of_nat i)" if "i < n" for i
  proof -
    have "src + of_nat i \<noteq> tx + of_nat (unat (src + of_nat i - tx))" if "unat (src + of_nat i - tx) < 10"
      using assms(4) \<open>i < n\<close> that by (meson trans_less_add1)
    then show ?thesis by (auto simp: m1_def)
  qed
  have off: "tx + 10 + of_nat i = tx + of_nat (10 + i)" for i by (simp add: add.assoc)
  have m1: "m y \<noteq> None \<Longrightarrow> m1 y \<noteq> None" for y by (simp add: m1_def)
  have "\<forall>i < n. m1 (tx + 10 + of_nat i) \<noteq> None" unfolding off by (intro allI impI m1 assms(2) [rule_format]) simp
  moreover have "\<forall>i < n. \<forall>j < n. src + of_nat i \<noteq> tx + 10 + of_nat j" unfolding off by (intro allI impI assms(4) [rule_format]) simp_all
  ultimately have 2: "vmem_copy (tx + 10) src n m1 = Some (\<lambda>x. if unat (x - (tx + 10)) < n then m1 (src + (x - (tx + 10))) else m1 x)"
    using assms(1,3) src by (intro vmem_copy_result) auto
  have "(if unat (x - (tx + 10)) < n then m1 (src + (x - (tx + 10))) else m1 x) = tx_mem tx src n m x" for x
  proof (cases "unat (x - tx) < 10")
    case True
    have "x - (tx + 10) = (x - tx) + - 10" by simp
    also have "unat ((x - tx) + - 10) = unat (x - tx) + (2 ^ 64 - 10)"
      using True unat_add_no_wrap [of "x - tx" "- 10"] by simp
    finally have "\<not> unat (x - (tx + 10)) < n" using assms(1) by simp
    then show ?thesis using True by (simp add: m1_def tx_mem_def)
  next
    case False
    then have "unat (x - (tx + 10)) = unat (x - tx) - 10"
      using unat_sub [of 10 "x - tx"] by (simp add: word_le_nat_alt diff_diff_eq)
    moreover have "m1 (src + (x - (tx + 10))) = m (src + (x - tx - 10))" if "unat (x - (tx + 10)) < n"
      using src [OF that] by (simp add: diff_diff_eq)
    ultimately show ?thesis using False by (auto simp: tx_mem_def m1_def)
  qed
  with 1 2 show ?thesis by auto
qed

text \<open>C13: a packet that a process submits. The driver clears ten bytes for the header at the start of the
  transmit page and copies the packet behind it, so that exactly \<open>10 + len\<close> bytes from the start of the page on
  change. When the packet has at most 4096 bytes, it makes these bytes the buffer of descriptor 0, for the device to
  read, adds the descriptor to the available ring, and notifies the device once, with the number of the queue; a
  longer packet makes the kernel panic. Up to 4086 bytes the buffer lies in the page, and no
  other memory changes; from 4087 bytes on the last bytes are written behind the page. There is no
  condition on the address of the packet, which may also be one of the kernel, except that it does not overlap the buffer.\<close>

theorem transmit_exact:
  assumes "cmd_opcode cmd = Submit" and "tx_page_size (ni_dev s) = 4096"
    and "rd (vqs (ni_dev s)) VIRTIO_TX_QUEUE_IDX = Some vq" and "vq_wf vq"
    and "\<forall>i < 10 + unat (cmd_len cmd). ni_mem s (tx_page (ni_dev s) + of_nat i) \<noteq> None"
    and "\<forall>i < unat (cmd_len cmd). ni_mem s (cmd_addr cmd + of_nat i) \<noteq> None"
    and "\<forall>i < unat (cmd_len cmd). \<forall>j < 10 + unat (cmd_len cmd). cmd_addr cmd + of_nat i \<noteq> tx_page (ni_dev s) + of_nat j"
  shows "process_io_one P B cmd s =
    (if 4096 < cmd_len cmd then None
     else let vq' = with_buf (virt_to_phys (tx_page (ni_dev s))) (10 + cmd_len cmd) 0 vq
     in Some (s\<lparr>ni_mem := tx_mem (tx_page (ni_dev s)) (cmd_addr cmd) (unat (cmd_len cmd)) (ni_mem s),
                ni_dev := (ni_dev s)\<lparr>vqs := (vqs (ni_dev s))[VIRTIO_TX_QUEUE_IDX := vq']\<rparr>,
                ni_hw := IOPort_write16 P B (notify_cfg_ioport (ni_dev s)) (queue_idx vq)
                  (ucast (notify_off_multiplier (ni_dev s) * ucast (notify_off vq))) (ni_hw s)\<rparr>))
    \<and> (\<forall>x. 10 + unat (cmd_len cmd) \<le> unat (x - tx_page (ni_dev s)) \<longrightarrow>
         tx_mem (tx_page (ni_dev s)) (cmd_addr cmd) (unat (cmd_len cmd)) (ni_mem s) x = ni_mem s x)"
proof (cases "4096 < cmd_len cmd")
  case True
  then show ?thesis
    using assms(1,2) by (auto simp: process_io_one_def Let_def tx_mem_def split: bind_splits)
next
  case False
  then have "10 + unat (cmd_len cmd) < 2 ^ 64" by (simp add: word_less_nat_alt)
  from tx_copy [OF this assms(5-7)]
  obtain m where "vmem_set (tx_page (ni_dev s)) 0 10 (ni_mem s) = Some m"
      "vmem_copy (tx_page (ni_dev s) + 10) (cmd_addr cmd) (unat (cmd_len cmd)) m =
        Some (tx_mem (tx_page (ni_dev s)) (cmd_addr cmd) (unat (cmd_len cmd)) (ni_mem s))"
    by (auto split: bind_splits)
  then show ?thesis
    using assms(1-3) False add_buf_eq [OF assms(4)]
    by (simp add: process_io_one_def queue_buf_def add_outbuf_def notify_def with_buf_def Let_def tx_mem_def)
qed

text \<open>A bus and ports that record what is written to them.\<close>

definition bus_example :: "(u64 \<times> u64) list mmio_bus" where
  "bus_example = \<lparr>bus_load = \<lambda>_ _ d. (0, d), bus_store = \<lambda>_ a v d. d @ [(a, v)]\<rparr>"

definition ports_example :: "(u64 \<times> u64) list ports" where
  "ports_example = \<lparr>inb = \<lambda>_ d. (0, d), outb = \<lambda>p v d. d @ [(ucast p, ucast v)], inw = \<lambda>_ d. (0, d), outw = \<lambda>p v d. d @ [(ucast p, ucast v)],
     inl = \<lambda>_ d. (0, d), outl = \<lambda>p v d. d @ [(ucast p, ucast v)]\<rparr>"

definition net_io_example :: "(u64 \<times> u64) list net_io" where
  "net_io_example = \<lparr>ni_dev = net_example, ni_mem = \<lambda>_. Some 7, ni_rings = \<lambda>_. ring24_example, ni_hw = []\<rparr>"

theorem transmit_exact_witness:
  "map_option ni_hw (process_io_one ports_example bus_example \<lparr>cmd_opcode = Submit, cmd_addr = 0x5000, cmd_len = 3\<rparr> net_io_example) = Some [(0x9004, 1)]"
proof -
  let ?cmd = "\<lparr>cmd_opcode = Submit, cmd_addr = 0x5000, cmd_len = 3\<rparr>" and ?vq = "vq_example\<lparr>queue_idx := 1, notify_off := 1\<rparr>"
  have "0x5000 + of_nat i \<noteq> (0xffffffff80008000 :: u64) + of_nat j" if "i < 3" "j < 13" for i j
  proof -
    have "unat (0x5000 + of_nat i :: u64) = 0x5000 + i" "unat (0xffffffff80008000 + of_nat j :: u64) = 0xffffffff80008000 + j"
      using that by (simp_all add: unat_add_no_wrap unat_of_nat64)
    then have "unat (0x5000 + of_nat i :: u64) \<noteq> unat (0xffffffff80008000 + of_nat j :: u64)" using that by linarith
    then show ?thesis by auto
  qed
  moreover have s: "ni_dev net_io_example = net_example" "ni_mem net_io_example = (\<lambda>_. Some 7)" "ni_hw net_io_example = []"
    by (simp_all add: net_io_example_def)
  moreover have d: "tx_page net_example = 0xffffffff80008000" "tx_page_size net_example = 4096" "notify_cfg_ioport net_example = Memory 0x9000 16"
      "notify_off_multiplier net_example = 4" "rd (vqs net_example) 1 = Some ?vq" by (simp_all add: net_example_def rd_def)
  moreover have "vq_wf ?vq" by (simp add: vq_wf_def vq_example_def)
  ultimately have "map_option ni_hw (process_io_one ports_example bus_example ?cmd net_io_example) =
      Some (IOPort_write16 ports_example bus_example (Memory 0x9000 16) 1 (ucast (4 * ucast (1 :: u16) :: u32)) [])"
    using transmit_exact [of ?cmd net_io_example ?vq ports_example bus_example] by (simp add: Let_def)
  then show ?thesis by (simp add: mmio_write16_def bus_example_def)
qed

subsection \<open>The commands of a process\<close>

fun io_run :: "'d ports \<Rightarrow> 'd mmio_bus \<Rightarrow> IOCmd list \<Rightarrow> 'd net_io \<Rightarrow> 'd net_io option" where
  "io_run P B [] s = Some s"
| "io_run P B (c # cs) s = do { s \<leftarrow> process_io_one P B c s; io_run P B cs s }"

lemma process_io_one_rings: "process_io_one P B c (s\<lparr>ni_rings := r\<rparr>) = map_option (\<lambda>s. s\<lparr>ni_rings := r\<rparr>) (process_io_one P B c s)"
  by (auto simp: process_io_one_def queue_buf_def Let_def split: Opcode.splits bind_splits)

lemma io_run_rings: "io_run P B cs (s\<lparr>ni_rings := r\<rparr>) = map_option (\<lambda>s. s\<lparr>ni_rings := r\<rparr>) (io_run P B cs s)"
proof (induction cs arbitrary: s)
  case Nil
  then show ?case by simp
next
  case (Cons c cs)
  then show ?case by (cases "process_io_one P B c s") (simp_all add: process_io_one_rings)
qed

lemma process_io_loop_runs:
  assumes "io_queue_wf (ni_rings s a)" and "map raw_io_cmd_decode (ring_list (ni_rings s a)) = map Some cs"
  shows "case io_run P B cs s of
      None \<Rightarrow> process_io_loop P B a s = None
    | Some s' \<Rightarrow> (\<exists>q. io_queue_wf q \<and> ring_list q = [] \<and> process_io_loop P B a s = Some (s'\<lparr>ni_rings := (ni_rings s)(a := q)\<rparr>))"
  using assms
proof (induction cs arbitrary: s)
  case Nil
  then show ?case
    using IOQueue_pop_list [of "ni_rings s a"] by (subst process_io_loop.simps) (auto simp: io_queue_wf_def intro!: exI [of _ "ni_rings s a"])
next
  case (Cons c cs)
  then obtain x xs where x: "ring_list (ni_rings s a) = x # xs" "raw_io_cmd_decode x = Some c" "map raw_io_cmd_decode xs = map Some cs" by auto
  let ?q = "atomic_ring_buffer_pop (ni_rings s a)"
  have wf: "ring_wf (ni_rings s a)" using Cons.prems(1) by (simp add: io_queue_wf_def)
  have q: "io_queue_wf ?q" "ring_list ?q = xs"
    using ring_pop_list [OF wf] x(1) Cons.prems(1) by (simp_all add: io_queue_wf_def ring_pop_frame)
  have step: "process_io_loop P B a s = (case process_io_one P B c s of None \<Rightarrow> None
      | Some s1 \<Rightarrow> process_io_loop P B a (s1\<lparr>ni_rings := (ni_rings s)(a := ?q)\<rparr>))"
    using IOQueue_pop_list [OF wf] x by (subst process_io_loop.simps) (simp add: process_io_one_rings split: option.splits)
  show ?case
  proof (cases "process_io_one P B c s")
    case None
    then show ?thesis using step by simp
  next
    case (Some s1)
    let ?s = "s1\<lparr>ni_rings := (ni_rings s)(a := ?q)\<rparr>"
    have IH: "case io_run P B cs ?s of
        None \<Rightarrow> process_io_loop P B a ?s = None
      | Some s' \<Rightarrow> (\<exists>q. io_queue_wf q \<and> ring_list q = [] \<and> process_io_loop P B a ?s = Some (s'\<lparr>ni_rings := (ni_rings ?s)(a := q)\<rparr>))"
      using q x(3) by (intro Cons.IH) simp_all
    have eq: "process_io_loop P B a s = process_io_loop P B a ?s" "io_run P B (c # cs) s = io_run P B cs s1" using step Some by simp_all
    show ?thesis
    proof (cases "io_run P B cs s1")
      case None
      then show ?thesis using IH unfolding eq by (simp add: io_run_rings)
    next
      case (Some s2)
      then obtain q' where "io_queue_wf q'" "ring_list q' = []" "process_io_loop P B a ?s = Some (s2\<lparr>ni_rings := (ni_rings s)(a := q')\<rparr>)"
        using IH by (auto simp: io_run_rings)
      then show ?thesis using Some unfolding eq by auto
    qed
  qed
qed

text \<open>C12: the commands that a process appends to its empty I/O queue, as far as the queue has room for them
  (one slot stays free; what does not fit is dropped when it is appended), are carried out by the next
  \<open>process_io\<close>, once and in the order in which they were appended; afterwards the queue is empty and usable
  again. \<open>process_io\<close> fails only when one of the commands does. \<open>io_run\<close> is the commands one after the other.\<close>

theorem io_commands_carried_out:
  assumes "io_queue (ni_dev s) = Some a" and "io_queue_wf (ni_rings s a)" and "ring_list (ni_rings s a) = []" and "length pad = 4"
  shows "\<exists>q. io_append_all pad (ni_rings s a) cs = Some q
    \<and> (case io_run P B (take (ring_slots (ni_rings s a) - 1) cs) s of
         None \<Rightarrow> net_process_io P B (s\<lparr>ni_rings := (ni_rings s)(a := q)\<rparr>) = None
       | Some s' \<Rightarrow> (\<exists>q'. io_queue_wf q' \<and> ring_list q' = []
           \<and> net_process_io P B (s\<lparr>ni_rings := (ni_rings s)(a := q)\<rparr>) = Some (s'\<lparr>ni_rings := (ni_rings s)(a := q')\<rparr>)))"
proof -
  let ?cs = "take (ring_slots (ni_rings s a) - 1) cs"
  obtain q where q: "io_append_all pad (ni_rings s a) cs = Some q" "io_queue_wf q" "ring_list q = map (cmd_bytes pad) ?cs"
    using io_append_all_list [OF assms(2,4), of cs] assms(3) by (auto simp: take_map)
  let ?s = "s\<lparr>ni_rings := (ni_rings s)(a := q)\<rparr>"
  have "map raw_io_cmd_decode (ring_list (ni_rings ?s a)) = map Some ?cs"
    using q(3) raw_io_cmd_decode_bytes [OF assms(4)] by simp
  with process_io_loop_runs [of ?s a ?cs P B] q(2) assms(1) q(1) show ?thesis
    by (auto simp: net_process_io_def io_run_rings split: option.splits)
qed

theorem io_commands_carried_out_witness:
  "\<exists>q s'. io_append_all [0, 0, 0, 0] ring24_example (replicate 2 \<lparr>cmd_opcode = Complete, cmd_addr = 0, cmd_len = 0\<rparr>) = Some q
     \<and> net_process_io ports_example bus_example (net_io_example\<lparr>ni_rings := (\<lambda>_. ring24_example)(0x90001000 := q)\<rparr>) = Some s'
     \<and> ni_hw s' = [(0x9000, 0), (0x9000, 0)] \<and> ring_list (ni_rings s' 0x90001000) = []"
proof -
  let ?cs = "replicate 2 \<lparr>cmd_opcode = Complete, cmd_addr = 0, cmd_len = 0\<rparr>"
  have "map_option ni_hw (io_run ports_example bus_example ?cs net_io_example) = Some [(0x9000, 0), (0x9000, 0)]" by code_simp
  then obtain s' where s': "io_run ports_example bus_example ?cs net_io_example = Some s'" "ni_hw s' = [(0x9000, 0), (0x9000, 0)]" by auto
  have r: "ni_rings net_io_example = (\<lambda>_. ring24_example)" "io_queue (ni_dev net_io_example) = Some 0x90001000"
    by (simp_all add: net_io_example_def net_example_def)
  have "io_queue_wf ring24_example" using ring24_example_wf(1) by (simp add: event_ring_def io_queue_wf_def sizeof_io_cmd_def)
  then show ?thesis
    using io_commands_carried_out [OF r(2), of "[0, 0, 0, 0]" ?cs ports_example bus_example] s' ring24_example_wf(2,3) unfolding r by auto
qed

end
