(* ===== verification/Pci.thy ===== *)
theory Pci
  imports Virtio "HOL-Library.List_Lexorder" "HOL-Library.Char_ord"
begin

text \<open>
  The PCI bus (\<^verbatim>\<open>drivers/pci/lib.rs\<close>): the configuration space of a function, its base address
  registers and capabilities, message-signalled interrupts, and the search for devices. The
  configuration space is reached through the ports of \<^verbatim>\<open>arch/x86_64/pci.c\<close>; the hardware behind
  them and behind the memory of a device is a parameter. What is printed on the console is left
  out. The kernel is built in release mode, where the arithmetic on offsets wraps around; a panic, that of a
  checked index included, and a search that does not end are \<open>None\<close>.
\<close>

subsection \<open>Functions\<close>

record PCIFunction =
  bus_id :: u16
  slot_id :: u16
  func_id :: u16

definition read_config_u8 :: "'d ports \<Rightarrow> PCIFunction \<Rightarrow> u8 \<Rightarrow> 'd \<Rightarrow> u8 \<times> 'd" where
  "read_config_u8 P f offset d = pci_config_read_u8 P (bus_id f) (slot_id f) (func_id f) offset d"

definition read_config_u16 :: "'d ports \<Rightarrow> PCIFunction \<Rightarrow> u8 \<Rightarrow> 'd \<Rightarrow> u16 \<times> 'd" where
  "read_config_u16 P f offset d = pci_config_read_u16 P (bus_id f) (slot_id f) (func_id f) offset d"

definition write_config_u16 :: "'d ports \<Rightarrow> PCIFunction \<Rightarrow> u8 \<Rightarrow> u16 \<Rightarrow> 'd \<Rightarrow> 'd" where
  "write_config_u16 P f offset v d = pci_config_write_u16 P (bus_id f) (slot_id f) (func_id f) offset v d"

definition read_config_u32 :: "'d ports \<Rightarrow> PCIFunction \<Rightarrow> u8 \<Rightarrow> 'd \<Rightarrow> u32 \<times> 'd" where
  "read_config_u32 P f offset d = pci_config_read_u32 P (bus_id f) (slot_id f) (func_id f) offset d"

definition write_config_u32 :: "'d ports \<Rightarrow> PCIFunction \<Rightarrow> u8 \<Rightarrow> u32 \<Rightarrow> 'd \<Rightarrow> 'd" where
  "write_config_u32 P f offset v d = pci_config_write_u32 P (bus_id f) (slot_id f) (func_id f) offset v d"

abbreviation PCI_CFG_VENDOR_ID :: u8 where "PCI_CFG_VENDOR_ID \<equiv> 0x00"
abbreviation PCI_CFG_DEVICE_ID :: u8 where "PCI_CFG_DEVICE_ID \<equiv> 0x02"
abbreviation PCI_CFG_COMMAND :: u8 where "PCI_CFG_COMMAND \<equiv> 0x04"
abbreviation PCI_CFG_STATUS :: u8 where "PCI_CFG_STATUS \<equiv> 0x06"
abbreviation PCI_CFG_CLASS_REVISION :: u8 where "PCI_CFG_CLASS_REVISION \<equiv> 0x08"
abbreviation PCI_CFG_REVISION_ID :: u8 where "PCI_CFG_REVISION_ID \<equiv> 0x08"
abbreviation PCI_CFG_CLASS_CODE :: u8 where "PCI_CFG_CLASS_CODE \<equiv> 0x08"
abbreviation PCI_CFG_SUBCLASS :: u8 where "PCI_CFG_SUBCLASS \<equiv> 0x08"
abbreviation PCI_CFG_PROG_IF :: u8 where "PCI_CFG_PROG_IF \<equiv> 0x08"
abbreviation PCI_CFG_HEADER_TYPE :: u8 where "PCI_CFG_HEADER_TYPE \<equiv> 0x0e"
abbreviation PCI_CFG_BARS :: u8 where "PCI_CFG_BARS \<equiv> 0x10"
abbreviation PCI_CFG_SECONDARY_BUS :: u8 where "PCI_CFG_SECONDARY_BUS \<equiv> 0x19"
abbreviation PCI_CFG_CAPABILITIES_PTR :: u8 where "PCI_CFG_CAPABILITIES_PTR \<equiv> 0x34"
abbreviation PCI_HEADER_TYPE_MASK :: u8 where "PCI_HEADER_TYPE_MASK \<equiv> 0x03"
abbreviation PCI_HEADER_TYPE_BRIDGE :: u8 where "PCI_HEADER_TYPE_BRIDGE \<equiv> 0x01"
abbreviation PCI_CMD_BUS_MASTER :: u16 where "PCI_CMD_BUS_MASTER \<equiv> 0x4"
abbreviation PCI_CMD_INTX_DISABLE :: u16 where "PCI_CMD_INTX_DISABLE \<equiv> 0x400"
abbreviation PCI_CMD_BAR_MEM_ENABLE :: u16 where "PCI_CMD_BAR_MEM_ENABLE \<equiv> 0x2"
abbreviation PCI_CMD_BAR_IO_ENABLE :: u16 where "PCI_CMD_BAR_IO_ENABLE \<equiv> 0x1"
abbreviation PCI_STATUS_CAPABILITIES_LIST :: u8 where "PCI_STATUS_CAPABILITIES_LIST \<equiv> 0x10"
abbreviation PCI_CAPABILITY_VENDOR :: u8 where "PCI_CAPABILITY_VENDOR \<equiv> 0x09"
abbreviation PCI_CAPABILITY_MSIX :: u8 where "PCI_CAPABILITY_MSIX \<equiv> 0x11"
abbreviation PCI_MSIX_MSG_CTRL :: u8 where "PCI_MSIX_MSG_CTRL \<equiv> 0x02"
abbreviation PCI_MSIX_MSG_CTRL_MSIX_ENABLE :: u16 where "PCI_MSIX_MSG_CTRL_MSIX_ENABLE \<equiv> 0x8000"
abbreviation PCI_MSIX_MSG_CTRL_FUNCTION_MASK :: u16 where "PCI_MSIX_MSG_CTRL_FUNCTION_MASK \<equiv> 0x4000"
abbreviation PCI_MSIX_MSG_CTRL_TABLE_SIZE :: u16 where "PCI_MSIX_MSG_CTRL_TABLE_SIZE \<equiv> 0x7ff"
abbreviation PCI_MSIX_TABLE_OFFSET :: u8 where "PCI_MSIX_TABLE_OFFSET \<equiv> 0x04"
abbreviation PCI_MSIX_TABLE_OFFSET_MASK :: u32 where "PCI_MSIX_TABLE_OFFSET_MASK \<equiv> 0x7ffffff8"
abbreviation PCI_MSIX_TABLE_BIR_MASK :: u32 where "PCI_MSIX_TABLE_BIR_MASK \<equiv> 0x7"
abbreviation PCI_MSIX_ENTRY_VECTOR_CTRL_MASK_BIT :: u32 where "PCI_MSIX_ENTRY_VECTOR_CTRL_MASK_BIT \<equiv> 1"
abbreviation MSIX_ENTRY_SIZE :: u64 where "MSIX_ENTRY_SIZE \<equiv> 16"
abbreviation MSIX_ENTRY_ADDR :: u64 where "MSIX_ENTRY_ADDR \<equiv> 0"
abbreviation MSIX_ENTRY_DATA :: u64 where "MSIX_ENTRY_DATA \<equiv> 8"
abbreviation MSIX_ENTRY_CONTROL :: u64 where "MSIX_ENTRY_CONTROL \<equiv> 12"

subsection \<open>Capabilities\<close>

text \<open>The loop over the list of capabilities, which both searches have.\<close>

partial_function (option) capability_loop :: "'d ports \<Rightarrow> PCIFunction \<Rightarrow> u8 \<Rightarrow> u8 \<Rightarrow> 'd \<Rightarrow> (u8 option \<times> 'd) option" where
  "capability_loop pio f cap_id offset d =
     (if offset \<noteq> 0 then
        (case read_config_u8 pio f (offset + 0) d of (cap, d) \<Rightarrow>
           if cap = cap_id then Some (Some offset, d)
           else (case read_config_u8 pio f (offset + 1) d of (next, d) \<Rightarrow> capability_loop pio f cap_id next d))
      else Some (None, d))"

definition find_capability :: "'d ports \<Rightarrow> PCIFunction \<Rightarrow> u8 \<Rightarrow> 'd \<Rightarrow> (u8 option \<times> 'd) option" where
  "find_capability P f cap_id d =
     (let (status, d) = read_config_u8 P f PCI_CFG_STATUS d
      in if status AND PCI_STATUS_CAPABILITIES_LIST = 0 then Some (None, d)
         else let (offset, d) = read_config_u8 P f PCI_CFG_CAPABILITIES_PTR d
              in capability_loop P f cap_id offset d)"

definition find_next_capability :: "'d ports \<Rightarrow> PCIFunction \<Rightarrow> u8 \<Rightarrow> u8 \<Rightarrow> 'd \<Rightarrow> (u8 option \<times> 'd) option" where
  "find_next_capability P f cap_id pos d =
     (let (offset, d) = read_config_u8 P f (pos + 1) d in capability_loop P f cap_id offset d)"

subsection \<open>Base address registers\<close>

datatype Locatable = Bits32 | Bits64

datatype BAR = BAR_Memory u64 u32 bool Locatable | BAR_IO u16 u32

fun BAR_remap :: "BAR \<Rightarrow> ('t, 'c) mmu_state \<Rightarrow> (IOPort \<times> ('t, 'c) mmu_state) option" where
  "BAR_remap (BAR_Memory base_addr sz prefetchable locatable) mm =
     do { (addr, mm) \<leftarrow> ioremap base_addr (ucast sz) mm; Some (Memory addr sz, mm) }"
| "BAR_remap (BAR_IO iobase sz) mm = Some (IO iobase sz, mm)"

definition bar_offset :: "nat \<Rightarrow> u8" where
  "bar_offset bar_idx = PCI_CFG_BARS + of_nat (bar_idx * 4)"

text \<open>The size of the register: all ones are written and what stays is read back.\<close>

definition bar_size :: "'d ports \<Rightarrow> PCIFunction \<Rightarrow> u8 \<Rightarrow> u32 \<Rightarrow> 'd \<Rightarrow> u32 \<times> 'd" where
  "bar_size P f offset raw_bar d =
     (let d = write_config_u32 P f offset (NOT 0) d;
          (v, d) = read_config_u32 P f offset d;
          d = write_config_u32 P f offset raw_bar d
      in (NOT v + 1, d))"

definition BAR_decode :: "'d ports \<Rightarrow> PCIFunction \<Rightarrow> nat \<Rightarrow> 'd \<Rightarrow> (BAR option \<times> nat) \<times> 'd" where
  "BAR_decode P f bar_idx d =
     (let offset = bar_offset bar_idx;
          (raw_bar, d) = read_config_u32 P f offset d
      in if raw_bar = 0 then ((None, bar_idx + 1), d)
         else if raw_bar AND 0x01 = 0 then
           (let bar_type = drop_bit 1 (raw_bar AND 6)
            in if bar_type = 0 then
                 (let base_addr = ucast (raw_bar AND NOT 0xf);
                      (sz, d) = bar_size P f offset raw_bar d
                  in ((Some (BAR_Memory base_addr sz (raw_bar AND 8 \<noteq> 0) Bits32), bar_idx + 1), d))
               else if bar_type = 2 then
                 (let (next_bar, d) = read_config_u32 P f (bar_offset (bar_idx + 1)) d;
                      base_addr = ucast (raw_bar AND NOT 0xf) OR push_bit 32 (ucast next_bar);
                      (sz, d) = bar_size P f offset raw_bar d
                  in ((Some (BAR_Memory base_addr sz (raw_bar AND 8 \<noteq> 0) Bits64), bar_idx + 2), d))
               else ((None, bar_idx + 1), d))
         else
           (let (sz, d) = bar_size P f offset raw_bar d
            in ((Some (BAR_IO (ucast (raw_bar AND NOT 0x03)) sz), bar_idx + 1), d)))"

lemma BAR_decode_next: "BAR_decode P f i d = ((bar, j), d') \<Longrightarrow> i < j"
  by (auto simp: BAR_decode_def Let_def split: prod.splits if_splits)

subsection \<open>Devices\<close>

record DeviceID =
  vendor_id :: u16
  device_id :: u16
  revision_id :: u8
  header_type :: u8
  class_code :: u8
  sub_class :: u8
  prog_if :: u8

record MSIX =
  msix_offset :: u8
  table_bar :: u8
  table_offset :: u64

record PCIDevice =
  pd_func :: PCIFunction
  dev_id :: DeviceID
  bars :: "IOPort option list"
  msix :: "MSIX option"

text \<open>The state of the kernel that the bus and its drivers work on.\<close>

record ('t, 'c, 'd, 'x) pci_sys =
  ps_x86 :: "'d x86"
  ps_mm :: "('t, 'c) mmu_state"
  ps_kmem :: "('t, 'c) kmem_state"
  ps_namespace :: "(string \<times> 'x) list"

abbreviation ps_hw :: "('t, 'c, 'd, 'x) pci_sys \<Rightarrow> 'd" where "ps_hw s \<equiv> hw (ps_x86 s)"

definition set_hw :: "'d \<Rightarrow> ('t, 'c, 'd, 'x) pci_sys \<Rightarrow> ('t, 'c, 'd, 'x) pci_sys" where
  "set_hw d s = s\<lparr>ps_x86 := (ps_x86 s)\<lparr>hw := d\<rparr>\<rparr>"

text \<open>The registered devices are the elements of a tree in the order of their names.\<close>

definition register_device :: "string \<times> 'x \<Rightarrow> ('t, 'c, 'd, 'x) pci_sys \<Rightarrow> ('t, 'c, 'd, 'x) pci_sys" where
  "register_device dev s =
     s\<lparr>ps_namespace := takeWhile (\<lambda>(n, _). n \<le> fst dev) (ps_namespace s) @ dev # dropWhile (\<lambda>(n, _). n \<le> fst dev) (ps_namespace s)\<rparr>"

function decode_bars ::
  "'d ports \<Rightarrow> PCIFunction \<Rightarrow> nat \<Rightarrow> nat \<Rightarrow> IOPort option list \<Rightarrow> ('t, 'c, 'd, 'x) pci_sys \<Rightarrow> (IOPort option list \<times> ('t, 'c, 'd, 'x) pci_sys) option" where
  "decode_bars P f max_bars bar_idx ports s =
     (if bar_idx < max_bars then
        (case BAR_decode P f bar_idx (ps_hw s) of ((bar, next_idx), d) \<Rightarrow>
           let s = set_hw d s
           in do { (port, s) \<leftarrow> (case bar of
                                 None \<Rightarrow> Some (None, s)
                               | Some bar \<Rightarrow> do { (port, mm) \<leftarrow> BAR_remap bar (ps_mm s); Some (Some port, s\<lparr>ps_mm := mm\<rparr>) });
                   ports \<leftarrow> wr ports bar_idx port;
                   decode_bars P f max_bars next_idx ports s })
      else Some (ports, s))"
  by pat_completeness auto
termination
  by (relation "measure (\<lambda>(P, f, max_bars, bar_idx, ports, s). max_bars - bar_idx)") (auto dest!: BAR_decode_next [OF sym])

declare decode_bars.simps [simp del]

definition decode_msix :: "'d ports \<Rightarrow> PCIFunction \<Rightarrow> 'd \<Rightarrow> (MSIX option \<times> 'd) option" where
  "decode_msix P f d =
     do { (cap, d) \<leftarrow> find_capability P f PCI_CAPABILITY_MSIX d;
          case cap of
            None \<Rightarrow> Some (None, d)
          | Some off \<Rightarrow>
              (let (msix_table, d) = read_config_u32 P f (off + PCI_MSIX_TABLE_OFFSET) d
               in Some (Some \<lparr>msix_offset = off, table_bar = ucast (msix_table AND PCI_MSIX_TABLE_BIR_MASK),
                              table_offset = ucast (msix_table AND PCI_MSIX_TABLE_OFFSET_MASK)\<rparr>, d)) }"

definition set_command :: "'d ports \<Rightarrow> PCIFunction \<Rightarrow> (u16 \<Rightarrow> u16) \<Rightarrow> 'd \<Rightarrow> 'd" where
  "set_command P f change d =
     (let (cmd, d) = read_config_u16 P f PCI_CFG_COMMAND d in write_config_u16 P f PCI_CFG_COMMAND (change cmd) d)"

text \<open>A driver is the vendor and the device it is for, and its probe function, whose result is the device to
  register, if any.\<close>

type_synonym ('t, 'c, 'd, 'x) PCIDriver =
  "u16 \<times> u16 \<times> (PCIDevice \<Rightarrow> ('t, 'c, 'd, 'x) pci_sys \<Rightarrow> ((string \<times> 'x) option \<times> ('t, 'c, 'd, 'x) pci_sys) option)"

fun probe_drivers :: "('t, 'c, 'd, 'x) PCIDriver list \<Rightarrow> PCIDevice \<Rightarrow> ('t, 'c, 'd, 'x) pci_sys \<Rightarrow> ('t, 'c, 'd, 'x) pci_sys option" where
  "probe_drivers [] dev s = Some s"
| "probe_drivers ((vendor, device, probe) # drvs) dev s =
     (if vendor \<noteq> vendor_id (dev_id dev) then probe_drivers drvs dev s
      else if device \<noteq> device_id (dev_id dev) then probe_drivers drvs dev s
      else do { (r, s) \<leftarrow> probe dev s;
                probe_drivers drvs dev (case r of None \<Rightarrow> s | Some r \<Rightarrow> register_device r s) })"

definition PCIDevice_probe ::
  "'d ports \<Rightarrow> ('t, 'c, 'd, 'x) PCIDriver list \<Rightarrow> PCIFunction \<Rightarrow> u8 \<Rightarrow> ('t, 'c, 'd, 'x) pci_sys \<Rightarrow> (PCIDevice \<times> ('t, 'c, 'd, 'x) pci_sys) option" where
  "PCIDevice_probe P drvs f ht s =
     (let (vendor, d) = read_config_u16 P f PCI_CFG_VENDOR_ID (ps_hw s);
          (device, d) = read_config_u16 P f PCI_CFG_DEVICE_ID d;
          (revision, d) = read_config_u8 P f PCI_CFG_REVISION_ID d;
          (cls, d) = read_config_u8 P f PCI_CFG_CLASS_CODE d;
          (sub, d) = read_config_u8 P f PCI_CFG_SUBCLASS d;
          (prog, d) = read_config_u8 P f PCI_CFG_PROG_IF d;
          max_bars = (if ht AND PCI_HEADER_TYPE_MASK = 0 then 6 else if ht AND PCI_HEADER_TYPE_MASK = 2 then 2 else 0)
      in do { (ports, s) \<leftarrow> decode_bars P f max_bars 0 (replicate 6 None) (set_hw d s);
              (mx, d) \<leftarrow> decode_msix P f (ps_hw s);
              let d = set_command P f (\<lambda>cmd. cmd OR PCI_CMD_BAR_MEM_ENABLE OR PCI_CMD_BAR_IO_ENABLE) d;
              let dev = \<lparr>pd_func = f,
                         dev_id = \<lparr>vendor_id = vendor, device_id = device, revision_id = revision, header_type = ht,
                                   class_code = cls, sub_class = sub, prog_if = prog\<rparr>,
                         bars = ports, msix = mx\<rparr>;
              s \<leftarrow> probe_drivers drvs dev (set_hw d s);
              Some (dev, s) })"

definition set_bus_master :: "'d ports \<Rightarrow> PCIDevice \<Rightarrow> bool \<Rightarrow> 'd \<Rightarrow> 'd" where
  "set_bus_master P dev master d =
     set_command P (pd_func dev) (\<lambda>cmd. if master then cmd OR PCI_CMD_BUS_MASTER else cmd AND NOT PCI_CMD_BUS_MASTER) d"

definition disable_intx :: "'d ports \<Rightarrow> PCIDevice \<Rightarrow> 'd \<Rightarrow> 'd" where
  "disable_intx P dev d = set_command P (pd_func dev) (\<lambda>cmd. cmd OR PCI_CMD_INTX_DISABLE) d"

subsection \<open>Message-signalled interrupts\<close>

text \<open>The table is looked for at the beginning of its base address register.\<close>

definition get_msix_table :: "PCIDevice \<Rightarrow> IOPort option option" where
  "get_msix_table dev = (case msix dev of None \<Rightarrow> Some None | Some mx \<Rightarrow> rd (bars dev) (unat (table_bar mx)))"

definition get_entry_addr :: "u16 \<Rightarrow> u64" where
  "get_entry_addr entry = ucast entry * MSIX_ENTRY_SIZE"

definition write_msix_entry :: "'d ports \<Rightarrow> 'd mmio_bus \<Rightarrow> PCIDevice \<Rightarrow> u16 \<Rightarrow> u64 \<Rightarrow> u32 \<Rightarrow> 'd \<Rightarrow> 'd option" where
  "write_msix_entry P B dev entry addr data d =
     do { table \<leftarrow> get_msix_table dev;
          case table of
            None \<Rightarrow> Some d
          | Some ioport \<Rightarrow>
              do { d \<leftarrow> IOPort_write64 B ioport addr (get_entry_addr entry + MSIX_ENTRY_ADDR) d;
                   Some (IOPort_write32 P B ioport data (get_entry_addr entry + MSIX_ENTRY_DATA) d) } }"

definition read_msix_entry_ctrl :: "'d ports \<Rightarrow> 'd mmio_bus \<Rightarrow> PCIDevice \<Rightarrow> u16 \<Rightarrow> 'd \<Rightarrow> (u32 \<times> 'd) option" where
  "read_msix_entry_ctrl P B dev entry d =
     do { table \<leftarrow> get_msix_table dev;
          case table of
            None \<Rightarrow> Some (0, d)
          | Some ioport \<Rightarrow> Some (IOPort_read32 P B ioport (get_entry_addr entry + MSIX_ENTRY_CONTROL) d) }"

definition write_msix_entry_ctrl :: "'d ports \<Rightarrow> 'd mmio_bus \<Rightarrow> PCIDevice \<Rightarrow> u16 \<Rightarrow> u32 \<Rightarrow> 'd \<Rightarrow> 'd option" where
  "write_msix_entry_ctrl P B dev entry ctrl_data d =
     do { table \<leftarrow> get_msix_table dev;
          case table of
            None \<Rightarrow> Some d
          | Some ioport \<Rightarrow> Some (IOPort_write32 P B ioport ctrl_data (get_entry_addr entry + MSIX_ENTRY_CONTROL) d) }"

definition mask_msix_entry :: "'d ports \<Rightarrow> 'd mmio_bus \<Rightarrow> PCIDevice \<Rightarrow> u16 \<Rightarrow> 'd \<Rightarrow> 'd option" where
  "mask_msix_entry P B dev entry d =
     do { (ctrl_data, d) \<leftarrow> read_msix_entry_ctrl P B dev entry d;
          write_msix_entry_ctrl P B dev entry (ctrl_data OR PCI_MSIX_ENTRY_VECTOR_CTRL_MASK_BIT) d }"

definition unmask_msix_entry :: "'d ports \<Rightarrow> 'd mmio_bus \<Rightarrow> PCIDevice \<Rightarrow> u16 \<Rightarrow> 'd \<Rightarrow> 'd option" where
  "unmask_msix_entry P B dev entry d =
     do { (ctrl_data, d) \<leftarrow> read_msix_entry_ctrl P B dev entry d;
          write_msix_entry_ctrl P B dev entry (ctrl_data AND NOT PCI_MSIX_ENTRY_VECTOR_CTRL_MASK_BIT) d }"

fun mask_entries :: "'d ports \<Rightarrow> 'd mmio_bus \<Rightarrow> PCIDevice \<Rightarrow> nat \<Rightarrow> nat \<Rightarrow> 'd \<Rightarrow> 'd option" where
  "mask_entries P B dev i 0 d = Some d"
| "mask_entries P B dev i (Suc n) d = do { d \<leftarrow> mask_msix_entry P B dev (of_nat i) d; mask_entries P B dev (Suc i) n d }"

text \<open>The sum binds tighter than the conjunction: the number of entries is masked with \<open>0x800\<close>.\<close>

definition enable_msix :: "'d ports \<Rightarrow> 'd mmio_bus \<Rightarrow> PCIDevice \<Rightarrow> 'd \<Rightarrow> 'd option" where
  "enable_msix P B dev d =
     (case msix dev of
        None \<Rightarrow> Some d
      | Some mx \<Rightarrow>
          let d = disable_intx P dev d;
              off = msix_offset mx + PCI_MSIX_MSG_CTRL;
              (control, d) = read_config_u16 P (pd_func dev) off d;
              control = control OR PCI_MSIX_MSG_CTRL_MSIX_ENABLE OR PCI_MSIX_MSG_CTRL_FUNCTION_MASK;
              d = write_config_u16 P (pd_func dev) off control d;
              table_size = control AND (PCI_MSIX_MSG_CTRL_TABLE_SIZE + 1)
          in do { d \<leftarrow> mask_entries P B dev 0 (unat table_size) d;
                  let (control, d) = read_config_u16 P (pd_func dev) off d;
                  Some (write_config_u16 P (pd_func dev) off (control AND NOT PCI_MSIX_MSG_CTRL_FUNCTION_MASK) d) })"

definition register_irq ::
  "'d ports \<Rightarrow> 'd mmio_bus \<Rightarrow> PCIDevice \<Rightarrow> u16 \<Rightarrow> u64 \<Rightarrow> u64 \<Rightarrow> 'd x86 \<Rightarrow> (int \<times> 'd x86) option" where
  "register_irq P B dev entry handler arg s =
     do { (vector, s) \<leftarrow> request_irq handler arg s;
          if vector < 0 then Some (vector, s)
          else do { let msg = apic_compose_msi_msg (of_int vector) 0 s;
                    d \<leftarrow> write_msix_entry P B dev entry (msg_addr msg) (msg_data msg) (hw s);
                    Some (vector, s\<lparr>hw := d\<rparr>) } }"

definition enable_irq :: "'d ports \<Rightarrow> 'd mmio_bus \<Rightarrow> PCIDevice \<Rightarrow> u16 \<Rightarrow> 'd \<Rightarrow> 'd option" where
  "enable_irq P B dev entry d = unmask_msix_entry P B dev entry d"

subsection \<open>The search for devices\<close>

text \<open>A bridge leads to another bus, from which the search goes on. Bridges that lead back make it endless:
  \<open>fuel\<close> bounds the depth of the recursion, and a search that goes deeper is \<open>None\<close>. The loops over
  slots and functions are \<open>for_idx\<close> on the result so far and the state; \<open>probe_bus\<close> is the search on
  the bus behind a bridge.\<close>

type_synonym ('t, 'c, 'd, 'x) probing = "bool \<times> ('t, 'c, 'd, 'x) pci_sys"

definition pci_probe_func ::
  "(u16 \<Rightarrow> ('t, 'c, 'd, 'x) pci_sys \<Rightarrow> ('t, 'c, 'd, 'x) probing option) \<Rightarrow> 'd ports \<Rightarrow> ('t, 'c, 'd, 'x) PCIDriver list
     \<Rightarrow> u16 \<Rightarrow> u16 \<Rightarrow> nat \<Rightarrow> ('t, 'c, 'd, 'x) probing \<Rightarrow> ('t, 'c, 'd, 'x) probing option" where
  "pci_probe_func probe_bus P drvs bus slot i = (\<lambda>(result, s).
     let f = \<lparr>bus_id = bus, slot_id = slot, func_id = of_nat i\<rparr>;
         (class_revision, d) = read_config_u32 P f PCI_CFG_CLASS_REVISION (ps_hw s);
         s = set_hw d s
     in if class_revision = 0xffffffff then Some (result, s)
        else
          let (ht, d) = read_config_u8 P f PCI_CFG_HEADER_TYPE (ps_hw s);
              s = set_hw d s
          in if ht AND PCI_HEADER_TYPE_MASK = PCI_HEADER_TYPE_BRIDGE then
               (let (secondary_bus, d) = read_config_u8 P f PCI_CFG_SECONDARY_BUS (ps_hw s)
                in do { (r, s) \<leftarrow> probe_bus (ucast secondary_bus) (set_hw d s); Some (result, s) })
             else do { (dev, s) \<leftarrow> PCIDevice_probe P drvs f ht s; Some (True, s) })"

definition pci_probe_slot ::
  "(u16 \<Rightarrow> ('t, 'c, 'd, 'x) pci_sys \<Rightarrow> ('t, 'c, 'd, 'x) probing option) \<Rightarrow> 'd ports \<Rightarrow> ('t, 'c, 'd, 'x) PCIDriver list
     \<Rightarrow> u16 \<Rightarrow> u16 \<Rightarrow> ('t, 'c, 'd, 'x) pci_sys \<Rightarrow> ('t, 'c, 'd, 'x) probing option" where
  "pci_probe_slot probe_bus P drvs bus slot s = for_idx (pci_probe_func probe_bus P drvs bus slot) 0 8 (False, s)"

primrec pci_probe_bus ::
  "nat \<Rightarrow> 'd ports \<Rightarrow> ('t, 'c, 'd, 'x) PCIDriver list \<Rightarrow> u16 \<Rightarrow> ('t, 'c, 'd, 'x) pci_sys \<Rightarrow> ('t, 'c, 'd, 'x) probing option" where
  "pci_probe_bus 0 P drvs bus s = None"
| "pci_probe_bus (Suc fuel) P drvs bus s =
     for_idx (\<lambda>slot (result, s).
       let (vendor, d) = pci_config_read_u16 P bus (of_nat slot) 0 PCI_CFG_VENDOR_ID (ps_hw s);
           s = set_hw d s
       in if vendor = 0xffff then Some (result, s)
          else do { (r, s) \<leftarrow> pci_probe_slot (pci_probe_bus fuel P drvs) P drvs bus (of_nat slot) s; Some (result \<or> r, s) }) 0 32 (False, s)"

fun probe_buses ::
  "nat \<Rightarrow> 'd ports \<Rightarrow> ('t, 'c, 'd, 'x) PCIDriver list \<Rightarrow> nat \<Rightarrow> nat \<Rightarrow> ('t, 'c, 'd, 'x) pci_sys \<Rightarrow> ('t, 'c, 'd, 'x) pci_sys option" where
  "probe_buses fuel P drvs bus 0 s = Some s"
| "probe_buses fuel P drvs bus (Suc n) s =
     do { (r, s) \<leftarrow> pci_probe_bus fuel P drvs (of_nat bus) s;
          if r then probe_buses fuel P drvs (Suc bus) n s else Some s }"

definition pci_probe :: "nat \<Rightarrow> 'd ports \<Rightarrow> ('t, 'c, 'd, 'x) PCIDriver list \<Rightarrow> ('t, 'c, 'd, 'x) pci_sys \<Rightarrow> ('t, 'c, 'd, 'x) pci_sys option" where
  "pci_probe fuel P drvs s = probe_buses fuel P drvs 0 256 s"

end
