(* ===== verification/VirtioProbe.thy ===== *)
theory VirtioProbe
  imports Pci
begin

text \<open>
  How the virtio network driver finds and starts its device: \<open>VirtioPCICap\<close> and
  \<open>VirtioNetDevice::probe\<close> of \<^verbatim>\<open>drivers/virtio/net.rs\<close>. The device is registered on the PCI bus with its
  vendor and device number; what is printed on the console is left out.
\<close>

abbreviation PCI_VENDOR_ID_REDHAT :: u16 where "PCI_VENDOR_ID_REDHAT \<equiv> 0x1af4"
abbreviation PCI_DEVICE_ID_VIRTIO_NET :: u16 where "PCI_DEVICE_ID_VIRTIO_NET \<equiv> 0x1041"
abbreviation DEVICE_FEATURE :: u64 where "DEVICE_FEATURE \<equiv> 0x04"
abbreviation DRIVER_FEATURE :: u64 where "DRIVER_FEATURE \<equiv> 0x0c"
abbreviation NUM_QUEUES :: u64 where "NUM_QUEUES \<equiv> 0x12"
abbreviation DEVICE_STATUS :: u64 where "DEVICE_STATUS \<equiv> 0x14"
abbreviation QUEUE_SELECT :: u64 where "QUEUE_SELECT \<equiv> 0x16"
abbreviation QUEUE_SIZE :: u64 where "QUEUE_SIZE \<equiv> 0x18"
abbreviation QUEUE_MSIX_VECTOR :: u64 where "QUEUE_MSIX_VECTOR \<equiv> 0x1a"
abbreviation QUEUE_ENABLE :: u64 where "QUEUE_ENABLE \<equiv> 0x1c"
abbreviation QUEUE_NOTIFY_OFF :: u64 where "QUEUE_NOTIFY_OFF \<equiv> 0x1e"
abbreviation QUEUE_DESC :: u64 where "QUEUE_DESC \<equiv> 0x20"
abbreviation QUEUE_AVAIL :: u64 where "QUEUE_AVAIL \<equiv> 0x28"
abbreviation QUEUE_USED :: u64 where "QUEUE_USED \<equiv> 0x30"
abbreviation VIRTIO_ACKNOWLEDGE :: u8 where "VIRTIO_ACKNOWLEDGE \<equiv> 1"
abbreviation VIRTIO_DRIVER :: u8 where "VIRTIO_DRIVER \<equiv> 2"
abbreviation VIRTIO_DRIVER_OK :: u8 where "VIRTIO_DRIVER_OK \<equiv> 4"
abbreviation VIRTIO_FEATURES_OK :: u8 where "VIRTIO_FEATURES_OK \<equiv> 8"
abbreviation VIRTIO_NET_F_MAC :: u32 where "VIRTIO_NET_F_MAC \<equiv> 0x20"
abbreviation VIRTIO_PCI_CAP_COMMON_CFG :: u8 where "VIRTIO_PCI_CAP_COMMON_CFG \<equiv> 1"
abbreviation VIRTIO_PCI_CAP_NOTIFY_CFG :: u8 where "VIRTIO_PCI_CAP_NOTIFY_CFG \<equiv> 2"
abbreviation VIRTIO_PCI_CAP_DEVICE_CFG :: u8 where "VIRTIO_PCI_CAP_DEVICE_CFG \<equiv> 4"
abbreviation VIRTIO_PCI_CAP_CFG_TYPE :: u8 where "VIRTIO_PCI_CAP_CFG_TYPE \<equiv> 3"
abbreviation VIRTIO_PCI_CAP_BAR :: u8 where "VIRTIO_PCI_CAP_BAR \<equiv> 4"
abbreviation VIRTIO_PCI_CAP_OFFSET :: u8 where "VIRTIO_PCI_CAP_OFFSET \<equiv> 8"
abbreviation VIRTIO_PCI_CAP_LENGTH :: u8 where "VIRTIO_PCI_CAP_LENGTH \<equiv> 12"
abbreviation VIRTIO_NOTIFY_OFF_MULTIPLIER :: u8 where "VIRTIO_NOTIFY_OFF_MULTIPLIER \<equiv> 16"

subsection \<open>Capabilities of the device\<close>

record VirtioPCICap =
  vc_offset :: u8
  vc_bar_idx :: u8

definition VirtioPCICap_map :: "'d ports \<Rightarrow> PCIDevice \<Rightarrow> VirtioPCICap \<Rightarrow> 'd \<Rightarrow> (IOPort option \<times> 'd) option" where
  "VirtioPCICap_map P dev cap d =
     (let (offset, d) = read_config_u32 P (pd_func dev) (vc_offset cap + VIRTIO_PCI_CAP_OFFSET) d;
          (len, d) = read_config_u32 P (pd_func dev) (vc_offset cap + VIRTIO_PCI_CAP_LENGTH) d
      in do { bar \<leftarrow> rd (bars dev) (unat (vc_bar_idx cap));
              Some (Option.bind bar (\<lambda>bar. IOPort_remap bar (ucast offset) len), d) })"

partial_function (option) virtio_capability_loop ::
  "'d ports \<Rightarrow> PCIDevice \<Rightarrow> u8 \<Rightarrow> u8 option \<Rightarrow> 'd \<Rightarrow> (VirtioPCICap option \<times> 'd) option" where
  "virtio_capability_loop pio dev cfg_type capability d =
     (case capability of
        None \<Rightarrow> Some (None, d)
      | Some offset \<Rightarrow>
          (case read_config_u8 pio (pd_func dev) (offset + VIRTIO_PCI_CAP_CFG_TYPE) d of (ty, d) \<Rightarrow>
           case read_config_u8 pio (pd_func dev) (offset + VIRTIO_PCI_CAP_BAR) d of (bar_idx, d) \<Rightarrow>
             if ty = cfg_type \<and> bar_idx < 5 then Some (Some \<lparr>vc_offset = offset, vc_bar_idx = bar_idx\<rparr>, d)
             else Option.bind (find_next_capability pio (pd_func dev) PCI_CAPABILITY_VENDOR offset d)
                    (\<lambda>(capability, d). virtio_capability_loop pio dev cfg_type capability d)))"

definition virtio_find_capability :: "'d ports \<Rightarrow> PCIDevice \<Rightarrow> u8 \<Rightarrow> 'd \<Rightarrow> (VirtioPCICap option \<times> 'd) option" where
  "virtio_find_capability P dev cfg_type d =
     do { (capability, d) \<leftarrow> find_capability P (pd_func dev) PCI_CAPABILITY_VENDOR d;
          virtio_capability_loop P dev cfg_type capability d }"

subsection \<open>Starting the device\<close>

type_synonym ('t, 'c, 'd) net_sys = "('t, 'c, 'd, VirtioNetDevice) pci_sys"

text \<open>The object allocator takes its pages from the page allocator.\<close>

definition with_kmem :: "(('t, 'c) kmem_state \<Rightarrow> ('r \<times> ('t, 'c) kmem_state) option) \<Rightarrow> ('t, 'c, 'd) net_sys \<Rightarrow> ('r \<times> ('t, 'c, 'd) net_sys) option" where
  "with_kmem g s =
     do { (r, k) \<leftarrow> g ((ps_kmem s)\<lparr>km_pages := mm_pages (ps_mm s)\<rparr>);
          Some (r, s\<lparr>ps_kmem := k, ps_mm := (ps_mm s)\<lparr>mm_pages := km_pages k\<rparr>\<rparr>) }"

text \<open>\<open>dev_addr\<close> is the address of the device in memory, which the interrupt handler is given. A missing
  vector makes the kernel panic.\<close>

definition setup_rx ::
  "'d ports \<Rightarrow> 'd mmio_bus \<Rightarrow> (string \<Rightarrow> u64) \<Rightarrow> u64 \<Rightarrow> PCIDevice \<Rightarrow> IOPort \<Rightarrow> u16 \<Rightarrow> VirtioNetDevice
     \<Rightarrow> Virtqueue \<Rightarrow> ('t, 'c, 'd) net_sys \<Rightarrow> (Virtqueue \<times> ('t, 'c, 'd) net_sys) option" where
  "setup_rx P B symb dev_addr pci ioport queue dev vq s =
     do { vq \<leftarrow> add_inbuf (virt_to_phys (rx_page dev)) (rx_page_size dev) vq;
          (vector, x) \<leftarrow> register_irq P B pci queue (symb ''VirtioNetDevice::interrupt'') dev_addr (ps_x86 s);
          if vector < 0 then None
          else do { d \<leftarrow> enable_irq P B pci queue (hw x);
                    Some (vq, s\<lparr>ps_x86 := x\<lparr>hw := IOPort_write16 P B ioport queue QUEUE_MSIX_VECTOR d\<rparr>\<rparr>) } }"

definition setup_queue ::
  "'d ports \<Rightarrow> 'd mmio_bus \<Rightarrow> (string \<Rightarrow> u64) \<Rightarrow> u64 \<Rightarrow> PCIDevice \<Rightarrow> IOPort \<Rightarrow> VirtioNetDevice \<Rightarrow> nat
     \<Rightarrow> Virtqueue list \<times> ('t, 'c, 'd) net_sys \<Rightarrow> (Virtqueue list \<times> ('t, 'c, 'd) net_sys) option" where
  "setup_queue P B symb dev_addr pci ioport dev q = (\<lambda>(queues, s).
     let queue = of_nat q;
         d = IOPort_write16 P B ioport queue QUEUE_SELECT (ps_hw s);
         (qsize, d) = IOPort_read16 P B ioport QUEUE_SIZE d;
         (off, d) = IOPort_read16 P B ioport QUEUE_NOTIFY_OFF d
     in do { (vq, s) \<leftarrow> with_kmem (Virtqueue_new queue (ucast qsize) off) (set_hw d s);
             d \<leftarrow> IOPort_write64 B ioport (virt_to_phys (raw_descriptor_table_ptr vq)) QUEUE_DESC (ps_hw s);
             d \<leftarrow> IOPort_write64 B ioport (virt_to_phys (raw_available_ring_ptr vq)) QUEUE_AVAIL d;
             d \<leftarrow> IOPort_write64 B ioport (virt_to_phys (raw_used_ring_ptr vq)) QUEUE_USED d;
             (vq, s) \<leftarrow> (if queue = of_nat VIRTIO_RX_QUEUE_IDX
                          then setup_rx P B symb dev_addr pci ioport queue dev vq (set_hw d s) else Some (vq, set_hw d s));
             Some (queues @ [vq], set_hw (IOPort_write16 P B ioport 1 QUEUE_ENABLE (ps_hw s)) s) })"

fun read_mac :: "'d ports \<Rightarrow> 'd mmio_bus \<Rightarrow> IOPort \<Rightarrow> nat \<Rightarrow> nat \<Rightarrow> 'd \<Rightarrow> u8 list \<times> 'd" where
  "read_mac P B ioport i 0 d = ([], d)"
| "read_mac P B ioport i (Suc n) d =
     (let (b, d) = IOPort_read8 P B ioport (of_nat i) d; (bs, d) = read_mac P B ioport (Suc i) n d in (b # bs, d))"

text \<open>The steps 1 to 6: reset, acknowledge, features. A device that does not accept the features makes the kernel
  panic.\<close>

definition negotiate :: "'d ports \<Rightarrow> 'd mmio_bus \<Rightarrow> IOPort \<Rightarrow> 'd \<Rightarrow> 'd option" where
  "negotiate P B ioport d =
     (let status = 0;
          d = IOPort_write8 P B ioport status DEVICE_STATUS d;
          status = status OR VIRTIO_ACKNOWLEDGE;
          d = IOPort_write8 P B ioport status DEVICE_STATUS d;
          status = status OR VIRTIO_DRIVER;
          d = IOPort_write8 P B ioport status DEVICE_STATUS d;
          d = IOPort_write32 P B ioport VIRTIO_NET_F_MAC DRIVER_FEATURE d;
          status = status OR VIRTIO_FEATURES_OK;
          d = IOPort_write8 P B ioport status DEVICE_STATUS d;
          (st, d) = IOPort_read8 P B ioport DEVICE_STATUS d
      in if st AND VIRTIO_FEATURES_OK \<noteq> VIRTIO_FEATURES_OK then None else Some d)"

definition read_mac_addr :: "'d ports \<Rightarrow> 'd mmio_bus \<Rightarrow> PCIDevice \<Rightarrow> IOPort \<Rightarrow> 'd \<Rightarrow> (u8 list option \<times> 'd) option" where
  "read_mac_addr P B pci ioport d =
     (let (features, d) = IOPort_read32 P B ioport DEVICE_FEATURE d
      in if features AND VIRTIO_NET_F_MAC = 0 then Some (None, d)
         else do { (cap, d) \<leftarrow> virtio_find_capability P pci VIRTIO_PCI_CAP_DEVICE_CFG d;
                   case cap of
                     None \<Rightarrow> Some (None, d)
                   | Some cap \<Rightarrow>
                       do { (port, d) \<leftarrow> VirtioPCICap_map P pci cap d;
                            port \<leftarrow> port;
                            let (mac, d) = read_mac P B port 0 6 d;
                            Some (Some mac, d) } })"

text \<open>From the configuration registers on.\<close>

definition start_device ::
  "'d ports \<Rightarrow> 'd mmio_bus \<Rightarrow> (string \<Rightarrow> u64) \<Rightarrow> u64 \<Rightarrow> PCIDevice \<Rightarrow> IOPort \<Rightarrow> VirtioNetDevice \<Rightarrow> ('t, 'c, 'd) net_sys
     \<Rightarrow> (VirtioNetDevice \<times> ('t, 'c, 'd) net_sys) option" where
  "start_device P B symb dev_addr pci ioport dev s =
     do { d \<leftarrow> negotiate P B ioport (ps_hw s);
          let (num_queues, d) = IOPort_read16 P B ioport NUM_QUEUES d;
          (queues, s) \<leftarrow> for_idx (setup_queue P B symb dev_addr pci ioport dev) 0 (unat num_queues) ([], set_hw d s);
          let d = IOPort_write8 P B ioport (VIRTIO_ACKNOWLEDGE OR VIRTIO_DRIVER OR VIRTIO_FEATURES_OK OR VIRTIO_DRIVER_OK) DEVICE_STATUS (ps_hw s);
          (mac, d) \<leftarrow> read_mac_addr P B pci ioport d;
          Some (dev\<lparr>vqs := queues, mac_addr := mac\<rparr>, set_hw d s) }"

text \<open>Where the source returns early with \<open>None\<close>, there is no device to register.\<close>

definition VirtioNetDevice_probe ::
  "'d ports \<Rightarrow> 'd mmio_bus \<Rightarrow> (string \<Rightarrow> u64) \<Rightarrow> u64 \<Rightarrow> PCIDevice \<Rightarrow> ('t, 'c, 'd) net_sys
     \<Rightarrow> ((string \<times> VirtioNetDevice) option \<times> ('t, 'c, 'd) net_sys) option" where
  "VirtioNetDevice_probe P B symb dev_addr pci s =
     do { d \<leftarrow> enable_msix P B pci (set_bus_master P pci True (ps_hw s));
          (notify_cap, d) \<leftarrow> virtio_find_capability P pci VIRTIO_PCI_CAP_NOTIFY_CFG d;
          case notify_cap of
            None \<Rightarrow> Some (None, set_hw d s)
          | Some cap \<Rightarrow>
              do { let (multiplier, d) = read_config_u32 P (pd_func pci) (vc_offset cap + VIRTIO_NOTIFY_OFF_MULTIPLIER) d;
                   (notify_port, d) \<leftarrow> VirtioPCICap_map P pci cap d;
                   case notify_port of
                     None \<Rightarrow> Some (None, set_hw d s)
                   | Some notify_port \<Rightarrow>
                       do { (dev, pages) \<leftarrow> VirtioNetDevice_new notify_port multiplier (mm_pages (ps_mm s));
                            let s = s\<lparr>ps_mm := (ps_mm s)\<lparr>mm_pages := pages\<rparr>\<rparr>;
                            (common_cap, d) \<leftarrow> virtio_find_capability P pci VIRTIO_PCI_CAP_COMMON_CFG d;
                            case common_cap of
                              None \<Rightarrow> Some (None, set_hw d s)
                            | Some cap \<Rightarrow>
                                do { (port, d) \<leftarrow> VirtioPCICap_map P pci cap d;
                                     case port of
                                       None \<Rightarrow> Some (None, set_hw d s)
                                     | Some ioport \<Rightarrow>
                                         do { (dev, s) \<leftarrow> start_device P B symb dev_addr pci ioport dev (set_hw d s);
                                              Some (Some (''/dev/eth'', dev), s) } } } } }"

definition virtio_net_driver :: "'d ports \<Rightarrow> 'd mmio_bus \<Rightarrow> (string \<Rightarrow> u64) \<Rightarrow> u64 \<Rightarrow> ('t, 'c, 'd, VirtioNetDevice) PCIDriver" where
  "virtio_net_driver P B symb dev_addr = (PCI_VENDOR_ID_REDHAT, PCI_DEVICE_ID_VIRTIO_NET, VirtioNetDevice_probe P B symb dev_addr)"

subsection \<open>Late set-up\<close>

text \<open>What \<open>arch_late_setup\<close> of x86-64 does: the driver is put on the list of the drivers, then the buses are
  probed. The fuel bounds the depth of the bridges.\<close>

definition pci_register_driver :: "('t, 'c, 'd, 'x) PCIDriver \<Rightarrow> ('t, 'c, 'd, 'x) PCIDriver list \<Rightarrow> ('t, 'c, 'd, 'x) PCIDriver list" where
  "pci_register_driver drv drvs = drvs @ [drv]"

definition virtio_register_drivers ::
  "'d ports \<Rightarrow> 'd mmio_bus \<Rightarrow> (string \<Rightarrow> u64) \<Rightarrow> u64 \<Rightarrow> ('t, 'c, 'd, VirtioNetDevice) PCIDriver list \<Rightarrow> ('t, 'c, 'd, VirtioNetDevice) PCIDriver list" where
  "virtio_register_drivers P B symb dev_addr drvs = pci_register_driver (virtio_net_driver P B symb dev_addr) drvs"

definition arch_late_setup ::
  "nat \<Rightarrow> 'd ports \<Rightarrow> 'd mmio_bus \<Rightarrow> (string \<Rightarrow> u64) \<Rightarrow> u64 \<Rightarrow> ('t, 'c, 'd, VirtioNetDevice) PCIDriver list \<Rightarrow> ('t, 'c, 'd) net_sys
     \<Rightarrow> (('t, 'c, 'd, VirtioNetDevice) PCIDriver list \<times> ('t, 'c, 'd) net_sys) option" where
  "arch_late_setup fuel P B symb dev_addr drvs s =
     (let drvs = virtio_register_drivers P B symb dev_addr drvs
      in do { s \<leftarrow> pci_probe fuel P drvs s; Some (drvs, s) })"

end
