(* ===== verification/PciProofs.thy ===== *)
theory PciProofs
  imports Pci Exceptions
begin

text \<open>
  The PCI bus: the search for a capability ends and finds the first one exactly when the list of
  capabilities ends; a base address register is decoded as the device encodes it and keeps its
  value; a message-signalled interrupt that a driver registers reaches its handler.
\<close>

subsection \<open>Capabilities\<close>

text \<open>What is relied on of the configuration space of a function: while the hardware is in a state with
  \<open>ok\<close>, reading a byte gives the byte of the space and changes none.\<close>

definition config_laws :: "'d ports \<Rightarrow> PCIFunction \<Rightarrow> ('d \<Rightarrow> u8 \<Rightarrow> u8) \<Rightarrow> ('d \<Rightarrow> bool) \<Rightarrow> bool" where
  "config_laws P f cfg ok \<longleftrightarrow>
     (\<forall>offset d. ok d \<longrightarrow> (case read_config_u8 P f offset d of (v, d') \<Rightarrow> v = cfg d offset \<and> ok d' \<and> cfg d' = cfg d))"

lemma config_read:
  assumes "config_laws P f cfg ok" and "ok d"
  obtains d' where "read_config_u8 P f offset d = (cfg d offset, d')" "ok d'" "cfg d' = cfg d"
  using assms unfolding config_laws_def by (cases "read_config_u8 P f offset d") fastforce

text \<open>The list of capabilities from an offset on.\<close>

inductive cap_chain :: "(u8 \<Rightarrow> u8) \<Rightarrow> u8 \<Rightarrow> u8 list \<Rightarrow> bool" for c where
  cap_end: "cap_chain c 0 []"
| cap_next: "offset \<noteq> 0 \<Longrightarrow> cap_chain c (c (offset + 1)) xs \<Longrightarrow> cap_chain c offset (offset # xs)"

lemma capability_loop_chain:
  assumes "config_laws P f cfg ok" and "cap_chain c offset xs"
  shows "ok d \<Longrightarrow> cfg d = c \<Longrightarrow>
    \<exists>d'. capability_loop P f cap_id offset d = Some (find (\<lambda>x. c x = cap_id) xs, d') \<and> ok d' \<and> cfg d' = c"
  using assms(2)
proof (induction arbitrary: d rule: cap_chain.induct)
  case cap_end
  then show ?case by (subst capability_loop.simps) simp
next
  case (cap_next offset xs)
  obtain d1 where 1: "read_config_u8 P f offset d = (c offset, d1)" "ok d1" "cfg d1 = c"
    using config_read [OF assms(1) cap_next.prems(1), of offset] cap_next.prems(2) by auto
  obtain d2 where 2: "read_config_u8 P f (offset + 1) d1 = (c (offset + 1), d2)" "ok d2" "cfg d2 = c"
    using config_read [OF assms(1) 1(2), of "offset + 1"] 1(3) by auto
  show ?case
  proof (cases "c offset = cap_id")
    case True
    then show ?thesis using 1 cap_next.hyps(1) by (subst capability_loop.simps) simp
  next
    case False
    then have "capability_loop P f cap_id offset d = capability_loop P f cap_id (c (offset + 1)) d2"
      using 1 2 cap_next.hyps(1) by (subst capability_loop.simps) simp
    then show ?thesis using cap_next.IH [OF 2(2,3)] False by simp
  qed
qed

text \<open>The \<open>n\<close>-th offset of the list.\<close>

fun cap_nth :: "(u8 \<Rightarrow> u8) \<Rightarrow> u8 \<Rightarrow> nat \<Rightarrow> u8" where
  "cap_nth c offset 0 = offset"
| "cap_nth c offset (Suc n) = cap_nth c (c (offset + 1)) n"

lemma capability_loop_endless:
  assumes "config_laws P f cfg ok" and "ok d" and "cfg d = c" and "\<And>n. cap_nth c offset n \<noteq> 0 \<and> c (cap_nth c offset n) \<noteq> cap_id"
  shows "capability_loop P f cap_id offset d = None"
proof (rule ccontr)
  let ?S = "\<lambda>P f cap_id offset d. \<exists>cfg ok. config_laws P f cfg ok \<and> ok d
    \<and> (\<forall>n. cap_nth (cfg d) offset n \<noteq> 0 \<and> cfg d (cap_nth (cfg d) offset n) \<noteq> cap_id)"
  assume "capability_loop P f cap_id offset d \<noteq> None"
  then obtain y where "capability_loop P f cap_id offset d = Some y" by auto
  then have "\<not> ?S P f cap_id offset d"
  proof (rule capability_loop.raw_induct [of "\<lambda>P f cap_id offset d y. \<not> ?S P f cap_id offset d", rotated], goal_cases)
    case (1 g P f cap_id offset d y)
    show ?case
    proof
      assume "?S P f cap_id offset d"
      then obtain cfg ok where L: "config_laws P f cfg ok" "ok d"
        and E: "\<And>n. cap_nth (cfg d) offset n \<noteq> 0 \<and> cfg d (cap_nth (cfg d) offset n) \<noteq> cap_id" by blast
      obtain d1 where d1: "read_config_u8 P f offset d = (cfg d offset, d1)" "ok d1" "cfg d1 = cfg d"
        using config_read [OF L] by blast
      obtain d2 where d2: "read_config_u8 P f (offset + 1) d1 = (cfg d (offset + 1), d2)" "ok d2" "cfg d2 = cfg d"
        using config_read [OF L(1) d1(2), of "offset + 1"] d1(3) by auto
      have "offset \<noteq> 0" "cfg d offset \<noteq> cap_id" using E [of 0] by simp_all
      then have "g P f cap_id (cfg d (offset + 1)) d2 = Some y" using 1(2) d1(1) d2(1) by simp
      moreover have "?S P f cap_id (cfg d (offset + 1)) d2"
        using L(1) d2(2,3) E [of "Suc n" for n] by (intro exI [of _ cfg] exI [of _ ok]) simp
      ultimately show False using 1(1) by blast
    qed
  qed
  moreover have "?S P f cap_id offset d" using assms by (intro exI [of _ cfg] exI [of _ ok]) simp
  ultimately show False by blast
qed

text \<open>C27: the search for a capability. When the list of capabilities of the function ends, the search
  returns the offset of its first capability with the given number, or nothing when there is none;
  when the list runs in a circle without such a capability, the search does not return.\<close>

theorem find_capability_correct:
  assumes "config_laws P f cfg ok" and "ok d" and "cfg d PCI_CFG_STATUS AND PCI_STATUS_CAPABILITIES_LIST \<noteq> 0"
  defines "c \<equiv> cfg d"
  shows "(\<forall>xs. cap_chain c (c PCI_CFG_CAPABILITIES_PTR) xs \<longrightarrow>
       (\<exists>d'. find_capability P f cap_id d = Some (find (\<lambda>x. c x = cap_id) xs, d') \<and> ok d' \<and> cfg d' = c))
     \<and> ((\<forall>n. cap_nth c (c PCI_CFG_CAPABILITIES_PTR) n \<noteq> 0 \<and> c (cap_nth c (c PCI_CFG_CAPABILITIES_PTR) n) \<noteq> cap_id) \<longrightarrow>
       find_capability P f cap_id d = None)"
proof -
  obtain d1 where d1: "read_config_u8 P f PCI_CFG_STATUS d = (c PCI_CFG_STATUS, d1)" "ok d1" "cfg d1 = c"
    using config_read [OF assms(1,2)] unfolding c_def by blast
  obtain d2 where d2: "read_config_u8 P f PCI_CFG_CAPABILITIES_PTR d1 = (c PCI_CFG_CAPABILITIES_PTR, d2)" "ok d2" "cfg d2 = c"
    using config_read [OF assms(1) d1(2), of PCI_CFG_CAPABILITIES_PTR] d1(3) by auto
  have e: "find_capability P f cap_id d = capability_loop P f cap_id (c PCI_CFG_CAPABILITIES_PTR) d2"
    using d1(1) d2(1) assms(3) by (simp add: find_capability_def c_def)
  show ?thesis unfolding e
  proof (intro conjI allI impI)
    fix xs assume "cap_chain c (c PCI_CFG_CAPABILITIES_PTR) xs"
    from capability_loop_chain [OF assms(1) this d2(2,3)]
    show "\<exists>d'. capability_loop P f cap_id (c PCI_CFG_CAPABILITIES_PTR) d2 = Some (find (\<lambda>x. c x = cap_id) xs, d') \<and> ok d' \<and> cfg d' = c" .
  next
    assume "\<forall>n. cap_nth c (c PCI_CFG_CAPABILITIES_PTR) n \<noteq> 0 \<and> c (cap_nth c (c PCI_CFG_CAPABILITIES_PTR) n) \<noteq> cap_id"
    then show "capability_loop P f cap_id (c PCI_CFG_CAPABILITIES_PTR) d2 = None"
      by (intro capability_loop_endless [OF assms(1) d2(2,3)]) simp
  qed
qed

subsection \<open>A configuration space\<close>

text \<open>One function that answers on every bus: the address register and the registers of 32 bits, of which a
  mask says which bits can be written.\<close>

type_synonym config_space = "u32 \<times> (u8 \<Rightarrow> u32) \<times> (u8 \<Rightarrow> u32)"

definition config_byte :: "(u8 \<Rightarrow> u32) \<Rightarrow> u8 \<Rightarrow> u8" where
  "config_byte regs offset = ucast (drop_bit (8 * unat (offset AND 3)) (regs (offset AND 0xfc)))"

definition config_example :: "config_space ports" where
  "config_example = \<lparr>inb = \<lambda>port (a, regs, wm). (config_byte regs (ucast a OR ucast (port AND 3)), a, regs, wm),
     outb = \<lambda>port v d. d, inw = \<lambda>port d. (0, d), outw = \<lambda>port v d. d,
     inl = \<lambda>port (a, regs, wm). (regs (ucast a AND 0xfc), a, regs, wm),
     outl = \<lambda>port v (a, regs, wm).
       if port = PCI_CONFIG_ADDRESS then (v, regs, wm)
       else (a, regs(ucast a AND 0xfc := (v AND wm (ucast a AND 0xfc)) OR (regs (ucast a AND 0xfc) AND NOT (wm (ucast a AND 0xfc)))), wm)\<rparr>"

lemma below_8: "n < 8 \<Longrightarrow> n = 0 \<or> n = 1 \<or> n = 2 \<or> n = 3 \<or> n = 4 \<or> n = 5 \<or> n = 6 \<or> n = (7 :: nat)"
  by auto

lemma config_addr_offset: "ucast (ucast (pci_config_addr bus slot func offset) :: u32) = offset AND 0xfc"
proof (rule bit_word_eqI)
  fix n assume "n < LENGTH(8)"
  then have "n < 8" by simp
  from below_8 [OF this] show "bit (ucast (ucast (pci_config_addr bus slot func offset) :: u32) :: u8) n \<longleftrightarrow> bit (offset AND 0xfc) n"
    by (elim disjE) (simp_all add: pci_config_addr_def Let_def bit_simps)
qed

lemma config_data_offset: "(offset AND 0xfc) OR ucast ((PCI_CONFIG_DATA + (ucast offset AND 3)) AND 3) = (offset :: u8)"
proof -
  have "PCI_CONFIG_DATA AND (ucast offset AND 3) = ucast offset AND (PCI_CONFIG_DATA AND 3)" by (rule and.left_commute)
  then have "PCI_CONFIG_DATA + (ucast offset AND 3) = PCI_CONFIG_DATA OR (ucast offset AND 3)"
    by (intro disjunctive_add_eq_or) simp
  then have e: "(PCI_CONFIG_DATA + (ucast offset AND 3)) AND 3 = ucast offset AND 3"
    by (simp add: bit.conj_disj_distrib2 and.assoc)
  show ?thesis unfolding e
  proof (rule bit_word_eqI)
    fix n assume "n < LENGTH(8)"
    then have "n < 8" by simp
    from below_8 [OF this] show "bit ((offset AND 0xfc) OR ucast (ucast offset AND 3 :: u16)) n \<longleftrightarrow> bit offset n"
      by (elim disjE) (simp_all add: bit_simps)
  qed
qed

lemma config_example_laws: "config_laws config_example f (\<lambda>(a, regs, wm). config_byte regs) (\<lambda>_. True)"
  by (simp add: config_laws_def read_config_u8_def pci_config_read_u8_def pio_write32_def pio_read8_def config_example_def
      config_addr_offset config_data_offset split: prod.split)

text \<open>A function with a vendor capability at \<open>0x40\<close> and a capability for message-signalled interrupts at \<open>0x98\<close>.\<close>

definition caps_example :: "u8 \<Rightarrow> u32" where
  "caps_example = (\<lambda>_. 0)(0x04 := 0x100000, 0x34 := 0x40, 0x40 := 0x9809, 0x98 := 0x0011)"

theorem find_capability_correct_witness:
  "\<exists>d'. find_capability config_example \<lparr>bus_id = 0, slot_id = 3, func_id = 0\<rparr> PCI_CAPABILITY_MSIX (0, caps_example, \<lambda>_. 0) = Some (Some 0x98, d')"
proof -
  let ?c = "config_byte caps_example"
  have v: "?c 0x06 = 0x10" "?c 0x34 = 0x40" "?c 0x40 = 0x09" "?c 0x41 = 0x98" "?c 0x98 = 0x11" "?c 0x99 = 0" by code_simp+
  have "cap_chain ?c (?c 0x34) [0x40, 0x98]"
    by (simp add: v cap_chain.intros)
  then show ?thesis
    using find_capability_correct [OF config_example_laws, of "(0, caps_example, \<lambda>_. 0)" "\<lparr>bus_id = 0, slot_id = 3, func_id = 0\<rparr>" PCI_CAPABILITY_MSIX] v
    by auto
qed

subsection \<open>Base address registers\<close>

text \<open>What is relied on of the base address registers: reading gives the value and changes nothing, and
  writing changes the bits of the register that can be written, and no other register.\<close>

definition bar_laws :: "'d ports \<Rightarrow> PCIFunction \<Rightarrow> ('d \<Rightarrow> u8 \<Rightarrow> u32) \<Rightarrow> (u8 \<Rightarrow> u32) \<Rightarrow> ('d \<Rightarrow> bool) \<Rightarrow> bool" where
  "bar_laws P f reg wm ok \<longleftrightarrow>
     (\<forall>i < 6. \<forall>d. ok d \<longrightarrow>
        (case read_config_u32 P f (bar_offset i) d of (v, d') \<Rightarrow> v = reg d (bar_offset i) \<and> ok d' \<and> reg d' = reg d)
        \<and> (\<forall>v. let d' = write_config_u32 P f (bar_offset i) v d
               in ok d' \<and> reg d' = (reg d)(bar_offset i := (v AND wm (bar_offset i)) OR (reg d (bar_offset i) AND NOT (wm (bar_offset i))))))"

lemma bar_read:
  assumes "bar_laws P f reg wm ok" and "ok d" and "i < 6"
  obtains d' where "read_config_u32 P f (bar_offset i) d = (reg d (bar_offset i), d')" "ok d'" "reg d' = reg d"
  using assms unfolding bar_laws_def by (cases "read_config_u32 P f (bar_offset i) d") fastforce

lemma bar_write:
  assumes "bar_laws P f reg wm ok" and "ok d" and "i < 6"
  shows "ok (write_config_u32 P f (bar_offset i) v d)
    \<and> reg (write_config_u32 P f (bar_offset i) v d)
        = (reg d)(bar_offset i := (v AND wm (bar_offset i)) OR (reg d (bar_offset i) AND NOT (wm (bar_offset i))))"
  using assms unfolding bar_laws_def by (auto simp: Let_def)

text \<open>How a device encodes a register: the address, a multiple of the size, and the kind in the bits that cannot be
  written.\<close>

datatype bar_kind = Kind_Mem32 bool | Kind_Mem64 bool | Kind_IO

fun bar_flags :: "bar_kind \<Rightarrow> u32" where
  "bar_flags (Kind_Mem32 prefetchable) = (if prefetchable then 8 else 0)"
| "bar_flags (Kind_Mem64 prefetchable) = (if prefetchable then 12 else 4)"
| "bar_flags Kind_IO = 1"

fun bar_is :: "bar_kind \<Rightarrow> u32 \<Rightarrow> u32 \<Rightarrow> u32 \<Rightarrow> BAR" where
  "bar_is (Kind_Mem32 prefetchable) base next_bar sz = BAR_Memory (ucast base) sz prefetchable Bits32"
| "bar_is (Kind_Mem64 prefetchable) base next_bar sz = BAR_Memory (ucast base OR push_bit 32 (ucast next_bar)) sz prefetchable Bits64"
| "bar_is Kind_IO base next_bar sz = BAR_IO (ucast base) sz"

definition bar_width :: "bar_kind \<Rightarrow> nat" where
  "bar_width kind = (case kind of Kind_Mem64 _ \<Rightarrow> 2 | _ \<Rightarrow> 1)"

text \<open>The size that is read back lacks the bits of the kind.\<close>

lemma bar_size_value:
  assumes "bar_laws P f reg wm ok" and "ok d" and "i < 6" and "wm (bar_offset i) = NOT (2 ^ k - 1)"
    and "reg d (bar_offset i) AND NOT (wm (bar_offset i)) = flags"
  shows "\<exists>d'. bar_size P f (bar_offset i) (reg d (bar_offset i)) d = (2 ^ k - flags, d') \<and> ok d' \<and> reg d' = reg d"
proof -
  let ?o = "bar_offset i" and ?m = "wm (bar_offset i)"
  define d1 where "d1 = write_config_u32 P f ?o (NOT 0) d"
  have d1: "ok d1" "reg d1 = (reg d)(?o := ?m OR flags)" using bar_write [OF assms(1-3), of "NOT 0"] assms(5) by (simp_all add: d1_def)
  obtain d2 where d2: "read_config_u32 P f ?o d1 = (?m OR flags, d2)" "ok d2" "reg d2 = reg d1"
    using bar_read [OF assms(1) d1(1) assms(3)] d1(2) by auto
  define d3 where "d3 = write_config_u32 P f ?o (reg d ?o) d2"
  have d3: "ok d3" "reg d3 = (reg d2)(?o := (reg d ?o AND ?m) OR (reg d2 ?o AND NOT ?m))"
    using bar_write [OF assms(1) d2(2) assms(3)] by (simp_all add: d3_def)
  have fl: "?m AND flags = 0" unfolding assms(5) [symmetric] by (simp add: bit_eq_iff bit_simps)
  have "flags AND NOT ?m = flags" unfolding assms(5) [symmetric] by (simp add: bit_eq_iff bit_simps)
  then have "(?m OR flags) AND NOT ?m = flags" by (simp add: bit.conj_disj_distrib2)
  moreover have "(reg d ?o AND ?m) OR (reg d ?o AND NOT ?m) = reg d ?o" by (auto simp: bit_eq_iff bit_simps)
  ultimately have r: "reg d3 = reg d" unfolding d3(2) d2(3) d1(2) using assms(5) by auto
  have "NOT (?m OR flags) + 1 = - (?m OR flags)" by (simp only: minus_eq_not_plus_1)
  also have "\<dots> = - (?m + flags)" using disjunctive_add_eq_or [OF fl] by (simp only:)
  also have "\<dots> = 2 ^ k - flags" unfolding assms(4) by (simp add: not_eq_complement)
  finally have e: "NOT (?m OR flags) + 1 = 2 ^ k - flags" .
  have "bar_size P f ?o (reg d ?o) d = (2 ^ k - flags, d3)"
    unfolding bar_size_def Let_def d1_def [symmetric] d2(1) prod.case d3_def [symmetric] e ..
  then show ?thesis using d3(1) r by blast
qed

lemma aligned_low:
  assumes "(base :: u32) AND (2 ^ k - 1) = 0" and "j \<le> k"
  shows "base AND mask j = 0" and "base AND NOT (mask j) = base"
proof -
  have "mask j = mask k AND (mask j :: u32)" using assms(2) by (simp add: bit_eq_iff bit_simps) auto
  then have "base AND mask j = (base AND mask k) AND mask j" by (metis and.assoc)
  then show z: "base AND mask j = 0" using assms(1) by (simp add: mask_eq_exp_minus_1)
  have "base = (base AND mask j) OR (base AND NOT (mask j))" by (auto simp: bit_eq_iff bit_simps)
  then show "base AND NOT (mask j) = base" using z by simp
qed

lemma low_flags:
  assumes "(fl :: u32) = fl AND mask j" and "j \<le> k" and "base AND (2 ^ k - 1) = 0"
  shows "(base OR fl) AND (2 ^ k - 1) = fl"
proof -
  have "mask j AND mask k = (mask j :: u32)" using assms(2) by (simp add: bit_eq_iff bit_simps) auto
  then have "fl AND mask k = fl" using assms(1) by (metis and.assoc)
  then show ?thesis using assms(3) by (simp add: bit.conj_disj_distrib2 flip: mask_eq_exp_minus_1)
qed

lemma bar_raw_io:
  assumes "(base :: u32) AND (2 ^ k - 1) = 0" and "2 \<le> k"
  shows "(base OR 1) AND 1 = 1" and "(base OR 1) AND NOT 3 = base" and "(base OR 1) AND (2 ^ k - 1) = 1"
proof -
  have b: "base AND 3 = 0" "base AND NOT 3 = base" using aligned_low [OF assms] by (simp_all add: mask_eq_exp_minus_1)
  have "base AND 1 = base AND (3 AND 1)" by simp
  then have "base AND 1 = 0" using b(1) by (metis and.assoc and_zero_eq(1) bit.conj_zero_left)
  then show "(base OR 1) AND 1 = 1" "(base OR 1) AND NOT 3 = base" using b by (simp_all add: bit.conj_disj_distrib2)
  show "(base OR 1) AND (2 ^ k - 1) = 1" using low_flags [of 1 2 k base] assms by (simp add: mask_eq_exp_minus_1)
qed

lemma bar_raw_mem:
  assumes "(base :: u32) AND (2 ^ k - 1) = 0" and "4 \<le> k" and "kind = Kind_Mem32 pf \<or> kind = Kind_Mem64 pf"
  shows "(base OR bar_flags kind) AND 1 = 0" and "(base OR bar_flags kind) AND 6 = (if kind = Kind_Mem64 pf then 4 else 0)"
    and "(base OR bar_flags kind) AND NOT 15 = base" and "((base OR bar_flags kind) AND 8 \<noteq> 0) = pf"
    and "(base OR bar_flags kind) AND (2 ^ k - 1) = bar_flags kind"
proof -
  have b: "base AND 15 = 0" "base AND NOT 15 = base" using aligned_low [OF assms(1,2)] by (simp_all add: mask_eq_exp_minus_1)
  have sub: "base AND x = 0" if "x = 15 AND x" for x using b(1) that by (metis and.assoc and_zero_eq(1) bit.conj_zero_left)
  have z: "base AND 1 = 0" "base AND 6 = 0" "base AND 8 = 0" by (rule sub, simp)+
  show "(base OR bar_flags kind) AND 1 = 0" "(base OR bar_flags kind) AND 6 = (if kind = Kind_Mem64 pf then 4 else 0)"
    "(base OR bar_flags kind) AND NOT 15 = base" "((base OR bar_flags kind) AND 8 \<noteq> 0) = pf"
    using z b assms(3) by (cases pf; auto simp: bit.conj_disj_distrib2)+
  have "bar_flags kind = bar_flags kind AND mask 4" by (cases kind) (simp_all add: mask_eq_exp_minus_1)
  then show "(base OR bar_flags kind) AND (2 ^ k - 1) = bar_flags kind" by (rule low_flags [OF _ assms(2,1)])
qed

lemma bar_size_of_kind:
  assumes "bar_laws P f reg wm ok" and "ok d" and "i < 6"
    and "reg d (bar_offset i) = base OR bar_flags kind" and "wm (bar_offset i) = NOT (2 ^ k - 1)"
    and "base AND (2 ^ k - 1) = 0" and "if kind = Kind_IO then 2 \<le> k else 4 \<le> k"
  shows "\<exists>d'. bar_size P f (bar_offset i) (base OR bar_flags kind) d = (2 ^ k - bar_flags kind, d') \<and> ok d' \<and> reg d' = reg d"
proof -
  have "(base OR bar_flags kind) AND (2 ^ k - 1) = bar_flags kind"
    using assms(6,7) bar_raw_io(3) [of base k] bar_raw_mem(5) [of base k kind] by (cases kind) auto
  then show ?thesis using bar_size_value [OF assms(1-3,5), of "bar_flags kind"] assms(4,5) by auto
qed

text \<open>C26: base address registers. A register that the device encodes, as memory of 32 or 64 bits, prefetchable
  or not, or as ports, is decoded to its kind and address, and the search goes on behind it; all
  registers keep their values. The size that is determined lacks the bits that encode the
  kind.\<close>

theorem bar_round_trip:
  assumes "bar_laws P f reg wm ok" and "ok d" and "i + bar_width kind \<le> 6"
    and "reg d (bar_offset i) = base OR bar_flags kind" and "wm (bar_offset i) = NOT (2 ^ k - 1)"
    and "base AND (2 ^ k - 1) = 0" and "base \<noteq> 0" and "if kind = Kind_IO then 2 \<le> k else 4 \<le> k"
  shows "\<exists>d'. BAR_decode P f i d =
      ((Some (bar_is kind base (reg d (bar_offset (i + 1))) (2 ^ k - bar_flags kind)), i + bar_width kind), d') \<and> ok d' \<and> reg d' = reg d"
proof -
  let ?raw = "base OR bar_flags kind" and ?next = "reg d (bar_offset (i + 1))"
  have i: "i < 6" using assms(3) by (cases kind) (auto simp: bar_width_def)
  obtain d1 where d1: "read_config_u32 P f (bar_offset i) d = (?raw, d1)" "ok d1" "reg d1 = reg d"
    using bar_read [OF assms(1,2) i] assms(4) by auto
  have nz: "?raw \<noteq> 0" using assms(7) by (simp add: or_eq_0_iff)
  have size: "\<exists>d2. bar_size P f (bar_offset i) ?raw e = (2 ^ k - bar_flags kind, d2) \<and> ok d2 \<and> reg d2 = reg d" if "ok e" "reg e = reg d" for e
    using bar_size_of_kind [OF assms(1) that(1) i _ assms(5,6,8)] assms(4) that(2) by simp
  obtain d2 where d2: "bar_size P f (bar_offset i) ?raw d1 = (2 ^ k - bar_flags kind, d2)" "ok d2" "reg d2 = reg d"
    using size [OF d1(2,3)] by blast
  show ?thesis
  proof (cases kind)
    case Kind_IO
    then have "BAR_decode P f i d = ((Some (BAR_IO (ucast base) (2 ^ k - 1)), i + 1), d2)"
      using d1(1) d2(1) nz bar_raw_io(1,2) [OF assms(6)] assms(8) by (simp add: BAR_decode_def Let_def)
    then show ?thesis using Kind_IO d2(2,3) by (simp add: bar_width_def)
  next
    case (Kind_Mem32 pf)
    then have "BAR_decode P f i d = ((Some (BAR_Memory (ucast base) (2 ^ k - bar_flags kind) pf Bits32), i + 1), d2)"
      using d1(1) d2(1) nz bar_raw_mem(1-4) [OF assms(6), of kind pf] assms(8) by (simp add: BAR_decode_def Let_def)
    then show ?thesis using Kind_Mem32 d2(2,3) by (simp add: bar_width_def)
  next
    case (Kind_Mem64 pf)
    then have "i + 1 < 6" using assms(3) by (simp add: bar_width_def)
    then obtain d3 where d3: "read_config_u32 P f (bar_offset (i + 1)) d1 = (?next, d3)" "ok d3" "reg d3 = reg d"
      using bar_read [OF assms(1) d1(2)] d1(3) by metis
    obtain d4 where d4: "bar_size P f (bar_offset i) ?raw d3 = (2 ^ k - bar_flags kind, d4)" "ok d4" "reg d4 = reg d"
      using size [OF d3(2,3)] by blast
    have "BAR_decode P f i d = ((Some (BAR_Memory (ucast base OR push_bit 32 (ucast ?next)) (2 ^ k - bar_flags kind) pf Bits64), i + 2), d4)"
      using d1(1) d3(1) d4(1) nz bar_raw_mem(1-4) [OF assms(6), of kind pf] assms(8) Kind_Mem64 by (simp add: BAR_decode_def Let_def)
    then show ?thesis using Kind_Mem64 d4(2,3) by (simp add: bar_width_def)
  qed
qed

lemma bar_offset_aligned: "i < 6 \<Longrightarrow> bar_offset i AND 0xfc = bar_offset i"
  using below_8 [of i] by (auto simp: bar_offset_def)

lemma config_example_bars:
  "bar_laws config_example f (\<lambda>(a, regs, wm). regs) wm0 (\<lambda>(a, regs, wm). wm = wm0)"
  by (auto simp: bar_laws_def read_config_u32_def write_config_u32_def pci_config_read_u32_def pci_config_write_u32_def
      pio_write32_def pio_read32_def config_example_def config_addr_offset bar_offset_aligned Let_def)

text \<open>A prefetchable register of 64 bits and 16 KiB.\<close>

theorem bar_round_trip_witness:
  "\<exists>d'. BAR_decode config_example \<lparr>bus_id = 0, slot_id = 3, func_id = 0\<rparr> 4
      (0, (\<lambda>_. 0)(0x20 := 0xfe00000c, 0x24 := 1), (\<lambda>_. 0)(0x20 := 0xffffc000)) =
    ((Some (BAR_Memory 0x1fe000000 0x3ff4 True Bits64), 6), d')"
proof -
  let ?d = "(0, (\<lambda>_. 0)(0x20 := 0xfe00000c, 0x24 := 1), (\<lambda>_. 0)(0x20 := 0xffffc000)) :: config_space"
  have o: "bar_offset 4 = 0x20" "bar_offset 5 = 0x24" by (simp_all add: bar_offset_def)
  from bar_round_trip [OF config_example_bars, where d = ?d and i = 4 and kind = "Kind_Mem64 True" and base = "0xfe000000" and k = 14
      and f = "\<lparr>bus_id = 0, slot_id = 3, func_id = 0\<rparr>" and wm0 = "(\<lambda>_. 0)(0x20 := 0xffffc000)"]
  show ?thesis by (simp add: o bar_width_def) blast
qed

subsection \<open>Message-signalled interrupts\<close>

lemma msi_vector: "ucast (ucast (MSI_TRIGGER_EDGE OR MSI_DELIVERY_FIXED OR ucast v) :: u32) = (v :: u8)"
proof (rule bit_word_eqI)
  fix n assume "n < LENGTH(8)"
  then have "n < 8" by simp
  from below_8 [OF this] show "bit (ucast (ucast (MSI_TRIGGER_EDGE OR MSI_DELIVERY_FIXED OR ucast v) :: u32) :: u8) n \<longleftrightarrow> bit v n"
    by (elim disjE) (simp_all add: bit_simps)
qed

lemma msix_interrupt_routed_lemma:
  fixes entry :: u16
  assumes "msix dev = Some mx" and "rd (bars dev) (unat (table_bar mx)) = Some (Some (Memory base sz))"
    and "next_vector s = of_nat (32 + k)" and "k < 224" and "length (irq_services s) = 224" and "irq_handler (irq_services s ! k) = 0"
    and "h \<noteq> 0"
  defines "a \<equiv> base + ucast entry * (16 :: u64)"
  shows "\<exists>s1 d2. register_irq P B dev entry h arg s = Some (32 + int k, s1) \<and> enable_irq P B dev entry (hw s1) = Some d2
    \<and> (\<exists>data. hw s1 = mmio_write32 B data (a + 8) (mmio_write64 B (apic_base s AND 0xfff00000) a (hw s)) \<and> unat (ucast data :: u8) = 32 + k)
    \<and> d2 = (case mmio_read32 B (a + 12) (hw s1) of (ctrl, d) \<Rightarrow> mmio_write32 B (ctrl AND NOT 1) (a + 12) d)
    \<and> handle_interrupt C call (32 + int k) (s1\<lparr>hw := d2\<rparr>) =
        map_option (\<lambda>d'. s1\<lparr>hw := d'\<rparr>) (call h arg (wrmsr C APIC_EOI 0 d2))"
proof -
  define s0 where "s0 = s\<lparr>next_vector := of_nat (32 + Suc k), irq_services := (irq_services s)[k := \<lparr>irq_handler = h, irq_arg = arg\<rparr>]\<rparr>"
  have r: "request_irq h arg s = Some (32 + int k, s0)" unfolding s0_def by (rule request_irq_next [OF assms(3-6)])
  define data where "data = msg_data (apic_compose_msi_msg (of_int (32 + int k)) 0 s0)"
  have s0: "hw s0 = hw s" "apic_base s0 = apic_base s" by (simp_all add: s0_def)
  have m: "apic_compose_msi_msg (of_int (32 + int k)) 0 s0 = \<lparr>msg_addr = apic_base s AND 0xfff00000, msg_data = data\<rparr>"
    unfolding data_def by (simp add: apic_compose_msi_msg_def s0)
  have "ucast data = (of_int (32 + int k) :: u8)" unfolding data_def apic_compose_msi_msg_def msi_message.simps by (rule msi_vector)
  then have "ucast data = (of_nat (32 + k) :: u8)" by simp
  then have v: "unat (ucast data :: u8) = 32 + k" using assms(4) by (simp only: unat_of_nat) simp
  have t: "get_msix_table dev = Some (Some (Memory base sz))" using assms(1,2) by (simp add: get_msix_table_def)
  define d1 where "d1 = mmio_write32 B data (a + 8) (mmio_write64 B (apic_base s AND 0xfff00000) a (hw s))"
  have w: "write_msix_entry P B dev entry x y d = Some (mmio_write32 B y (a + 8) (mmio_write64 B x a d))" for x y d
    by (simp add: write_msix_entry_def t get_entry_addr_def a_def add.assoc)
  have "register_irq P B dev entry h arg s = Some (32 + int k, s0\<lparr>hw := d1\<rparr>)"
    unfolding register_irq_def r Option.bind.simps prod.case Let_def m w by (simp add: s0 d1_def)
  moreover define d2 where "d2 = (case mmio_read32 B (a + 12) d1 of (ctrl, d) \<Rightarrow> mmio_write32 B (ctrl AND NOT 1) (a + 12) d)"
  have "enable_irq P B dev entry d1 = Some d2"
    by (simp add: enable_irq_def unmask_msix_entry_def read_msix_entry_ctrl_def write_msix_entry_ctrl_def t get_entry_addr_def a_def d2_def
        add.assoc split: prod.split)
  moreover have "handle_interrupt C call (32 + int k) (s0\<lparr>hw := d2\<rparr>) = map_option (\<lambda>d'. s0\<lparr>hw := d'\<rparr>) (call h arg (wrmsr C APIC_EOI 0 d2))"
    using assms(4,5,7)
    by (simp add: handle_interrupt_def end_of_interrupt_def apic_eoi_def apic_write_def interrupt_service_def NR_EXCEPTIONS_def NR_INTERRUPT_VECTORS_def s0_def rd_def)
      (cases "call h arg (wrmsr C APIC_EOI 0 d2)"; simp)
  ultimately show ?thesis using v by (intro exI [of _ "s0\<lparr>hw := d1\<rparr>"] exI [of _ d2]) (auto simp: d1_def d2_def)
qed

text \<open>C25: an interrupt that a driver registers. When the table of the function is in memory, at the start of its BAR (the code
  does not add the table offset, so that this is the case it is right for), and a vector is free, \<open>register_irq\<close> stores into
  the entry of the table the address of the local APIC and a message that names the vector, \<open>enable_irq\<close> clears the mask bit
  of the entry and nothing else, and an interrupt on the vector then acknowledges it and runs the handler with its
  argument.\<close>

theorem msix_interrupt_routed:
  fixes entry :: u16
  assumes "msix dev = Some mx" and "rd (bars dev) (unat (table_bar mx)) = Some (Some (Memory base sz))" and "table_offset mx = 0"
    and "next_vector s = of_nat (32 + k)" and "k < 224" and "length (irq_services s) = 224" and "irq_handler (irq_services s ! k) = 0"
    and "h \<noteq> 0"
  defines "a \<equiv> base + table_offset mx + ucast entry * (16 :: u64)"
  shows "\<exists>s1 d2. register_irq P B dev entry h arg s = Some (32 + int k, s1) \<and> enable_irq P B dev entry (hw s1) = Some d2
    \<and> (\<exists>data. hw s1 = mmio_write32 B data (a + 8) (mmio_write64 B (apic_base s AND 0xfff00000) a (hw s)) \<and> unat (ucast data :: u8) = 32 + k)
    \<and> d2 = (case mmio_read32 B (a + 12) (hw s1) of (ctrl, d) \<Rightarrow> mmio_write32 B (ctrl AND NOT 1) (a + 12) d)
    \<and> handle_interrupt C call (32 + int k) (s1\<lparr>hw := d2\<rparr>) =
        map_option (\<lambda>d'. s1\<lparr>hw := d'\<rparr>) (call h arg (wrmsr C APIC_EOI 0 d2))"
  using msix_interrupt_routed_lemma [OF assms(1,2,4-8)] by (simp add: a_def assms(3))

definition msix_example :: PCIDevice where
  "msix_example = \<lparr>pd_func = \<lparr>bus_id = 0, slot_id = 3, func_id = 0\<rparr>,
     dev_id = \<lparr>vendor_id = 0x1af4, device_id = 0x1041, revision_id = 1, header_type = 0, class_code = 1, sub_class = 1, prog_if = 1\<rparr>,
     bars = [None, Some (Memory 0xfebd1000 0x1000), None, None, None, None],
     msix = Some \<lparr>msix_offset = 0x98, table_bar = 1, table_offset = 0\<rparr>\<rparr>"

text \<open>Memory that records what is stored, in a state of the tracing processor.\<close>

definition trace_bus :: "(u64 \<times> u64) list mmio_bus" where
  "trace_bus = \<lparr>bus_load = \<lambda>n a d. (1, d), bus_store = \<lambda>n a v d. d @ [(a, v)]\<rparr>"

theorem msix_interrupt_routed_witness:
  "\<exists>s1. register_irq (cpu_ports trace_cpu) trace_bus msix_example 2 0x5000 0x7000 ((x86_static [])\<lparr>apic_base := 0xfee00800\<rparr>) = Some (32, s1)
     \<and> hw s1 = [(0xfebd1020, 0xfee00000), (0xfebd1028, 0x8020)]
     \<and> enable_irq (cpu_ports trace_cpu) trace_bus msix_example 2 (hw s1) = Some (hw s1 @ [(0xfebd102c, 0)])"
proof -
  let ?s = "(x86_static [] :: (u64 \<times> u64) list x86)\<lparr>apic_base := 0xfee00800\<rparr>"
  have h: "next_vector ?s = of_nat (32 + 0)" "length (irq_services ?s) = 224" "irq_handler (irq_services ?s ! 0) = 0"
    by (simp_all add: x86_static_def NR_EXCEPTIONS_def NR_INTERRUPTS_def NR_INTERRUPT_VECTORS_def)
  have t: "rd (bars msix_example) (unat (table_bar \<lparr>msix_offset = 0x98, table_bar = 1, table_offset = 0\<rparr>)) = Some (Some (Memory 0xfebd1000 0x1000))"
    by (simp add: msix_example_def rd_def)
  have m: "msix msix_example = Some \<lparr>msix_offset = 0x98, table_bar = 1, table_offset = 0\<rparr>" by (simp add: msix_example_def)
  obtain s1 where "register_irq (cpu_ports trace_cpu) trace_bus msix_example 2 0x5000 0x7000 ?s = Some (32, s1)"
    using msix_interrupt_routed [OF m t _ h(1) _ h(2,3), of "0x5000" "cpu_ports trace_cpu" trace_bus 2 "0x7000"] by auto
  moreover have "map_option (\<lambda>(v, s). hw s) (register_irq (cpu_ports trace_cpu) trace_bus msix_example 2 0x5000 0x7000 ?s) =
      Some [(0xfebd1020, 0xfee00000), (0xfebd1028, 0x8020)]"
    by code_simp
  ultimately show ?thesis
    by (auto simp: enable_irq_def unmask_msix_entry_def read_msix_entry_ctrl_def write_msix_entry_ctrl_def get_msix_table_def msix_example_def rd_def
        get_entry_addr_def mmio_read32_def mmio_write32_def trace_bus_def)
qed

text \<open>The number of entries that are masked when the interrupts are switched on is the reserved bit 11 of the control
  word: where it is 0, as it has to be, the table is not touched.\<close>

lemma enable_msix_masks_nothing:
  assumes "msix dev = Some mx"
    and "fst (read_config_u16 P (pd_func dev) (msix_offset mx + PCI_MSIX_MSG_CTRL) (disable_intx P dev d)) AND 0x800 = 0"
  shows "enable_msix P B dev d = enable_msix P B' dev d"
proof -
  obtain v d' where r: "read_config_u16 P (pd_func dev) (msix_offset mx + PCI_MSIX_MSG_CTRL) (disable_intx P dev d) = (v, d')" by fastforce
  have "(v OR 0x8000 OR 0x4000) AND 0x800 = 0" using assms(2) r by (simp add: bit.conj_disj_distrib2)
  then show ?thesis unfolding enable_msix_def assms(1) option.case Let_def r prod.case by simp
qed

end
