(* ===== verification/VirtioProbeProofs.thy ===== *)
theory VirtioProbeProofs
  imports VirtioProbe PciProofs MmuProofs
begin

text \<open>
  The receive queue of the network device as the driver starts it: a buffer is waiting for the first
  packet, and the interrupt of the queue leads to the handler of the device.
\<close>

lemma Virtqueue_new_shape:
  assumes "Virtqueue_new qi qs off k = Some (vq, k')"
  shows "queue_idx vq = qi \<and> queue_size vq = qs \<and> last_seen_used vq = 0 \<and> avail_idx vq = 0 \<and> used_idx vq = 0
    \<and> length (vq_desc vq) = unat qs \<and> length (avail_ring vq) = unat qs"
  using assms by (auto simp: Virtqueue_new_def split: Option.bind_splits if_splits prod.splits)

lemma ucast_16_64: "ucast (ucast q :: u64) = (q :: u16)"
  by (rule bit_word_eqI) (simp add: bit_simps)

lemma ucast_16_64_pos: "(q :: u16) \<noteq> 0 \<Longrightarrow> 0 < unat (ucast q :: u64)"
  using ucast_16_64 [of q] by (auto simp: unat_gt_0)

lemma add_inbuf_fresh:
  assumes "queue_size vq = ucast (q :: u16)" and "q \<noteq> 0" and "avail_idx vq = 0"
    and "length (vq_desc vq) = unat (queue_size vq)" and "length (avail_ring vq) = unat (queue_size vq)"
  shows "add_inbuf addr len vq = Some (vq\<lparr>vq_desc := (vq_desc vq)[0 := \<lparr>vd_addr = addr, vd_len = ucast len, vd_flags = 2, vd_next = 0\<rparr>],
    avail_ring := (avail_ring vq)[0 := 0], avail_idx := 1\<rparr>)"
proof -
  have "ucast (queue_size vq) = q" unfolding assms(1) by (rule ucast_16_64)
  moreover have "0 < unat (queue_size vq)" unfolding assms(1) by (rule ucast_16_64_pos [OF assms(2)])
  ultimately show ?thesis using assms(2-5) by (simp add: add_inbuf_def add_buf_def add_buf_idx_def wr_def)
qed

lemma with_kmem_frame: "with_kmem g s = Some (r, s') \<Longrightarrow> ps_x86 s' = ps_x86 s"
  by (auto simp: with_kmem_def split: Option.bind_splits)

text \<open>C24: the receive queue is set up (step 7 of the start of the device, for queue 0). Let the registers of the device be in
  memory, let it offer a queue of at least one buffer, let the allocator have room for the queue, the MSI-X table be at the
  start of its BAR, and a vector be free. Then the receive page is in the first descriptor of the queue, for the device to
  write, this descriptor is the one available buffer, nothing has been used yet, and the entry of the vector names the
  interrupt handler of the driver with the device as its argument. What the device sees behind the reads of the size and the
  notification offset are exactly these accesses, in this order: the physical addresses of the three parts of the queue; the
  message for the vector in entry 0 of the MSI-X table; its control word, read and written back with the mask bit cleared;
  entry 0 as the vector of the queue; and the enabling of the queue.\<close>

theorem rx_queue_started:
  fixes s :: "('t, 'c, 'd) net_sys"
  assumes "IOPort_read16 P B (Memory base psz) QUEUE_SIZE (IOPort_write16 P B (Memory base psz) 0 QUEUE_SELECT (ps_hw s)) = (q, d1)"
    and "IOPort_read16 P B (Memory base psz) QUEUE_NOTIFY_OFF d1 = (off, d2)" and "q \<noteq> 0"
    and "with_kmem (Virtqueue_new 0 (ucast q) off) (set_hw d2 s) = Some (vq, s1)"
    and "msix pci = Some mx" and "rd (bars pci) (unat (table_bar mx)) = Some (Some (Memory tbase tsz))" and "table_offset mx = 0"
    and "next_vector (ps_x86 s) = of_nat (32 + k)" and "k < 224" and "length (irq_services (ps_x86 s)) = 224"
    and "irq_handler (irq_services (ps_x86 s) ! k) = 0" and "symb ''VirtioNetDevice::interrupt'' \<noteq> 0"
  shows "\<exists>vq' s' d3 d4 d5 data ctrl. setup_queue P B symb dev_addr pci (Memory base psz) dev 0 ([], s) = Some ([vq'], s')
    \<and> rd (vq_desc vq') 0 = Some \<lparr>vd_addr = virt_to_phys (rx_page dev), vd_len = ucast (rx_page_size dev), vd_flags = VIRTQ_DESC_F_WRITE, vd_next = 0\<rparr>
    \<and> rd (avail_ring vq') 0 = Some 0 \<and> avail_idx vq' = 1 \<and> used_idx vq' = last_seen_used vq'
    \<and> next_vector (ps_x86 s') = of_nat (32 + Suc k)
    \<and> rd (irq_services (ps_x86 s')) k = Some \<lparr>irq_handler = symb ''VirtioNetDevice::interrupt'', irq_arg = dev_addr\<rparr>
    \<and> d3 = mmio_write64 B (virt_to_phys (raw_used_ring_ptr vq')) (base + QUEUE_USED)
              (mmio_write64 B (virt_to_phys (raw_available_ring_ptr vq')) (base + QUEUE_AVAIL)
                (mmio_write64 B (virt_to_phys (raw_descriptor_table_ptr vq')) (base + QUEUE_DESC) d2))
    \<and> d4 = mmio_write32 B data (tbase + table_offset mx + 8)
              (mmio_write64 B (apic_base (ps_x86 s) AND 0xfff00000) (tbase + table_offset mx) d3)
    \<and> unat (ucast data :: u8) = 32 + k \<and> mmio_read32 B (tbase + table_offset mx + 12) d4 = (ctrl, d5)
    \<and> ps_hw s' = mmio_write16 B 1 (base + QUEUE_ENABLE) (mmio_write16 B 0 (base + QUEUE_MSIX_VECTOR)
              (mmio_write32 B (ctrl AND NOT 1) (tbase + table_offset mx + 12) d5))"
proof -
  let ?io = "Memory base psz" and ?h = "symb ''VirtioNetDevice::interrupt''"
  obtain k0 k1 :: "('t, 'c) kmem_state" where "Virtqueue_new 0 (ucast q) off k0 = Some (vq, k1)"
    using assms(4) by (auto simp: with_kmem_def split: Option.bind_splits)
  note sh = Virtqueue_new_shape [OF this]
  have x1: "ps_x86 s1 = (ps_x86 s)\<lparr>hw := d2\<rparr>" using with_kmem_frame [OF assms(4)] by (simp add: set_hw_def)
  have hw1: "ps_hw s1 = d2" by (simp add: x1)
  define d3 where "d3 = mmio_write64 B (virt_to_phys (raw_used_ring_ptr vq)) (base + QUEUE_USED)
      (mmio_write64 B (virt_to_phys (raw_available_ring_ptr vq)) (base + QUEUE_AVAIL)
        (mmio_write64 B (virt_to_phys (raw_descriptor_table_ptr vq)) (base + QUEUE_DESC) d2))"
  have d3: "do { d \<leftarrow> IOPort_write64 B ?io (virt_to_phys (raw_descriptor_table_ptr vq)) QUEUE_DESC (ps_hw s1);
      d \<leftarrow> IOPort_write64 B ?io (virt_to_phys (raw_available_ring_ptr vq)) QUEUE_AVAIL d;
      IOPort_write64 B ?io (virt_to_phys (raw_used_ring_ptr vq)) QUEUE_USED d } = Some d3" by (simp add: d3_def hw1)
  define vq' where "vq' = vq\<lparr>vq_desc := (vq_desc vq)[0 := \<lparr>vd_addr = virt_to_phys (rx_page dev), vd_len = ucast (rx_page_size dev), vd_flags = 2, vd_next = 0\<rparr>],
    avail_ring := (avail_ring vq)[0 := 0], avail_idx := 1\<rparr>"
  have vq': "add_inbuf (virt_to_phys (rx_page dev)) (rx_page_size dev) vq = Some vq'"
    unfolding vq'_def by (rule add_inbuf_fresh [of vq q]) (use sh assms(3) in simp_all)
  have vqs': "rd (vq_desc vq') 0 = Some \<lparr>vd_addr = virt_to_phys (rx_page dev), vd_len = ucast (rx_page_size dev), vd_flags = VIRTQ_DESC_F_WRITE, vd_next = 0\<rparr>"
    "rd (avail_ring vq') 0 = Some 0" "avail_idx vq' = 1" "used_idx vq' = last_seen_used vq'"
    using sh ucast_16_64_pos [OF assms(3)] by (simp_all add: vq'_def rd_def)
  define x where "x = (ps_x86 s1)\<lparr>hw := d3\<rparr>"
  have x: "next_vector x = of_nat (32 + k)" "length (irq_services x) = 224" "irq_handler (irq_services x ! k) = 0"
    using assms(8-11) x1 by (simp_all add: x_def)
  have ps: "ps_x86 (set_hw d3 s1) = x" by (simp add: set_hw_def x_def)
  have ap: "hw x = d3" "apic_base x = apic_base (ps_x86 s)" using x1 by (simp_all add: x_def)
  have z: "tbase + ucast (0 :: u16) * (16 :: u64) = tbase" by simp
  obtain x2 d6 data where x2: "register_irq P B pci 0 ?h dev_addr x = Some (32 + int k, x2)" "enable_irq P B pci 0 (hw x2) = Some d6"
      "hw x2 = mmio_write32 B data (tbase + 8) (mmio_write64 B (apic_base (ps_x86 s) AND 0xfff00000) tbase d3)"
      "unat (ucast data :: u8) = 32 + k"
      "d6 = (case mmio_read32 B (tbase + 12) (hw x2) of (ctrl, d) \<Rightarrow> mmio_write32 B (ctrl AND NOT 1) (tbase + 12) d)"
    using msix_interrupt_routed_lemma [OF assms(5,6) x(1) assms(9) x(2,3) assms(12), of P B 0 dev_addr, unfolded z ap] by blast
  obtain ctrl d5 where d5: "mmio_read32 B (tbase + 12) (hw x2) = (ctrl, d5)" by fastforce
  then have d6: "d6 = mmio_write32 B (ctrl AND NOT 1) (tbase + 12) d5" using x2(5) by simp
  have fr: "next_vector x2 = of_nat (32 + Suc k)" "irq_services x2 = (irq_services x)[k := \<lparr>irq_handler = ?h, irq_arg = dev_addr\<rparr>]"
    using x2(1) request_irq_next [OF x(1) assms(9) x(2,3), of ?h dev_addr]
    by (auto simp: register_irq_def Let_def split: Option.bind_splits)
  define s2 where "s2 = (set_hw d3 s1)\<lparr>ps_x86 := x2\<lparr>hw := IOPort_write16 P B ?io 0 QUEUE_MSIX_VECTOR d6\<rparr>\<rparr>"
  have rx: "setup_rx P B symb dev_addr pci ?io 0 dev vq (set_hw d3 s1) = Some (vq', s2)"
    using vq' x2 by (simp add: setup_rx_def ps s2_def)
  have sq: "setup_queue P B symb dev_addr pci ?io dev 0 ([], s) =
      Some ([vq'], set_hw (IOPort_write16 P B ?io 1 QUEUE_ENABLE (ps_hw s2)) s2)"
    using assms(1,2,4) d3 rx by (simp add: setup_queue_def)
  have irq: "rd (irq_services (ps_x86 s2)) k = Some \<lparr>irq_handler = ?h, irq_arg = dev_addr\<rparr>" "next_vector (ps_x86 s2) = of_nat (32 + Suc k)"
    using fr x(2) assms(9) by (simp_all add: s2_def rd_def)
  have raw: "raw_used_ring_ptr vq' = raw_used_ring_ptr vq" "raw_available_ring_ptr vq' = raw_available_ring_ptr vq"
    "raw_descriptor_table_ptr vq' = raw_descriptor_table_ptr vq" by (simp_all add: vq'_def)
  have hw: "ps_hw (set_hw (IOPort_write16 P B ?io 1 QUEUE_ENABLE (ps_hw s2)) s2) = mmio_write16 B 1 (base + QUEUE_ENABLE)
      (mmio_write16 B 0 (base + QUEUE_MSIX_VECTOR) (mmio_write32 B (ctrl AND NOT 1) (tbase + 12) d5))"
    by (simp add: s2_def set_hw_def d6)
  have irq': "rd (irq_services (ps_x86 (set_hw d s2))) k = Some \<lparr>irq_handler = ?h, irq_arg = dev_addr\<rparr>"
    "next_vector (ps_x86 (set_hw d s2)) = of_nat (32 + Suc k)" for d
    using irq by (simp_all add: set_hw_def)
  show ?thesis
    unfolding assms(7) add_0_right
    using sq vqs' irq' d3_def [folded raw] x2(3,4) d5 hw by blast
qed

text \<open>A device that answers every read with 1, and an allocator with three objects of 32 bytes to spare.\<close>

definition net_kmem_example :: "(MemorySegment list, MemorySegment list \<times> nat option) kmem_state" where
  "net_kmem_example = \<lparr>km_pages = mm_pages mmu_example,
     km_bufctls = [0x600 \<mapsto> \<lparr>bc_next = 0x610, bc_addr = 0xffffffff80100000, bc_slab = 0x500\<rparr>,
       0x610 \<mapsto> \<lparr>bc_next = 0x620, bc_addr = 0xffffffff80100020, bc_slab = 0x500\<rparr>,
       0x620 \<mapsto> \<lparr>bc_next = 0, bc_addr = 0xffffffff80100040, bc_slab = 0x500\<rparr>],
     km_slabs = [0x500 \<mapsto> \<lparr>sl_cache = 0x180, sl_head = 0x600, sl_base = 0xffffffff80100000, sl_next = 0, sl_nr_free = 3, sl_capacity = 3\<rparr>],
     km_caches = [0x180 \<mapsto> \<lparr>ca_bufctl = 8, ca_size = 32, ca_align = 8, ca_slab = 0x500, ca_name = []\<rparr>],
     km_bytes = \<lambda>_. 0, kmem_cache_cache = 0x100, kmem_slab_cache = 0x140, kmalloc_caches = 0x180\<rparr>"

definition net_sys_example :: "(MemorySegment list, MemorySegment list \<times> nat option, (u64 \<times> u64) list) net_sys" where
  "net_sys_example = \<lparr>ps_x86 = x86_static [], ps_mm = mmu_example, ps_kmem = net_kmem_example, ps_namespace = []\<rparr>"

definition net_dev_example :: VirtioNetDevice where
  "net_dev_example = \<lparr>notify_cfg_ioport = Memory 0xfebd2000 0x1000, notify_off_multiplier = 4, vqs = [], notifier = EventNotifier_new ''/dev/eth'',
     rx_page = 0xffffffff80200000, rx_page_size = 0x1000, tx_page = 0xffffffff80201000, tx_page_size = 0x1000,
     mac_addr = None, rx_buffer_addr = None, io_queue = None\<rparr>"

lemma kmem_zalloc_head:
  assumes "sz \<le> 32" and "km_caches s (kmalloc_caches s) = Some cache" and "km_slabs s (ca_slab cache) = Some sl" and "sl_head sl \<noteq> 0"
    and "km_bufctls s (sl_head sl) = Some bc" and "bc_addr bc \<noteq> 0" and "kmalloc_caches s \<noteq> 0"
  shows "kmem_zalloc sz s = Some (bc_addr bc, kmem_memset (bc_addr bc) 0 sz
    (put_slab (ca_slab cache) (sl\<lparr>sl_head := bc_next bc, sl_nr_free := sl_nr_free sl - 1\<rparr>) s))"
proof -
  have "kmem_size_to_cache sz s = kmalloc_caches s"
    using assms(1) by (simp add: kmem_size_to_cache_def kmem_cache_index_def kmem_alloc_sizes_def)
  moreover have "kmem_cache_alloc kmem_fuel (kmalloc_caches s) s =
      Some (bc_addr bc, put_slab (ca_slab cache) (sl\<lparr>sl_head := bc_next bc, sl_nr_free := sl_nr_free sl - 1\<rparr>) s)"
    using assms(2-6) by (simp add: kmem_fuel_def numeral_eq_Suc kmem_slab_alloc_object_def)
  ultimately show ?thesis using assms(6,7) by (simp add: kmem_zalloc_def kmem_alloc_def)
qed

lemma net_kmem_example_queue: "\<exists>vq k. Virtqueue_new 0 1 1 net_kmem_example = Some (vq, k)"
  unfolding Virtqueue_new_def
  by (simp add: kmem_zalloc_head net_kmem_example_def put_slab_def kmem_memset_def)

theorem rx_queue_started_witness:
  "\<exists>vq s'. setup_queue (cpu_ports trace_cpu) trace_bus (\<lambda>_. 0x5000) 0x7000 msix_example (Memory 0xfebd0000 0x1000) net_dev_example 0 ([], net_sys_example)
       = Some ([vq], s')
     \<and> rd (vq_desc vq) 0 = Some \<lparr>vd_addr = 0x200000, vd_len = 0x1000, vd_flags = 2, vd_next = 0\<rparr>
     \<and> rd (irq_services (ps_x86 s')) 0 = Some \<lparr>irq_handler = 0x5000, irq_arg = 0x7000\<rparr>"
proof -
  let ?P = "cpu_ports trace_cpu" and ?io = "Memory 0xfebd0000 0x1000" and ?d = "[(0xfebd0016, 0)] :: (u64 \<times> u64) list"
  obtain vq s1 where k: "with_kmem (Virtqueue_new 0 (ucast (1 :: u16)) 1) (set_hw ?d net_sys_example) = Some (vq, s1)"
    using net_kmem_example_queue by (auto simp: with_kmem_def set_hw_def net_sys_example_def net_kmem_example_def)
  have r: "IOPort_read16 ?P trace_bus ?io QUEUE_SIZE (IOPort_write16 ?P trace_bus ?io 0 QUEUE_SELECT (ps_hw net_sys_example)) = (1, ?d)"
    "IOPort_read16 ?P trace_bus ?io QUEUE_NOTIFY_OFF ?d = (1, ?d)"
    by code_simp+
  have t: "msix msix_example = Some \<lparr>msix_offset = 0x98, table_bar = 1, table_offset = 0\<rparr>"
    "rd (bars msix_example) (unat (table_bar \<lparr>msix_offset = 0x98, table_bar = 1, table_offset = 0\<rparr>)) = Some (Some (Memory 0xfebd1000 0x1000))"
    by (simp_all add: msix_example_def rd_def)
  have x: "next_vector (ps_x86 net_sys_example) = of_nat (32 + 0)" "length (irq_services (ps_x86 net_sys_example)) = 224"
    "irq_handler (irq_services (ps_x86 net_sys_example) ! 0) = 0"
    by (simp_all add: net_sys_example_def x86_static_def NR_EXCEPTIONS_def NR_INTERRUPTS_def NR_INTERRUPT_VECTORS_def)
  have v: "virt_to_phys (rx_page net_dev_example) = 0x200000" "ucast (rx_page_size net_dev_example) = (0x1000 :: u32)" by code_simp+
  show ?thesis
    using rx_queue_started [OF r _ k t _ x(1) _ x(2,3), of "\<lambda>_. 0x5000" "0x7000" net_dev_example] by (auto simp: v)
qed

end
