(* ===== verification/Fdt.thy ===== *)
theory Fdt
  imports Bytes Libc Console PageAlloc
begin

text \<open>
  The reader of flattened device trees (\<^verbatim>\<open>lib/libfdt\<close>, the files \<^verbatim>\<open>fdt.c\<close>,
  \<^verbatim>\<open>fdt_ro.c\<close> and \<^verbatim>\<open>fdt_addresses.c\<close> that the kernel is linked with) as far as it is used by
  the platform configuration of aarch64 (\<^verbatim>\<open>arch/aarch64/platform.c\<close>), and that configuration.

  The blob is the list of its bytes. A pointer into it is an offset from its beginning, a null
  pointer the inner \<open>None\<close>; an access outside the blob is \<open>None\<close>. An \<open>int\<close> of the source is an
  \<open>int\<close> in its range: conversions to it go through \<open>c_int\<close>, and an \<open>int\<close> operation that overflows
  is \<open>None\<close>. A loop that does not end is \<open>None\<close> as well. A string argument with a length is the
  list of its bytes.
\<close>

subsection \<open>Integers and the header\<close>

definition c_int :: "int \<Rightarrow> int" where
  "c_int x = sint (word_of_int x :: u32)"

definition c_sub :: "int \<Rightarrow> int \<Rightarrow> int option" where
  "c_sub x y = (if - (2 ^ 31) \<le> x - y \<and> x - y < 2 ^ 31 then Some (x - y) else None)"

definition fdt32_to_cpu :: "u8 \<Rightarrow> u8 \<Rightarrow> u8 \<Rightarrow> u8 \<Rightarrow> u32" where
  "fdt32_to_cpu b0 b1 b2 b3 =
     push_bit 24 (ucast b0) OR push_bit 16 (ucast b1) OR push_bit 8 (ucast b2) OR ucast b3"

text \<open>\<^verbatim>\<open>fdt32_to_cpu(*p)\<close>.\<close>

definition fdt32_at :: "u8 list \<Rightarrow> nat \<Rightarrow> u32 option" where
  "fdt32_at f p =
     do { b0 \<leftarrow> rd f p; b1 \<leftarrow> rd f (p + 1); b2 \<leftarrow> rd f (p + 2); b3 \<leftarrow> rd f (p + 3);
          Some (fdt32_to_cpu b0 b1 b2 b3) }"

definition fdt_magic :: "u8 list \<Rightarrow> u32 option" where "fdt_magic f = fdt32_at f 0"
definition fdt_totalsize :: "u8 list \<Rightarrow> u32 option" where "fdt_totalsize f = fdt32_at f 4"
definition fdt_off_dt_struct :: "u8 list \<Rightarrow> u32 option" where "fdt_off_dt_struct f = fdt32_at f 8"
definition fdt_off_dt_strings :: "u8 list \<Rightarrow> u32 option" where "fdt_off_dt_strings f = fdt32_at f 12"
definition fdt_version :: "u8 list \<Rightarrow> u32 option" where "fdt_version f = fdt32_at f 20"
definition fdt_last_comp_version :: "u8 list \<Rightarrow> u32 option" where "fdt_last_comp_version f = fdt32_at f 24"
definition fdt_size_dt_struct :: "u8 list \<Rightarrow> u32 option" where "fdt_size_dt_struct f = fdt32_at f 36"

abbreviation FDT_MAGIC :: u32 where "FDT_MAGIC \<equiv> 0xd00dfeed"
abbreviation FDT_SW_MAGIC :: u32 where "FDT_SW_MAGIC \<equiv> NOT 0xd00dfeed"
abbreviation FDT_BEGIN_NODE :: u32 where "FDT_BEGIN_NODE \<equiv> 1"
abbreviation FDT_END_NODE :: u32 where "FDT_END_NODE \<equiv> 2"
abbreviation FDT_PROP :: u32 where "FDT_PROP \<equiv> 3"
abbreviation FDT_NOP :: u32 where "FDT_NOP \<equiv> 4"
abbreviation FDT_END :: u32 where "FDT_END \<equiv> 9"
abbreviation FDT_FIRST_SUPPORTED_VERSION :: u32 where "FDT_FIRST_SUPPORTED_VERSION \<equiv> 0x10"
abbreviation FDT_LAST_SUPPORTED_VERSION :: u32 where "FDT_LAST_SUPPORTED_VERSION \<equiv> 0x11"

abbreviation FDT_ERR_NOTFOUND :: int where "FDT_ERR_NOTFOUND \<equiv> 1"
abbreviation FDT_ERR_BADOFFSET :: int where "FDT_ERR_BADOFFSET \<equiv> 4"
abbreviation FDT_ERR_BADPATH :: int where "FDT_ERR_BADPATH \<equiv> 5"
abbreviation FDT_ERR_BADSTATE :: int where "FDT_ERR_BADSTATE \<equiv> 7"
abbreviation FDT_ERR_TRUNCATED :: int where "FDT_ERR_TRUNCATED \<equiv> 8"
abbreviation FDT_ERR_BADMAGIC :: int where "FDT_ERR_BADMAGIC \<equiv> 9"
abbreviation FDT_ERR_BADVERSION :: int where "FDT_ERR_BADVERSION \<equiv> 10"
abbreviation FDT_ERR_BADSTRUCTURE :: int where "FDT_ERR_BADSTRUCTURE \<equiv> 11"
abbreviation FDT_ERR_INTERNAL :: int where "FDT_ERR_INTERNAL \<equiv> 13"
abbreviation FDT_ERR_BADNCELLS :: int where "FDT_ERR_BADNCELLS \<equiv> 14"
abbreviation FDT_MAX_NCELLS :: int where "FDT_MAX_NCELLS \<equiv> 4"

definition fdt_check_header :: "u8 list \<Rightarrow> int option" where
  "fdt_check_header f =
     do { magic \<leftarrow> fdt_magic f;
          if magic = FDT_MAGIC then
            do { version \<leftarrow> fdt_version f;
                 if version < FDT_FIRST_SUPPORTED_VERSION then Some (- FDT_ERR_BADVERSION)
                 else do { comp \<leftarrow> fdt_last_comp_version f;
                           Some (if comp > FDT_LAST_SUPPORTED_VERSION then - FDT_ERR_BADVERSION else 0) } }
          else if magic = FDT_SW_MAGIC then
            do { sz \<leftarrow> fdt_size_dt_struct f; Some (if sz = 0 then - FDT_ERR_BADSTATE else 0) }
          else Some (- FDT_ERR_BADMAGIC) }"

subsection \<open>Tags\<close>

definition fdt_offset_ptr_raw :: "u8 list \<Rightarrow> int \<Rightarrow> nat option" where
  "fdt_offset_ptr_raw f offset =
     do { off \<leftarrow> fdt_off_dt_struct f;
          if uint off + offset < 0 then None else Some (nat (uint off + offset)) }"

definition fdt_offset_ptr :: "u8 list \<Rightarrow> int \<Rightarrow> u32 \<Rightarrow> nat option option" where
  "fdt_offset_ptr f offset len =
     do { off \<leftarrow> fdt_off_dt_struct f;
          totalsize \<leftarrow> fdt_totalsize f;
          version \<leftarrow> fdt_version f;
          let uoffset = word_of_int offset;
          let absoffset = uoffset + off;
          if absoffset < uoffset \<or> absoffset + len < absoffset \<or> absoffset + len > totalsize then Some None
          else if version \<ge> 0x11 then
            do { sz \<leftarrow> fdt_size_dt_struct f;
                 if uoffset + len < uoffset \<or> uoffset + len > sz then Some None
                 else map_option Some (fdt_offset_ptr_raw f offset) }
          else map_option Some (fdt_offset_ptr_raw f offset) }"

text \<open>The loop over the bytes of a name; the result is the offset behind its terminator.\<close>

function skip_name :: "u8 list \<Rightarrow> int \<Rightarrow> int option option" where
  "skip_name f offset =
     (if offset < 2 ^ 31 - 1 then
        do { p \<leftarrow> fdt_offset_ptr f offset 1;
             case p of
               None \<Rightarrow> Some None
             | Some p \<Rightarrow> do { c \<leftarrow> rd f p; if c = 0 then Some (Some (offset + 1)) else skip_name f (offset + 1) } }
      else None)"
  by pat_completeness auto
termination
  by (relation "measure (\<lambda>(f, offset). nat (2 ^ 31 - 1 - offset))") auto

declare skip_name.simps [simp del]

definition FDT_TAGALIGN :: "int \<Rightarrow> int" where
  "FDT_TAGALIGN x = c_int ((x + 3) div 4 * 4)"

text \<open>The \<^verbatim>\<open>switch\<close> of \<^verbatim>\<open>fdt_next_tag\<close>: the offset behind the tag and its payload, or \<open>None\<close> where the
  source returns early.\<close>

definition tag_end :: "u8 list \<Rightarrow> u32 \<Rightarrow> int \<Rightarrow> int option option" where
  "tag_end f tag offset =
     (if tag = FDT_BEGIN_NODE then skip_name f offset
      else if tag = FDT_PROP then
        do { lenp \<leftarrow> fdt_offset_ptr f offset 4;
             case lenp of
               None \<Rightarrow> Some None
             | Some lenp \<Rightarrow> do { len \<leftarrow> fdt32_at f lenp; Some (Some (c_int (offset + (12 - 4 + uint len)))) } }
      else if tag = FDT_END \<or> tag = FDT_END_NODE \<or> tag = FDT_NOP then Some (Some offset)
      else Some None)"

definition fdt_next_tag :: "u8 list \<Rightarrow> int \<Rightarrow> (u32 \<times> int) option" where
  "fdt_next_tag f startoffset =
     do { tagp \<leftarrow> fdt_offset_ptr f startoffset 4;
          case tagp of
            None \<Rightarrow> Some (FDT_END, - FDT_ERR_TRUNCATED)
          | Some tagp \<Rightarrow>
              do { tag \<leftarrow> fdt32_at f tagp;
                   offset \<leftarrow> tag_end f tag (c_int (startoffset + 4));
                   case offset of
                     None \<Rightarrow> Some (FDT_END, - FDT_ERR_BADSTRUCTURE)
                   | Some offset \<Rightarrow>
                       do { n \<leftarrow> c_sub offset startoffset;
                            p \<leftarrow> fdt_offset_ptr f startoffset (word_of_int n);
                            Some (case p of None \<Rightarrow> (FDT_END, - FDT_ERR_BADSTRUCTURE)
                                  | Some p \<Rightarrow> (tag, FDT_TAGALIGN offset)) } } }"

definition fdt_check_tag_offset :: "u32 \<Rightarrow> u8 list \<Rightarrow> int \<Rightarrow> int option" where
  "fdt_check_tag_offset want f offset =
     (if offset < 0 \<or> offset mod 4 \<noteq> 0 then Some (- FDT_ERR_BADOFFSET)
      else do { (tag, next) \<leftarrow> fdt_next_tag f offset;
                Some (if tag \<noteq> want then - FDT_ERR_BADOFFSET else next) })"

definition fdt_check_node_offset :: "u8 list \<Rightarrow> int \<Rightarrow> int option" where
  "fdt_check_node_offset f offset = fdt_check_tag_offset FDT_BEGIN_NODE f offset"

definition fdt_check_prop_offset :: "u8 list \<Rightarrow> int \<Rightarrow> int option" where
  "fdt_check_prop_offset f offset = fdt_check_tag_offset FDT_PROP f offset"

subsection \<open>Nodes\<close>

text \<open>The loop of \<^verbatim>\<open>fdt_next_node\<close>. The depth is \<open>None\<close> for a null pointer; the result is the
  returned offset and the depth at the end.\<close>

partial_function (option) next_node_loop :: "u8 list \<Rightarrow> int \<Rightarrow> int option \<Rightarrow> (int \<times> int option) option" where
  "next_node_loop f offset depth =
     Option.bind (fdt_next_tag f offset) (\<lambda>(tag, next).
       if tag = FDT_BEGIN_NODE then Some (offset, map_option (\<lambda>d. d + 1) depth)
       else if tag = FDT_END_NODE then
         let depth = map_option (\<lambda>d. d - 1) depth
         in if (case depth of None \<Rightarrow> False | Some d \<Rightarrow> d < 0) then Some (next, depth) else next_node_loop f next depth
       else if tag = FDT_END then
         Some (if 0 \<le> next \<or> next = - FDT_ERR_TRUNCATED \<and> depth = None then - FDT_ERR_NOTFOUND else next, depth)
       else next_node_loop f next depth)"

definition fdt_next_node :: "u8 list \<Rightarrow> int \<Rightarrow> int option \<Rightarrow> (int \<times> int option) option" where
  "fdt_next_node f offset depth =
     (if 0 \<le> offset then
        do { next \<leftarrow> fdt_check_node_offset f offset;
             if next < 0 then Some (next, depth) else next_node_loop f next depth }
      else next_node_loop f 0 depth)"

definition fdt_nodename_eq :: "u8 list \<Rightarrow> int \<Rightarrow> u8 list \<Rightarrow> bool option" where
  "fdt_nodename_eq f offset s =
     do { p \<leftarrow> fdt_offset_ptr f (c_int (offset + 4)) (of_nat (length s) + 1);
          case p of
            None \<Rightarrow> Some False
          | Some p \<Rightarrow>
              do { name \<leftarrow> ld_bytes f p (length s);
                   if name \<noteq> s then Some False
                   else do { c \<leftarrow> rd f (p + length s);
                             Some (c = 0 \<or> 64 \<notin> set s \<and> c = 64) } } }"

text \<open>The loop of \<^verbatim>\<open>fdt_subnode_offset_namelen\<close>.\<close>

partial_function (option) subnode_loop :: "u8 list \<Rightarrow> int \<Rightarrow> int \<Rightarrow> u8 list \<Rightarrow> int option" where
  "subnode_loop f offset depth name =
     (if 0 \<le> offset \<and> 0 \<le> depth then
        Option.bind (if depth = 1 then fdt_nodename_eq f offset name else Some False) (\<lambda>eq.
          if eq then Some offset
          else Option.bind (fdt_next_node f offset (Some depth)) (\<lambda>(offset, depth).
            subnode_loop f offset (the depth) name))
      else Some (if depth < 0 then - FDT_ERR_NOTFOUND else offset))"

definition fdt_subnode_offset_namelen :: "u8 list \<Rightarrow> int \<Rightarrow> u8 list \<Rightarrow> int option" where
  "fdt_subnode_offset_namelen f offset name =
     do { err \<leftarrow> fdt_check_header f;
          if err \<noteq> 0 then Some err else subnode_loop f offset 0 name }"

subsection \<open>Properties\<close>

partial_function (option) nextprop :: "u8 list \<Rightarrow> int \<Rightarrow> int option" where
  "nextprop f offset =
     Option.bind (fdt_next_tag f offset) (\<lambda>(tag, next).
       if tag = FDT_END then Some (if 0 \<le> next then - FDT_ERR_BADSTRUCTURE else next)
       else if tag = FDT_PROP then Some offset
       else if tag = FDT_NOP then nextprop f next
       else Some (- FDT_ERR_NOTFOUND))"

definition fdt_first_property_offset :: "u8 list \<Rightarrow> int \<Rightarrow> int option" where
  "fdt_first_property_offset f nodeoffset =
     do { offset \<leftarrow> fdt_check_node_offset f nodeoffset;
          if offset < 0 then Some offset else nextprop f offset }"

definition fdt_next_property_offset :: "u8 list \<Rightarrow> int \<Rightarrow> int option" where
  "fdt_next_property_offset f offset =
     do { offset \<leftarrow> fdt_check_prop_offset f offset;
          if offset < 0 then Some offset else nextprop f offset }"

text \<open>A property is the pointer to its \<^verbatim>\<open>struct fdt_property\<close> and its length, or a null pointer and
  the error number.\<close>

definition fdt_get_property_by_offset :: "u8 list \<Rightarrow> int \<Rightarrow> (nat option \<times> int) option" where
  "fdt_get_property_by_offset f offset =
     do { err \<leftarrow> fdt_check_prop_offset f offset;
          if err < 0 then Some (None, err)
          else do { prop \<leftarrow> fdt_offset_ptr_raw f offset;
                    len \<leftarrow> fdt32_at f (prop + 4);
                    Some (Some prop, c_int (uint len)) } }"

definition fdt_string :: "u8 list \<Rightarrow> int \<Rightarrow> nat option" where
  "fdt_string f stroffset =
     do { off \<leftarrow> fdt_off_dt_strings f;
          if uint off + stroffset < 0 then None else Some (nat (uint off + stroffset)) }"

definition fdt_string_eq :: "u8 list \<Rightarrow> int \<Rightarrow> u8 list \<Rightarrow> bool option" where
  "fdt_string_eq f stroffset s =
     do { p \<leftarrow> fdt_string f stroffset;
          n \<leftarrow> strlen (drop p f);
          if n = length s then do { name \<leftarrow> ld_bytes f p (length s); Some (name = s) } else Some False }"

text \<open>The loop of \<^verbatim>\<open>fdt_get_property_namelen\<close>.\<close>

partial_function (option) property_loop :: "u8 list \<Rightarrow> int \<Rightarrow> u8 list \<Rightarrow> (nat option \<times> int) option" where
  "property_loop f offset name =
     (if 0 \<le> offset then
        Option.bind (fdt_get_property_by_offset f offset) (\<lambda>(prop, len).
          case prop of
            None \<Rightarrow> Some (None, - FDT_ERR_INTERNAL)
          | Some prop \<Rightarrow>
              Option.bind (fdt32_at f (prop + 8)) (\<lambda>nameoff.
              Option.bind (fdt_string_eq f (c_int (uint nameoff)) name) (\<lambda>eq.
                if eq then Some (Some prop, len)
                else Option.bind (fdt_next_property_offset f offset) (\<lambda>offset. property_loop f offset name))))
      else Some (None, offset))"

definition fdt_get_property_namelen :: "u8 list \<Rightarrow> int \<Rightarrow> u8 list \<Rightarrow> (nat option \<times> int) option" where
  "fdt_get_property_namelen f offset name =
     do { offset \<leftarrow> fdt_first_property_offset f offset; property_loop f offset name }"

definition fdt_getprop_namelen :: "u8 list \<Rightarrow> int \<Rightarrow> u8 list \<Rightarrow> (nat option \<times> int) option" where
  "fdt_getprop_namelen f nodeoffset name =
     do { (prop, len) \<leftarrow> fdt_get_property_namelen f nodeoffset name;
          Some (map_option (\<lambda>p. p + 12) prop, len) }"

definition fdt_getprop :: "u8 list \<Rightarrow> int \<Rightarrow> string \<Rightarrow> (nat option \<times> int) option" where
  "fdt_getprop f nodeoffset name = fdt_getprop_namelen f nodeoffset (bytes_of name)"

subsection \<open>Paths\<close>

text \<open>The loop over the components of a path; \<open>path\<close> is what is left of it. A slash is 47.\<close>

function path_loop :: "u8 list \<Rightarrow> u8 list \<Rightarrow> int \<Rightarrow> int option" where
  "path_loop f [] offset = Some offset"
| "path_loop f (c # cs) offset =
     (if c = 47 then path_loop f cs offset
      else do { offset \<leftarrow> fdt_subnode_offset_namelen f offset (takeWhile (\<lambda>b. b \<noteq> 47) (c # cs));
                if offset < 0 then Some offset
                else path_loop f (dropWhile (\<lambda>b. b \<noteq> 47) (c # cs)) offset })"
  by pat_completeness auto
termination
  by (relation "measure (\<lambda>(f, path, offset). length path)") (auto simp: le_imp_less_Suc length_dropWhile_le)

text \<open>\<^verbatim>\<open>fdt_path_offset_namelen\<close> of a path that begins with a slash.\<close>

definition absolute_path_offset :: "u8 list \<Rightarrow> u8 list \<Rightarrow> int option" where
  "absolute_path_offset f path =
     do { err \<leftarrow> fdt_check_header f;
          if err \<noteq> 0 then Some err else path_loop f path 0 }"

definition fdt_get_alias_namelen :: "u8 list \<Rightarrow> u8 list \<Rightarrow> nat option option" where
  "fdt_get_alias_namelen f name =
     do { aliasoffset \<leftarrow> absolute_path_offset f (bytes_of ''/aliases'');
          if aliasoffset < 0 then Some None
          else map_option fst (fdt_getprop_namelen f aliasoffset name) }"

text \<open>The path is the memory from its pointer on, of which \<open>namelen\<close> bytes belong to it; that of an
  alias is the value of a property, inside the blob, up to the next NUL.\<close>

partial_function (option) fdt_path_offset_namelen :: "u8 list \<Rightarrow> u8 list \<Rightarrow> nat \<Rightarrow> int option" where
  "fdt_path_offset_namelen f path namelen =
     Option.bind (fdt_check_header f) (\<lambda>err.
       if err \<noteq> 0 then Some err
       else Option.bind (rd path 0) (\<lambda>c.
         if c \<noteq> 47 then
           Option.bind (fdt_get_alias_namelen f (takeWhile (\<lambda>b. b \<noteq> 47) (take namelen path))) (\<lambda>p.
             case p of
               None \<Rightarrow> Some (- FDT_ERR_BADPATH)
             | Some p \<Rightarrow>
                 Option.bind (strlen (drop p f)) (\<lambda>n.
                 Option.bind (fdt_path_offset_namelen f (drop p f) n) (\<lambda>offset.
                   path_loop f (dropWhile (\<lambda>b. b \<noteq> 47) (take namelen path)) offset)))
         else path_loop f (take namelen path) 0))"

definition fdt_path_offset :: "u8 list \<Rightarrow> u8 list \<Rightarrow> int option" where
  "fdt_path_offset f path = do { n \<leftarrow> strlen path; fdt_path_offset_namelen f path n }"

subsection \<open>Cells\<close>

definition fdt_address_cells :: "u8 list \<Rightarrow> int \<Rightarrow> int option" where
  "fdt_address_cells f nodeoffset =
     do { (ac, len) \<leftarrow> fdt_getprop f nodeoffset ''#address-cells'';
          case ac of
            None \<Rightarrow> Some 2
          | Some ac \<Rightarrow>
              if len \<noteq> 4 then Some (- FDT_ERR_BADNCELLS)
              else do { v \<leftarrow> fdt32_at f ac;
                        let val = c_int (uint v);
                        Some (if val \<le> 0 \<or> val > FDT_MAX_NCELLS then - FDT_ERR_BADNCELLS else val) } }"

definition fdt_size_cells :: "u8 list \<Rightarrow> int \<Rightarrow> int option" where
  "fdt_size_cells f nodeoffset =
     do { (sc, len) \<leftarrow> fdt_getprop f nodeoffset ''#size-cells'';
          case sc of
            None \<Rightarrow> Some 2
          | Some sc \<Rightarrow>
              if len \<noteq> 4 then Some (- FDT_ERR_BADNCELLS)
              else do { v \<leftarrow> fdt32_at f sc;
                        let val = c_int (uint v);
                        Some (if val < 0 \<or> val > FDT_MAX_NCELLS then - FDT_ERR_BADNCELLS else val) } }"

subsection \<open>The platform configuration of aarch64\<close>

text \<open>The state is that of the page allocator and that of the console, a PL011 behind
  \<open>strb\<close>. A panic halts: its result is \<open>Inl\<close>.\<close>

definition aarch64_panic :: "(u64 \<Rightarrow> u8 \<Rightarrow> 'd \<Rightarrow> 'd) \<Rightarrow> string \<Rightarrow> 'd \<Rightarrow> ('d + 'a) option" where
  "aarch64_panic strb fmt d =
     do { (n, msg) \<leftarrow> vsnprintf (replicate 64 0) 64 (bytes_of fmt @ [0]) [];
          d \<leftarrow> pl011_console_write_str strb (bytes_of ''Kernel panic: '' @ [0]) d;
          d \<leftarrow> pl011_console_write_str strb msg d;
          d \<leftarrow> pl011_console_write_str strb [10, 0] d;
          Some (Inl d) }"

definition aarch64_printf :: "(u64 \<Rightarrow> u8 \<Rightarrow> 'd \<Rightarrow> 'd) \<Rightarrow> string \<Rightarrow> va_slot list \<Rightarrow> 'd \<Rightarrow> 'd option" where
  "aarch64_printf strb fmt ap d = map_option snd (printf (pl011_console_write_char strb) (bytes_of fmt @ [0]) ap d)"

text \<open>\<open>n\<close> cells from \<open>p\<close> on, after the value \<open>acc\<close>.\<close>

fun read_cells :: "u8 list \<Rightarrow> nat \<Rightarrow> nat \<Rightarrow> u64 \<Rightarrow> (u64 \<times> nat) option" where
  "read_cells f p 0 acc = Some (acc, p)"
| "read_cells f p (Suc n) acc =
     do { v \<leftarrow> fdt32_at f p; read_cells f (p + 4) n (push_bit 32 acc OR ucast v) }"

definition add_memory :: "u64 \<Rightarrow> u64 \<Rightarrow> u64 \<Rightarrow> ('t, 'c) page_arenas \<Rightarrow> ('t, 'c) page_arenas" where
  "add_memory kernel_end memory_addr memory_size p =
     (let (memory_addr, memory_size) =
            (if memory_addr < kernel_end then (kernel_end, memory_size - (kernel_end - memory_addr)) else (memory_addr, memory_size))
      in memory_add_span (align_up memory_addr PAGE_SIZE_SMALL) (align_down memory_size PAGE_SIZE_SMALL) p)"

definition parse_memory_node ::
  "(u64 \<Rightarrow> u8 \<Rightarrow> 'd \<Rightarrow> 'd) \<Rightarrow> (string \<Rightarrow> u64) \<Rightarrow> u8 list \<Rightarrow> int \<Rightarrow> ('t, 'c) page_arenas \<Rightarrow> 'd
     \<Rightarrow> ('d + ('t, 'c) page_arenas \<times> 'd) option" where
  "parse_memory_node strb symb fdt memory_node p d =
     do { addr_cells \<leftarrow> fdt_address_cells fdt memory_node;
          if addr_cells < 0 then aarch64_panic strb ''Bad address cells property'' d
          else do {
          size_cells \<leftarrow> fdt_size_cells fdt memory_node;
          if size_cells < 0 then aarch64_panic strb ''Bad size cells property'' d
          else do {
          (reg_prop, sz) \<leftarrow> fdt_getprop fdt memory_node ''reg'';
          case reg_prop of
            None \<Rightarrow> aarch64_panic strb ''No reg property found'' d
          | Some reg_prop \<Rightarrow>
              do { (memory_addr, reg_prop) \<leftarrow> read_cells fdt reg_prop (nat addr_cells) 0;
                   (memory_size, reg_prop) \<leftarrow> read_cells fdt reg_prop (nat size_cells) 0;
                   d \<leftarrow> aarch64_printf strb (''Memory map:'' @ [CHR 0x0A]) [] d;
                   d \<leftarrow> aarch64_printf strb (''  %016lx-%016lx %4d MiB [available]'' @ [CHR 0x0A])
                          [VaWord memory_addr, VaWord (memory_addr + memory_size), VaWord (memory_size div 1024 div 1024)] d;
                   Some (Inr (add_memory (symb ''_kernel_end'') memory_addr memory_size p, d)) } } } }"

text \<open>\<open>dtb\<close> is the address and the bytes of the blob.\<close>

definition parse_platform_config_fdt ::
  "(u64 \<Rightarrow> u8 \<Rightarrow> 'd \<Rightarrow> 'd) \<Rightarrow> (string \<Rightarrow> u64) \<Rightarrow> (u64 \<times> u8 list) option \<Rightarrow> ('t, 'c) page_arenas \<Rightarrow> 'd
     \<Rightarrow> ('d + ('t, 'c) page_arenas \<times> 'd) option" where
  "parse_platform_config_fdt strb symb dtb p d =
     (case dtb of
        None \<Rightarrow> aarch64_panic strb ''No FDT found'' d
      | Some (addr, fdt) \<Rightarrow>
          do { err \<leftarrow> fdt_check_header fdt;
               if err \<noteq> 0 then aarch64_panic strb ''Bad FDT found'' d
               else do {
               d \<leftarrow> aarch64_printf strb (''Found FDT at address %x'' @ [CHR 0x0A]) [VaWord addr] d;
               memory_node \<leftarrow> fdt_path_offset fdt (bytes_of ''/memory'' @ [0]);
               if memory_node < 0 then aarch64_panic strb ''No memory node found in FDT'' d
               else parse_memory_node strb symb fdt memory_node p d } })"

end
