(* ===== verification/FdtProofs.thy ===== *)
theory FdtProofs
  imports Fdt PrintfText
begin

text \<open>
  The reader of device trees is correct: on a blob that stores a tree, a path leads to the first
  node it names and a property is found with its value; a tag is read within the blob and the
  reader moves on; a property with a forged length is the exception.
\<close>

subsection \<open>Bytes of the blob\<close>

definition be32 :: "u32 \<Rightarrow> u8 list" where
  "be32 w = [ucast (drop_bit 24 w), ucast (drop_bit 16 w), ucast (drop_bit 8 w), ucast w]"

lemma length_be32 [simp]: "length (be32 w) = 4"
  by (simp add: be32_def)

lemma fdt32_to_cpu_be32: "fdt32_to_cpu (ucast (drop_bit 24 w)) (ucast (drop_bit 16 w)) (ucast (drop_bit 8 w)) (ucast w) = w"
  unfolding fdt32_to_cpu_def
proof (rule bit_word_eqI)
  fix n assume "n < LENGTH(32)"
  then consider "n < 8" | "8 \<le> n" "n < 16" | "16 \<le> n" "n < 24" | "24 \<le> n" "n < 32" by force
  then show "bit (push_bit 24 (ucast (ucast (drop_bit 24 w) :: u8)) OR push_bit 16 (ucast (ucast (drop_bit 16 w) :: u8))
      OR push_bit 8 (ucast (ucast (drop_bit 8 w) :: u8)) OR ucast (ucast w :: u8) :: u32) n \<longleftrightarrow> bit w n"
    by cases (auto simp: bit_simps)
qed

text \<open>The bytes \<open>bs\<close> are stored at \<open>p\<close>.\<close>

definition stored :: "u8 list \<Rightarrow> nat \<Rightarrow> u8 list \<Rightarrow> bool" where
  "stored f p bs \<longleftrightarrow> p + length bs \<le> length f \<and> take (length bs) (drop p f) = bs"

lemma stored_append: "stored f p (xs @ ys) \<longleftrightarrow> stored f p xs \<and> stored f (p + length xs) ys"
proof
  assume a: "stored f p (xs @ ys)"
  then have "take (length xs) (take (length (xs @ ys)) (drop p f)) = xs" by (simp add: stored_def del: take_take)
  moreover have "drop (length xs) (take (length (xs @ ys)) (drop p f)) = ys" using a by (simp add: stored_def del: drop_take)
  ultimately show "stored f p xs \<and> stored f (p + length xs) ys" using a by (simp add: stored_def drop_take ac_simps)
next
  assume "stored f p xs \<and> stored f (p + length xs) ys"
  then show "stored f p (xs @ ys)" by (simp add: stored_def take_add ac_simps)
qed

lemma stored_nth: "stored f p bs \<Longrightarrow> i < length bs \<Longrightarrow> f ! (p + i) = bs ! i \<and> p + i < length f"
proof -
  assume a: "stored f p bs" "i < length bs"
  then have "bs ! i = take (length bs) (drop p f) ! i" by (simp add: stored_def)
  then show ?thesis using a by (simp add: stored_def nth_take)
qed

lemma stored_rd: "stored f p bs \<Longrightarrow> i < length bs \<Longrightarrow> rd f (p + i) = Some (bs ! i)"
  using stored_nth by (simp add: rd_def)

lemma stored_ld: "stored f p bs \<Longrightarrow> ld_bytes f p (length bs) = Some bs"
  by (simp add: stored_def ld_bytes_def)

lemma stored_fdt32: "stored f p (be32 w) \<Longrightarrow> fdt32_at f p = Some w"
  using stored_rd [of f p "be32 w" 0] stored_rd [of f p "be32 w" 1] stored_rd [of f p "be32 w" 2] stored_rd [of f p "be32 w" 3]
  by (simp add: fdt32_at_def be32_def fdt32_to_cpu_be32)

lemma c_int_id: "0 \<le> x \<Longrightarrow> x < 2 ^ 31 \<Longrightarrow> c_int x = x"
  unfolding c_int_def int_word_sint by simp

lemma c_int_nat: "m < 2 ^ 31 \<Longrightarrow> c_int (int m) = int m"
  by (simp add: c_int_id)

subsection \<open>The structure block\<close>

text \<open>\<open>fdt_block f off n\<close>: the header of the blob is valid, all of the blob is there, and at least
  \<open>n\<close> bytes belong to its structure block, which begins at \<open>off\<close>.\<close>

definition fdt_block :: "u8 list \<Rightarrow> nat \<Rightarrow> nat \<Rightarrow> bool" where
  "fdt_block f off n \<longleftrightarrow>
     fdt_check_header f = Some 0 \<and> fdt_off_dt_struct f = Some (of_nat off)
     \<and> (\<exists>tot ver sz. fdt_totalsize f = Some tot \<and> fdt_version f = Some ver \<and> fdt_size_dt_struct f = Some sz
          \<and> off + n \<le> unat tot \<and> unat tot \<le> length f \<and> unat tot + 3 < 2 ^ 31 \<and> (0x11 \<le> ver \<longrightarrow> n \<le> unat sz))"

lemma word_nat_add:
  assumes "a + b < 2 ^ 32" shows "unat (of_nat a + of_nat b :: u32) = a + b"
  using assms by (simp add: unat_of_nat take_bit_nat_eq_self flip: of_nat_add)

lemma word_of_int_nat: "(word_of_int (int a) :: u32) = of_nat a"
  by simp

text \<open>\<open>fdt_offset_ptr\<close> never fails on such a blob: it gives the address, or a null pointer where the
  access would leave the blob.\<close>

lemma fdt_offset_ptr_total:
  assumes "fdt_block f off n" and "a < 2 ^ 31" and "b < 2 ^ 31"
  shows "fdt_offset_ptr f (int a) (of_nat b) = Some (Some (off + a)) \<and> off + a + b \<le> length f \<and> off + a + b + 3 < 2 ^ 31
    \<or> fdt_offset_ptr f (int a) (of_nat b) = Some None \<and> n < a + b"
proof -
  obtain tot ver sz where h: "fdt_off_dt_struct f = Some (of_nat off)" "fdt_totalsize f = Some tot" "fdt_version f = Some ver"
    "fdt_size_dt_struct f = Some sz" "off + n \<le> unat tot" "unat tot \<le> length f" "unat tot + 3 < 2 ^ 31" "0x11 \<le> ver \<longrightarrow> n \<le> unat sz"
    using assms(1) unfolding fdt_block_def by blast
  have u: "unat (of_nat off :: u32) = off" using h(5,7) by (simp add: unat_of_nat take_bit_nat_eq_self)
  have u2: "uint (of_nat off :: u32) = int off" by (simp only: uint_nat u)
  have raw: "fdt_offset_ptr_raw f (int a) = Some (off + a)"
    using u2 by (simp add: fdt_offset_ptr_raw_def h nat_add_distrib)
  have a: "unat (of_nat a + of_nat off :: u32) = off + a" "unat (of_nat a :: u32) = a"
    using h(5,7) assms(2) word_nat_add [of a off] by (simp_all add: unat_of_nat take_bit_nat_eq_self)
  have ab: "unat (of_nat a + of_nat b :: u32) = a + b" using assms by (intro word_nat_add) simp
  have eqs: "fdt_offset_ptr f (int a) (of_nat b) =
      (if (of_nat a + of_nat off + of_nat b :: u32) < of_nat a + of_nat off \<or> (of_nat a + of_nat off + of_nat b :: u32) > tot then Some None
       else if 0x11 \<le> ver \<and> a + b > unat sz then Some None else Some (Some (off + a)))"
    using a ab raw by (simp add: fdt_offset_ptr_def h word_less_nat_alt Let_def word_le_nat_alt)
  show ?thesis
  proof (cases "off + a + b < 2 ^ 32")
    case True
    then have "unat (of_nat a + of_nat off + of_nat b :: u32) = off + a + b"
      using word_nat_add [of "a + off" b] by (simp add: ac_simps)
    then show ?thesis unfolding eqs using a h by (auto simp: word_less_nat_alt)
  next
    case False
    have "(of_nat a + of_nat off + of_nat b :: u32) = of_nat (off + a + b)" by (simp add: ac_simps)
    then have "unat (of_nat a + of_nat off + of_nat b :: u32) = (off + a + b) mod 2 ^ 32"
      by (simp only: unat_of_nat) simp
    also have "\<dots> < off + a" using False assms h(5,7) by (simp add: mod_if) arith
    finally show ?thesis unfolding eqs using a False h by (auto simp: word_less_nat_alt)
  qed
qed

lemma fdt_offset_ptr_in:
  assumes "fdt_block f off n" and "a + b \<le> n"
  shows "fdt_offset_ptr f (int a) (of_nat b) = Some (Some (off + a))"
proof -
  have "n < 2 ^ 31" using assms(1) by (auto simp: fdt_block_def)
  with fdt_offset_ptr_total [OF assms(1), of a b] assms(2) show ?thesis by auto
qed

subsection \<open>Items\<close>

text \<open>The structure block is a sequence of items.\<close>

datatype dt_item = Dt_Begin "u8 list" | Dt_Prop u32 "u8 list" | Dt_Nop | Dt_End_node | Dt_End

definition dt_pad :: "nat \<Rightarrow> u8 list" where
  "dt_pad n = replicate ((4 - n mod 4) mod 4) 0"

fun dt_enc :: "dt_item \<Rightarrow> u8 list" where
  "dt_enc (Dt_Begin name) = be32 FDT_BEGIN_NODE @ name @ [0] @ dt_pad (length name + 1)"
| "dt_enc (Dt_Prop nameoff data) = be32 FDT_PROP @ be32 (of_nat (length data)) @ be32 nameoff @ data @ dt_pad (length data)"
| "dt_enc Dt_Nop = be32 FDT_NOP"
| "dt_enc Dt_End_node = be32 FDT_END_NODE"
| "dt_enc Dt_End = be32 FDT_END"

fun dt_tag :: "dt_item \<Rightarrow> u32" where
  "dt_tag (Dt_Begin name) = FDT_BEGIN_NODE"
| "dt_tag (Dt_Prop nameoff data) = FDT_PROP"
| "dt_tag Dt_Nop = FDT_NOP"
| "dt_tag Dt_End_node = FDT_END_NODE"
| "dt_tag Dt_End = FDT_END"

fun dt_ok :: "dt_item \<Rightarrow> bool" where
  "dt_ok (Dt_Begin name) \<longleftrightarrow> 0 \<notin> set name"
| "dt_ok _ \<longleftrightarrow> True"

text \<open>The items \<open>its\<close> are stored from offset \<open>o'\<close> of the structure block on.\<close>

definition dt_items :: "u8 list \<Rightarrow> nat \<Rightarrow> nat \<Rightarrow> nat \<Rightarrow> dt_item list \<Rightarrow> bool" where
  "dt_items f off n a its \<longleftrightarrow>
     fdt_block f off n \<and> stored f (off + a) (concat (map dt_enc its)) \<and> a + length (concat (map dt_enc its)) \<le> n
     \<and> 4 dvd a \<and> (\<forall>it \<in> set its. dt_ok it)"

definition dt_size :: "dt_item list \<Rightarrow> nat" where
  "dt_size its = length (concat (map dt_enc its))"

lemma dt_size_simps [simp]:
  "dt_size [] = 0" "dt_size (it # its) = length (dt_enc it) + dt_size its" "dt_size (its @ its') = dt_size its + dt_size its'"
  by (simp_all add: dt_size_def)

lemma dt_pad_dvd: "4 dvd n + length (dt_pad n)"
proof -
  have "n = 4 * (n div 4) + n mod 4" "n mod 4 < 4" by simp_all
  then obtain q r where n: "n = 4 * q + r" and r: "r < 4" by blast
  have "n mod 4 = r" using n r by simp
  then have l: "length (dt_pad n) = (4 - r) mod 4" by (simp add: dt_pad_def)
  from r consider "r = 0" | "r = 1" | "r = 2" | "r = 3" by force
  then have "n + length (dt_pad n) = 4 * q \<or> n + length (dt_pad n) = 4 * (q + 1)" unfolding l by cases (simp_all add: n)
  then show ?thesis by (metis dvd_triv_left)
qed

lemma dt_enc_dvd: "4 dvd length (dt_enc it)"
proof (cases it)
  case (Dt_Begin name)
  then show ?thesis using dvd_add [OF _ dt_pad_dvd [of "length name + 1"], of 4] by (simp add: ac_simps)
next
  case (Dt_Prop k data)
  then show ?thesis using dvd_add [OF _ dt_pad_dvd [of "length data"], of 12] by (simp add: ac_simps)
qed simp_all

lemma dt_size_dvd: "4 dvd dt_size its"
  using dt_enc_dvd by (induction its) (simp_all add: dvd_add)

lemma dt_items_append:
  "dt_items f off n a (its @ its') \<Longrightarrow> dt_items f off n a its \<and> dt_items f off n (a + dt_size its) its'"
  using dt_size_dvd [of its] by (auto simp: dt_items_def stored_append dt_size_def ac_simps)

lemma dt_items_Cons:
  "dt_items f off n a (it # its) \<Longrightarrow> dt_items f off n a [it] \<and> dt_items f off n (a + length (dt_enc it)) its"
  using dt_items_append [of f off n a "[it]" its] by simp

lemma dt_items_bound: "dt_items f off n a its \<Longrightarrow> a + dt_size its < 2 ^ 31"
  by (auto simp: dt_items_def fdt_block_def dt_size_def)

subsection \<open>Reading an item\<close>

lemma skip_name_stored:
  assumes "fdt_block f off n"
  shows "stored f (off + a) (name @ [0]) \<Longrightarrow> 0 \<notin> set name \<Longrightarrow> a + length name + 1 \<le> n \<Longrightarrow>
    skip_name f (int a) = Some (Some (int (a + length name + 1)))"
proof (induction name arbitrary: a)
  case Nil
  then have "a < 2 ^ 31 - 1" using assms by (auto simp: fdt_block_def)
  then show ?case using Nil fdt_offset_ptr_in [OF assms, of a 1] stored_rd [of f "off + a" "[0]" 0]
    by (subst skip_name.simps) simp
next
  case (Cons c cs)
  have b: "a < 2 ^ 31 - 1" using assms Cons.prems(3) by (auto simp: fdt_block_def)
  have s: "stored f (off + a) [c]" "stored f (off + Suc a) (cs @ [0])"
    using Cons.prems(1) stored_append [of f "off + a" "[c]" "cs @ [0]"] by simp_all
  have "skip_name f (int (Suc a)) = Some (Some (int (Suc a + length cs + 1)))"
    using s(2) Cons.prems by (intro Cons.IH) simp_all
  then have "skip_name f (int a + 1) = Some (Some (int (a + length (c # cs) + 1)))" by (simp add: ac_simps)
  then show ?case using b Cons.prems fdt_offset_ptr_in [OF assms, of a 1] stored_rd [OF s(1), of 0]
    by (subst skip_name.simps) simp
qed

lemma tagalign_pad: "b + length (dt_pad b) < 2 ^ 31 \<Longrightarrow> FDT_TAGALIGN (int b) = int (b + length (dt_pad b))"
proof -
  assume a: "b + length (dt_pad b) < 2 ^ 31"
  obtain k where k: "b + length (dt_pad b) = 4 * k" using dt_pad_dvd by (auto elim: dvdE)
  have "length (dt_pad b) < 4" by (simp add: dt_pad_def)
  then have "(int b + 3) div 4 = int k" using k by linarith
  then have "FDT_TAGALIGN (int b) = c_int (int (4 * k))" by (simp add: FDT_TAGALIGN_def mult.commute)
  then show ?thesis using a k by (simp add: c_int_id)
qed

lemma tagalign_dvd: "4 dvd b \<Longrightarrow> b < 2 ^ 31 \<Longrightarrow> FDT_TAGALIGN (int b) = int b"
  by (auto simp: FDT_TAGALIGN_def c_int_id elim!: dvdE)

lemma dt_pad_shift: "4 dvd a \<Longrightarrow> dt_pad (a + b) = dt_pad b"
  by (auto simp: dt_pad_def elim!: dvdE)

text \<open>\<open>fdt_next_tag\<close> on the end of the payload.\<close>

lemma next_tag_from_end:
  assumes "fdt_block f off n" and "stored f (off + a) (be32 tag)" and "a + 4 \<le> b" and "b \<le> n"
    and "tag_end f tag (int (a + 4)) = Some (Some (int b))"
  shows "fdt_next_tag f (int a) = Some (tag, FDT_TAGALIGN (int b))"
proof -
  have n: "n < 2 ^ 31" using assms(1) by (auto simp: fdt_block_def)
  have "c_int (int a + 4) = int (a + 4)" using assms n c_int_id [of "int (a + 4)"] by simp
  moreover have "c_sub (int b) (int a) = Some (int (b - a))" using assms n by (simp add: c_sub_def of_nat_diff)
  ultimately show ?thesis
    using fdt_offset_ptr_in [OF assms(1), of a 4] fdt_offset_ptr_in [OF assms(1), of a "b - a"] assms stored_fdt32 [OF assms(2)]
    by (simp add: fdt_next_tag_def)
qed

lemma next_tag_item:
  assumes "dt_items f off n a [it]"
  shows "fdt_next_tag f (int a) = Some (dt_tag it, int (a + length (dt_enc it)))"
proof -
  have b: "fdt_block f off n" and s: "stored f (off + a) (dt_enc it)" and l: "a + length (dt_enc it) \<le> n" and d: "4 dvd a" and k: "dt_ok it"
    using assms by (auto simp: dt_items_def)
  have n: "n < 2 ^ 31" using b by (auto simp: fdt_block_def)
  show ?thesis
  proof (cases it)
    case (Dt_Begin name)
    have s': "stored f (off + a) (be32 1)" "stored f (off + (a + 4)) (name @ [0])"
      using s by (auto simp only: Dt_Begin dt_enc.simps stored_append length_be32 add.assoc)
    let ?b = "a + 4 + (length name + 1)"
    have lb: "?b + length (dt_pad ?b) = a + length (dt_enc it)" using d dt_pad_shift [of "a + 4" "length name + 1"] by (simp add: Dt_Begin)
    have "skip_name f (int (a + 4)) = Some (Some (int ?b))"
      using skip_name_stored [OF b s'(2)] k lb l by (simp add: Dt_Begin add.assoc)
    then have "tag_end f 1 (int (a + 4)) = Some (Some (int ?b))" by (simp add: tag_end_def)
    from next_tag_from_end [OF b s'(1) _ _ this] show ?thesis
      using lb l n tagalign_pad [of ?b] by (simp add: Dt_Begin)
  next
    case (Dt_Prop nameoff data)
    have s': "stored f (off + a) (be32 3)" "stored f (off + (a + 4)) (be32 (of_nat (length data)))"
      using s by (simp_all add: Dt_Prop stored_append add.assoc)
    have u: "uint (of_nat (length data) :: u32) = int (length data)"
      using l n Dt_Prop by (simp only: uint_nat unat_of_nat) simp
    let ?b = "a + 12 + length data"
    have lb: "?b + length (dt_pad ?b) = a + length (dt_enc it)" using d dt_pad_shift [of "a + 12" "length data"] by (simp add: Dt_Prop)
    have "c_int (int ?b) = int ?b" using lb l n by (intro c_int_id) simp_all
    then have "tag_end f 3 (int (a + 4)) = Some (Some (int ?b))"
      using fdt_offset_ptr_in [OF b, of "a + 4" 4] stored_fdt32 [OF s'(2)] lb l u by (simp add: tag_end_def add.assoc)
    from next_tag_from_end [OF b s'(1) _ _ this] show ?thesis
      using lb l n tagalign_pad [of ?b] by (simp add: Dt_Prop)
  qed (use s l n d next_tag_from_end [OF b, of a _ "a + 4"] tagalign_dvd [of "a + 4"] in \<open>simp_all add: tag_end_def\<close>)
qed

subsection \<open>Trees\<close>

text \<open>A node has a name, properties (the offset of the name and the value; \<open>None\<close> is a \<open>FDT_NOP\<close> between
  them) and children.\<close>

datatype dt_node = Dt_Node (dn_name: "u8 list") (dn_props: "(u32 \<times> u8 list) option list") (dn_children: "dt_node list")

definition prop_item :: "(u32 \<times> u8 list) option \<Rightarrow> dt_item" where
  "prop_item p = (case p of None \<Rightarrow> Dt_Nop | Some (k, data) \<Rightarrow> Dt_Prop k data)"

fun dt_flat :: "dt_node \<Rightarrow> dt_item list" where
  "dt_flat (Dt_Node name props children) =
     Dt_Begin name # map prop_item props @ concat (map dt_flat children) @ [Dt_End_node]"

lemma dt_tag_prop_item: "dt_tag (prop_item p) = (if p = None then FDT_NOP else FDT_PROP)"
  by (auto simp: prop_item_def split: option.split)

text \<open>A name in a path stands for the node with this name, or, when it has no unit address, for one with
  this name and any unit address.\<close>

definition name_matches :: "u8 list \<Rightarrow> u8 list \<Rightarrow> bool" where
  "name_matches s name \<longleftrightarrow>
     length s \<le> length name \<and> take (length s) name = s \<and> (length name = length s \<or> 64 \<notin> set s \<and> name ! length s = 64)"

lemma begin_stored:
  assumes "dt_items f off n a [Dt_Begin name]"
  shows "fdt_block f off n \<and> stored f (off + (a + 4)) (name @ [0]) \<and> a + 4 + length name + 1 \<le> n \<and> 0 \<notin> set name"
proof -
  have "stored f (off + a) (dt_enc (Dt_Begin name))" using assms by (simp add: dt_items_def)
  then have "stored f (off + (a + 4)) (name @ [0])" by (auto simp only: dt_enc.simps stored_append length_be32 add.assoc)
  then show ?thesis using assms by (simp add: dt_items_def)
qed

lemma nodename_eq_matches:
  assumes "dt_items f off n a [Dt_Begin name]" and "0 \<notin> set s" and "length s < 2 ^ 31 - 1"
  shows "fdt_nodename_eq f (int a) s = Some (name_matches s name)"
proof -
  have b: "fdt_block f off n" and st: "stored f (off + (a + 4)) (name @ [0])" and l: "a + 4 + length name + 1 \<le> n" and k: "0 \<notin> set name"
    using begin_stored [OF assms(1)] by auto
  have n: "n < 2 ^ 31" using b by (auto simp: fdt_block_def)
  define p where "p = off + (a + 4)"
  let ?ptr = "fdt_offset_ptr f (c_int (int a + 4)) (of_nat (length s) + 1)"
  have ptr: "fdt_offset_ptr f (int (a + 4)) (of_nat (length s + 1)) = ?ptr"
    using l n c_int_id [of "int (a + 4)"] by (simp add: ac_simps)
  note st = st [folded p_def]
  consider "length s \<le> length name" | "length name < length s" by linarith
  then show ?thesis
  proof cases
    case 1
    have "?ptr = Some (Some p)"
      unfolding ptr [symmetric] p_def using 1 l by (intro fdt_offset_ptr_in [OF b]) simp
    moreover have "stored f p (take (length s) name @ (drop (length s) name @ [0]))" using st by (simp flip: append_assoc)
    then have "stored f p (take (length s) name)" by (simp only: stored_append)
    from stored_ld [OF this] have "ld_bytes f p (length s) = Some (take (length s) name)" using 1 by simp
    moreover have "rd f (p + length s) = Some ((name @ [0]) ! length s)"
      using stored_rd [OF st, of "length s"] 1 by simp
    ultimately have e: "fdt_nodename_eq f (int a) s =
        Some (take (length s) name = s \<and> ((name @ [0]) ! length s = 0 \<or> 64 \<notin> set s \<and> (name @ [0]) ! length s = 64))"
      by (simp add: fdt_nodename_eq_def)
    have "(name @ [0]) ! length s = 0 \<longleftrightarrow> length name = length s"
      using 1 k by (auto simp: nth_append in_set_conv_nth)
    moreover have "length name \<noteq> length s \<Longrightarrow> (name @ [0]) ! length s = name ! length s" using 1 by (simp add: nth_append)
    ultimately show ?thesis unfolding e name_matches_def using 1 by auto
  next
    case 2
    have no: "\<not> name_matches s name" using 2 by (simp add: name_matches_def)
    from fdt_offset_ptr_total [OF b, of "a + 4" "length s + 1"] l n assms(3)
    consider "?ptr = Some (Some p)" "p + (length s + 1) \<le> length f" | "?ptr = Some None"
      unfolding ptr [symmetric] p_def by force
    then show ?thesis
    proof cases
      case 1
      let ?bs = "take (length s) (drop p f)"
      have "?bs ! length name = 0" using stored_nth [OF st, of "length name"] 2 1 by simp
      moreover have "length name < length ?bs" using 1(2) 2 by simp
      ultimately have "?bs \<noteq> s" using assms(2) nth_mem by metis
      then show ?thesis using 1 no by (simp add: fdt_nodename_eq_def ld_bytes_def)
    qed (use no in \<open>simp add: fdt_nodename_eq_def\<close>)
  qed
qed

subsection \<open>Walking over nodes\<close>

lemma next_tag_Cons:
  "dt_items f off n a (it # its) \<Longrightarrow> fdt_next_tag f (int a) = Some (dt_tag it, int (a + length (dt_enc it)))"
  using next_tag_item dt_items_Cons by blast

lemma node_loop_begin:
  "dt_items f off n a (Dt_Begin name # its) \<Longrightarrow> next_node_loop f (int a) (Some d) = Some (int a, Some (d + 1))"
  using next_tag_Cons by (subst next_node_loop.simps) simp

lemma node_loop_end:
  "dt_items f off n a (Dt_End_node # its) \<Longrightarrow>
    next_node_loop f (int a) (Some d) = (if d \<le> 0 then Some (int (a + 4), Some (d - 1)) else next_node_loop f (int (a + 4)) (Some (d - 1)))"
  using next_tag_Cons [of f off n a Dt_End_node its] by (subst next_node_loop.simps) simp

lemma node_loop_props:
  "dt_items f off n a (map prop_item ps @ its) \<Longrightarrow>
    next_node_loop f (int a) (Some d) = next_node_loop f (int (a + dt_size (map prop_item ps))) (Some d)"
proof (induction ps arbitrary: a)
  case (Cons p ps)
  then have i: "dt_items f off n a (prop_item p # map prop_item ps @ its)" by simp
  have "next_node_loop f (int a) (Some d) = next_node_loop f (int (a + length (dt_enc (prop_item p)))) (Some d)"
    using next_tag_Cons [OF i] by (subst next_node_loop.simps) (simp add: dt_tag_prop_item)
  also have "\<dots> = next_node_loop f (int (a + length (dt_enc (prop_item p)) + dt_size (map prop_item ps))) (Some d)"
    using Cons.IH dt_items_Cons [OF i] by blast
  finally show ?case by (simp add: add.assoc)
qed simp

lemma check_node_offset_begin:
  assumes "dt_items f off n a (Dt_Begin name # its)"
  shows "fdt_check_node_offset f (int a) = Some (int (a + length (dt_enc (Dt_Begin name))))"
proof -
  have "int a mod 4 = 0" using assms by (auto simp: dt_items_def elim!: dvdE)
  then show ?thesis using next_tag_Cons [OF assms] by (simp add: fdt_check_node_offset_def fdt_check_tag_offset_def)
qed

text \<open>The search goes on behind an offset.\<close>

definition search_from :: "u8 list \<Rightarrow> nat \<Rightarrow> int \<Rightarrow> u8 list \<Rightarrow> int option" where
  "search_from f a d s = Option.bind (next_node_loop f (int a) (Some d)) (\<lambda>(offset, depth). subnode_loop f offset (the depth) s)"

text \<open>A node is given by its items.\<close>

definition node_len :: "dt_node \<Rightarrow> nat" where
  "node_len t = dt_size (dt_flat t)"

definition body_at :: "nat \<Rightarrow> dt_node \<Rightarrow> nat" where
  "body_at a t = a + length (dt_enc (Dt_Begin (dn_name t))) + dt_size (map prop_item (dn_props t))"

lemma body_items:
  assumes "dt_items f off n a (dt_flat t @ its)"
  shows "dt_items f off n (body_at a t) (concat (map dt_flat (dn_children t)) @ Dt_End_node # its)"
proof -
  obtain name ps cs where t: "t = Dt_Node name ps cs" by (cases t)
  from assms have "dt_items f off n a ((Dt_Begin name # map prop_item ps) @ concat (map dt_flat cs) @ Dt_End_node # its)" by (simp add: t)
  from dt_items_append [OF this] show ?thesis by (simp add: body_at_def t add.assoc)
qed

lemma body_len: "a + node_len t = body_at a t + dt_size (concat (map dt_flat (dn_children t))) + 4"
  by (cases t) (simp add: node_len_def body_at_def)

lemma next_node_of_node:
  assumes "dt_items f off n a (dt_flat t @ its)"
  shows "fdt_next_node f (int a) (Some d) = next_node_loop f (int (body_at a t)) (Some d)"
proof -
  obtain name ps cs where t: "t = Dt_Node name ps cs" by (cases t)
  from assms have i: "dt_items f off n a (Dt_Begin name # map prop_item ps @ concat (map dt_flat cs) @ Dt_End_node # its)" by (simp add: t)
  from node_loop_props [OF conjunct2 [OF dt_items_Cons [OF i]]] check_node_offset_begin [OF i]
  show ?thesis by (simp add: fdt_next_node_def body_at_def t add.assoc)
qed

text \<open>A subtree below the children, or a child with another name, is passed over.\<close>

lemma search_end:
  "dt_items f off n a (Dt_End_node # its) \<Longrightarrow> 0 < d \<Longrightarrow> search_from f a d s = search_from f (a + 4) (d - 1) s"
  by (simp add: search_from_def node_loop_end)

lemma subnode_loop_next:
  assumes "dt_items f off n a (dt_flat t @ its)" and "0 \<le> d" and "d = 1 \<longrightarrow> \<not> name_matches s (dn_name t)" and "0 \<notin> set s" and "length s < 2 ^ 31 - 1"
  shows "subnode_loop f (int a) d s = search_from f (body_at a t) d s"
proof -
  have "dt_items f off n a [Dt_Begin (dn_name t)]" using dt_items_Cons assms(1) by (cases t) fastforce
  from nodename_eq_matches [OF this assms(4,5)]
  have "(if d = 1 then fdt_nodename_eq f (int a) s else Some False) = Some False" using assms(3) by simp
  then show ?thesis using next_node_of_node [OF assms(1), of d] assms(2)
    by (subst subnode_loop.simps) (simp add: search_from_def)
qed

lemma children_skipped:
  assumes "\<And>c its a. c \<in> set cs \<Longrightarrow> dt_items f off n a (dt_flat c @ its) \<Longrightarrow> subnode_loop f (int a) (d + 1) s = search_from f (a + node_len c) d s"
  shows "dt_items f off n a (concat (map dt_flat cs) @ its) \<Longrightarrow>
    search_from f a d s = search_from f (a + dt_size (concat (map dt_flat cs))) d s"
  using assms
proof (induction cs arbitrary: a)
  case (Cons c cs)
  have i: "dt_items f off n a (dt_flat c @ concat (map dt_flat cs) @ its)" using Cons.prems(1) by simp
  obtain nm rest where "dt_flat c = Dt_Begin nm # rest" by (cases c) simp
  with i have "next_node_loop f (int a) (Some d) = Some (int a, Some (d + 1))" using node_loop_begin by simp
  then have "search_from f a d s = subnode_loop f (int a) (d + 1) s" by (simp add: search_from_def)
  also have "\<dots> = search_from f (a + node_len c) d s" using Cons.prems(2) i by simp
  also have "\<dots> = search_from f (a + node_len c + dt_size (concat (map dt_flat cs))) d s"
    using conjunct2 [OF dt_items_append [OF i]] Cons.prems(2) by (intro Cons.IH) (simp_all add: node_len_def)
  finally show ?case by (simp add: node_len_def add.assoc)
qed simp

lemma subtree_skipped:
  assumes "0 \<notin> set s" and "length s < 2 ^ 31 - 1"
  shows "dt_items f off n a (dt_flat t @ its) \<Longrightarrow> 1 \<le> d \<Longrightarrow> (d = 1 \<longrightarrow> \<not> name_matches s (dn_name t)) \<Longrightarrow>
    subnode_loop f (int a) d s = search_from f (a + node_len t) (d - 1) s"
proof (induction t arbitrary: a its d)
  case (Dt_Node name ps cs)
  let ?t = "Dt_Node name ps cs"
  have "subnode_loop f (int a) d s = search_from f (body_at a ?t) d s"
    using subnode_loop_next [OF Dt_Node.prems(1)] Dt_Node.prems assms by simp
  also have "\<dots> = search_from f (body_at a ?t + dt_size (concat (map dt_flat cs))) d s"
  proof (rule children_skipped)
    show "dt_items f off n (body_at a ?t) (concat (map dt_flat cs) @ Dt_End_node # its)" using body_items [OF Dt_Node.prems(1)] by simp
    show "subnode_loop f (int a) (d + 1) s = search_from f (a + node_len c) d s"
      if "c \<in> set cs" "dt_items f off n a (dt_flat c @ its)" for c its a
      using Dt_Node.IH [OF that(1,2), of "d + 1"] Dt_Node.prems(2) by simp
  qed
  also have "\<dots> = search_from f (a + node_len ?t) (d - 1) s"
  proof -
    have "dt_items f off n (body_at a ?t + dt_size (concat (map dt_flat cs))) (Dt_End_node # its)"
      using dt_items_append [OF body_items [OF Dt_Node.prems(1)]] by simp
    from search_end [OF this] show ?thesis using Dt_Node.prems(2) body_len [of a ?t] by simp
  qed
  finally show ?case .
qed

subsection \<open>Paths\<close>

text \<open>What a path means: at every step the first child that matches.\<close>

fun dt_resolve :: "u8 list list \<Rightarrow> dt_node \<Rightarrow> dt_node option" where
  "dt_resolve [] t = Some t"
| "dt_resolve (s # ss) t =
     (case find (\<lambda>c. name_matches s (dn_name c)) (dn_children t) of None \<Rightarrow> None | Some c \<Rightarrow> dt_resolve ss c)"

definition path_bytes :: "u8 list list \<Rightarrow> u8 list" where
  "path_bytes ss = concat (map (\<lambda>s. 47 # s) ss)"

definition component_ok :: "u8 list \<Rightarrow> bool" where
  "component_ok s \<longleftrightarrow> s \<noteq> [] \<and> 0 \<notin> set s \<and> 47 \<notin> set s \<and> length s < 2 ^ 31 - 1"

text \<open>A search that ends at the node \<open>u\<close>, or finds nothing.\<close>

definition found :: "u8 list \<Rightarrow> nat \<Rightarrow> nat \<Rightarrow> int option \<Rightarrow> dt_node option \<Rightarrow> bool" where
  "found f off n r u \<longleftrightarrow>
     (case u of None \<Rightarrow> r = Some (- FDT_ERR_NOTFOUND)
      | Some u \<Rightarrow> \<exists>b its. r = Some (int b) \<and> dt_items f off n b (dt_flat u @ its))"

lemma children_searched:
  assumes "0 \<notin> set s" and "length s < 2 ^ 31 - 1"
  shows "dt_items f off n a (concat (map dt_flat cs) @ Dt_End_node # its) \<Longrightarrow>
    found f off n (search_from f a 0 s) (find (\<lambda>c. name_matches s (dn_name c)) cs)"
proof (induction cs arbitrary: a)
  case Nil
  then have "search_from f a 0 s = subnode_loop f (int (a + 4)) (- 1) s" using node_loop_end by (simp add: search_from_def)
  then show ?case by (simp add: found_def subnode_loop.simps)
next
  case (Cons c cs)
  have i: "dt_items f off n a (dt_flat c @ concat (map dt_flat cs) @ Dt_End_node # its)" using Cons.prems by simp
  obtain nm rest where nm: "dt_flat c = Dt_Begin nm # rest" "dn_name c = nm" by (cases c) simp
  with i have "next_node_loop f (int a) (Some 0) = Some (int a, Some (0 + 1))" using node_loop_begin by (metis append_Cons)
  then have e: "search_from f a 0 s = subnode_loop f (int a) 1 s" by (simp add: search_from_def)
  show ?case
  proof (cases "name_matches s nm")
    case True
    have "dt_items f off n a [Dt_Begin nm]" using dt_items_Cons i nm by simp
    then have "subnode_loop f (int a) 1 s = Some (int a)"
      using nodename_eq_matches assms True by (subst subnode_loop.simps) simp
    then show ?thesis using True i nm e by (auto simp: found_def)
  next
    case False
    have "search_from f a 0 s = search_from f (a + node_len c) 0 s"
      using subtree_skipped [OF assms i, of 1] False nm e by simp
    moreover have "dt_items f off n (a + node_len c) (concat (map dt_flat cs) @ Dt_End_node # its)"
      using dt_items_append [OF i] by (simp add: node_len_def)
    ultimately show ?thesis using Cons.IH False nm by simp
  qed
qed

lemma dt_items_header: "dt_items f off n a its \<Longrightarrow> fdt_check_header f = Some 0"
  by (simp add: dt_items_def fdt_block_def)

lemma subnode_found:
  assumes "dt_items f off n a (dt_flat t @ its)" and "component_ok s"
  shows "found f off n (fdt_subnode_offset_namelen f (int a) s) (find (\<lambda>c. name_matches s (dn_name c)) (dn_children t))"
proof -
  have "fdt_subnode_offset_namelen f (int a) s = subnode_loop f (int a) 0 s"
    using dt_items_header [OF assms(1)] by (simp add: fdt_subnode_offset_namelen_def)
  also have "\<dots> = search_from f (body_at a t) 0 s"
    using assms(2) by (intro subnode_loop_next [OF assms(1)]) (simp_all add: component_ok_def)
  finally show ?thesis using children_searched body_items [OF assms(1)] assms(2) by (simp add: component_ok_def)
qed

lemma path_found:
  assumes "list_all component_ok ss"
  shows "dt_items f off n a (dt_flat t @ its) \<Longrightarrow> found f off n (path_loop f (path_bytes ss) (int a)) (dt_resolve ss t)"
  using assms
proof (induction ss arbitrary: a t its)
  case Nil
  then show ?case by (auto simp: path_bytes_def found_def)
next
  case (Cons s ss)
  obtain c s' where s: "s = c # s'" "c \<noteq> 47" "47 \<notin> set s" using Cons.prems by (cases s) (auto simp: component_ok_def)
  have p: "path_bytes (s # ss) = 47 # s @ path_bytes ss" by (simp add: path_bytes_def)
  have w: "takeWhile (\<lambda>b. b \<noteq> 47) (s @ path_bytes ss) = s" "dropWhile (\<lambda>b. b \<noteq> 47) (s @ path_bytes ss) = path_bytes ss"
    using s(3) by (cases ss; force simp: path_bytes_def takeWhile_append dropWhile_append)+
  have e: "path_loop f (path_bytes (s # ss)) (int a) =
      do { offset \<leftarrow> fdt_subnode_offset_namelen f (int a) s; if offset < 0 then Some offset else path_loop f (path_bytes ss) offset }"
  proof -
    have q: "takeWhile (\<lambda>b. b \<noteq> 47) (c # s' @ path_bytes ss) = s" "dropWhile (\<lambda>b. b \<noteq> 47) (c # s' @ path_bytes ss) = path_bytes ss"
      using w by (simp_all only: s(1) append_Cons)
    show ?thesis unfolding p using s(2) by (simp only: s(1) append_Cons path_loop.simps simp_thms if_True if_False q [unfolded s(1)])
  qed
  from subnode_found [OF Cons.prems(1), of s] Cons.prems(2)
  have sub: "found f off n (fdt_subnode_offset_namelen f (int a) s) (find (\<lambda>c. name_matches s (dn_name c)) (dn_children t))" by simp
  show ?case
  proof (cases "find (\<lambda>c. name_matches s (dn_name c)) (dn_children t)")
    case None
    then show ?thesis using sub e by (simp add: found_def)
  next
    case (Some u)
    then obtain b its' where b: "fdt_subnode_offset_namelen f (int a) s = Some (int b)" "dt_items f off n b (dt_flat u @ its')"
      using sub by (auto simp: found_def)
    from b(1) e have "path_loop f (path_bytes (s # ss)) (int a) = path_loop f (path_bytes ss) (int b)" by simp
    then show ?thesis using Cons.IH [OF b(2)] Cons.prems(2) Some by simp
  qed
qed

subsection \<open>Properties of a node\<close>

definition prop_name :: "u8 list \<Rightarrow> u32 \<Rightarrow> u8 list option" where
  "prop_name f k =
     do { strings \<leftarrow> fdt_off_dt_strings f;
          let p = unat strings + unat k;
          l \<leftarrow> strlen (drop p f);
          Some (take l (drop p f)) }"

fun props_of :: "(u32 \<times> u8 list) option list \<Rightarrow> (u32 \<times> u8 list) list" where
  "props_of [] = []"
| "props_of (None # ps) = props_of ps"
| "props_of (Some p # ps) = p # props_of ps"

text \<open>The value of a property: that of the first one with the name.\<close>

definition dt_prop :: "u8 list \<Rightarrow> dt_node \<Rightarrow> u8 list \<Rightarrow> u8 list option" where
  "dt_prop f t s = map_option snd (find (\<lambda>(k, data). prop_name f k = Some s) (props_of (dn_props t)))"

definition names_ok :: "u8 list \<Rightarrow> (u32 \<times> u8 list) option list \<Rightarrow> bool" where
  "names_ok f ps \<longleftrightarrow> (\<forall>k data. Some (k, data) \<in> set ps \<longrightarrow> unat k < 2 ^ 31 \<and> prop_name f k \<noteq> None)"

lemma string_eq_name:
  assumes "unat k < 2 ^ 31" and "prop_name f k \<noteq> None"
  shows "fdt_string_eq f (c_int (uint k)) s = Some (prop_name f k = Some s)"
proof -
  have k: "uint k = int (unat k)" by (rule uint_nat)
  have c: "c_int (uint k) = int (unat k)" unfolding k by (rule c_int_nat [OF assms(1)])
  obtain so l where so: "fdt_off_dt_strings f = Some so" "strlen (drop (unat so + unat k) f) = Some l"
    "prop_name f k = Some (take l (drop (unat so + unat k) f))"
    using assms(2) by (auto simp: prop_name_def Let_def split: Option.bind_splits)
  let ?p = "unat so + unat k"
  have "uint so = int (unat so)" by (rule uint_nat)
  then have p: "fdt_string f (c_int (uint k)) = Some ?p"
    unfolding fdt_string_def c so by (simp add: nat_add_distrib not_less)
  have "l < length (drop ?p f)" using strlen_from_SomeD [OF so(2) [unfolded strlen_def]] by blast
  then have l: "?p + l < length f" by (simp add: less_diff_conv ac_simps)
  then have "length (take l (drop ?p f)) = l" by simp
  then show ?thesis using p so l by (auto simp: fdt_string_eq_def ld_bytes_def)
qed

lemma prop_stored:
  assumes "dt_items f off n a (Dt_Prop k data # its)"
  shows "fdt32_at f (off + a + 4) = Some (of_nat (length data)) \<and> fdt32_at f (off + a + 8) = Some k \<and> stored f (off + a + 12) data
    \<and> length data < 2 ^ 31"
proof -
  have "stored f (off + a) (dt_enc (Dt_Prop k data))" using dt_items_Cons [OF assms] by (simp add: dt_items_def)
  moreover have "length data < 2 ^ 31" using dt_items_bound [OF assms] by simp
  ultimately show ?thesis by (auto simp: stored_append add.assoc intro: stored_fdt32)
qed

lemma check_prop_offset_prop:
  assumes "dt_items f off n a (Dt_Prop k data # its)"
  shows "fdt_check_prop_offset f (int a) = Some (int (a + length (dt_enc (Dt_Prop k data))))"
proof -
  have "int a mod 4 = 0" using assms by (auto simp: dt_items_def elim!: dvdE)
  then show ?thesis using next_tag_Cons [OF assms] by (simp add: fdt_check_prop_offset_def fdt_check_tag_offset_def)
qed

lemma offset_ptr_raw_items:
  assumes "dt_items f off n a its"
  shows "fdt_offset_ptr_raw f (int a) = Some (off + a)"
proof -
  have "off < 2 ^ 31" "fdt_off_dt_struct f = Some (of_nat off)" using assms by (auto simp: dt_items_def fdt_block_def)
  moreover from this have "uint (of_nat off :: u32) = int off" by (simp only: uint_nat unat_of_nat) simp
  ultimately show ?thesis by (simp add: fdt_offset_ptr_raw_def nat_int_add)
qed

lemma get_property_by_offset_prop:
  assumes "dt_items f off n a (Dt_Prop k data # its)"
  shows "fdt_get_property_by_offset f (int a) = Some (Some (off + a), int (length data))"
proof -
  have "uint (of_nat (length data) :: u32) = int (length data)"
    using prop_stored [OF assms] by (simp only: uint_nat unat_of_nat) simp
  then show ?thesis
    using prop_stored [OF assms] check_prop_offset_prop [OF assms] offset_ptr_raw_items [OF assms] c_int_id [of "int (length data)"]
    by (simp add: fdt_get_property_by_offset_def)
qed

text \<open>The search for a property among those from \<open>a\<close> on.\<close>

definition property_from :: "u8 list \<Rightarrow> nat \<Rightarrow> u8 list \<Rightarrow> (nat option \<times> int) option" where
  "property_from f a s = do { b \<leftarrow> nextprop f (int a); property_loop f b s }"

definition property_is :: "u8 list \<Rightarrow> nat \<Rightarrow> (nat option \<times> int) option \<Rightarrow> (u32 \<times> u8 list) option \<Rightarrow> bool" where
  "property_is f d r p \<longleftrightarrow>
     (case p of None \<Rightarrow> r = Some (None, - FDT_ERR_NOTFOUND)
      | Some (k, data) \<Rightarrow> \<exists>b. r = Some (Some b, int (length data)) \<and> stored f (b + d) data)"

lemma property_found:
  assumes "hd its \<in> range Dt_Begin \<union> {Dt_End_node}" and "its \<noteq> []"
  shows "dt_items f off n a (map prop_item ps @ its) \<Longrightarrow> names_ok f ps \<Longrightarrow>
    property_is f 12 (property_from f a s) (find (\<lambda>(k, data). prop_name f k = Some s) (props_of ps))"
proof (induction ps arbitrary: a)
  case Nil
  obtain it its' where its: "its = it # its'" using assms(2) by (cases its) auto
  have "nextprop f (int a) = Some (- FDT_ERR_NOTFOUND)"
    using next_tag_Cons [of f off n a it its'] Nil assms(1) its by (subst nextprop.simps) auto
  then show ?case by (simp add: property_loop.simps property_from_def property_is_def)
next
  case (Cons p ps)
  let ?b = "a + length (dt_enc (prop_item p))"
  have i: "dt_items f off n a (prop_item p # map prop_item ps @ its)" using Cons.prems by simp
  have IH: "property_is f 12 (property_from f ?b s) (find (\<lambda>(k, data). prop_name f k = Some s) (props_of ps))"
    using dt_items_Cons [OF i] Cons.prems(2) by (intro Cons.IH) (auto simp: names_ok_def)
  show ?case
  proof (cases p)
    case None
    have "nextprop f (int a) = nextprop f (int ?b)"
      using next_tag_Cons [OF i] None by (subst nextprop.simps) (simp add: dt_tag_prop_item)
    then have "property_from f a s = property_from f ?b s" by (simp only: property_from_def)
    then show ?thesis using IH None by (simp only: props_of.simps)
  next
    case (Some q)
    obtain k data where q: "p = Some (k, data)" using Some by (cases q) auto
    have i': "dt_items f off n a (Dt_Prop k data # map prop_item ps @ its)" using i q by (simp add: prop_item_def)
    have np: "nextprop f (int a) = Some (int a)"
      using next_tag_Cons [OF i'] by (subst nextprop.simps) simp
    have k: "unat k < 2 ^ 31" "prop_name f k \<noteq> None" using Cons.prems(2) q by (auto simp: names_ok_def)
    have "fdt_next_property_offset f (int a) = nextprop f (int ?b)"
      using check_prop_offset_prop [OF i'] by (simp add: fdt_next_property_offset_def q prop_item_def)
    then have pl: "property_from f a s =
        (if prop_name f k = Some s then Some (Some (off + a), int (length data)) else property_from f ?b s)"
      using get_property_by_offset_prop [OF i'] prop_stored [OF i'] string_eq_name [OF k, of s] np
      unfolding property_from_def by (subst property_loop.simps) simp
    show ?thesis
    proof (cases "prop_name f k = Some s")
      case True
      then show ?thesis using pl prop_stored [OF i'] q by (simp add: property_is_def)
    next
      case False
      then show ?thesis using pl IH q by simp
    qed
  qed
qed

lemma getprop_found:
  assumes "dt_items f off n a (dt_flat t @ its)" and "names_ok f (dn_props t)"
  shows "case dt_prop f t s of
       None \<Rightarrow> fdt_getprop_namelen f (int a) s = Some (None, - FDT_ERR_NOTFOUND)
     | Some data \<Rightarrow> \<exists>b. fdt_getprop_namelen f (int a) s = Some (Some b, int (length data)) \<and> stored f b data"
proof -
  obtain name ps cs where t: "t = Dt_Node name ps cs" by (cases t)
  let ?its = "concat (map dt_flat cs) @ Dt_End_node # its"
  let ?a = "a + length (dt_enc (Dt_Begin name))"
  from assms have i: "dt_items f off n a (Dt_Begin name # map prop_item ps @ ?its)" by (simp add: t)
  have h: "hd ?its \<in> range Dt_Begin \<union> {Dt_End_node}"
  proof (cases cs)
    case (Cons c cs')
    then show ?thesis by (cases c) simp
  qed simp
  have e: "fdt_get_property_namelen f (int a) s = property_from f ?a s"
    using check_node_offset_begin [OF i] by (simp add: fdt_get_property_namelen_def fdt_first_property_offset_def property_from_def)
  have "property_is f 12 (property_from f ?a s) (find (\<lambda>(k, data). prop_name f k = Some s) (props_of ps))"
    using property_found [OF h _ conjunct2 [OF dt_items_Cons [OF i]], of s] assms(2) t by simp
  then show ?thesis
    unfolding fdt_getprop_namelen_def e by (auto simp: dt_prop_def property_is_def t split: option.splits)
qed

subsection \<open>Look-ups in a stored tree\<close>

definition stores_tree :: "u8 list \<Rightarrow> dt_node \<Rightarrow> bool" where
  "stores_tree f t \<longleftrightarrow> (\<exists>off n. dt_items f off n 0 (dt_flat t @ [Dt_End]))"

lemma path_bytes_no_nul: "list_all component_ok ss \<Longrightarrow> 0 \<notin> set (path_bytes ss)"
  by (induction ss) (auto simp: path_bytes_def component_ok_def)

lemma strlen_terminated: "0 \<notin> set s \<Longrightarrow> strlen (s @ [0]) = Some (length s)"
  by (intro strlen_c_string) (simp add: c_string_def)

lemma path_offset_absolute:
  assumes "fdt_check_header f = Some 0" and "ss \<noteq> []" and "list_all component_ok ss"
  shows "fdt_path_offset f (path_bytes ss @ [0]) = path_loop f (path_bytes ss) 0"
proof -
  have "strlen (path_bytes ss @ [0]) = Some (length (path_bytes ss))"
    using path_bytes_no_nul [OF assms(3)] by (rule strlen_terminated)
  moreover have "rd (path_bytes ss @ [0]) 0 = Some 47" using assms(2) by (cases ss) (simp_all add: path_bytes_def rd_def)
  ultimately show ?thesis using assms(1)
    by (simp add: fdt_path_offset_def) (subst fdt_path_offset_namelen.simps, simp)
qed

lemma node_found:
  assumes "stores_tree f t" and "ss \<noteq> []" and "list_all component_ok ss"
  shows "\<exists>off n. found f off n (fdt_path_offset f (path_bytes ss @ [0])) (dt_resolve ss t)"
proof -
  obtain off n where i: "dt_items f off n 0 (dt_flat t @ [Dt_End])" using assms(1) by (auto simp: stores_tree_def)
  from path_found [OF assms(3) i] path_offset_absolute [OF dt_items_header [OF i] assms(2,3)] show ?thesis by auto
qed

text \<open>C15: look-ups in a device tree. On a blob that stores a tree, an absolute path leads to the node it
  means, at every step the first child whose name matches, or the error is \<open>NOTFOUND\<close>; and a
  property of that node is found with exactly its value, or the error is \<open>NOTFOUND\<close>. Both always
  return.\<close>

theorem fdt_lookup_correct:
  assumes "stores_tree f t" and "ss \<noteq> []" and "list_all component_ok ss"
    and "\<And>u. dt_resolve ss t = Some u \<Longrightarrow> names_ok f (dn_props u)"
  shows "case dt_resolve ss t of
      None \<Rightarrow> fdt_path_offset f (path_bytes ss @ [0]) = Some (- FDT_ERR_NOTFOUND)
    | Some u \<Rightarrow> \<exists>node \<ge> 0. fdt_path_offset f (path_bytes ss @ [0]) = Some node
        \<and> (case dt_prop f u s of
              None \<Rightarrow> fdt_getprop_namelen f node s = Some (None, - FDT_ERR_NOTFOUND)
            | Some data \<Rightarrow> \<exists>p. fdt_getprop_namelen f node s = Some (Some p, int (length data)) \<and> ld_bytes f p (length data) = Some data)"
proof -
  obtain off n where fd: "found f off n (fdt_path_offset f (path_bytes ss @ [0])) (dt_resolve ss t)"
    using node_found [OF assms(1-3)] by blast
  show ?thesis
  proof (cases "dt_resolve ss t")
    case None
    then show ?thesis using fd by (simp add: found_def)
  next
    case (Some u)
    with fd obtain b its where "fdt_path_offset f (path_bytes ss @ [0]) = Some (int b)" "dt_items f off n b (dt_flat u @ its)"
      by (auto simp: found_def)
    with getprop_found [OF this(2) assms(4) [OF Some], of s] Some show ?thesis
      by (auto split: option.splits intro: stored_ld)
  qed
qed

subsection \<open>A blob\<close>

definition fdt_blob :: "u8 list \<Rightarrow> dt_node \<Rightarrow> u8 list" where
  "fdt_blob strings t =
     (let block = concat (map dt_enc (dt_flat t @ [Dt_End]))
      in be32 FDT_MAGIC @ be32 (of_nat (40 + length block + length strings)) @ be32 40 @ be32 (of_nat (40 + length block)) @ be32 0
         @ be32 17 @ be32 16 @ be32 0 @ be32 (of_nat (length strings)) @ be32 (of_nat (length block)) @ block @ strings)"

definition tree_example :: dt_node where
  "tree_example = Dt_Node [] [Some (0, be32 2), None]
     [Dt_Node (bytes_of ''cpus'') [] [Dt_Node (bytes_of ''memory'') [] []],
      Dt_Node (bytes_of ''memory@40000000'') [Some (15, be32 0 @ be32 0x40000000 @ be32 0 @ be32 0x8000000)] []]"

definition blob_example :: "u8 list" where
  "blob_example = fdt_blob (bytes_of ''#address-cells'' @ [0] @ bytes_of ''reg'' @ [0]) tree_example"

lemma blob_example_block: "fdt_block blob_example 40 120"
proof -
  have "fdt_check_header blob_example = Some 0" "fdt_off_dt_struct blob_example = Some 40" "fdt_version blob_example = Some 17"
    "fdt_totalsize blob_example = Some 179" "fdt_size_dt_struct blob_example = Some 120" "length blob_example = 179"
    by code_simp+
  then show ?thesis by (simp add: fdt_block_def)
qed

lemma blob_example_tree: "stores_tree blob_example tree_example"
proof -
  have "length (concat (map dt_enc (dt_flat tree_example @ [Dt_End]))) = 120"
    "stored blob_example 40 (concat (map dt_enc (dt_flat tree_example @ [Dt_End])))" "list_all dt_ok (dt_flat tree_example @ [Dt_End])"
    by code_simp+
  then have "dt_items blob_example 40 120 0 (dt_flat tree_example @ [Dt_End])"
    using blob_example_block unfolding dt_items_def list_all_iff by simp
  then show ?thesis by (auto simp: stores_tree_def)
qed

lemma memory_component: "list_all component_ok [bytes_of ''memory'']"
proof -
  have "0 \<notin> set (bytes_of ''memory'') \<and> 47 \<notin> set (bytes_of ''memory'')" by code_simp
  then show ?thesis by (simp add: component_ok_def bytes_of_def)
qed

lemma memory_path: "path_bytes [bytes_of ''memory''] = bytes_of ''/memory''"
  by code_simp

theorem fdt_lookup_correct_witness:
  "\<exists>node p. fdt_path_offset blob_example (bytes_of ''/memory'' @ [0]) = Some node
     \<and> fdt_getprop_namelen blob_example node (bytes_of ''reg'') = Some (Some p, 16)
     \<and> ld_bytes blob_example p 16 = Some (be32 0 @ be32 0x40000000 @ be32 0 @ be32 0x8000000)"
proof -
  let ?u = "Dt_Node (bytes_of ''memory@40000000'') [Some (15, be32 0 @ be32 0x40000000 @ be32 0 @ be32 0x8000000)] []"
  have r: "dt_resolve [bytes_of ''memory''] tree_example = Some ?u" by code_simp
  have n: "prop_name blob_example 15 = Some (bytes_of ''reg'')" by code_simp
  have "names_ok blob_example (dn_props ?u)" using n by (simp add: names_ok_def)
  moreover have "dt_prop blob_example ?u (bytes_of ''reg'') = Some (be32 0 @ be32 0x40000000 @ be32 0 @ be32 0x8000000)"
    using n by (simp add: dt_prop_def)
  ultimately show ?thesis
    using fdt_lookup_correct [OF blob_example_tree _ memory_component, of "bytes_of ''reg''", unfolded r memory_path] by auto
qed

subsection \<open>Bounds\<close>

lemma fdt32_at_total: "p + 4 \<le> length f \<Longrightarrow> \<exists>w. fdt32_at f p = Some w"
  by (simp add: fdt32_at_def rd_def)

lemma skip_name_bounds:
  assumes "fdt_block f off n"
  shows "off + a + 3 < 2 ^ 31 \<Longrightarrow>
    skip_name f (int a) = Some None \<or> (\<exists>b > a. skip_name f (int a) = Some (Some (int b)) \<and> off + b + 3 < 2 ^ 31)"
proof (induction "2 ^ 31 - a" arbitrary: a rule: less_induct)
  case less
  have a: "a < 2 ^ 31 - 1" using less.prems by linarith
  consider "fdt_offset_ptr f (int a) 1 = Some None"
    | "fdt_offset_ptr f (int a) 1 = Some (Some (off + a))" "off + Suc a \<le> length f" "off + Suc a + 3 < 2 ^ 31"
    using fdt_offset_ptr_total [OF assms, of a 1] a by force
  then show ?case
  proof cases
    case 1
    then show ?thesis using a by (subst (1 2) skip_name.simps) simp
  next
    case 2
    have r: "rd f (off + a) = Some (f ! (off + a))" using 2(2) by (simp add: rd_def)
    show ?thesis
    proof (cases "f ! (off + a) = 0")
      case True
      then have "skip_name f (int a) = Some (Some (int (Suc a)))" using 2 r a by (subst skip_name.simps) simp
      then show ?thesis using 2(3) by blast
    next
      case False
      then have "skip_name f (int a) = skip_name f (int (Suc a))" using 2 r a by (subst skip_name.simps) (simp add: add.commute)
      moreover have "skip_name f (int (Suc a)) = Some None
          \<or> (\<exists>b > Suc a. skip_name f (int (Suc a)) = Some (Some (int b)) \<and> off + b + 3 < 2 ^ 31)"
        using a 2(3) by (intro less.hyps) simp_all
      ultimately show ?thesis using Suc_lessD by metis
    qed
  qed
qed

lemma tag_end_bounds:
  assumes "fdt_block f off n" and "off + a + 3 < 2 ^ 31"
    and "\<And>len. tag = FDT_PROP \<Longrightarrow> fdt32_at f (off + a) = Some len \<Longrightarrow> a + 8 + unat len < 2 ^ 31"
  shows "tag_end f tag (int a) = Some None \<or> (\<exists>b \<ge> a. tag_end f tag (int a) = Some (Some (int b)) \<and> b < 2 ^ 31)"
proof -
  consider "tag = FDT_BEGIN_NODE" | "tag = FDT_PROP" | "tag \<in> {FDT_END, FDT_END_NODE, FDT_NOP}" | "tag \<notin> {1, 2, 3, 4, 9}" by blast
  then show ?thesis
  proof cases
    case 1
    have "tag_end f tag (int a) = skip_name f (int a)" using 1 by (simp add: tag_end_def)
    then show ?thesis using skip_name_bounds [OF assms(1,2)] by (metis less_imp_le trans_less_add1 add.commute add_lessD1)
  next
    case 2
    from fdt_offset_ptr_total [OF assms(1), of a 4] assms(2) consider "fdt_offset_ptr f (int a) 4 = Some None"
      | "fdt_offset_ptr f (int a) 4 = Some (Some (off + a))" "off + a + 4 \<le> length f" by force
    then show ?thesis
    proof cases
      case 1
      then show ?thesis using 2 by (simp add: tag_end_def)
    next
      case q: 2
      then obtain len where len: "fdt32_at f (off + a) = Some len" using fdt32_at_total by blast
      have "int a + (12 - 4 + uint len) = int (a + 8 + unat len)" by simp
      moreover have l: "a + 8 + unat len < 2 ^ 31" using assms(3) len \<open>tag = FDT_PROP\<close> by blast
      ultimately have "c_int (int a + (12 - 4 + uint len)) = int (a + 8 + unat len)" by (simp only: c_int_nat)
      then have "tag_end f tag (int a) = Some (Some (int (a + 8 + unat len)))"
        using q(1) len \<open>tag = FDT_PROP\<close> by (simp add: tag_end_def)
      then show ?thesis using l by (intro disjI2 exI [of _ "a + 8 + unat len"]) simp
    qed
  next
    case 3
    then show ?thesis using assms(2) by (auto simp: tag_end_def)
  next
    case 4
    then show ?thesis by (simp add: tag_end_def)
  qed
qed

text \<open>C22: the bounds of the reader. On a blob with a valid header and less than 2 GiB, reading a tag at an offset below
  2^31 stays inside the blob and returns, unless the tag is that of a property whose length field leads to 2^31 or beyond:
  the result is either an error, or the tag and an aligned offset strictly behind it, at most the end of the blob rounded
  up. (For the excluded properties the sum overflows an \<open>int\<close>.)\<close>

theorem fdt_next_tag_bounds:
  assumes "fdt_block f off n" and "start < 2 ^ 31"
    and "\<And>len. fdt32_at f (off + start) = Some FDT_PROP \<Longrightarrow> fdt32_at f (off + start + 4) = Some len \<Longrightarrow> start + 12 + unat len < 2 ^ 31"
  shows "\<exists>tag next. fdt_next_tag f (int start) = Some (tag, next)
    \<and> (tag = FDT_END \<and> next \<in> {- FDT_ERR_TRUNCATED, - FDT_ERR_BADSTRUCTURE}
       \<or> int start < next \<and> next mod 4 = 0 \<and> int off + next \<le> int (length f) + 3 \<and> next < 2 ^ 31)"
proof -
  from fdt_offset_ptr_total [OF assms(1,2), of 4] consider "fdt_offset_ptr f (int start) 4 = Some None"
    | "fdt_offset_ptr f (int start) 4 = Some (Some (off + start))" "off + start + 4 \<le> length f" "off + (start + 4) + 3 < 2 ^ 31" by force
  then show ?thesis
  proof cases
    case 1
    then show ?thesis by (simp add: fdt_next_tag_def)
  next
    case 2
    obtain tag where tag: "fdt32_at f (off + start) = Some tag" using 2(2) fdt32_at_total by blast
    have c: "c_int (int start + 4) = int (start + 4)" using c_int_nat [of "start + 4"] 2(3) by simp
    have "tag_end f tag (int (start + 4)) = Some None \<or> (\<exists>b \<ge> start + 4. tag_end f tag (int (start + 4)) = Some (Some (int b)) \<and> b < 2 ^ 31)"
      using tag assms(3) by (intro tag_end_bounds [OF assms(1) 2(3)]) (simp add: add.assoc)
    then consider "tag_end f tag (int (start + 4)) = Some None"
      | b where "tag_end f tag (int (start + 4)) = Some (Some (int b))" "start + 4 \<le> b" "b < 2 ^ 31" by blast
    then show ?thesis
    proof cases
      case 1
      then show ?thesis using 2 tag c by (simp add: fdt_next_tag_def)
    next
      case (2 b)
      have s: "c_sub (int b) (int start) = Some (int (b - start))" using 2 by (simp add: c_sub_def of_nat_diff)
      from fdt_offset_ptr_total [OF assms(1,2), of "b - start"] 2 consider "fdt_offset_ptr f (int start) (of_nat (b - start)) = Some None"
        | "fdt_offset_ptr f (int start) (of_nat (b - start)) = Some (Some (off + start))" "off + b \<le> length f" "off + b + 3 < 2 ^ 31" by force
      then show ?thesis
      proof cases
        case 1
        then show ?thesis using \<open>fdt_offset_ptr f (int start) 4 = Some (Some (off + start))\<close> tag c 2 s by (simp add: fdt_next_tag_def)
      next
        case q: 2
        have p: "length (dt_pad b) \<le> 3" by (simp add: dt_pad_def)
        have al: "FDT_TAGALIGN (int b) = int (b + length (dt_pad b))" using q(3) p by (intro tagalign_pad) linarith
        have "fdt_next_tag f (int start) = Some (tag, int (b + length (dt_pad b)))"
          using \<open>fdt_offset_ptr f (int start) 4 = Some (Some (off + start))\<close> tag c 2 s q(1) al by (simp add: fdt_next_tag_def)
        moreover have "int (b + length (dt_pad b)) mod 4 = 0" using dt_pad_dvd [of b] by presburger
        ultimately show ?thesis using p q(2,3) 2(2) by auto
      qed
    qed
  qed
qed

theorem fdt_next_tag_bounds_witness:
  "\<exists>tag next. fdt_next_tag blob_example (int 56) = Some (tag, next)
    \<and> (tag = FDT_END \<and> next \<in> {- FDT_ERR_TRUNCATED, - FDT_ERR_BADSTRUCTURE}
       \<or> int 56 < next \<and> next mod 4 = 0 \<and> int 40 + next \<le> int (length blob_example) + 3 \<and> next < 2 ^ 31)"
proof -
  have "fdt32_at blob_example (40 + 56) \<noteq> Some FDT_PROP" by code_simp
  then show ?thesis by (intro fdt_next_tag_bounds [OF blob_example_block]) auto
qed

subsection \<open>A forged length\<close>

lemma c_int_wrap: "c_int (x + 2 ^ 32) = c_int x"
proof -
  have "(x + 2 ^ 32 + 2 ^ 31) mod 2 ^ 32 = (x + 2 ^ 31 + 2 ^ 32) mod (2 ^ 32 :: int)" by (simp only: ac_simps)
  then have "(x + 2 ^ 32 + 2 ^ 31) mod 2 ^ 32 = (x + 2 ^ 31) mod (2 ^ 32 :: int)" by (simp only: mod_add_self2)
  moreover have "c_int z = (z + 2 ^ 31) mod 2 ^ 32 - 2 ^ 31" for z unfolding c_int_def int_word_sint by simp
  ultimately show ?thesis by simp
qed

lemma next_tag_forged:
  assumes "fdt_block f off n" and "a + 8 \<le> n" and "4 dvd a"
    and "fdt32_at f (off + a) = Some FDT_PROP" and "fdt32_at f (off + a + 4) = Some 0xfffffff4"
  shows "fdt_next_tag f (int a) = Some (FDT_PROP, int a)"
proof -
  have n: "n < 2 ^ 31" using assms(1) by (auto simp: fdt_block_def)
  have c: "c_int (int a + 4) = int (a + 4)" using c_int_nat [of "a + 4"] assms(2) n by simp
  have "int (a + 4) + (12 - 4 + uint (0xfffffff4 :: u32)) = int a + 2 ^ 32" by simp
  then have "c_int (int (a + 4) + (12 - 4 + uint (0xfffffff4 :: u32))) = c_int (int a + 2 ^ 32)" by (rule arg_cong)
  also have "\<dots> = int a" using c_int_wrap [of "int a"] c_int_nat [of a] assms(2) n by simp
  finally have "tag_end f FDT_PROP (int (a + 4)) = Some (Some (int a))"
    using fdt_offset_ptr_in [OF assms(1), of "a + 4" 4] assms(2,5) by (simp add: tag_end_def add.assoc)
  moreover have "c_sub (int a) (int a) = Some 0" by (simp add: c_sub_def)
  moreover have "FDT_TAGALIGN (int a) = int a" using assms(2,3) n by (intro tagalign_dvd) simp_all
  ultimately show ?thesis
    using fdt_offset_ptr_in [OF assms(1), of a 4] fdt_offset_ptr_in [OF assms(1), of a 0] assms(2,4) c
    by (simp add: fdt_next_tag_def)
qed

lemma node_loop_forged:
  assumes "fdt_next_tag f offset = Some (FDT_PROP, offset)"
  shows "next_node_loop f offset depth = None"
proof (rule ccontr)
  assume "next_node_loop f offset depth \<noteq> None"
  then obtain y where "next_node_loop f offset depth = Some y" by auto
  then have "fdt_next_tag f offset \<noteq> Some (FDT_PROP, offset)"
    by (rule next_node_loop.raw_induct [of "\<lambda>f offset depth y. fdt_next_tag f offset \<noteq> Some (FDT_PROP, offset)", rotated])
      (auto split: Option.bind_splits if_splits)
  then show False using assms by blast
qed

lemma property_loop_forged:
  assumes "fdt_next_tag f offset = Some (FDT_PROP, offset)" and "0 \<le> offset" and "offset mod 4 = 0"
    and "fdt_get_property_by_offset f offset = Some (Some p, len)" and "fdt32_at f (p + 8) = Some k"
    and "fdt_string_eq f (c_int (uint k)) s = Some False"
  shows "property_loop f offset s = None"
proof (rule ccontr)
  let ?P = "\<lambda>f offset s y. \<not> (fdt_next_property_offset f offset = Some offset \<and> 0 \<le> offset
      \<and> (\<exists>p len k. fdt_get_property_by_offset f offset = Some (Some p, len) \<and> fdt32_at f (p + 8) = Some k \<and> fdt_string_eq f (c_int (uint k)) s = Some False))"
  assume "property_loop f offset s \<noteq> None"
  then obtain y where "property_loop f offset s = Some y" by auto
  then have "?P f offset s y"
  proof (rule property_loop.raw_induct [of ?P, rotated], goal_cases)
    case (1 g f offset s y)
    show ?case
    proof
      assume A: "fdt_next_property_offset f offset = Some offset \<and> 0 \<le> offset
        \<and> (\<exists>p len k. fdt_get_property_by_offset f offset = Some (Some p, len) \<and> fdt32_at f (p + 8) = Some k \<and> fdt_string_eq f (c_int (uint k)) s = Some False)"
      then have "g f offset s = Some y" using 1(2) by auto
      then show False using 1(1) A by blast
    qed
  qed
  moreover have "nextprop f offset = Some offset" using assms(1) by (subst nextprop.simps) simp
  then have "fdt_next_property_offset f offset = Some offset"
    using assms(1-3) by (simp add: fdt_next_property_offset_def fdt_check_prop_offset_def fdt_check_tag_offset_def)
  ultimately show False using assms by blast
qed

text \<open>C40: a forged length. When a property of a blob with a valid header has the length \<open>0xfffffff4\<close>, the
  offset behind it wraps around to the offset of the property itself: reading the tag succeeds
  without moving on, and neither the walk to the next node nor the search for a property with another name
  returns from there.\<close>

theorem fdt_forged_length_hangs:
  assumes "fdt_block f off n" and "a + 12 \<le> n" and "4 dvd a"
    and "fdt32_at f (off + a) = Some FDT_PROP" and "fdt32_at f (off + a + 4) = Some 0xfffffff4" and "fdt32_at f (off + a + 8) = Some k"
    and "unat k < 2 ^ 31" and "prop_name f k = Some name" and "name \<noteq> s"
  shows "fdt_next_tag f (int a) = Some (FDT_PROP, int a)
    \<and> next_node_loop f (int a) depth = None \<and> property_loop f (int a) s = None"
proof -
  have t: "fdt_next_tag f (int a) = Some (FDT_PROP, int a)" using next_tag_forged [OF assms(1) _ assms(3-5)] assms(2) by simp
  have m: "int a mod 4 = 0" using assms(3) by presburger
  have "off + n \<le> length f" using assms(1) by (auto simp: fdt_block_def)
  then have "dt_items f off n a []" using assms(1-3) by (simp add: dt_items_def stored_def)
  then have "fdt_offset_ptr_raw f (int a) = Some (off + a)" by (rule offset_ptr_raw_items)
  then have "fdt_get_property_by_offset f (int a) = Some (Some (off + a), c_int (uint (0xfffffff4 :: u32)))"
    using t m assms(5) by (simp add: fdt_get_property_by_offset_def fdt_check_prop_offset_def fdt_check_tag_offset_def)
  from property_loop_forged [OF t _ m this assms(6)] string_eq_name [of k f s] assms(7-9) t node_loop_forged [OF t]
  show ?thesis by simp
qed

definition forged_example :: "u8 list" where
  "forged_example = be32 FDT_MAGIC @ be32 72 @ be32 40 @ be32 68 @ be32 0 @ be32 17 @ be32 16 @ be32 0 @ be32 4 @ be32 28
     @ be32 FDT_BEGIN_NODE @ [0, 0, 0, 0] @ be32 FDT_PROP @ be32 0xfffffff4 @ be32 0 @ be32 FDT_END_NODE @ be32 FDT_END @ bytes_of ''reg'' @ [0]"

theorem fdt_forged_length_hangs_witness:
  "fdt_next_tag forged_example 8 = Some (FDT_PROP, 8) \<and> next_node_loop forged_example 8 (Some 0) = None
     \<and> property_loop forged_example 8 (bytes_of ''device_type'') = None"
proof -
  have "fdt_check_header forged_example = Some 0" "fdt_off_dt_struct forged_example = Some 40" "fdt_version forged_example = Some 17"
    "fdt_totalsize forged_example = Some 72" "fdt_size_dt_struct forged_example = Some 28" "length forged_example = 72"
    by code_simp+
  then have b: "fdt_block forged_example 40 28" by (simp add: fdt_block_def)
  have h: "fdt32_at forged_example (40 + 8) = Some FDT_PROP" "fdt32_at forged_example (40 + 8 + 4) = Some 0xfffffff4"
    "fdt32_at forged_example (40 + 8 + 8) = Some 0" "prop_name forged_example 0 = Some (bytes_of ''reg'')" "bytes_of ''reg'' \<noteq> bytes_of ''device_type''"
    by code_simp+
  from fdt_forged_length_hangs [OF b _ _ h(1-3) _ h(4,5), of "Some 0"] show ?thesis by simp
qed

end
