(* ===== verification/PlatformProofs.thy ===== *)
theory PlatformProofs
  imports FdtProofs BootProofs
begin

text \<open>
  The platform configuration of aarch64: the memory that the device tree describes is handed to the
  page allocator.
\<close>

subsection \<open>Cells\<close>

text \<open>The number in a list of cells, the most significant first.\<close>

definition cells_value :: "u32 list \<Rightarrow> nat" where
  "cells_value ws = foldl (\<lambda>v w. v * 2 ^ 32 + unat w) 0 ws"

lemma shift_or_add: "push_bit 32 (acc :: u64) OR ucast (w :: u32) = acc * 2 ^ 32 + ucast w"
proof -
  have "push_bit 32 acc AND ucast w = 0"
    by (rule bit_word_eqI) (auto simp: bit_simps dest: bit_imp_le_length)
  then show ?thesis by (simp add: disjunctive_add_eq_or push_bit_eq_mult flip: disjunctive_add_eq_or)
qed

lemma read_cells_stored:
  "stored f p (concat (map be32 ws)) \<Longrightarrow>
    read_cells f p (length ws) (of_nat v) = Some (of_nat (foldl (\<lambda>v w. v * 2 ^ 32 + unat w) v ws), p + 4 * length ws)"
proof (induction ws arbitrary: p v)
  case (Cons w ws)
  have s: "stored f p (be32 w)" "stored f (p + 4) (concat (map be32 ws))" using Cons.prems by (simp_all add: stored_append)
  have e: "push_bit 32 (of_nat v :: u64) OR ucast w = of_nat (v * 2 ^ 32 + unat w)"
    unfolding shift_or_add by simp
  have "read_cells f p (length (w # ws)) (of_nat v) = read_cells f (p + 4) (length ws) (of_nat (v * 2 ^ 32 + unat w))"
    by (simp only: length_Cons read_cells.simps(2) stored_fdt32 [OF s(1)] Option.bind.simps e)
  also have "\<dots> = Some (of_nat (foldl (\<lambda>v w. v * 2 ^ 32 + unat w) (v * 2 ^ 32 + unat w) ws), p + 4 + 4 * length ws)"
    by (rule Cons.IH [OF s(2)])
  finally show ?case by simp
qed simp

lemma cells_read:
  assumes "stored f p (concat (map be32 ws))"
  shows "read_cells f p (length ws) 0 = Some (of_nat (cells_value ws), p + 4 * length ws)"
  using read_cells_stored [OF assms, of 0] by (simp add: cells_value_def)

text \<open>The number of cells a node asks for.\<close>

definition dt_cells :: "u8 list \<Rightarrow> dt_node \<Rightarrow> string \<Rightarrow> nat \<Rightarrow> bool" where
  "dt_cells f u name n \<longleftrightarrow> n \<le> 4 \<and> (case dt_prop f u (bytes_of name) of None \<Rightarrow> n = 2 | Some data \<Rightarrow> data = be32 (of_nat n))"

lemma getprop_cells:
  assumes "dt_items f off k a (dt_flat u @ its)" and "names_ok f (dn_props u)" and "dt_cells f u name n"
  shows "fdt_getprop f (int a) name = Some (None, - FDT_ERR_NOTFOUND) \<and> n = 2
    \<or> (\<exists>p. fdt_getprop f (int a) name = Some (Some p, 4) \<and> fdt32_at f p = Some (of_nat n) \<and> c_int (uint (of_nat n :: u32)) = int n)"
proof (cases "dt_prop f u (bytes_of name)")
  case None
  then show ?thesis using getprop_found [OF assms(1,2), of "bytes_of name"] assms(3) by (simp add: fdt_getprop_def dt_cells_def)
next
  case (Some data)
  then have "data = be32 (of_nat n)" and n: "n \<le> 4" using assms(3) by (simp_all add: dt_cells_def)
  moreover from Some obtain p where "fdt_getprop f (int a) name = Some (Some p, int (length data))" "stored f p data"
    using getprop_found [OF assms(1,2), of "bytes_of name"] by (auto simp: fdt_getprop_def)
  moreover have "uint (of_nat n :: u32) = int n" using n by (simp only: uint_nat unat_of_nat) simp
  ultimately show ?thesis using stored_fdt32 c_int_nat [of n] by auto
qed

lemma address_cells_read:
  assumes "dt_items f off k a (dt_flat u @ its)" and "names_ok f (dn_props u)" and "dt_cells f u ''#address-cells'' n" and "1 \<le> n"
  shows "fdt_address_cells f (int a) = Some (int n)"
proof -
  have "n \<le> 4" using assms(3) by (simp add: dt_cells_def)
  then show ?thesis using getprop_cells [OF assms(1-3)] assms(4) by (auto simp: fdt_address_cells_def)
qed

lemma size_cells_read:
  assumes "dt_items f off k a (dt_flat u @ its)" and "names_ok f (dn_props u)" and "dt_cells f u ''#size-cells'' n"
  shows "fdt_size_cells f (int a) = Some (int n)"
proof -
  have "n \<le> 4" using assms(3) by (simp add: dt_cells_def)
  then show ?thesis using getprop_cells [OF assms(1-3)] by (auto simp: fdt_size_cells_def)
qed

subsection \<open>Output\<close>

lemma pl011_put_all: "\<exists>d'. put_all t (pl011_console_write_char strb) d = Some d'"
  by (induction t arbitrary: d) (simp_all add: pl011_console_write_char_def pl011_write_char_def)

lemma aarch64_printf_ok:
  assumes "va_ok ap" and "fmt_text (bytes_of fmt @ [0]) 0 ap \<noteq> None"
  shows "\<exists>d'. aarch64_printf strb fmt ap d = Some d'"
proof -
  obtain t where t: "fmt_text (bytes_of fmt @ [0]) 0 ap = Some t" using assms(2) by auto
  obtain d' where d: "put_all t (pl011_console_write_char strb) d = Some d'" using pl011_put_all [of t strb d] by auto
  have "map_option fst (vprintf_loop (pl011_console_write_char strb) (bytes_of fmt @ [0]) 0 ap (d, 0)) = Some d'"
    by (simp add: vprintf_loop_all [OF assms(1)] t d)
  then show ?thesis by (auto simp: aarch64_printf_def printf_def vprintf_def)
qed

lemma platform_formats:
  "fmt_text (bytes_of (''Found FDT at address %x'' @ [CHR 0x0A]) @ [0]) 0 [VaWord x] \<noteq> None"
  "fmt_text (bytes_of (''Memory map:'' @ [CHR 0x0A]) @ [0]) 0 [] \<noteq> None"
  "fmt_text (bytes_of (''  %016lx-%016lx %4d MiB [available]'' @ [CHR 0x0A]) @ [0]) 0 [VaWord x, VaWord y, VaWord z] \<noteq> None"
  by code_simp+

subsection \<open>The memory\<close>

definition memory_start :: "nat \<Rightarrow> nat \<Rightarrow> nat" where
  "memory_start lo base = (max base lo + 4095) div 4096 * 4096"

lemma add_memory_exact:
  assumes "arenas_wf p" and "unat a + unat l = h" and "unat m \<le> h" and "4096 dvd h" and "0 < memory_start (unat m) (unat a)"
    and "(memory_start (unat m) (unat a) + 2097151) div 2097152 \<le> h div 2097152" and "h < 2 ^ 64"
    and "{memory_start (unat m) (unat a) ..< h} \<inter> arenas_avail p = {}"
  shows "arenas_wf (add_memory m a l p)
    \<and> arenas_avail (add_memory m a l p) = arenas_avail p \<union> {memory_start (unat m) (unat a) ..< h}"
proof -
  obtain b k where bk: "(b, k) = (if a < m then (m, l - (m - a)) else (a, l))" by (metis surj_pair)
  note c = clip_lower [OF assms(2,3) bk]
  let ?s = "align_up b PAGE_SIZE_SMALL" and ?z = "align_down k PAGE_SIZE_SMALL"
  have "h \<le> 2 ^ 64 - 4096" using assms(4,7) by (auto elim!: dvdE)
  then have "unat b + 2 ^ 12 - 1 < 2 ^ 64" using c(2) by simp
  then have st: "unat ?s = memory_start (unat m) (unat a)"
    using align_up_no_wrap [of 12 b] by (simp add: PAGE_SIZE_SMALL_eq memory_start_def add.commute flip: c(1))
  have sz: "unat ?z = unat k div 4096 * 4096"
    using unat_align_down [of k 12] by (simp add: PAGE_SIZE_SMALL_eq)
  have "unat b \<le> h" and k: "h - unat b = unat k" using c(2) by linarith+
  from round_up_end [OF assms(4) this(1)] have e: "unat ?s + unat ?z = h"
    unfolding k st sz unfolding memory_start_def c(1) .
  have "add_memory m a l p = memory_add_span ?s ?z p" by (simp add: add_memory_def Let_def flip: bk)
  moreover have "?s \<noteq> 0" "4096 dvd unat ?s" "4096 dvd unat ?z" using st sz assms(5) by (auto simp: memory_start_def)
  ultimately show ?thesis using add_span_exact [OF assms(1), of ?s ?z] assms(6-8) unfolding e by (simp add: st)
qed

text \<open>C23: the memory of an aarch64 machine. Let the device tree have a \<open>memory\<close> node with \<open>#address-cells\<close> and
  \<open>#size-cells\<close> properties of its own, and consider the first region of its \<open>reg\<close> property, read with these counts; further
  regions are ignored. When this region ends below 2^64, on a page boundary and not below the end of the kernel image, when
  its part above the kernel image contains a 2 MiB boundary and overlaps nothing the allocator has, the configuration
  succeeds and gives the page allocator, apart from what it had, exactly this part, from a page boundary on.\<close>

theorem platform_config_adds_memory:
  fixes symb as bs
  defines "lo \<equiv> unat (symb ''_kernel_end'')" and "base \<equiv> cells_value as" and "h \<equiv> cells_value as + cells_value bs"
  assumes "stores_tree f t" and "dt_resolve [bytes_of ''memory''] t = Some u" and "names_ok f (dn_props u)"
    and "dt_cells f u ''#address-cells'' (length as)" and "1 \<le> length as" and "dt_cells f u ''#size-cells'' (length bs)"
    and "dt_prop f u (bytes_of ''reg'') = Some (concat (map be32 (as @ bs)) @ rest)"
    and "arenas_wf p" and "h < 2 ^ 64" and "lo \<le> h" and "4096 dvd h" and "0 < memory_start lo base"
    and "(memory_start lo base + 2097151) div 2097152 \<le> h div 2097152" and "{memory_start lo base ..< h} \<inter> arenas_avail p = {}"
  shows "\<exists>p' d'. parse_platform_config_fdt strb symb (Some (addr, f)) p d = Some (Inr (p', d'))
    \<and> arenas_wf p' \<and> arenas_avail p' = arenas_avail p \<union> {memory_start lo base ..< h}"
proof -
  let ?path = "bytes_of ''/memory'' @ [0]"
  obtain off n b its where b: "fdt_path_offset f ?path = Some (int b)" and i: "dt_items f off n b (dt_flat u @ its)"
    using node_found [OF assms(4) _ memory_component] assms(5) by (auto simp: found_def memory_path)
  obtain q where q: "fdt_getprop f (int b) ''reg'' = Some (Some q, int (length (concat (map be32 (as @ bs)) @ rest)))"
    "stored f q (concat (map be32 (as @ bs)) @ rest)"
    using getprop_found [OF i assms(6), of "bytes_of ''reg''"] assms(10) by (auto simp: fdt_getprop_def)
  have len: "length (concat (map be32 as)) = 4 * length as" by (induction as) simp_all
  have s: "stored f q (concat (map be32 as))" "stored f (q + 4 * length as) (concat (map be32 bs))"
    using q(2) by (simp_all add: stored_append len)
  let ?a = "of_nat (cells_value as) :: u64" and ?l = "of_nat (cells_value bs) :: u64"
  have u: "unat ?a = base" "unat ?l = cells_value bs"
    using assms(12) by (simp_all add: h_def base_def unat_of_nat take_bit_nat_eq_self)
  obtain d1 where d1: "aarch64_printf strb (''Found FDT at address %x'' @ [CHR 0x0A]) [VaWord addr] d = Some d1"
    using aarch64_printf_ok [OF _ platform_formats(1), of addr strb d] by (auto simp: va_ok_def)
  obtain d2 where d2: "aarch64_printf strb (''Memory map:'' @ [CHR 0x0A]) [] d1 = Some d2"
    using aarch64_printf_ok [OF _ platform_formats(2), of strb d1] by (auto simp: va_ok_def)
  obtain d3 where d3: "aarch64_printf strb (''  %016lx-%016lx %4d MiB [available]'' @ [CHR 0x0A])
      [VaWord ?a, VaWord (?a + ?l), VaWord (?l div 1024 div 1024)] d2 = Some d3"
    using aarch64_printf_ok [OF _ platform_formats(3), of ?a "?a + ?l" "?l div 1024 div 1024" strb d2] by (auto simp: va_ok_def)
  have "parse_memory_node strb symb f (int b) p d1 = Some (Inr (add_memory (symb ''_kernel_end'') ?a ?l p, d3))"
    using d2 d3 q(1) cells_read [OF s(1)] cells_read [OF s(2)]
    unfolding parse_memory_node_def address_cells_read [OF i assms(6-8)] size_cells_read [OF i assms(6,9)] by simp
  then have "parse_platform_config_fdt strb symb (Some (addr, f)) p d = Some (Inr (add_memory (symb ''_kernel_end'') ?a ?l p, d3))"
    using b d1 dt_items_header [OF i] by (simp add: parse_platform_config_fdt_def)
  moreover have "arenas_wf (add_memory (symb ''_kernel_end'') ?a ?l p)
      \<and> arenas_avail (add_memory (symb ''_kernel_end'') ?a ?l p) = arenas_avail p \<union> {memory_start lo base ..< h}"
    using add_memory_exact [OF assms(11), of ?a ?l h "symb ''_kernel_end''"] assms(12-17) u
    by (simp add: lo_def h_def base_def)
  ultimately show ?thesis by blast
qed

theorem platform_config_adds_memory_witness:
  "\<exists>p' d'. parse_platform_config_fdt (\<lambda>_ c out. out @ [c]) (\<lambda>_. 0x40300010) (Some (0x48000000, blob_example)) arenas_example [] = Some (Inr (p', d'))
     \<and> arenas_avail p' = arenas_avail arenas_example \<union> {0x40301000 ..< 0x48000000}"
proof -
  let ?u = "Dt_Node (bytes_of ''memory@40000000'') [Some (15, be32 0 @ be32 0x40000000 @ be32 0 @ be32 0x8000000)] []"
  let ?as = "[0, 0x40000000] :: u32 list" and ?bs = "[0, 0x8000000] :: u32 list"
  have r: "dt_resolve [bytes_of ''memory''] tree_example = Some ?u" by code_simp
  have n: "prop_name blob_example 15 = Some (bytes_of ''reg'')" by code_simp
  have d: "bytes_of ''reg'' \<noteq> bytes_of ''#address-cells''" "bytes_of ''reg'' \<noteq> bytes_of ''#size-cells''" by code_simp+
  have ok: "names_ok blob_example (dn_props ?u)" using n by (simp add: names_ok_def)
  have c: "dt_cells blob_example ?u ''#address-cells'' (length ?as)" "dt_cells blob_example ?u ''#size-cells'' (length ?bs)"
    using n d by (simp_all add: dt_cells_def dt_prop_def)
  have g: "dt_prop blob_example ?u (bytes_of ''reg'') = Some (concat (map be32 (?as @ ?bs)) @ [])"
    using n by (simp add: dt_prop_def)
  have v: "cells_value ?as = 0x40000000" "cells_value ?bs = 0x8000000" by (simp_all add: cells_value_def)
  have a: "arenas_avail arenas_example = {0x3000 ..< 0x5000} \<union> {0x400000 ..< 0x600000}"
    by (simp add: arenas_avail_def arena_avail_def arenas_example_def list_tree_def seg_bytes_def page_bytes_def)
  have ms: "memory_start (unat (0x40300010 :: u64)) 0x40000000 = 0x40301000" by (simp add: memory_start_def)
  from platform_config_adds_memory [OF blob_example_tree r ok c(1) _ c(2) g arenas_example_wf, of "\<lambda>_. 0x40300010" "\<lambda>_ c out. out @ [c]" "0x48000000" "[]",
      unfolded v ms]
  show ?thesis by (force simp: a)
qed

end
