(* ===== verification/Spec2Isabelle.thy ===== *)
theory Spec2Isabelle
  imports Align RingConcurrent IoQueue Stdio Socket KmemProofs MallocProofs SyscallProofs InitProofs VirtioProofs VirtioProbeProofs PlatformProofs
begin

text \<open>
  Verification of the Manticore operating system: a kernel in C and Rust for x86-64 (with the
  beginnings of a port to aarch64), two user libraries, and the programs that run on it.

  \<^bold>\<open>The system.\<close>

  The boot loader hands a memory map to the kernel, which gives the usable memory to the page
  allocator, sets up the page tables, the descriptor tables and the interrupt controller, probes the
  PCI bus for a network device, loads the first process from the initial ramdisk and switches to it. A
  process enters the kernel with a system call. It acquires a device by its name; from then on the two
  share ring buffers: the kernel appends an event for each packet that the network device receives,
  and the process appends the packets that it sends as commands to an I/O queue. ARP, IP, UDP, sockets
  and \<^verbatim>\<open>epoll\<close> are in the user library; an echo server runs on them.

  \<^bold>\<open>How C and Rust are modelled.\<close>

  Integers are words of their width, with wrap-around. A C object is a list of bytes, a struct is a
  \<open>record\<close>, an enum a \<open>datatype\<close>. \<open>None\<close> stands for a run that has no result: undefined behaviour, a
  Rust panic, a loop that does not end. Error numbers are ordinary results. A panic of the C code,
  which halts the machine, is a result of its own (\<open>Inl\<close>), with the state in which the machine halts.
  Loops are structural recursion, recursion with a measure, or, where the source may loop for ever,
  \<open>partial_function\<close>, so that it is proved where the loop ends. Heaps of linked structures
  (\<^verbatim>\<open>mm/kmem.c\<close>, \<^verbatim>\<open>usr/liblinux/src/malloc.c\<close>) keep one map from addresses for each type.

  Hardware and code from outside the repository are parameters: \<open>ports\<close> (what the port instructions
  do), \<open>cpu\<close> (model-specific registers, descriptor table registers, \<open>cpuid\<close>), \<open>mmio_bus\<close> (loads and stores of
  devices), the red-black tree of the Rust crate \<open>intrusive_collections\<close> (its list of elements in
  order), the ELF parser, and the addresses that the linker assigns (\<open>symb\<close>). What is known of them is
  a hypothesis where it is needed, and is shown to hold for a concrete instance.

  Numeric macros are abbreviations or small definitions in the theory of the component that uses them.

  \<^bold>\<open>The theories.\<close>

  \<open>Prelude\<close>, \<open>Align\<close>, \<open>Libc\<close> and \<open>Bytes\<close> hold the integer types, the bounds lemmas for words, checked
  access to lists, loops over indices, \<^verbatim>\<open>include/kernel/align.h\<close>, the string routines, and the
  little-endian encodings with their round trips.

  \<open>RingBuffer\<close> is the ring buffer that the kernel and a process share (\<^verbatim>\<open>kernel/atomic-ring-buffer.c\<close>
  and its copy in \<^verbatim>\<open>usr/libmanticore\<close>); it refines a bounded queue, the locale \<open>bounded_queue\<close>, which
  both copies interpret. \<open>RingConcurrent\<close> has a step for every atomic access and for every byte that
  is copied by one producer and one consumer; under every interleaving what is taken out is what was
  put in, in order. \<open>IoQueue\<close> is the queue of I/O commands between \<^verbatim>\<open>io_queue.c\<close> and \<^verbatim>\<open>ioqueue.rs\<close>: what
  has room arrives, in order, and what has not is dropped without a sign.

  \<open>Printf\<close> is \<^verbatim>\<open>kernel/printf.c\<close>; \<open>PrintfText\<close> says what a format and its arguments mean as text and
  proves that this text is printed or stored, and what happens when it does not fit. \<open>Stdio\<close> is the
  user library's version, translated on its own; it agrees with the kernel on formats without a
  directive \<^verbatim>\<open>%c\<close>.

  \<open>Console\<close>, \<open>X86\<close> and \<open>Exceptions\<close> are the devices and the processor: port I/O, the two UARTs, panic,
  the local APIC, the legacy interrupt controller, PCI configuration access, descriptor tables,
  interrupt requests, the interrupt descriptor table and the handlers of exceptions. An interrupt is
  delivered to the handler that requested its vector.

  \<open>PageAlloc\<close> is \<^verbatim>\<open>kernel/memory.rs\<close>: no page is lost or handed out twice (locale \<open>page_source\<close>,
  interpreted for both page sizes). \<open>Kmem\<close> and \<open>KmemProofs\<close> are the object allocator of the kernel,
  \<open>Malloc\<close> and \<open>MallocProofs\<close> that of the user library: an object that is handed out is
  disjoint from all objects in use, in the kernel for caches of objects below 512 bytes, and in the user
  library when the memory it gets from the kernel is zero. (The kernel does not clear it; \<open>MallocProofs\<close> also shows
  what then goes wrong.) \<open>Mmu\<close> and \<open>MmuProofs\<close> are the page tables, related to the walk of
  the hardware: a mapping has the effect that is asked for, and no other. \<open>Vm\<close> and \<open>VmProofs\<close> are the
  address spaces of the processes (\<^verbatim>\<open>kernel/vm.rs\<close>).

  \<open>Sched\<close> is the scheduler and the process functions, with the step relation of their calls and its
  invariant; every process that is ready gets its turn, and runs in its own address space, which
  \<open>schedule\<close> loads before it switches. Drivers may fail (\<open>device_ops\<close>), and then the calls that run them do. \<open>Thread\<close> is the context switch, instruction by
  instruction. \<open>Event\<close> delivers events to processes, into the ring buffers of the address space that is loaded. \<open>Syscall\<close> and \<open>SyscallProofs\<close> are the system call
  entry, the calls, the copies from and to user memory with their fault handler, and the wrappers of
  the user library.

  \<open>Boot\<close> and \<open>BootProofs\<close> are the data of the boot loader, the ACPI tables and the set-up of the
  processor: the page allocator gets exactly the usable memory. \<open>Init\<close> and \<open>InitProofs\<close> go on to the
  first process, which starts at the entry point of its image. \<open>Fdt\<close>, \<open>FdtProofs\<close> and \<open>PlatformProofs\<close>
  are the device tree reader and the platform configuration of aarch64: what a tree contains is found,
  a tag is read inside the blob, and the memory that the tree describes reaches the page
  allocator.

  \<open>Pci\<close>, \<open>PciProofs\<close>, \<open>VirtioProbe\<close> and \<open>VirtioProbeProofs\<close> are the search for devices, base address
  registers, capabilities, message-signalled interrupts and the start of the network device, down to the sequence of writes that
  sets up the receive queue. \<open>Virtio\<close> and \<open>VirtioProofs\<close> are the virtqueues and the driver at work: received
  packets become events in the address space that the interrupt finds loaded (\<open>net_interrupt\<close>, on one set of ring
  buffers for each page table), commands become packets on the wire.

  \<open>Inet\<close>, \<open>Checksum\<close>, \<open>ArpCache\<close>, \<open>Net\<close>, \<open>UdpPath\<close> and \<open>Socket\<close> are the network stack, from byte order
  to the echo server: the checksum is the one of RFC 768, a datagram that is sent is received by its
  addressee with its contents, the cache of ARP entries implements a bounded map (locale \<open>bounded_map\<close>), and
  ARP requests and datagrams for the echo server are answered with complete frames (\<open>arp_reply_ok\<close>,
  \<open>wire_ok\<close>) whose commands go to the I/O queue (\<open>submitted\<close>).

  \<^bold>\<open>Fuel.\<close>

  \<open>kmem_slab_create\<close> and \<open>kmem_cache_alloc\<close> call each other with \<open>kmem_fuel\<close> = 8: four calls of depth
  are enough (a cache, its slab, the cache of slab descriptors, its slab), with one more round of each
  loop. The loop that fills a slab gets one round for each byte, more than it can use unless
  the objects have size 0. \<open>pci_probe\<close> is given the depth of the bridges it follows; there are 256
  buses, so that a search that goes deeper than 256 has entered a bus twice and does not end in the
  source either, as long as the configuration stays the same. Other fuel is the length of the list or buffer that is walked.

  \<^bold>\<open>Not modelled.\<close>

  The files of \<^verbatim>\<open>lib/libfdt\<close> that are not built; the rest of \<^verbatim>\<open>arch/aarch64\<close>, which is stubs and
  assembly; \<^verbatim>\<open>boot.S\<close>, the multiboot header and the linker scripts, which run before there is a C
  environment; what the Rust code prints on the console through the core library; \<^verbatim>\<open>__liblinux_setup\<close>,
  which stores the results of modelled calls in global variables that are arguments here; the test
  programs, the manual pages and the build files. The data that a device writes into memory appears in
  the model when the driver looks at it, and the caches of the processor, the translation lookaside
  buffer, and more than one processor are outside the model, as the kernel
  runs on one.
\<close>

end
